(* ===== verification/BTree_Map.thy ===== *)
theory BTree_Map
  imports Rust_Prelude "HOL-Library.FSet"
begin

text \<open>
  \<open>std::collections::BTreeMap\<close> as the sources use it: a finite map whose iteration order is
  the ascending order of its keys. A value of the type is the list of its entries, strictly
  ascending in the key, so two maps with the same lookups are the same value and iteration
  (\<open>iter\<close>, \<open>keys\<close>, \<open>values\<close>) is reading the list. \<open>BTreeSet\<close> is the library's \<^typ>\<open>'a fset\<close>,
  iterated with \<^const>\<open>sorted_list_of_fset\<close>.

  The operations are lifted from the lists. The locale \<open>secondary_index\<close> is the contract of an
  index from an attribute of an event to the identifiers of the events that carry it, in arrival
  order; every secondary index of the program is one, kept with \<open>entry(k).or_default().push(id)\<close>.
\<close>

subsection \<open>Strictly ascending association lists\<close>

definition asc_keys :: "('k::linorder \<times> 'v) list \<Rightarrow> bool" where
  "asc_keys es \<longleftrightarrow> sorted_wrt (<) (map fst es)"

fun al_insert :: "'k::linorder \<Rightarrow> 'v \<Rightarrow> ('k \<times> 'v) list \<Rightarrow> ('k \<times> 'v) list" where
  "al_insert k v [] = [(k, v)]"
| "al_insert k v (e # es) =
     (if fst e < k then e # al_insert k v es
      else (k, v) # (if fst e = k then es else e # es))"

lemma asc_keys_Nil [simp]: "asc_keys []"
  by (simp add: asc_keys_def)

lemma asc_keys_Cons [simp]:
  "asc_keys (e # es) \<longleftrightarrow> (\<forall>x \<in> set es. fst e < fst x) \<and> asc_keys es"
  by (auto simp: asc_keys_def)

lemma asc_keys_append:
  "asc_keys (xs @ ys) \<longleftrightarrow> asc_keys xs \<and> asc_keys ys \<and> (\<forall>x \<in> set xs. \<forall>y \<in> set ys. fst x < fst y)"
  by (auto simp: asc_keys_def sorted_wrt_append)

lemma asc_keys_distinct: "asc_keys es \<Longrightarrow> distinct (map fst es)"
  by (auto simp: asc_keys_def strict_sorted_iff)

lemma fst_set_al_insert: "fst ` set (al_insert k v es) = insert k (fst ` set es)"
  by (induction es) (auto simp: image_iff)

lemma set_al_insert_subset: "set (al_insert k v es) \<subseteq> insert (k, v) (set es)"
  by (induction es) auto

lemma asc_keys_al_insert: "asc_keys es \<Longrightarrow> asc_keys (al_insert k v es)"
proof (induction es)
  case (Cons e es)
  then show ?case
    using set_al_insert_subset [of k v es] by (auto intro: less_trans)
qed simp

lemma map_of_al_insert:
  "map_of (al_insert k v es) k' = (if k' = k then Some v else map_of es k')"
  by (induction es) auto

lemma al_insert_last:
  "\<forall>e \<in> set es. fst e < k \<Longrightarrow> al_insert k v es = es @ [(k, v)]"
  by (induction es) auto

lemma asc_keys_filter: "asc_keys es \<Longrightarrow> asc_keys (filter P es)"
  by (induction es) auto

lemma asc_keys_map_of_inject:
  assumes "asc_keys xs" "asc_keys ys" "map_of xs = map_of ys"
  shows "xs = ys"
proof -
  have dist: "distinct (map fst xs)" "distinct (map fst ys)"
    using assms by (simp_all add: asc_keys_distinct)
  have "set xs = set ys"
    using dist assms(3) by (metis map_of_eqI map_of_inject_set)
  then have "map fst xs = map fst ys"
    using assms(1,2) by (intro strict_sorted_equal) (auto simp: asc_keys_def)
  moreover have "inj_on fst (set xs \<union> set ys)"
    using dist \<open>set xs = set ys\<close> by (simp add: distinct_map)
  ultimately show ?thesis by (simp add: inj_on_map_eq_map)
qed

subsection \<open>The type and its operations\<close>

typedef (overloaded) ('k, 'v) btree = "{es :: ('k::linorder \<times> 'v) list. asc_keys es}"
  morphisms bt_iter BTree
  by (rule exI [of _ "[]"]) simp

setup_lifting type_definition_btree

lift_definition bt_empty :: "('k::linorder, 'v) btree" is "[]"
  by simp

lift_definition bt_get :: "('k::linorder, 'v) btree \<Rightarrow> 'k \<Rightarrow> 'v option" is map_of .

lift_definition bt_insert :: "'k::linorder \<Rightarrow> 'v \<Rightarrow> ('k, 'v) btree \<Rightarrow> ('k, 'v) btree" is al_insert
  by (rule asc_keys_al_insert)

lift_definition bt_retain :: "('k::linorder \<Rightarrow> 'v \<Rightarrow> bool) \<Rightarrow> ('k, 'v) btree \<Rightarrow> ('k, 'v) btree"
  is "\<lambda>P. filter (\<lambda>(k, v). P k v)"
  by (rule asc_keys_filter)

definition bt_remove :: "'k::linorder \<Rightarrow> ('k, 'v) btree \<Rightarrow> ('k, 'v) btree" where
  "bt_remove k m = bt_retain (\<lambda>k' _. k' \<noteq> k) m"

definition bt_contains_key :: "('k::linorder, 'v) btree \<Rightarrow> 'k \<Rightarrow> bool" where
  "bt_contains_key m k = (case bt_get m k of None \<Rightarrow> False | Some _ \<Rightarrow> True)"

definition bt_keys :: "('k::linorder, 'v) btree \<Rightarrow> 'k list" where
  "bt_keys m = map fst (bt_iter m)"

definition bt_values :: "('k::linorder, 'v) btree \<Rightarrow> 'v list" where
  "bt_values m = map snd (bt_iter m)"

definition bt_len :: "('k::linorder, 'v) btree \<Rightarrow> nat" where
  "bt_len m = length (bt_iter m)"

definition bt_last :: "('k::linorder, 'v) btree \<Rightarrow> ('k \<times> 'v) option" where
  "bt_last m = (if bt_iter m = [] then None else Some (last (bt_iter m)))"

definition bt_first_key :: "('k::linorder, 'v) btree \<Rightarrow> 'k option" where
  "bt_first_key m = (case bt_keys m of [] \<Rightarrow> None | k # _ \<Rightarrow> Some k)"

text \<open>\<open>collect\<close> into a map: later entries replace earlier ones with the same key.\<close>

definition bt_from_list :: "('k::linorder \<times> 'v) list \<Rightarrow> ('k, 'v) btree" where
  "bt_from_list es = fold (\<lambda>(k, v). bt_insert k v) es bt_empty"

text \<open>\<open>entry(k).or_default().push(x)\<close> and \<open>entry(k).or_default().insert(x)\<close>.\<close>

definition bt_push :: "'k::linorder \<Rightarrow> 'a \<Rightarrow> ('k, 'a list) btree \<Rightarrow> ('k, 'a list) btree" where
  "bt_push k x m = bt_insert k ((case bt_get m k of None \<Rightarrow> [] | Some xs \<Rightarrow> xs) @ [x]) m"

definition bt_add :: "'k::linorder \<Rightarrow> 'a \<Rightarrow> ('k, 'a fset) btree \<Rightarrow> ('k, 'a fset) btree" where
  "bt_add k x m = bt_insert k (finsert x (case bt_get m k of None \<Rightarrow> {||} | Some xs \<Rightarrow> xs)) m"

text \<open>\<open>get(k).into_iter().flatten()\<close>: the stored list, or nothing.\<close>

definition bt_list :: "('k::linorder, 'a list) btree \<Rightarrow> 'k \<Rightarrow> 'a list" where
  "bt_list m k = (case bt_get m k of None \<Rightarrow> [] | Some xs \<Rightarrow> xs)"

instantiation btree :: (linorder, equal) equal
begin

definition equal_btree_def: "HOL.equal m m' \<longleftrightarrow> bt_iter m = bt_iter m'"

instance
  by standard (simp add: equal_btree_def bt_iter_inject)

end

subsection \<open>Laws\<close>

lemma asc_keys_iter [simp, intro]: "asc_keys (bt_iter m)"
  using bt_iter [of m] by simp

lemma distinct_keys_iter [simp]: "distinct (map fst (bt_iter m))"
  by (simp add: asc_keys_distinct)

lemma bt_get_empty [simp]: "bt_get bt_empty k = None"
  by transfer simp

lemma bt_iter_empty [simp]: "bt_iter bt_empty = []"
  by transfer simp

lemma bt_get_insert: "bt_get (bt_insert k v m) k' = (if k' = k then Some v else bt_get m k')"
  by transfer (rule map_of_al_insert)

lemma bt_get_insert_same [simp]: "bt_get (bt_insert k v m) k = Some v"
  by (simp add: bt_get_insert)

lemma bt_get_insert_other [simp]: "k' \<noteq> k \<Longrightarrow> bt_get (bt_insert k v m) k' = bt_get m k'"
  by (simp add: bt_get_insert)

lemma bt_get_iter: "bt_get m k = Some v \<longleftrightarrow> (k, v) \<in> set (bt_iter m)"
  by transfer (simp add: asc_keys_distinct)

lemma bt_get_retain:
  "bt_get (bt_retain P m) k = (case bt_get m k of None \<Rightarrow> None | Some v \<Rightarrow> if P k v then Some v else None)"
proof (cases "bt_get (bt_retain P m) k")
  case None
  have "bt_get m k = Some v \<Longrightarrow> \<not> P k v" for v
    using None bt_get_iter [of "bt_retain P m" k v] by (auto simp: bt_get_iter bt_retain.rep_eq)
  with None show ?thesis by (auto split: option.splits)
next
  case (Some v)
  then have "(k, v) \<in> set (bt_iter m)" and "P k v"
    by (auto simp: bt_get_iter bt_retain.rep_eq)
  then have "bt_get m k = Some v" by (simp add: bt_get_iter)
  with Some \<open>P k v\<close> show ?thesis by simp
qed

lemma bt_get_remove: "bt_get (bt_remove k m) k' = (if k' = k then None else bt_get m k')"
  by (auto simp: bt_remove_def bt_get_retain split: option.splits)

lemma bt_eqI: "(\<And>k. bt_get m k = bt_get m' k) \<Longrightarrow> m = m'"
  by transfer (auto intro!: asc_keys_map_of_inject)

lemma bt_contains_key_iff: "bt_contains_key m k \<longleftrightarrow> bt_get m k \<noteq> None"
  by (simp add: bt_contains_key_def split: option.splits)

lemma set_bt_keys: "k \<in> set (bt_keys m) \<longleftrightarrow> bt_get m k \<noteq> None"
  by (force simp: bt_keys_def bt_get_iter)

lemma set_bt_values: "v \<in> set (bt_values m) \<longleftrightarrow> (\<exists>k. bt_get m k = Some v)"
  by (force simp: bt_values_def bt_get_iter)

lemma bt_iter_insert_last:
  "\<forall>e \<in> set (bt_iter m). fst e < k \<Longrightarrow> bt_iter (bt_insert k v m) = bt_iter m @ [(k, v)]"
  by (simp add: bt_insert.rep_eq al_insert_last)

lemma bt_list_empty [simp]: "bt_list bt_empty k = []"
  by (simp add: bt_list_def)

lemma bt_list_push: "bt_list (bt_push k x m) k' = (if k' = k then bt_list m k @ [x] else bt_list m k')"
  by (simp add: bt_list_def bt_push_def bt_get_insert)

lemma bt_insert_commute:
  "k \<noteq> k' \<Longrightarrow> bt_insert k v (bt_insert k' v' m) = bt_insert k' v' (bt_insert k v m)"
  by (rule bt_eqI) (auto simp: bt_get_insert)

lemma bt_insert_insert [simp]: "bt_insert k v (bt_insert k v' m) = bt_insert k v m"
  by (rule bt_eqI) (auto simp: bt_get_insert)

lemma bt_len_insert:
  "bt_len (bt_insert k v m) = (if bt_get m k = None then Suc (bt_len m) else bt_len m)"
proof -
  have "length (al_insert k v es) = (if k \<in> fst ` set es then length es else Suc (length es))"
    if "asc_keys es" for es
    using that by (induction es) (auto simp: image_iff)
  then have "bt_len (bt_insert k v m)
      = (if k \<in> fst ` set (bt_iter m) then bt_len m else Suc (bt_len m))"
    by (simp add: bt_len_def bt_insert.rep_eq)
  then show ?thesis
    using set_bt_keys [of k m] by (simp add: bt_keys_def)
qed

lemma bt_len_keys: "bt_len m = card {k. bt_get m k \<noteq> None}"
proof -
  have "{k. bt_get m k \<noteq> None} = set (bt_keys m)" by (auto simp: set_bt_keys)
  then show ?thesis by (simp add: bt_keys_def bt_len_def distinct_card flip: set_map)
qed

lemma bt_keys_sorted: "sorted_wrt (<) (bt_keys m)"
  using asc_keys_iter [of m] by (simp add: asc_keys_def bt_keys_def)

lemma bt_keys_set: "bt_keys m = sorted_list_of_set {k. bt_get m k \<noteq> None}"
proof -
  have "{k. bt_get m k \<noteq> None} = set (bt_keys m)" by (auto simp: set_bt_keys)
  then show ?thesis
    using bt_keys_sorted [of m]
    by (simp add: strict_sorted_iff sorted_list_of_set.idem_if_sorted_distinct)
qed

lemma bt_values_get: "bt_values m = map (\<lambda>k. the (bt_get m k)) (bt_keys m)"
proof -
  have "snd e = the (bt_get m (fst e))" if "e \<in> set (bt_iter m)" for e
    using that bt_get_iter [of m "fst e" "snd e"] by simp
  then show ?thesis by (simp add: bt_values_def bt_keys_def)
qed

lemmas bt_eval = bt_insert.rep_eq bt_retain.rep_eq bt_keys_def bt_values_def bt_len_def
  bt_last_def bt_first_key_def

subsection \<open>Secondary indexes\<close>

text \<open>
  \<open>add e\<close> files the identifier of the event \<open>e\<close> under each of its attribute values
  (\<open>attrs e\<close>, with repetitions); \<open>listed\<close> reads the identifiers filed under a value.
\<close>

locale secondary_index =
  fixes attrs :: "'e \<Rightarrow> 'k list"
    and ident :: "'e \<Rightarrow> 'i"
    and add :: "'e \<Rightarrow> 's \<Rightarrow> 's"
    and listed :: "'s \<Rightarrow> 'k \<Rightarrow> 'i list"
  assumes listed_add: "listed (add e s) k = listed s k @ map (\<lambda>_. ident e) (filter (\<lambda>k'. k' = k) (attrs e))"
begin

lemma listed_fold:
  "listed (fold add es s) k
     = listed s k @ concat (map (\<lambda>e. map (\<lambda>_. ident e) (filter (\<lambda>k'. k' = k) (attrs e))) es)"
  by (induction es arbitrary: s) (simp_all add: listed_add)

lemma listed_fold_single:
  assumes "\<And>e. attrs e = [attr e]"
  shows "listed (fold add es s) k = listed s k @ map ident (filter (\<lambda>e. attr e = k) es)"
  by (induction es arbitrary: s) (simp_all add: listed_add assms)

lemma listed_add_absent: "k \<notin> set (attrs e) \<Longrightarrow> listed (add e s) k = listed s k"
  by (auto simp: listed_add filter_empty_conv)

lemma set_listed_add:
  "set (listed (add e s) k) = set (listed s k) \<union> (if k \<in> set (attrs e) then {ident e} else {})"
  by (auto simp: listed_add)

end

text \<open>A map of pushed lists is a secondary index, for one attribute or for several.\<close>

lemma bt_list_push_fold:
  "bt_list (fold (\<lambda>k. bt_push k i) ks m) k = bt_list m k @ map (\<lambda>_. i) (filter (\<lambda>k'. k' = k) ks)"
  by (induction ks arbitrary: m) (auto simp: bt_list_push)

interpretation pushed: secondary_index attrs ident
  "\<lambda>e. fold (\<lambda>k. bt_push k (ident e)) (attrs e)" bt_list
  for attrs :: "'e \<Rightarrow> ('k::linorder) list" and ident :: "'e \<Rightarrow> 'i"
  by unfold_locales (rule bt_list_push_fold)

subsection \<open>Stores that keep the first record of every key\<close>

text \<open>
  The hot index, the provenance index and the metadata outbox all ingest records by key and keep
  the first one: the law of one step is the interface, and what a whole sequence leaves, that
  redelivery changes nothing, follows for each of them.
\<close>

locale dedup_store =
  fixes step :: "'e \<Rightarrow> 's \<Rightarrow> 's" and lookup :: "'s \<Rightarrow> 'k \<Rightarrow> 'e option"
    and key :: "'e \<Rightarrow> 'k" and acceptable :: "'e \<Rightarrow> bool"
  assumes lookup_step: "lookup (step e s) k =
    (if k = key e \<and> acceptable e \<and> lookup s (key e) = None then Some e else lookup s k)"
begin

lemma lookup_fold:
  "lookup (fold step es s) k =
     or_else (lookup s k) (find (\<lambda>e. acceptable e \<and> key e = k) es)"
  by (induction es arbitrary: s) (auto simp: lookup_step or_else_def split: option.split)

lemma lookup_redelivery:
  assumes "set es' \<subseteq> set es"
  shows "lookup (fold step es' (fold step es s)) k = lookup (fold step es s) k"
proof (cases "lookup (fold step es s) k")
  case None
  then have "find (\<lambda>e. acceptable e \<and> key e = k) es = None"
    by (auto simp: lookup_fold or_else_def split: option.splits)
  with assms have "find (\<lambda>e. acceptable e \<and> key e = k) es' = None"
    by (auto simp: find_None_iff)
  with None show ?thesis by (simp add: lookup_fold [of es'])
qed (simp add: lookup_fold [of es'])

lemma lookup_first_wins: "lookup s k = Some e \<Longrightarrow> lookup (fold step es s) k = Some e"
  by (simp add: lookup_fold)

end

end
