(* ===== verification/Events.thy ===== *)
theory Events
  imports BTree_Map
begin

text \<open>
  The event model: the metadata references of \<open>src/metadata.rs\<close>, the status and kind enums of
  \<open>src/process.rs\<close>, and \<open>PipelineEvent\<close> with its constructor, builders and validation from
  \<open>src/ingest.rs\<close>. The string newtypes of the crate derive their order from \<open>String\<close>, so they are
  synonyms of \<open>string\<close>. The derived order of \<open>MetadataRef\<close> (variant first, then the fields, \<open>None\<close>
  below \<open>Some\<close>) is an instance of \<open>linorder\<close>, since the reference is a key of ordered maps.
\<close>

subsection \<open>Metadata references\<close>

type_synonym MetadataVersion = string

datatype MetadataRef =
  Dataset string
| Schema string "MetadataVersion option"
| Field string
| PipelineDefinition string "MetadataVersion option"
| Object string
| LineageEdge string
| DataContract string
| Owner string
| Classification string

fun MetadataRef_kind :: "MetadataRef \<Rightarrow> string" where
  "MetadataRef_kind (Dataset _) = ''dataset''"
| "MetadataRef_kind (Schema _ _) = ''schema''"
| "MetadataRef_kind (Field _) = ''field''"
| "MetadataRef_kind (PipelineDefinition _ _) = ''pipeline_definition''"
| "MetadataRef_kind (Object _) = ''object''"
| "MetadataRef_kind (LineageEdge _) = ''lineage_edge''"
| "MetadataRef_kind (DataContract _) = ''data_contract''"
| "MetadataRef_kind (Owner _) = ''owner''"
| "MetadataRef_kind (Classification _) = ''classification''"

fun ref_key :: "MetadataRef \<Rightarrow> nat \<times> string \<times> MetadataVersion option" where
  "ref_key (Dataset i) = (0, i, None)"
| "ref_key (Schema i v) = (1, i, v)"
| "ref_key (Field i) = (2, i, None)"
| "ref_key (PipelineDefinition i v) = (3, i, v)"
| "ref_key (Object i) = (4, i, None)"
| "ref_key (LineageEdge i) = (5, i, None)"
| "ref_key (DataContract i) = (6, i, None)"
| "ref_key (Owner i) = (7, i, None)"
| "ref_key (Classification i) = (8, i, None)"

lemma ref_key_inject [simp]: "ref_key a = ref_key b \<longleftrightarrow> a = b"
  by (cases a; cases b) auto

instantiation MetadataRef :: linorder
begin

definition less_eq_MetadataRef :: "MetadataRef \<Rightarrow> MetadataRef \<Rightarrow> bool" where
  "a \<le> b \<longleftrightarrow> ref_key a \<le> ref_key b"

definition less_MetadataRef :: "MetadataRef \<Rightarrow> MetadataRef \<Rightarrow> bool" where
  "a < b \<longleftrightarrow> ref_key a < ref_key b"

instance
  by standard (auto simp: less_eq_MetadataRef_def less_MetadataRef_def less_le)

end

subsection \<open>Statuses and kinds\<close>

type_synonym EventId = string
type_synonym SourceId = string
type_synonym SourceSequence = u64
type_synonym TenantId = string
type_synonym EnvironmentId = string
type_synonym PipelineId = string
type_synonym ProcessDefinitionId = string
type_synonym ProcessInstanceId = string
type_synonym ActivityId = string
type_synonym TokenId = string
type_synonym CorrelationId = string
type_synonym BusinessKey = string
type_synonym ProcessVersion = string
type_synonym EventTimestamp = string

datatype EventStatus = EvStarted | EvCompleted | EvFailed | EvEscalated | EvCancelled

datatype EventKind =
  ProcessStarted
| ActivityEntered
| ActivityCompleted
| ActivityEscalated
| ActivityCancelled
| GatewayTaken
| ProcessCompleted
| ProcessFailed
| UnknownKind string

fun inferred_status :: "EventKind \<Rightarrow> EventStatus" where
  "inferred_status ProcessStarted = EvStarted"
| "inferred_status ActivityEntered = EvStarted"
| "inferred_status ActivityCompleted = EvCompleted"
| "inferred_status GatewayTaken = EvCompleted"
| "inferred_status ProcessCompleted = EvCompleted"
| "inferred_status ActivityEscalated = EvEscalated"
| "inferred_status ActivityCancelled = EvCancelled"
| "inferred_status ProcessFailed = EvFailed"
| "inferred_status (UnknownKind _) = EvStarted"

record ErrorInfo =
  err_message :: string
  err_code :: "string option"

subsection \<open>Pipeline events\<close>

record PipelineEvent =
  pe_event_id :: EventId
  pe_source_id :: SourceId
  pe_source_sequence :: SourceSequence
  pe_tenant_id :: TenantId
  pe_environment_id :: EnvironmentId
  pe_pipeline_id :: PipelineId
  pe_process_definition_id :: ProcessDefinitionId
  pe_process_instance_id :: ProcessInstanceId
  pe_process_version :: "ProcessVersion option"
  pe_activity_id :: "ActivityId option"
  pe_token_id :: "TokenId option"
  pe_correlation_id :: "CorrelationId option"
  pe_business_key :: "BusinessKey option"
  pe_timestamp :: EventTimestamp
  pe_status :: EventStatus
  pe_kind :: EventKind
  pe_error :: "ErrorInfo option"
  pe_metadata_refs :: "MetadataRef list"
  pe_metadata_version :: "MetadataVersion option"
  pe_causal_parent :: "EventId option"
  pe_payload :: "string option"

definition PipelineEvent_new ::
  "EventId \<Rightarrow> SourceId \<Rightarrow> SourceSequence \<Rightarrow> TenantId \<Rightarrow> EnvironmentId \<Rightarrow> PipelineId \<Rightarrow>
   ProcessDefinitionId \<Rightarrow> ProcessInstanceId \<Rightarrow> EventTimestamp \<Rightarrow> EventKind \<Rightarrow> PipelineEvent" where
  "PipelineEvent_new event_id source_id source_sequence tenant_id environment_id pipeline_id
     process_definition_id process_instance_id timestamp kind =
     \<lparr>pe_event_id = event_id, pe_source_id = source_id, pe_source_sequence = source_sequence,
      pe_tenant_id = tenant_id, pe_environment_id = environment_id, pe_pipeline_id = pipeline_id,
      pe_process_definition_id = process_definition_id,
      pe_process_instance_id = process_instance_id, pe_process_version = None,
      pe_activity_id = None, pe_token_id = None, pe_correlation_id = None,
      pe_business_key = None, pe_timestamp = timestamp, pe_status = inferred_status kind,
      pe_kind = kind, pe_error = None, pe_metadata_refs = [], pe_metadata_version = None,
      pe_causal_parent = None, pe_payload = None\<rparr>"

definition with_status :: "EventStatus \<Rightarrow> PipelineEvent \<Rightarrow> PipelineEvent" where
  "with_status s e = e\<lparr>pe_status := s\<rparr>"

definition with_process_version :: "ProcessVersion \<Rightarrow> PipelineEvent \<Rightarrow> PipelineEvent" where
  "with_process_version v e = e\<lparr>pe_process_version := Some v\<rparr>"

definition with_activity_id :: "ActivityId \<Rightarrow> PipelineEvent \<Rightarrow> PipelineEvent" where
  "with_activity_id a e = e\<lparr>pe_activity_id := Some a\<rparr>"

definition with_token_id :: "TokenId \<Rightarrow> PipelineEvent \<Rightarrow> PipelineEvent" where
  "with_token_id t e = e\<lparr>pe_token_id := Some t\<rparr>"

definition with_correlation_id :: "CorrelationId \<Rightarrow> PipelineEvent \<Rightarrow> PipelineEvent" where
  "with_correlation_id c e = e\<lparr>pe_correlation_id := Some c\<rparr>"

definition with_business_key :: "BusinessKey \<Rightarrow> PipelineEvent \<Rightarrow> PipelineEvent" where
  "with_business_key b e = e\<lparr>pe_business_key := Some b\<rparr>"

definition with_error :: "ErrorInfo \<Rightarrow> PipelineEvent \<Rightarrow> PipelineEvent" where
  "with_error err e = e\<lparr>pe_error := Some err\<rparr>"

definition with_metadata_refs :: "MetadataRef list \<Rightarrow> PipelineEvent \<Rightarrow> PipelineEvent" where
  "with_metadata_refs refs e = e\<lparr>pe_metadata_refs := refs\<rparr>"

definition with_metadata_version :: "MetadataVersion \<Rightarrow> PipelineEvent \<Rightarrow> PipelineEvent" where
  "with_metadata_version v e = e\<lparr>pe_metadata_version := Some v\<rparr>"

definition with_causal_parent :: "EventId \<Rightarrow> PipelineEvent \<Rightarrow> PipelineEvent" where
  "with_causal_parent i e = e\<lparr>pe_causal_parent := Some i\<rparr>"

definition with_payload :: "string \<Rightarrow> PipelineEvent \<Rightarrow> PipelineEvent" where
  "with_payload p e = e\<lparr>pe_payload := Some p\<rparr>"

lemmas event_builder_defs = PipelineEvent_new_def with_status_def with_process_version_def
  with_activity_id_def with_token_id_def with_correlation_id_def with_business_key_def
  with_error_def with_metadata_refs_def with_metadata_version_def with_causal_parent_def
  with_payload_def

subsection \<open>Validation\<close>

datatype IngestError = EmptyField string

definition validate_non_empty :: "string \<Rightarrow> string \<Rightarrow> IngestError + unit" where
  "validate_non_empty field val = (if val = [] then Err (EmptyField field) else Ok ())"

definition PipelineEvent_validate :: "PipelineEvent \<Rightarrow> IngestError + unit" where
  "PipelineEvent_validate e =
     res_bind (validate_non_empty ''event_id'' (pe_event_id e)) (\<lambda>_.
     res_bind (validate_non_empty ''source_id'' (pe_source_id e)) (\<lambda>_.
     res_bind (validate_non_empty ''tenant_id'' (pe_tenant_id e)) (\<lambda>_.
     res_bind (validate_non_empty ''environment_id'' (pe_environment_id e)) (\<lambda>_.
     res_bind (validate_non_empty ''pipeline_id'' (pe_pipeline_id e)) (\<lambda>_.
     res_bind (validate_non_empty ''process_definition_id'' (pe_process_definition_id e)) (\<lambda>_.
     res_bind (validate_non_empty ''process_instance_id'' (pe_process_instance_id e)) (\<lambda>_.
     res_bind (validate_non_empty ''timestamp'' (pe_timestamp e)) (\<lambda>_. Ok ()))))))))"

definition event_valid :: "PipelineEvent \<Rightarrow> bool" where
  "event_valid e \<longleftrightarrow> list_all (\<lambda>s. s \<noteq> [])
     [pe_event_id e, pe_source_id e, pe_tenant_id e, pe_environment_id e, pe_pipeline_id e,
      pe_process_definition_id e, pe_process_instance_id e, pe_timestamp e]"

lemma validate_iff: "PipelineEvent_validate e = Inr () \<longleftrightarrow> event_valid e"
  by (auto simp: PipelineEvent_validate_def validate_non_empty_def event_valid_def)

lemma validate_cases:
  "PipelineEvent_validate e = (if event_valid e then Inr () else Inl (projl (PipelineEvent_validate e)))"
  by (cases "PipelineEvent_validate e") (auto simp flip: validate_iff)

end
