(* ===== verification/Codec.thy ===== *)
theory Codec
  imports Rust_Prelude
begin

text \<open>
  What the two binary codecs of the crate share (\<open>PayloadCursor\<close> in \<open>src/ingest.rs\<close>, \<open>DecodeCursor\<close>
  in \<open>src/ipto.rs\<close>): a cursor over a byte slice, readers that fail or advance it, and a calculus for
  proving that a reader inverts an encoder. \<open>decodes eof p bs x\<close> says that \<open>p\<close> reads exactly the
  bytes \<open>bs\<close> as \<open>x\<close> wherever they stand, and fails with \<open>eof\<close> when the slice ends inside them. The
  locale \<open>byte_cursor\<close> is the interface of a cursor: its only primitive is \<open>take\<close>, and the readers
  for integers, strings and options are proved once from the law of \<open>take\<close>.
\<close>

record cursor =
  cu_bytes :: bytes
  cu_pos :: nat

type_synonym ('a, 'e) reader = "cursor \<Rightarrow> 'e + 'a \<times> cursor"

definition cursor_new :: "bytes \<Rightarrow> cursor" where
  "cursor_new bs = \<lparr>cu_bytes = bs, cu_pos = 0\<rparr>"

definition rd_return :: "'a \<Rightarrow> ('a, 'e) reader" where
  "rd_return x = (\<lambda>c. Ok (x, c))"

definition rd_fail :: "'e \<Rightarrow> ('a, 'e) reader" where
  "rd_fail e = (\<lambda>c. Err e)"

definition rd_bind :: "('a, 'e) reader \<Rightarrow> ('a \<Rightarrow> ('b, 'e) reader) \<Rightarrow> ('b, 'e) reader" where
  "rd_bind p f = (\<lambda>c. res_bind (p c) (\<lambda>(x, c'). f x c'))"

text \<open>\<open>for _ in 0..count { acc = body(acc)? }\<close>\<close>

primrec rd_times :: "nat \<Rightarrow> ('a \<Rightarrow> ('a, 'e) reader) \<Rightarrow> 'a \<Rightarrow> ('a, 'e) reader" where
  "rd_times 0 body acc = rd_return acc"
| "rd_times (Suc n) body acc = rd_bind (body acc) (rd_times n body)"

definition decodes :: "'e \<Rightarrow> ('a, 'e) reader \<Rightarrow> bytes \<Rightarrow> 'a \<Rightarrow> bool" where
  "decodes eof p bs x \<longleftrightarrow>
     (\<forall>pre rest. length (pre @ bs @ rest) < 2 ^ 64 \<longrightarrow>
        p \<lparr>cu_bytes = pre @ bs @ rest, cu_pos = length pre\<rparr>
          = Ok (x, \<lparr>cu_bytes = pre @ bs @ rest, cu_pos = length pre + length bs\<rparr>)) \<and>
     (\<forall>pre n. n < length bs \<longrightarrow> length (pre @ bs) < 2 ^ 64 \<longrightarrow>
        p \<lparr>cu_bytes = pre @ take n bs, cu_pos = length pre\<rparr> = Err eof)"

lemma decodes_run:
  "decodes eof p bs x \<Longrightarrow> length (bs @ rest) < 2 ^ 64 \<Longrightarrow>
     p (cursor_new (bs @ rest)) = Inr (x, \<lparr>cu_bytes = bs @ rest, cu_pos = length bs\<rparr>)"
  by (auto simp: decodes_def cursor_new_def dest: spec [of _ "[]"])

lemma decodes_truncated:
  "decodes eof p bs x \<Longrightarrow> n < length bs \<Longrightarrow> length bs < 2 ^ 64 \<Longrightarrow>
     p (cursor_new (take n bs)) = Inl eof"
  by (auto simp: decodes_def cursor_new_def dest: spec [of _ "[]"])

lemma decodes_return [intro]: "decodes eof (rd_return x) [] x"
  by (simp add: decodes_def rd_return_def)

lemma decodes_bind:
  assumes "decodes eof p bs x" "decodes eof (f x) bs' y"
  shows "decodes eof (rd_bind p f) (bs @ bs') y"
  unfolding decodes_def
proof (intro conjI allI impI)
  fix pre rest assume "length (pre @ (bs @ bs') @ rest) < 2 ^ 64"
  then show "rd_bind p f \<lparr>cu_bytes = pre @ (bs @ bs') @ rest, cu_pos = length pre\<rparr>
      = Inr (y, \<lparr>cu_bytes = pre @ (bs @ bs') @ rest, cu_pos = length pre + length (bs @ bs')\<rparr>)"
    using assms(1) [unfolded decodes_def, THEN conjunct1, rule_format, of pre "bs' @ rest"]
      assms(2) [unfolded decodes_def, THEN conjunct1, rule_format, of "pre @ bs" rest]
    by (simp add: rd_bind_def ac_simps)
next
  fix pre n assume n: "n < length (bs @ bs')" "length (pre @ bs @ bs') < 2 ^ 64"
  show "rd_bind p f \<lparr>cu_bytes = pre @ take n (bs @ bs'), cu_pos = length pre\<rparr> = Inl eof"
  proof (cases "n < length bs")
    case True
    then show ?thesis
      using n assms(1) [unfolded decodes_def, THEN conjunct2, rule_format, of n pre]
      by (simp add: rd_bind_def)
  next
    case False
    then show ?thesis
      using n assms(1) [unfolded decodes_def, THEN conjunct1, rule_format, of pre "take (n - length bs) bs'"]
        assms(2) [unfolded decodes_def, THEN conjunct2, rule_format, of "n - length bs" "pre @ bs"]
      by (simp add: rd_bind_def)
  qed
qed

lemma decodes_bind_return:
  "decodes eof p bs x \<Longrightarrow> decodes eof (rd_bind p (\<lambda>x. rd_return (g x))) bs (g x)"
  using decodes_bind [where bs' = "[]" and f = "\<lambda>x. rd_return (g x)"] by fastforce

lemma decodes_Cons:
  "decodes eof p [b] x \<Longrightarrow> decodes eof (f x) bs' y \<Longrightarrow> decodes eof (rd_bind p f) (b # bs') y"
  using decodes_bind [of eof p "[b]" x f bs' y] by simp

lemma decodes_times:
  assumes "\<And>x acc. x \<in> set xs \<Longrightarrow> decodes eof (body acc) (enc x) (upd x acc)"
  shows "decodes eof (rd_times (length xs) body acc) (concat (map enc xs)) (fold upd xs acc)"
  using assms by (induction xs arbitrary: acc) (auto intro!: decodes_bind)

subsection \<open>The interface of a cursor\<close>

definition str_ok :: "string \<Rightarrow> bool" where
  "str_ok s \<longleftrightarrow> rust_string s \<and> length s < 2 ^ 32"

definition enc_string :: "string \<Rightarrow> bytes" where
  "enc_string s = to_le_bytes 4 (of_nat (length s) :: u32) @ as_bytes s"

lemma length_enc_string [simp]: "length (enc_string s) = 4 + length s"
  by (simp add: enc_string_def)

locale byte_cursor =
  fixes tk :: "nat \<Rightarrow> (bytes, 'e) reader" and eof utf8_error :: 'e
  assumes tk_exact: "decodes eof (tk (length bs)) bs bs"
begin

lemma decodes_u8: "decodes eof (rd_bind (tk 1) (\<lambda>b. rd_return (b ! 0))) [w] w"
  using decodes_bind_return [OF tk_exact [of "[w]"], of "\<lambda>b. b ! 0"] by simp

lemma decodes_u32:
  "decodes eof (rd_bind (tk 4) (\<lambda>b. rd_return (from_le_bytes b :: u32))) (to_le_bytes 4 w) w"
  using decodes_bind_return [OF tk_exact [of "to_le_bytes 4 w"], of "from_le_bytes :: bytes \<Rightarrow> u32"]
  by simp

lemma decodes_u64:
  "decodes eof (rd_bind (tk 8) (\<lambda>b. rd_return (from_le_bytes b :: u64))) (to_le_bytes 8 w) w"
  using decodes_bind_return [OF tk_exact [of "to_le_bytes 8 w"], of "from_le_bytes :: bytes \<Rightarrow> u64"]
  by simp

lemma decodes_string:
  assumes "str_ok s"
  shows "decodes eof
    (rd_bind (rd_bind (tk 4) (\<lambda>b. rd_return (from_le_bytes b :: u32))) (\<lambda>n.
     rd_bind (tk (unat n)) (\<lambda>b.
       case from_utf8 b of None \<Rightarrow> rd_fail utf8_error | Some s \<Rightarrow> rd_return s)))
    (enc_string s) s"
  unfolding enc_string_def
proof (rule decodes_bind [OF decodes_u32])
  have len: "unat (of_nat (length s) :: u32) = length (as_bytes s)"
    using assms by (simp add: str_ok_def unat_of_nat)
  have "from_utf8 (as_bytes s) = Some s"
    using assms by (simp add: str_ok_def rust_string_def from_utf8_as_bytes)
  then show "decodes eof (rd_bind (tk (unat (of_nat (length s) :: u32)))
     (\<lambda>b. case from_utf8 b of None \<Rightarrow> rd_fail utf8_error | Some s \<Rightarrow> rd_return s)) (as_bytes s) s"
    using decodes_bind [OF tk_exact [of "as_bytes s"], of _ "[]" s] unfolding len
    by (simp add: decodes_return)
qed

end

end
