(* ===== verification/Event_Codec.thy ===== *)
theory Event_Codec
  imports Events Codec
begin

text \<open>
  The binary codec of pipeline events in \<open>src/ingest.rs\<close>: the \<open>put_*\<close> functions (each gives the
  bytes it appends to \<open>out\<close>), \<open>PayloadCursor\<close>, \<open>encode_pipeline_event\<close> and \<open>decode_pipeline_event\<close>.
  Decoding inverts encoding, a payload that ends early is rejected as truncated at every length,
  and bytes after the event are rejected.
\<close>

datatype ProcessEventDecodeError =
  PdInvalidMagic
| PdUnexpectedEof
| PdTrailingBytes nat
| PdInvalidUtf8
| PdInvalidBool u8
| PdInvalidEventStatus u8
| PdInvalidEventKind u8
| PdInvalidMetadataRefKind u8

definition PIPELINE_EVENT_CODEC_MAGIC :: bytes where
  "PIPELINE_EVENT_CODEC_MAGIC = as_bytes ''VPE1''"

subsection \<open>Encoding\<close>

definition put_u32 :: "u32 \<Rightarrow> bytes" where
  "put_u32 val = to_le_bytes 4 val"

definition put_u64 :: "u64 \<Rightarrow> bytes" where
  "put_u64 val = to_le_bytes 8 val"

definition put_string :: "string \<Rightarrow> bytes" where
  "put_string val = put_u32 (of_nat (length val)) @ as_bytes val"

fun put_option_string :: "string option \<Rightarrow> bytes" where
  "put_option_string (Some val) = 1 # put_string val"
| "put_option_string None = [0]"

fun put_option_error :: "ErrorInfo option \<Rightarrow> bytes" where
  "put_option_error (Some err) = 1 # put_string (err_message err) @ put_option_string (err_code err)"
| "put_option_error None = [0]"

fun put_metadata_ref :: "MetadataRef \<Rightarrow> bytes" where
  "put_metadata_ref (Dataset i) = 0 # put_string i"
| "put_metadata_ref (Schema i v) = 1 # put_string i @ put_option_string v"
| "put_metadata_ref (Field i) = 2 # put_string i"
| "put_metadata_ref (PipelineDefinition i v) = 3 # put_string i @ put_option_string v"
| "put_metadata_ref (Object i) = 4 # put_string i"
| "put_metadata_ref (LineageEdge i) = 5 # put_string i"
| "put_metadata_ref (DataContract i) = 6 # put_string i"
| "put_metadata_ref (Owner i) = 7 # put_string i"
| "put_metadata_ref (Classification i) = 8 # put_string i"

definition put_metadata_refs :: "MetadataRef list \<Rightarrow> bytes" where
  "put_metadata_refs refs = put_u32 (of_nat (length refs)) @ concat (map put_metadata_ref refs)"

fun encode_event_status :: "EventStatus \<Rightarrow> u8" where
  "encode_event_status EvStarted = 0"
| "encode_event_status EvCompleted = 1"
| "encode_event_status EvFailed = 2"
| "encode_event_status EvEscalated = 3"
| "encode_event_status EvCancelled = 4"

fun encode_event_kind :: "EventKind \<Rightarrow> bytes" where
  "encode_event_kind ProcessStarted = [0]"
| "encode_event_kind ActivityEntered = [1]"
| "encode_event_kind ActivityCompleted = [2]"
| "encode_event_kind ActivityEscalated = [3]"
| "encode_event_kind ActivityCancelled = [4]"
| "encode_event_kind GatewayTaken = [5]"
| "encode_event_kind ProcessCompleted = [6]"
| "encode_event_kind ProcessFailed = [7]"
| "encode_event_kind (UnknownKind s) = 8 # put_string s"

definition encode_pipeline_event :: "PipelineEvent \<Rightarrow> bytes" where
  "encode_pipeline_event event =
     PIPELINE_EVENT_CODEC_MAGIC @
     put_string (pe_event_id event) @
     put_string (pe_source_id event) @
     put_u64 (pe_source_sequence event) @
     put_string (pe_tenant_id event) @
     put_string (pe_environment_id event) @
     put_string (pe_pipeline_id event) @
     put_string (pe_process_definition_id event) @
     put_string (pe_process_instance_id event) @
     put_option_string (pe_process_version event) @
     put_option_string (pe_activity_id event) @
     put_option_string (pe_token_id event) @
     put_option_string (pe_correlation_id event) @
     put_option_string (pe_business_key event) @
     put_string (pe_timestamp event) @
     [encode_event_status (pe_status event)] @
     encode_event_kind (pe_kind event) @
     put_option_error (pe_error event) @
     put_metadata_refs (pe_metadata_refs event) @
     put_option_string (pe_metadata_version event) @
     put_option_string (pe_causal_parent event) @
     put_option_string (pe_payload event)"

subsection \<open>The cursor\<close>

type_synonym 'a pd_reader = "('a, ProcessEventDecodeError) reader"

definition PayloadCursor_finish :: "unit pd_reader" where
  "PayloadCursor_finish c =
     (let remaining = length (cu_bytes c) - cu_pos c in
      if remaining = 0 then Ok ((), c) else Err (PdTrailingBytes remaining))"

definition PayloadCursor_take :: "nat \<Rightarrow> bytes pd_reader" where
  "PayloadCursor_take len c =
     res_bind (ok_or PdUnexpectedEof (usize_checked_add (cu_pos c) len)) (\<lambda>end'.
     if end' > length (cu_bytes c) then Err PdUnexpectedEof
     else Ok (take (end' - cu_pos c) (drop (cu_pos c) (cu_bytes c)), c\<lparr>cu_pos := end'\<rparr>))"

definition PayloadCursor_u8 :: "u8 pd_reader" where
  "PayloadCursor_u8 = rd_bind (PayloadCursor_take 1) (\<lambda>b. rd_return (b ! 0))"

definition PayloadCursor_u32 :: "u32 pd_reader" where
  "PayloadCursor_u32 = rd_bind (PayloadCursor_take 4) (\<lambda>b. rd_return (from_le_bytes b))"

definition PayloadCursor_u64 :: "u64 pd_reader" where
  "PayloadCursor_u64 = rd_bind (PayloadCursor_take 8) (\<lambda>b. rd_return (from_le_bytes b))"

definition PayloadCursor_string :: "string pd_reader" where
  "PayloadCursor_string =
     rd_bind PayloadCursor_u32 (\<lambda>len.
     rd_bind (PayloadCursor_take (unat len)) (\<lambda>b.
     case from_utf8 b of None \<Rightarrow> rd_fail PdInvalidUtf8 | Some s \<Rightarrow> rd_return s))"

definition PayloadCursor_option_string :: "string option pd_reader" where
  "PayloadCursor_option_string =
     rd_bind PayloadCursor_u8 (\<lambda>val.
     if val = 0 then rd_return None
     else if val = 1 then rd_bind PayloadCursor_string (\<lambda>s. rd_return (Some s))
     else rd_fail (PdInvalidBool val))"

definition PayloadCursor_option_error :: "ErrorInfo option pd_reader" where
  "PayloadCursor_option_error =
     rd_bind PayloadCursor_u8 (\<lambda>val.
     if val = 0 then rd_return None
     else if val = 1 then
       rd_bind PayloadCursor_string (\<lambda>message.
       rd_bind PayloadCursor_option_string (\<lambda>code.
       rd_return (Some \<lparr>err_message = message, err_code = code\<rparr>)))
     else rd_fail (PdInvalidBool val))"

definition PayloadCursor_metadata_ref :: "MetadataRef pd_reader" where
  "PayloadCursor_metadata_ref =
     rd_bind PayloadCursor_u8 (\<lambda>val.
     if val = 0 then rd_bind PayloadCursor_string (\<lambda>i. rd_return (Dataset i))
     else if val = 1 then
       rd_bind PayloadCursor_string (\<lambda>i.
       rd_bind PayloadCursor_option_string (\<lambda>v. rd_return (Schema i v)))
     else if val = 2 then rd_bind PayloadCursor_string (\<lambda>i. rd_return (Field i))
     else if val = 3 then
       rd_bind PayloadCursor_string (\<lambda>i.
       rd_bind PayloadCursor_option_string (\<lambda>v. rd_return (PipelineDefinition i v)))
     else if val = 4 then rd_bind PayloadCursor_string (\<lambda>i. rd_return (Object i))
     else if val = 5 then rd_bind PayloadCursor_string (\<lambda>i. rd_return (LineageEdge i))
     else if val = 6 then rd_bind PayloadCursor_string (\<lambda>i. rd_return (DataContract i))
     else if val = 7 then rd_bind PayloadCursor_string (\<lambda>i. rd_return (Owner i))
     else if val = 8 then rd_bind PayloadCursor_string (\<lambda>i. rd_return (Classification i))
     else rd_fail (PdInvalidMetadataRefKind val))"

definition PayloadCursor_metadata_refs :: "MetadataRef list pd_reader" where
  "PayloadCursor_metadata_refs =
     rd_bind PayloadCursor_u32 (\<lambda>count.
     rd_times (unat count)
       (\<lambda>refs. rd_bind PayloadCursor_metadata_ref (\<lambda>r. rd_return (refs @ [r]))) [])"

subsection \<open>Decoding\<close>

definition decode_event_status :: "u8 \<Rightarrow> ProcessEventDecodeError + EventStatus" where
  "decode_event_status val =
     (if val = 0 then Ok EvStarted
      else if val = 1 then Ok EvCompleted
      else if val = 2 then Ok EvFailed
      else if val = 3 then Ok EvEscalated
      else if val = 4 then Ok EvCancelled
      else Err (PdInvalidEventStatus val))"

definition decode_event_kind :: "u8 \<Rightarrow> EventKind pd_reader" where
  "decode_event_kind val =
     (if val = 0 then rd_return ProcessStarted
      else if val = 1 then rd_return ActivityEntered
      else if val = 2 then rd_return ActivityCompleted
      else if val = 3 then rd_return ActivityEscalated
      else if val = 4 then rd_return ActivityCancelled
      else if val = 5 then rd_return GatewayTaken
      else if val = 6 then rd_return ProcessCompleted
      else if val = 7 then rd_return ProcessFailed
      else if val = 8 then rd_bind PayloadCursor_string (\<lambda>s. rd_return (UnknownKind s))
      else rd_fail (PdInvalidEventKind val))"

text \<open>\<open>if let Some(value) = x { event = event.with_x(value) }\<close>\<close>

definition with_some :: "('v \<Rightarrow> PipelineEvent \<Rightarrow> PipelineEvent) \<Rightarrow> 'v option \<Rightarrow> PipelineEvent \<Rightarrow> PipelineEvent" where
  "with_some f x event = (case x of None \<Rightarrow> event | Some v \<Rightarrow> f v event)"

definition rd_lift :: "'e + 'a \<Rightarrow> ('a, 'e) reader" where
  "rd_lift r = (\<lambda>c. res_bind r (\<lambda>x. Ok (x, c)))"

definition read_pipeline_event :: "PipelineEvent pd_reader" where
  "read_pipeline_event =
     rd_bind (PayloadCursor_take (length PIPELINE_EVENT_CODEC_MAGIC)) (\<lambda>magic.
     if magic \<noteq> PIPELINE_EVENT_CODEC_MAGIC then rd_fail PdInvalidMagic else
     rd_bind PayloadCursor_string (\<lambda>event_id.
     rd_bind PayloadCursor_string (\<lambda>source_id.
     rd_bind PayloadCursor_u64 (\<lambda>source_sequence.
     rd_bind PayloadCursor_string (\<lambda>tenant_id.
     rd_bind PayloadCursor_string (\<lambda>environment_id.
     rd_bind PayloadCursor_string (\<lambda>pipeline_id.
     rd_bind PayloadCursor_string (\<lambda>process_definition_id.
     rd_bind PayloadCursor_string (\<lambda>process_instance_id.
     rd_bind PayloadCursor_option_string (\<lambda>process_version.
     rd_bind PayloadCursor_option_string (\<lambda>activity_id.
     rd_bind PayloadCursor_option_string (\<lambda>token_id.
     rd_bind PayloadCursor_option_string (\<lambda>correlation_id.
     rd_bind PayloadCursor_option_string (\<lambda>business_key.
     rd_bind PayloadCursor_string (\<lambda>timestamp.
     rd_bind (rd_bind PayloadCursor_u8 (\<lambda>val. rd_lift (decode_event_status val))) (\<lambda>status.
     rd_bind (rd_bind PayloadCursor_u8 decode_event_kind) (\<lambda>kind.
     rd_bind PayloadCursor_option_error (\<lambda>err.
     rd_bind PayloadCursor_metadata_refs (\<lambda>metadata_refs.
     rd_bind PayloadCursor_option_string (\<lambda>metadata_version.
     rd_bind PayloadCursor_option_string (\<lambda>causal_parent.
     rd_bind PayloadCursor_option_string (\<lambda>event_payload.
     rd_return
       (with_some with_payload event_payload
       (with_some with_causal_parent causal_parent
       (with_some with_metadata_version metadata_version
       (with_some with_error err
       (with_some with_business_key business_key
       (with_some with_correlation_id correlation_id
       (with_some with_token_id token_id
       (with_some with_activity_id activity_id
       (with_some with_process_version process_version
       (with_metadata_refs metadata_refs
       (with_status status
       (PipelineEvent_new event_id source_id source_sequence tenant_id environment_id pipeline_id
          process_definition_id process_instance_id timestamp kind))))))))))))
     ))))))))))))))))))))))"

definition decode_pipeline_event :: "bytes \<Rightarrow> ProcessEventDecodeError + PipelineEvent" where
  "decode_pipeline_event payload =
     res_bind (read_pipeline_event (cursor_new payload)) (\<lambda>(event, c).
     res_bind (PayloadCursor_finish c) (\<lambda>_. Ok event))"

subsection \<open>Each reader inverts its encoder\<close>

interpretation payload_cursor: byte_cursor PayloadCursor_take PdUnexpectedEof PdInvalidUtf8
proof
  fix bs show "decodes PdUnexpectedEof (PayloadCursor_take (length bs)) bs bs"
    by (auto simp: decodes_def PayloadCursor_take_def usize_checked_add_def)
qed

abbreviation pd_decodes :: "'a pd_reader \<Rightarrow> bytes \<Rightarrow> 'a \<Rightarrow> bool" where
  "pd_decodes \<equiv> decodes PdUnexpectedEof"

lemma put_string_enc: "put_string s = enc_string s"
  by (simp add: put_string_def put_u32_def enc_string_def)

lemma pd_u8: "pd_decodes PayloadCursor_u8 [w] w"
  unfolding PayloadCursor_u8_def by (rule payload_cursor.decodes_u8)

lemma pd_u64: "pd_decodes PayloadCursor_u64 (put_u64 w) w"
  unfolding PayloadCursor_u64_def put_u64_def by (rule payload_cursor.decodes_u64)

lemma pd_u32: "pd_decodes PayloadCursor_u32 (put_u32 w) w"
  unfolding PayloadCursor_u32_def put_u32_def by (rule payload_cursor.decodes_u32)

lemma pd_string: "str_ok s \<Longrightarrow> pd_decodes PayloadCursor_string (put_string s) s"
  unfolding PayloadCursor_string_def PayloadCursor_u32_def put_string_enc
  by (rule payload_cursor.decodes_string)

lemma pd_string_map:
  "str_ok s \<Longrightarrow> pd_decodes (rd_bind PayloadCursor_string (\<lambda>s. rd_return (g s))) (put_string s) (g s)"
  by (rule decodes_bind_return [OF pd_string])

lemma pd_option_string: "pred_option str_ok s \<Longrightarrow> pd_decodes PayloadCursor_option_string (put_option_string s) s"
  unfolding PayloadCursor_option_string_def
  by (cases s) (auto intro!: decodes_Cons [OF pd_u8] pd_string_map)

lemma pd_status: "pd_decodes (rd_bind PayloadCursor_u8 (\<lambda>val. rd_lift (decode_event_status val)))
    [encode_event_status st] st"
  by (rule decodes_Cons [OF pd_u8])
    (cases st; simp add: decode_event_status_def rd_lift_def decodes_return [unfolded rd_return_def])

definition kind_ok :: "EventKind \<Rightarrow> bool" where
  "kind_ok k = (case k of UnknownKind s \<Rightarrow> str_ok s | _ \<Rightarrow> True)"

lemma pd_kind:
  assumes "kind_ok k"
  shows "pd_decodes (rd_bind PayloadCursor_u8 decode_event_kind) (encode_event_kind k) k"
  using assms
  by (cases k) (auto intro!: decodes_Cons [OF pd_u8] pd_string_map simp: decode_event_kind_def kind_ok_def)

definition error_ok :: "ErrorInfo \<Rightarrow> bool" where
  "error_ok err \<longleftrightarrow> str_ok (err_message err) \<and> pred_option str_ok (err_code err)"

lemma pd_error:
  assumes "pred_option error_ok err"
  shows "pd_decodes PayloadCursor_option_error (put_option_error err) err"
proof (cases err)
  case (Some e)
  have e: "Some \<lparr>err_message = err_message e, err_code = err_code e\<rparr> = Some e" by simp
  from Some assms have "pd_decodes (rd_bind PayloadCursor_string (\<lambda>message.
       rd_bind PayloadCursor_option_string (\<lambda>code. rd_return (Some \<lparr>err_message = message, err_code = code\<rparr>))))
     (put_string (err_message e) @ put_option_string (err_code e)) (Some e)"
    using decodes_bind_return [OF pd_option_string, of "err_code e" "\<lambda>code. Some \<lparr>err_message = err_message e, err_code = code\<rparr>"]
    unfolding e by (intro decodes_bind [OF pd_string]) (simp_all add: error_ok_def)
  with Some show ?thesis
    unfolding PayloadCursor_option_error_def by (auto intro!: decodes_Cons [OF pd_u8])
next
  case None
  then show ?thesis
    unfolding PayloadCursor_option_error_def by (auto intro!: decodes_Cons [OF pd_u8])
qed

fun ref_ok :: "MetadataRef \<Rightarrow> bool" where
  "ref_ok (Schema i v) \<longleftrightarrow> str_ok i \<and> pred_option str_ok v"
| "ref_ok (PipelineDefinition i v) \<longleftrightarrow> str_ok i \<and> pred_option str_ok v"
| "ref_ok (Dataset i) \<longleftrightarrow> str_ok i"
| "ref_ok (Field i) \<longleftrightarrow> str_ok i"
| "ref_ok (Object i) \<longleftrightarrow> str_ok i"
| "ref_ok (LineageEdge i) \<longleftrightarrow> str_ok i"
| "ref_ok (DataContract i) \<longleftrightarrow> str_ok i"
| "ref_ok (Owner i) \<longleftrightarrow> str_ok i"
| "ref_ok (Classification i) \<longleftrightarrow> str_ok i"

lemma pd_metadata_ref:
  assumes "ref_ok r"
  shows "pd_decodes PayloadCursor_metadata_ref (put_metadata_ref r) r"
  unfolding PayloadCursor_metadata_ref_def
  using assms
  by (cases r) (auto intro!: decodes_Cons [OF pd_u8] pd_string_map decodes_bind [OF pd_string]
      decodes_bind_return [OF pd_option_string])

lemma pd_metadata_refs:
  assumes "list_all ref_ok refs" "length refs < 2 ^ 32"
  shows "pd_decodes PayloadCursor_metadata_refs (put_metadata_refs refs) refs"
  unfolding PayloadCursor_metadata_refs_def put_metadata_refs_def
proof (rule decodes_bind [OF pd_u32])
  have push: "fold (\<lambda>r acc. acc @ [r]) refs acc = acc @ refs" for acc :: "MetadataRef list"
    by (induction refs arbitrary: acc) simp_all
  have "pd_decodes (rd_times (length refs)
      (\<lambda>refs. rd_bind PayloadCursor_metadata_ref (\<lambda>r. rd_return (refs @ [r]))) [])
      (concat (map put_metadata_ref refs)) (fold (\<lambda>r acc. acc @ [r]) refs [])"
    using assms(1) by (intro decodes_times decodes_bind_return pd_metadata_ref) (simp add: list_all_iff)
  then show "pd_decodes (rd_times (unat (of_nat (length refs) :: u32))
      (\<lambda>refs. rd_bind PayloadCursor_metadata_ref (\<lambda>r. rd_return (refs @ [r]))) [])
      (concat (map put_metadata_ref refs)) refs"
    using assms(2) by (simp add: push unat_of_nat)
qed

definition event_encodable :: "PipelineEvent \<Rightarrow> bool" where
  "event_encodable e \<longleftrightarrow>
     list_all str_ok [pe_event_id e, pe_source_id e, pe_tenant_id e, pe_environment_id e,
       pe_pipeline_id e, pe_process_definition_id e, pe_process_instance_id e, pe_timestamp e] \<and>
     list_all (pred_option str_ok) [pe_process_version e, pe_activity_id e, pe_token_id e,
       pe_correlation_id e, pe_business_key e, pe_metadata_version e, pe_causal_parent e, pe_payload e] \<and>
     kind_ok (pe_kind e) \<and> pred_option error_ok (pe_error e) \<and>
     list_all ref_ok (pe_metadata_refs e) \<and> length (pe_metadata_refs e) < 2 ^ 32"

lemma rebuild_event:
  "with_some with_payload (pe_payload e)
       (with_some with_causal_parent (pe_causal_parent e)
       (with_some with_metadata_version (pe_metadata_version e)
       (with_some with_error (pe_error e)
       (with_some with_business_key (pe_business_key e)
       (with_some with_correlation_id (pe_correlation_id e)
       (with_some with_token_id (pe_token_id e)
       (with_some with_activity_id (pe_activity_id e)
       (with_some with_process_version (pe_process_version e)
       (with_metadata_refs (pe_metadata_refs e)
       (with_status (pe_status e)
       (PipelineEvent_new (pe_event_id e) (pe_source_id e) (pe_source_sequence e) (pe_tenant_id e)
          (pe_environment_id e) (pe_pipeline_id e) (pe_process_definition_id e)
          (pe_process_instance_id e) (pe_timestamp e) (pe_kind e)))))))))))) = e"
  by (rule PipelineEvent.equality) (simp_all add: event_builder_defs with_some_def split: option.split)

lemmas pd_fields = pd_string pd_u64 pd_option_string pd_status pd_kind pd_error pd_metadata_refs

lemma pd_pipeline_event:
  assumes "event_encodable e"
  shows "pd_decodes read_pipeline_event (encode_pipeline_event e) e"
  apply (rule back_subst [where P = "pd_decodes read_pipeline_event (encode_pipeline_event e)",
        OF _ rebuild_event])
  unfolding read_pipeline_event_def encode_pipeline_event_def
  apply (rule decodes_bind [OF payload_cursor.tk_exact])
  apply (simp only: not_not if_False simp_thms)
  apply (rule decodes_bind decodes_bind_return pd_fields
      | use assms in \<open>simp add: event_encodable_def\<close>)+
  done

lemma length_put [simp]:
  "length (put_string s) = 4 + length s"
  "length (put_u64 w) = 8"
  "length (put_u32 v) = 4"
  "length PIPELINE_EVENT_CODEC_MAGIC = 4"
  by (simp_all add: put_string_def put_u32_def put_u64_def PIPELINE_EVENT_CODEC_MAGIC_def)

subsection \<open>The strings of an event\<close>

definition opt_strings :: "string option \<Rightarrow> string list" where
  "opt_strings x = (case x of None \<Rightarrow> [] | Some s \<Rightarrow> [s])"

fun ref_strings :: "MetadataRef \<Rightarrow> string list" where
  "ref_strings (Schema i v) = i # opt_strings v"
| "ref_strings (PipelineDefinition i v) = i # opt_strings v"
| "ref_strings (Dataset i) = [i]"
| "ref_strings (Field i) = [i]"
| "ref_strings (Object i) = [i]"
| "ref_strings (LineageEdge i) = [i]"
| "ref_strings (DataContract i) = [i]"
| "ref_strings (Owner i) = [i]"
| "ref_strings (Classification i) = [i]"

definition event_strings :: "PipelineEvent \<Rightarrow> string list" where
  "event_strings e =
     [pe_event_id e, pe_source_id e, pe_tenant_id e, pe_environment_id e,
      pe_pipeline_id e, pe_process_definition_id e, pe_process_instance_id e, pe_timestamp e] @
     concat (map opt_strings [pe_process_version e, pe_activity_id e, pe_token_id e,
       pe_correlation_id e, pe_business_key e, pe_metadata_version e, pe_causal_parent e, pe_payload e]) @
     (case pe_kind e of UnknownKind s \<Rightarrow> [s] | _ \<Rightarrow> []) @
     (case pe_error e of None \<Rightarrow> [] | Some err \<Rightarrow> err_message err # opt_strings (err_code err)) @
     concat (map ref_strings (pe_metadata_refs e))"

lemma ref_ok_strings: "ref_ok r \<longleftrightarrow> list_all str_ok (ref_strings r)"
  by (cases r) (auto simp: opt_strings_def split: option.splits)

lemma event_encodable_strings:
  "event_encodable e \<longleftrightarrow> list_all str_ok (event_strings e) \<and> length (pe_metadata_refs e) < 2 ^ 32"
proof -
  have opt: "list_all str_ok (opt_strings x) \<longleftrightarrow> pred_option str_ok x" for x
    by (simp add: opt_strings_def split: option.split)
  have kind: "list_all str_ok (case k of UnknownKind s \<Rightarrow> [s] | _ \<Rightarrow> []) \<longleftrightarrow> kind_ok k" for k
    by (simp add: kind_ok_def split: EventKind.split)
  have err: "list_all str_ok (case x of None \<Rightarrow> [] | Some err \<Rightarrow> err_message err # opt_strings (err_code err))
      \<longleftrightarrow> pred_option error_ok x" for x
    by (simp add: error_ok_def opt split: option.split)
  have refs: "list_all str_ok (concat (map ref_strings rs)) \<longleftrightarrow> list_all ref_ok rs" for rs
    by (induction rs) (simp_all add: ref_ok_strings)
  show ?thesis
    unfolding event_encodable_def event_strings_def list_all_append kind err refs
    by (simp add: opt conj_ac)
qed

lemma opt_strings_length: "s \<in> set (opt_strings x) \<Longrightarrow> length s \<le> length (put_option_string x)"
  by (cases x) (simp_all add: opt_strings_def)

lemma ref_strings_length: "s \<in> set (ref_strings r) \<Longrightarrow> length s \<le> length (put_metadata_ref r)"
  by (cases r) (auto dest: opt_strings_length)

lemma refs_strings_length:
  "s \<in> set (concat (map ref_strings rs)) \<Longrightarrow> length s \<le> length (concat (map put_metadata_ref rs))"
  by (induction rs) (auto dest: ref_strings_length intro: trans_le_add1 trans_le_add2)

lemma refs_count_length: "length rs \<le> length (concat (map put_metadata_ref rs))"
proof (induction rs)
  case (Cons r rs)
  have "1 \<le> length (put_metadata_ref r)" by (cases r) simp_all
  with Cons show ?case by simp
qed simp

lemma event_strings_length:
  assumes "s \<in> set (event_strings e)"
  shows "length s \<le> length (encode_pipeline_event e)"
proof -
  from assms consider
      "s \<in> {pe_event_id e, pe_source_id e, pe_tenant_id e, pe_environment_id e,
        pe_pipeline_id e, pe_process_definition_id e, pe_process_instance_id e, pe_timestamp e}"
    | x where "s \<in> set (opt_strings x)" "x \<in> {pe_process_version e, pe_activity_id e, pe_token_id e,
       pe_correlation_id e, pe_business_key e, pe_metadata_version e, pe_causal_parent e, pe_payload e}"
    | "pe_kind e = UnknownKind s"
    | err where "pe_error e = Some err" "s = err_message err \<or> s \<in> set (opt_strings (err_code err))"
    | "s \<in> set (concat (map ref_strings (pe_metadata_refs e)))"
    by (simp add: event_strings_def split: EventKind.splits option.splits) metis+
  then show ?thesis
  proof cases
    case 1
    then show ?thesis by (auto simp: encode_pipeline_event_def)
  next
    case 2
    then show ?thesis by (auto dest: opt_strings_length simp: encode_pipeline_event_def)
  next
    case 3
    then show ?thesis by (simp add: encode_pipeline_event_def)
  next
    case 4
    then show ?thesis by (auto dest: opt_strings_length simp: encode_pipeline_event_def)
  next
    case 5
    from refs_strings_length [OF this] show ?thesis
      by (simp add: encode_pipeline_event_def put_metadata_refs_def)
  qed
qed

lemma event_encodable_rust:
  assumes "list_all rust_string (event_strings e)" "length (encode_pipeline_event e) < 2 ^ 32"
  shows "event_encodable e"
proof -
  have "length (pe_metadata_refs e) \<le> length (encode_pipeline_event e)"
    using refs_count_length [of "pe_metadata_refs e"]
    by (simp add: encode_pipeline_event_def put_metadata_refs_def)
  with assms event_strings_length [of _ e] show ?thesis
    by (auto simp: event_encodable_strings str_ok_def list_all_iff intro: order.strict_trans1)
qed

subsection \<open>Properties\<close>

text \<open>
  Decoding an encoded pipeline event gives the event back, for every event whose strings
  are valid and shorter than \<open>2 ^ 32\<close> bytes.
\<close>

lemma decode_encode_pipeline_event:
  assumes "event_encodable e" "length (encode_pipeline_event e) < 2 ^ 64"
  shows "decode_pipeline_event (encode_pipeline_event e) = Ok e"
  using decodes_run [OF pd_pipeline_event [OF assms(1)], of "[]"] assms(2)
  by (simp add: decode_pipeline_event_def PayloadCursor_finish_def)

text \<open>
  The decoder accepts nothing but a whole event: every proper prefix of an encoded event is
  rejected as truncated, and any bytes after it are reported with their number.
\<close>

lemma decode_rejects_partial_events:
  assumes "event_encodable e" "length (encode_pipeline_event e @ extra) < 2 ^ 64"
  shows "(n < length (encode_pipeline_event e) \<longrightarrow>
      decode_pipeline_event (take n (encode_pipeline_event e)) = Err PdUnexpectedEof) \<and>
    (extra \<noteq> [] \<longrightarrow>
      decode_pipeline_event (encode_pipeline_event e @ extra) = Err (PdTrailingBytes (length extra)))"
  using decodes_truncated [OF pd_pipeline_event [OF assms(1)], of n]
    decodes_run [OF pd_pipeline_event [OF assms(1)], of extra] assms(2)
  by (simp add: decode_pipeline_event_def PayloadCursor_finish_def)

definition codec_sample :: PipelineEvent where
  "codec_sample = with_metadata_refs [Dataset ''d'', Schema ''s'' (Some ''2'')]
     (with_error \<lparr>err_message = ''boom'', err_code = Some ''E1''\<rparr>
       (PipelineEvent_new ''e1'' ''src'' 7 ''t'' ''prod'' ''p'' ''def'' ''i'' ''2024-01-01T00:00:00Z'' ProcessFailed))"

lemma str_ok_ascii: "list_all (\<lambda>c. of_char c < (0x80 :: u8)) s \<Longrightarrow> length s < 2 ^ 32 \<Longrightarrow> str_ok s"
  by (simp add: str_ok_def rust_string_def utf8_valid_ascii as_bytes_def list_all_iff)

lemma codec_sample_ok: "event_encodable codec_sample" "length (encode_pipeline_event codec_sample) < 1000"
  by (simp_all add: codec_sample_def event_builder_defs event_encodable_def error_ok_def kind_ok_def str_ok_ascii
      encode_pipeline_event_def put_metadata_refs_def)

lemma decode_rejects_partial_events_witness:
  "decode_pipeline_event (take 3 (encode_pipeline_event codec_sample)) = Err PdUnexpectedEof \<and>
   decode_pipeline_event (encode_pipeline_event codec_sample @ [0, 0]) = Err (PdTrailingBytes 2)"
proof -
  have "3 < length (encode_pipeline_event codec_sample)" by (simp add: encode_pipeline_event_def)
  then show ?thesis
    using decode_rejects_partial_events [of codec_sample "[0, 0]" 3] codec_sample_ok by simp
qed

end
