(* ===== verification/Storage.thy ===== *)
theory Storage
  imports BTree_Map
begin

text \<open>
  \<open>src/storage.rs\<close>: append-only segments with checksummed records.

  The file system is an explicit store \<open>fs\<close> from paths to contents, passed to and returned by
  every operation that writes. What the operating system may do is an argument of the model, a
  \<open>disk_io\<close>: the number of bytes the device still accepts before \<open>write_all\<close> fails (\<open>None\<close>: no
  limit), and whether \<open>sync_all\<close> fails. A writer's \<open>u64\<close> counters are 64-bit words.

  \<open>segment_open fs w ps\<close> is the component's invariant: the file of the writer \<open>w\<close> holds
  exactly the records of the payloads \<open>ps\<close> and the writer's counters agree with it. The lemmas
  show that every successful append keeps it, that reading returns the payloads with their
  offsets, that reopening restores the counters, that a torn record is reported, and that the
  checksum notices every change of a single byte.
\<close>

subsection \<open>The file system\<close>

type_synonym path = string
type_synonym fs = "path \<Rightarrow> bytes option"

datatype io_error = NotFound | AlreadyExists | UnexpectedEof | WriteError | SyncError

record disk_io =
  write_budget :: "nat option"
  sync_fails :: bool

definition append_file :: "fs \<Rightarrow> path \<Rightarrow> bytes \<Rightarrow> fs" where
  "append_file fs p bs = fs(p := Some ((case fs p of None \<Rightarrow> [] | Some c \<Rightarrow> c) @ bs))"

text \<open>\<open>Write::write_all\<close>: on an error the bytes accepted so far stay in the file.\<close>

definition write_all :: "nat option \<Rightarrow> fs \<Rightarrow> path \<Rightarrow> bytes \<Rightarrow> nat option \<times> fs \<times> (io_error + unit)" where
  "write_all budget fs p bs =
     (case budget of
        None \<Rightarrow> (None, append_file fs p bs, Ok ())
      | Some n \<Rightarrow>
          if length bs \<le> n then (Some (n - length bs), append_file fs p bs, Ok ())
          else (Some 0, append_file fs p (take n bs), Err WriteError))"

subsection \<open>Data\<close>

type_synonym SegmentId = string
type_synonym NodeId = string
type_synonym RecordOffset = u64

datatype SegmentError =
  Io io_error
| InvalidMagic
| RecordTooLarge nat
| ChecksumMismatch u64 u64 u64
| TrailingBytes u64 u64

record SegmentManifest =
  sm_segment_id :: SegmentId
  sm_node_id :: NodeId
  sm_path :: path
  sm_record_count :: u64
  sm_byte_len :: u64
  sm_checksum :: u64

record SegmentWriter =
  sw_segment_id :: SegmentId
  sw_node_id :: NodeId
  sw_path :: path
  sw_record_count :: u64
  sw_byte_len :: u64
  sw_checksum :: u64

text \<open>The reader: the bytes its \<open>BufReader\<close> has not handed out yet, and its offset.\<close>

record SegmentReader =
  sr_rest :: bytes
  sr_offset :: u64

record SegmentRecord =
  rec_offset :: RecordOffset
  rec_checksum :: u64
  rec_payload :: bytes

record SegmentStats =
  st_record_count :: u64
  st_byte_len :: u64
  st_checksum :: u64

definition SEGMENT_MAGIC :: bytes where
  "SEGMENT_MAGIC = as_bytes ''VANNAK01''"

definition MAX_RECORD_LEN :: nat where
  "MAX_RECORD_LEN = 2 ^ 32 - 1"

subsection \<open>Checksums\<close>

definition checksum :: "bytes \<Rightarrow> u64" where
  "checksum payload = foldl fnv_step 0xcbf29ce484222325 payload"

definition combine_checksum :: "u64 \<Rightarrow> u64 \<Rightarrow> u64" where
  "combine_checksum current nxt = word_rotl 7 current XOR nxt"

subsection \<open>The writer\<close>

definition SegmentWriter_create ::
  "disk_io \<Rightarrow> fs \<Rightarrow> path \<Rightarrow> SegmentId \<Rightarrow> NodeId \<Rightarrow> fs \<times> (SegmentError + SegmentWriter)" where
  "SegmentWriter_create io fs p sid nid =
     (if fs p \<noteq> None then (fs, Err (Io AlreadyExists))
      else case write_all (write_budget io) (fs(p := Some [])) p SEGMENT_MAGIC of
        (_, fs', Inl e) \<Rightarrow> (fs', Err (Io e))
      | (_, fs', Inr _) \<Rightarrow>
          (fs', Ok \<lparr>sw_segment_id = sid, sw_node_id = nid, sw_path = p, sw_record_count = 0,
                    sw_byte_len = of_nat (length SEGMENT_MAGIC), sw_checksum = 0\<rparr>))"

definition append_record ::
  "disk_io \<Rightarrow> fs \<Rightarrow> SegmentWriter \<Rightarrow> bytes \<Rightarrow> fs \<times> SegmentWriter \<times> (SegmentError + RecordOffset)" where
  "append_record io fs w payload =
     (if length payload > MAX_RECORD_LEN then (fs, w, Err (RecordTooLarge (length payload)))
      else
        let offset = sw_byte_len w;
            record_checksum = checksum payload;
            len = (of_nat (length payload) :: u32)
        in case write_all (write_budget io) fs (sw_path w) (to_le_bytes 4 len) of
             (_, fs1, Inl e) \<Rightarrow> (fs1, w, Err (Io e))
           | (b1, fs1, Inr _) \<Rightarrow>
             (case write_all b1 fs1 (sw_path w) (to_le_bytes 8 record_checksum) of
                (_, fs2, Inl e) \<Rightarrow> (fs2, w, Err (Io e))
              | (b2, fs2, Inr _) \<Rightarrow>
                (case write_all b2 fs2 (sw_path w) payload of
                   (_, fs3, Inl e) \<Rightarrow> (fs3, w, Err (Io e))
                 | (_, fs3, Inr _) \<Rightarrow>
                     (fs3,
                      w\<lparr>sw_record_count := sw_record_count w + 1,
                        sw_byte_len := sw_byte_len w + (4 + 8 + of_nat (length payload)),
                        sw_checksum := combine_checksum (sw_checksum w) record_checksum\<rparr>,
                      Ok offset))))"

text \<open>\<open>flush\<close> on a \<open>File\<close> does nothing; \<open>sync\<close> is the device's answer.\<close>

definition SegmentWriter_flush :: "SegmentWriter \<Rightarrow> SegmentError + unit" where
  "SegmentWriter_flush w = Ok ()"

definition SegmentWriter_sync :: "disk_io \<Rightarrow> SegmentWriter \<Rightarrow> SegmentError + unit" where
  "SegmentWriter_sync io w = (if sync_fails io then Err (Io SyncError) else Ok ())"

definition SegmentWriter_manifest :: "SegmentWriter \<Rightarrow> SegmentManifest" where
  "SegmentWriter_manifest w =
     \<lparr>sm_segment_id = sw_segment_id w, sm_node_id = sw_node_id w, sm_path = sw_path w,
      sm_record_count = sw_record_count w, sm_byte_len = sw_byte_len w,
      sm_checksum = sw_checksum w\<rparr>"

definition SegmentWriter_seal :: "disk_io \<Rightarrow> SegmentWriter \<Rightarrow> SegmentError + SegmentManifest" where
  "SegmentWriter_seal io w =
     res_bind (SegmentWriter_flush w) (\<lambda>_.
     res_bind (SegmentWriter_sync io w) (\<lambda>_.
     Ok (SegmentWriter_manifest w)))"

subsection \<open>The reader\<close>

definition SegmentReader_open :: "fs \<Rightarrow> path \<Rightarrow> SegmentError + SegmentReader" where
  "SegmentReader_open fs p =
     (case fs p of
        None \<Rightarrow> Err (Io NotFound)
      | Some c \<Rightarrow>
          if length c < length SEGMENT_MAGIC then Err (Io UnexpectedEof)
          else if take (length SEGMENT_MAGIC) c \<noteq> SEGMENT_MAGIC then Err InvalidMagic
          else Ok \<lparr>sr_rest = drop (length SEGMENT_MAGIC) c,
                   sr_offset = of_nat (length SEGMENT_MAGIC)\<rparr>)"

text \<open>\<open>read_exact\<close> on the unread bytes.\<close>

definition read_exact :: "nat \<Rightarrow> bytes \<Rightarrow> SegmentError + bytes \<times> bytes" where
  "read_exact n bs = (if length bs < n then Err (Io UnexpectedEof) else Ok (take n bs, drop n bs))"

text \<open>
  \<open>read_next\<close>. Every caller drops the reader on an error, so an error carries no reader. The
  loop that fills \<open>len_buf\<close> ends with four bytes, at the end of the file before the first byte
  (\<open>Ok(None)\<close>), or at the end of the file inside the length.
\<close>

definition read_next :: "SegmentReader \<Rightarrow> SegmentError + SegmentRecord option \<times> SegmentReader" where
  "read_next r =
     (let read = min 4 (length (sr_rest r)) in
      if read = 0 then Ok (None, r)
      else if read < 4 then Err (TrailingBytes (sr_offset r) (sr_offset r + of_nat read))
      else
        let len_buf = take 4 (sr_rest r) in
        res_bind (read_exact 8 (drop 4 (sr_rest r))) (\<lambda>(checksum_buf, rest1).
        let len = unat (from_le_bytes len_buf :: u32);
            expected = (from_le_bytes checksum_buf :: u64) in
        res_bind (read_exact len rest1) (\<lambda>(payload, rest2).
        let offset = sr_offset r;
            r' = \<lparr>sr_rest = rest2, sr_offset = sr_offset r + (4 + 8 + of_nat len)\<rparr>;
            actual = checksum payload in
        if actual \<noteq> expected then Err (ChecksumMismatch offset expected actual)
        else Ok (Some \<lparr>rec_offset = offset, rec_checksum = actual, rec_payload = payload\<rparr>, r'))))"

lemma read_next_shrinks:
  assumes "read_next r = Inr (Some rec, r')"
  shows "length (sr_rest r') < length (sr_rest r)"
  using assms
  by (auto simp: read_next_def read_exact_def Let_def split: if_splits)

text \<open>
  The loop \<open>while let Some(record) = reader.read_next()? { body }\<close> that the scans and replays of
  the crate share; \<open>conv\<close> is the conversion \<open>?\<close> applies to the segment's errors.
\<close>

function read_loop ::
  "(SegmentError \<Rightarrow> 'e) \<Rightarrow> (SegmentRecord \<Rightarrow> SegmentReader \<Rightarrow> 's \<Rightarrow> 'e + 's) \<Rightarrow> SegmentReader \<Rightarrow> 's
     \<Rightarrow> 'e + 's" where
  "read_loop conv body r s =
     (case read_next r of
        Inl e \<Rightarrow> Err (conv e)
      | Inr (None, _) \<Rightarrow> Ok s
      | Inr (Some rec, r') \<Rightarrow>
          (case body rec r' s of Inl e \<Rightarrow> Err e | Inr s' \<Rightarrow> read_loop conv body r' s'))"
  by pat_completeness auto
termination
  by (relation "measure (\<lambda>(conv, body, r, s). length (sr_rest r))") (auto dest: read_next_shrinks)

declare read_loop.simps [simp del]

definition scan_segment :: "fs \<Rightarrow> path \<Rightarrow> SegmentError + SegmentStats" where
  "scan_segment fs p =
     res_bind (SegmentReader_open fs p) (\<lambda>reader.
     res_bind (read_loop id
        (\<lambda>rec r stats.
           Ok \<lparr>st_record_count = st_record_count stats + 1, st_byte_len = sr_offset r,
               st_checksum = combine_checksum (st_checksum stats) (rec_checksum rec)\<rparr>)
        reader
        \<lparr>st_record_count = 0, st_byte_len = of_nat (length SEGMENT_MAGIC), st_checksum = 0\<rparr>)
       (\<lambda>stats.
     (case fs p of
        None \<Rightarrow> Err (Io NotFound)
      | Some c \<Rightarrow>
          if (of_nat (length c) :: u64) \<noteq> st_byte_len stats
          then Err (TrailingBytes (st_byte_len stats) (of_nat (length c)))
          else Ok stats)))"

definition SegmentWriter_open_append ::
  "fs \<Rightarrow> path \<Rightarrow> SegmentId \<Rightarrow> NodeId \<Rightarrow> SegmentError + SegmentWriter" where
  "SegmentWriter_open_append fs p sid nid =
     res_bind (scan_segment fs p) (\<lambda>stats.
       Ok \<lparr>sw_segment_id = sid, sw_node_id = nid, sw_path = p,
           sw_record_count = st_record_count stats, sw_byte_len = st_byte_len stats,
           sw_checksum = st_checksum stats\<rparr>)"

subsection \<open>What a segment holds\<close>

definition record_frame :: "bytes \<Rightarrow> bytes" where
  "record_frame p = to_le_bytes 4 (of_nat (length p) :: u32) @ to_le_bytes 8 (checksum p) @ p"

definition segment_bytes :: "bytes list \<Rightarrow> bytes" where
  "segment_bytes ps = SEGMENT_MAGIC @ concat (map record_frame ps)"

fun records_from :: "u64 \<Rightarrow> bytes list \<Rightarrow> SegmentRecord list" where
  "records_from off [] = []"
| "records_from off (p # ps) =
     \<lparr>rec_offset = off, rec_checksum = checksum p, rec_payload = p\<rparr>
       # records_from (off + (4 + 8 + of_nat (length p))) ps"

definition segment_records :: "bytes list \<Rightarrow> SegmentRecord list" where
  "segment_records ps = records_from (of_nat (length SEGMENT_MAGIC)) ps"

definition segment_open :: "fs \<Rightarrow> SegmentWriter \<Rightarrow> bytes list \<Rightarrow> bool" where
  "segment_open fs w ps \<longleftrightarrow>
     fs (sw_path w) = Some (segment_bytes ps) \<and>
     list_all (\<lambda>p. length p \<le> MAX_RECORD_LEN) ps \<and>
     sw_record_count w = of_nat (length ps) \<and>
     sw_byte_len w = of_nat (length (segment_bytes ps)) \<and>
     sw_checksum w = foldl (\<lambda>c p. combine_checksum c (checksum p)) 0 ps"

lemma length_SEGMENT_MAGIC [simp]: "length SEGMENT_MAGIC = 8"
  by (simp add: SEGMENT_MAGIC_def)

lemma length_record_frame [simp]: "length (record_frame p) = 12 + length p"
  by (simp add: record_frame_def)

lemma segment_bytes_Nil [simp]: "segment_bytes [] = SEGMENT_MAGIC"
  by (simp add: segment_bytes_def)

lemma segment_bytes_snoc: "segment_bytes (ps @ [p]) = segment_bytes ps @ record_frame p"
  by (simp add: segment_bytes_def)

lemma records_from_append:
  "records_from off (ps @ qs)
     = records_from off ps
       @ records_from (off + of_nat (length (concat (map record_frame ps)))) qs"
  by (induction ps arbitrary: off) (simp_all add: algebra_simps)

lemma segment_records_snoc:
  "segment_records (ps @ [p])
     = segment_records ps
       @ [\<lparr>rec_offset = of_nat (length (segment_bytes ps)), rec_checksum = checksum p, rec_payload = p\<rparr>]"
  by (simp add: segment_records_def records_from_append segment_bytes_def)

lemma map_payload_segment_records [simp]: "map rec_payload (segment_records ps) = ps"
proof -
  have "map rec_payload (records_from off ps) = ps" for off
    by (induction ps arbitrary: off) simp_all
  then show ?thesis by (simp add: segment_records_def)
qed

lemma length_segment_records [simp]: "length (segment_records ps) = length ps"
  by (metis length_map map_payload_segment_records)

subsection \<open>Writing\<close>

lemma append_file_same [simp]:
  "append_file fs p bs p = Some ((case fs p of None \<Rightarrow> [] | Some c \<Rightarrow> c) @ bs)"
  by (simp add: append_file_def)

lemma append_file_other [simp]: "q \<noteq> p \<Longrightarrow> append_file fs p bs q = fs q"
  by (simp add: append_file_def)

lemma append_file_append [simp]:
  "append_file (append_file fs p bs) p cs = append_file fs p (bs @ cs)"
  by (simp add: append_file_def)

lemma write_all_okD: "write_all b fs p bs = (b', fs', Inr u) \<Longrightarrow> fs' = append_file fs p bs"
  by (auto simp: write_all_def split: option.splits if_splits)

lemma write_all_errD:
  "write_all b fs p bs = (b', fs', Inl e) \<Longrightarrow>
     \<exists>n < length bs. e = WriteError \<and> fs' = append_file fs p (take n bs)"
  by (auto simp: write_all_def not_le split: option.splits if_splits intro!: exI)

lemma append_record_okD:
  assumes "append_record io fs w p = (fs', w', Inr off)"
  shows "length p \<le> MAX_RECORD_LEN"
    and "fs' = append_file fs (sw_path w) (record_frame p)"
    and "off = sw_byte_len w"
    and "w' = w\<lparr>sw_record_count := sw_record_count w + 1,
                sw_byte_len := sw_byte_len w + (4 + 8 + of_nat (length p)),
                sw_checksum := combine_checksum (sw_checksum w) (checksum p)\<rparr>"
  using assms
  by (auto simp: append_record_def Let_def record_frame_def
      split: if_splits prod.splits sum.splits dest!: write_all_okD)

lemma append_record_errD:
  assumes "append_record io fs w p = (fs', w', Inl err)"
  shows "w' = w \<and> (err = RecordTooLarge (length p) \<and> fs' = fs \<or>
     err = Io WriteError \<and> (\<exists>n < length (record_frame p).
       fs' = append_file fs (sw_path w) (take n (record_frame p))))"
proof (cases "length p > MAX_RECORD_LEN")
  case True
  with assms show ?thesis by (simp add: append_record_def)
next
  case False
  let ?l = "to_le_bytes 4 (of_nat (length p) :: u32)" and ?c = "to_le_bytes 8 (checksum p)"
  from False assms consider
      (len) b1 where "write_all (write_budget io) fs (sw_path w) ?l = (b1, fs', Inl WriteError)"
        "w' = w" "err = Io WriteError"
    | (chk) b1 fs1 b2 where "write_all (write_budget io) fs (sw_path w) ?l = (b1, fs1, Inr ())"
        "write_all b1 fs1 (sw_path w) ?c = (b2, fs', Inl WriteError)" "w' = w" "err = Io WriteError"
    | (pay) b1 fs1 b2 fs2 b3 where "write_all (write_budget io) fs (sw_path w) ?l = (b1, fs1, Inr ())"
        "write_all b1 fs1 (sw_path w) ?c = (b2, fs2, Inr ())"
        "write_all b2 fs2 (sw_path w) p = (b3, fs', Inl WriteError)" "w' = w" "err = Io WriteError"
    by (auto simp: append_record_def Let_def split: prod.splits sum.splits dest: write_all_errD)
  then show ?thesis
  proof cases
    case len
    then obtain n where "n < 4" "fs' = append_file fs (sw_path w) (take n ?l)"
      by (auto dest: write_all_errD)
    then have "n < length (record_frame p)"
      "fs' = append_file fs (sw_path w) (take n (record_frame p))"
      by (simp_all add: record_frame_def)
    with len show ?thesis by blast
  next
    case chk
    then obtain n where "n < 8" "fs' = append_file fs (sw_path w) (?l @ take n ?c)"
      by (auto dest!: write_all_errD write_all_okD)
    then have "4 + n < length (record_frame p)"
      "fs' = append_file fs (sw_path w) (take (4 + n) (record_frame p))"
      by (simp_all add: record_frame_def)
    with chk show ?thesis by blast
  next
    case pay
    then obtain n where "n < length p" "fs' = append_file fs (sw_path w) (?l @ ?c @ take n p)"
      by (auto dest!: write_all_errD write_all_okD)
    then have "12 + n < length (record_frame p)"
      "fs' = append_file fs (sw_path w) (take (12 + n) (record_frame p))"
      by (simp_all add: record_frame_def)
    with pay show ?thesis by blast
  qed
qed

lemma segment_open_create:
  "SegmentWriter_create io fs p sid nid = (fs', Inr w) \<Longrightarrow>
     segment_open fs' w [] \<and> sw_path w = p \<and> sw_segment_id w = sid \<and> sw_node_id w = nid \<and> fs p = None"
  by (auto simp: SegmentWriter_create_def segment_open_def
      split: if_splits prod.splits sum.splits dest!: write_all_okD)

lemma segment_open_append:
  assumes "segment_open fs w ps" and "append_record io fs w p = (fs', w', Inr off)"
  shows "segment_open fs' w' (ps @ [p])" "off = of_nat (length (segment_bytes ps))"
  using assms append_record_okD [OF assms(2)]
  by (simp_all add: segment_open_def segment_bytes_snoc)

lemma append_record_frame:
  "append_record io fs w p = (fs', w', r) \<Longrightarrow> q \<noteq> sw_path w \<Longrightarrow> fs' q = fs q"
  by (cases r) (auto dest: append_record_okD append_record_errD)

subsection \<open>Reading back\<close>

lemma read_next_frame:
  assumes "length p \<le> MAX_RECORD_LEN"
  shows "read_next \<lparr>sr_rest = record_frame p @ rest, sr_offset = off\<rparr>
    = Inr (Some \<lparr>rec_offset = off, rec_checksum = checksum p, rec_payload = p\<rparr>,
           \<lparr>sr_rest = rest, sr_offset = off + (4 + 8 + of_nat (length p))\<rparr>)"
proof -
  have "unat (of_nat (length p) :: u32) = length p"
    using assms by (simp add: MAX_RECORD_LEN_def unat_of_nat)
  then show ?thesis
    by (simp add: read_next_def read_exact_def record_frame_def Let_def)
qed

lemma read_next_end [simp]: "read_next \<lparr>sr_rest = [], sr_offset = off\<rparr>
    = Inr (None, \<lparr>sr_rest = [], sr_offset = off\<rparr>)"
  by (simp add: read_next_def)

text \<open>The monadic fold the loop computes on a segment without a torn tail.\<close>

fun fold_records :: "('r \<Rightarrow> 's \<Rightarrow> 'e + 's) \<Rightarrow> 'r list \<Rightarrow> 's \<Rightarrow> 'e + 's" where
  "fold_records body [] s = Ok s"
| "fold_records body (r # rs) s =
     (case body r s of Inl e \<Rightarrow> Err e | Inr s' \<Rightarrow> fold_records body rs s')"

lemma fold_records_append:
  "fold_records body (xs @ ys) s = res_bind (fold_records body xs s) (fold_records body ys)"
  by (induction xs arbitrary: s) (auto split: sum.splits)

lemma fold_records_map:
  "fold_records body (map f rs) s = fold_records (\<lambda>r. body (f r)) rs s"
  by (induction rs arbitrary: s) (simp_all split: sum.splits)

text \<open>The records a reader yields, each with the reader after it.\<close>

fun reads_from :: "u64 \<Rightarrow> bytes list \<Rightarrow> (SegmentRecord \<times> SegmentReader) list" where
  "reads_from off [] = []"
| "reads_from off (p # ps) =
     (\<lparr>rec_offset = off, rec_checksum = checksum p, rec_payload = p\<rparr>,
      \<lparr>sr_rest = concat (map record_frame ps), sr_offset = off + (4 + 8 + of_nat (length p))\<rparr>)
       # reads_from (off + (4 + 8 + of_nat (length p))) ps"

lemma map_fst_reads_from [simp]: "map fst (reads_from off ps) = records_from off ps"
  by (induction ps arbitrary: off) simp_all

lemma read_loop_reads:
  "list_all (\<lambda>p. length p \<le> MAX_RECORD_LEN) ps \<Longrightarrow>
   read_loop conv body \<lparr>sr_rest = concat (map record_frame ps), sr_offset = off\<rparr> s
     = fold_records (\<lambda>(rec, r). body rec r) (reads_from off ps) s"
proof (induction ps arbitrary: off s)
  case Nil
  then show ?case by (simp add: read_loop.simps)
next
  case (Cons p ps)
  then show ?case
    by (subst read_loop.simps) (simp add: read_next_frame split: sum.splits)
qed

lemma read_loop_frames:
  assumes "list_all (\<lambda>p. length p \<le> MAX_RECORD_LEN) ps"
  shows "read_loop conv (\<lambda>rec r. body rec) \<lparr>sr_rest = concat (map record_frame ps), sr_offset = off\<rparr> s
    = fold_records body (records_from off ps) s"
proof -
  have "fold_records (\<lambda>(rec, r). body rec) xs s = fold_records (\<lambda>x. body (fst x)) xs s"
    for xs :: "(SegmentRecord \<times> SegmentReader) list"
    by (simp add: case_prod_beta')
  then show ?thesis
    using assms by (simp add: read_loop_reads flip: fold_records_map)
qed

lemma SegmentReader_open_segment:
  "fs p = Some (segment_bytes ps) \<Longrightarrow>
     SegmentReader_open fs p = Inr \<lparr>sr_rest = concat (map record_frame ps), sr_offset = 8\<rparr>"
  by (simp add: SegmentReader_open_def segment_bytes_def)

lemma scan_body_reads:
  "st_byte_len s = off \<Longrightarrow>
   fold_records (\<lambda>(rec, r) stats.
       Inr \<lparr>st_record_count = st_record_count stats + 1, st_byte_len = sr_offset r,
            st_checksum = combine_checksum (st_checksum stats) (rec_checksum rec)\<rparr>)
     (reads_from off ps) s
   = Inr \<lparr>st_record_count = st_record_count s + of_nat (length ps),
          st_byte_len = off + of_nat (length (concat (map record_frame ps))),
          st_checksum = foldl (\<lambda>c p. combine_checksum c (checksum p)) (st_checksum s) ps\<rparr>"
  by (induction ps arbitrary: off s) (simp_all add: algebra_simps)

lemma scan_segment_open:
  assumes "fs p = Some (segment_bytes ps)" "list_all (\<lambda>p. length p \<le> MAX_RECORD_LEN) ps"
  shows "scan_segment fs p
    = Inr \<lparr>st_record_count = of_nat (length ps), st_byte_len = of_nat (length (segment_bytes ps)),
           st_checksum = foldl (\<lambda>c p. combine_checksum c (checksum p)) 0 ps\<rparr>"
  using assms
  by (simp add: scan_segment_def SegmentReader_open_segment read_loop_reads scan_body_reads)
    (simp add: segment_bytes_def)

lemma open_append_segment:
  assumes "segment_open fs w ps"
  shows "SegmentWriter_open_append fs (sw_path w) sid nid
    = Inr (w\<lparr>sw_segment_id := sid, sw_node_id := nid\<rparr>)"
  using assms by (simp add: SegmentWriter_open_append_def segment_open_def scan_segment_open)

subsection \<open>Torn tails\<close>

lemma read_loop_torn:
  assumes "list_all (\<lambda>p. length p \<le> MAX_RECORD_LEN) ps"
    and "\<And>rec r s. is_ok (body rec r s)"
    and "read_next \<lparr>sr_rest = tail,
           sr_offset = off + of_nat (length (concat (map record_frame ps)))\<rparr> = Inl e"
  shows "read_loop conv body \<lparr>sr_rest = concat (map record_frame ps) @ tail, sr_offset = off\<rparr> s
    = Inl (conv e)"
  using assms(1,3)
proof (induction ps arbitrary: off s)
  case Nil
  then show ?case by (simp add: read_loop.simps)
next
  case (Cons p ps)
  then have IH: "read_loop conv body \<lparr>sr_rest = concat (map record_frame ps) @ tail,
      sr_offset = off + (4 + 8 + of_nat (length p))\<rparr> s' = Inl (conv e)" for s'
    by (intro Cons.IH) (simp_all add: algebra_simps)
  obtain s' where "body \<lparr>rec_offset = off, rec_checksum = checksum p, rec_payload = p\<rparr>
      \<lparr>sr_rest = concat (map record_frame ps) @ tail, sr_offset = off + (4 + 8 + of_nat (length p))\<rparr> s
      = Inr s'"
    using assms(2) by (force simp: is_ok_def split: sum.splits)
  with Cons.prems(1) IH show ?case
    by (subst read_loop.simps) (simp add: read_next_frame)
qed

lemma read_next_torn:
  assumes "0 < n" "n < length (record_frame p)" "length p \<le> MAX_RECORD_LEN"
  shows "read_next \<lparr>sr_rest = take n (record_frame p), sr_offset = off\<rparr>
    = Inl (if n < 4 then TrailingBytes off (off + of_nat n) else Io UnexpectedEof)"
proof -
  have len: "unat (of_nat (length p) :: u32) = length p"
    using assms by (simp add: MAX_RECORD_LEN_def unat_of_nat)
  have min: "min (length (record_frame p)) n = n" using assms by simp
  consider "n < 4" | "4 \<le> n" "n < 12" | "12 \<le> n" by linarith
  then show ?thesis
  proof cases
    case 1
    with assms show ?thesis by (simp add: read_next_def Let_def min min_def)
  next
    case 2
    then have "n - 4 < 8" by simp
    with 2 assms show ?thesis
      by (simp add: read_next_def read_exact_def record_frame_def Let_def)
  next
    case 3
    then have "take n (record_frame p)
        = to_le_bytes 4 (of_nat (length p) :: u32) @ to_le_bytes 8 (checksum p) @ take (n - 12) p"
      by (simp add: record_frame_def)
    with 3 assms show ?thesis
      by (simp add: read_next_def read_exact_def Let_def len)
  qed
qed

lemma open_append_torn:
  assumes "fs f = Some (segment_bytes ps @ take n (record_frame p))"
    and "list_all (\<lambda>p. length p \<le> MAX_RECORD_LEN) ps"
    and "0 < n" "n < length (record_frame p)" "length p \<le> MAX_RECORD_LEN"
  shows "SegmentWriter_open_append fs f sid nid
    = Inl (if n < 4 then TrailingBytes (of_nat (length (segment_bytes ps)))
                           (of_nat (length (segment_bytes ps) + n))
           else Io UnexpectedEof)"
proof -
  have "SegmentReader_open fs f
      = Inr \<lparr>sr_rest = concat (map record_frame ps) @ take n (record_frame p), sr_offset = 8\<rparr>"
    using assms(1) by (simp add: SegmentReader_open_def segment_bytes_def)
  then show ?thesis
    using assms read_next_torn [OF assms(3-5), of "8 + of_nat (length (concat (map record_frame ps)))"]
    by (simp add: SegmentWriter_open_append_def scan_segment_def
        read_loop_torn [OF assms(2)] segment_bytes_def algebra_simps)
qed

subsection \<open>The checksum and single-byte changes\<close>

lemma checksum_update:
  assumes "i < length p" "b \<noteq> p ! i"
  shows "checksum (p[i := b]) \<noteq> checksum p"
proof -
  have split: "checksum (take i p @ c # drop (Suc i) p)
      = foldl fnv_step (fnv_step (foldl fnv_step 0xcbf29ce484222325 (take i p)) c) (drop (Suc i) p)" for c
    by (simp add: checksum_def)
  have p: "checksum p = checksum (take i p @ p ! i # drop (Suc i) p)"
    using assms(1) by (simp flip: id_take_nth_drop)
  show ?thesis
    unfolding p upd_conv_take_nth_drop [OF assms(1)] split
    using assms(2) by (simp only: foldl_fnv_inject_state fnv_step_inject_byte) simp
qed

subsection \<open>Histories of a segment\<close>

text \<open>
  The files a process can leave behind while every write succeeds: created, appended to, closed
  and reopened, with any other activity on other paths in between.
\<close>

inductive written :: "fs \<Rightarrow> SegmentWriter \<Rightarrow> bytes list \<Rightarrow> bool" where
  created: "SegmentWriter_create io fs p sid nid = (fs', Inr w) \<Longrightarrow> written fs' w []"
| appended: "written fs w ps \<Longrightarrow> append_record io fs w p = (fs', w', Inr off) \<Longrightarrow>
     written fs' w' (ps @ [p])"
| reopened: "written fs w ps \<Longrightarrow> SegmentWriter_open_append fs (sw_path w) sid nid = Inr w' \<Longrightarrow>
     written fs w' ps"
| elsewhere: "written fs w ps \<Longrightarrow> fs' (sw_path w) = fs (sw_path w) \<Longrightarrow> written fs' w ps"

lemma written_open: "written fs w ps \<Longrightarrow> segment_open fs w ps"
proof (induction rule: written.induct)
  case created
  then show ?case by (auto dest: segment_open_create)
next
  case appended
  then show ?case by (auto dest: segment_open_append)
next
  case reopened
  then show ?case by (auto simp: open_append_segment segment_open_def)
next
  case elsewhere
  then show ?case by (simp add: segment_open_def)
qed

text \<open>A client that reads a whole segment with \<^const>\<open>read_next\<close>.\<close>

definition read_segment :: "fs \<Rightarrow> path \<Rightarrow> SegmentError + SegmentRecord list" where
  "read_segment fs p =
     res_bind (SegmentReader_open fs p) (\<lambda>reader.
       read_loop id (\<lambda>rec r acc. Ok (acc @ [rec])) reader [])"

lemma fold_records_collect:
  "fold_records (\<lambda>r acc. Inr (acc @ [f r])) rs acc = Inr (acc @ map f rs)"
  by (induction rs arbitrary: acc) simp_all

lemma read_segment_open:
  "segment_open fs w ps \<Longrightarrow> read_segment fs (sw_path w) = Inr (segment_records ps)"
  by (simp add: read_segment_def segment_open_def SegmentReader_open_segment read_loop_frames
      fold_records_collect [where f = id, simplified] segment_records_def)

lemma segment_offsets_bound:
  "r \<in> set (segment_records ps) \<Longrightarrow> length (segment_bytes ps) < 2 ^ 64 \<Longrightarrow>
     unat (rec_offset r) < length (segment_bytes ps)"
proof (induction ps rule: rev_induct)
  case (snoc p ps)
  then have len: "length (segment_bytes ps) < length (segment_bytes (ps @ [p]))"
    "length (segment_bytes ps) < 2 ^ 64"
    by (simp_all add: segment_bytes_snoc)
  then have "unat (of_nat (length (segment_bytes ps)) :: u64) = length (segment_bytes ps)"
    by (simp add: unat_of_nat)
  with snoc len show ?case
    by (auto simp: segment_records_snoc)
qed (simp add: segment_records_def)

lemma segment_offsets_ascend:
  "length (segment_bytes ps) < 2 ^ 64 \<Longrightarrow> sorted_wrt (<) (map rec_offset (segment_records ps))"
proof (induction ps rule: rev_induct)
  case Nil
  then show ?case by (simp add: segment_records_def)
next
  case (snoc p ps)
  then have len: "length (segment_bytes ps) < 2 ^ 64" by (simp add: segment_bytes_snoc)
  then have "unat (of_nat (length (segment_bytes ps)) :: u64) = length (segment_bytes ps)"
    by (simp add: unat_of_nat)
  with len snoc.IH segment_offsets_bound [of _ ps] show ?case
    by (auto simp: segment_records_snoc sorted_wrt_append word_less_nat_alt)
qed

text \<open>On a device without a limit every payload that fits is accepted.\<close>

lemma append_record_unlimited:
  "write_budget io = None \<Longrightarrow> length p \<le> MAX_RECORD_LEN \<Longrightarrow>
     append_record io fs w p
       = (append_file fs (sw_path w) (record_frame p),
          w\<lparr>sw_record_count := sw_record_count w + 1,
            sw_byte_len := sw_byte_len w + (4 + 8 + of_nat (length p)),
            sw_checksum := combine_checksum (sw_checksum w) (checksum p)\<rparr>,
          Inr (sw_byte_len w))"
  by (simp add: append_record_def write_all_def record_frame_def Let_def)

lemma written_exists:
  "list_all (\<lambda>p. length p \<le> MAX_RECORD_LEN) ps \<Longrightarrow>
     \<exists>fs w. written fs w ps \<and> sw_path w = f \<and> sw_segment_id w = sid \<and> sw_node_id w = nid"
proof (induction ps rule: rev_induct)
  case Nil
  have "\<exists>fs' w. SegmentWriter_create \<lparr>write_budget = None, sync_fails = False\<rparr> Map.empty f sid nid
      = (fs', Inr w) \<and> sw_path w = f \<and> sw_segment_id w = sid \<and> sw_node_id w = nid"
    by (simp add: SegmentWriter_create_def write_all_def)
  then show ?case using written.created by metis
next
  case (snoc p ps)
  then obtain fs w where w: "written fs w ps" "sw_path w = f" "sw_segment_id w = sid" "sw_node_id w = nid"
    by auto
  from written.appended [OF w(1) append_record_unlimited
      [of "\<lparr>write_budget = None, sync_fails = False\<rparr>" p]] snoc.prems w(2-4)
  show ?case by fastforce
qed

subsection \<open>Properties\<close>

text \<open>
  (C7) Whatever sequence of creations, successful appends and reopenings led to a segment,
  reading it from the start returns exactly the appended payloads in order, each with its
  checksum, and at strictly ascending offsets while the segment is shorter than \<open>2 ^ 64\<close> bytes.
\<close>

theorem segment_reads_back:
  assumes "written fs w ps"
  shows "\<exists>records. read_segment fs (sw_path w) = Ok records \<and> map rec_payload records = ps \<and>
    map rec_checksum records = map checksum ps \<and>
    (length (segment_bytes ps) < 2 ^ 64 \<longrightarrow> sorted_wrt (<) (map rec_offset records))"
proof -
  have "map rec_checksum (records_from off ps) = map checksum ps" for off
    by (induction ps arbitrary: off) simp_all
  then show ?thesis
    using read_segment_open [OF written_open [OF assms]] segment_offsets_ascend
    by (simp add: segment_records_def [symmetric]) (simp add: segment_records_def)
qed

lemma segment_reads_back_witness:
  "\<exists>fs w. written fs w [[1, 2], [3]] \<and>
     (\<exists>records. read_segment fs (sw_path w) = Ok records \<and> map rec_payload records = [[1, 2], [3]])"
proof -
  obtain fs w where "written fs w [[1, 2], [3]]"
    using written_exists [of "[[1, 2], [3]]" "''a.seg''" "''s''" "''n''"] by (auto simp: MAX_RECORD_LEN_def)
  with segment_reads_back [OF this] show ?thesis by (meson exI)
qed

text \<open>
  Closing a segment and opening it again for appending gives back the writer as it was:
  the same record count, byte length and running checksum.
\<close>

theorem reopen_restores_writer:
  assumes "written fs w ps"
  shows "SegmentWriter_open_append fs (sw_path w) (sw_segment_id w) (sw_node_id w) = Ok w"
  using open_append_segment [OF written_open [OF assms]] by simp

text \<open>
  When the device fails in the middle of an append, the partial record is never taken for
  data: either no byte reached the file and it reopens unchanged, or reopening reports the torn
  tail, as trailing bytes inside the length and as an unexpected end of file behind it.
\<close>

lemma torn_append_reported:
  assumes "written fs w ps" and "append_record io fs w p = (fs', w', Err (Io e))"
  shows "fs' (sw_path w) = fs (sw_path w) \<and>
      SegmentWriter_open_append fs' (sw_path w) (sw_segment_id w) (sw_node_id w) = Ok w
    \<or> (\<exists>n. 0 < n \<and> n < 12 + length p \<and>
        SegmentWriter_open_append fs' (sw_path w) (sw_segment_id w) (sw_node_id w)
          = Err (if n < 4 then TrailingBytes (sw_byte_len w) (sw_byte_len w + of_nat n)
                 else Io UnexpectedEof))"
proof -
  note op = written_open [OF assms(1)]
  from append_record_errD [OF assms(2)] obtain n where n: "n < length (record_frame p)"
      "fs' = append_file fs (sw_path w) (take n (record_frame p))" "length p \<le> MAX_RECORD_LEN"
    using assms(2) by (auto simp: append_record_def split: if_splits)
  show ?thesis
  proof (cases "n = 0")
    case True
    with n op have "fs' (sw_path w) = fs (sw_path w)" by (simp add: segment_open_def)
    moreover from this op have "segment_open fs' w ps" by (simp add: segment_open_def)
    ultimately show ?thesis using open_append_segment by fastforce
  next
    case False
    with n op open_append_torn [of fs' "sw_path w" ps n p] show ?thesis
      by (intro disjI2 exI [of _ n]) (simp add: segment_open_def)
  qed
qed

text \<open>
  A changed byte in the payload of any record is noticed: reading the segment stops with a
  checksum mismatch at that record's offset, whatever follows it in the file.
\<close>

lemma corrupt_payload_detected:
  assumes "fs f = Some (segment_bytes ps @ to_le_bytes 4 (of_nat (length p) :: u32)
      @ to_le_bytes 8 (checksum p) @ p[i := b] @ rest)"
    and "list_all (\<lambda>p. length p \<le> MAX_RECORD_LEN) (p # ps)"
    and "i < length p" "b \<noteq> p ! i"
  shows "read_segment fs f
    = Err (ChecksumMismatch (of_nat (length (segment_bytes ps))) (checksum p) (checksum (p[i := b])))"
proof -
  have open_ok: "SegmentReader_open fs f
      = Inr \<lparr>sr_rest = concat (map record_frame ps) @ to_le_bytes 4 (of_nat (length p) :: u32)
          @ to_le_bytes 8 (checksum p) @ p[i := b] @ rest, sr_offset = 8\<rparr>"
    using assms(1) by (simp add: SegmentReader_open_def segment_bytes_def)
  have "unat (of_nat (length p) :: u32) = length p"
    using assms(2) by (simp add: MAX_RECORD_LEN_def unat_of_nat)
  then have "read_next \<lparr>sr_rest = to_le_bytes 4 (of_nat (length p) :: u32)
          @ to_le_bytes 8 (checksum p) @ p[i := b] @ rest, sr_offset = off\<rparr>
      = Inl (ChecksumMismatch off (checksum p) (checksum (p[i := b])))" for off
    using checksum_update [OF assms(3,4)]
    by (simp add: read_next_def read_exact_def Let_def)
  with assms(2) show ?thesis
    by (simp add: read_segment_def open_ok read_loop_torn segment_bytes_def)
qed

text \<open>
  (C23) A writer whose append failed part-way stays usable, and the next append can be acknowledged and
  lost. When at least the four bytes of the length reached the file and the next payload is shorter than
  what the failed record still announces, the next append on a working disk succeeds at the offset where
  the torn bytes stand, and the segment can no longer be read past the records before it: the
  acknowledged record is taken for payload of the torn one. (An append that failed without writing
  anything does no harm.)
\<close>

theorem append_after_torn_write_lost:
  assumes "written fs w ps"
    and "append_record io fs w p = (fs1, w1, Err (Io e))"
    and "length (the (fs1 (sw_path w))) = length (the (fs (sw_path w))) + n" "4 \<le> n"
    and "n + length q < length p" "write_budget io' = None"
  shows "\<exists>fs2 w2. w1 = w \<and> append_record io' fs1 w1 q = (fs2, w2, Ok (sw_byte_len w)) \<and>
    read_segment fs2 (sw_path w) = Err (Io UnexpectedEof)"
proof -
  note op = written_open [OF assms(1)]
  from append_record_errD [OF assms(2)] obtain m where m: "m < length (record_frame p)"
      "fs1 = append_file fs (sw_path w) (take m (record_frame p))" "length p \<le> MAX_RECORD_LEN"
    and w1: "w1 = w"
    using assms(2) by (auto simp: append_record_def split: if_splits)
  obtain fs2 w2 off where a2: "append_record io' fs1 w1 q = (fs2, w2, Inr off)"
    using append_record_unlimited [OF assms(6), of q fs1 w1] assms(5) m(3) by fastforce
  from m op assms(3) have [simp]: "m = n" by (simp add: segment_open_def)
  have len: "unat (of_nat (length p) :: u32) = length p"
    using m(3) by (simp add: MAX_RECORD_LEN_def unat_of_nat)
  let ?tail = "take n (record_frame p) @ record_frame q"
  have "fs2 (sw_path w) = Some (segment_bytes ps @ ?tail)"
    using append_record_okD(2) [OF a2] m(2) op w1 by (simp add: segment_open_def)
  then have open_ok: "SegmentReader_open fs2 (sw_path w)
      = Inr \<lparr>sr_rest = concat (map record_frame ps) @ ?tail, sr_offset = 8\<rparr>"
    by (simp add: SegmentReader_open_def segment_bytes_def)
  have "take 4 ?tail = to_le_bytes 4 (of_nat (length p) :: u32)"
    using assms(4) by (simp add: record_frame_def)
  moreover have "n - 12 + (12 + length q) - (12 - n) < length p"
    using assms(4,5) by linarith
  ultimately have "read_next \<lparr>sr_rest = ?tail, sr_offset = off\<rparr> = Inl (Io UnexpectedEof)" for off
    using assms(4,5) m(1)
    by (simp only: read_next_def Let_def SegmentReader.simps) (simp add: read_exact_def len)
  with op have "read_segment fs2 (sw_path w) = Inl (Io UnexpectedEof)"
    by (simp add: read_segment_def open_ok segment_open_def read_loop_torn)
  with a2 w1 append_record_okD(3) [OF a2] show ?thesis by simp
qed

lemma append_after_torn_write_lost_witness:
  "\<exists>fs w fs1 fs2 w2 off.
     written fs w [[1]] \<and>
     append_record \<lparr>write_budget = Some 5, sync_fails = False\<rparr> fs w (replicate 20 7) = (fs1, w, Err (Io WriteError)) \<and>
     append_record \<lparr>write_budget = None, sync_fails = False\<rparr> fs1 w [3] = (fs2, w2, Ok off) \<and>
     read_segment fs2 (sw_path w) = Err (Io UnexpectedEof)"
proof -
  let ?ok = "\<lparr>write_budget = None, sync_fails = False\<rparr>"
  obtain fs w where w: "written fs w [[1]]"
    using written_exists [of "[[1]]" "''a.seg''" "''s''" "''n''"] by (auto simp: MAX_RECORD_LEN_def)
  let ?fs1 = "append_file fs (sw_path w) (take 5 (record_frame (replicate 20 7)))"
  have a: "append_record \<lparr>write_budget = Some 5, sync_fails = False\<rparr> fs w (replicate 20 7)
      = (?fs1, w, Err (Io WriteError))"
    by (simp add: append_record_def write_all_def MAX_RECORD_LEN_def record_frame_def)
  have n: "length (the (?fs1 (sw_path w))) = length (the (fs (sw_path w))) + 5"
    using written_open [OF w] by (simp add: segment_open_def)
  from append_after_torn_write_lost [OF w a n, of "[3]" ?ok] w a show ?thesis by fastforce
qed

end
