(* ===== verification/Record_Log.thy ===== *)
theory Record_Log
  imports Storage
begin

text \<open>
  The interface between the segments of \<open>src/storage.rs\<close> and the two components that keep typed
  records in them, the process-event journal and the metadata outbox: an encoder and a decoder
  that agree on every record a segment accepts. The locale's lemmas give, once for both, what the
  replay loop of a client computes on a segment that holds encoded records.
\<close>

locale durable_log =
  fixes encode :: "'a \<Rightarrow> bytes" and decode :: "bytes \<Rightarrow> 'd + 'a" and ok :: "'a \<Rightarrow> bool"
  assumes decode_encode: "ok x \<Longrightarrow> length (encode x) \<le> MAX_RECORD_LEN \<Longrightarrow> decode (encode x) = Inr x"
begin

lemma fold_decoded:
  assumes "list_all ok xs" "list_all (\<lambda>p. length p \<le> MAX_RECORD_LEN) (map encode xs)"
    and "map rec_payload rs = map encode xs"
    and body: "\<And>rec x s. x \<in> set xs \<Longrightarrow> decode (rec_payload rec) = Inr x \<Longrightarrow> b rec s = body rec x s"
  shows "fold_records b rs s = fold_records (\<lambda>(rec, x). body rec x) (zip rs xs) s"
  using assms(1-3) body
proof (induction xs arbitrary: rs s)
  case (Cons x xs)
  then obtain r rs' where r: "rs = r # rs'" "rec_payload r = encode x" "map rec_payload rs' = map encode xs"
    by (cases rs) auto
  with Cons have "b r s = body r x s" by (simp add: decode_encode)
  with Cons r show ?case by (simp split: sum.split)
qed simp

text \<open>
  The replay loop of a client, whatever its body \<open>b\<close> does with a record that decodes to \<open>x\<close>: it
  folds over the records of the segment, paired with what was written.
\<close>

lemma replay_records:
  assumes "segment_open fs w (map encode xs)" "list_all ok xs"
    and body: "\<And>rec x s. x \<in> set xs \<Longrightarrow> decode (rec_payload rec) = Inr x \<Longrightarrow> b rec s = body rec x s"
  shows "\<exists>reader. SegmentReader_open fs (sw_path w) = Inr reader \<and>
    read_loop conv (\<lambda>rec r. b rec) reader s
      = fold_records (\<lambda>(rec, x). body rec x) (zip (segment_records (map encode xs)) xs) s"
proof -
  from assms(1) have "fs (sw_path w) = Some (segment_bytes (map encode xs))"
    "list_all (\<lambda>p. length p \<le> MAX_RECORD_LEN) (map encode xs)"
    by (simp_all add: segment_open_def)
  then have open_ok: "SegmentReader_open fs (sw_path w)
      = Inr \<lparr>sr_rest = concat (map record_frame (map encode xs)), sr_offset = 8\<rparr>"
    and loop: "read_loop conv (\<lambda>rec r. b rec) \<lparr>sr_rest = concat (map record_frame (map encode xs)), sr_offset = 8\<rparr> s
      = fold_records b (segment_records (map encode xs)) s"
    and len: "list_all (\<lambda>p. length p \<le> MAX_RECORD_LEN) (map encode xs)"
    by (simp_all only: SegmentReader_open_segment read_loop_frames segment_records_def length_SEGMENT_MAGIC of_nat_numeral)
  show ?thesis
    unfolding open_ok using loop fold_decoded [OF assms(2) len _ body, where rs = "segment_records (map encode xs)" and s = s]
    by (simp del: map_map)
qed

lemma replay_loop:
  assumes "segment_open fs w (map encode xs)" "list_all ok xs"
  shows "\<exists>reader. SegmentReader_open fs (sw_path w) = Inr reader \<and>
    read_loop conv (\<lambda>rec r s. res_bind (map_err cd (decode (rec_payload rec))) (\<lambda>x. body rec x s)) reader s
      = fold_records (\<lambda>(rec, x). body rec x) (zip (segment_records (map encode xs)) xs) s"
  by (rule replay_records [OF assms]) simp

end

lemma fold_records_total:
  "fold_records (\<lambda>x s. Inr (f x s)) xs s = Inr (fold f xs s)"
  by (induction xs arbitrary: s) simp_all

end
