(* ===== verification/Journal.thy ===== *)
theory Journal
  imports Event_Codec Record_Log "HOL-Library.Sublist"
begin

text \<open>
  The process-event journal of \<open>src/ingest.rs\<close>: \<open>ProcessEventJournal\<close> (create, recover,
  \<open>append_durable\<close>, manifest, seal) and \<open>replay_process_event_segment\<close>. Every event the journal
  acknowledged is replayed, in order, and recovery continues the same journal.
\<close>

record ProcessEventJournal =
  pj_writer :: SegmentWriter

datatype ProcessEventJournalError =
  JeSegment SegmentError
| JeIngest IngestError
| JeDecode ProcessEventDecodeError

record JournaledPipelineEvent =
  je_offset :: RecordOffset
  je_event :: PipelineEvent

record ProcessEventReplaySummary =
  rs_scanned_records :: u64
  rs_replayed_records :: u64

record ProcessEventReplay =
  rp_events :: "JournaledPipelineEvent list"
  rp_summary :: ProcessEventReplaySummary

record ProcessEventJournalRecovery =
  jr_journal :: ProcessEventJournal
  jr_replay :: ProcessEventReplay

definition ProcessEventJournal_create ::
  "disk_io \<Rightarrow> fs \<Rightarrow> path \<Rightarrow> SegmentId \<Rightarrow> NodeId \<Rightarrow> fs \<times> (ProcessEventJournalError + ProcessEventJournal)" where
  "ProcessEventJournal_create io fs p sid nid =
     (case SegmentWriter_create io fs p sid nid of
        (fs', r) \<Rightarrow> (fs', res_bind (map_err JeSegment r) (\<lambda>w. Ok \<lparr>pj_writer = w\<rparr>)))"

definition replay_process_event_segment :: "fs \<Rightarrow> path \<Rightarrow> ProcessEventJournalError + ProcessEventReplay" where
  "replay_process_event_segment fs p =
     res_bind (map_err JeSegment (SegmentReader_open fs p)) (\<lambda>reader.
     res_bind (read_loop JeSegment
       (\<lambda>rec _ (events, scanned_records).
          res_bind (map_err JeDecode (decode_pipeline_event (rec_payload rec))) (\<lambda>event.
          res_bind (map_err JeIngest (PipelineEvent_validate event)) (\<lambda>_.
          Ok (events @ [\<lparr>je_offset = rec_offset rec, je_event = event\<rparr>], scanned_records + 1))))
       reader ([], 0)) (\<lambda>(events, scanned_records).
     Ok \<lparr>rp_events = events,
         rp_summary = \<lparr>rs_scanned_records = scanned_records,
                       rs_replayed_records = of_nat (length events)\<rparr>\<rparr>))"

definition ProcessEventJournal_recover ::
  "fs \<Rightarrow> path \<Rightarrow> SegmentId \<Rightarrow> NodeId \<Rightarrow> ProcessEventJournalError + ProcessEventJournalRecovery" where
  "ProcessEventJournal_recover fs p sid nid =
     res_bind (replay_process_event_segment fs p) (\<lambda>replay.
     res_bind (map_err JeSegment (SegmentWriter_open_append fs p sid nid)) (\<lambda>writer.
     Ok \<lparr>jr_journal = \<lparr>pj_writer = writer\<rparr>, jr_replay = replay\<rparr>))"

definition append_durable ::
  "disk_io \<Rightarrow> fs \<Rightarrow> ProcessEventJournal \<Rightarrow> PipelineEvent \<Rightarrow>
     fs \<times> ProcessEventJournal \<times> (ProcessEventJournalError + RecordOffset)" where
  "append_durable io fs j event =
     (case PipelineEvent_validate event of
        Inl e \<Rightarrow> (fs, j, Err (JeIngest e))
      | Inr _ \<Rightarrow>
          (case append_record io fs (pj_writer j) (encode_pipeline_event event) of
             (fs', w, Inl e) \<Rightarrow> (fs', j\<lparr>pj_writer := w\<rparr>, Err (JeSegment e))
           | (fs', w, Inr offset) \<Rightarrow>
               (case SegmentWriter_sync io w of
                  Inl e \<Rightarrow> (fs', j\<lparr>pj_writer := w\<rparr>, Err (JeSegment e))
                | Inr _ \<Rightarrow> (fs', j\<lparr>pj_writer := w\<rparr>, Ok offset))))"

definition ProcessEventJournal_manifest :: "ProcessEventJournal \<Rightarrow> SegmentManifest" where
  "ProcessEventJournal_manifest j = SegmentWriter_manifest (pj_writer j)"

definition ProcessEventJournal_seal ::
  "disk_io \<Rightarrow> ProcessEventJournal \<Rightarrow> ProcessEventJournalError + SegmentManifest" where
  "ProcessEventJournal_seal io j = map_err JeSegment (SegmentWriter_seal io (pj_writer j))"

subsection \<open>The journal as a durable log\<close>

definition event_rust :: "PipelineEvent \<Rightarrow> bool" where
  "event_rust e \<longleftrightarrow> list_all rust_string (event_strings e)"

interpretation event_log: durable_log encode_pipeline_event decode_pipeline_event event_rust
proof
  fix e assume "event_rust e" "length (encode_pipeline_event e) \<le> MAX_RECORD_LEN"
  then have "event_encodable e" "length (encode_pipeline_event e) < 2 ^ 32"
    by (auto simp: event_rust_def MAX_RECORD_LEN_def intro!: event_encodable_rust)
  with decodes_run [OF pd_pipeline_event, of e "[]"]
  show "decode_pipeline_event (encode_pipeline_event e) = Inr e"
    by (simp add: decode_pipeline_event_def PayloadCursor_finish_def)
qed

definition journal_holds :: "fs \<Rightarrow> ProcessEventJournal \<Rightarrow> PipelineEvent list \<Rightarrow> bool" where
  "journal_holds fs j es \<longleftrightarrow>
     segment_open fs (pj_writer j) (map encode_pipeline_event es) \<and>
     list_all event_rust es \<and> list_all event_valid es"

definition journaled :: "PipelineEvent list \<Rightarrow> JournaledPipelineEvent list" where
  "journaled es =
     map2 (\<lambda>rec e. \<lparr>je_offset = rec_offset rec, je_event = e\<rparr>)
       (segment_records (map encode_pipeline_event es)) es"

lemma map_je_event_journaled [simp]: "map je_event (journaled es) = es"
proof -
  have "map (je_event \<circ> (\<lambda>(rec, e). \<lparr>je_offset = rec_offset rec, je_event = e\<rparr>)) (zip rs es) = es"
    if "length rs = length es" for rs :: "SegmentRecord list" and es
    using that by (induction rs es rule: list_induct2) simp_all
  then show ?thesis by (simp add: journaled_def)
qed

lemma fold_journaled:
  assumes "list_all event_valid es" "length rs = length es"
  shows "fold_records (\<lambda>(rec, event) (events, n).
      res_bind (map_err JeIngest (PipelineEvent_validate event)) (\<lambda>_.
        Inr (events @ [\<lparr>je_offset = rec_offset rec, je_event = event\<rparr>], n + 1))) (zip rs es) (acc, n)
    = Inr (acc @ map2 (\<lambda>rec e. \<lparr>je_offset = rec_offset rec, je_event = e\<rparr>) rs es,
           (n :: u64) + of_nat (length es))"
  using assms(2,1)
proof (induction rs es arbitrary: acc n rule: list_induct2)
  case (Cons r rs e es)
  then have "PipelineEvent_validate e = Inr ()" by (simp add: validate_iff)
  with Cons show ?case by (simp add: ac_simps)
qed simp

lemma replay_journal:
  assumes "journal_holds fs j es"
  shows "replay_process_event_segment fs (sw_path (pj_writer j))
    = Inr \<lparr>rp_events = journaled es,
           rp_summary = \<lparr>rs_scanned_records = of_nat (length es), rs_replayed_records = of_nat (length es)\<rparr>\<rparr>"
proof -
  let ?body = "\<lambda>rec event (events, n).
      res_bind (map_err JeIngest (PipelineEvent_validate event)) (\<lambda>_.
        Inr (events @ [\<lparr>je_offset = rec_offset rec, je_event = event\<rparr>], n + (1 :: u64)))"
  from assms event_log.replay_loop [of fs "pj_writer j" es JeSegment JeDecode ?body "([], 0)"]
  obtain reader where reader: "SegmentReader_open fs (sw_path (pj_writer j)) = Inr reader"
    and loop: "read_loop JeSegment (\<lambda>rec r s.
        res_bind (map_err JeDecode (decode_pipeline_event (rec_payload rec))) (\<lambda>x. ?body rec x s)) reader ([], 0)
      = fold_records (\<lambda>(rec, x). ?body rec x) (zip (segment_records (map encode_pipeline_event es)) es) ([], 0)"
    by (auto simp: journal_holds_def)
  have body: "(\<lambda>rec (r :: SegmentReader) (events, n).
      res_bind (map_err JeDecode (decode_pipeline_event (rec_payload rec))) (\<lambda>event.
      res_bind (map_err JeIngest (PipelineEvent_validate event)) (\<lambda>_.
      Inr (events @ [\<lparr>je_offset = rec_offset rec, je_event = event\<rparr>], n + (1 :: u64)))))
    = (\<lambda>rec r s. res_bind (map_err JeDecode (decode_pipeline_event (rec_payload rec))) (\<lambda>x. ?body rec x s))"
    by (auto simp: fun_eq_iff)
  have "fold_records (\<lambda>(rec, x). ?body rec x) (zip (segment_records (map encode_pipeline_event es)) es) ([], 0)
      = Inr (journaled es, of_nat (length es))"
    using fold_journaled [of es "segment_records (map encode_pipeline_event es)" "[]" 0] assms
    by (simp add: journaled_def journal_holds_def case_prod_beta')
  moreover have "length (journaled es) = length es" by (simp add: journaled_def)
  ultimately show ?thesis
    by (simp add: replay_process_event_segment_def reader body loop)
qed

lemma journal_holds_create:
  "ProcessEventJournal_create io fs p sid nid = (fs', Inr j) \<Longrightarrow> journal_holds fs' j []"
  by (auto simp: ProcessEventJournal_create_def journal_holds_def split: prod.splits dest: segment_open_create)

lemma append_durable_written:
  assumes "append_durable io fs j e = (fs', j', r)" "r = Inr off \<or> r = Inl (JeSegment (Io SyncError))"
  shows "event_valid e \<and> (\<exists>off w. append_record io fs (pj_writer j) (encode_pipeline_event e) = (fs', w, Inr off)
    \<and> j' = j\<lparr>pj_writer := w\<rparr>)"
  using assms append_record_errD [of io fs "pj_writer j" "encode_pipeline_event e"]
  by (auto simp: append_durable_def SegmentWriter_sync_def simp flip: validate_iff
      split: sum.splits prod.splits if_splits)

lemma append_durable_rejected:
  "append_durable io fs j e = (fs', j', Inl (JeIngest err)) \<Longrightarrow> fs' = fs \<and> j' = j"
  by (auto simp: append_durable_def split: sum.splits prod.splits)

lemma journal_holds_append:
  assumes "journal_holds fs j es" "event_rust e"
    and "append_durable io fs j e = (fs', j', r)" "r = Inr off \<or> r = Inl (JeSegment (Io SyncError))"
  shows "journal_holds fs' j' (es @ [e])"
  using assms(1,2) append_durable_written [OF assms(3,4)]
  by (auto simp: journal_holds_def dest: segment_open_append(1))

lemma recover_journal:
  assumes "journal_holds fs j es"
  shows "\<exists>j'. ProcessEventJournal_recover fs (sw_path (pj_writer j)) sid nid
      = Inr \<lparr>jr_journal = j', jr_replay = \<lparr>rp_events = journaled es,
           rp_summary = \<lparr>rs_scanned_records = of_nat (length es), rs_replayed_records = of_nat (length es)\<rparr>\<rparr>\<rparr>
    \<and> pj_writer j' = (pj_writer j)\<lparr>sw_segment_id := sid, sw_node_id := nid\<rparr> \<and> journal_holds fs j' es"
proof -
  from assms have w: "segment_open fs (pj_writer j) (map encode_pipeline_event es)"
    by (simp add: journal_holds_def)
  with assms show ?thesis
    unfolding ProcessEventJournal_recover_def replay_journal [OF assms] open_append_segment [OF w]
    by (simp add: journal_holds_def segment_open_def)
qed

subsection \<open>Histories of a journal\<close>

text \<open>
  \<open>journal_run fs j es acked\<close>: a history in which the events \<open>es\<close> were written and the events
  \<open>acked\<close> acknowledged by \<open>append_durable\<close>. An event whose \<open>sync\<close> failed was written and not
  acknowledged; a rejected event was not written; the process may stop and recover at any point.
\<close>

inductive journal_run ::
  "fs \<Rightarrow> ProcessEventJournal \<Rightarrow> PipelineEvent list \<Rightarrow> PipelineEvent list \<Rightarrow> bool" where
  j_created: "ProcessEventJournal_create io fs p sid nid = (fs', Inr j) \<Longrightarrow> journal_run fs' j [] []"
| j_acked: "journal_run fs j es acked \<Longrightarrow> event_rust e \<Longrightarrow> append_durable io fs j e = (fs', j', Inr off) \<Longrightarrow>
     journal_run fs' j' (es @ [e]) (acked @ [e])"
| j_unsynced: "journal_run fs j es acked \<Longrightarrow> event_rust e \<Longrightarrow>
     append_durable io fs j e = (fs', j', Inl (JeSegment (Io SyncError))) \<Longrightarrow>
     journal_run fs' j' (es @ [e]) acked"
| j_rejected: "journal_run fs j es acked \<Longrightarrow> append_durable io fs j e = (fs', j', Inl (JeIngest err)) \<Longrightarrow>
     journal_run fs' j' es acked"
| j_recovered: "journal_run fs j es acked \<Longrightarrow>
     ProcessEventJournal_recover fs (sw_path (pj_writer j)) sid nid = Inr r \<Longrightarrow>
     journal_run fs (jr_journal r) es acked"
| j_elsewhere: "journal_run fs j es acked \<Longrightarrow> fs' (sw_path (pj_writer j)) = fs (sw_path (pj_writer j)) \<Longrightarrow>
     journal_run fs' j es acked"

lemma journal_run_holds: "journal_run fs j es acked \<Longrightarrow> journal_holds fs j es \<and> subseq acked es"
proof (induction rule: journal_run.induct)
  case j_created
  then show ?case by (simp add: journal_holds_create)
next
  case j_acked
  then show ?case by (auto intro: journal_holds_append list_emb_append_mono)
next
  case j_unsynced
  then show ?case by (auto intro: journal_holds_append subseq_rev_drop_many)
next
  case j_rejected
  then show ?case by (auto dest: append_durable_rejected)
next
  case (j_recovered fs j es acked sid nid r)
  then show ?case using recover_journal [of fs j es sid nid] by auto
next
  case j_elsewhere
  then show ?case by (simp add: journal_holds_def segment_open_def)
qed

subsection \<open>Properties\<close>

text \<open>
  (C9) Over every history of a journal, with failing syncs, rejected events and restarts, a
  replay of its segment returns exactly the events written to it, in order and with their
  offsets; every acknowledged event is among them, in the order of acknowledgement.
\<close>

theorem journal_replays_acknowledged:
  assumes "journal_run fs j es acked"
  shows "\<exists>replay. replay_process_event_segment fs (sw_path (pj_writer j)) = Ok replay \<and>
    map je_event (rp_events replay) = es \<and> subseq acked es \<and>
    rs_replayed_records (rp_summary replay) = of_nat (length es)"
  using replay_journal journal_run_holds [OF assms] by auto

lemma journal_replays_acknowledged_witness:
  "\<exists>fs j replay. journal_run fs j [codec_sample] [codec_sample] \<and>
     replay_process_event_segment fs (sw_path (pj_writer j)) = Ok replay \<and>
     map je_event (rp_events replay) = [codec_sample]"
proof -
  let ?io = "\<lparr>write_budget = None, sync_fails = False\<rparr>"
  obtain fs0 j0 where c: "ProcessEventJournal_create ?io Map.empty ''j'' ''s'' ''n'' = (fs0, Inr j0)"
    by (simp add: ProcessEventJournal_create_def SegmentWriter_create_def write_all_def)
  have ok: "event_rust codec_sample" "event_valid codec_sample"
    "length (encode_pipeline_event codec_sample) \<le> MAX_RECORD_LEN"
    using codec_sample_ok
    by (simp_all add: event_encodable_strings event_rust_def str_ok_def list_all_iff MAX_RECORD_LEN_def)
      (simp add: codec_sample_def event_builder_defs event_valid_def)
  obtain fs1 j1 off where "append_durable ?io fs0 j0 codec_sample = (fs1, j1, Inr off)"
    using ok append_record_unlimited [of ?io "encode_pipeline_event codec_sample" fs0 "pj_writer j0"]
    by (simp add: append_durable_def SegmentWriter_sync_def flip: validate_iff)
  with c ok(1) have "journal_run fs1 j1 ([] @ [codec_sample]) ([] @ [codec_sample])"
    by (metis journal_run.j_created journal_run.j_acked)
  from this journal_replays_acknowledged [OF this] show ?thesis
    unfolding append_Nil by (meson exI)
qed

end
