(* ===== verification/Timestamps.thy ===== *)
theory Timestamps
  imports Events "HOL-Library.Signed_Division"
begin

text \<open>
  \<open>EventTimestamp\<close> of \<open>src/ingest.rs\<close>: the ISO-8601 subset the crate parses for durations.
  \<open>days_from_civil\<close> computes in \<open>i32\<close>; its model wraps every intermediate result at 32 bits, as the
  release build does. The lemmas show that within the years the arithmetic does not overflow it
  numbers the days of the Gregorian calendar consecutively from 1970-01-01.
\<close>

subsection \<open>The string methods the parser uses\<close>

definition strip_suffix :: "char \<Rightarrow> string \<Rightarrow> string option" where
  "strip_suffix c s = (if s \<noteq> [] \<and> last s = c then Some (butlast s) else None)"

definition split_once :: "char \<Rightarrow> string \<Rightarrow> (string \<times> string) option" where
  "split_once c s =
     (case dropWhile (\<lambda>x. x \<noteq> c) s of
        [] \<Rightarrow> None
      | _ # rest \<Rightarrow> Some (takeWhile (\<lambda>x. x \<noteq> c) s, rest))"

fun split_char :: "char \<Rightarrow> string \<Rightarrow> string list" where
  "split_char c [] = [[]]"
| "split_char c (x # xs) =
     (if x = c then [] # split_char c xs
      else (x # hd (split_char c xs)) # tl (split_char c xs))"

definition iter_get :: "nat \<Rightarrow> 'a list \<Rightarrow> 'a option" where
  "iter_get n xs = (if n < length xs then Some (xs ! n) else None)"

definition digit_value :: "char \<Rightarrow> int option" where
  "digit_value c = (if CHR ''0'' \<le> c \<and> c \<le> CHR ''9'' then Some (of_char c - of_char CHR ''0'') else None)"

fun digits_value :: "int \<Rightarrow> string \<Rightarrow> int option" where
  "digits_value acc [] = Some acc"
| "digits_value acc (c # cs) =
     (case digit_value c of None \<Rightarrow> None | Some d \<Rightarrow> digits_value (10 * acc + d) cs)"

definition parse_digits :: "string \<Rightarrow> int option" where
  "parse_digits s = (if s = [] then None else digits_value 0 s)"

text \<open>\<open>str::parse\<close> for an unsigned type of \<open>w\<close> bits and for \<open>i32\<close>.\<close>

definition parse_unsigned :: "nat \<Rightarrow> string \<Rightarrow> int option" where
  "parse_unsigned w s =
     (case parse_digits (case s of [] \<Rightarrow> [] | c # cs \<Rightarrow> if c = CHR ''+'' then cs else s) of
        None \<Rightarrow> None
      | Some n \<Rightarrow> if n < 2 ^ w then Some n else None)"

definition parse_i32 :: "string \<Rightarrow> int option" where
  "parse_i32 s =
     (case (case s of
              [] \<Rightarrow> None
            | c # cs \<Rightarrow>
                if c = CHR ''-'' then map_option uminus (parse_digits cs)
                else if c = CHR ''+'' then parse_digits cs
                else parse_digits s) of
        None \<Rightarrow> None
      | Some n \<Rightarrow> if - (2 ^ 31) \<le> n \<and> n < 2 ^ 31 then Some n else None)"

subsection \<open>Civil days\<close>

definition i32 :: "int \<Rightarrow> int" where
  "i32 n = signed_take_bit 31 n"

definition days_from_civil :: "int \<Rightarrow> int \<Rightarrow> int \<Rightarrow> int option" where
  "days_from_civil year month day =
     (if \<not> (1 \<le> month \<and> month \<le> 12) \<or> \<not> (1 \<le> day \<and> day \<le> 31) then None
      else
        let year = i32 (year - (if month \<le> 2 then 1 else 0));
            era = i32 ((if year \<ge> 0 then year else i32 (year - 399)) sdiv 400);
            yoe = i32 (year - i32 (era * 400));
            doy = i32 (i32 (i32 (i32 (153 * i32 (month + (if month > 2 then -3 else 9))) + 2) sdiv 5 + day) - 1);
            doe = i32 (i32 (i32 (i32 (yoe * 365) + yoe sdiv 4) - yoe sdiv 100) + doy)
        in Some (i32 (i32 (i32 (era * 146097) + doe) - 719468)))"

subsection \<open>Timestamps\<close>

definition parse_second_millis :: "string \<Rightarrow> (int \<times> int) option" where
  "parse_second_millis val =
     (case split_once CHR ''.'' val of
        Some (second, fraction) \<Rightarrow>
          Option.bind (parse_unsigned 32 second) (\<lambda>second.
          Option.bind (parse_unsigned 64 (take 3 fraction)) (\<lambda>millis.
          Some (second, millis)))
      | None \<Rightarrow> Option.bind (parse_unsigned 32 val) (\<lambda>second. Some (second, 0)))"

definition i64_range :: "int \<Rightarrow> int option" where
  "i64_range n = (if - (2 ^ 63) \<le> n \<and> n < 2 ^ 63 then Some n else None)"

definition u64_range :: "int \<Rightarrow> int option" where
  "u64_range n = (if 0 \<le> n \<and> n < 2 ^ 64 then Some n else None)"

definition parse_epoch_millis :: "string \<Rightarrow> int option" where
  "parse_epoch_millis timestamp =
     Option.bind (strip_suffix CHR ''Z'' timestamp) (\<lambda>rest.
     Option.bind (split_once CHR ''T'' rest) (\<lambda>(date, time).
     let date_parts = split_char CHR ''-'' date in
     Option.bind (Option.bind (iter_get 0 date_parts) parse_i32) (\<lambda>year.
     Option.bind (Option.bind (iter_get 1 date_parts) (parse_unsigned 32)) (\<lambda>month.
     Option.bind (Option.bind (iter_get 2 date_parts) (parse_unsigned 32)) (\<lambda>day.
     let time_parts = split_char CHR '':'' time in
     Option.bind (Option.bind (iter_get 0 time_parts) (parse_unsigned 32)) (\<lambda>hour.
     Option.bind (Option.bind (iter_get 1 time_parts) (parse_unsigned 32)) (\<lambda>minute.
     Option.bind (iter_get 2 time_parts) (\<lambda>second_part.
     Option.bind (parse_second_millis second_part) (\<lambda>(second, millis).
     Option.bind (days_from_civil year month day) (\<lambda>days.
     Option.bind (i64_range (days * 86400)) (\<lambda>seconds.
     Option.bind (i64_range (seconds + (hour * 3600 + minute * 60 + second))) (\<lambda>seconds.
     Option.bind (u64_range seconds) (\<lambda>seconds.
     Option.bind (u64_range (seconds * 1000)) (\<lambda>ms. u64_range (ms + millis)))))))))))))))"

definition saturating_duration_until :: "EventTimestamp \<Rightarrow> EventTimestamp \<Rightarrow> u64" where
  "saturating_duration_until self later =
     (case (parse_epoch_millis self, parse_epoch_millis later) of
        (Some start, Some end') \<Rightarrow> u64_saturating_sub (word_of_int end') (word_of_int start)
      | _ \<Rightarrow> 0)"

subsection \<open>The calendar\<close>

definition year_days :: "int \<Rightarrow> int" where
  "year_days y = 365 * y + y div 4 - y div 100 + y div 400"

definition month_days :: "int \<Rightarrow> int" where
  "month_days m = (153 * (m + (if m > 2 then -3 else 9)) + 2) div 5"

definition leap_year :: "int \<Rightarrow> bool" where
  "leap_year y \<longleftrightarrow> y mod 4 = 0 \<and> (y mod 100 \<noteq> 0 \<or> y mod 400 = 0)"

definition days_in_month :: "int \<Rightarrow> int \<Rightarrow> int" where
  "days_in_month y m =
     (if m = 2 then (if leap_year y then 29 else 28)
      else if m \<in> {4, 6, 9, 11} then 30 else 31)"

definition valid_date :: "int \<times> int \<times> int \<Rightarrow> bool" where
  "valid_date = (\<lambda>(y, m, d). 1 \<le> m \<and> m \<le> 12 \<and> 1 \<le> d \<and> d \<le> days_in_month y m)"

definition next_date :: "int \<times> int \<times> int \<Rightarrow> int \<times> int \<times> int" where
  "next_date = (\<lambda>(y, m, d).
     if d < days_in_month y m then (y, m, d + 1)
     else if m < 12 then (y, m + 1, 1) else (y + 1, 1, 1))"

lemma i32_id: "- (2 ^ 31) \<le> n \<Longrightarrow> n < 2 ^ 31 \<Longrightarrow> i32 n = n"
  unfolding i32_def by (rule signed_take_bit_int_eq_self) simp_all

lemma sdiv_nonneg: "0 \<le> (a :: int) \<Longrightarrow> 0 < b \<Longrightarrow> a sdiv b = a div b"
  by (auto simp: signed_divide_int_def sgn_if)

lemma era_floor: "(if (y :: int) \<ge> 0 then y else y - 399) sdiv 400 = y div 400"
proof (cases "y \<ge> 0")
  case False
  then have "(y - 399) sdiv 400 = - ((399 - y) div 400)"
    by (simp add: signed_divide_int_def sgn_if)
  also have "\<dots> = y div 400" by linarith
  finally show ?thesis using False by simp
qed (simp add: sdiv_nonneg)

lemma year_days_era:
  "y div 400 * 146097 + ((y mod 400) * 365 + (y mod 400) div 4 - (y mod 400) div 100) = year_days y"
proof -
  define q r where "q = y div 400" and "r = y mod 400"
  then have y: "y = r + 400 * q" by simp
  have "y div 4 = r div 4 + 100 * q" "y div 100 = r div 100 + 4 * q" unfolding y by linarith+
  then show ?thesis
    unfolding year_days_def q_def [symmetric] r_def [symmetric] by (simp add: y)
qed

lemma days_from_civil_eq:
  assumes "1 \<le> m" "m \<le> 12" "1 \<le> d" "d \<le> 31" "\<bar>y\<bar> \<le> 5000001"
  shows "days_from_civil y m d
    = Some (year_days (if m \<le> 2 then y - 1 else y) + month_days m + d - 719469)"
proof -
  define y' where "y' = (if m \<le> 2 then y - 1 else y)"
  then have y': "- 5000002 \<le> y'" "y' \<le> 5000002" using assms(5) by auto
  define era yoe where "era = y' div 400" and "yoe = y' mod 400"
  have yoe: "0 \<le> yoe" "yoe < 400" and yoe_eq: "y' - era * 400 = yoe"
    by (simp_all add: yoe_def era_def minus_div_mult_eq_mod)
  have era: "- 12502 \<le> era" "era \<le> 12502" using y' unfolding era_def by linarith+
  define mp where "mp = 153 * (m + (if m > 2 then -3 else 9)) + 2"
  have mp: "0 \<le> mp" "mp \<le> 1685" using assms by (auto simp: mp_def)
  then have md: "0 \<le> mp div 5" "mp div 5 \<le> 337" by linarith+
  have q: "0 \<le> yoe div 4" "yoe div 4 \<le> 100" "0 \<le> yoe div 100" "yoe div 100 \<le> 4"
    using yoe by linarith+
  have 1: "i32 (y - (if m \<le> 2 then 1 else 0)) = y'" using assms(5) by (auto simp: i32_id y'_def)
  have 2: "i32 ((if y' \<ge> 0 then y' else i32 (y' - 399)) sdiv 400) = era"
    using y' era era_floor [of y'] by (cases "y' \<ge> 0") (simp_all add: i32_id flip: era_def)
  have 3: "i32 (y' - i32 (era * 400)) = yoe"
    using era yoe by (simp add: i32_id yoe_eq)
  have 4: "i32 (i32 (i32 (i32 (153 * i32 (m + (if m > 2 then -3 else 9))) + 2) sdiv 5 + d) - 1)
      = mp div 5 + d - 1"
  proof -
    have "i32 (153 * i32 (m + (if m > 2 then -3 else 9))) = mp - 2"
      using assms by (auto simp: mp_def i32_id)
    with mp md assms show ?thesis by (simp add: i32_id sdiv_nonneg)
  qed
  have 5: "i32 (i32 (i32 (i32 (yoe * 365) + yoe sdiv 4) - yoe sdiv 100) + (mp div 5 + d - 1))
      = yoe * 365 + yoe div 4 - yoe div 100 + (mp div 5 + d - 1)"
    using yoe q md assms by (simp add: i32_id sdiv_nonneg)
  have 6: "i32 (i32 (i32 (era * 146097) + (yoe * 365 + yoe div 4 - yoe div 100 + (mp div 5 + d - 1))) - 719468)
      = era * 146097 + (yoe * 365 + yoe div 4 - yoe div 100) + (mp div 5 + d - 1) - 719468"
    using era yoe q md assms by (simp add: i32_id)
  show ?thesis
    using assms(1-4) year_days_era [of y']
    unfolding days_from_civil_def Let_def 1 2 3 4 5 6
    by (simp add: y'_def [symmetric] era_def [symmetric] yoe_def [symmetric] month_days_def mp_def)
qed

lemma div_pred:
  assumes "1 < (n :: int)"
  shows "(y - 1) div n = y div n - (if y mod n = 0 then 1 else 0)"
proof -
  define r where "r = y mod n"
  have r: "0 \<le> r" "r < n" "y = n * (y div n) + r"
    using assms by (simp_all add: r_def)
  show ?thesis
    unfolding r_def [symmetric]
  proof (rule int_div_pos_eq)
    show "y - 1 = n * (y div n - (if r = 0 then 1 else 0)) + (if r = 0 then n - 1 else r - 1)"
      using r(3) by (simp add: algebra_simps)
  qed (use assms r(1,2) in \<open>simp_all split: if_splits\<close>)
qed

lemma leap_sum:
  fixes a b c y :: int
  assumes "P100 \<longrightarrow> P4" "P400 \<longrightarrow> P100"
  shows "365 * (y - 1) + (a - (if P4 then 1 else 0)) - (b - (if P100 then 1 else 0))
       + (c - (if P400 then 1 else 0))
     = 365 * y + a - b + c - (if P4 \<and> (\<not> P100 \<or> P400) then 366 else 365)"
  using assms by (cases P4; cases P100; cases P400) simp_all

lemma year_days_pred: "year_days (y - 1) = year_days y - (if leap_year y then 366 else 365)"
proof -
  have dv: "y mod 100 = 0 \<longrightarrow> y mod 4 = 0" "y mod 400 = 0 \<longrightarrow> y mod 100 = 0"
    using dvd_trans [of 4 100 y] dvd_trans [of 100 400 y] by (simp_all add: mod_eq_0_iff_dvd)
  have "year_days (y - 1) = 365 * (y - 1) + (y div 4 - (if y mod 4 = 0 then 1 else 0))
      - (y div 100 - (if y mod 100 = 0 then 1 else 0)) + (y div 400 - (if y mod 400 = 0 then 1 else 0))"
    unfolding year_days_def by (subst (1 2 3) div_pred) simp_all
  also note leap_sum [OF dv, of y "y div 4" "y div 100" "y div 400"]
  finally show ?thesis by (simp only: leap_year_def year_days_def)
qed

lemma month_cases:
  "1 \<le> (m :: int) \<Longrightarrow> m \<le> 12 \<Longrightarrow> m \<in> {1, 2, 3, 4, 5, 6, 7, 8, 9, 10, 11, 12}"
  by (simp; presburger)

lemma days_from_civil_next:
  assumes "valid_date (y, m, d)" "\<bar>y\<bar> \<le> 5000000" "next_date (y, m, d) = (y', m', d')"
  shows "days_from_civil y' m' d' = map_option (\<lambda>n. n + 1) (days_from_civil y m d)"
proof -
  have m: "m \<in> {1, 2, 3, 4, 5, 6, 7, 8, 9, 10, 11, 12}" and d: "1 \<le> d" "d \<le> days_in_month y m"
    using assms(1) month_cases [of m] by (simp_all add: valid_date_def)
  show ?thesis
    using m d assms(2,3)
    by (elim insertE emptyE) (auto simp: next_date_def days_in_month_def days_from_civil_eq month_days_def
        year_days_pred split: if_splits)
qed

subsection \<open>Properties\<close>

text \<open>
  (C24) \<open>days_from_civil\<close> numbers the days of the Gregorian calendar: 1970-01-01 is day 0 and the
  day after any valid date has the next number, for all years up to five million either way,
  where the \<open>i32\<close> arithmetic cannot overflow.
\<close>

theorem days_from_civil_calendar:
  assumes "valid_date (y, m, d)" "\<bar>y\<bar> \<le> 5000000" "next_date (y, m, d) = (y', m', d')"
  shows "days_from_civil 1970 1 1 = Some 0 \<and>
    (\<exists>n. days_from_civil y m d = Some n \<and> days_from_civil y' m' d' = Some (n + 1))"
proof -
  have "days_in_month y m \<le> 31" by (simp add: days_in_month_def)
  then have "days_from_civil y m d
      = Some (year_days (if m \<le> 2 then y - 1 else y) + month_days m + d - 719469)"
    using assms(1,2) by (intro days_from_civil_eq) (auto simp: valid_date_def)
  with days_from_civil_next [OF assms] show ?thesis
    by (simp add: days_from_civil_eq year_days_def month_days_def)
qed

lemma days_from_civil_calendar_witness:
  "\<exists>n. days_from_civil 2024 2 29 = Some n \<and> days_from_civil 2024 3 1 = Some (n + 1)"
  using days_from_civil_calendar [of 2024 2 29 2024 3 1]
  by (simp add: valid_date_def next_date_def days_in_month_def leap_year_def)

text \<open>A fraction of one digit is read as that many milliseconds: half a second as five.\<close>

lemma half_second_is_five_millis:
  "saturating_duration_until ''2024-03-01T10:20:30Z'' ''2024-03-01T10:20:30.5Z'' = 5"
  by code_simp

text \<open>Beyond the range above the \<open>i32\<close> arithmetic wraps to days before the epoch.\<close>

lemma days_from_civil_wraps: "days_from_civil 2147483647 3 1 = Some (- 1627438697)"
  by code_simp

end
