(* ===== verification/Process.thy ===== *)
theory Process
  imports Timestamps
begin

text \<open>
  The process-instance reducer of \<open>src/process.rs\<close>: \<open>ProcessInstanceState\<close>, its constructor,
  \<open>apply\<close>, \<open>record_activity_terminal\<close> and \<open>snapshot\<close>. Timestamps are compared as the strings they
  are. The lemmas describe one application on each branch and what a whole history of events
  leaves: the identity of the instance never changes, stale events are ignored, the last update
  only moves forward, and a terminal status is never left.
\<close>

datatype ProcessStatus = PsUnknown | PsActive | PsCompleted | PsFailed | PsCancelled

datatype ActivityState = AsEntered | AsCompleted | AsEscalated | AsCancelled | AsGatewayTaken | AsFailed

record ProcessInstanceState =
  pi_tenant_id :: TenantId
  pi_environment_id :: EnvironmentId
  pi_pipeline_id :: PipelineId
  pi_process_definition_id :: ProcessDefinitionId
  pi_process_instance_id :: ProcessInstanceId
  pi_process_version :: "ProcessVersion option"
  pi_current_activity_id :: "ActivityId option"
  pi_status :: ProcessStatus
  pi_started_at :: "EventTimestamp option"
  pi_last_updated_at :: EventTimestamp
  pi_completed_at :: "EventTimestamp option"
  pi_correlation_id :: "CorrelationId option"
  pi_business_key :: "BusinessKey option"
  pi_token_id :: "TokenId option"
  pi_activities :: "(ActivityId, ActivityState) btree"
  pi_activity_entered_at :: "(ActivityId, EventTimestamp) btree"
  pi_activity_durations :: "(ActivityId, u64) btree"
  pi_metadata_refs :: "MetadataRef list"
  pi_retry_count :: u64
  pi_last_error :: "ErrorInfo option"

record ProcessInstanceSnapshot =
  snap_tenant_id :: TenantId
  snap_environment_id :: EnvironmentId
  snap_pipeline_id :: PipelineId
  snap_process_definition_id :: ProcessDefinitionId
  snap_process_instance_id :: ProcessInstanceId
  snap_process_version :: "ProcessVersion option"
  snap_current_activity_id :: "ActivityId option"
  snap_status :: ProcessStatus
  snap_started_at :: "EventTimestamp option"
  snap_last_updated_at :: EventTimestamp
  snap_completed_at :: "EventTimestamp option"
  snap_correlation_id :: "CorrelationId option"
  snap_business_key :: "BusinessKey option"
  snap_token_id :: "TokenId option"
  snap_activities :: "(ActivityId, ActivityState) btree"
  snap_activity_entered_at :: "(ActivityId, EventTimestamp) btree"
  snap_activity_durations :: "(ActivityId, u64) btree"
  snap_metadata_refs :: "MetadataRef list"
  snap_retry_count :: u64
  snap_last_error :: "ErrorInfo option"

definition ProcessInstanceState_new :: "PipelineEvent \<Rightarrow> ProcessInstanceState" where
  "ProcessInstanceState_new event =
     \<lparr>pi_tenant_id = pe_tenant_id event,
      pi_environment_id = pe_environment_id event,
      pi_pipeline_id = pe_pipeline_id event,
      pi_process_definition_id = pe_process_definition_id event,
      pi_process_instance_id = pe_process_instance_id event,
      pi_process_version = pe_process_version event,
      pi_current_activity_id = None,
      pi_status = PsUnknown,
      pi_started_at = None,
      pi_last_updated_at = pe_timestamp event,
      pi_completed_at = None,
      pi_correlation_id = pe_correlation_id event,
      pi_business_key = pe_business_key event,
      pi_token_id = pe_token_id event,
      pi_activities = bt_empty,
      pi_activity_entered_at = bt_empty,
      pi_activity_durations = bt_empty,
      pi_metadata_refs = pe_metadata_refs event,
      pi_retry_count = 0,
      pi_last_error = None\<rparr>"

definition record_activity_terminal ::
  "PipelineEvent \<Rightarrow> ActivityState \<Rightarrow> ProcessInstanceState \<Rightarrow> ProcessInstanceState" where
  "record_activity_terminal event state st =
     (case pe_activity_id event of
        None \<Rightarrow> st
      | Some activity_id \<Rightarrow>
          let st = st\<lparr>pi_activities := bt_insert activity_id state (pi_activities st)\<rparr> in
          (case bt_get (pi_activity_entered_at st) activity_id of
             None \<Rightarrow> st
           | Some entered_at \<Rightarrow>
               st\<lparr>pi_activity_durations :=
                    bt_insert activity_id (saturating_duration_until entered_at (pe_timestamp event))
                      (pi_activity_durations st)\<rparr>))"

fun is_terminal :: "ProcessStatus \<Rightarrow> bool" where
  "is_terminal PsCompleted = True"
| "is_terminal PsFailed = True"
| "is_terminal PsCancelled = True"
| "is_terminal PsUnknown = False"
| "is_terminal PsActive = False"

definition push_absent :: "MetadataRef \<Rightarrow> MetadataRef list \<Rightarrow> MetadataRef list" where
  "push_absent r refs = (if r \<in> set refs then refs else refs @ [r])"

text \<open>The fields every accepted event refreshes, before the match on its kind.\<close>

definition refresh_fields :: "PipelineEvent \<Rightarrow> ProcessInstanceState \<Rightarrow> ProcessInstanceState" where
  "refresh_fields event st =
     st\<lparr>pi_last_updated_at := pe_timestamp event,
        pi_process_version := or_else (pe_process_version event) (pi_process_version st),
        pi_correlation_id := or_else (pe_correlation_id event) (pi_correlation_id st),
        pi_business_key := or_else (pe_business_key event) (pi_business_key st),
        pi_token_id := or_else (pe_token_id event) (pi_token_id st),
        pi_current_activity_id := or_else (pe_activity_id event) (pi_current_activity_id st),
        pi_last_error := or_else (pe_error event) (pi_last_error st),
        pi_metadata_refs := fold push_absent (pe_metadata_refs event) (pi_metadata_refs st)\<rparr>"

definition set_status_unless :: "bool \<Rightarrow> ProcessStatus \<Rightarrow> ProcessInstanceState \<Rightarrow> ProcessInstanceState" where
  "set_status_unless was_terminal s st = (if \<not> was_terminal then st\<lparr>pi_status := s\<rparr> else st)"

definition apply_event :: "PipelineEvent \<Rightarrow> ProcessInstanceState \<Rightarrow> ProcessInstanceState" where
  "apply_event event self =
     (if pe_timestamp event < pi_last_updated_at self then self
      else
        let was_terminal = is_terminal (pi_status self);
            st = refresh_fields event self
        in case pe_kind event of
             ProcessStarted \<Rightarrow>
               let st = set_status_unless was_terminal PsActive st in
               if pi_started_at st = None then st\<lparr>pi_started_at := Some (pe_timestamp event)\<rparr> else st
           | ActivityEntered \<Rightarrow>
               let st = set_status_unless was_terminal PsActive st in
               (case pe_activity_id event of
                  None \<Rightarrow> st
                | Some activity_id \<Rightarrow>
                    st\<lparr>pi_activities := bt_insert activity_id AsEntered (pi_activities st),
                       pi_activity_entered_at :=
                         bt_insert activity_id (pe_timestamp event) (pi_activity_entered_at st)\<rparr>)
           | ActivityCompleted \<Rightarrow>
               record_activity_terminal event AsCompleted (set_status_unless was_terminal PsActive st)
           | ActivityEscalated \<Rightarrow>
               record_activity_terminal event AsEscalated (set_status_unless was_terminal PsActive st)
           | ActivityCancelled \<Rightarrow>
               record_activity_terminal event AsCancelled (set_status_unless was_terminal PsCancelled st)
           | GatewayTaken \<Rightarrow>
               record_activity_terminal event AsGatewayTaken (set_status_unless was_terminal PsActive st)
           | ProcessCompleted \<Rightarrow>
               record_activity_terminal event AsCompleted
                 (st\<lparr>pi_status := PsCompleted,
                     pi_completed_at := Some (pe_timestamp event),
                     pi_current_activity_id := Some ''completed''\<rparr>)
           | ProcessFailed \<Rightarrow>
               record_activity_terminal event AsFailed
                 (st\<lparr>pi_status := PsFailed, pi_retry_count := pi_retry_count st + 1\<rparr>)
           | UnknownKind _ \<Rightarrow> st)"

definition ProcessInstanceState_snapshot :: "ProcessInstanceState \<Rightarrow> ProcessInstanceSnapshot" where
  "ProcessInstanceState_snapshot st =
     \<lparr>snap_tenant_id = pi_tenant_id st,
      snap_environment_id = pi_environment_id st,
      snap_pipeline_id = pi_pipeline_id st,
      snap_process_definition_id = pi_process_definition_id st,
      snap_process_instance_id = pi_process_instance_id st,
      snap_process_version = pi_process_version st,
      snap_current_activity_id = pi_current_activity_id st,
      snap_status = pi_status st,
      snap_started_at = pi_started_at st,
      snap_last_updated_at = pi_last_updated_at st,
      snap_completed_at = pi_completed_at st,
      snap_correlation_id = pi_correlation_id st,
      snap_business_key = pi_business_key st,
      snap_token_id = pi_token_id st,
      snap_activities = pi_activities st,
      snap_activity_entered_at = pi_activity_entered_at st,
      snap_activity_durations = pi_activity_durations st,
      snap_metadata_refs = pi_metadata_refs st,
      snap_retry_count = pi_retry_count st,
      snap_last_error = pi_last_error st\<rparr>"

subsection \<open>One application\<close>

lemma record_terminal_fields [simp]:
  "pi_tenant_id (record_activity_terminal e s st) = pi_tenant_id st"
  "pi_environment_id (record_activity_terminal e s st) = pi_environment_id st"
  "pi_pipeline_id (record_activity_terminal e s st) = pi_pipeline_id st"
  "pi_process_definition_id (record_activity_terminal e s st) = pi_process_definition_id st"
  "pi_process_instance_id (record_activity_terminal e s st) = pi_process_instance_id st"
  "pi_process_version (record_activity_terminal e s st) = pi_process_version st"
  "pi_current_activity_id (record_activity_terminal e s st) = pi_current_activity_id st"
  "pi_status (record_activity_terminal e s st) = pi_status st"
  "pi_started_at (record_activity_terminal e s st) = pi_started_at st"
  "pi_last_updated_at (record_activity_terminal e s st) = pi_last_updated_at st"
  "pi_completed_at (record_activity_terminal e s st) = pi_completed_at st"
  "pi_activity_entered_at (record_activity_terminal e s st) = pi_activity_entered_at st"
  "pi_metadata_refs (record_activity_terminal e s st) = pi_metadata_refs st"
  "pi_retry_count (record_activity_terminal e s st) = pi_retry_count st"
  "pi_last_error (record_activity_terminal e s st) = pi_last_error st"
  by (simp_all add: record_activity_terminal_def Let_def split: option.split)

lemma set_status_unless_fields [simp]:
  "pi_status (set_status_unless b s st) = (if b then pi_status st else s)"
  "pi_last_updated_at (set_status_unless b s st) = pi_last_updated_at st"
  "pi_process_instance_id (set_status_unless b s st) = pi_process_instance_id st"
  "pi_tenant_id (set_status_unless b s st) = pi_tenant_id st"
  "pi_environment_id (set_status_unless b s st) = pi_environment_id st"
  "pi_pipeline_id (set_status_unless b s st) = pi_pipeline_id st"
  "pi_process_definition_id (set_status_unless b s st) = pi_process_definition_id st"
  "pi_started_at (set_status_unless b s st) = pi_started_at st"
  "pi_completed_at (set_status_unless b s st) = pi_completed_at st"
  "pi_metadata_refs (set_status_unless b s st) = pi_metadata_refs st"
  "pi_retry_count (set_status_unless b s st) = pi_retry_count st"
  "pi_activities (set_status_unless b s st) = pi_activities st"
  "pi_activity_entered_at (set_status_unless b s st) = pi_activity_entered_at st"
  "pi_activity_durations (set_status_unless b s st) = pi_activity_durations st"
  by (simp_all add: set_status_unless_def)

lemma apply_stale: "pe_timestamp e < pi_last_updated_at st \<Longrightarrow> apply_event e st = st"
  by (simp add: apply_event_def)

lemma apply_last_updated:
  "pi_last_updated_at (apply_event e st) = max (pi_last_updated_at st) (pe_timestamp e)"
  by (auto simp: apply_event_def refresh_fields_def Let_def max_def not_less
      split: EventKind.split option.split)

lemma apply_identity [simp]:
  "pi_tenant_id (apply_event e st) = pi_tenant_id st"
  "pi_environment_id (apply_event e st) = pi_environment_id st"
  "pi_pipeline_id (apply_event e st) = pi_pipeline_id st"
  "pi_process_definition_id (apply_event e st) = pi_process_definition_id st"
  "pi_process_instance_id (apply_event e st) = pi_process_instance_id st"
  by (simp_all add: apply_event_def refresh_fields_def Let_def split: EventKind.split option.split)

definition fresh :: "PipelineEvent \<Rightarrow> ProcessInstanceState \<Rightarrow> bool" where
  "fresh e st \<longleftrightarrow> \<not> pe_timestamp e < pi_last_updated_at st"

lemma apply_status:
  "pi_status (apply_event e st) =
     (if \<not> fresh e st then pi_status st
      else case pe_kind e of
        ProcessCompleted \<Rightarrow> PsCompleted
      | ProcessFailed \<Rightarrow> PsFailed
      | UnknownKind _ \<Rightarrow> pi_status st
      | ActivityCancelled \<Rightarrow> if is_terminal (pi_status st) then pi_status st else PsCancelled
      | _ \<Rightarrow> if is_terminal (pi_status st) then pi_status st else PsActive)"
  by (simp add: fresh_def apply_event_def refresh_fields_def Let_def split: EventKind.split option.split)

lemma apply_retry_count:
  "pi_retry_count (apply_event e st) =
     pi_retry_count st + (if fresh e st \<and> pe_kind e = ProcessFailed then 1 else 0)"
  by (simp add: fresh_def apply_event_def refresh_fields_def Let_def split: EventKind.split option.split)

lemma apply_started_at:
  "pi_started_at (apply_event e st) =
     (if fresh e st \<and> pe_kind e = ProcessStarted \<and> pi_started_at st = None
      then Some (pe_timestamp e) else pi_started_at st)"
  by (simp add: fresh_def apply_event_def refresh_fields_def Let_def split: EventKind.split option.split)

lemma apply_completed_at:
  "pi_completed_at (apply_event e st) =
     (if fresh e st \<and> pe_kind e = ProcessCompleted then Some (pe_timestamp e) else pi_completed_at st)"
  by (simp add: fresh_def apply_event_def refresh_fields_def Let_def split: EventKind.split option.split)

lemma apply_metadata_refs:
  "pi_metadata_refs (apply_event e st) =
     (if fresh e st then fold push_absent (pe_metadata_refs e) (pi_metadata_refs st) else pi_metadata_refs st)"
  by (simp add: fresh_def apply_event_def refresh_fields_def Let_def split: EventKind.split option.split)

lemma apply_terminal: "is_terminal (pi_status st) \<Longrightarrow> is_terminal (pi_status (apply_event e st))"
  by (simp add: apply_status split: EventKind.split)

lemma set_push_absent: "set (fold push_absent rs refs) = set refs \<union> set rs"
  by (induction rs arbitrary: refs) (auto simp: push_absent_def)

lemma distinct_push_absent: "distinct refs \<Longrightarrow> distinct (fold push_absent rs refs)"
  by (induction rs arbitrary: refs) (simp_all add: push_absent_def)

lemma apply_duration:
  assumes "fresh e st" "pe_activity_id e = Some a" "bt_get (pi_activity_entered_at st) a = Some t"
    and "pe_kind e \<in> {ActivityCompleted, ActivityEscalated, ActivityCancelled, GatewayTaken,
           ProcessCompleted, ProcessFailed}"
  shows "bt_get (pi_activity_durations (apply_event e st)) a
    = Some (saturating_duration_until t (pe_timestamp e))"
  using assms
  by (auto simp: fresh_def apply_event_def refresh_fields_def Let_def record_activity_terminal_def)

text \<open>Every measured activity was entered, and every entered one has a state.\<close>

definition process_wf :: "ProcessInstanceState \<Rightarrow> bool" where
  "process_wf st \<longleftrightarrow>
     set (bt_keys (pi_activity_durations st)) \<subseteq> set (bt_keys (pi_activity_entered_at st)) \<and>
     set (bt_keys (pi_activity_entered_at st)) \<subseteq> set (bt_keys (pi_activities st)) \<and>
     (pi_completed_at st \<noteq> None \<longrightarrow> is_terminal (pi_status st))"

lemma bt_keys_insert [simp]: "set (bt_keys (bt_insert k v m)) = insert k (set (bt_keys m))"
  by (auto simp: set_bt_keys bt_get_insert split: if_splits)

lemma process_wf_new: "process_wf (ProcessInstanceState_new e)"
  by (simp add: process_wf_def ProcessInstanceState_new_def bt_keys_def)

lemma process_wf_terminal:
  "process_wf st \<Longrightarrow> process_wf (record_activity_terminal e s st)"
  by (auto simp: process_wf_def record_activity_terminal_def Let_def set_bt_keys split: option.split)

lemma process_wf_apply:
  assumes "process_wf st"
  shows "process_wf (apply_event e st)"
proof -
  have refresh: "process_wf (refresh_fields e st)" "pi_status (refresh_fields e st) = pi_status st"
    using assms by (simp_all add: process_wf_def refresh_fields_def)
  then have "process_wf (set_status_unless (is_terminal (pi_status st)) s (refresh_fields e st))" for s
    by (auto simp: process_wf_def set_status_unless_def)
  with assms refresh show ?thesis
    by (auto simp: apply_event_def Let_def split: EventKind.split option.split
        intro!: process_wf_terminal) (auto simp: process_wf_def)
qed

subsection \<open>Histories\<close>

text \<open>\<open>HotIndex::ingest\<close> creates the state from the first event and applies that event to it.\<close>

definition reduce_events :: "PipelineEvent \<Rightarrow> PipelineEvent list \<Rightarrow> ProcessInstanceState" where
  "reduce_events e es = fold apply_event (e # es) (ProcessInstanceState_new e)"

text \<open>The events of a history that are not stale when they arrive.\<close>

fun fresh_events :: "EventTimestamp \<Rightarrow> PipelineEvent list \<Rightarrow> PipelineEvent list" where
  "fresh_events t [] = []"
| "fresh_events t (e # es) =
     (if pe_timestamp e < t then fresh_events t es else e # fresh_events (pe_timestamp e) es)"

lemma fresh_events_sorted:
  "sorted (t # map pe_timestamp (fresh_events t es))"
proof (induction es arbitrary: t)
  case (Cons e es)
  show ?case
    using Cons [of t] Cons [of "pe_timestamp e"] by (auto simp: not_less)
qed simp

lemma fold_apply_fresh:
  "fold apply_event es st = fold apply_event (fresh_events (pi_last_updated_at st) es) st"
proof (induction es arbitrary: st)
  case (Cons e es)
  show ?case
    using Cons.IH [of st] Cons.IH [of "apply_event e st"]
    by (auto simp: apply_stale apply_last_updated max_def not_less)
qed simp

text \<open>A measure of the state that each fresh event moves forward in the same way.\<close>

lemma fold_fresh_measure:
  assumes "\<And>e st. fresh e st \<Longrightarrow> f (apply_event e st) = g e (f st)"
    and "sorted (pi_last_updated_at st # map pe_timestamp es)"
  shows "f (fold apply_event es st) = fold g es (f st)"
  using assms(2)
proof (induction es arbitrary: st)
  case (Cons e es)
  then have "fresh e st" by (simp add: fresh_def not_less)
  moreover have "sorted (pi_last_updated_at (apply_event e st) # map pe_timestamp es)"
    using Cons.prems by (auto simp: apply_last_updated max_def)
  ultimately show ?case using Cons.IH by (simp add: assms(1))
qed simp

lemma reduce_measure:
  assumes "\<And>e st. fresh e st \<Longrightarrow> f (apply_event e st) = g e (f st)"
  shows "f (reduce_events e es) = fold g (e # fresh_events (pe_timestamp e) es) (f (ProcessInstanceState_new e))"
proof -
  let ?st = "ProcessInstanceState_new e" and ?es = "fresh_events (pe_timestamp e) (e # es)"
  have t: "pi_last_updated_at ?st = pe_timestamp e" by (simp add: ProcessInstanceState_new_def)
  have "f (fold apply_event ?es ?st) = fold g ?es (f ?st)"
    by (intro fold_fresh_measure assms) (use fresh_events_sorted [of "pe_timestamp e" "e # es"] t in auto)
  moreover have "reduce_events e es = fold apply_event ?es ?st"
    unfolding reduce_events_def using fold_apply_fresh [of "e # es" ?st] unfolding t .
  ultimately show ?thesis by simp
qed

lemma fold_count: "fold (\<lambda>e n. n + (if P e then 1 else 0)) es (n :: 'a::len word) = n + of_nat (length (filter P es))"
  by (induction es arbitrary: n) (simp_all add: ac_simps)

lemma fold_union: "fold (\<lambda>e A. A \<union> f e) es A = A \<union> (\<Union>e \<in> set es. f e)"
  by (induction es arbitrary: A) auto

lemma fold_last: "fold (\<lambda>e x. if P e then Some (f e) else x) es x
    = (case filter P (rev es) of [] \<Rightarrow> x | e # _ \<Rightarrow> Some (f e))"
  by (induction es arbitrary: x) (auto split: list.split simp: append_eq_Cons_conv)

lemma fold_first: "fold (\<lambda>e x. if P e \<and> x = None then Some (f e) else x) es x
    = (case x of Some v \<Rightarrow> Some v | None \<Rightarrow> (case filter P es of [] \<Rightarrow> None | e # _ \<Rightarrow> Some (f e)))"
  by (induction es arbitrary: x) (auto split: list.split option.split)

subsection \<open>Properties\<close>

text \<open>
  (C25) What a history of events leaves in a process instance. With the fresh events (those not
  older than the last update when they arrive): the retry count is the number of fresh failures,
  the start is that of the first fresh start event, the completion that of the last fresh
  completion, and the metadata references are exactly those of the fresh events, without
  duplicates if the first event has none.
\<close>

theorem reduce_events_history:
  fixes e es
  defines "h \<equiv> e # fresh_events (pe_timestamp e) es" and "st \<equiv> reduce_events e es"
  shows "pi_retry_count st = of_nat (length (filter (\<lambda>x. pe_kind x = ProcessFailed) h)) \<and>
    pi_started_at st = (case filter (\<lambda>x. pe_kind x = ProcessStarted) h of
      [] \<Rightarrow> None | x # _ \<Rightarrow> Some (pe_timestamp x)) \<and>
    pi_completed_at st = (case filter (\<lambda>x. pe_kind x = ProcessCompleted) (rev h) of
      [] \<Rightarrow> None | x # _ \<Rightarrow> Some (pe_timestamp x)) \<and>
    set (pi_metadata_refs st) = (\<Union>x \<in> set h. set (pe_metadata_refs x)) \<and>
    sorted (map pe_timestamp h) \<and> process_wf st"
proof (intro conjI)
  note m = reduce_measure [of _ _ e es, folded h_def st_def]
  have new: "pi_retry_count (ProcessInstanceState_new e) = 0"
    "pi_started_at (ProcessInstanceState_new e) = None"
    "pi_completed_at (ProcessInstanceState_new e) = None"
    "pi_metadata_refs (ProcessInstanceState_new e) = pe_metadata_refs e"
    by (simp_all add: ProcessInstanceState_new_def)
  show "pi_retry_count st = of_nat (length (filter (\<lambda>x. pe_kind x = ProcessFailed) h))"
    by (subst m [of pi_retry_count "\<lambda>e n. n + (if pe_kind e = ProcessFailed then 1 else 0)"])
      (simp_all only: apply_retry_count new fold_count, simp_all)
  show "pi_started_at st = (case filter (\<lambda>x. pe_kind x = ProcessStarted) h of
      [] \<Rightarrow> None | x # _ \<Rightarrow> Some (pe_timestamp x))"
    by (subst m [of pi_started_at
          "\<lambda>e x. if pe_kind e = ProcessStarted \<and> x = None then Some (pe_timestamp e) else x"])
      (simp_all only: apply_started_at new fold_first, simp_all)
  show "pi_completed_at st = (case filter (\<lambda>x. pe_kind x = ProcessCompleted) (rev h) of
      [] \<Rightarrow> None | x # _ \<Rightarrow> Some (pe_timestamp x))"
    by (subst m [of pi_completed_at
          "\<lambda>e x. if pe_kind e = ProcessCompleted then Some (pe_timestamp e) else x"])
      (simp_all only: apply_completed_at new fold_last, simp_all)
  show "set (pi_metadata_refs st) = (\<Union>x \<in> set h. set (pe_metadata_refs x))"
    by (subst m [of "\<lambda>st. set (pi_metadata_refs st)" "\<lambda>e A. A \<union> set (pe_metadata_refs e)"])
      (simp_all only: apply_metadata_refs new fold_union, auto simp: h_def set_push_absent)
  show "sorted (map pe_timestamp h)"
    using fresh_events_sorted by (simp add: h_def)
  have "process_wf (fold apply_event xs s)" if "process_wf s" for xs s
    using that by (induction xs arbitrary: s) (simp_all add: process_wf_apply)
  then show "process_wf st" by (simp add: st_def reduce_events_def process_wf_new process_wf_apply)
qed

text \<open>
  A process instance never leaves a terminal status, and its identity and last update only
  depend on the events as stated: whatever events follow, a completed, failed or cancelled
  instance stays in one of these statuses, keeps its identifiers, and its last update is the
  latest timestamp seen.
\<close>

lemma terminal_status_stays:
  assumes "is_terminal (pi_status st)"
  shows "is_terminal (pi_status (fold apply_event es st)) \<and>
    pi_process_instance_id (fold apply_event es st) = pi_process_instance_id st \<and>
    pi_pipeline_id (fold apply_event es st) = pi_pipeline_id st \<and>
    pi_last_updated_at (fold apply_event es st) = fold max (map pe_timestamp es) (pi_last_updated_at st)"
  using assms
  by (induction es arbitrary: st) (simp_all add: apply_terminal apply_last_updated max.commute)

definition sample_event :: "string \<Rightarrow> EventTimestamp \<Rightarrow> EventKind \<Rightarrow> PipelineEvent" where
  "sample_event i t k = PipelineEvent_new i ''src'' 1 ''tenant'' ''prod'' ''pipe'' ''def'' ''inst'' t k"

lemma terminal_status_stays_witness:
  "is_terminal (pi_status (fold apply_event [sample_event ''e2'' ''2024-01-01T00:00:02Z'' ActivityEntered]
     (reduce_events (sample_event ''e1'' ''2024-01-01T00:00:01Z'' ProcessFailed) [])))"
proof -
  have "is_terminal (pi_status (reduce_events (sample_event ''e1'' ''2024-01-01T00:00:01Z'' ProcessFailed) []))"
    by (simp add: reduce_events_def sample_event_def event_builder_defs apply_status fresh_def
        ProcessInstanceState_new_def)
  from terminal_status_stays [OF this] show ?thesis by blast
qed

text \<open>
  Timestamps are ordered as strings: an event half a second after the last update is dropped as
  stale when the last update had no fraction, since the full stop sorts before \<open>Z\<close>.
\<close>

lemma later_fraction_dropped:
  "apply_event (sample_event ''e2'' ''2024-01-01T00:00:00.500Z'' ProcessCompleted)
     (reduce_events (sample_event ''e1'' ''2024-01-01T00:00:00Z'' ProcessStarted) [])
   = reduce_events (sample_event ''e1'' ''2024-01-01T00:00:00Z'' ProcessStarted) []
   \<and> saturating_duration_until ''2024-01-01T00:00:00Z'' ''2024-01-01T00:00:00.500Z'' = 500"
proof
  have "''2024-01-01T00:00:00.500Z'' < ''2024-01-01T00:00:00Z''" by code_simp
  then show "apply_event (sample_event ''e2'' ''2024-01-01T00:00:00.500Z'' ProcessCompleted)
     (reduce_events (sample_event ''e1'' ''2024-01-01T00:00:00Z'' ProcessStarted) [])
   = reduce_events (sample_event ''e1'' ''2024-01-01T00:00:00Z'' ProcessStarted) []"
    by (intro apply_stale) (simp add: reduce_events_def apply_last_updated sample_event_def
        event_builder_defs ProcessInstanceState_new_def)
qed code_simp

end
