(* ===== verification/Data_Event.thy ===== *)
theory Data_Event
  imports Events
begin

text \<open>
  The provenance events of \<open>src/data.rs\<close>: metadata values, passive and active metadata, the
  operations, \<open>DataIndividualMetadataEvent\<close> with its constructor, builders and validation, and the
  derivation of a shard from the identity of a data individual.
\<close>

type_synonym DataIndividualId = string
type_synonym MetadataEventId = string
type_synonym PayloadRef = string
type_synonym PluginName = string
type_synonym PluginVersion = string
type_synonym IdempotencyKey = string
type_synonym DataIndividualShardId = u64
type_synonym MetadataFieldName = string

definition from_data_individual :: "DataIndividualId \<Rightarrow> DataIndividualShardId" where
  "from_data_individual i = foldl fnv_step 0xcbf29ce484222325 (as_bytes i)"

datatype MetadataValue =
  MvString string
| MvInteger i64
| MvBoolean bool
| MvTimestamp EventTimestamp
| MvStringList "string list"

type_synonym metadata_fields = "(MetadataFieldName, MetadataValue) btree"

record PassiveMetadata =
  pm_fields :: metadata_fields

record ActiveMetadata =
  am_fields :: metadata_fields

definition PassiveMetadata_new :: PassiveMetadata where
  "PassiveMetadata_new = \<lparr>pm_fields = bt_empty\<rparr>"

definition PassiveMetadata_insert :: "MetadataFieldName \<Rightarrow> MetadataValue \<Rightarrow> PassiveMetadata \<Rightarrow> PassiveMetadata" where
  "PassiveMetadata_insert name val m = m\<lparr>pm_fields := bt_insert name val (pm_fields m)\<rparr>"

definition ActiveMetadata_new :: ActiveMetadata where
  "ActiveMetadata_new = \<lparr>am_fields = bt_empty\<rparr>"

definition ActiveMetadata_insert :: "MetadataFieldName \<Rightarrow> MetadataValue \<Rightarrow> ActiveMetadata \<Rightarrow> ActiveMetadata" where
  "ActiveMetadata_insert name val m = m\<lparr>am_fields := bt_insert name val (am_fields m)\<rparr>"

datatype MetadataOperation =
  MoCreated
| MoReceived
| MoTransformed "PluginName option" "PluginVersion option"
| MoMasked "string list"
| MoValidated bool
| MoEnriched "string option"
| MoRouted
| MoPersisted

record DataIndividualMetadataEvent =
  dm_metadata_event_id :: MetadataEventId
  dm_data_individual_id :: DataIndividualId
  dm_data_individual_shard_id :: DataIndividualShardId
  dm_tenant_id :: TenantId
  dm_environment_id :: EnvironmentId
  dm_pipeline_id :: PipelineId
  dm_process_instance_id :: ProcessInstanceId
  dm_activity_id :: "ActivityId option"
  dm_timestamp :: EventTimestamp
  dm_operation :: MetadataOperation
  dm_passive_metadata :: PassiveMetadata
  dm_active_metadata :: ActiveMetadata
  dm_source_payload_ref :: "PayloadRef option"
  dm_idempotency_key :: IdempotencyKey

definition idempotency_key_of :: "DataIndividualId \<Rightarrow> MetadataEventId \<Rightarrow> IdempotencyKey" where
  "idempotency_key_of data_individual_id metadata_event_id = data_individual_id @ '':'' @ metadata_event_id"

definition DataIndividualMetadataEvent_new ::
  "MetadataEventId \<Rightarrow> DataIndividualId \<Rightarrow> DataIndividualShardId \<Rightarrow> TenantId \<Rightarrow> EnvironmentId \<Rightarrow>
   PipelineId \<Rightarrow> ProcessInstanceId \<Rightarrow> EventTimestamp \<Rightarrow> MetadataOperation \<Rightarrow> DataIndividualMetadataEvent" where
  "DataIndividualMetadataEvent_new metadata_event_id data_individual_id data_individual_shard_id
     tenant_id environment_id pipeline_id process_instance_id timestamp operation =
     \<lparr>dm_metadata_event_id = metadata_event_id,
      dm_data_individual_id = data_individual_id,
      dm_data_individual_shard_id = data_individual_shard_id,
      dm_tenant_id = tenant_id,
      dm_environment_id = environment_id,
      dm_pipeline_id = pipeline_id,
      dm_process_instance_id = process_instance_id,
      dm_activity_id = None,
      dm_timestamp = timestamp,
      dm_operation = operation,
      dm_passive_metadata = PassiveMetadata_new,
      dm_active_metadata = ActiveMetadata_new,
      dm_source_payload_ref = None,
      dm_idempotency_key = idempotency_key_of data_individual_id metadata_event_id\<rparr>"

definition dm_with_activity_id :: "ActivityId \<Rightarrow> DataIndividualMetadataEvent \<Rightarrow> DataIndividualMetadataEvent" where
  "dm_with_activity_id a e = e\<lparr>dm_activity_id := Some a\<rparr>"

definition with_passive_metadata ::
  "PassiveMetadata \<Rightarrow> DataIndividualMetadataEvent \<Rightarrow> DataIndividualMetadataEvent" where
  "with_passive_metadata m e = e\<lparr>dm_passive_metadata := m\<rparr>"

definition with_active_metadata ::
  "ActiveMetadata \<Rightarrow> DataIndividualMetadataEvent \<Rightarrow> DataIndividualMetadataEvent" where
  "with_active_metadata m e = e\<lparr>dm_active_metadata := m\<rparr>"

definition with_source_payload_ref ::
  "PayloadRef \<Rightarrow> DataIndividualMetadataEvent \<Rightarrow> DataIndividualMetadataEvent" where
  "with_source_payload_ref r e = e\<lparr>dm_source_payload_ref := Some r\<rparr>"

lemmas metadata_event_builder_defs = DataIndividualMetadataEvent_new_def dm_with_activity_id_def
  with_passive_metadata_def with_active_metadata_def with_source_payload_ref_def

subsection \<open>Validation\<close>

text \<open>
  \<open>str::trim\<close> removes characters with the Unicode property \<open>White_Space\<close>, so a trimmed string is
  empty when it consists of their UTF-8 encodings.
\<close>

fun all_whitespace :: "bytes \<Rightarrow> bool" where
  "all_whitespace [] = True"
| "all_whitespace (b0 # bs) =
     (if (0x09 \<le> b0 \<and> b0 \<le> 0x0D) \<or> b0 = 0x20 then all_whitespace bs
      else case bs of
        [] \<Rightarrow> False
      | b1 # bs1 \<Rightarrow>
          if b0 = 0xC2 then (b1 = 0x85 \<or> b1 = 0xA0) \<and> all_whitespace bs1
          else (case bs1 of
            [] \<Rightarrow> False
          | b2 # bs2 \<Rightarrow>
              ((b0 = 0xE1 \<and> b1 = 0x9A \<and> b2 = 0x80) \<or>
               (b0 = 0xE2 \<and> b1 = 0x80 \<and> (0x80 \<le> b2 \<and> b2 \<le> 0x8A \<or> b2 = 0xA8 \<or> b2 = 0xA9 \<or> b2 = 0xAF)) \<or>
               (b0 = 0xE2 \<and> b1 = 0x81 \<and> b2 = 0x9F) \<or>
               (b0 = 0xE3 \<and> b1 = 0x80 \<and> b2 = 0x80)) \<and> all_whitespace bs2))"

definition trim_is_empty :: "string \<Rightarrow> bool" where
  "trim_is_empty s \<longleftrightarrow> all_whitespace (as_bytes s)"

fun validate_fields :: "(string \<times> string) list \<Rightarrow> IngestError + unit" where
  "validate_fields [] = Ok ()"
| "validate_fields ((field, val) # fs) =
     (if trim_is_empty val then Err (EmptyField field) else validate_fields fs)"

definition DataIndividualMetadataEvent_validate :: "DataIndividualMetadataEvent \<Rightarrow> IngestError + unit" where
  "DataIndividualMetadataEvent_validate e =
     validate_fields
       [(''metadata_event_id'', dm_metadata_event_id e),
        (''data_individual_id'', dm_data_individual_id e),
        (''tenant_id'', dm_tenant_id e),
        (''environment_id'', dm_environment_id e),
        (''pipeline_id'', dm_pipeline_id e),
        (''process_instance_id'', dm_process_instance_id e),
        (''timestamp'', dm_timestamp e)]"

lemma validate_fields_ok: "validate_fields fs = Inr () \<longleftrightarrow> (\<forall>(f, v) \<in> set fs. \<not> trim_is_empty v)"
  by (induction fs rule: validate_fields.induct) auto

text \<open>The key joins the two identities with a colon, which either of them may contain.\<close>

lemma idempotency_key_collision:
  "idempotency_key_of ''a'' ''b:c'' = idempotency_key_of ''a:b'' ''c''"
  by (simp add: idempotency_key_of_def)

lemma idempotency_key_inject:
  assumes "CHR '':'' \<notin> set d" "CHR '':'' \<notin> set d'"
  shows "idempotency_key_of d m = idempotency_key_of d' m' \<longleftrightarrow> d = d' \<and> m = m'"
proof
  assume eq: "idempotency_key_of d m = idempotency_key_of d' m'"
  have "takeWhile (\<lambda>c. c \<noteq> CHR '':'') (idempotency_key_of d m) = d"
    "takeWhile (\<lambda>c. c \<noteq> CHR '':'') (idempotency_key_of d' m') = d'"
    using assms by (simp_all add: idempotency_key_of_def takeWhile_append)
  with eq show "d = d' \<and> m = m'" by (simp add: idempotency_key_of_def)
qed simp

end
