(* ===== verification/Query.thy ===== *)
theory Query
  imports Process Data_Event
begin

text \<open>The query and result types of \<open>src/query.rs\<close>, and \<open>HotIndexSnapshot\<close> of \<open>src/observability.rs\<close>.\<close>

type_synonym QueryLimit = nat

definition QueryLimit_new :: "nat \<Rightarrow> QueryLimit" where
  "QueryLimit_new limit = max limit 1"

definition QueryLimit_DEFAULT :: QueryLimit where
  "QueryLimit_DEFAULT = 100"

definition QueryLimit_reached :: "QueryLimit \<Rightarrow> nat \<Rightarrow> bool" where
  "QueryLimit_reached limit count \<longleftrightarrow> count \<ge> limit"

record ProcessInstanceQuery =
  iq_process_instance_id :: ProcessInstanceId

record PipelineQuery =
  plq_pipeline_id :: PipelineId
  plq_limit :: QueryLimit

record EventQuery =
  eq_process_instance_id :: ProcessInstanceId
  eq_limit :: QueryLimit

record ImpactQuery =
  imq_metadata_ref :: MetadataRef
  imq_limit :: QueryLimit

record ProcessStatusQuery =
  sq_status :: ProcessStatus
  sq_limit :: QueryLimit

record TimeRangeQuery =
  tq_start :: "EventTimestamp option"
  tq_end :: "EventTimestamp option"
  tq_limit :: QueryLimit

definition TimeRangeQuery_contains :: "TimeRangeQuery \<Rightarrow> EventTimestamp \<Rightarrow> bool" where
  "TimeRangeQuery_contains q timestamp \<longleftrightarrow>
     (case tq_start q of None \<Rightarrow> True | Some start \<Rightarrow> timestamp \<ge> start) \<and>
     (case tq_end q of None \<Rightarrow> True | Some end' \<Rightarrow> timestamp \<le> end')"

record DataIndividualMetadataQuery =
  dq_data_individual_id :: DataIndividualId
  dq_limit :: QueryLimit

record ProcessMetadataQuery =
  pmq_process_instance_id :: ProcessInstanceId
  pmq_limit :: QueryLimit

record ActivityMetadataQuery =
  amq_process_instance_id :: ProcessInstanceId
  amq_activity_id :: ActivityId
  amq_limit :: QueryLimit

datatype QueryResult =
  QProcessInstances "ProcessInstanceSnapshot list"
| QEvents "PipelineEvent list"
| QMetadataEvents "DataIndividualMetadataEvent list"

record HotIndexSnapshot =
  his_process_instance_count :: nat
  his_event_count :: nat
  his_pipeline_count :: nat
  his_metadata_ref_count :: nat
  his_duplicate_events :: u64
  his_rejected_events :: u64

text \<open>
  A collecting loop with a limit: \<open>for x in xs { if p(x) { out.push(f(x)) } if limit.reached(out.len())
  { break } }\<close>. With a limit of at least one it returns the first matches up to the limit.
\<close>

fun collect_limited :: "QueryLimit \<Rightarrow> ('a \<Rightarrow> bool) \<Rightarrow> ('a \<Rightarrow> 'b) \<Rightarrow> 'a list \<Rightarrow> 'b list \<Rightarrow> 'b list" where
  "collect_limited limit p f [] out = out"
| "collect_limited limit p f (x # xs) out =
     (let out = (if p x then out @ [f x] else out) in
      if QueryLimit_reached limit (length out) then out else collect_limited limit p f xs out)"

lemma collect_limited_eq:
  "length out < limit \<Longrightarrow> collect_limited limit p f xs out = take limit (out @ map f (filter p xs))"
proof (induction xs arbitrary: out)
  case (Cons x xs)
  show ?case
  proof (cases "p x \<and> Suc (length out) = limit")
    case True
    then show ?thesis by (simp add: QueryLimit_reached_def Let_def flip: True [THEN conjunct2])
  next
    case False
    with Cons show ?thesis by (auto simp: QueryLimit_reached_def Let_def take_Cons')
  qed
qed simp

text \<open>Nested collection that stops inside the inner loop, as the time-range query does.\<close>

fun push_limited :: "QueryLimit \<Rightarrow> 'a list \<Rightarrow> 'a list \<Rightarrow> 'a list \<times> bool" where
  "push_limited limit [] out = (out, False)"
| "push_limited limit (x # xs) out =
     (let out = out @ [x] in
      if QueryLimit_reached limit (length out) then (out, True) else push_limited limit xs out)"

fun push_groups :: "QueryLimit \<Rightarrow> 'a list list \<Rightarrow> 'a list \<Rightarrow> 'a list" where
  "push_groups limit [] out = out"
| "push_groups limit (g # gs) out =
     (case push_limited limit g out of
        (out, True) \<Rightarrow> out
      | (out, False) \<Rightarrow> push_groups limit gs out)"

lemma push_limited_eq:
  "length out < limit \<Longrightarrow>
     push_limited limit xs out = (take limit (out @ xs), limit \<le> length (out @ xs))"
proof (induction xs arbitrary: out)
  case (Cons x xs)
  then show ?case
    by (cases "Suc (length out) = limit") (auto simp: QueryLimit_reached_def Let_def take_Cons')
qed simp

lemma push_groups_eq:
  "length out < limit \<Longrightarrow> push_groups limit gs out = take limit (out @ concat gs)"
proof (induction gs arbitrary: out)
  case (Cons g gs)
  then show ?case
    by (cases "limit \<le> length (out @ g)") (simp_all add: push_limited_eq)
qed simp

end
