(* ===== verification/Hot_Index.thy ===== *)
theory Hot_Index
  imports Query "HOL-Library.Multiset"
begin

text \<open>
  The single-node hot index of \<open>src/index.rs\<close>. Its abstract specification is the log of accepted
  events: \<open>index_of ix es\<close> relates an index to the list \<open>es\<close> of events it accepted, and the lemmas
  show that ingestion refines appending a valid event with a new id to that log, and that every
  query answers what the log says.
\<close>

datatype IngestOutcome = IoAccepted | IoDuplicate

record HotIndex =
  hi_process_instances :: "(ProcessInstanceId, ProcessInstanceState) btree"
  hi_events_by_id :: "(EventId, PipelineEvent) btree"
  hi_events_by_process :: "(ProcessInstanceId, EventId list) btree"
  hi_events_by_pipeline :: "(PipelineId, EventId list) btree"
  hi_events_by_metadata_ref :: "(MetadataRef, EventId list) btree"
  hi_events_by_time :: "(EventTimestamp, EventId list) btree"
  hi_duplicate_events :: u64
  hi_rejected_events :: u64

definition HotIndex_new :: HotIndex where
  "HotIndex_new =
     \<lparr>hi_process_instances = bt_empty, hi_events_by_id = bt_empty, hi_events_by_process = bt_empty,
      hi_events_by_pipeline = bt_empty, hi_events_by_metadata_ref = bt_empty,
      hi_events_by_time = bt_empty, hi_duplicate_events = 0, hi_rejected_events = 0\<rparr>"

definition or_insert_state :: "PipelineEvent \<Rightarrow> ProcessInstanceState option \<Rightarrow> ProcessInstanceState" where
  "or_insert_state event st = (case st of None \<Rightarrow> ProcessInstanceState_new event | Some s \<Rightarrow> s)"

definition HotIndex_ingest :: "PipelineEvent \<Rightarrow> HotIndex \<Rightarrow> HotIndex \<times> (IngestError + IngestOutcome)" where
  "HotIndex_ingest event ix =
     (case PipelineEvent_validate event of
        Inl e \<Rightarrow> (ix\<lparr>hi_rejected_events := hi_rejected_events ix + 1\<rparr>, Err e)
      | Inr _ \<Rightarrow>
          if bt_contains_key (hi_events_by_id ix) (pe_event_id event) then
            (ix\<lparr>hi_duplicate_events := hi_duplicate_events ix + 1\<rparr>, Ok IoDuplicate)
          else
            (let event_id = pe_event_id event;
                 process_id = pe_process_instance_id event;
                 state = or_insert_state event (bt_get (hi_process_instances ix) process_id)
             in
              (ix\<lparr>hi_process_instances := bt_insert process_id (apply_event event state) (hi_process_instances ix),
                  hi_events_by_process := bt_push process_id event_id (hi_events_by_process ix),
                  hi_events_by_pipeline := bt_push (pe_pipeline_id event) event_id (hi_events_by_pipeline ix),
                  hi_events_by_time := bt_push (pe_timestamp event) event_id (hi_events_by_time ix),
                  hi_events_by_metadata_ref :=
                    fold (\<lambda>r. bt_push r event_id) (pe_metadata_refs event) (hi_events_by_metadata_ref ix),
                  hi_events_by_id := bt_insert event_id event (hi_events_by_id ix)\<rparr>,
               Ok IoAccepted)))"

definition events_for_ids :: "HotIndex \<Rightarrow> EventId list \<Rightarrow> PipelineEvent list" where
  "events_for_ids ix event_ids = List.map_filter (bt_get (hi_events_by_id ix)) event_ids"

definition process_instance :: "HotIndex \<Rightarrow> ProcessInstanceQuery \<Rightarrow> ProcessInstanceSnapshot option" where
  "process_instance ix q =
     map_option ProcessInstanceState_snapshot (bt_get (hi_process_instances ix) (iq_process_instance_id q))"

definition pipeline_instances :: "HotIndex \<Rightarrow> PipelineQuery \<Rightarrow> QueryResult" where
  "pipeline_instances ix q =
     QProcessInstances (collect_limited (plq_limit q) (\<lambda>s. snap_pipeline_id s = plq_pipeline_id q) id
       (map ProcessInstanceState_snapshot (bt_values (hi_process_instances ix))) [])"

definition events_query :: "HotIndex \<Rightarrow> EventQuery \<Rightarrow> QueryResult" where
  "events_query ix q =
     QEvents (events_for_ids ix
       (take (eq_limit q) (bt_list (hi_events_by_process ix) (eq_process_instance_id q))))"

definition impact :: "HotIndex \<Rightarrow> ImpactQuery \<Rightarrow> QueryResult" where
  "impact ix q =
     QEvents (events_for_ids ix
       (take (imq_limit q) (bt_list (hi_events_by_metadata_ref ix) (imq_metadata_ref q))))"

definition process_instances_by_status :: "HotIndex \<Rightarrow> ProcessStatusQuery \<Rightarrow> QueryResult" where
  "process_instances_by_status ix q =
     QProcessInstances (collect_limited (sq_limit q) (\<lambda>s. snap_status s = sq_status q) id
       (map ProcessInstanceState_snapshot (bt_values (hi_process_instances ix))) [])"

definition events_in_time_range :: "HotIndex \<Rightarrow> TimeRangeQuery \<Rightarrow> QueryResult" where
  "events_in_time_range ix q =
     QEvents (events_for_ids ix
       (push_groups (tq_limit q)
         (map snd (filter (\<lambda>(timestamp, ids). TimeRangeQuery_contains q timestamp)
            (bt_iter (hi_events_by_time ix)))) []))"

definition affected_pipelines :: "HotIndex \<Rightarrow> MetadataRef \<Rightarrow> PipelineId list" where
  "affected_pipelines ix r =
     sorted_list_of_set (set (map pe_pipeline_id
       (events_for_ids ix (bt_list (hi_events_by_metadata_ref ix) r))))"

definition HotIndex_snapshot :: "HotIndex \<Rightarrow> HotIndexSnapshot" where
  "HotIndex_snapshot ix =
     \<lparr>his_process_instance_count = bt_len (hi_process_instances ix),
      his_event_count = bt_len (hi_events_by_id ix),
      his_pipeline_count = bt_len (hi_events_by_pipeline ix),
      his_metadata_ref_count = bt_len (hi_events_by_metadata_ref ix),
      his_duplicate_events = hi_duplicate_events ix,
      his_rejected_events = hi_rejected_events ix\<rparr>"

definition contains_event :: "HotIndex \<Rightarrow> EventId \<Rightarrow> bool" where
  "contains_event ix i = bt_contains_key (hi_events_by_id ix) i"

subsection \<open>The log of accepted events\<close>

definition lookup_event :: "PipelineEvent list \<Rightarrow> EventId \<Rightarrow> PipelineEvent option" where
  "lookup_event es i = map_of (map (\<lambda>e. (pe_event_id e, e)) es) i"

definition instance_of :: "PipelineEvent list \<Rightarrow> ProcessInstanceId \<Rightarrow> ProcessInstanceState option" where
  "instance_of es p =
     (case filter (\<lambda>e. pe_process_instance_id e = p) es of
        [] \<Rightarrow> None
      | e # rest \<Rightarrow> Some (reduce_events e rest))"

definition ref_events :: "PipelineEvent list \<Rightarrow> MetadataRef \<Rightarrow> PipelineEvent list" where
  "ref_events es r = concat (map (\<lambda>e. map (\<lambda>_. e) (filter (\<lambda>r'. r' = r) (pe_metadata_refs e))) es)"

definition index_of :: "HotIndex \<Rightarrow> PipelineEvent list \<Rightarrow> bool" where
  "index_of ix es \<longleftrightarrow>
     distinct (map pe_event_id es) \<and> list_all event_valid es \<and>
     bt_get (hi_events_by_id ix) = lookup_event es \<and>
     bt_get (hi_process_instances ix) = instance_of es \<and>
     bt_list (hi_events_by_process ix) = (\<lambda>p. map pe_event_id (filter (\<lambda>e. pe_process_instance_id e = p) es)) \<and>
     bt_list (hi_events_by_pipeline ix) = (\<lambda>p. map pe_event_id (filter (\<lambda>e. pe_pipeline_id e = p) es)) \<and>
     bt_list (hi_events_by_time ix) = (\<lambda>t. map pe_event_id (filter (\<lambda>e. pe_timestamp e = t) es)) \<and>
     bt_list (hi_events_by_metadata_ref ix) = (\<lambda>r. map pe_event_id (ref_events es r)) \<and>
     (\<forall>t ids. bt_get (hi_events_by_time ix) t = Some ids \<longrightarrow> ids \<noteq> [])"

definition log_accept :: "PipelineEvent \<Rightarrow> PipelineEvent list \<Rightarrow> PipelineEvent list" where
  "log_accept e es = (if event_valid e \<and> pe_event_id e \<notin> pe_event_id ` set es then es @ [e] else es)"

lemma index_of_new: "index_of HotIndex_new []"
  by (simp add: index_of_def HotIndex_new_def lookup_event_def instance_of_def ref_events_def fun_eq_iff)

lemma lookup_event_snoc:
  "pe_event_id e \<notin> pe_event_id ` set es \<Longrightarrow>
     lookup_event (es @ [e]) i = (if i = pe_event_id e then Some e else lookup_event es i)"
  by (induction es) (auto simp: lookup_event_def)

lemma lookup_event_None: "lookup_event es i = None \<longleftrightarrow> i \<notin> pe_event_id ` set es"
  by (simp add: lookup_event_def map_of_eq_None_iff image_image)

lemma reduce_events_snoc: "reduce_events e (es @ [x]) = apply_event x (reduce_events e es)"
  by (simp add: reduce_events_def)

lemma instance_of_snoc:
  "instance_of (es @ [e]) p =
     (if p = pe_process_instance_id e then Some (apply_event e (or_insert_state e (instance_of es p)))
      else instance_of es p)"
  by (auto simp: instance_of_def or_insert_state_def reduce_events_snoc split: list.split)
    (simp add: reduce_events_def)

lemma ref_events_snoc:
  "ref_events (es @ [e]) r = ref_events es r @ map (\<lambda>_. e) (filter (\<lambda>r'. r' = r) (pe_metadata_refs e))"
  by (simp add: ref_events_def)

lemma contains_index: "index_of ix es \<Longrightarrow> bt_contains_key (hi_events_by_id ix) i \<longleftrightarrow> i \<in> pe_event_id ` set es"
  by (auto simp: bt_contains_key_iff index_of_def lookup_event_None)

lemma index_of_ingest:
  assumes "index_of ix es"
  shows "index_of (fst (HotIndex_ingest e ix)) (log_accept e es)"
proof (cases "event_valid e \<and> pe_event_id e \<notin> pe_event_id ` set es")
  case True
  then have "PipelineEvent_validate e = Inr ()" by (simp add: validate_iff)
  with True assms contains_index [OF assms, of "pe_event_id e"] show ?thesis
    by (auto simp: index_of_def HotIndex_ingest_def log_accept_def Let_def fun_eq_iff lookup_event_snoc
        instance_of_snoc ref_events_snoc bt_get_insert bt_list_push bt_list_push_fold comp_def)
      (auto simp: bt_push_def bt_get_insert split: if_splits)
next
  case False
  with assms contains_index [OF assms, of "pe_event_id e"] show ?thesis
    by (cases "PipelineEvent_validate e")
      (auto simp: index_of_def HotIndex_ingest_def log_accept_def simp flip: validate_iff)
qed

lemma ingest_result:
  assumes "index_of ix es"
  shows "snd (HotIndex_ingest e ix) =
    (if \<not> event_valid e then Inl (projl (PipelineEvent_validate e))
     else if pe_event_id e \<in> pe_event_id ` set es then Inr IoDuplicate else Inr IoAccepted)"
  using contains_index [OF assms, of "pe_event_id e"]
  by (cases "PipelineEvent_validate e") (auto simp: HotIndex_ingest_def Let_def simp flip: validate_iff)

subsection \<open>Queries\<close>

lemma events_for_ids_log:
  assumes "index_of ix es" "set xs \<subseteq> set es"
  shows "events_for_ids ix (map pe_event_id xs) = xs"
proof -
  have "lookup_event es (pe_event_id x) = Some x" if "x \<in> set es" for x
    using assms(1) that by (simp add: index_of_def lookup_event_def comp_def)
  then show ?thesis
    using assms by (induction xs) (simp_all add: events_for_ids_def index_of_def)
qed

lemma set_ref_events: "set (ref_events es r) = {e \<in> set es. r \<in> set (pe_metadata_refs e)}"
  by (auto simp: ref_events_def)

lemma events_for_ids_take:
  assumes "index_of ix es" "set xs \<subseteq> set es"
  shows "events_for_ids ix (take n (map pe_event_id xs)) = take n xs"
  unfolding take_map
  using assms by (intro events_for_ids_log) (auto dest: in_set_takeD)

lemma events_query_log:
  assumes "index_of ix es"
  shows "events_query ix q
    = QEvents (take (eq_limit q) (filter (\<lambda>e. pe_process_instance_id e = eq_process_instance_id q) es))"
proof -
  have "bt_list (hi_events_by_process ix) p = map pe_event_id (filter (\<lambda>e. pe_process_instance_id e = p) es)" for p
    using assms by (simp add: index_of_def)
  then show ?thesis by (simp add: events_query_def events_for_ids_take [OF assms])
qed

lemma impact_log:
  assumes "index_of ix es"
  shows "impact ix q = QEvents (take (imq_limit q) (ref_events es (imq_metadata_ref q)))"
proof -
  have "bt_list (hi_events_by_metadata_ref ix) r = map pe_event_id (ref_events es r)" for r
    using assms by (simp add: index_of_def)
  then show ?thesis by (simp add: impact_def events_for_ids_take [OF assms] set_ref_events)
qed

lemma affected_pipelines_log:
  assumes "index_of ix es"
  shows "affected_pipelines ix r
    = sorted_list_of_set {pe_pipeline_id e | e. e \<in> set es \<and> r \<in> set (pe_metadata_refs e)}"
proof -
  have "events_for_ids ix (bt_list (hi_events_by_metadata_ref ix) r) = ref_events es r"
    using events_for_ids_log [OF assms, of "ref_events es r"] assms by (auto simp: index_of_def set_ref_events)
  moreover have "{pe_pipeline_id e | e. e \<in> set es \<and> r \<in> set (pe_metadata_refs e)}
      = pe_pipeline_id ` set (ref_events es r)"
    by (auto simp: set_ref_events)
  ultimately show ?thesis by (simp add: affected_pipelines_def)
qed

text \<open>
  Grouping by ascending key is a stable sort: the groups of an ordered map, concatenated, are the
  events sorted by timestamp with equal timestamps in the order of acceptance.
\<close>

lemma mset_groups:
  "distinct ks \<Longrightarrow> mset (concat (map (\<lambda>k. filter (\<lambda>x. f x = k) xs) ks)) = filter_mset (\<lambda>x. f x \<in> set ks) (mset xs)"
  by (induction ks) (auto intro!: multiset_eqI)

lemma groups_sort_key:
  fixes f :: "'a \<Rightarrow> 'k::linorder"
  assumes "sorted_wrt (<) ks" "\<And>x. x \<in> set xs \<Longrightarrow> f x \<in> set ks"
  shows "concat (map (\<lambda>k. filter (\<lambda>x. f x = k) xs) ks) = sort_key f xs"
proof (rule properties_for_sort_key [symmetric])
  have d: "distinct ks" using assms(1) by (simp add: strict_sorted_iff)
  have flt: "filter (\<lambda>x. f x = k) (concat (map (\<lambda>k. filter (\<lambda>x. f x = k) xs) ks))
      = (if k \<in> set ks then filter (\<lambda>x. f x = k) xs else [])" for k
    using d by (induction ks) (auto simp: filter_concat comp_def filter_empty_conv cong: filter_cong)
  show "filter (\<lambda>x. f k = f x) (concat (map (\<lambda>k. filter (\<lambda>x. f x = k) xs) ks)) = filter (\<lambda>x. f k = f x) xs"
    if "k \<in> set (concat (map (\<lambda>k. filter (\<lambda>x. f x = k) xs) ks))" for k
    using flt [of "f k"] that by (auto simp: eq_commute [of "f k"])
  show "sorted (map f (concat (map (\<lambda>k. filter (\<lambda>x. f x = k) xs) ks)))"
  proof -
    have "sorted (map f (filter (\<lambda>x. f x = k) xs))" for k by (induction xs) auto
    then show ?thesis
      using assms(1) by (induction ks) (auto simp: map_concat sorted_append less_imp_le)
  qed
  show "mset (concat (map (\<lambda>k. filter (\<lambda>x. f x = k) xs) ks)) = mset xs"
    unfolding mset_groups [OF d] mset_filter [symmetric] using assms(2) by (metis filter_True)
qed

lemma events_in_time_range_log:
  assumes "index_of ix es" "1 \<le> tq_limit q"
  shows "events_in_time_range ix q
    = QEvents (take (tq_limit q) (sort_key pe_timestamp (filter (\<lambda>e. TimeRangeQuery_contains q (pe_timestamp e)) es)))"
proof -
  let ?xs = "filter (\<lambda>e. TimeRangeQuery_contains q (pe_timestamp e)) es"
  let ?it = "filter (\<lambda>(t, ids). TimeRangeQuery_contains q t) (bt_iter (hi_events_by_time ix))"
  let ?ks = "map fst ?it"
  have time: "bt_list (hi_events_by_time ix) t = map pe_event_id (filter (\<lambda>e. pe_timestamp e = t) es)" for t
    using assms(1) by (simp add: index_of_def)
  have ids: "snd p = map pe_event_id (filter (\<lambda>e. pe_timestamp e = fst p) ?xs)" if "p \<in> set ?it" for p
  proof -
    from that have "bt_get (hi_events_by_time ix) (fst p) = Some (snd p)"
      "TimeRangeQuery_contains q (fst p)" by (auto simp: bt_get_iter)
    moreover from this(2) have "filter (\<lambda>e. pe_timestamp e = fst p) ?xs = filter (\<lambda>e. pe_timestamp e = fst p) es"
      by (auto intro!: filter_cong)
    ultimately show ?thesis using time [of "fst p"] by (simp add: bt_list_def)
  qed
  have "sorted_wrt (<) ?ks"
    using asc_keys_filter [OF asc_keys_iter, of "\<lambda>(t, ids). TimeRangeQuery_contains q t" "hi_events_by_time ix"]
    by (simp add: asc_keys_def)
  moreover have "pe_timestamp e \<in> set ?ks" if "e \<in> set ?xs" for e
  proof -
    from that time [of "pe_timestamp e"] obtain l where "bt_get (hi_events_by_time ix) (pe_timestamp e) = Some l"
      by (cases "bt_get (hi_events_by_time ix) (pe_timestamp e)") (auto simp: bt_list_def filter_empty_conv)
    with that show ?thesis by (force simp: bt_get_iter)
  qed
  ultimately have sorted: "concat (map (\<lambda>k. filter (\<lambda>e. pe_timestamp e = k) ?xs) ?ks) = sort_key pe_timestamp ?xs"
    by (rule groups_sort_key)
  have it: "map snd ?it = map (\<lambda>p. map pe_event_id (filter (\<lambda>e. pe_timestamp e = fst p) ?xs)) ?it"
    using ids by (intro map_cong refl)
  have "concat (map snd ?it) = map pe_event_id (sort_key pe_timestamp ?xs)"
    by (simp only: it sorted [symmetric] map_concat map_map comp_def)
  then show ?thesis
    using assms by (simp add: events_in_time_range_def push_groups_eq events_for_ids_take)
qed

definition log_instances :: "PipelineEvent list \<Rightarrow> ProcessInstanceSnapshot list" where
  "log_instances es =
     map (\<lambda>p. ProcessInstanceState_snapshot (the (instance_of es p)))
       (sorted_list_of_set (pe_process_instance_id ` set es))"

lemma instance_of_None: "instance_of es p = None \<longleftrightarrow> p \<notin> pe_process_instance_id ` set es"
proof -
  have "instance_of es p = None \<longleftrightarrow> filter (\<lambda>e. pe_process_instance_id e = p) es = []"
    by (simp add: instance_of_def split: list.split)
  then show ?thesis by (auto simp: filter_empty_conv)
qed

lemma process_instance_log:
  "index_of ix es \<Longrightarrow> process_instance ix q =
     (case filter (\<lambda>e. pe_process_instance_id e = iq_process_instance_id q) es of
        [] \<Rightarrow> None | e # rest \<Rightarrow> Some (ProcessInstanceState_snapshot (reduce_events e rest)))"
  by (simp add: process_instance_def index_of_def instance_of_def split: list.split)

lemma instances_log:
  assumes "index_of ix es"
  shows "map ProcessInstanceState_snapshot (bt_values (hi_process_instances ix)) = log_instances es"
proof -
  have get: "bt_get (hi_process_instances ix) = instance_of es" using assms by (simp add: index_of_def)
  have "{p. instance_of es p \<noteq> None} = pe_process_instance_id ` set es" by (auto simp: instance_of_None)
  then show ?thesis by (simp add: log_instances_def bt_values_get bt_keys_set get comp_def)
qed

lemma snapshot_log:
  assumes "index_of ix es"
  shows "his_event_count (HotIndex_snapshot ix) = length es"
    and "his_process_instance_count (HotIndex_snapshot ix) = card (pe_process_instance_id ` set es)"
proof -
  have "{i. lookup_event es i \<noteq> None} = pe_event_id ` set es" by (auto simp: lookup_event_None)
  moreover have "card (pe_event_id ` set es) = length es"
    using assms by (simp add: index_of_def distinct_card flip: set_map)
  moreover have "{p. instance_of es p \<noteq> None} = pe_process_instance_id ` set es" by (auto simp: instance_of_None)
  ultimately show "his_event_count (HotIndex_snapshot ix) = length es"
    "his_process_instance_count (HotIndex_snapshot ix) = card (pe_process_instance_id ` set es)"
    using assms by (simp_all add: HotIndex_snapshot_def bt_len_keys index_of_def)
qed

subsection \<open>Ingestion of a sequence\<close>

definition ingest_all :: "PipelineEvent list \<Rightarrow> HotIndex \<Rightarrow> HotIndex" where
  "ingest_all evs ix = fold (\<lambda>e ix. fst (HotIndex_ingest e ix)) evs ix"

lemma index_of_ingest_all: "index_of ix es \<Longrightarrow> index_of (ingest_all evs ix) (fold log_accept evs es)"
  unfolding ingest_all_def by (induction evs arbitrary: ix es) (simp_all add: index_of_ingest)

lemma fold_log_accept_prefix: "\<exists>new. fold log_accept evs es = es @ new \<and> set new \<subseteq> set evs"
proof (induction evs arbitrary: es)
  case (Cons e evs)
  obtain new where "fold log_accept evs (log_accept e es) = log_accept e es @ new" "set new \<subseteq> set evs"
    using Cons by blast
  moreover have "log_accept e es = es \<or> log_accept e es = es @ [e]" by (simp add: log_accept_def)
  ultimately show ?case by fastforce
qed simp

text \<open>The ids of the log are those of the valid events that were offered.\<close>

lemma ids_fold_log_accept:
  "pe_event_id ` set (fold log_accept evs es)
     = pe_event_id ` set es \<union> pe_event_id ` {e \<in> set evs. event_valid e}"
  by (induction evs arbitrary: es) (auto simp: log_accept_def)

lemma lookup_ingest:
  "bt_get (hi_events_by_id (fst (HotIndex_ingest e ix))) i =
     (if i = pe_event_id e \<and> event_valid e \<and> bt_get (hi_events_by_id ix) (pe_event_id e) = None
      then Some e else bt_get (hi_events_by_id ix) i)"
  by (cases "PipelineEvent_validate e")
    (auto simp: HotIndex_ingest_def Let_def bt_contains_key_iff bt_get_insert simp flip: validate_iff)

interpretation hot_events: dedup_store "\<lambda>e ix. fst (HotIndex_ingest e ix)"
  "\<lambda>ix. bt_get (hi_events_by_id ix)" pe_event_id event_valid
  by unfold_locales (rule lookup_ingest)

lemma ingest_counts:
  "hi_rejected_events (fst (HotIndex_ingest e ix)) = hi_rejected_events ix + (if event_valid e then 0 else 1)"
  "hi_duplicate_events (fst (HotIndex_ingest e ix)) = hi_duplicate_events ix
     + (if event_valid e \<and> bt_contains_key (hi_events_by_id ix) (pe_event_id e) then 1 else 0)"
  by (cases "PipelineEvent_validate e"; auto simp: HotIndex_ingest_def Let_def simp flip: validate_iff)+

lemma ingest_all_counts:
  "index_of ix es \<Longrightarrow>
   hi_rejected_events (ingest_all evs ix) = hi_rejected_events ix + of_nat (length (filter (\<lambda>e. \<not> event_valid e) evs)) \<and>
   hi_duplicate_events (ingest_all evs ix) + hi_rejected_events (ingest_all evs ix)
       + of_nat (length (fold log_accept evs es))
     = hi_duplicate_events ix + hi_rejected_events ix + of_nat (length es) + of_nat (length evs)"
proof (induction evs arbitrary: ix es)
  case (Cons e evs)
  from Cons.IH [OF index_of_ingest [OF Cons.prems, of e]] contains_index [OF Cons.prems, of "pe_event_id e"]
  show ?case by (auto simp: ingest_all_def ingest_counts log_accept_def algebra_simps)
qed (simp add: ingest_all_def)

subsection \<open>Properties\<close>

text \<open>
  (C8) The hot index refines the log of accepted events. After any sequence of events the index
  holds exactly the first valid event of every id, every event offered is counted once as
  accepted, duplicate or rejected, and the next ingestion answers from the log: invalid, duplicate
  or accepted.
\<close>

theorem hot_index_refines_log:
  "let ix = ingest_all evs HotIndex_new; log = fold log_accept evs [] in
     index_of ix log \<and>
     (\<forall>i. bt_get (hi_events_by_id ix) i = find (\<lambda>e. event_valid e \<and> pe_event_id e = i) evs) \<and>
     his_event_count (HotIndex_snapshot ix) = length log \<and>
     hi_duplicate_events ix + hi_rejected_events ix + of_nat (length log) = of_nat (length evs) \<and>
     snd (HotIndex_ingest e ix) =
       (if \<not> event_valid e then Err (projl (PipelineEvent_validate e))
        else if \<exists>x \<in> set evs. event_valid x \<and> pe_event_id x = pe_event_id e then Ok IoDuplicate
        else Ok IoAccepted)"
proof -
  let ?ix = "ingest_all evs HotIndex_new" and ?log = "fold log_accept evs []"
  note log = index_of_ingest_all [OF index_of_new, of evs]
  have "bt_get (hi_events_by_id ?ix) i = find (\<lambda>e. event_valid e \<and> pe_event_id e = i) evs" for i
    using hot_events.lookup_fold [of evs HotIndex_new i] by (simp add: ingest_all_def HotIndex_new_def)
  moreover have "pe_event_id e \<in> pe_event_id ` set ?log
      \<longleftrightarrow> (\<exists>x \<in> set evs. event_valid x \<and> pe_event_id x = pe_event_id e)"
    unfolding ids_fold_log_accept by (simp add: image_iff) metis
  moreover have "hi_duplicate_events ?ix + hi_rejected_events ?ix + of_nat (length ?log) = of_nat (length evs)"
    using ingest_all_counts [OF index_of_new, of evs, THEN conjunct2]
    by (simp add: HotIndex_new_def [THEN arg_cong [of _ _ hi_duplicate_events]]
        HotIndex_new_def [THEN arg_cong [of _ _ hi_rejected_events]])
  ultimately show ?thesis
    using log snapshot_log(1) [OF log] ingest_result [OF log, of e] unfolding Let_def by presburger
qed

text \<open>
  (C26) Every query of the hot index answers from the log of accepted events: whether an event id is
  known, the snapshot of a process instance (absent when the log has no event of it, otherwise the
  reduction of its events in the order of acceptance), the events of a process or of a metadata
  reference in the order of acceptance, the events of a time range in the order of their timestamps,
  the instances by pipeline and by status in the order of their ids, each cut off at the limit, and
  the pipelines a metadata reference affects. Limits are at least one where the code tests them after
  the push, as \<open>QueryLimit::new\<close> ensures.
\<close>

theorem hot_index_queries:
  fixes evs
  defines "ix \<equiv> ingest_all evs HotIndex_new" and "log \<equiv> fold log_accept evs []"
  assumes "1 \<le> tq_limit tq" "1 \<le> plq_limit plq" "1 \<le> sq_limit sq"
  shows "(contains_event ix i \<longleftrightarrow> i \<in> pe_event_id ` set log) \<and>
    process_instance ix iq =
      (case filter (\<lambda>e. pe_process_instance_id e = iq_process_instance_id iq) log of
         [] \<Rightarrow> None
       | e # es \<Rightarrow> Some (ProcessInstanceState_snapshot (reduce_events e es))) \<and>
    events_query ix eq = QEvents (take (eq_limit eq)
      (filter (\<lambda>e. pe_process_instance_id e = eq_process_instance_id eq) log)) \<and>
    impact ix imq = QEvents (take (imq_limit imq) (ref_events log (imq_metadata_ref imq))) \<and>
    events_in_time_range ix tq = QEvents (take (tq_limit tq)
      (sort_key pe_timestamp (filter (\<lambda>e. TimeRangeQuery_contains tq (pe_timestamp e)) log))) \<and>
    pipeline_instances ix plq = QProcessInstances (take (plq_limit plq)
      (filter (\<lambda>s. snap_pipeline_id s = plq_pipeline_id plq) (log_instances log))) \<and>
    process_instances_by_status ix sq = QProcessInstances (take (sq_limit sq)
      (filter (\<lambda>s. snap_status s = sq_status sq) (log_instances log))) \<and>
    affected_pipelines ix r
      = sorted_list_of_set {pe_pipeline_id e | e. e \<in> set log \<and> r \<in> set (pe_metadata_refs e)}"
proof -
  have log: "index_of ix log" unfolding ix_def log_def by (rule index_of_ingest_all [OF index_of_new])
  show ?thesis
    using assms(3-) contains_index [OF log, of i] process_instance_log [OF log, of iq] events_query_log [OF log, of eq] impact_log [OF log, of imq]
      events_in_time_range_log [OF log assms(3)] affected_pipelines_log [OF log, of r]
    by (simp add: contains_event_def pipeline_instances_def process_instances_by_status_def instances_log [OF log] collect_limited_eq)
qed

lemma hot_index_queries_witness:
  "events_in_time_range (ingest_all [sample_event ''b'' ''2'' ProcessStarted, sample_event ''a'' ''1'' ProcessStarted]
       HotIndex_new) \<lparr>tq_start = None, tq_end = Some ''3'', tq_limit = 1\<rparr>
     = QEvents [sample_event ''a'' ''1'' ProcessStarted] \<and>
   process_instance (ingest_all [sample_event ''b'' ''2'' ProcessStarted, sample_event ''a'' ''1'' ProcessStarted] HotIndex_new)
     \<lparr>iq_process_instance_id = ''no such instance''\<rparr> = None"
  using hot_index_queries [of "\<lparr>tq_start = None, tq_end = Some ''3'', tq_limit = 1\<rparr>"
      "\<lparr>plq_pipeline_id = [], plq_limit = 1\<rparr>" "\<lparr>sq_status = PsActive, sq_limit = 1\<rparr>"
      "[sample_event ''b'' ''2'' ProcessStarted, sample_event ''a'' ''1'' ProcessStarted]"]
  by (simp add: log_accept_def sample_event_def event_builder_defs event_valid_def TimeRangeQuery_contains_def)

end
