(* ===== verification/Runtime.thy ===== *)
theory Runtime
  imports Hot_Index "HOL-Library.Sublist"
begin

text \<open>
  The shard-local runtime of \<open>src/runtime.rs\<close>: \<open>ShardLocalRuntime\<close>, one hot index per logical shard
  with deterministic routing by process instance and fan-out for queries that no single shard owns,
  and \<open>BoundedIngestRuntime\<close>, bounded per-shard queues in front of it.

  \<open>runtime_of n evs\<close> is the specification of the first: shard \<open>i\<close> is the index of the events routed
  to \<open>i\<close>. The second is specified by a list of accepted submissions per shard that is, at every
  moment, what was drained followed by what is queued.
\<close>

type_synonym LogicalShardId = nat

record ShardLocalRuntime =
  rt_shards :: "HotIndex list"

record ShardIngestOutcome =
  sio_shard_id :: LogicalShardId
  sio_outcome :: IngestOutcome

record ShardSnapshot =
  ss_shard_id :: LogicalShardId
  ss_hot_index :: HotIndexSnapshot

record ShardRuntimeSnapshot =
  srs_shards :: "ShardSnapshot list"
  srs_totals :: HotIndexSnapshot

datatype RuntimeError =
  NoShards
| QueueCapacityZero
| QueueFull LogicalShardId nat
| InvalidShard LogicalShardId
| ReIngest IngestError

definition shard_for_process_instance :: "ProcessInstanceId \<Rightarrow> nat \<Rightarrow> LogicalShardId" where
  "shard_for_process_instance p shard_count =
     unat (foldl fnv_step (0xcbf29ce484222325 :: u64) (as_bytes p)) mod shard_count"

definition ShardLocalRuntime_new :: "nat \<Rightarrow> RuntimeError + ShardLocalRuntime" where
  "ShardLocalRuntime_new shard_count =
     (if shard_count = 0 then Err NoShards else Ok \<lparr>rt_shards = replicate shard_count HotIndex_new\<rparr>)"

definition shard_count :: "ShardLocalRuntime \<Rightarrow> nat" where
  "shard_count rt = length (rt_shards rt)"

definition rt_shard_for :: "ShardLocalRuntime \<Rightarrow> ProcessInstanceId \<Rightarrow> LogicalShardId" where
  "rt_shard_for rt p = shard_for_process_instance p (length (rt_shards rt))"

definition rt_ingest :: "PipelineEvent \<Rightarrow> ShardLocalRuntime \<Rightarrow> ShardLocalRuntime \<times> (RuntimeError + ShardIngestOutcome)" where
  "rt_ingest event rt =
     (let shard_id = rt_shard_for rt (pe_process_instance_id event) in
      case HotIndex_ingest event (rt_shards rt ! shard_id) of
        (ix, r) \<Rightarrow>
          (rt\<lparr>rt_shards := (rt_shards rt)[shard_id := ix]\<rparr>,
           res_bind (map_err ReIngest r) (\<lambda>outcome. Ok \<lparr>sio_shard_id = shard_id, sio_outcome = outcome\<rparr>)))"

definition rt_process_instance :: "ShardLocalRuntime \<Rightarrow> ProcessInstanceQuery \<Rightarrow> ProcessInstanceSnapshot option" where
  "rt_process_instance rt q =
     process_instance (rt_shards rt ! rt_shard_for rt (iq_process_instance_id q)) q"

definition rt_events :: "ShardLocalRuntime \<Rightarrow> EventQuery \<Rightarrow> QueryResult" where
  "rt_events rt q = events_query (rt_shards rt ! rt_shard_for rt (eq_process_instance_id q)) q"

text \<open>
  The fan-out loop: each shard is asked for what remains of the limit, and the loop stops when
  nothing remains. \<open>result_instances\<close> and \<open>result_events\<close> are the \<open>if let\<close> on the partial result.
\<close>

fun fanout :: "QueryLimit \<Rightarrow> (HotIndex \<Rightarrow> QueryLimit \<Rightarrow> 'a list) \<Rightarrow> HotIndex list \<Rightarrow> 'a list \<Rightarrow> 'a list" where
  "fanout limit ask [] acc = acc"
| "fanout limit ask (shard # shards) acc =
     (let remaining = limit - length acc in
      if remaining = 0 then acc
      else fanout limit ask shards (acc @ ask shard (QueryLimit_new remaining)))"

fun result_instances :: "QueryResult \<Rightarrow> ProcessInstanceSnapshot list" where
  "result_instances (QProcessInstances xs) = xs"
| "result_instances _ = []"

fun result_events :: "QueryResult \<Rightarrow> PipelineEvent list" where
  "result_events (QEvents xs) = xs"
| "result_events _ = []"

definition rt_pipeline_instances :: "ShardLocalRuntime \<Rightarrow> PipelineQuery \<Rightarrow> QueryResult" where
  "rt_pipeline_instances rt q =
     QProcessInstances (fanout (plq_limit q)
       (\<lambda>shard remaining. result_instances (pipeline_instances shard
          \<lparr>plq_pipeline_id = plq_pipeline_id q, plq_limit = remaining\<rparr>)) (rt_shards rt) [])"

definition rt_impact :: "ShardLocalRuntime \<Rightarrow> ImpactQuery \<Rightarrow> QueryResult" where
  "rt_impact rt q =
     QEvents (fanout (imq_limit q)
       (\<lambda>shard remaining. result_events (impact shard
          \<lparr>imq_metadata_ref = imq_metadata_ref q, imq_limit = remaining\<rparr>)) (rt_shards rt) [])"

definition rt_process_instances_by_status :: "ShardLocalRuntime \<Rightarrow> ProcessStatusQuery \<Rightarrow> QueryResult" where
  "rt_process_instances_by_status rt q =
     QProcessInstances (fanout (sq_limit q)
       (\<lambda>shard remaining. result_instances (process_instances_by_status shard
          \<lparr>sq_status = sq_status q, sq_limit = remaining\<rparr>)) (rt_shards rt) [])"

definition rt_events_in_time_range :: "ShardLocalRuntime \<Rightarrow> TimeRangeQuery \<Rightarrow> QueryResult" where
  "rt_events_in_time_range rt q =
     QEvents (take (tq_limit q) (sort_key pe_timestamp (fanout (tq_limit q)
       (\<lambda>shard remaining. result_events (events_in_time_range shard
          \<lparr>tq_start = tq_start q, tq_end = tq_end q, tq_limit = remaining\<rparr>)) (rt_shards rt) [])))"

definition rt_affected_pipelines :: "ShardLocalRuntime \<Rightarrow> MetadataRef \<Rightarrow> PipelineId list" where
  "rt_affected_pipelines rt r =
     sorted_list_of_set (\<Union>shard \<in> set (rt_shards rt). set (affected_pipelines shard r))"

definition sum_snapshots :: "HotIndexSnapshot list \<Rightarrow> HotIndexSnapshot" where
  "sum_snapshots ss =
     \<lparr>his_process_instance_count = sum_list (map his_process_instance_count ss),
      his_event_count = sum_list (map his_event_count ss),
      his_pipeline_count = sum_list (map his_pipeline_count ss),
      his_metadata_ref_count = sum_list (map his_metadata_ref_count ss),
      his_duplicate_events = sum_list (map his_duplicate_events ss),
      his_rejected_events = sum_list (map his_rejected_events ss)\<rparr>"

definition rt_snapshot :: "ShardLocalRuntime \<Rightarrow> ShardRuntimeSnapshot" where
  "rt_snapshot rt =
     (let shards = map (\<lambda>(idx, shard). \<lparr>ss_shard_id = idx, ss_hot_index = HotIndex_snapshot shard\<rparr>)
            (enumerate 0 (rt_shards rt))
      in \<lparr>srs_shards = shards, srs_totals = sum_snapshots (map ss_hot_index shards)\<rparr>)"

definition rt_shard :: "ShardLocalRuntime \<Rightarrow> LogicalShardId \<Rightarrow> HotIndex option" where
  "rt_shard rt shard_id = (if shard_id < length (rt_shards rt) then Some (rt_shards rt ! shard_id) else None)"

subsection \<open>Bounded ingestion\<close>

record BoundedIngestRuntime =
  bi_runtime :: ShardLocalRuntime
  bi_queues :: "PipelineEvent list list"
  bi_per_shard_capacity :: nat

record QueuedIngestOutcome =
  qo_shard_id :: LogicalShardId
  qo_queued_depth :: nat
  qo_capacity :: nat

record IngestDrainSummary =
  id_shard_id :: LogicalShardId
  id_attempted :: nat
  id_accepted :: nat
  id_duplicates :: nat
  id_failed :: nat
  id_remaining_depth :: nat

record IngestQueueSnapshot =
  iqs_shard_id :: LogicalShardId
  iqs_depth :: nat
  iqs_capacity :: nat

record BoundedIngestRuntimeSnapshot =
  bis_runtime :: ShardRuntimeSnapshot
  bis_queues :: "IngestQueueSnapshot list"

definition BoundedIngestRuntime_new :: "nat \<Rightarrow> nat \<Rightarrow> RuntimeError + BoundedIngestRuntime" where
  "BoundedIngestRuntime_new shards per_shard_capacity =
     (if per_shard_capacity = 0 then Err QueueCapacityZero
      else res_bind (ShardLocalRuntime_new shards) (\<lambda>runtime.
        Ok \<lparr>bi_runtime = runtime, bi_queues = replicate shards [],
            bi_per_shard_capacity = per_shard_capacity\<rparr>))"

definition bi_submit ::
  "PipelineEvent \<Rightarrow> BoundedIngestRuntime \<Rightarrow> BoundedIngestRuntime \<times> (RuntimeError + QueuedIngestOutcome)" where
  "bi_submit event bi =
     (case PipelineEvent_validate event of
        Inl e \<Rightarrow> (bi, Err (ReIngest e))
      | Inr _ \<Rightarrow>
          let shard_id = rt_shard_for (bi_runtime bi) (pe_process_instance_id event);
              queue = bi_queues bi ! shard_id in
          if length queue \<ge> bi_per_shard_capacity bi then
            (bi, Err (QueueFull shard_id (bi_per_shard_capacity bi)))
          else
            let queue = queue @ [event] in
            (bi\<lparr>bi_queues := (bi_queues bi)[shard_id := queue]\<rparr>,
             Ok \<lparr>qo_shard_id = shard_id, qo_queued_depth = length queue,
                 qo_capacity = bi_per_shard_capacity bi\<rparr>))"

fun drain_queue ::
  "nat \<Rightarrow> PipelineEvent list \<Rightarrow> ShardLocalRuntime \<Rightarrow> IngestDrainSummary \<Rightarrow>
     PipelineEvent list \<times> ShardLocalRuntime \<times> (RuntimeError + IngestDrainSummary)" where
  "drain_queue 0 queue rt summary = (queue, rt, Ok (summary\<lparr>id_remaining_depth := length queue\<rparr>))"
| "drain_queue (Suc n) [] rt summary = ([], rt, Ok (summary\<lparr>id_remaining_depth := 0\<rparr>))"
| "drain_queue (Suc n) (event # queue) rt summary =
     (let summary = summary\<lparr>id_attempted := id_attempted summary + 1\<rparr> in
      case rt_ingest event rt of
        (rt, Inr outcome) \<Rightarrow>
          (case sio_outcome outcome of
             IoAccepted \<Rightarrow> drain_queue n queue rt (summary\<lparr>id_accepted := id_accepted summary + 1\<rparr>)
           | IoDuplicate \<Rightarrow> drain_queue n queue rt (summary\<lparr>id_duplicates := id_duplicates summary + 1\<rparr>))
      | (rt, Inl (ReIngest _)) \<Rightarrow> drain_queue n queue rt (summary\<lparr>id_failed := id_failed summary + 1\<rparr>)
      | (rt, Inl err) \<Rightarrow> (queue, rt, Err err))"

definition drain_shard ::
  "LogicalShardId \<Rightarrow> nat \<Rightarrow> BoundedIngestRuntime \<Rightarrow> BoundedIngestRuntime \<times> (RuntimeError + IngestDrainSummary)" where
  "drain_shard shard_id max_events bi =
     (if shard_id \<ge> length (bi_queues bi) then (bi, Err (InvalidShard shard_id))
      else
        (let queue = bi_queues bi ! shard_id in
         case drain_queue max_events queue (bi_runtime bi)
             \<lparr>id_shard_id = shard_id, id_attempted = 0, id_accepted = 0, id_duplicates = 0, id_failed = 0,
              id_remaining_depth = length queue\<rparr> of
           (queue, rt, r) \<Rightarrow> (bi\<lparr>bi_runtime := rt, bi_queues := (bi_queues bi)[shard_id := queue]\<rparr>, r)))"

fun drain_shards ::
  "LogicalShardId list \<Rightarrow> nat \<Rightarrow> BoundedIngestRuntime \<Rightarrow> IngestDrainSummary list \<Rightarrow>
     BoundedIngestRuntime \<times> (RuntimeError + IngestDrainSummary list)" where
  "drain_shards [] max_events bi summaries = (bi, Ok summaries)"
| "drain_shards (idx # idxs) max_events bi summaries =
     (case drain_shard idx max_events bi of
        (bi, Inl err) \<Rightarrow> (bi, Err err)
      | (bi, Inr summary) \<Rightarrow> drain_shards idxs max_events bi (summaries @ [summary]))"

definition drain_all ::
  "nat \<Rightarrow> BoundedIngestRuntime \<Rightarrow> BoundedIngestRuntime \<times> (RuntimeError + IngestDrainSummary list)" where
  "drain_all max_events bi = drain_shards [0..<length (bi_queues bi)] max_events bi []"

definition bi_snapshot :: "BoundedIngestRuntime \<Rightarrow> BoundedIngestRuntimeSnapshot" where
  "bi_snapshot bi =
     \<lparr>bis_runtime = rt_snapshot (bi_runtime bi),
      bis_queues = map (\<lambda>(idx, queue). \<lparr>iqs_shard_id = idx, iqs_depth = length queue,
                            iqs_capacity = bi_per_shard_capacity bi\<rparr>) (enumerate 0 (bi_queues bi))\<rparr>"

subsection \<open>Routing\<close>

definition event_shard :: "nat \<Rightarrow> PipelineEvent \<Rightarrow> LogicalShardId" where
  "event_shard n e = shard_for_process_instance (pe_process_instance_id e) n"

definition routed :: "nat \<Rightarrow> LogicalShardId \<Rightarrow> PipelineEvent list \<Rightarrow> PipelineEvent list" where
  "routed n i evs = filter (\<lambda>e. event_shard n e = i) evs"

definition runtime_of :: "nat \<Rightarrow> PipelineEvent list \<Rightarrow> ShardLocalRuntime" where
  "runtime_of n evs = \<lparr>rt_shards = map (\<lambda>i. ingest_all (routed n i evs) HotIndex_new) [0..<n]\<rparr>"

definition rt_ingest_all :: "PipelineEvent list \<Rightarrow> ShardLocalRuntime \<Rightarrow> ShardLocalRuntime" where
  "rt_ingest_all evs rt = fold (\<lambda>e rt. fst (rt_ingest e rt)) evs rt"

lemma shard_bound [simp]: "0 < n \<Longrightarrow> shard_for_process_instance p n < n"
  by (simp add: shard_for_process_instance_def)

lemma event_shard_bound [simp]: "0 < n \<Longrightarrow> event_shard n e < n"
  by (simp add: event_shard_def)

lemma length_runtime_of [simp]: "length (rt_shards (runtime_of n evs)) = n"
  by (simp add: runtime_of_def)

lemma shards_runtime_of [simp]: "i < n \<Longrightarrow> rt_shards (runtime_of n evs) ! i = ingest_all (routed n i evs) HotIndex_new"
  by (simp add: runtime_of_def)

lemma routed_snoc: "routed n i (evs @ [e]) = routed n i evs @ (if event_shard n e = i then [e] else [])"
  by (simp add: routed_def)

lemma ingest_all_snoc: "ingest_all (evs @ [e]) ix = fst (HotIndex_ingest e (ingest_all evs ix))"
  by (simp add: ingest_all_def)

lemma rt_ingest_runtime_of:
  assumes "0 < n"
  shows "fst (rt_ingest e (runtime_of n evs)) = runtime_of n (evs @ [e])"
proof -
  have "(rt_shards (runtime_of n evs))[event_shard n e := fst (HotIndex_ingest e (ingest_all (routed n (event_shard n e) evs) HotIndex_new))]
      = rt_shards (runtime_of n (evs @ [e]))"
    using assms by (intro nth_equalityI) (auto simp: nth_list_update routed_snoc ingest_all_snoc)
  then show ?thesis
    using assms
    by (simp add: rt_ingest_def rt_shard_for_def Let_def event_shard_def [symmetric] case_prod_beta)
qed

lemma new_runtime_of: "0 < n \<Longrightarrow> ShardLocalRuntime_new n = Inr (runtime_of n [])"
  by (simp add: ShardLocalRuntime_new_def runtime_of_def routed_def ingest_all_def map_replicate_const)

lemma rt_ingest_all_runtime_of: "0 < n \<Longrightarrow> rt_ingest_all evs (runtime_of n es) = runtime_of n (es @ evs)"
  unfolding rt_ingest_all_def by (induction evs arbitrary: es) (simp_all add: rt_ingest_runtime_of)

subsection \<open>One index and many\<close>

text \<open>Events of one id belong to one process instance.\<close>

definition consistent_ids :: "PipelineEvent list \<Rightarrow> bool" where
  "consistent_ids evs \<longleftrightarrow>
     (\<forall>e \<in> set evs. \<forall>e' \<in> set evs. pe_event_id e = pe_event_id e' \<longrightarrow> pe_process_instance_id e = pe_process_instance_id e')"

abbreviation log_of :: "PipelineEvent list \<Rightarrow> PipelineEvent list" where
  "log_of evs \<equiv> fold log_accept evs []"

lemma set_log_of: "set (log_of evs) \<subseteq> set evs"
proof (induction evs rule: rev_induct)
  case (snoc e evs)
  then show ?case by (auto simp: log_accept_def)
qed simp

lemma log_of_routed:
  assumes "consistent_ids evs"
  shows "log_of (routed n i evs) = routed n i (log_of evs)"
  using assms
proof (induction evs rule: rev_induct)
  case (snoc e evs)
  from snoc.prems have "consistent_ids evs" unfolding consistent_ids_def set_append by blast
  note IH = snoc.IH [OF this]
  show ?case
  proof (cases "event_shard n e = i")
    case True
    have "event_shard n x = i" if "x \<in> set (log_of evs)" "pe_event_id x = pe_event_id e" for x
    proof -
      have "x \<in> set (evs @ [e])" "e \<in> set (evs @ [e])" using that(1) set_log_of [of evs] by auto
      with snoc.prems that(2) have "pe_process_instance_id x = pe_process_instance_id e"
        unfolding consistent_ids_def by blast
      with True show ?thesis by (simp add: event_shard_def)
    qed
    then have "pe_event_id e \<in> pe_event_id ` set (routed n i (log_of evs)) \<longleftrightarrow> pe_event_id e \<in> pe_event_id ` set (log_of evs)"
      by (auto simp: routed_def image_iff)
    with True IH show ?thesis by (simp add: routed_snoc log_accept_def [of e])
  next
    case False
    with IH show ?thesis by (simp add: routed_snoc log_accept_def [of e])
  qed
qed (simp add: routed_def)

lemma index_of_shard:
  "index_of (ingest_all (routed n i evs) HotIndex_new) (log_of (routed n i evs))"
  by (rule index_of_ingest_all [OF index_of_new])

lemma filter_process_routed:
  "filter (\<lambda>e. pe_process_instance_id e = p) (routed n (shard_for_process_instance p n) es)
     = filter (\<lambda>e. pe_process_instance_id e = p) es"
  by (auto simp: routed_def event_shard_def intro: filter_cong)

lemma instance_of_routed: "instance_of (routed n (shard_for_process_instance p n) es) p = instance_of es p"
  by (simp add: instance_of_def filter_process_routed)

text \<open>The logs of the shards, one after the other, are the log sorted by shard.\<close>

lemma concat_routed:
  assumes "0 < n"
  shows "concat (map (\<lambda>i. routed n i es) [0..<n]) = sort_key (event_shard n) es"
  unfolding routed_def using assms by (intro groups_sort_key) auto

lemma ref_events_concat: "concat (map (\<lambda>xs. ref_events xs r) xss) = ref_events (concat xss) r"
  by (induction xss) (simp_all add: ref_events_def)

lemma fanout_eq:
  assumes "\<And>i k. i \<in> set is \<Longrightarrow> 1 \<le> k \<Longrightarrow> ask (shard i) k = take k (full i)" "length acc \<le> limit"
  shows "fanout limit ask (map shard is) acc = take limit (acc @ concat (map full is))"
  using assms
proof (induction "is" arbitrary: acc)
  case (Cons i "is")
  let ?k = "limit - length acc"
  show ?case
  proof (cases "?k = 0")
    case True
    with Cons.prems(2) show ?thesis by simp
  next
    case False
    then have "QueryLimit_new ?k = ?k" by (simp add: QueryLimit_new_def)
    then have ask: "ask (shard i) (QueryLimit_new ?k) = take ?k (full i)"
      using Cons.prems(1) [of i ?k] False by simp
    have "length (acc @ take ?k (full i)) \<le> limit" using Cons.prems(2) by auto
    from Cons.IH [OF Cons.prems(1) this] False ask have
      "fanout limit ask (map shard (i # is)) acc = take limit (acc @ take ?k (full i) @ concat (map full is))"
      by (simp add: Let_def)
    also have "\<dots> = take limit (acc @ concat (map full (i # is)))"
      by (cases "length (full i) \<le> ?k") simp_all
    finally show ?thesis .
  qed
qed simp

lemma rt_fanout:
  assumes "\<And>i k. i < n \<Longrightarrow> 1 \<le> k \<Longrightarrow> ask (ingest_all (routed n i evs) HotIndex_new) k = take k (full i)"
  shows "fanout limit ask (rt_shards (runtime_of n evs)) [] = take limit (concat (map full [0..<n]))"
  unfolding runtime_of_def ShardLocalRuntime.select_convs using assms
  by (subst fanout_eq [where full = full]) auto

subsection \<open>Queries of the runtime\<close>

lemma rt_process_queries:
  assumes "0 < n" "consistent_ids evs"
  shows "rt_process_instance (runtime_of n evs) iq = process_instance (ingest_all evs HotIndex_new) iq"
    and "rt_events (runtime_of n evs) eq = events_query (ingest_all evs HotIndex_new) eq"
proof -
  note one = index_of_ingest_all [OF index_of_new, of evs]
  note shard = index_of_shard [of n _ evs, unfolded log_of_routed [OF assms(2)]]
  show "rt_process_instance (runtime_of n evs) iq = process_instance (ingest_all evs HotIndex_new) iq"
    using assms(1) one shard
    by (simp add: rt_process_instance_def rt_shard_for_def process_instance_def index_of_def instance_of_routed)
  show "rt_events (runtime_of n evs) eq = events_query (ingest_all evs HotIndex_new) eq"
    using assms(1)
    by (simp add: rt_events_def rt_shard_for_def events_query_log [OF one] events_query_log [OF shard]
        filter_process_routed)
qed

lemma set_routed: "0 < n \<Longrightarrow> (\<Union>i<n. set (routed n i es)) = set es"
  by (auto simp: routed_def)

lemma rt_affected:
  assumes "0 < n" "consistent_ids evs"
  shows "rt_affected_pipelines (runtime_of n evs) r = affected_pipelines (ingest_all evs HotIndex_new) r"
proof -
  note one = index_of_ingest_all [OF index_of_new, of evs]
  note shard = index_of_shard [of n _ evs, unfolded log_of_routed [OF assms(2)]]
  have fin: "finite {pe_pipeline_id e | e. e \<in> set es \<and> r \<in> set (pe_metadata_refs e)}" for es
    by (rule finite_subset [of _ "pe_pipeline_id ` set es"]) auto
  have "(\<Union>shard \<in> set (rt_shards (runtime_of n evs)). set (affected_pipelines shard r))
      = {pe_pipeline_id e | e. e \<in> set (log_of evs) \<and> r \<in> set (pe_metadata_refs e)}"
  proof -
    have "set (affected_pipelines (ingest_all (routed n i evs) HotIndex_new) r)
        = {pe_pipeline_id e | e. e \<in> set (log_of evs) \<and> event_shard n e = i \<and> r \<in> set (pe_metadata_refs e)}" for i
      by (simp add: affected_pipelines_log [OF shard] fin) (auto simp: routed_def)
    then show ?thesis using assms(1)
      by (auto simp: runtime_of_def) (metis atLeastLessThan_iff event_shard_bound le0)
  qed
  then show ?thesis by (simp add: rt_affected_pipelines_def affected_pipelines_log [OF one])
qed

lemma totals_snapshot: "srs_totals (rt_snapshot rt) = sum_snapshots (map HotIndex_snapshot (rt_shards rt))"
proof -
  have "map ss_hot_index (map (\<lambda>(idx, shard). \<lparr>ss_shard_id = idx, ss_hot_index = HotIndex_snapshot shard\<rparr>) (enumerate 0 xs))
      = map HotIndex_snapshot xs" for xs
    by (intro nth_equalityI) (simp_all add: nth_enumerate_eq)
  then show ?thesis by (simp add: rt_snapshot_def Let_def del: map_map)
qed

lemma rt_event_count:
  assumes "0 < n" "consistent_ids evs"
  shows "his_event_count (srs_totals (rt_snapshot (runtime_of n evs))) = his_event_count (HotIndex_snapshot (ingest_all evs HotIndex_new))"
proof -
  note one = index_of_ingest_all [OF index_of_new, of evs]
  note shard = index_of_shard [of n _ evs, unfolded log_of_routed [OF assms(2)]]
  have "map (his_event_count \<circ> HotIndex_snapshot) (rt_shards (runtime_of n evs))
      = map (\<lambda>i. length (routed n i (log_of evs))) [0..<n]"
    by (simp add: runtime_of_def snapshot_log(1) [OF shard])
  moreover have "sum_list (map (\<lambda>i. length (routed n i (log_of evs))) [0..<n]) = length (log_of evs)"
    using concat_routed [OF assms(1), of "log_of evs", THEN arg_cong [where f = length]]
    by (simp add: length_concat comp_def)
  ultimately show ?thesis by (simp add: totals_snapshot sum_snapshots_def snapshot_log(1) [OF one])
qed

lemma rt_impact_log:
  assumes "0 < n" "consistent_ids evs"
  shows "rt_impact (runtime_of n evs) q
    = QEvents (take (imq_limit q) (ref_events (sort_key (event_shard n) (log_of evs)) (imq_metadata_ref q)))"
proof -
  note shard = index_of_shard [of n _ evs, unfolded log_of_routed [OF assms(2)]]
  have "ref_events (sort_key (event_shard n) (log_of evs)) r = concat (map (\<lambda>i. ref_events (routed n i (log_of evs)) r) [0..<n])" for r
    unfolding concat_routed [OF assms(1), symmetric] ref_events_concat [symmetric] by (simp add: comp_def)
  then show ?thesis
    unfolding rt_impact_def by (subst rt_fanout) (simp_all add: impact_log [OF shard])
qed

lemma rt_instances_log:
  assumes "consistent_ids evs"
  shows "rt_pipeline_instances (runtime_of n evs) plq = QProcessInstances (take (plq_limit plq)
      (filter (\<lambda>s. snap_pipeline_id s = plq_pipeline_id plq) (concat (map (\<lambda>i. log_instances (routed n i (log_of evs))) [0..<n]))))"
    and "rt_process_instances_by_status (runtime_of n evs) sq = QProcessInstances (take (sq_limit sq)
      (filter (\<lambda>s. snap_status s = sq_status sq) (concat (map (\<lambda>i. log_instances (routed n i (log_of evs))) [0..<n]))))"
proof -
  note shard = index_of_shard [of n _ evs, unfolded log_of_routed [OF assms]]
  show "rt_pipeline_instances (runtime_of n evs) plq = QProcessInstances (take (plq_limit plq)
      (filter (\<lambda>s. snap_pipeline_id s = plq_pipeline_id plq) (concat (map (\<lambda>i. log_instances (routed n i (log_of evs))) [0..<n]))))"
    unfolding rt_pipeline_instances_def filter_concat map_map comp_def
    by (subst rt_fanout) (simp_all add: pipeline_instances_def instances_log [OF shard] collect_limited_eq)
  show "rt_process_instances_by_status (runtime_of n evs) sq = QProcessInstances (take (sq_limit sq)
      (filter (\<lambda>s. snap_status s = sq_status sq) (concat (map (\<lambda>i. log_instances (routed n i (log_of evs))) [0..<n]))))"
    unfolding rt_process_instances_by_status_def filter_concat map_map comp_def
    by (subst rt_fanout) (simp_all add: process_instances_by_status_def instances_log [OF shard] collect_limited_eq)
qed

lemma rt_time_range_log:
  assumes "consistent_ids evs"
  shows "rt_events_in_time_range (runtime_of n evs) q = QEvents (sort_key pe_timestamp (take (tq_limit q)
      (concat (map (\<lambda>i. sort_key pe_timestamp (filter (\<lambda>e. TimeRangeQuery_contains q (pe_timestamp e)) (routed n i (log_of evs))))
        [0..<n]))))"
proof -
  note shard = index_of_shard [of n _ evs, unfolded log_of_routed [OF assms]]
  have contains: "TimeRangeQuery_contains \<lparr>tq_start = tq_start q, tq_end = tq_end q, tq_limit = k\<rparr> = TimeRangeQuery_contains q" for k
    by (simp add: TimeRangeQuery_contains_def fun_eq_iff)
  show ?thesis
    unfolding rt_events_in_time_range_def
    by (subst rt_fanout [where full = "\<lambda>i. sort_key pe_timestamp
        (filter (\<lambda>e. TimeRangeQuery_contains q (pe_timestamp e)) (routed n i (log_of evs)))"])
      (simp_all add: events_in_time_range_log [OF shard] contains)
qed

lemma mset_time_range:
  assumes "0 < n"
  shows "mset (concat (map (\<lambda>i. sort_key f (filter P (routed n i es))) [0..<n])) = mset (filter P es)"
proof -
  have "mset (concat (map (\<lambda>i. sort_key f (filter P (routed n i es))) [0..<n])) = mset (concat (map (\<lambda>i. filter P (routed n i es)) [0..<n]))"
    by (simp add: mset_concat comp_def)
  also have "concat (map (\<lambda>i. filter P (routed n i es)) [0..<n]) = filter P (concat (map (\<lambda>i. routed n i es) [0..<n]))"
    by (simp add: filter_concat comp_def)
  also have "mset \<dots> = mset (filter P es)" by (simp add: concat_routed [OF assms])
  finally show ?thesis .
qed

subsection \<open>Properties of the sharded runtime\<close>

text \<open>
  (C15) Sharding is transparent. When events of one id belong to one process instance, the runtime
  with any number of shards answers the questions about a process instance, its events and the
  pipelines affected by a metadata reference exactly as a single hot index that ingested the same
  events, and its totals count the same events.
\<close>

theorem sharded_equals_single_index:
  assumes "ShardLocalRuntime_new n = Ok rt" "consistent_ids evs"
  shows "rt_process_instance (rt_ingest_all evs rt) iq = process_instance (ingest_all evs HotIndex_new) iq \<and>
    rt_events (rt_ingest_all evs rt) eq = events_query (ingest_all evs HotIndex_new) eq \<and>
    rt_affected_pipelines (rt_ingest_all evs rt) r = affected_pipelines (ingest_all evs HotIndex_new) r \<and>
    his_event_count (srs_totals (rt_snapshot (rt_ingest_all evs rt)))
      = his_event_count (HotIndex_snapshot (ingest_all evs HotIndex_new))"
proof -
  have n: "0 < n" using assms(1) by (auto simp: ShardLocalRuntime_new_def split: if_splits)
  have "rt_ingest_all evs rt = runtime_of n evs"
    using assms(1) new_runtime_of [OF n] rt_ingest_all_runtime_of [OF n, of evs "[]"] by simp
  then show ?thesis
    using rt_process_queries [OF n assms(2)] rt_affected [OF n assms(2)] rt_event_count [OF n assms(2)] by simp
qed

text \<open>
  Fan-out. A query no single shard owns returns at most its limit: the impact of a metadata
  reference lists the log shard by shard in the order of acceptance, and a time range returns
  events of the range in the order of their timestamps, as many as the limit allows and all of
  them when they fit; which ones are returned when they do not fit depends on the shards.
\<close>

theorem fanout_queries:
  fixes tq :: TimeRangeQuery
  assumes "ShardLocalRuntime_new n = Ok rt" "consistent_ids evs"
  defines "log \<equiv> fold log_accept evs []"
    and "matching \<equiv> filter (\<lambda>e. TimeRangeQuery_contains tq (pe_timestamp e)) (fold log_accept evs [])"
  shows "rt_impact (rt_ingest_all evs rt) imq
      = QEvents (take (imq_limit imq) (ref_events (sort_key (event_shard n) log) (imq_metadata_ref imq))) \<and>
    (\<exists>xs. rt_events_in_time_range (rt_ingest_all evs rt) tq = QEvents xs \<and> sorted (map pe_timestamp xs) \<and>
      mset xs \<subseteq># mset matching \<and> length xs = min (tq_limit tq) (length matching))"
proof -
  have n: "0 < n" using assms(1) by (auto simp: ShardLocalRuntime_new_def split: if_splits)
  have rt: "rt_ingest_all evs rt = runtime_of n evs"
    using assms(1) new_runtime_of [OF n] rt_ingest_all_runtime_of [OF n, of evs "[]"] by simp
  let ?all = "concat (map (\<lambda>i. sort_key pe_timestamp
      (filter (\<lambda>e. TimeRangeQuery_contains tq (pe_timestamp e)) (routed n i (log_of evs)))) [0..<n])"
  have all: "mset ?all = mset matching" unfolding matching_def by (rule mset_time_range [OF n])
  have "mset (take (tq_limit tq) ?all) \<subseteq># mset ?all"
    by (metis append_take_drop_id mset_append mset_subset_eq_add_left)
  moreover have "length ?all = length matching" using all by (metis size_mset)
  ultimately show ?thesis
    unfolding rt rt_impact_log [OF n assms(2)] rt_time_range_log [OF assms(2)] log_def
    by (simp add: all min.commute)
qed

lemma consistent_distinct: "distinct (map pe_event_id evs) \<Longrightarrow> consistent_ids evs"
  by (auto simp: consistent_ids_def distinct_map inj_on_def)

text \<open>
  Two events of two processes: the later one on shard 0, the earlier one on shard 1. A time-range
  query with limit 1 returns the later one.
\<close>

definition two_processes :: "PipelineEvent list" where
  "two_processes =
     [(sample_event ''late'' ''2'' ProcessStarted)\<lparr>pe_process_instance_id := ''a''\<rparr>,
      (sample_event ''early'' ''1'' ProcessStarted)\<lparr>pe_process_instance_id := ''b''\<rparr>]"

lemma two_processes_shards: "map (event_shard 2) two_processes = [0, 1]"
  by (simp add: two_processes_def event_shard_def shard_for_process_instance_def fnv_step_def as_bytes_def)

lemma two_processes_log: "log_of two_processes = two_processes" "consistent_ids two_processes"
proof -
  show "log_of two_processes = two_processes"
    by (simp add: two_processes_def log_accept_def sample_event_def event_builder_defs event_valid_def)
  show "consistent_ids two_processes"
    by (rule consistent_distinct) (simp add: two_processes_def sample_event_def event_builder_defs)
qed

lemma limited_time_range_misses_earliest:
  "rt_events_in_time_range (rt_ingest_all two_processes (runtime_of 2 [])) \<lparr>tq_start = None, tq_end = None, tq_limit = 1\<rparr>
     = QEvents [hd two_processes] \<and>
   events_in_time_range (ingest_all two_processes HotIndex_new) \<lparr>tq_start = None, tq_end = None, tq_limit = 1\<rparr>
     = QEvents [last two_processes]"
proof -
  have "routed 2 0 two_processes = [hd two_processes]" "routed 2 1 two_processes = [last two_processes]"
    using two_processes_shards by (auto simp: routed_def two_processes_def)
  moreover have "[0..<2] = [0, 1 :: nat]" by (simp add: upt_rec)
  ultimately show ?thesis
    using rt_ingest_all_runtime_of [of 2 two_processes "[]"] index_of_ingest_all [OF index_of_new, of two_processes]
    by (simp add: rt_time_range_log two_processes_log TimeRangeQuery_contains_def events_in_time_range_log)
      (simp add: two_processes_def sample_event_def event_builder_defs)
qed

lemma sharded_equals_single_index_witness:
  "\<exists>rt. ShardLocalRuntime_new 2 = Ok rt \<and>
     rt_events (rt_ingest_all two_processes rt) \<lparr>eq_process_instance_id = ''b'', eq_limit = 5\<rparr>
       = events_query (ingest_all two_processes HotIndex_new) \<lparr>eq_process_instance_id = ''b'', eq_limit = 5\<rparr>"
  using sharded_equals_single_index [OF new_runtime_of two_processes_log(2), of 2] new_runtime_of [of 2] by auto

subsection \<open>Bounded queues\<close>

text \<open>
  \<open>bounded_of cap n bi subs\<close>: with \<open>subs\<close> the submissions accepted so far, each shard has ingested a
  prefix of those routed to it and queues the rest, at most \<open>cap\<close> events.
\<close>

definition bounded_of :: "nat \<Rightarrow> nat \<Rightarrow> BoundedIngestRuntime \<Rightarrow> PipelineEvent list \<Rightarrow> bool" where
  "bounded_of cap n bi subs \<longleftrightarrow>
     0 < n \<and> bi_per_shard_capacity bi = cap \<and> length (bi_queues bi) = n \<and> length (rt_shards (bi_runtime bi)) = n \<and>
     list_all event_valid subs \<and>
     (\<forall>i < n. length (bi_queues bi ! i) \<le> cap \<and>
        (\<exists>d. routed n i subs = d @ bi_queues bi ! i \<and> rt_shards (bi_runtime bi) ! i = ingest_all d HotIndex_new))"

lemma bounded_new:
  "BoundedIngestRuntime_new n cap = Inr bi \<Longrightarrow> bounded_of cap n bi []"
  by (auto simp: BoundedIngestRuntime_new_def ShardLocalRuntime_new_def bounded_of_def routed_def ingest_all_def
      split: if_splits)

lemma bounded_submit:
  assumes "bounded_of cap n bi subs" "bi_submit e bi = (bi', r)"
  shows "case r of Inr _ \<Rightarrow> bounded_of cap n bi' (subs @ [e]) | Inl _ \<Rightarrow> bi' = bi"
proof (cases r)
  case (Inl err)
  then show ?thesis using assms(2) by (auto simp: bi_submit_def Let_def split: sum.splits if_splits)
next
  case (Inr out)
  let ?i = "event_shard n e"
  from assms(1) have n: "0 < n" "length (rt_shards (bi_runtime bi)) = n" by (simp_all add: bounded_of_def)
  with Inr assms(2) have "event_valid e" "length (bi_queues bi ! ?i) < bi_per_shard_capacity bi"
    "bi' = bi\<lparr>bi_queues := (bi_queues bi)[?i := bi_queues bi ! ?i @ [e]]\<rparr>"
    by (auto simp: bi_submit_def Let_def rt_shard_for_def event_shard_def simp flip: validate_iff
        split: sum.splits if_splits)
  with Inr assms(1) show ?thesis
    by (auto simp: bounded_of_def routed_snoc nth_list_update)
qed

lemma ingest_valid: "event_valid e \<Longrightarrow> \<exists>out. snd (HotIndex_ingest e ix) = Inr out"
  by (simp add: HotIndex_ingest_def Let_def flip: validate_iff)

text \<open>What draining a queue does when every event in it is valid and routed to its shard.\<close>

lemma drain_queue_spec:
  assumes "i < length (rt_shards rt)" "list_all (\<lambda>e. event_valid e \<and> event_shard (length (rt_shards rt)) e = i) queue"
  shows "\<exists>s'. drain_queue m queue rt s = (drop m queue,
      rt\<lparr>rt_shards := (rt_shards rt)[i := ingest_all (take m queue) (rt_shards rt ! i)]\<rparr>, Inr s') \<and>
    id_shard_id s' = id_shard_id s \<and> id_attempted s' = id_attempted s + min m (length queue) \<and>
    id_accepted s' + id_duplicates s' = id_accepted s + id_duplicates s + min m (length queue) \<and>
    id_failed s' = id_failed s \<and> id_remaining_depth s' = length queue - m"
  using assms
proof (induction m queue rt s rule: drain_queue.induct)
  case (3 m e queue rt s)
  let ?ix = "fst (HotIndex_ingest e (rt_shards rt ! i))"
  let ?rt = "rt\<lparr>rt_shards := (rt_shards rt)[i := ?ix]\<rparr>"
  have v: "event_valid e" and i: "rt_shard_for rt (pe_process_instance_id e) = i"
    using 3(5) by (simp_all add: rt_shard_for_def event_shard_def)
  obtain out where "snd (HotIndex_ingest e (rt_shards rt ! i)) = Inr out"
    using ingest_valid [OF v] by blast
  then have ing: "rt_ingest e rt = (?rt, Inr \<lparr>sio_shard_id = i, sio_outcome = out\<rparr>)"
    by (simp add: rt_ingest_def i Let_def case_prod_beta)
  have "ingest_all (take m queue) ?ix = ingest_all (take (Suc m) (e # queue)) (rt_shards rt ! i)"
    by (simp add: ingest_all_def)
  with 3 ing show ?case by (cases out) (simp_all add: Let_def)
qed (simp_all add: ingest_all_def)

lemma ingest_all_append: "ingest_all (xs @ ys) ix = ingest_all ys (ingest_all xs ix)"
  by (simp add: ingest_all_def)

lemma drain_shard_spec:
  assumes "bounded_of cap n bi subs" "i < n" "drain_shard i m bi = (bi', r)"
  shows "bounded_of cap n bi' subs"
    and "bi_queues bi' = (bi_queues bi)[i := drop m (bi_queues bi ! i)]"
    and "\<exists>s. r = Inr s \<and> id_attempted s = min m (length (bi_queues bi ! i)) \<and> id_failed s = 0 \<and>
      id_accepted s + id_duplicates s = id_attempted s \<and> id_remaining_depth s = length (bi_queues bi ! i) - m"
proof -
  let ?q = "bi_queues bi ! i" and ?rt = "bi_runtime bi"
  from assms(1,2) obtain d where d: "routed n i subs = d @ ?q" "rt_shards ?rt ! i = ingest_all d HotIndex_new"
    and len: "length (rt_shards ?rt) = n" "length (bi_queues bi) = n" "list_all event_valid subs"
    by (auto simp: bounded_of_def)
  have "set ?q \<subseteq> set (routed n i subs)" using d(1) by simp
  then have "list_all (\<lambda>e. event_valid e \<and> event_shard (length (rt_shards ?rt)) e = i) ?q"
    using len by (auto simp: routed_def list_all_iff)
  from drain_queue_spec [OF _ this, of m "\<lparr>id_shard_id = i, id_attempted = 0, id_accepted = 0, id_duplicates = 0,
      id_failed = 0, id_remaining_depth = length ?q\<rparr>"] len assms(2)
  obtain s where dq: "drain_queue m ?q ?rt \<lparr>id_shard_id = i, id_attempted = 0, id_accepted = 0, id_duplicates = 0,
      id_failed = 0, id_remaining_depth = length ?q\<rparr> = (drop m ?q,
      ?rt\<lparr>rt_shards := (rt_shards ?rt)[i := ingest_all (take m ?q) (rt_shards ?rt ! i)]\<rparr>, Inr s)"
    and s: "id_attempted s = min m (length ?q)" "id_failed s = 0" "id_accepted s + id_duplicates s = id_attempted s"
      "id_remaining_depth s = length ?q - m" by auto
  with assms(3) len assms(2) have bi': "bi' = bi\<lparr>bi_runtime := ?rt\<lparr>rt_shards := (rt_shards ?rt)[i := ingest_all (d @ take m ?q) HotIndex_new]\<rparr>,
      bi_queues := (bi_queues bi)[i := drop m ?q]\<rparr>" and r: "r = Inr s"
    by (auto simp: drain_shard_def Let_def d(2) ingest_all_append)
  show "bi_queues bi' = (bi_queues bi)[i := drop m ?q]" by (simp add: bi')
  show "\<exists>s. r = Inr s \<and> id_attempted s = min m (length ?q) \<and> id_failed s = 0 \<and>
      id_accepted s + id_duplicates s = id_attempted s \<and> id_remaining_depth s = length ?q - m"
    using r s by blast
  have "length (bi_queues bi' ! j) \<le> cap \<and>
      (\<exists>d. routed n j subs = d @ bi_queues bi' ! j \<and> rt_shards (bi_runtime bi') ! j = ingest_all d HotIndex_new)"
    if "j < n" for j
  proof (cases "j = i")
    case True
    have "routed n i subs = (d @ take m ?q) @ drop m ?q" using d(1) by simp
    moreover have "length (drop m ?q) \<le> cap" using assms(1,2) by (auto simp: bounded_of_def le_diff_conv trans_le_add1)
    ultimately show ?thesis using True len assms(2) unfolding bi'
      by (intro conjI exI [of _ "d @ take m ?q"]) (simp_all del: append_assoc)
  next
    case False
    with assms(1) that show ?thesis by (simp add: bounded_of_def bi')
  qed
  with assms(1) show "bounded_of cap n bi' subs" by (simp add: bounded_of_def bi')
qed

lemma drain_shards_spec:
  assumes "bounded_of cap n bi subs" "set is \<subseteq> {..<n}" "distinct is" "drain_shards is m bi ss = (bi', r)"
  shows "bounded_of cap n bi' subs \<and> (\<exists>ss'. r = Inr ss') \<and>
    (\<forall>i < n. bi_queues bi' ! i = (if i \<in> set is then drop m (bi_queues bi ! i) else bi_queues bi ! i))"
  using assms
proof (induction "is" arbitrary: bi ss)
  case (Cons i "is")
  obtain bi1 r1 where d: "drain_shard i m bi = (bi1, r1)" by fastforce
  from Cons.prems(2) have "i < n" by simp
  note spec = drain_shard_spec [OF Cons.prems(1) this d]
  from spec(3) obtain s where r1: "r1 = Inr s" by blast
  have len: "length (bi_queues bi) = n" using Cons.prems(1) by (simp add: bounded_of_def)
  from Cons.IH [OF spec(1), of "ss @ [s]"] Cons.prems(2-4) d r1 show ?case
    using len by (auto simp: spec(2) nth_list_update)
qed auto

inductive bi_run :: "nat \<Rightarrow> nat \<Rightarrow> BoundedIngestRuntime \<Rightarrow> PipelineEvent list \<Rightarrow> bool" for cap n where
  bi_created: "BoundedIngestRuntime_new n cap = Inr bi \<Longrightarrow> bi_run cap n bi []"
| bi_accepted: "bi_run cap n bi subs \<Longrightarrow> bi_submit e bi = (bi', Inr out) \<Longrightarrow> bi_run cap n bi' (subs @ [e])"
| bi_refused: "bi_run cap n bi subs \<Longrightarrow> bi_submit e bi = (bi', Inl err) \<Longrightarrow> bi_run cap n bi' subs"
| bi_drained: "bi_run cap n bi subs \<Longrightarrow> drain_shard i m bi = (bi', r) \<Longrightarrow> bi_run cap n bi' subs"
| bi_drained_all: "bi_run cap n bi subs \<Longrightarrow> drain_all m bi = (bi', r) \<Longrightarrow> bi_run cap n bi' subs"

lemma drain_all_spec:
  assumes "bounded_of cap n bi subs" "drain_all m bi = (bi', r)"
  shows "bounded_of cap n bi' subs \<and> (\<exists>ss. r = Inr ss) \<and> (\<forall>i < n. bi_queues bi' ! i = drop m (bi_queues bi ! i))"
proof -
  have "length (bi_queues bi) = n" using assms(1) by (simp add: bounded_of_def)
  with drain_shards_spec [OF assms(1), of "[0..<n]" m "[]" bi' r] assms(2) show ?thesis
    by (simp add: drain_all_def) fastforce
qed

lemma bi_run_bounded: "bi_run cap n bi subs \<Longrightarrow> bounded_of cap n bi subs"
proof (induction rule: bi_run.induct)
  case bi_created
  then show ?case by (rule bounded_new)
next
  case bi_accepted
  then show ?case using bounded_submit by fastforce
next
  case bi_refused
  then show ?case using bounded_submit by fastforce
next
  case (bi_drained bi subs i m bi' r)
  then show ?case
    using drain_shard_spec(1) [OF bi_drained.IH _ bi_drained.hyps(2)]
    by (cases "i < n") (auto simp: drain_shard_def bounded_of_def)
next
  case bi_drained_all
  then show ?case using drain_all_spec by blast
qed

text \<open>
  (C14) Bounded ingestion loses nothing, keeps order and terminates. In every state that submissions
  and drains can reach, no queue exceeds its capacity, and each shard has ingested, in order, a
  prefix of the accepted submissions routed to it and queues the rest. Draining every shard with a
  budget of at least the capacity succeeds, empties the queues and leaves the runtime that would
  have ingested all accepted submissions directly.
\<close>

theorem bounded_ingest_complete:
  assumes "bi_run cap n bi subs" "drain_all m bi = (bi', r)"
  shows "(\<forall>i < n. length (bi_queues bi ! i) \<le> cap \<and>
      (\<exists>d. routed n i subs = d @ bi_queues bi ! i \<and> rt_shard (bi_runtime bi) i = Some (ingest_all d HotIndex_new))) \<and>
    (cap \<le> m \<longrightarrow> (\<exists>ss. r = Ok ss) \<and> concat (bi_queues bi') = [] \<and> bi_runtime bi' = rt_ingest_all subs (runtime_of n []))"
proof -
  from bi_run_bounded [OF assms(1)] have b: "bounded_of cap n bi subs" .
  from drain_all_spec [OF b assms(2)] have b': "bounded_of cap n bi' subs" "\<exists>ss. r = Inr ss"
    and q: "\<forall>i < n. bi_queues bi' ! i = drop m (bi_queues bi ! i)" by auto
  have n: "0 < n" using b by (simp add: bounded_of_def)
  have "concat (bi_queues bi') = [] \<and> bi_runtime bi' = rt_ingest_all subs (runtime_of n [])" if "cap \<le> m"
  proof -
    have empty: "bi_queues bi' ! i = []" if "i < n" for i
      using that q b \<open>cap \<le> m\<close> by (fastforce simp: bounded_of_def)
    then have "rt_shards (bi_runtime bi') ! i = ingest_all (routed n i subs) HotIndex_new" if "i < n" for i
      using that b'(1) by (auto simp: bounded_of_def)
    moreover have "length (rt_shards (bi_runtime bi')) = n" using b'(1) by (simp add: bounded_of_def)
    ultimately have "rt_shards (bi_runtime bi') = rt_shards (runtime_of n subs)"
      by (intro nth_equalityI) simp_all
    moreover have "concat (bi_queues bi') = []"
      using empty b'(1) by (auto simp: bounded_of_def in_set_conv_nth)
    ultimately show ?thesis using rt_ingest_all_runtime_of [OF n, of subs "[]"] by simp
  qed
  with b'(2) b show ?thesis by (auto simp: bounded_of_def rt_shard_def)
qed

lemma bounded_ingest_complete_witness:
  "\<exists>bi bi' r. bi_run 2 2 bi two_processes \<and> drain_all 2 bi = (bi', r) \<and>
     bi_runtime bi' = rt_ingest_all two_processes (runtime_of 2 [])"
proof -
  obtain bi0 where 0: "BoundedIngestRuntime_new 2 2 = Inr bi0" "bi_per_shard_capacity bi0 = 2" "bi_queues bi0 = [[], []]"
    "length (rt_shards (bi_runtime bi0)) = 2"
    by (simp add: BoundedIngestRuntime_new_def ShardLocalRuntime_new_def numeral_2_eq_2)
  obtain e1 e2 where tp: "two_processes = [e1, e2]" by (simp add: two_processes_def)
  have v: "PipelineEvent_validate e = Inr ()" if "e \<in> set two_processes" for e
    using that by (auto simp: validate_iff two_processes_def sample_event_def event_builder_defs event_valid_def)
  have sh: "shard_for_process_instance (pe_process_instance_id e1) 2 = 0"
    "shard_for_process_instance (pe_process_instance_id e2) 2 = 1"
    using two_processes_shards by (simp_all add: event_shard_def tp)
  obtain bi1 o1 where 1: "bi_submit e1 bi0 = (bi1, Inr o1)" "bi_per_shard_capacity bi1 = 2"
    "bi_queues bi1 = [[e1], []]" "length (rt_shards (bi_runtime bi1)) = 2"
    using 0(2-) v [of e1] by (simp add: bi_submit_def rt_shard_for_def sh Let_def tp)
  obtain bi2 o2 where 2: "bi_submit e2 bi1 = (bi2, Inr o2)"
    using 1(2-) v [of e2] by (simp add: bi_submit_def rt_shard_for_def sh Let_def tp)
  from bi_run.bi_accepted [OF bi_run.bi_accepted [OF bi_run.bi_created [OF 0(1)] 1(1)] 2]
  have run: "bi_run 2 2 bi2 two_processes" by (simp add: tp)
  obtain bi' r where d: "drain_all 2 bi2 = (bi', r)" by fastforce
  from bounded_ingest_complete [OF run d] run d show ?thesis by blast
qed

end
