(* ===== verification/Sitas_Runtime.thy ===== *)
theory Sitas_Runtime
  imports Runtime
begin

text \<open>
  The Sitas-backed runtime of \<open>src/sitas_runtime.rs\<close>: one hot index per executor shard, direct
  ingestion, bounded mailboxes with manual draining, and fan-out queries. The Sitas library is not
  part of the sources: how an executor call ends is an argument of type \<open>exec_call\<close> (it runs the
  closure on the shard and returns its output, or fails to spawn, or fails to join), and the
  mailboxes are a record \<open>mailbox_ops\<close> of the operations the adapter calls, whose documented
  behaviour, a bounded first-in first-out queue for every shard of the set, is the named hypothesis
  \<open>mailbox_fifo\<close>. Addressing a mailbox may be refused: \<open>mb_receiver_for\<close>, \<open>mb_sender_to\<close> and \<open>mb_snapshot\<close> are
  what the library answers when the mailbox of a shard is addressed in a set of the given size.
  \<open>stop\<close> consumes the runtime, so the model is of a running one.
\<close>

type_synonym sitas_error = string

datatype exec_call =
  CallCompletes
| CallNotSpawned sitas_error
| CallNotJoined sitas_error bool

datatype SitasRuntimeError =
  SeRuntime RuntimeError
| SeIngest IngestError
| SeStart sitas_error
| SeSpawn sitas_error
| SeJoin sitas_error
| SeOperation sitas_error
| SeCreateMailbox sitas_error
| SeAddressMailbox sitas_error
| SeStopped
| SeWorkersAlreadyRunning
| SeWorkersRunning
| SeWorkerAccess sitas_error
| SeMailboxClosed LogicalShardId

datatype ShardSendError = SendFull | SendClosed

datatype ShardRecvError = RecvEmpty | RecvClosed

record 'm mailbox_ops =
  mb_new :: "nat \<Rightarrow> 'm"
  mb_receiver_for :: "nat \<Rightarrow> LogicalShardId \<Rightarrow> sitas_error + unit"
  mb_sender_to :: "nat \<Rightarrow> LogicalShardId \<Rightarrow> sitas_error + unit"
  mb_snapshot :: "nat \<Rightarrow> LogicalShardId \<Rightarrow> sitas_error + unit"
  mb_try_send :: "'m \<Rightarrow> PipelineEvent \<Rightarrow> 'm \<times> (ShardSendError + unit)"
  mb_try_recv :: "'m \<Rightarrow> 'm \<times> (ShardRecvError + PipelineEvent)"
  mb_len :: "'m \<Rightarrow> nat"
  mb_capacity :: "'m \<Rightarrow> nat"

record SitasRuntimeConfig =
  sc_shard_count :: nat
  sc_mailbox_capacity_per_shard :: nat
  sc_thread_name_prefix :: string

definition SitasRuntimeConfig_new :: "nat \<Rightarrow> nat \<Rightarrow> SitasRuntimeConfig" where
  "SitasRuntimeConfig_new shards capacity =
     \<lparr>sc_shard_count = shards, sc_mailbox_capacity_per_shard = capacity,
      sc_thread_name_prefix = ''vannak-sitas-shard''\<rparr>"

definition with_thread_name_prefix :: "string \<Rightarrow> SitasRuntimeConfig \<Rightarrow> SitasRuntimeConfig" where
  "with_thread_name_prefix name cfg = cfg\<lparr>sc_thread_name_prefix := name\<rparr>"

text \<open>
  \<open>SitasShardState\<close> is the hot index and the receiver of the shard's mailbox; the receiver is taken by
  the worker of the shard while workers run.
\<close>

record 'm SitasShardRuntime =
  st_indexes :: "HotIndex list"
  st_mailboxes :: "'m list"
  st_workers :: bool

text \<open>Collecting the receivers stops at the first mailbox that cannot be addressed.\<close>

fun address_all :: "(LogicalShardId \<Rightarrow> sitas_error + unit) \<Rightarrow> LogicalShardId list \<Rightarrow> sitas_error + unit" where
  "address_all address [] = Ok ()"
| "address_all address (idx # idxs) = res_bind (address idx) (\<lambda>_. address_all address idxs)"

lemma address_all_ok: "\<forall>i \<in> set idxs. address i = Inr () \<Longrightarrow> address_all address idxs = Inr ()"
  by (induction idxs) simp_all

definition SitasShardRuntime_start ::
  "'m mailbox_ops \<Rightarrow> sitas_error + unit \<Rightarrow> sitas_error + unit \<Rightarrow> SitasRuntimeConfig \<Rightarrow>
     SitasRuntimeError + 'm SitasShardRuntime" where
  "SitasShardRuntime_start mb executor mailboxes config =
     (if sc_shard_count config = 0 then Err (SeRuntime NoShards)
      else if sc_mailbox_capacity_per_shard config = 0 then Err (SeRuntime QueueCapacityZero)
      else
        res_bind (map_err SeStart executor) (\<lambda>_.
        res_bind (map_err SeCreateMailbox mailboxes) (\<lambda>_.
        res_bind (map_err SeAddressMailbox (address_all (mb_receiver_for mb (sc_shard_count config)) [0..<sc_shard_count config])) (\<lambda>_.
        Ok \<lparr>st_indexes = replicate (sc_shard_count config) HotIndex_new,
            st_mailboxes = replicate (sc_shard_count config) (mb_new mb (sc_mailbox_capacity_per_shard config)),
            st_workers = False\<rparr>))))"

definition sitas_shard_for :: "'m SitasShardRuntime \<Rightarrow> ProcessInstanceId \<Rightarrow> LogicalShardId" where
  "sitas_shard_for rt p = shard_for_process_instance p (length (st_indexes rt))"

text \<open>Running a closure on the state of one shard.\<close>

definition with_hot_index_on ::
  "exec_call \<Rightarrow> LogicalShardId \<Rightarrow> (HotIndex \<Rightarrow> HotIndex \<times> 'r) \<Rightarrow> 'm SitasShardRuntime \<Rightarrow>
     'm SitasShardRuntime \<times> (SitasRuntimeError + 'r)" where
  "with_hot_index_on call shard_id operation rt =
     (let ran = rt\<lparr>st_indexes := (st_indexes rt)[shard_id := fst (operation (st_indexes rt ! shard_id))]\<rparr> in
      case call of
        CallNotSpawned e \<Rightarrow> (rt, Err (SeSpawn e))
      | CallNotJoined e done \<Rightarrow> (if done then ran else rt, Err (SeJoin e))
      | CallCompletes \<Rightarrow> (ran, Ok (snd (operation (st_indexes rt ! shard_id)))))"

definition sitas_ingest ::
  "exec_call \<Rightarrow> PipelineEvent \<Rightarrow> 'm SitasShardRuntime \<Rightarrow> 'm SitasShardRuntime \<times> (SitasRuntimeError + ShardIngestOutcome)" where
  "sitas_ingest call event rt =
     (let shard_id = sitas_shard_for rt (pe_process_instance_id event) in
      case with_hot_index_on call shard_id (HotIndex_ingest event) rt of
        (rt', r) \<Rightarrow>
          (rt', res_bind r (\<lambda>outcome. res_bind (map_err SeIngest outcome) (\<lambda>outcome.
                  Ok \<lparr>sio_shard_id = shard_id, sio_outcome = outcome\<rparr>))))"

definition sitas_query :: "exec_call \<Rightarrow> LogicalShardId \<Rightarrow> (HotIndex \<Rightarrow> 'r) \<Rightarrow> 'm SitasShardRuntime \<Rightarrow> SitasRuntimeError + 'r" where
  "sitas_query call shard_id ask rt = snd (with_hot_index_on call shard_id (\<lambda>ix. (ix, ask ix)) rt)"

definition sitas_contains_event ::
  "exec_call \<Rightarrow> 'm SitasShardRuntime \<Rightarrow> ProcessInstanceId \<Rightarrow> EventId \<Rightarrow> SitasRuntimeError + bool" where
  "sitas_contains_event call rt p event_id =
     sitas_query call (sitas_shard_for rt p) (\<lambda>ix. contains_event ix event_id) rt"

definition sitas_process_instance ::
  "exec_call \<Rightarrow> 'm SitasShardRuntime \<Rightarrow> ProcessInstanceQuery \<Rightarrow> SitasRuntimeError + ProcessInstanceSnapshot option" where
  "sitas_process_instance call rt q =
     sitas_query call (sitas_shard_for rt (iq_process_instance_id q)) (\<lambda>ix. process_instance ix q) rt"

definition sitas_events :: "exec_call \<Rightarrow> 'm SitasShardRuntime \<Rightarrow> EventQuery \<Rightarrow> SitasRuntimeError + QueryResult" where
  "sitas_events call rt q =
     sitas_query call (sitas_shard_for rt (eq_process_instance_id q)) (\<lambda>ix. events_query ix q) rt"

text \<open>\<open>map_all\<close> runs a closure on every shard and returns the outputs in the order of the shards.\<close>

definition map_hot_indexes ::
  "sitas_error + unit \<Rightarrow> (HotIndex \<Rightarrow> 'r) \<Rightarrow> 'm SitasShardRuntime \<Rightarrow> SitasRuntimeError + 'r list" where
  "map_hot_indexes fanned operation rt =
     res_bind (map_err SeOperation fanned) (\<lambda>_. Ok (map operation (st_indexes rt)))"

fun collect_partials :: "QueryLimit \<Rightarrow> 'a list list \<Rightarrow> 'a list \<Rightarrow> 'a list" where
  "collect_partials limit [] acc = acc"
| "collect_partials limit (partial # partials) acc =
     (let remaining = limit - length acc;
          acc = acc @ take (min remaining (length partial)) partial in
      if QueryLimit_reached limit (length acc) then acc else collect_partials limit partials acc)"

definition sitas_pipeline_instances ::
  "sitas_error + unit \<Rightarrow> 'm SitasShardRuntime \<Rightarrow> PipelineQuery \<Rightarrow> SitasRuntimeError + QueryResult" where
  "sitas_pipeline_instances fanned rt q =
     res_bind (map_hot_indexes fanned (\<lambda>ix. pipeline_instances ix q) rt) (\<lambda>rs.
     Ok (QProcessInstances (collect_partials (plq_limit q) (map result_instances rs) [])))"

definition sitas_impact :: "sitas_error + unit \<Rightarrow> 'm SitasShardRuntime \<Rightarrow> ImpactQuery \<Rightarrow> SitasRuntimeError + QueryResult" where
  "sitas_impact fanned rt q =
     res_bind (map_hot_indexes fanned (\<lambda>ix. impact ix q) rt) (\<lambda>rs.
     Ok (QEvents (collect_partials (imq_limit q) (map result_events rs) [])))"

definition sitas_process_instances_by_status ::
  "sitas_error + unit \<Rightarrow> 'm SitasShardRuntime \<Rightarrow> ProcessStatusQuery \<Rightarrow> SitasRuntimeError + QueryResult" where
  "sitas_process_instances_by_status fanned rt q =
     res_bind (map_hot_indexes fanned (\<lambda>ix. process_instances_by_status ix q) rt) (\<lambda>rs.
     Ok (QProcessInstances (collect_partials (sq_limit q) (map result_instances rs) [])))"

definition sitas_events_in_time_range ::
  "sitas_error + unit \<Rightarrow> 'm SitasShardRuntime \<Rightarrow> TimeRangeQuery \<Rightarrow> SitasRuntimeError + QueryResult" where
  "sitas_events_in_time_range fanned rt q =
     res_bind (map_hot_indexes fanned (\<lambda>ix. events_in_time_range ix q) rt) (\<lambda>rs.
     Ok (QEvents (take (tq_limit q) (sort_key pe_timestamp (concat (map result_events rs))))))"

definition sitas_affected_pipelines ::
  "sitas_error + unit \<Rightarrow> 'm SitasShardRuntime \<Rightarrow> MetadataRef \<Rightarrow> SitasRuntimeError + PipelineId list" where
  "sitas_affected_pipelines fanned rt r =
     res_bind (map_hot_indexes fanned (\<lambda>ix. affected_pipelines ix r) rt) (\<lambda>partials.
     Ok (sorted_list_of_set (\<Union>p \<in> set partials. set p)))"

definition sitas_runtime_snapshot :: "sitas_error + unit \<Rightarrow> 'm SitasShardRuntime \<Rightarrow> SitasRuntimeError + ShardRuntimeSnapshot" where
  "sitas_runtime_snapshot fanned rt =
     res_bind (map_hot_indexes fanned HotIndex_snapshot rt) (\<lambda>snapshots.
     let shards = map (\<lambda>(idx, hot_index). \<lparr>ss_shard_id = idx, ss_hot_index = hot_index\<rparr>) (enumerate 0 snapshots) in
     Ok \<lparr>srs_shards = shards, srs_totals = sum_snapshots (map ss_hot_index shards)\<rparr>)"

subsection \<open>Mailboxes\<close>

definition sitas_try_submit ::
  "'m mailbox_ops \<Rightarrow> PipelineEvent \<Rightarrow> 'm SitasShardRuntime \<Rightarrow> 'm SitasShardRuntime \<times> (SitasRuntimeError + QueuedIngestOutcome)" where
  "sitas_try_submit mb event rt =
     (case PipelineEvent_validate event of
        Inl e \<Rightarrow> (rt, Err (SeIngest e))
      | Inr _ \<Rightarrow>
          let shard_id = sitas_shard_for rt (pe_process_instance_id event);
              shards = length (st_mailboxes rt) in
          (case mb_sender_to mb shards shard_id of
             Inl e \<Rightarrow> (rt, Err (SeAddressMailbox e))
           | Inr _ \<Rightarrow>
               (case mb_try_send mb (st_mailboxes rt ! shard_id) event of
                  (box, Inl SendFull) \<Rightarrow>
                    (rt\<lparr>st_mailboxes := (st_mailboxes rt)[shard_id := box]\<rparr>,
                     Err (SeRuntime (QueueFull shard_id
                       (case mb_snapshot mb shards shard_id of Inl _ \<Rightarrow> 0 | Inr _ \<Rightarrow> mb_capacity mb box))))
                | (box, Inl SendClosed) \<Rightarrow>
                    (rt\<lparr>st_mailboxes := (st_mailboxes rt)[shard_id := box]\<rparr>, Err (SeMailboxClosed shard_id))
                | (box, Inr _) \<Rightarrow>
                    (rt\<lparr>st_mailboxes := (st_mailboxes rt)[shard_id := box]\<rparr>,
                     (case mb_snapshot mb shards shard_id of
                        Inl e \<Rightarrow> Err (SeAddressMailbox e)
                      | Inr _ \<Rightarrow>
                          Ok \<lparr>qo_shard_id = shard_id, qo_queued_depth = mb_len mb box, qo_capacity = mb_capacity mb box\<rparr>)))))"

fun sitas_drain_loop ::
  "'m mailbox_ops \<Rightarrow> nat \<Rightarrow> 'm \<Rightarrow> HotIndex \<Rightarrow> IngestDrainSummary \<Rightarrow> 'm \<times> HotIndex \<times> IngestDrainSummary" where
  "sitas_drain_loop mb 0 box ix summary = (box, ix, summary)"
| "sitas_drain_loop mb (Suc n) box ix summary =
     (case mb_try_recv mb box of
        (box, Inl _) \<Rightarrow> (box, ix, summary)
      | (box, Inr event) \<Rightarrow>
          let summary = summary\<lparr>id_attempted := id_attempted summary + 1\<rparr> in
          (case HotIndex_ingest event ix of
             (ix, Inr IoAccepted) \<Rightarrow>
               sitas_drain_loop mb n box ix (summary\<lparr>id_accepted := id_accepted summary + 1\<rparr>)
           | (ix, Inr IoDuplicate) \<Rightarrow>
               sitas_drain_loop mb n box ix (summary\<lparr>id_duplicates := id_duplicates summary + 1\<rparr>)
           | (ix, Inl _) \<Rightarrow>
               sitas_drain_loop mb n box ix (summary\<lparr>id_failed := id_failed summary + 1\<rparr>)))"

definition sitas_drain_shard ::
  "'m mailbox_ops \<Rightarrow> exec_call \<Rightarrow> LogicalShardId \<Rightarrow> nat \<Rightarrow> 'm SitasShardRuntime \<Rightarrow>
     'm SitasShardRuntime \<times> (SitasRuntimeError + IngestDrainSummary)" where
  "sitas_drain_shard mb call shard_id max_events rt =
     (if shard_id \<ge> length (st_indexes rt) then (rt, Err (SeRuntime (InvalidShard shard_id)))
      else
        (let (box, ix, summary) = sitas_drain_loop mb max_events (st_mailboxes rt ! shard_id) (st_indexes rt ! shard_id)
               \<lparr>id_shard_id = shard_id, id_attempted = 0, id_accepted = 0, id_duplicates = 0, id_failed = 0,
                id_remaining_depth = 0\<rparr>;
             drained = rt\<lparr>st_indexes := (st_indexes rt)[shard_id := ix], st_mailboxes := (st_mailboxes rt)[shard_id := box]\<rparr>
         in case call of
              CallNotSpawned e \<Rightarrow> (rt, Err (SeSpawn e))
            | CallNotJoined e done \<Rightarrow> (if done \<and> \<not> st_workers rt then drained else rt, Err (SeJoin e))
            | CallCompletes \<Rightarrow>
                if st_workers rt then (rt, Err SeWorkersRunning)
                else (drained,
                  case mb_snapshot mb (length (st_mailboxes rt)) shard_id of
                    Inl e \<Rightarrow> Err (SeAddressMailbox e)
                  | Inr _ \<Rightarrow> Ok (summary\<lparr>id_remaining_depth := mb_len mb box\<rparr>))))"

subsection \<open>Merging sorted lists\<close>

fun merge_by :: "('a \<Rightarrow> 'k::linorder) \<Rightarrow> 'a list \<Rightarrow> 'a list \<Rightarrow> 'a list" where
  "merge_by f [] ys = ys"
| "merge_by f xs [] = xs"
| "merge_by f (x # xs) (y # ys) = (if f x \<le> f y then x # merge_by f xs (y # ys) else y # merge_by f (x # xs) ys)"

lemma merge_by_Nil2 [simp]: "merge_by f xs [] = xs"
  by (cases xs) simp_all

lemma mset_merge_by [simp]: "mset (merge_by f xs ys) = mset xs + mset ys"
  by (induction f xs ys rule: merge_by.induct) simp_all

lemma set_merge_by [simp]: "set (merge_by f xs ys) = set xs \<union> set ys"
  by (induction f xs ys rule: merge_by.induct) auto

lemma sorted_merge_by: "sorted (map f xs) \<Longrightarrow> sorted (map f ys) \<Longrightarrow> sorted (map f (merge_by f xs ys))"
  by (induction f xs ys rule: merge_by.induct) auto

lemma filter_merge_by:
  "sorted (map f xs) \<Longrightarrow> filter (\<lambda>x. f x = k) (merge_by f xs ys) = filter (\<lambda>x. f x = k) xs @ filter (\<lambda>x. f x = k) ys"
proof (induction f xs ys rule: merge_by.induct)
  case (3 f x xs y ys)
  show ?case
  proof (cases "f x \<le> f y")
    case False
    then have "filter (\<lambda>x. f x = f y) (x # xs) = []" using 3(3) by (auto simp: filter_empty_conv)
    with 3 False show ?thesis by (cases "f y = k") auto
  qed (use 3 in auto)
qed simp_all

lemma sort_key_append: "sort_key f (xs @ ys) = merge_by f (sort_key f xs) (sort_key f ys)"
proof (rule properties_for_sort_key)
  show "filter (\<lambda>x. f k = f x) (merge_by f (sort_key f xs) (sort_key f ys)) = filter (\<lambda>x. f k = f x) (xs @ ys)" for k
    using filter_merge_by [of f "sort_key f xs" "f k" "sort_key f ys"]
    by (simp add: eq_commute [of "f k"] sort_key_stable del: filter_sort)
qed (simp_all add: sorted_merge_by)

lemma take_merge_by:
  assumes "m \<le> n"
  shows "take m (merge_by f (take n xs) ys) = take m (merge_by f xs ys)"
    and "take m (merge_by f xs (take n ys)) = take m (merge_by f xs ys)"
proof -
  show "take m (merge_by f (take n xs) ys) = take m (merge_by f xs ys)"
    using assms
  proof (induction f xs ys arbitrary: m n rule: merge_by.induct)
    case (3 f x xs y ys)
    show ?case
    proof (cases m)
      case (Suc m')
      with 3(3) obtain n' where n: "n = Suc n'" "m' \<le> n'" by (cases n) auto
      with 3(1) [of m' n'] 3(2) [of m' n] Suc show ?thesis by simp
    qed simp
  qed simp_all
  show "take m (merge_by f xs (take n ys)) = take m (merge_by f xs ys)"
    using assms
  proof (induction f xs ys arbitrary: m n rule: merge_by.induct)
    case (3 f x xs y ys)
    show ?case
    proof (cases m)
      case (Suc m')
      with 3(3) obtain n' where n: "n = Suc n'" "m' \<le> n'" by (cases n) auto
      with 3(1) [of m' n] 3(2) [of m' n'] Suc show ?thesis by simp
    qed simp
  qed simp_all
qed

text \<open>Truncating every part before the merge changes nothing in what is kept after it.\<close>

lemma take_sort_parts:
  "take n (sort_key f (concat (map (\<lambda>xs. take n (sort_key f xs)) xss))) = take n (sort_key f (concat xss))"
proof (induction xss)
  case (Cons xs xss)
  have "sorted (map f (take n (sort_key f xs)))" by (metis sorted_sort_key sorted_wrt_take take_map)
  then have "sort_key f (take n (sort_key f xs)) = take n (sort_key f xs)" by (rule sort_key_id_if_sorted)
  then have "take n (sort_key f (concat (map (\<lambda>xs. take n (sort_key f xs)) (xs # xss))))
      = take n (merge_by f (sort_key f xs) (take n (sort_key f (concat (map (\<lambda>xs. take n (sort_key f xs)) xss)))))"
    by (simp add: sort_key_append take_merge_by)
  also have "\<dots> = take n (sort_key f (concat (xs # xss)))"
    unfolding Cons by (simp add: sort_key_append take_merge_by)
  finally show ?case .
qed simp

subsection \<open>The runtime as a sharded index\<close>

definition sharded :: "'m SitasShardRuntime \<Rightarrow> ShardLocalRuntime" where
  "sharded rt = \<lparr>rt_shards = st_indexes rt\<rparr>"

lemma collect_partials_eq:
  "length acc < limit \<Longrightarrow> collect_partials limit partials acc = take limit (acc @ concat partials)"
proof (induction partials arbitrary: acc)
  case (Cons p ps)
  have "take (min (limit - length acc) (length p)) p = take (limit - length acc) p"
    by (simp add: min_def)
  moreover have "limit \<le> length acc + min (length p) (limit - length acc) \<longleftrightarrow> limit - length acc \<le> length p"
    using Cons.prems by auto
  ultimately show ?case
    using Cons.IH [of "acc @ p"] Cons.prems
    by (cases "limit - length acc \<le> length p") (simp_all add: Let_def QueryLimit_reached_def min_def)
qed simp

lemma sitas_ingest_sharded:
  "fst (sitas_ingest CallCompletes e rt) = rt\<lparr>st_indexes := rt_shards (fst (rt_ingest e (sharded rt)))\<rparr>"
  "snd (sitas_ingest CallCompletes e rt)
     = map_err (\<lambda>err. case err of ReIngest ie \<Rightarrow> SeIngest ie | err \<Rightarrow> SeRuntime err) (snd (rt_ingest e (sharded rt)))"
  by (auto simp: sitas_ingest_def rt_ingest_def with_hot_index_on_def sitas_shard_for_def rt_shard_for_def sharded_def
      Let_def case_prod_beta res_bind_def map_err_def split: sum.split)

definition sitas_ingest_all :: "PipelineEvent list \<Rightarrow> 'm SitasShardRuntime \<Rightarrow> 'm SitasShardRuntime" where
  "sitas_ingest_all evs rt = fold (\<lambda>e rt. fst (sitas_ingest CallCompletes e rt)) evs rt"

lemma sitas_ingest_step: "sharded (fst (sitas_ingest CallCompletes e rt)) = fst (rt_ingest e (sharded rt))"
  by (simp add: sitas_ingest_sharded sharded_def)

lemma sitas_ingest_all_sharded: "sharded (sitas_ingest_all evs rt) = rt_ingest_all evs (sharded rt)"
  unfolding sitas_ingest_all_def rt_ingest_all_def
  by (induction evs arbitrary: rt) (simp_all add: sitas_ingest_step)

lemma sitas_start:
  assumes "SitasShardRuntime_start mb exec_ok boxes cfg = Inr rt"
  shows "0 < sc_shard_count cfg" "sharded rt = runtime_of (sc_shard_count cfg) []"
  using assms new_runtime_of [of "sc_shard_count cfg"]
  by (auto simp: SitasShardRuntime_start_def sharded_def ShardLocalRuntime_new_def split: if_splits)

lemma sitas_started:
  assumes "SitasShardRuntime_start mb exec_ok boxes cfg = Inr rt"
  shows "st_indexes (sitas_ingest_all evs rt)
    = map (\<lambda>i. ingest_all (routed (sc_shard_count cfg) i evs) HotIndex_new) [0..<sc_shard_count cfg]"
proof -
  have "sharded (sitas_ingest_all evs rt) = runtime_of (sc_shard_count cfg) evs"
    using sitas_start [OF assms] rt_ingest_all_runtime_of [of "sc_shard_count cfg" evs "[]"]
    by (simp add: sitas_ingest_all_sharded)
  then show ?thesis by (simp add: sharded_def runtime_of_def)
qed

lemma map_sort_key_take:
  fixes f :: "'a \<Rightarrow> 'k::linorder"
  assumes "mset xs = mset ys"
  shows "map f (take n (sort_key f xs)) = map f (take n (sort_key f ys))"
proof -
  have "map f (sort_key f zs) = sort (map f zs)" for zs :: "'a list"
    by (rule properties_for_sort [symmetric]) simp_all
  moreover have "sort (map f xs) = sort (map f ys)"
    using assms by (intro properties_for_sort) simp_all
  ultimately show ?thesis by (simp flip: take_map)
qed

lemma sitas_time_range:
  assumes "SitasShardRuntime_start mb exec_ok boxes cfg = Inr rt" "consistent_ids evs" "1 \<le> tq_limit q"
  shows "sitas_events_in_time_range (Inr ()) (sitas_ingest_all evs rt) q = Inr (QEvents (take (tq_limit q)
    (sort_key pe_timestamp (sort_key (event_shard (sc_shard_count cfg))
      (filter (\<lambda>e. TimeRangeQuery_contains q (pe_timestamp e)) (log_of evs))))))"
proof -
  let ?n = "sc_shard_count cfg" and ?P = "\<lambda>e. TimeRangeQuery_contains q (pe_timestamp e)"
  note shard = index_of_shard [of ?n _ evs, unfolded log_of_routed [OF assms(2)]]
  have "map result_events (map (\<lambda>ix. events_in_time_range ix q) (st_indexes (sitas_ingest_all evs rt)))
      = map (\<lambda>xs. take (tq_limit q) (sort_key pe_timestamp xs)) (map (\<lambda>i. filter ?P (routed ?n i (log_of evs))) [0..<?n])"
    using assms(3) by (simp add: sitas_started [OF assms(1)] events_in_time_range_log [OF shard])
  moreover have "concat (map (\<lambda>i. filter ?P (routed ?n i (log_of evs))) [0..<?n]) = sort_key (event_shard ?n) (filter ?P (log_of evs))"
    unfolding concat_routed [OF sitas_start(1) [OF assms(1)], symmetric]
    by (simp add: routed_def conj_commute)
  ultimately show ?thesis
    by (simp add: sitas_events_in_time_range_def map_hot_indexes_def take_sort_parts del: map_map)
qed

subsection \<open>Mailboxes as queues\<close>

text \<open>
  The documented behaviour of a Sitas mailbox: \<open>q\<close> reads the events it holds. A send appends when
  there is room and is refused as full otherwise, a receive takes the first event, and \<open>len\<close> and
  \<open>capacity\<close> report the queue; nothing closes the mailbox of a running runtime; and every shard of the
  set can be addressed.
\<close>

definition mailbox_fifo :: "'m mailbox_ops \<Rightarrow> ('m \<Rightarrow> PipelineEvent list) \<Rightarrow> bool" where
  "mailbox_fifo mb q \<longleftrightarrow>
     (\<forall>cap. q (mb_new mb cap) = [] \<and> mb_capacity mb (mb_new mb cap) = cap) \<and>
     (\<forall>box e. case mb_try_send mb box e of
        (box', Inr _) \<Rightarrow> length (q box) < mb_capacity mb box \<and> q box' = q box @ [e] \<and> mb_capacity mb box' = mb_capacity mb box
      | (box', Inl err) \<Rightarrow> err = SendFull \<and> mb_capacity mb box \<le> length (q box) \<and> q box' = q box
          \<and> mb_capacity mb box' = mb_capacity mb box) \<and>
     (\<forall>box. case mb_try_recv mb box of
        (box', Inr e) \<Rightarrow> q box = e # q box' \<and> mb_capacity mb box' = mb_capacity mb box
      | (box', Inl _) \<Rightarrow> q box = [] \<and> q box' = [] \<and> mb_capacity mb box' = mb_capacity mb box) \<and>
     (\<forall>box. mb_len mb box = length (q box)) \<and>
     (\<forall>n i. i < n \<longrightarrow> mb_receiver_for mb n i = Ok () \<and> mb_sender_to mb n i = Ok () \<and> mb_snapshot mb n i = Ok ())"

lemma mailbox_addressed:
  "mailbox_fifo mb q \<Longrightarrow> i < n \<Longrightarrow> mb_receiver_for mb n i = Ok () \<and> mb_sender_to mb n i = Ok () \<and> mb_snapshot mb n i = Ok ()"
  by (simp add: mailbox_fifo_def)

lemma mailbox_sendD:
  assumes "mailbox_fifo mb q" "mb_try_send mb box e = (box', r)"
  shows "mb_capacity mb box' = mb_capacity mb box"
    "r = (if length (q box) < mb_capacity mb box then Inr () else Inl SendFull)"
    "q box' = (if length (q box) < mb_capacity mb box then q box @ [e] else q box)"
proof -
  from assms(1) have "case mb_try_send mb box e of
        (box', Inr _) \<Rightarrow> length (q box) < mb_capacity mb box \<and> q box' = q box @ [e] \<and> mb_capacity mb box' = mb_capacity mb box
      | (box', Inl err) \<Rightarrow> err = SendFull \<and> mb_capacity mb box \<le> length (q box) \<and> q box' = q box
          \<and> mb_capacity mb box' = mb_capacity mb box" by (simp add: mailbox_fifo_def)
  then show "mb_capacity mb box' = mb_capacity mb box"
    "r = (if length (q box) < mb_capacity mb box then Inr () else Inl SendFull)"
    "q box' = (if length (q box) < mb_capacity mb box then q box @ [e] else q box)"
    unfolding assms(2) by (auto split: sum.splits)
qed

lemma mailbox_recvD:
  assumes "mailbox_fifo mb q" "mb_try_recv mb box = (box', r)"
  shows "mb_capacity mb box' = mb_capacity mb box"
    "case r of Inr e \<Rightarrow> q box = e # q box' | Inl _ \<Rightarrow> q box = [] \<and> q box' = []"
proof -
  from assms(1) have "case mb_try_recv mb box of
        (box', Inr e) \<Rightarrow> q box = e # q box' \<and> mb_capacity mb box' = mb_capacity mb box
      | (box', Inl _) \<Rightarrow> q box = [] \<and> q box' = [] \<and> mb_capacity mb box' = mb_capacity mb box"
    by (simp add: mailbox_fifo_def)
  then show "mb_capacity mb box' = mb_capacity mb box"
    "case r of Inr e \<Rightarrow> q box = e # q box' | Inl _ \<Rightarrow> q box = [] \<and> q box' = []"
    unfolding assms(2) by (auto split: sum.splits)
qed

definition sitas_rel :: "'m mailbox_ops \<Rightarrow> ('m \<Rightarrow> PipelineEvent list) \<Rightarrow> 'm SitasShardRuntime \<Rightarrow> BoundedIngestRuntime \<Rightarrow> bool" where
  "sitas_rel mb q rt bi \<longleftrightarrow>
     \<not> st_workers rt \<and> st_indexes rt = rt_shards (bi_runtime bi) \<and> map q (st_mailboxes rt) = bi_queues bi \<and>
     list_all (\<lambda>box. mb_capacity mb box = bi_per_shard_capacity bi) (st_mailboxes rt)"

fun to_sitas_error :: "RuntimeError \<Rightarrow> SitasRuntimeError" where
  "to_sitas_error (ReIngest e) = SeIngest e"
| "to_sitas_error e = SeRuntime e"

lemma sitas_rel_start:
  assumes "mailbox_fifo mb q" "SitasShardRuntime_start mb (Inr ()) (Inr ()) cfg = Inr rt"
  shows "\<exists>bi. BoundedIngestRuntime_new (sc_shard_count cfg) (sc_mailbox_capacity_per_shard cfg) = Inr bi \<and> sitas_rel mb q rt bi"
  using assms
  by (auto simp: SitasShardRuntime_start_def BoundedIngestRuntime_new_def ShardLocalRuntime_new_def sitas_rel_def
      mailbox_fifo_def list_all_iff split: if_splits)

lemma list_all_update: "list_all P xs \<Longrightarrow> P x \<Longrightarrow> list_all P (xs[i := x])"
  by (auto simp: list_all_iff dest!: set_update_subset_insert [THEN subsetD])

lemma sitas_submit_sim:
  assumes "mailbox_fifo mb q" "sitas_rel mb q rt bi" "bounded_of cap n bi subs"
  shows "sitas_rel mb q (fst (sitas_try_submit mb e rt)) (fst (bi_submit e bi)) \<and>
    snd (sitas_try_submit mb e rt) = map_err to_sitas_error (snd (bi_submit e bi))"
proof (cases "PipelineEvent_validate e")
  case (Inl err)
  with assms(2) show ?thesis by (simp add: sitas_try_submit_def bi_submit_def)
next
  case (Inr u)
  let ?i = "rt_shard_for (bi_runtime bi) (pe_process_instance_id e)"
  have n: "length (st_mailboxes rt) = n" "length (rt_shards (bi_runtime bi)) = n" "0 < n"
    using assms(2,3) by (auto simp: sitas_rel_def bounded_of_def dest: arg_cong [where f = length])
  then have i: "?i < length (st_mailboxes rt)" by (simp add: rt_shard_for_def)
  have qi: "q (st_mailboxes rt ! ?i) = bi_queues bi ! ?i"
    using assms(2) i by (metis nth_map sitas_rel_def)
  have ci: "mb_capacity mb (st_mailboxes rt ! ?i) = bi_per_shard_capacity bi"
    using assms(2) i by (simp add: sitas_rel_def list_all_length)
  obtain box r where send: "mb_try_send mb (st_mailboxes rt ! ?i) e = (box, r)" by fastforce
  note s = mailbox_sendD [OF assms(1) send, unfolded qi ci]
  have len: "mb_len mb box = length (q box)" using assms(1) by (simp add: mailbox_fifo_def)
  have shard: "sitas_shard_for rt (pe_process_instance_id e) = ?i"
    using assms(2) by (simp add: sitas_shard_for_def rt_shard_for_def sitas_rel_def)
  have upd: "map q ((st_mailboxes rt)[?i := box]) = (bi_queues bi)[?i := q box]"
    using assms(2) by (simp add: map_update sitas_rel_def)
  have same: "(bi_queues bi)[?i := bi_queues bi ! ?i] = bi_queues bi" by simp
  show ?thesis
    using Inr assms(2) s upd mailbox_addressed [OF assms(1) i]
    by (auto simp: sitas_try_submit_def bi_submit_def shard send Let_def len sitas_rel_def list_all_update same not_le
        split: if_splits)
qed

text \<open>Draining a mailbox counts and ingests as draining the queue of the bounded runtime.\<close>

lemma sitas_drain_loop_spec:
  assumes "mailbox_fifo mb q" "i < length (rt_shards r)" "rt_shards r ! i = ix"
    and "list_all (\<lambda>e. event_shard (length (rt_shards r)) e = i) (q box)"
  shows "\<exists>box' s'. sitas_drain_loop mb m box ix s = (box', ingest_all (take m (q box)) ix, s') \<and>
    q box' = drop m (q box) \<and> mb_capacity mb box' = mb_capacity mb box \<and>
    drain_queue m (q box) r s = (drop m (q box),
      r\<lparr>rt_shards := (rt_shards r)[i := ingest_all (take m (q box)) ix]\<rparr>,
      Inr (s'\<lparr>id_remaining_depth := length (drop m (q box))\<rparr>))"
  using assms(2-)
proof (induction m arbitrary: box ix s r)
  case 0
  then show ?case by (auto simp: ingest_all_def)
next
  case (Suc m)
  obtain box1 rv where recv: "mb_try_recv mb box = (box1, rv)" by fastforce
  note d = mailbox_recvD [OF assms(1) recv]
  show ?case
  proof (cases rv)
    case (Inl err)
    with Suc.prems recv d show ?thesis by (auto simp: ingest_all_def)
  next
    case (Inr e)
    then have qb: "q box = e # q box1" using d(2) by simp
    obtain ix1 res where ing: "HotIndex_ingest e ix = (ix1, res)" by fastforce
    let ?r = "r\<lparr>rt_shards := (rt_shards r)[i := ix1]\<rparr>"
    have shard: "rt_shard_for r (pe_process_instance_id e) = i"
      using Suc.prems(3) qb by (simp add: rt_shard_for_def event_shard_def)
    have rti: "rt_ingest e r = (?r, res_bind (map_err ReIngest res) (\<lambda>o'. Inr \<lparr>sio_shard_id = i, sio_outcome = o'\<rparr>))"
      using Suc.prems(2) by (simp add: rt_ingest_def shard Let_def ing)
    have prems: "i < length (rt_shards ?r)" "rt_shards ?r ! i = ix1"
      "list_all (\<lambda>e. event_shard (length (rt_shards ?r)) e = i) (q box1)"
      using Suc.prems qb by simp_all
    have ia: "ingest_all (take (Suc m) (q box)) ix = ingest_all (take m (q box1)) ix1"
      using ing by (simp add: qb ingest_all_def)
    let ?s = "s\<lparr>id_attempted := id_attempted s + 1\<rparr>"
    let ?s1 = "case res of Inr IoAccepted \<Rightarrow> ?s\<lparr>id_accepted := id_accepted ?s + 1\<rparr>
      | Inr IoDuplicate \<Rightarrow> ?s\<lparr>id_duplicates := id_duplicates ?s + 1\<rparr> | Inl _ \<Rightarrow> ?s\<lparr>id_failed := id_failed ?s + 1\<rparr>"
    from Suc.IH [OF prems, of ?s1] recv Inr ing rti d(1) show ?thesis
      unfolding ia by (auto simp: qb Let_def split: sum.splits IngestOutcome.splits)
  qed
qed

lemma drain_queue_depth: "drain_queue m xs r (s\<lparr>id_remaining_depth := k\<rparr>) = drain_queue m xs r s"
proof (induction m xs r s rule: drain_queue.induct)
  case (3 m e xs r s)
  obtain i a b c d k' where s: "s = \<lparr>id_shard_id = i, id_attempted = a, id_accepted = b, id_duplicates = c,
      id_failed = d, id_remaining_depth = k'\<rparr>" by (cases s)
  obtain r' res where ing: "rt_ingest e r = (r', res)" by fastforce
  show ?case
  proof (cases res)
    case (Inl err)
    with 3 ing show ?thesis by (cases err) (simp_all add: s Let_def)
  next
    case (Inr out)
    with 3 ing show ?thesis by (cases "sio_outcome out") (simp_all add: s Let_def)
  qed
qed simp_all

lemma sitas_drain_sim:
  assumes "mailbox_fifo mb q" "sitas_rel mb q rt bi" "bounded_of cap n bi subs"
  shows "sitas_rel mb q (fst (sitas_drain_shard mb CallCompletes i m rt)) (fst (drain_shard i m bi)) \<and>
    snd (sitas_drain_shard mb CallCompletes i m rt) = map_err to_sitas_error (snd (drain_shard i m bi))"
proof (cases "i < n")
  case True
  have len: "length (st_mailboxes rt) = n" "length (rt_shards (bi_runtime bi)) = n" "length (bi_queues bi) = n"
    using assms(2,3) by (auto simp: sitas_rel_def bounded_of_def dest: arg_cong [where f = length])
  have idx: "st_indexes rt = rt_shards (bi_runtime bi)" "\<not> st_workers rt" using assms(2) by (simp_all add: sitas_rel_def)
  have qi: "q (st_mailboxes rt ! i) = bi_queues bi ! i"
    using assms(2) True len(1) by (metis nth_map sitas_rel_def)
  obtain d where "routed n i subs = d @ bi_queues bi ! i" using assms(3) True by (auto simp: bounded_of_def)
  then have "set (bi_queues bi ! i) \<subseteq> set (routed n i subs)" by simp
  then have routes: "list_all (\<lambda>e. event_shard (length (rt_shards (bi_runtime bi))) e = i) (q (st_mailboxes rt ! i))"
    using len(2) qi by (auto simp: routed_def list_all_iff)
  let ?s = "\<lparr>id_shard_id = i, id_attempted = 0, id_accepted = 0, id_duplicates = 0, id_failed = 0, id_remaining_depth = 0\<rparr>"
  from sitas_drain_loop_spec [OF assms(1) _ refl routes, of m ?s] True len(2)
  obtain box' s' where loop: "sitas_drain_loop mb m (st_mailboxes rt ! i) (st_indexes rt ! i) ?s
      = (box', ingest_all (take m (bi_queues bi ! i)) (rt_shards (bi_runtime bi) ! i), s')"
    and box': "q box' = drop m (bi_queues bi ! i)" "mb_capacity mb box' = mb_capacity mb (st_mailboxes rt ! i)"
    and dq: "drain_queue m (bi_queues bi ! i) (bi_runtime bi) ?s = (drop m (bi_queues bi ! i),
      (bi_runtime bi)\<lparr>rt_shards := (rt_shards (bi_runtime bi))[i := ingest_all (take m (bi_queues bi ! i)) (rt_shards (bi_runtime bi) ! i)]\<rparr>,
      Inr (s'\<lparr>id_remaining_depth := length (drop m (bi_queues bi ! i))\<rparr>))"
    unfolding qi idx(1) by auto
  have "mb_len mb box' = length (drop m (bi_queues bi ! i))" using assms(1) box'(1) by (simp add: mailbox_fifo_def)
  moreover have "map q ((st_mailboxes rt)[i := box']) = (bi_queues bi)[i := drop m (bi_queues bi ! i)]"
    using assms(2) box'(1) by (simp add: map_update sitas_rel_def)
  moreover have "mb_capacity mb box' = bi_per_shard_capacity bi"
    using assms(2) True len(1) box'(2) by (simp add: sitas_rel_def list_all_length)
  ultimately show ?thesis
    using assms(2) True len dq mailbox_addressed [OF assms(1), of i n] drain_queue_depth [of m "bi_queues bi ! i" "bi_runtime bi" "length (bi_queues bi ! i)" ?s]
    by (simp add: sitas_drain_shard_def drain_shard_def idx loop [unfolded idx(1)] Let_def sitas_rel_def list_all_update)
next
  case False
  then show ?thesis using assms(2,3) by (simp add: sitas_drain_shard_def drain_shard_def sitas_rel_def bounded_of_def)
qed

subsection \<open>Properties\<close>

text \<open>
  With executor calls that complete, the Sitas runtime answers as a single hot index. When
  events of one id belong to one process instance, questions about a process instance and its
  events have the same answers, and a time range returns events of the range with the same
  timestamps in the same order: the earliest ones up to the limit, unlike the fan-out of the
  dependency-free runtime.
\<close>

theorem sitas_equals_single_index:
  assumes "SitasShardRuntime_start mb (Ok ()) (Ok ()) cfg = Ok rt" "consistent_ids evs" "1 \<le> tq_limit tq"
  defines "sitas \<equiv> sitas_ingest_all evs rt" and "ix \<equiv> ingest_all evs HotIndex_new"
  shows "sitas_process_instance CallCompletes sitas iq = Ok (process_instance ix iq) \<and>
    sitas_events CallCompletes sitas eq = Ok (events_query ix eq) \<and>
    (\<exists>xs ys. sitas_events_in_time_range (Ok ()) sitas tq = Ok (QEvents xs) \<and> events_in_time_range ix tq = QEvents ys \<and>
      map pe_timestamp xs = map pe_timestamp ys \<and>
      set xs \<subseteq> {e \<in> set (fold log_accept evs []). TimeRangeQuery_contains tq (pe_timestamp e)})"
proof -
  note n = sitas_start [OF assms(1)]
  have sh: "sharded sitas = runtime_of (sc_shard_count cfg) evs"
    using n(2) rt_ingest_all_runtime_of [OF n(1), of evs "[]"] by (simp add: sitas_def sitas_ingest_all_sharded)
  have idx: "st_indexes sitas = rt_shards (runtime_of (sc_shard_count cfg) evs)"
    using sh by (simp add: sharded_def flip: sh)
  have "sitas_process_instance CallCompletes sitas iq = Ok (rt_process_instance (runtime_of (sc_shard_count cfg) evs) iq)"
    "sitas_events CallCompletes sitas eq = Ok (rt_events (runtime_of (sc_shard_count cfg) evs) eq)"
    by (simp_all add: sitas_process_instance_def sitas_events_def sitas_query_def with_hot_index_on_def
        sitas_shard_for_def rt_process_instance_def rt_events_def rt_shard_for_def idx Let_def)
  moreover have "events_in_time_range ix tq = QEvents (take (tq_limit tq) (sort_key pe_timestamp
      (filter (\<lambda>e. TimeRangeQuery_contains tq (pe_timestamp e)) (log_of evs))))"
    unfolding ix_def by (rule events_in_time_range_log [OF index_of_ingest_all [OF index_of_new] assms(3)])
  ultimately show ?thesis
    using sitas_time_range [OF assms(1-3)] rt_process_queries [OF n(1) assms(2)]
    by (auto simp: sitas_def ix_def dest!: in_set_takeD intro!: map_sort_key_take)
qed

text \<open>
  (C13) The Sitas mailboxes implement the bounded ingest runtime: over mailboxes that behave as
  bounded queues, a freshly started Sitas runtime corresponds to a fresh bounded runtime, and every
  submission and every completed manual drain keeps the correspondence and has the same outcome,
  the same summary or the same refusal.
\<close>

theorem sitas_refines_bounded:
  assumes "mailbox_fifo mb q"
  shows "(SitasShardRuntime_start mb (Ok ()) (Ok ()) cfg = Ok rt0 \<longrightarrow>
      (\<exists>bi. BoundedIngestRuntime_new (sc_shard_count cfg) (sc_mailbox_capacity_per_shard cfg) = Ok bi \<and> sitas_rel mb q rt0 bi)) \<and>
    (sitas_rel mb q rt bi \<and> bi_run cap n bi subs \<longrightarrow>
      sitas_rel mb q (fst (sitas_try_submit mb e rt)) (fst (bi_submit e bi)) \<and>
      snd (sitas_try_submit mb e rt) = map_err to_sitas_error (snd (bi_submit e bi)) \<and>
      sitas_rel mb q (fst (sitas_drain_shard mb CallCompletes i m rt)) (fst (drain_shard i m bi)) \<and>
      snd (sitas_drain_shard mb CallCompletes i m rt) = map_err to_sitas_error (snd (drain_shard i m bi)))"
  using sitas_rel_start [OF assms, of cfg rt0] sitas_submit_sim [OF assms, of rt bi cap n subs e]
    sitas_drain_sim [OF assms, of rt bi cap n subs i m] bi_run_bounded [of cap n bi subs] by blast

text \<open>A mailbox that behaves as documented: a capacity and a list.\<close>

definition list_mailbox :: "(nat \<times> PipelineEvent list) mailbox_ops" where
  "list_mailbox =
     \<lparr>mb_new = (\<lambda>cap. (cap, [])),
      mb_receiver_for = (\<lambda>n i. if i < n then Ok () else Err ''unknown shard''),
      mb_sender_to = (\<lambda>n i. if i < n then Ok () else Err ''unknown shard''),
      mb_snapshot = (\<lambda>n i. if i < n then Ok () else Err ''unknown shard''),
      mb_try_send = (\<lambda>(cap, es) e. if length es < cap then ((cap, es @ [e]), Inr ()) else ((cap, es), Inl SendFull)),
      mb_try_recv = (\<lambda>(cap, es). case es of [] \<Rightarrow> ((cap, []), Inl RecvEmpty) | e # es \<Rightarrow> ((cap, es), Inr e)),
      mb_len = (\<lambda>(cap, es). length es),
      mb_capacity = fst\<rparr>"

lemma list_mailbox_fifo: "mailbox_fifo list_mailbox snd"
  by (auto simp: mailbox_fifo_def list_mailbox_def split: list.split)

lemma receivers_addressed: "mailbox_fifo mb q \<Longrightarrow> address_all (mb_receiver_for mb n) [0..<n] = Ok ()"
  by (simp add: address_all_ok mailbox_addressed)

lemma sitas_refines_bounded_witness:
  "\<exists>rt bi. SitasShardRuntime_start list_mailbox (Ok ()) (Ok ()) (SitasRuntimeConfig_new 2 4) = Ok rt \<and>
     BoundedIngestRuntime_new 2 4 = Ok bi \<and> bi_run 4 2 bi [] \<and>
     snd (sitas_drain_shard list_mailbox CallCompletes 0 3 rt) = map_err to_sitas_error (snd (drain_shard 0 3 bi))"
proof -
  obtain rt where rt: "SitasShardRuntime_start list_mailbox (Ok ()) (Ok ()) (SitasRuntimeConfig_new 2 4) = Ok rt"
    by (simp add: SitasShardRuntime_start_def SitasRuntimeConfig_new_def receivers_addressed [OF list_mailbox_fifo])
  from sitas_refines_bounded [OF list_mailbox_fifo, THEN conjunct1, rule_format, OF rt]
  obtain bi where bi: "BoundedIngestRuntime_new 2 4 = Ok bi" "sitas_rel list_mailbox snd rt bi"
    by (auto simp: SitasRuntimeConfig_new_def)
  then have run: "bi_run 4 2 bi []" by (intro bi_run.bi_created)
  from sitas_refines_bounded [OF list_mailbox_fifo, THEN conjunct2, rule_format, OF conjI [OF bi(2) run], of _ 0 3] rt bi run
  show ?thesis by blast
qed

end
