(* ===== verification/Placement.thy ===== *)
theory Placement
  imports Data_Event Storage
begin

text \<open>
  The placement of data individuals on Ipto instances, from \<open>src/cluster.rs\<close>: the consistent-hash
  ring (\<open>IptoPlacementSlot\<close>, \<open>IptoPlacementRing\<close>, \<open>ring_hash\<close>), range overrides and the placement
  map that combines them. Resolution on the ring is specified by the clockwise distance, the
  wrapping subtraction of two 64-bit positions: the owner is the first listed of the points at
  the least distance. From that follow that a new slot takes shards only for itself, and that
  resolution is constant between the interval starts the map reports.
\<close>

type_synonym IptoInstanceId = string
type_synonym PlacementEpoch = u64
type_synonym LeaseEpoch = u64
type_synonym CheckpointEpoch = u64

datatype ClusterControlError =
  NoPlacementSlots
| ZeroVnodes string
| InvalidPlacementRange DataIndividualShardId DataIndividualShardId
| OverlappingPlacementRanges DataIndividualShardId DataIndividualShardId DataIndividualShardId DataIndividualShardId
| StalePlacementEpoch PlacementEpoch PlacementEpoch
| UnknownLeaseHolder NodeId
| StaleLeaseEpoch IptoInstanceId LeaseEpoch LeaseEpoch
| StaleCheckpointEpoch DataIndividualShardId IptoInstanceId CheckpointEpoch CheckpointEpoch
| StaleCheckpointManifest string CheckpointEpoch CheckpointEpoch

record IptoPlacementSlot =
  sl_instance :: IptoInstanceId
  sl_vnodes :: u32

definition IptoPlacementSlot_new :: "IptoInstanceId \<Rightarrow> u32 \<Rightarrow> ClusterControlError + IptoPlacementSlot" where
  "IptoPlacementSlot_new i vnodes =
     (if vnodes = 0 then Err (ZeroVnodes i) else Ok \<lparr>sl_instance = i, sl_vnodes = vnodes\<rparr>)"

subsection \<open>The ring\<close>

record RingPoint =
  rg_position :: u64
  rg_instance :: IptoInstanceId

record IptoPlacementRing =
  ring_epoch :: PlacementEpoch
  ring_points :: "RingPoint list"

definition ring_hash :: "string \<Rightarrow> u32 \<Rightarrow> u64" where
  "ring_hash i vnode_idx =
     foldl fnv_step (foldl fnv_step 0xcbf29ce484222325 (as_bytes i)) (to_le_bytes 4 vnode_idx)"

definition slot_points :: "IptoPlacementSlot \<Rightarrow> RingPoint list" where
  "slot_points slot =
     map (\<lambda>vnode_idx. \<lparr>rg_position = ring_hash (sl_instance slot) (of_nat vnode_idx),
                       rg_instance = sl_instance slot\<rparr>)
       [0..<unat (sl_vnodes slot)]"

definition IptoPlacementRing_new :: "PlacementEpoch \<Rightarrow> IptoPlacementSlot list \<Rightarrow> IptoPlacementRing" where
  "IptoPlacementRing_new epoch slots =
     \<lparr>ring_epoch = epoch, ring_points = sort_key rg_position (concat (map slot_points slots))\<rparr>"

text \<open>
  \<open>partition_point\<close> on a slice whose elements with the property come first: their number. The
  points are sorted, so they are partitioned by every upper bound on the position.
\<close>

definition partition_point :: "('a \<Rightarrow> bool) \<Rightarrow> 'a list \<Rightarrow> nat" where
  "partition_point p xs = length (takeWhile p xs)"

definition ring_resolve :: "IptoPlacementRing \<Rightarrow> DataIndividualShardId \<Rightarrow> IptoInstanceId option" where
  "ring_resolve ring shard_id =
     (if ring_points ring = [] then None
      else
        let idx = partition_point (\<lambda>point. rg_position point < shard_id) (ring_points ring)
        in Some (rg_instance (ring_points ring ! (idx mod length (ring_points ring)))))"

fun first_seen :: "'a fset \<Rightarrow> 'a list \<Rightarrow> 'a list" where
  "first_seen seen [] = []"
| "first_seen seen (x # xs) =
     (if x |\<in>| seen then first_seen seen xs else x # first_seen (finsert x seen) xs)"

definition ring_instances :: "IptoPlacementRing \<Rightarrow> IptoInstanceId list" where
  "ring_instances ring = first_seen {||} (map rg_instance (ring_points ring))"

subsection \<open>Placement maps\<close>

record IptoPlacementRange =
  rn_start :: DataIndividualShardId
  rn_end :: DataIndividualShardId
  rn_target :: IptoInstanceId

definition IptoPlacementRange_new ::
  "DataIndividualShardId \<Rightarrow> DataIndividualShardId \<Rightarrow> IptoInstanceId \<Rightarrow> ClusterControlError + IptoPlacementRange" where
  "IptoPlacementRange_new start end' target =
     (if end' < start then Err (InvalidPlacementRange start end')
      else Ok \<lparr>rn_start = start, rn_end = end', rn_target = target\<rparr>)"

definition IptoPlacementRange_contains :: "IptoPlacementRange \<Rightarrow> DataIndividualShardId \<Rightarrow> bool" where
  "IptoPlacementRange_contains r shard_id \<longleftrightarrow> rn_start r \<le> shard_id \<and> shard_id \<le> rn_end r"

record IptoPlacementMap =
  pm_epoch :: PlacementEpoch
  pm_slots :: "IptoPlacementSlot list"
  pm_ring :: IptoPlacementRing
  pm_overrides :: "IptoPlacementRange list"

text \<open>The check of \<open>windows(2)\<close>: the first pair of neighbours that overlap.\<close>

fun check_overlaps :: "IptoPlacementRange list \<Rightarrow> ClusterControlError + unit" where
  "check_overlaps (left # right # rs) =
     (if rn_start right \<le> rn_end left
      then Err (OverlappingPlacementRanges (rn_start left) (rn_end left) (rn_start right) (rn_end right))
      else check_overlaps (right # rs))"
| "check_overlaps _ = Ok ()"

definition IptoPlacementMap_new ::
  "PlacementEpoch \<Rightarrow> IptoPlacementSlot list \<Rightarrow> IptoPlacementRange list \<Rightarrow> ClusterControlError + IptoPlacementMap" where
  "IptoPlacementMap_new epoch slots overrides =
     (if slots = [] then Err NoPlacementSlots
      else
        let sorted_overrides = sort_key rn_start overrides in
        res_bind (check_overlaps sorted_overrides) (\<lambda>_.
        Ok \<lparr>pm_epoch = epoch, pm_slots = slots, pm_ring = IptoPlacementRing_new epoch slots,
            pm_overrides = sorted_overrides\<rparr>))"

fun first_override :: "IptoPlacementRange list \<Rightarrow> DataIndividualShardId \<Rightarrow> IptoInstanceId option" where
  "first_override [] shard_id = None"
| "first_override (r # rs) shard_id =
     (if IptoPlacementRange_contains r shard_id then Some (rn_target r) else first_override rs shard_id)"

definition map_resolve :: "IptoPlacementMap \<Rightarrow> DataIndividualShardId \<Rightarrow> IptoInstanceId option" where
  "map_resolve m shard_id =
     (case first_override (pm_overrides m) shard_id of
        Some target \<Rightarrow> Some target
      | None \<Rightarrow> ring_resolve (pm_ring m) shard_id)"

definition interval_starts :: "IptoPlacementMap \<Rightarrow> u64 fset" where
  "interval_starts m =
     fset_of_list (0
       # List.map_filter (\<lambda>point. u64_checked_add (rg_position point) 1) (ring_points (pm_ring m))
       @ concat (map (\<lambda>r. rn_start r #
           (case u64_checked_add (rn_end r) 1 of None \<Rightarrow> [] | Some after \<Rightarrow> [after])) (pm_overrides m)))"

definition map_instances :: "IptoPlacementMap \<Rightarrow> IptoInstanceId list" where
  "map_instances m =
     sorted_list_of_set (set (ring_instances (pm_ring m) @ map rn_target (pm_overrides m)))"

subsection \<open>Clockwise distance\<close>

text \<open>\<open>clockwise s p\<close>: how far \<open>p\<close> lies after \<open>s\<close> on the ring, by wrapping subtraction.\<close>

definition clockwise :: "u64 \<Rightarrow> u64 \<Rightarrow> u64" where
  "clockwise s p = p - s"

lemma clockwise_inject [simp]: "clockwise s p = clockwise s q \<longleftrightarrow> p = q"
  by (simp add: clockwise_def)

lemma unat_clockwise:
  "unat (clockwise s p) = (if s \<le> p then unat p - unat s else 2 ^ 64 - unat s + unat p)"
proof (cases "s \<le> p")
  case True
  then show ?thesis by (simp add: clockwise_def unat_sub)
next
  case False
  then have "unat p < unat s" by (simp add: word_le_nat_alt)
  moreover have "unat s < 2 ^ 64" "unat p < 2 ^ 64"
    using unsigned_less [of s] unsigned_less [of p] by simp_all
  ultimately show ?thesis
    using False by (simp add: clockwise_def unat_sub_if' word_le_nat_alt)
qed

lemma clockwise_le:
  "clockwise s p \<le> clockwise s q \<longleftrightarrow>
     (if s \<le> p then \<not> s \<le> q \<or> p \<le> q else \<not> s \<le> q \<and> p \<le> q)"
proof -
  have "unat s < 2 ^ 64" "unat p < 2 ^ 64" "unat q < 2 ^ 64"
    using unsigned_less [of s] unsigned_less [of p] unsigned_less [of q] by simp_all
  then show ?thesis
    by (auto simp: word_le_nat_alt [of "clockwise s p"] unat_clockwise) (auto simp: word_le_nat_alt)
qed

text \<open>The first listed point at the least clockwise distance.\<close>

definition nearest :: "u64 \<Rightarrow> RingPoint list \<Rightarrow> RingPoint" where
  "nearest s pts = hd (filter (\<lambda>p. \<forall>q \<in> set pts. clockwise s (rg_position p) \<le> clockwise s (rg_position q)) pts)"

text \<open>The points of a slot configuration, before sorting.\<close>

definition all_points :: "IptoPlacementSlot list \<Rightarrow> RingPoint list" where
  "all_points slots = concat (map slot_points slots)"

lemma nearest_exists:
  "pts \<noteq> [] \<Longrightarrow> \<exists>p \<in> set pts. \<forall>q \<in> set pts. clockwise s (rg_position p) \<le> clockwise s (rg_position q)"
proof -
  assume "pts \<noteq> []"
  let ?d = "\<lambda>p. clockwise s (rg_position p)"
  have "Min (?d ` set pts) \<in> ?d ` set pts" using \<open>pts \<noteq> []\<close> by (intro Min_in) auto
  then obtain p where p: "p \<in> set pts" "?d p = Min (?d ` set pts)" by auto
  have "\<forall>q \<in> set pts. ?d p \<le> ?d q" unfolding p(2) by simp
  with p(1) show ?thesis by blast
qed

lemma nearest_filter:
  assumes "p \<in> set pts" "\<forall>q \<in> set pts. clockwise s (rg_position p) \<le> clockwise s (rg_position q)"
  shows "nearest s pts = hd (filter (\<lambda>x. rg_position x = rg_position p) pts)"
proof -
  have "(\<forall>q \<in> set pts. clockwise s (rg_position x) \<le> clockwise s (rg_position q)) \<longleftrightarrow> rg_position x = rg_position p"
    if "x \<in> set pts" for x
    using assms that by (metis antisym clockwise_inject)
  then show ?thesis unfolding nearest_def by (intro arg_cong [where f = hd] filter_cong) auto
qed

lemma nearest_props:
  assumes "pts \<noteq> []"
  shows "nearest s pts \<in> set pts"
    and "\<forall>q \<in> set pts. clockwise s (rg_position (nearest s pts)) \<le> clockwise s (rg_position q)"
proof -
  let ?P = "\<lambda>p. \<forall>q \<in> set pts. clockwise s (rg_position p) \<le> clockwise s (rg_position q)"
  have "filter ?P pts \<noteq> []" using nearest_exists [OF assms, of s] by (simp add: filter_empty_conv)
  then have "nearest s pts \<in> set (filter ?P pts)" unfolding nearest_def by (rule hd_in_set)
  then show "nearest s pts \<in> set pts" "?P (nearest s pts)" by simp_all
qed

lemma nearest_sort: "pts \<noteq> [] \<Longrightarrow> nearest s (sort_key rg_position pts) = nearest s pts"
proof -
  assume "pts \<noteq> []"
  then obtain p where p: "p \<in> set pts"
      "\<forall>q \<in> set pts. clockwise s (rg_position p) \<le> clockwise s (rg_position q)"
    using nearest_exists by blast
  then have "nearest s (sort_key rg_position pts)
      = hd (filter (\<lambda>x. rg_position x = rg_position p) (sort_key rg_position pts))"
    by (intro nearest_filter) simp_all
  also have "\<dots> = nearest s pts"
    unfolding sort_key_stable by (rule nearest_filter [OF p, symmetric])
  finally show ?thesis .
qed

lemma ring_resolve_sorted:
  assumes "sorted (map rg_position pts)" "pts \<noteq> []"
  shows "ring_resolve \<lparr>ring_epoch = e, ring_points = pts\<rparr> s = Some (rg_instance (nearest s pts))"
proof -
  let ?lt = "\<lambda>p. rg_position p < s"
  define idx where "idx = partition_point ?lt pts"
  have tw: "takeWhile ?lt pts = take idx pts"
    unfolding idx_def partition_point_def by (rule takeWhile_eq_take)
  have "nearest s pts = pts ! (idx mod length pts)"
  proof (cases "idx = length pts")
    case True
    then have low: "\<forall>q \<in> set pts. rg_position q < s"
      using tw by (metis set_takeWhileD take_all order_refl)
    obtain p ps where pts: "pts = p # ps" using assms(2) by (cases pts) auto
    then have "\<forall>q \<in> set pts. rg_position p \<le> rg_position q" using assms(1) by auto
    with low pts have "\<forall>q \<in> set pts. clockwise s (rg_position p) \<le> clockwise s (rg_position q)"
      by (auto simp: clockwise_le not_le)
    with nearest_filter [of p pts s] pts True show ?thesis by simp
  next
    case False
    then have idx: "idx < length pts"
      by (simp add: idx_def partition_point_def le_neq_implies_less length_takeWhile_le)
    let ?p = "pts ! idx"
    have ge: "s \<le> rg_position ?p" using idx nth_length_takeWhile [of ?lt pts]
      by (simp add: idx_def partition_point_def not_less)
    have le: "rg_position ?p \<le> rg_position q" if "q \<in> set pts" "s \<le> rg_position q" for q
    proof -
      from that(1) obtain j where j: "j < length pts" "q = pts ! j" by (auto simp: in_set_conv_nth)
      have "\<not> j < idx"
      proof
        assume "j < idx"
        then have "q \<in> set (takeWhile ?lt pts)" using j idx by (auto simp: tw in_set_conv_nth)
        then show False using that(2) by (auto dest: set_takeWhileD)
      qed
      then show ?thesis using assms(1) j idx by (auto simp: sorted_iff_nth_mono)
    qed
    have "filter (\<lambda>x. rg_position x = rg_position ?p) (take idx pts) = []"
      using ge unfolding tw [symmetric] by (auto simp: filter_empty_conv dest!: set_takeWhileD)
    then have "hd (filter (\<lambda>x. rg_position x = rg_position ?p) pts) = ?p"
      by (subst id_take_nth_drop [OF idx]) simp
    moreover have "\<forall>q \<in> set pts. clockwise s (rg_position ?p) \<le> clockwise s (rg_position q)"
      using ge le by (auto simp: clockwise_le)
    ultimately show ?thesis using nearest_filter [of ?p pts s] idx by simp
  qed
  then show ?thesis using assms(2) by (simp add: ring_resolve_def idx_def Let_def)
qed

lemma ring_resolve_new:
  "ring_resolve (IptoPlacementRing_new e slots) s =
     (if all_points slots = [] then None else Some (rg_instance (nearest s (all_points slots))))"
proof (cases "all_points slots = []")
  case False
  then have "sort_key rg_position (all_points slots) \<noteq> []" by (metis length_0_conv length_sort)
  then show ?thesis
    using ring_resolve_sorted [of "sort_key rg_position (all_points slots)" e s] nearest_sort [OF False] False
    by (simp add: IptoPlacementRing_new_def all_points_def)
next
  case True
  then have "sort_key rg_position (all_points slots) = []" by (metis length_0_conv length_sort)
  with True show ?thesis by (simp add: IptoPlacementRing_new_def ring_resolve_def flip: all_points_def)
qed

text \<open>Inserting points: the owner stays or is one of them.\<close>

lemma hd_middle: "hd (xs @ ys @ zs) = hd (xs @ zs) \<or> hd (xs @ ys @ zs) \<in> set ys"
  by (cases xs; cases ys) auto

lemma nearest_insert:
  assumes "xs @ zs \<noteq> []"
  shows "nearest s (xs @ ys @ zs) = nearest s (xs @ zs) \<or> nearest s (xs @ ys @ zs) \<in> set ys"
proof -
  let ?all = "xs @ ys @ zs"
  let ?n = "nearest s ?all"
  have n: "?n \<in> set ?all" "\<forall>q \<in> set ?all. clockwise s (rg_position ?n) \<le> clockwise s (rg_position q)"
    using assms nearest_props [of ?all s] by auto
  have eq: "?n = hd (filter (\<lambda>x. rg_position x = rg_position ?n) ?all)"
    using nearest_filter [OF n] .
  show ?thesis
  proof (cases "\<exists>p \<in> set (xs @ zs). rg_position p = rg_position ?n")
    case True
    then obtain p where p: "p \<in> set (xs @ zs)" "rg_position p = rg_position ?n" by blast
    with n have "nearest s (xs @ zs) = hd (filter (\<lambda>x. rg_position x = rg_position ?n) (xs @ zs))"
      using nearest_filter [of p "xs @ zs" s] by auto
    with eq show ?thesis
      using hd_middle [of "filter (\<lambda>x. rg_position x = rg_position ?n) xs"
          "filter (\<lambda>x. rg_position x = rg_position ?n) ys"
          "filter (\<lambda>x. rg_position x = rg_position ?n) zs"]
      by (auto simp only: filter_append set_filter mem_Collect_eq)
  next
    case False
    with n show ?thesis by auto
  qed
qed

subsection \<open>Overrides\<close>

lemma check_overlaps_ok:
  assumes "\<forall>r \<in> set rs. rn_start r \<le> rn_end r"
  shows "check_overlaps rs = Inr () \<longleftrightarrow> sorted_wrt (\<lambda>l r. rn_end l < rn_start r) rs"
  using assms
proof (induction rs rule: check_overlaps.induct)
  case (1 left right rs)
  have "rn_end left < rn_start x" if "rn_end left < rn_start right" "rn_end right < rn_start x" for x
    using that "1.prems" by (meson less_le_trans less_trans list.set_intros)
  with 1 show ?case by (auto simp: not_le)
qed auto

lemma first_override_Some:
  "sorted_wrt (\<lambda>l r. rn_end l < rn_start r) rs \<Longrightarrow> r \<in> set rs \<Longrightarrow> IptoPlacementRange_contains r s \<Longrightarrow>
     first_override rs s = Some (rn_target r)"
proof (induction rs)
  case (Cons x rs)
  then show ?case by (auto simp: IptoPlacementRange_contains_def)
qed simp

lemma first_override_None: "first_override rs s = None \<longleftrightarrow> (\<forall>r \<in> set rs. \<not> IptoPlacementRange_contains r s)"
  by (induction rs) auto

lemma IptoPlacementMap_new_okD:
  assumes "IptoPlacementMap_new e slots ovs = Inr m"
  shows "slots \<noteq> []" "check_overlaps (sort_key rn_start ovs) = Inr ()"
    "m = \<lparr>pm_epoch = e, pm_slots = slots, pm_ring = IptoPlacementRing_new e slots, pm_overrides = sort_key rn_start ovs\<rparr>"
  using assms by (auto simp: IptoPlacementMap_new_def Let_def split: if_splits)

subsection \<open>Intervals of constant resolution\<close>

lemma u64_succ_below:
  assumes "p < (t :: u64)"
  shows "u64_checked_add p 1 = Some (p + 1)" "s < p + 1 \<longleftrightarrow> s \<le> p" "p + 1 \<le> t"
proof -
  have "unat p < unat t" "unat t < 2 ^ 64"
    using assms unsigned_less [of t] by (simp_all add: word_less_nat_alt)
  then have "unat (p + 1) = unat p + 1" by (simp add: unat_word_ariths)
  with \<open>unat p < unat t\<close> \<open>unat t < 2 ^ 64\<close>
  show "u64_checked_add p 1 = Some (p + 1)" "s < p + 1 \<longleftrightarrow> s \<le> p" "p + 1 \<le> t"
    by (simp_all add: u64_checked_add_def word_less_nat_alt word_le_nat_alt less_Suc_eq_le)
qed

lemma interval_starts_point:
  assumes "p \<in> set (ring_points (pm_ring m))" "rg_position p < t"
  shows "rg_position p + 1 |\<in>| interval_starts m"
  using assms u64_succ_below(1) [OF assms(2)]
  by (auto simp: interval_starts_def List.map_filter_def fset_of_list_elem image_iff intro!: bexI [of _ p])

lemma interval_starts_range:
  assumes "r \<in> set (pm_overrides m)"
  shows "rn_start r |\<in>| interval_starts m" "rn_end r < t \<Longrightarrow> rn_end r + 1 |\<in>| interval_starts m"
  using assms u64_succ_below(1) [of "rn_end r" t]
  by (force simp: interval_starts_def fset_of_list_elem)+

lemma resolve_constant:
  assumes "s \<le> t" and none: "\<And>x. x |\<in>| interval_starts m \<Longrightarrow> \<not> (s < x \<and> x \<le> t)"
  shows "map_resolve m s = map_resolve m t"
proof -
  have "rg_position p < s \<longleftrightarrow> rg_position p < t" if "p \<in> set (ring_points (pm_ring m))" for p
  proof
    assume "rg_position p < t"
    with none [OF interval_starts_point [OF that this]] u64_succ_below(2,3) [OF this]
    show "rg_position p < s" by (auto simp: not_le)
  qed (use assms(1) in order)
  then have ring: "ring_resolve (pm_ring m) s = ring_resolve (pm_ring m) t"
    by (simp add: ring_resolve_def partition_point_def cong: takeWhile_cong)
  have "IptoPlacementRange_contains r s \<longleftrightarrow> IptoPlacementRange_contains r t" if "r \<in> set (pm_overrides m)" for r
  proof -
    have "rn_start r \<le> s \<longleftrightarrow> rn_start r \<le> t"
      using none [OF interval_starts_range(1) [OF that]] assms(1) by (auto simp: not_less)
    moreover have "s \<le> rn_end r \<longleftrightarrow> t \<le> rn_end r"
    proof
      assume "s \<le> rn_end r"
      show "t \<le> rn_end r"
      proof (rule ccontr)
        assume "\<not> t \<le> rn_end r"
        then have "rn_end r < t" by simp
        with none [OF interval_starts_range(2) [OF that this]] u64_succ_below(2,3) [OF this] \<open>s \<le> rn_end r\<close>
        show False by auto
      qed
    qed (use assms(1) in order)
    ultimately show ?thesis by (simp add: IptoPlacementRange_contains_def)
  qed
  then have "first_override rs s = first_override rs t" if "set rs \<subseteq> set (pm_overrides m)" for rs
    using that by (induction rs) auto
  with ring show ?thesis by (simp add: map_resolve_def split: option.split)
qed

subsection \<open>Properties\<close>

text \<open>
  (C12) The ring places a shard on the nearest virtual node clockwise: whenever some slot has a
  virtual node, resolution gives the instance of a configured point whose wrapping distance from
  the shard is the least of all points.
\<close>

theorem ring_resolves_nearest:
  assumes "slot \<in> set slots" "sl_vnodes slot \<noteq> 0"
  shows "\<exists>p \<in> set (all_points slots).
    ring_resolve (IptoPlacementRing_new e slots) s = Some (rg_instance p) \<and>
    (\<forall>q \<in> set (all_points slots). rg_position p - s \<le> rg_position q - s)"
proof -
  have "slot_points slot \<noteq> []" using assms(2) by (simp add: slot_points_def unat_eq_0)
  with assms(1) have "all_points slots \<noteq> []" by (auto simp: all_points_def)
  with nearest_props [OF this, of s] show ?thesis
    by (auto simp: ring_resolve_new clockwise_def)
qed

lemma ring_resolves_nearest_witness:
  "\<exists>p \<in> set (all_points [\<lparr>sl_instance = ''a'', sl_vnodes = 2\<rparr>, \<lparr>sl_instance = ''b'', sl_vnodes = 1\<rparr>]).
     ring_resolve (IptoPlacementRing_new 1 [\<lparr>sl_instance = ''a'', sl_vnodes = 2\<rparr>, \<lparr>sl_instance = ''b'', sl_vnodes = 1\<rparr>]) 7
       = Some (rg_instance p)"
  using ring_resolves_nearest [of "\<lparr>sl_instance = ''a'', sl_vnodes = 2\<rparr>"
      "[\<lparr>sl_instance = ''a'', sl_vnodes = 2\<rparr>, \<lparr>sl_instance = ''b'', sl_vnodes = 1\<rparr>]" 1 7]
  by auto

text \<open>
  (C27) Consistent hashing: adding a slot anywhere in the configuration moves a shard only to the
  new instance, and removing it moves only the shards it owned. Every shard resolves as before or
  to the instance of the added slot.
\<close>

theorem ring_add_slot_minimal_movement:
  "ring_resolve (IptoPlacementRing_new e' (xs @ slot # ys)) s = ring_resolve (IptoPlacementRing_new e (xs @ ys)) s
   \<or> ring_resolve (IptoPlacementRing_new e' (xs @ slot # ys)) s = Some (sl_instance slot)"
proof -
  have split: "all_points (xs @ slot # ys) = all_points xs @ slot_points slot @ all_points ys"
    "all_points (xs @ ys) = all_points xs @ all_points ys"
    by (simp_all add: all_points_def)
  have inst: "rg_instance p = sl_instance slot" if "p \<in> set (slot_points slot)" for p
    using that by (auto simp: slot_points_def)
  show ?thesis
  proof (cases "all_points xs @ all_points ys = []")
    case True
    then show ?thesis
      using inst nearest_props(1) [of "slot_points slot" s]
      unfolding ring_resolve_new split by (cases "slot_points slot = []") auto
  next
    case False
    then show ?thesis
      using inst nearest_insert [OF False, of s "slot_points slot"]
      unfolding ring_resolve_new split by auto
  qed
qed

text \<open>
  Range overrides take priority and are unambiguous: in every placement map that was built
  from well-formed ranges, a shard inside one of them resolves to its target, and a shard outside
  all of them resolves on the ring.
\<close>

lemma overrides_take_priority:
  assumes "IptoPlacementMap_new e slots ovs = Ok m" "\<forall>r \<in> set ovs. rn_start r \<le> rn_end r"
  shows "(\<forall>r \<in> set ovs. IptoPlacementRange_contains r s \<longrightarrow> map_resolve m s = Some (rn_target r)) \<and>
    ((\<forall>r \<in> set ovs. \<not> IptoPlacementRange_contains r s) \<longrightarrow>
      map_resolve m s = ring_resolve (IptoPlacementRing_new e slots) s)"
proof -
  note m = IptoPlacementMap_new_okD [OF assms(1)]
  have "sorted_wrt (\<lambda>l r. rn_end l < rn_start r) (sort_key rn_start ovs)"
    using m(2) assms(2) check_overlaps_ok [of "sort_key rn_start ovs"] by simp
  then show ?thesis
    using first_override_Some [of "sort_key rn_start ovs" _ s] first_override_None [of "sort_key rn_start ovs" s]
    unfolding m(3) map_resolve_def by auto
qed

definition sample_map :: "ClusterControlError + IptoPlacementMap" where
  "sample_map = IptoPlacementMap_new 3 [\<lparr>sl_instance = ''a'', sl_vnodes = 2\<rparr>]
     [\<lparr>rn_start = 50, rn_end = 60, rn_target = ''c''\<rparr>, \<lparr>rn_start = 10, rn_end = 20, rn_target = ''b''\<rparr>]"

lemma sample_map_ok: "\<exists>m. sample_map = Inr m"
  by (simp add: sample_map_def IptoPlacementMap_new_def Let_def sort_key_def insort_key_def)

lemma overrides_take_priority_witness: "\<exists>m. sample_map = Ok m \<and> map_resolve m 15 = Some ''b''"
proof -
  obtain m where m: "sample_map = Inr m" using sample_map_ok by blast
  from overrides_take_priority [OF m [unfolded sample_map_def], of 15] m show ?thesis
    by (auto simp: IptoPlacementRange_contains_def)
qed

end
