(* ===== verification/Ipto_Codec.thy ===== *)
theory Ipto_Codec
  imports Data_Event Codec Placement
begin

text \<open>
  The payloads of the metadata outbox in \<open>src/ipto.rs\<close>: \<open>IptoMapping\<close>, \<open>IptoWritePayload\<close> with
  \<open>from_event\<close>, and the binary format (\<open>encode\<close>, \<open>decode\<close>, \<open>encode_provenance\<close>,
  \<open>decode_provenance\<close>, \<open>DecodeCursor\<close>). As in the event codec, each \<open>write_*\<close> function gives the
  bytes it appends. Decoding inverts encoding, with and without the provenance part.
\<close>

type_synonym IptoAttributeName = string

record IptoMapping =
  im_version :: string
  im_fields :: "(MetadataFieldName, IptoAttributeName) btree"
  im_relations_enabled :: bool

definition IptoMapping_new :: "string \<Rightarrow> IptoMapping" where
  "IptoMapping_new version = \<lparr>im_version = version, im_fields = bt_empty, im_relations_enabled = True\<rparr>"

definition map_field :: "MetadataFieldName \<Rightarrow> IptoAttributeName \<Rightarrow> IptoMapping \<Rightarrow> IptoMapping" where
  "map_field field attribute m = m\<lparr>im_fields := bt_insert field attribute (im_fields m)\<rparr>"

definition without_relations :: "IptoMapping \<Rightarrow> IptoMapping" where
  "without_relations m = m\<lparr>im_relations_enabled := False\<rparr>"

definition attribute_for :: "IptoMapping \<Rightarrow> MetadataFieldName \<Rightarrow> IptoAttributeName option" where
  "attribute_for m field = bt_get (im_fields m) field"

record IptoWritePayload =
  wp_target :: IptoInstanceId
  wp_shard_id :: DataIndividualShardId
  wp_idempotency_key :: IdempotencyKey
  wp_mapping_version :: string
  wp_attributes :: "(IptoAttributeName, MetadataValue) btree"
  wp_provenance :: "DataIndividualMetadataEvent option"

definition insert_mapped ::
  "IptoMapping \<Rightarrow> metadata_fields \<Rightarrow> (IptoAttributeName, MetadataValue) btree \<Rightarrow> (IptoAttributeName, MetadataValue) btree" where
  "insert_mapped mapping flds attributes =
     fold (\<lambda>(field, val) attributes.
       case attribute_for mapping field of
         None \<Rightarrow> attributes
       | Some attribute \<Rightarrow> bt_insert attribute val attributes) (bt_iter flds) attributes"

definition from_event :: "DataIndividualMetadataEvent \<Rightarrow> IptoInstanceId \<Rightarrow> IptoMapping \<Rightarrow> IptoWritePayload" where
  "from_event event target mapping =
     (let attributes = insert_mapped mapping (pm_fields (dm_passive_metadata event)) bt_empty;
          attributes = insert_mapped mapping (am_fields (dm_active_metadata event)) attributes;
          attributes =
            (case dm_activity_id event of
               Some activity_id \<Rightarrow>
                 if im_relations_enabled mapping
                 then bt_insert ''vannak:relation:wasGeneratedBy'' (MvString activity_id) attributes
                 else attributes
             | None \<Rightarrow> attributes)
      in \<lparr>wp_target = target, wp_shard_id = dm_data_individual_shard_id event,
          wp_idempotency_key = dm_idempotency_key event, wp_mapping_version = im_version mapping,
          wp_attributes = attributes, wp_provenance = Some event\<rparr>)"

datatype IptoPayloadDecodeError =
  IpUnexpectedEof
| IpInvalidUtf8
| IpInvalidValueTag u8
| IpTrailingBytes nat

subsection \<open>Encoding\<close>

definition write_u32 :: "u32 \<Rightarrow> bytes" where
  "write_u32 val = to_le_bytes 4 val"

definition write_i64 :: "i64 \<Rightarrow> bytes" where
  "write_i64 val = to_le_bytes 8 val"

definition write_u64 :: "u64 \<Rightarrow> bytes" where
  "write_u64 val = to_le_bytes 8 val"

definition write_string :: "string \<Rightarrow> bytes" where
  "write_string val = write_u32 (of_nat (length val)) @ as_bytes val"

fun write_metadata_value :: "MetadataValue \<Rightarrow> bytes" where
  "write_metadata_value (MvString val) = 0 # write_string val"
| "write_metadata_value (MvInteger val) = 1 # write_i64 val"
| "write_metadata_value (MvBoolean val) = [2, if val then 1 else 0]"
| "write_metadata_value (MvTimestamp val) = 3 # write_string val"
| "write_metadata_value (MvStringList vals) =
     4 # write_u32 (of_nat (length vals)) @ concat (map write_string vals)"

definition encode_optional_string :: "string option \<Rightarrow> bytes" where
  "encode_optional_string val =
     (if val \<noteq> None then 1 else 0) # (case val of None \<Rightarrow> [] | Some s \<Rightarrow> write_string s)"

definition write_fields :: "metadata_fields \<Rightarrow> bytes" where
  "write_fields flds =
     write_u32 (of_nat (bt_len flds)) @
     concat (map (\<lambda>(key, val). write_string key @ write_metadata_value val) (bt_iter flds))"

fun encode_operation :: "MetadataOperation \<Rightarrow> bytes" where
  "encode_operation MoCreated = [0]"
| "encode_operation MoReceived = [1]"
| "encode_operation (MoTransformed plugin_name plugin_version) =
     2 # encode_optional_string plugin_name @ encode_optional_string plugin_version"
| "encode_operation (MoMasked flds) = 3 # write_metadata_value (MvStringList flds)"
| "encode_operation (MoValidated passed) = [4, if passed then 1 else 0]"
| "encode_operation (MoEnriched source) = 5 # encode_optional_string source"
| "encode_operation MoRouted = [6]"
| "encode_operation MoPersisted = [7]"

definition encode_provenance :: "DataIndividualMetadataEvent \<Rightarrow> bytes" where
  "encode_provenance event =
     write_string (dm_metadata_event_id event) @
     write_string (dm_data_individual_id event) @
     write_string (dm_tenant_id event) @
     write_string (dm_environment_id event) @
     write_string (dm_pipeline_id event) @
     write_string (dm_process_instance_id event) @
     write_string (dm_timestamp event) @
     write_u64 (dm_data_individual_shard_id event) @
     encode_optional_string (dm_activity_id event) @
     encode_optional_string (dm_source_payload_ref event) @
     encode_operation (dm_operation event) @
     write_fields (pm_fields (dm_passive_metadata event)) @
     write_fields (am_fields (dm_active_metadata event))"

definition VMD1 :: bytes where
  "VMD1 = as_bytes ''VMD1''"

definition encode_head :: "IptoWritePayload \<Rightarrow> bytes" where
  "encode_head p =
     write_string (wp_target p) @
     write_u64 (wp_shard_id p) @
     write_string (wp_idempotency_key p) @
     write_string (wp_mapping_version p) @
     write_fields (wp_attributes p)"

definition IptoWritePayload_encode :: "IptoWritePayload \<Rightarrow> bytes" where
  "IptoWritePayload_encode p =
     encode_head p @ (case wp_provenance p of None \<Rightarrow> [] | Some event \<Rightarrow> VMD1 @ encode_provenance event)"

subsection \<open>The cursor\<close>

type_synonym 'a ip_reader = "('a, IptoPayloadDecodeError) reader"

definition DecodeCursor_finish :: "unit ip_reader" where
  "DecodeCursor_finish c =
     (if cu_pos c = length (cu_bytes c) then Ok ((), c)
      else Err (IpTrailingBytes (length (cu_bytes c) - cu_pos c)))"

definition DecodeCursor_read_exact :: "nat \<Rightarrow> bytes ip_reader" where
  "DecodeCursor_read_exact len c =
     res_bind (ok_or IpUnexpectedEof (usize_checked_add (cu_pos c) len)) (\<lambda>end'.
     if end' \<le> length (cu_bytes c)
     then Ok (take (end' - cu_pos c) (drop (cu_pos c) (cu_bytes c)), c\<lparr>cu_pos := end'\<rparr>)
     else Err IpUnexpectedEof)"

definition read_u8 :: "u8 ip_reader" where
  "read_u8 = rd_bind (DecodeCursor_read_exact 1) (\<lambda>b. rd_return (b ! 0))"

definition read_u32 :: "u32 ip_reader" where
  "read_u32 = rd_bind (DecodeCursor_read_exact 4) (\<lambda>b. rd_return (from_le_bytes b))"

definition read_i64 :: "i64 ip_reader" where
  "read_i64 = rd_bind (DecodeCursor_read_exact 8) (\<lambda>b. rd_return (from_le_bytes b))"

definition read_u64 :: "u64 ip_reader" where
  "read_u64 = rd_bind (DecodeCursor_read_exact 8) (\<lambda>b. rd_return (from_le_bytes b))"

definition read_string :: "string ip_reader" where
  "read_string =
     rd_bind read_u32 (\<lambda>len.
     rd_bind (DecodeCursor_read_exact (unat len)) (\<lambda>b.
     case from_utf8 b of None \<Rightarrow> rd_fail IpInvalidUtf8 | Some s \<Rightarrow> rd_return s))"

definition read_metadata_value :: "MetadataValue ip_reader" where
  "read_metadata_value =
     rd_bind read_u8 (\<lambda>tag.
     if tag = 0 then rd_bind read_string (\<lambda>s. rd_return (MvString s))
     else if tag = 1 then rd_bind read_i64 (\<lambda>n. rd_return (MvInteger n))
     else if tag = 2 then rd_bind read_u8 (\<lambda>b. rd_return (MvBoolean (b \<noteq> 0)))
     else if tag = 3 then rd_bind read_string (\<lambda>s. rd_return (MvTimestamp s))
     else if tag = 4 then
       rd_bind read_u32 (\<lambda>count.
       rd_bind (rd_times (unat count) (\<lambda>vals. rd_bind read_string (\<lambda>s. rd_return (vals @ [s]))) []) (\<lambda>vals.
       rd_return (MvStringList vals)))
     else rd_fail (IpInvalidValueTag tag))"

definition decode_optional_string :: "string option ip_reader" where
  "decode_optional_string =
     rd_bind read_u8 (\<lambda>tag.
     if tag = 0 then rd_return None
     else if tag = 1 then rd_bind read_string (\<lambda>s. rd_return (Some s))
     else rd_fail (IpInvalidValueTag tag))"

definition read_operation :: "MetadataOperation ip_reader" where
  "read_operation =
     rd_bind read_u8 (\<lambda>tag.
     if tag = 0 then rd_return MoCreated
     else if tag = 1 then rd_return MoReceived
     else if tag = 2 then
       rd_bind decode_optional_string (\<lambda>plugin_name.
       rd_bind decode_optional_string (\<lambda>plugin_version.
       rd_return (MoTransformed plugin_name plugin_version)))
     else if tag = 3 then
       rd_bind read_metadata_value (\<lambda>val.
       case val of MvStringList flds \<Rightarrow> rd_return (MoMasked flds) | _ \<Rightarrow> rd_fail (IpInvalidValueTag 255))
     else if tag = 4 then rd_bind read_u8 (\<lambda>b. rd_return (MoValidated (b \<noteq> 0)))
     else if tag = 5 then rd_bind decode_optional_string (\<lambda>source. rd_return (MoEnriched source))
     else if tag = 6 then rd_return MoRouted
     else if tag = 7 then rd_return MoPersisted
     else rd_fail (IpInvalidValueTag tag))"

text \<open>The loop that reads \<open>count\<close> named values into a map.\<close>

definition read_fields :: "(string, MetadataValue) btree ip_reader" where
  "read_fields =
     rd_bind read_u32 (\<lambda>count.
     rd_times (unat count) (\<lambda>flds.
       rd_bind read_string (\<lambda>key.
       rd_bind read_metadata_value (\<lambda>val.
       rd_return (bt_insert key val flds)))) bt_empty)"

definition decode_provenance :: "DataIndividualMetadataEvent ip_reader" where
  "decode_provenance =
     rd_bind read_string (\<lambda>event_id.
     rd_bind read_string (\<lambda>data_id.
     rd_bind read_string (\<lambda>tenant.
     rd_bind read_string (\<lambda>environment.
     rd_bind read_string (\<lambda>pipeline.
     rd_bind read_string (\<lambda>process.
     rd_bind read_string (\<lambda>timestamp.
     rd_bind read_u64 (\<lambda>shard.
     rd_bind decode_optional_string (\<lambda>activity.
     rd_bind decode_optional_string (\<lambda>payload_ref.
     rd_bind read_operation (\<lambda>operation.
     rd_bind read_fields (\<lambda>passive.
     rd_bind read_fields (\<lambda>active.
     rd_return
       (let event = with_active_metadata \<lparr>am_fields = active\<rparr>
              (with_passive_metadata \<lparr>pm_fields = passive\<rparr>
                (DataIndividualMetadataEvent_new event_id data_id shard tenant environment pipeline
                   process timestamp operation));
            event = (case activity of None \<Rightarrow> event | Some a \<Rightarrow> dm_with_activity_id a event);
            event = (case payload_ref of None \<Rightarrow> event | Some r \<Rightarrow> with_source_payload_ref r event)
        in event))))))))))))))"

definition read_head :: "IptoWritePayload ip_reader" where
  "read_head =
     rd_bind read_string (\<lambda>target.
     rd_bind read_u64 (\<lambda>shard_id.
     rd_bind read_string (\<lambda>idempotency_key.
     rd_bind read_string (\<lambda>mapping_version.
     rd_bind read_fields (\<lambda>attributes.
     rd_return \<lparr>wp_target = target, wp_shard_id = shard_id, wp_idempotency_key = idempotency_key,
                wp_mapping_version = mapping_version, wp_attributes = attributes, wp_provenance = None\<rparr>)))))"

definition read_provenance :: "DataIndividualMetadataEvent ip_reader" where
  "read_provenance =
     rd_bind (DecodeCursor_read_exact 4) (\<lambda>magic.
     if magic \<noteq> VMD1 then rd_fail (IpInvalidValueTag 255) else decode_provenance)"

definition IptoWritePayload_decode :: "bytes \<Rightarrow> IptoPayloadDecodeError + IptoWritePayload" where
  "IptoWritePayload_decode bs =
     res_bind (read_head (cursor_new bs)) (\<lambda>(p, c).
     res_bind (if cu_pos c = length bs then Ok (None, c)
               else rd_bind read_provenance (\<lambda>event. rd_return (Some event)) c) (\<lambda>(provenance, c).
     res_bind (DecodeCursor_finish c) (\<lambda>_.
     Ok (p\<lparr>wp_provenance := provenance\<rparr>))))"

subsection \<open>Each reader inverts its encoder\<close>

interpretation decode_cursor: byte_cursor DecodeCursor_read_exact IpUnexpectedEof IpInvalidUtf8
proof
  fix bs show "decodes IpUnexpectedEof (DecodeCursor_read_exact (length bs)) bs bs"
    by (auto simp: decodes_def DecodeCursor_read_exact_def usize_checked_add_def)
qed

abbreviation ip_decodes :: "'a ip_reader \<Rightarrow> bytes \<Rightarrow> 'a \<Rightarrow> bool" where
  "ip_decodes \<equiv> decodes IpUnexpectedEof"

lemma ip_u8: "ip_decodes read_u8 [w] w"
  unfolding read_u8_def by (rule decode_cursor.decodes_u8)

lemma ip_u32: "ip_decodes read_u32 (write_u32 w) w"
  unfolding read_u32_def write_u32_def by (rule decode_cursor.decodes_u32)

lemma ip_u64: "ip_decodes read_u64 (write_u64 w) w"
  unfolding read_u64_def write_u64_def by (rule decode_cursor.decodes_u64)

lemma ip_i64: "ip_decodes read_i64 (write_i64 w) w"
  unfolding read_i64_def write_i64_def by (rule decode_cursor.decodes_u64)

lemma ip_string: "str_ok s \<Longrightarrow> ip_decodes read_string (write_string s) s"
proof -
  have "write_string s = enc_string s" by (simp add: write_string_def write_u32_def enc_string_def)
  moreover assume "str_ok s"
  ultimately show ?thesis
    unfolding read_string_def read_u32_def by (simp add: decode_cursor.decodes_string)
qed

lemma ip_optional_string:
  "pred_option str_ok s \<Longrightarrow> ip_decodes decode_optional_string (encode_optional_string s) s"
  unfolding decode_optional_string_def encode_optional_string_def
  by (cases s) (auto intro!: decodes_Cons [OF ip_u8] decodes_bind_return [OF ip_string])

lemma ip_strings:
  assumes "list_all str_ok vals" "length vals < 2 ^ 32"
  shows "ip_decodes (rd_bind read_u32 (\<lambda>count.
       rd_bind (rd_times (unat count) (\<lambda>vals. rd_bind read_string (\<lambda>s. rd_return (vals @ [s]))) []) (\<lambda>vals.
       rd_return (MvStringList vals))))
     (write_u32 (of_nat (length vals)) @ concat (map write_string vals)) (MvStringList vals)"
proof (rule decodes_bind [OF ip_u32])
  have push: "fold (\<lambda>r acc. acc @ [r]) vals acc = acc @ vals" for acc :: "string list"
    by (induction vals arbitrary: acc) simp_all
  have "ip_decodes (rd_times (length vals) (\<lambda>vals. rd_bind read_string (\<lambda>s. rd_return (vals @ [s]))) [])
      (concat (map write_string vals)) (fold (\<lambda>r acc. acc @ [r]) vals [])"
    using assms(1) by (intro decodes_times decodes_bind_return ip_string) (simp add: list_all_iff)
  then show "ip_decodes (rd_bind (rd_times (unat (of_nat (length vals) :: u32))
        (\<lambda>vals. rd_bind read_string (\<lambda>s. rd_return (vals @ [s]))) []) (\<lambda>vals. rd_return (MvStringList vals)))
      (concat (map write_string vals)) (MvStringList vals)"
    using assms(2) by (intro decodes_bind_return) (simp add: push unat_of_nat)
qed

fun value_ok :: "MetadataValue \<Rightarrow> bool" where
  "value_ok (MvString s) \<longleftrightarrow> str_ok s"
| "value_ok (MvTimestamp s) \<longleftrightarrow> str_ok s"
| "value_ok (MvStringList vals) \<longleftrightarrow> list_all str_ok vals \<and> length vals < 2 ^ 32"
| "value_ok (MvInteger _) \<longleftrightarrow> True"
| "value_ok (MvBoolean _) \<longleftrightarrow> True"

lemma ip_bool:
  "ip_decodes (rd_bind read_u8 (\<lambda>b. rd_return (g (b \<noteq> 0)))) [if v then 1 else 0] (g v)"
  using decodes_bind_return [OF ip_u8, of "\<lambda>b. g (b \<noteq> 0)" "if v then 1 else 0"] by (cases v) simp_all

lemma ip_metadata_value:
  assumes "value_ok v"
  shows "ip_decodes read_metadata_value (write_metadata_value v) v"
  unfolding read_metadata_value_def
  using assms
  by (cases v) (auto intro!: decodes_Cons [OF ip_u8] decodes_bind_return [OF ip_string]
      decodes_bind_return [OF ip_i64] ip_bool ip_strings decodes_return simp del: if_split)

fun operation_ok :: "MetadataOperation \<Rightarrow> bool" where
  "operation_ok (MoTransformed n v) \<longleftrightarrow> pred_option str_ok n \<and> pred_option str_ok v"
| "operation_ok (MoMasked flds) \<longleftrightarrow> value_ok (MvStringList flds)"
| "operation_ok (MoEnriched s) \<longleftrightarrow> pred_option str_ok s"
| "operation_ok _ \<longleftrightarrow> True"

lemma ip_masked:
  assumes "value_ok (MvStringList flds)"
  shows "ip_decodes (rd_bind read_metadata_value (\<lambda>val.
      case val of MvStringList flds \<Rightarrow> rd_return (MoMasked flds) | _ \<Rightarrow> rd_fail (IpInvalidValueTag 255)))
    (write_metadata_value (MvStringList flds)) (MoMasked flds)"
proof -
  have "ip_decodes (rd_bind read_metadata_value (\<lambda>val.
      case val of MvStringList flds \<Rightarrow> rd_return (MoMasked flds) | _ \<Rightarrow> rd_fail (IpInvalidValueTag 255)))
    (write_metadata_value (MvStringList flds) @ []) (MoMasked flds)"
    by (rule decodes_bind [OF ip_metadata_value [OF assms]]) (simp add: decodes_return)
  then show ?thesis by (simp only: append_Nil2)
qed

lemma ip_operation:
  assumes "operation_ok op"
  shows "ip_decodes read_operation (encode_operation op) op"
  unfolding read_operation_def
  using assms
  by (cases op) (auto intro!: decodes_Cons [OF ip_u8] decodes_bind [OF ip_optional_string]
      decodes_bind_return [OF ip_optional_string] ip_masked ip_bool decodes_return
      simp del: if_split write_metadata_value.simps)

definition fields_ok :: "(string, MetadataValue) btree \<Rightarrow> bool" where
  "fields_ok m \<longleftrightarrow> list_all (\<lambda>(k, v). str_ok k \<and> value_ok v) (bt_iter m) \<and> bt_len m < 2 ^ 32"

lemma bt_rebuild: "fold (\<lambda>(k, v). bt_insert k v) (bt_iter m) bt_empty = m"
proof -
  have "bt_iter (fold (\<lambda>(k, v). bt_insert k v) es acc) = bt_iter acc @ es"
    if "asc_keys (bt_iter acc @ es)" for es acc
    using that
  proof (induction es arbitrary: acc)
    case (Cons e es)
    then have "bt_iter (bt_insert (fst e) (snd e) acc) = bt_iter acc @ [e]"
      by (subst bt_iter_insert_last) (auto simp: asc_keys_append)
    with Cons.IH [of "bt_insert (fst e) (snd e) acc"] Cons.prems show ?case
      by (simp add: case_prod_beta')
  qed simp
  from this [of bt_empty "bt_iter m"] show ?thesis by (simp add: bt_iter_inject)
qed

lemma ip_fields:
  assumes "fields_ok m"
  shows "ip_decodes read_fields (write_fields m) m"
  unfolding read_fields_def write_fields_def
proof (rule decodes_bind [OF ip_u32])
  have "ip_decodes (rd_times (length (bt_iter m)) (\<lambda>flds.
       rd_bind read_string (\<lambda>key. rd_bind read_metadata_value (\<lambda>val. rd_return (bt_insert key val flds)))) bt_empty)
     (concat (map (\<lambda>(key, val). write_string key @ write_metadata_value val) (bt_iter m)))
     (fold (\<lambda>(k, v). bt_insert k v) (bt_iter m) bt_empty)"
  proof (rule decodes_times)
    fix e acc assume "e \<in> set (bt_iter m)"
    with assms have "str_ok (fst e)" "value_ok (snd e)" by (auto simp: fields_ok_def list_all_iff)
    then show "ip_decodes (rd_bind read_string (\<lambda>key. rd_bind read_metadata_value (\<lambda>val.
        rd_return (bt_insert key val acc))))
      (case e of (key, val) \<Rightarrow> write_string key @ write_metadata_value val) ((case e of (k, v) \<Rightarrow> bt_insert k v) acc)"
      by (auto simp: case_prod_beta' intro!: decodes_bind [OF ip_string] decodes_bind_return [OF ip_metadata_value])
  qed
  then show "ip_decodes (rd_times (unat (of_nat (bt_len m) :: u32)) (\<lambda>flds.
       rd_bind read_string (\<lambda>key. rd_bind read_metadata_value (\<lambda>val. rd_return (bt_insert key val flds)))) bt_empty)
     (concat (map (\<lambda>(key, val). write_string key @ write_metadata_value val) (bt_iter m))) m"
    using assms by (simp add: bt_rebuild fields_ok_def bt_len_def unat_of_nat)
qed

definition metadata_event_ok :: "DataIndividualMetadataEvent \<Rightarrow> bool" where
  "metadata_event_ok e \<longleftrightarrow>
     list_all str_ok [dm_metadata_event_id e, dm_data_individual_id e, dm_tenant_id e, dm_environment_id e,
       dm_pipeline_id e, dm_process_instance_id e, dm_timestamp e] \<and>
     pred_option str_ok (dm_activity_id e) \<and> pred_option str_ok (dm_source_payload_ref e) \<and>
     operation_ok (dm_operation e) \<and>
     fields_ok (pm_fields (dm_passive_metadata e)) \<and> fields_ok (am_fields (dm_active_metadata e)) \<and>
     dm_idempotency_key e = idempotency_key_of (dm_data_individual_id e) (dm_metadata_event_id e)"

definition payload_ok :: "IptoWritePayload \<Rightarrow> bool" where
  "payload_ok p \<longleftrightarrow>
     str_ok (wp_target p) \<and> str_ok (wp_idempotency_key p) \<and> str_ok (wp_mapping_version p) \<and>
     fields_ok (wp_attributes p) \<and> pred_option metadata_event_ok (wp_provenance p)"

lemmas ip_fields_rules = ip_string ip_u64 ip_optional_string ip_operation ip_fields

lemma rebuild_metadata_event:
  assumes "dm_idempotency_key e = idempotency_key_of (dm_data_individual_id e) (dm_metadata_event_id e)"
  shows "(let event = with_active_metadata \<lparr>am_fields = am_fields (dm_active_metadata e)\<rparr>
              (with_passive_metadata \<lparr>pm_fields = pm_fields (dm_passive_metadata e)\<rparr>
                (DataIndividualMetadataEvent_new (dm_metadata_event_id e) (dm_data_individual_id e)
                   (dm_data_individual_shard_id e) (dm_tenant_id e) (dm_environment_id e) (dm_pipeline_id e)
                   (dm_process_instance_id e) (dm_timestamp e) (dm_operation e)));
            event = (case dm_activity_id e of None \<Rightarrow> event | Some a \<Rightarrow> dm_with_activity_id a event);
            event = (case dm_source_payload_ref e of None \<Rightarrow> event | Some r \<Rightarrow> with_source_payload_ref r event)
        in event) = e"
  using assms
  by (intro DataIndividualMetadataEvent.equality)
    (simp_all add: metadata_event_builder_defs Let_def split: option.split)

lemma ip_provenance:
  assumes "metadata_event_ok e"
  shows "ip_decodes decode_provenance (encode_provenance e) e"
  apply (rule back_subst [where P = "ip_decodes decode_provenance (encode_provenance e)",
        OF _ rebuild_metadata_event])
  unfolding decode_provenance_def encode_provenance_def
   apply (rule decodes_bind decodes_bind_return ip_fields_rules
      | use assms in \<open>simp add: metadata_event_ok_def\<close>)+
  done

lemma ip_read_provenance:
  assumes "metadata_event_ok e"
  shows "ip_decodes (rd_bind read_provenance (\<lambda>event. rd_return (Some event))) (VMD1 @ encode_provenance e) (Some e)"
proof (rule decodes_bind_return)
  have "length VMD1 = 4" by (simp add: VMD1_def)
  then have "ip_decodes (DecodeCursor_read_exact 4) VMD1 VMD1"
    using decode_cursor.tk_exact [of VMD1] by simp
  then show "ip_decodes read_provenance (VMD1 @ encode_provenance e) e"
    unfolding read_provenance_def by (rule decodes_bind) (simp add: ip_provenance [OF assms])
qed

lemma ip_head:
  assumes "payload_ok p"
  shows "ip_decodes read_head (encode_head p) (p\<lparr>wp_provenance := None\<rparr>)"
proof -
  have p: "p\<lparr>wp_provenance := None\<rparr> = \<lparr>wp_target = wp_target p, wp_shard_id = wp_shard_id p,
      wp_idempotency_key = wp_idempotency_key p, wp_mapping_version = wp_mapping_version p,
      wp_attributes = wp_attributes p, wp_provenance = None\<rparr>" by simp
  show ?thesis
    unfolding p read_head_def encode_head_def
    apply (rule decodes_bind decodes_bind_return ip_fields_rules
      | use assms in \<open>simp add: payload_ok_def\<close>)+
    done
qed

lemma payload_roundtrip:
  assumes "payload_ok p" "length (IptoWritePayload_encode p) < 2 ^ 64"
  shows "IptoWritePayload_decode (IptoWritePayload_encode p) = Inr p"
proof (cases "wp_provenance p")
  case None
  with assms decodes_run [OF ip_head [OF assms(1)], of "[]"] show ?thesis
    by (simp add: IptoWritePayload_decode_def IptoWritePayload_encode_def DecodeCursor_finish_def)
next
  case (Some e)
  let ?tail = "VMD1 @ encode_provenance e"
  from Some assms have ok: "metadata_event_ok e" by (simp add: payload_ok_def)
  have enc: "IptoWritePayload_encode p = encode_head p @ ?tail" using Some by (simp add: IptoWritePayload_encode_def)
  have ne: "VMD1 \<noteq> []" by (simp add: VMD1_def as_bytes_def)
  have "rd_bind read_provenance (\<lambda>event. rd_return (Some event))
        \<lparr>cu_bytes = encode_head p @ ?tail, cu_pos = length (encode_head p)\<rparr>
      = Inr (Some e, \<lparr>cu_bytes = encode_head p @ ?tail, cu_pos = length (encode_head p) + length ?tail\<rparr>)"
    using ip_read_provenance [OF ok, unfolded decodes_def, THEN conjunct1, rule_format, of "encode_head p" "[]"]
      assms(2) enc by simp
  with decodes_run [OF ip_head [OF assms(1)], of ?tail] assms(2) ne Some show ?thesis
    unfolding enc by (simp add: IptoWritePayload_decode_def DecodeCursor_finish_def)
qed

subsection \<open>Properties\<close>

text \<open>
  (C22) Decoding an encoded outbox payload gives the payload back, with its attributes and with or
  without its provenance event, for every payload whose strings are valid.
\<close>

theorem decode_encode_payload:
  assumes "payload_ok p" "length (IptoWritePayload_encode p) < 2 ^ 64"
  shows "IptoWritePayload_decode (IptoWritePayload_encode p) = Ok p"
  using assms by (rule payload_roundtrip)

definition sample_metadata_event :: "string \<Rightarrow> DataIndividualMetadataEvent" where
  "sample_metadata_event i =
     dm_with_activity_id ''act'' (with_passive_metadata (PassiveMetadata_insert ''size'' (MvInteger 12) PassiveMetadata_new)
       (DataIndividualMetadataEvent_new i ''data'' 5 ''t'' ''prod'' ''p'' ''inst'' ''2024-01-01T00:00:00Z''
          (MoMasked [''name''])))"

definition sample_payload :: "string \<Rightarrow> IptoWritePayload" where
  "sample_payload i = from_event (sample_metadata_event i) ''ipto-a''
     (map_field ''size'' ''dcat:byteSize'' (IptoMapping_new ''v1''))"

lemma str_ok_simple: "list_all (\<lambda>c. of_char c < (0x80 :: u8)) s \<Longrightarrow> length s < 2 ^ 32 \<Longrightarrow> str_ok s"
  by (simp add: str_ok_def rust_string_def utf8_valid_ascii as_bytes_def list_all_iff)

lemma sample_payload_ok: "payload_ok (sample_payload ''m1'')"
  by (simp add: sample_payload_def sample_metadata_event_def from_event_def metadata_event_builder_defs
      PassiveMetadata_insert_def PassiveMetadata_new_def ActiveMetadata_new_def insert_mapped_def map_field_def
      IptoMapping_new_def attribute_for_def bt_eval payload_ok_def metadata_event_ok_def fields_ok_def
      idempotency_key_of_def str_ok_simple)

lemma sample_payload_length: "length (IptoWritePayload_encode (sample_payload ''m1'')) < 1000"
  by (simp add: sample_payload_def sample_metadata_event_def from_event_def metadata_event_builder_defs
      PassiveMetadata_insert_def PassiveMetadata_new_def ActiveMetadata_new_def insert_mapped_def map_field_def
      IptoMapping_new_def attribute_for_def bt_eval idempotency_key_of_def
      IptoWritePayload_encode_def encode_head_def encode_provenance_def write_string_def write_u32_def write_u64_def
      write_i64_def write_fields_def encode_optional_string_def VMD1_def)

lemma decode_encode_payload_witness:
  "IptoWritePayload_decode (IptoWritePayload_encode (sample_payload ''m1'')) = Ok (sample_payload ''m1'')"
  using decode_encode_payload [OF sample_payload_ok] sample_payload_length by simp

end
