(* ===== verification/Cluster.thy ===== *)
theory Cluster
  imports Placement
begin

text \<open>
  The replicated control state of \<open>src/cluster.rs\<close>: nodes, the bounded history of placement maps,
  writer leases, outbox checkpoints, sealed segments and recovery checkpoints, with \<open>apply\<close> as a
  state transition that leaves the state unchanged on an error. \<open>reachable\<close> is the set of states a
  sequence of commands can produce; its invariant and the monotonicity of the epochs are proved
  by induction over the sequence.
\<close>

record WriterLease =
  wl_target :: IptoInstanceId
  wl_holder :: NodeId
  wl_epoch :: LeaseEpoch

record MetadataOutboxCheckpoint =
  oc_data_individual_shard_id :: DataIndividualShardId
  oc_target :: IptoInstanceId
  oc_segment_id :: SegmentId
  oc_last_acknowledged_offset :: RecordOffset
  oc_mapping_version :: string
  oc_epoch :: CheckpointEpoch

record CheckpointManifest =
  cm_checkpoint_id :: string
  cm_node_id :: NodeId
  cm_epoch :: CheckpointEpoch
  cm_segment_offsets :: "(SegmentId, RecordOffset) btree"
  cm_metadata_version :: "string option"
  cm_checksum :: u64

definition CheckpointManifest_new ::
  "string \<Rightarrow> NodeId \<Rightarrow> CheckpointEpoch \<Rightarrow> (SegmentId, RecordOffset) btree \<Rightarrow> string option \<Rightarrow> u64 \<Rightarrow> CheckpointManifest" where
  "CheckpointManifest_new checkpoint_id node_id epoch segment_offsets metadata_version chk =
     \<lparr>cm_checkpoint_id = checkpoint_id, cm_node_id = node_id, cm_epoch = epoch,
      cm_segment_offsets = segment_offsets, cm_metadata_version = metadata_version, cm_checksum = chk\<rparr>"

definition latest_offset_for :: "CheckpointManifest \<Rightarrow> SegmentId \<Rightarrow> RecordOffset option" where
  "latest_offset_for c segment_id = bt_get (cm_segment_offsets c) segment_id"

definition MAX_PLACEMENT_HISTORY :: nat where
  "MAX_PLACEMENT_HISTORY = 5"

record ClusterControlState =
  cs_nodes :: "NodeId fset"
  cs_placement_maps :: "(PlacementEpoch, IptoPlacementMap) btree"
  cs_writer_leases :: "(IptoInstanceId, WriterLease) btree"
  cs_outbox_checkpoints :: "(DataIndividualShardId \<times> IptoInstanceId, MetadataOutboxCheckpoint) btree"
  cs_sealed_segments :: "(SegmentId, SegmentManifest) btree"
  cs_checkpoints :: "(string, CheckpointManifest) btree"

datatype ClusterControlCommand =
  AddNode NodeId
| RemoveNode NodeId
| SetIptoPlacementMap IptoPlacementMap
| GrantWriterLease WriterLease
| RecordOutboxCheckpoint MetadataOutboxCheckpoint
| RecordSealedSegment SegmentManifest
| RecordCheckpoint CheckpointManifest

definition ClusterControlState_new :: ClusterControlState where
  "ClusterControlState_new =
     \<lparr>cs_nodes = {||}, cs_placement_maps = bt_empty, cs_writer_leases = bt_empty,
      cs_outbox_checkpoints = bt_empty, cs_sealed_segments = bt_empty, cs_checkpoints = bt_empty\<rparr>"

subsection \<open>Transitions\<close>

lemma bt_len_remove_first:
  assumes "bt_first_key m = Some k"
  shows "bt_len (bt_remove k m) < bt_len m"
proof -
  have "bt_get m k \<noteq> None"
    unfolding set_bt_keys [symmetric] using assms by (auto simp: bt_first_key_def split: list.splits)
  then have "{k'. bt_get (bt_remove k m) k' \<noteq> None} \<subset> {k'. bt_get m k' \<noteq> None}"
    by (auto simp: bt_get_remove)
  moreover have "finite {k'. bt_get m k' \<noteq> None}"
    by (rule finite_subset [of _ "set (bt_keys m)"]) (auto simp: set_bt_keys)
  ultimately show ?thesis by (simp add: bt_len_keys psubset_card_mono)
qed

text \<open>The loop that drops the oldest maps while there are too many.\<close>

function prune_history :: "('k::linorder, 'v) btree \<Rightarrow> ('k, 'v) btree" where
  "prune_history maps =
     (if bt_len maps > MAX_PLACEMENT_HISTORY then
        (case bt_first_key maps of
           None \<Rightarrow> maps
         | Some oldest \<Rightarrow> prune_history (bt_remove oldest maps))
      else maps)"
  by pat_completeness auto
termination
  by (relation "measure bt_len") (auto simp: bt_len_remove_first)

declare prune_history.simps [simp del]

definition insert_placement_map ::
  "IptoPlacementMap \<Rightarrow> ClusterControlState \<Rightarrow> ClusterControlState \<times> (ClusterControlError + unit)" where
  "insert_placement_map m st =
     (case bt_last (cs_placement_maps st) of
        Some (_, current) \<Rightarrow>
          if pm_epoch m \<le> pm_epoch current
          then (st, Err (StalePlacementEpoch (pm_epoch current) (pm_epoch m)))
          else (st\<lparr>cs_placement_maps := prune_history (bt_insert (pm_epoch m) m (cs_placement_maps st))\<rparr>, Ok ())
      | None \<Rightarrow> (st\<lparr>cs_placement_maps := prune_history (bt_insert (pm_epoch m) m (cs_placement_maps st))\<rparr>, Ok ()))"

fun control_apply ::
  "ClusterControlCommand \<Rightarrow> ClusterControlState \<Rightarrow> ClusterControlState \<times> (ClusterControlError + unit)" where
  "control_apply (AddNode node_id) st = (st\<lparr>cs_nodes := finsert node_id (cs_nodes st)\<rparr>, Ok ())"
| "control_apply (RemoveNode node_id) st =
     (st\<lparr>cs_nodes := cs_nodes st |-| {|node_id|},
         cs_writer_leases := bt_retain (\<lambda>_ lease. wl_holder lease \<noteq> node_id) (cs_writer_leases st)\<rparr>, Ok ())"
| "control_apply (SetIptoPlacementMap m) st = insert_placement_map m st"
| "control_apply (GrantWriterLease lease) st =
     (if wl_holder lease |\<notin>| cs_nodes st then (st, Err (UnknownLeaseHolder (wl_holder lease)))
      else case bt_get (cs_writer_leases st) (wl_target lease) of
        Some current \<Rightarrow>
          if wl_epoch lease \<le> wl_epoch current
          then (st, Err (StaleLeaseEpoch (wl_target lease) (wl_epoch current) (wl_epoch lease)))
          else (st\<lparr>cs_writer_leases := bt_insert (wl_target lease) lease (cs_writer_leases st)\<rparr>, Ok ())
      | None \<Rightarrow> (st\<lparr>cs_writer_leases := bt_insert (wl_target lease) lease (cs_writer_leases st)\<rparr>, Ok ()))"
| "control_apply (RecordOutboxCheckpoint c) st =
     (let key = (oc_data_individual_shard_id c, oc_target c) in
      case bt_get (cs_outbox_checkpoints st) key of
        Some current \<Rightarrow>
          if oc_epoch c \<le> oc_epoch current
          then (st, Err (StaleCheckpointEpoch (oc_data_individual_shard_id c) (oc_target c) (oc_epoch current) (oc_epoch c)))
          else (st\<lparr>cs_outbox_checkpoints := bt_insert key c (cs_outbox_checkpoints st)\<rparr>, Ok ())
      | None \<Rightarrow> (st\<lparr>cs_outbox_checkpoints := bt_insert key c (cs_outbox_checkpoints st)\<rparr>, Ok ()))"
| "control_apply (RecordSealedSegment manifest) st =
     (st\<lparr>cs_sealed_segments := bt_insert (sm_segment_id manifest) manifest (cs_sealed_segments st)\<rparr>, Ok ())"
| "control_apply (RecordCheckpoint c) st =
     (case bt_get (cs_checkpoints st) (cm_checkpoint_id c) of
        Some current \<Rightarrow>
          if cm_epoch c \<le> cm_epoch current
          then (st, Err (StaleCheckpointManifest (cm_checkpoint_id c) (cm_epoch current) (cm_epoch c)))
          else (st\<lparr>cs_checkpoints := bt_insert (cm_checkpoint_id c) c (cs_checkpoints st)\<rparr>, Ok ())
      | None \<Rightarrow> (st\<lparr>cs_checkpoints := bt_insert (cm_checkpoint_id c) c (cs_checkpoints st)\<rparr>, Ok ()))"

subsection \<open>Accessors\<close>

definition placement_map :: "ClusterControlState \<Rightarrow> IptoPlacementMap option" where
  "placement_map st = map_option snd (bt_last (cs_placement_maps st))"

definition resolve_ipto_target :: "ClusterControlState \<Rightarrow> DataIndividualShardId \<Rightarrow> IptoInstanceId option" where
  "resolve_ipto_target st shard_id = Option.bind (placement_map st) (\<lambda>m. map_resolve m shard_id)"

definition add_candidate :: "DataIndividualShardId \<Rightarrow> IptoPlacementMap \<Rightarrow> IptoInstanceId list \<Rightarrow> IptoInstanceId list" where
  "add_candidate shard_id m candidates =
     (case map_resolve m shard_id of
        None \<Rightarrow> candidates
      | Some target \<Rightarrow> if target \<in> set candidates then candidates else candidates @ [target])"

definition resolve_with_fallback :: "ClusterControlState \<Rightarrow> DataIndividualShardId \<Rightarrow> IptoInstanceId list" where
  "resolve_with_fallback st shard_id =
     fold (add_candidate shard_id) (rev (bt_values (cs_placement_maps st))) []"

definition all_ipto_instances :: "ClusterControlState \<Rightarrow> IptoInstanceId list" where
  "all_ipto_instances st =
     first_seen {||} (concat (map map_instances (bt_values (cs_placement_maps st))))"

definition placement_map_history :: "ClusterControlState \<Rightarrow> (PlacementEpoch \<times> IptoPlacementMap) list" where
  "placement_map_history st = bt_iter (cs_placement_maps st)"

definition writer_lease :: "ClusterControlState \<Rightarrow> IptoInstanceId \<Rightarrow> WriterLease option" where
  "writer_lease st target = bt_get (cs_writer_leases st) target"

definition outbox_checkpoint ::
  "ClusterControlState \<Rightarrow> DataIndividualShardId \<Rightarrow> IptoInstanceId \<Rightarrow> MetadataOutboxCheckpoint option" where
  "outbox_checkpoint st shard_id target = bt_get (cs_outbox_checkpoints st) (shard_id, target)"

definition sealed_segment :: "ClusterControlState \<Rightarrow> SegmentId \<Rightarrow> SegmentManifest option" where
  "sealed_segment st segment_id = bt_get (cs_sealed_segments st) segment_id"

definition control_checkpoint :: "ClusterControlState \<Rightarrow> string \<Rightarrow> CheckpointManifest option" where
  "control_checkpoint st checkpoint_id = bt_get (cs_checkpoints st) checkpoint_id"

subsection \<open>The invariant\<close>

definition control_wf :: "ClusterControlState \<Rightarrow> bool" where
  "control_wf st \<longleftrightarrow>
     (\<forall>t l. bt_get (cs_writer_leases st) t = Some l \<longrightarrow> wl_target l = t \<and> wl_holder l |\<in>| cs_nodes st) \<and>
     (\<forall>e m. bt_get (cs_placement_maps st) e = Some m \<longrightarrow> pm_epoch m = e) \<and>
     bt_len (cs_placement_maps st) \<le> MAX_PLACEMENT_HISTORY \<and>
     (\<forall>k c. bt_get (cs_outbox_checkpoints st) k = Some c \<longrightarrow> k = (oc_data_individual_shard_id c, oc_target c)) \<and>
     (\<forall>i s. bt_get (cs_sealed_segments st) i = Some s \<longrightarrow> sm_segment_id s = i) \<and>
     (\<forall>i c. bt_get (cs_checkpoints st) i = Some c \<longrightarrow> cm_checkpoint_id c = i)"

lemma control_wf_new: "control_wf ClusterControlState_new"
  by (simp add: control_wf_def ClusterControlState_new_def bt_len_def)

lemma bt_last_None: "bt_last m = None \<longleftrightarrow> (\<forall>k. bt_get m k = None)"
proof
  assume "\<forall>k. bt_get m k = None"
  then have "m = bt_empty" by (intro bt_eqI) simp
  then show "bt_last m = None" by (simp add: bt_last_def)
next
  assume "bt_last m = None"
  then have "bt_iter m = []" by (simp add: bt_last_def split: if_splits)
  then show "\<forall>k. bt_get m k = None" using bt_get_iter [of m] by fastforce
qed

lemma bt_last_Some:
  "bt_last m = Some (k, v) \<longleftrightarrow> bt_get m k = Some v \<and> (\<forall>k' v'. bt_get m k' = Some v' \<longrightarrow> k' \<le> k)"
proof (cases "bt_iter m" rule: rev_cases)
  case Nil
  then show ?thesis using bt_get_iter [of m k v] by (auto simp: bt_last_def)
next
  case (snoc xs x)
  then have asc: "\<forall>e \<in> set xs. fst e < fst x"
    using asc_keys_iter [of m] by (simp add: asc_keys_append)
  show ?thesis
  proof
    assume "bt_last m = Some (k, v)"
    with snoc have "x = (k, v)" by (simp add: bt_last_def)
    with snoc asc show "bt_get m k = Some v \<and> (\<forall>k' v'. bt_get m k' = Some v' \<longrightarrow> k' \<le> k)"
      by (auto simp: bt_get_iter)
  next
    assume max: "bt_get m k = Some v \<and> (\<forall>k' v'. bt_get m k' = Some v' \<longrightarrow> k' \<le> k)"
    have "bt_get m (fst x) = Some (snd x)" using snoc by (simp add: bt_get_iter)
    with max have "fst x \<le> k" by blast
    with max snoc asc have "x = (k, v)" by (auto simp: bt_get_iter)
    with snoc show "bt_last m = Some (k, v)" by (simp add: bt_last_def)
  qed
qed

lemma bt_iter_remove_first:
  "bt_iter m = e # es \<Longrightarrow> bt_iter (bt_remove (fst e) m) = es"
proof -
  assume it: "bt_iter m = e # es"
  then have "\<forall>x \<in> set es. fst e < fst x" using asc_keys_iter [of m] by simp
  then have "filter (\<lambda>(k, v). k \<noteq> fst e) es = es" by (force simp: filter_id_conv)
  with it show ?thesis by (simp add: bt_remove_def bt_retain.rep_eq case_prod_beta')
qed

text \<open>Pruning keeps exactly the newest five maps.\<close>

lemma bt_iter_prune: "bt_iter (prune_history m) = drop (bt_len m - MAX_PLACEMENT_HISTORY) (bt_iter m)"
proof (induction m rule: prune_history.induct)
  case (1 m)
  show ?case
  proof (cases "bt_len m > MAX_PLACEMENT_HISTORY")
    case True
    then obtain e es where it: "bt_iter m = e # es" by (cases "bt_iter m") (auto simp: bt_len_def)
    then have first: "bt_first_key m = Some (fst e)" by (simp add: bt_first_key_def bt_keys_def)
    with True 1 it show ?thesis
      by (subst prune_history.simps)
        (auto simp: bt_iter_remove_first bt_len_def Suc_diff_le less_Suc_eq_le)
  qed (subst prune_history.simps, simp)
qed

lemma bt_get_prune: "bt_get (prune_history m) k = Some v \<Longrightarrow> bt_get m k = Some v"
  by (auto simp: bt_get_iter bt_iter_prune dest: in_set_dropD)

lemma bt_len_prune: "bt_len (prune_history m) \<le> MAX_PLACEMENT_HISTORY"
  by (simp add: bt_len_def bt_iter_prune)

lemma bt_last_prune [simp]: "bt_last (prune_history m) = bt_last m"
  by (cases "bt_iter m = []")
    (auto simp: bt_last_def bt_iter_prune bt_len_def MAX_PLACEMENT_HISTORY_def not_le simp flip: length_greater_0_conv)

lemma control_wf_placement:
  "control_wf st \<Longrightarrow> control_wf (fst (insert_placement_map m st))"
  by (auto simp: control_wf_def insert_placement_map_def bt_len_prune bt_get_insert
      split: option.split if_splits dest!: bt_get_prune)

lemma control_wf_apply: "control_wf st \<Longrightarrow> control_wf (fst (control_apply c st))"
proof (induction c st rule: control_apply.induct)
  case (2 node_id st)
  then show ?case
    by (auto simp: control_wf_def bt_get_retain split: option.splits if_splits)
next
  case (3 m st)
  then show ?case by (simp add: control_wf_placement)
qed (auto simp: control_wf_def bt_get_insert Let_def split: option.split)

text \<open>Errors change nothing.\<close>

lemma control_apply_err: "control_apply c st = (st', Inl e) \<Longrightarrow> st' = st"
  by (induction c st rule: control_apply.induct)
    (auto simp: insert_placement_map_def Let_def split: option.splits if_splits)

definition control_run :: "ClusterControlCommand list \<Rightarrow> ClusterControlState \<Rightarrow> ClusterControlState" where
  "control_run cs st = fold (\<lambda>c st. fst (control_apply c st)) cs st"

inductive reachable :: "ClusterControlState \<Rightarrow> bool" where
  initial: "reachable ClusterControlState_new"
| applied: "reachable st \<Longrightarrow> control_apply c st = (st', r) \<Longrightarrow> reachable st'"

lemma reachable_wf: "reachable st \<Longrightarrow> control_wf st"
proof (induction rule: reachable.induct)
  case (applied st c st' r)
  then show ?case using control_wf_apply [of st c] by simp
qed (rule control_wf_new)

lemma reachable_run: "reachable st \<Longrightarrow> reachable (control_run cs st)"
  unfolding control_run_def
  by (induction cs arbitrary: st) (auto intro: reachable.applied prod.collapse [symmetric])

subsection \<open>Epochs\<close>

lemma bt_last_insert_new:
  assumes "\<forall>k' v'. bt_get m k' = Some v' \<longrightarrow> k' < k"
  shows "bt_last (bt_insert k v m) = Some (k, v)"
  using assms by (auto simp: bt_last_Some bt_get_insert less_imp_le split: if_splits)

lemma insert_placement_map_ok:
  assumes "control_wf st" "insert_placement_map m st = (st', Inr u)"
  shows "placement_map st' = Some m"
    and "\<And>cur. placement_map st = Some cur \<Longrightarrow> pm_epoch cur < pm_epoch m"
proof -
  have keys: "\<forall>e x. bt_get (cs_placement_maps st) e = Some x \<longrightarrow> pm_epoch x = e"
    using assms(1) by (simp add: control_wf_def)
  show lt: "pm_epoch cur < pm_epoch m" if "placement_map st = Some cur" for cur
    using that assms(2) by (auto simp: placement_map_def insert_placement_map_def not_le split: option.splits if_splits)
  have "\<forall>k' v'. bt_get (cs_placement_maps st) k' = Some v' \<longrightarrow> k' < pm_epoch m"
  proof (cases "bt_last (cs_placement_maps st)")
    case (Some kv)
    then obtain k v where kv: "bt_last (cs_placement_maps st) = Some (k, v)" by (cases kv) auto
    then have "pm_epoch v < pm_epoch m" by (intro lt) (simp add: placement_map_def)
    moreover have "pm_epoch v = k" using kv keys by (simp add: bt_last_Some)
    ultimately show ?thesis using kv by (auto simp: bt_last_Some intro: le_less_trans)
  qed (simp add: bt_last_None)
  with assms(2) show "placement_map st' = Some m"
    by (auto simp: placement_map_def insert_placement_map_def bt_last_insert_new split: option.splits if_splits)
qed

lemma placement_epoch_mono:
  assumes "control_wf st" "placement_map st = Some m"
  shows "\<exists>m'. placement_map (fst (control_apply c st)) = Some m' \<and> pm_epoch m \<le> pm_epoch m'"
proof (cases "\<exists>x. c = SetIptoPlacementMap x")
  case True
  then obtain x where c: "c = SetIptoPlacementMap x" by blast
  show ?thesis
  proof (cases "snd (insert_placement_map x st)")
    case (Inl e)
    then have "fst (insert_placement_map x st) = st"
      by (auto simp: insert_placement_map_def split: option.splits if_splits)
    with assms c show ?thesis by simp
  next
    case (Inr u)
    then have ok: "insert_placement_map x st = (fst (insert_placement_map x st), Inr u)" by (metis prod.collapse)
    from insert_placement_map_ok [OF assms(1) this] assms(2) c show ?thesis by (auto intro: less_imp_le)
  qed
next
  case False
  then have "cs_placement_maps (fst (control_apply c st)) = cs_placement_maps st"
    by (cases c) (auto simp: Let_def split: option.split)
  with assms(2) show ?thesis by (auto simp: placement_map_def)
qed

lemma outbox_checkpoint_mono:
  assumes "bt_get (cs_outbox_checkpoints st) k = Some x"
  shows "\<exists>x'. bt_get (cs_outbox_checkpoints (fst (control_apply c st))) k = Some x' \<and> oc_epoch x \<le> oc_epoch x'"
  using assms
  by (cases c) (auto simp: Let_def insert_placement_map_def bt_get_insert split: option.split)

lemma checkpoint_manifest_mono:
  assumes "bt_get (cs_checkpoints st) k = Some x"
  shows "\<exists>x'. bt_get (cs_checkpoints (fst (control_apply c st))) k = Some x' \<and> cm_epoch x \<le> cm_epoch x'"
  using assms
  by (cases c) (auto simp: Let_def insert_placement_map_def bt_get_insert split: option.split)

lemma lease_mono:
  assumes "bt_get (cs_writer_leases st) t = Some l" "c \<noteq> RemoveNode (wl_holder l)"
  shows "\<exists>l'. bt_get (cs_writer_leases (fst (control_apply c st))) t = Some l' \<and>
    (l' = l \<or> wl_epoch l < wl_epoch l')"
  using assms
  by (cases c) (auto simp: Let_def insert_placement_map_def bt_get_insert bt_get_retain not_le split: option.split)

text \<open>What one step keeps, a run keeps.\<close>

lemma control_run_mono:
  assumes step: "\<And>st x c. control_wf st \<Longrightarrow> f st = Some x \<Longrightarrow>
      \<exists>x'. f (fst (control_apply c st)) = Some x' \<and> e x \<le> (e x' :: u64)"
    and "control_wf st" "f st = Some x"
  shows "\<exists>x'. f (control_run cs st) = Some x' \<and> e x \<le> e x'"
  using assms(2,3) unfolding control_run_def
proof (induction cs arbitrary: st x)
  case (Cons c cs)
  obtain y where y: "f (fst (control_apply c st)) = Some y" "e x \<le> e y" using step Cons.prems by blast
  from Cons.IH [OF control_wf_apply [OF Cons.prems(1)] y(1)] y(2) show ?case by fastforce
qed auto

subsection \<open>Fallback\<close>

lemma fold_add_candidate:
  "distinct acc \<Longrightarrow> distinct (fold (add_candidate s) ms acc) \<and>
     set (fold (add_candidate s) ms acc) = set acc \<union> {t. \<exists>m \<in> set ms. map_resolve m s = Some t} \<and>
     (\<exists>rest. fold (add_candidate s) ms acc = acc @ rest)"
proof (induction ms arbitrary: acc)
  case (Cons m ms)
  then have "distinct (add_candidate s m acc)" by (simp add: add_candidate_def split: option.split)
  with Cons.IH [OF this] show ?case
    by (auto simp: add_candidate_def split: option.splits if_splits)
qed simp

lemma bt_values_last: "bt_last m = Some (k, v) \<Longrightarrow> \<exists>vs. rev (bt_values m) = v # vs"
  by (cases "bt_iter m" rule: rev_cases) (auto simp: bt_last_def bt_values_def)

subsection \<open>Properties\<close>

text \<open>
  (C10) The invariant of the control state. In every state that commands can produce, each writer
  lease is held by a member node and filed under its target, each placement map under its epoch,
  at most five of them, and each checkpoint and sealed segment under its own identity; a command
  that fails leaves the state as it was.
\<close>

theorem control_state_invariant:
  assumes "reachable st" "control_apply c st = (st', r)"
  shows "control_wf st \<and> control_wf st' \<and> (\<forall>e. r = Err e \<longrightarrow> st' = st)"
  using reachable_wf [OF assms(1)] reachable_wf [OF reachable.applied [OF assms]]
    control_apply_err [of c st st'] assms(2) by auto

lemma control_state_invariant_witness:
  "control_wf (fst (control_apply (AddNode ''n1'') ClusterControlState_new))"
  using control_state_invariant [OF reachable.initial, of "AddNode ''n1''"] by simp

text \<open>
  Epochs never go back. Along any sequence of commands the current placement map, every
  outbox checkpoint and every recovery checkpoint stay present and their epochs never decrease.
\<close>

lemma epochs_monotone:
  assumes "reachable st"
  shows "(\<forall>m. placement_map st = Some m \<longrightarrow>
      (\<exists>m'. placement_map (control_run cs st) = Some m' \<and> pm_epoch m \<le> pm_epoch m')) \<and>
    (\<forall>x. outbox_checkpoint st shard target = Some x \<longrightarrow>
      (\<exists>x'. outbox_checkpoint (control_run cs st) shard target = Some x' \<and> oc_epoch x \<le> oc_epoch x')) \<and>
    (\<forall>x. control_checkpoint st cid = Some x \<longrightarrow>
      (\<exists>x'. control_checkpoint (control_run cs st) cid = Some x' \<and> cm_epoch x \<le> cm_epoch x'))"
  using control_run_mono [of placement_map pm_epoch, OF placement_epoch_mono reachable_wf [OF assms]]
    control_run_mono [of "\<lambda>st. bt_get (cs_outbox_checkpoints st) (shard, target)" oc_epoch,
      OF outbox_checkpoint_mono reachable_wf [OF assms]]
    control_run_mono [of "\<lambda>st. bt_get (cs_checkpoints st) cid" cm_epoch,
      OF checkpoint_manifest_mono reachable_wf [OF assms]]
  by (simp add: outbox_checkpoint_def control_checkpoint_def)

text \<open>
  (C28) A lease is replaced only by one with a greater epoch as long as its holder is a member;
  but removing the holder drops the lease with its epoch, and the next grant for that target may
  carry any epoch, even one that was fenced off before.
\<close>

theorem lease_epoch_after_removal:
  assumes "reachable st" "writer_lease st t = Some l"
  shows "(c \<noteq> RemoveNode (wl_holder l) \<longrightarrow>
      (\<exists>l'. writer_lease (fst (control_apply c st)) t = Some l' \<and> (l' = l \<or> wl_epoch l < wl_epoch l'))) \<and>
    (n |\<in>| cs_nodes st \<and> n \<noteq> wl_holder l \<longrightarrow>
      snd (control_apply (GrantWriterLease \<lparr>wl_target = t, wl_holder = n, wl_epoch = e\<rparr>)
        (fst (control_apply (RemoveNode (wl_holder l)) st))) = Ok ())"
  using assms lease_mono [of st t l c] by (auto simp: writer_lease_def bt_get_retain)

lemma lease_epoch_after_removal_witness:
  "\<exists>l. let st = control_run [AddNode ''a'', AddNode ''b'',
         GrantWriterLease \<lparr>wl_target = ''t'', wl_holder = ''a'', wl_epoch = 9\<rparr>] ClusterControlState_new in
     writer_lease st ''t'' = Some l \<and> wl_epoch l = 9 \<and>
     snd (control_apply (GrantWriterLease \<lparr>wl_target = ''t'', wl_holder = ''b'', wl_epoch = 1\<rparr>)
        (fst (control_apply (RemoveNode (wl_holder l)) st))) = Ok ()"
proof -
  let ?l = "\<lparr>wl_target = ''t'', wl_holder = ''a'', wl_epoch = 9\<rparr> :: WriterLease"
  let ?st = "control_run [AddNode ''a'', AddNode ''b'', GrantWriterLease ?l] ClusterControlState_new"
  have "writer_lease ?st ''t'' = Some ?l" "''b'' |\<in>| cs_nodes ?st"
    by (simp_all add: control_run_def writer_lease_def ClusterControlState_new_def)
  with lease_epoch_after_removal [OF reachable_run [OF reachable.initial] this(1), of _ "''b''" 1]
  show ?thesis by (intro exI [of _ ?l]) (simp add: Let_def)
qed

text \<open>
  Resolution with fallback lists every instance the current or a previous placement map
  gives for the shard, each once, the current map's answer first.
\<close>

lemma fallback_candidates:
  "distinct (resolve_with_fallback st s) \<and>
   set (resolve_with_fallback st s) = {t. \<exists>e m. bt_get (cs_placement_maps st) e = Some m \<and> map_resolve m s = Some t} \<and>
   (case resolve_ipto_target st s of None \<Rightarrow> True | Some t \<Rightarrow> \<exists>rest. resolve_with_fallback st s = t # rest)"
proof -
  let ?ms = "rev (bt_values (cs_placement_maps st))"
  have "\<exists>rest. resolve_with_fallback st s = t # rest" if "resolve_ipto_target st s = Some t" for t
  proof -
    from that obtain k m where "bt_last (cs_placement_maps st) = Some (k, m)" "map_resolve m s = Some t"
      by (auto simp: resolve_ipto_target_def placement_map_def bind_eq_Some_conv)
    with bt_values_last [of "cs_placement_maps st" k m] obtain ms where "?ms = m # ms" by auto
    then have "resolve_with_fallback st s = fold (add_candidate s) ms [t]"
      using \<open>map_resolve m s = Some t\<close> by (simp add: resolve_with_fallback_def add_candidate_def)
    with fold_add_candidate [of "[t]" s ms] show ?thesis by auto
  qed
  moreover have "{t. \<exists>m \<in> set ?ms. map_resolve m s = Some t}
      = {t. \<exists>e m. bt_get (cs_placement_maps st) e = Some m \<and> map_resolve m s = Some t}"
    by (auto simp: Bex_def set_bt_values)
  ultimately show ?thesis
    using fold_add_candidate [of "[]" s ?ms]
    by (simp add: resolve_with_fallback_def split: option.split)
qed

end
