(* ===== verification/Outbox.thy ===== *)
theory Outbox
  imports Ipto_Codec Cluster
begin

text \<open>
  The in-memory metadata outbox of \<open>src/ipto.rs\<close>: \<open>MetadataOutbox\<close> with enqueue, acknowledge, fail,
  retry and checkpoints, and the delivery and drain loops. The Ipto writer is the trait
  \<open>IptoWriter\<close>: a parameter \<open>write\<close> of the model, a function on an arbitrary writer state.

  The invariant \<open>outbox_wf\<close> says that the queue holds exactly the keys of the pending entries, each
  once. A drain is specified by \<open>deliver_list\<close>, which hands a list of payloads to the writer one
  after the other up to the first retryable failure.
\<close>

datatype OutboxStatus = ObPending | ObAcknowledged | ObFailed

record MetadataOutboxEntry =
  oe_payload :: IptoWritePayload
  oe_status :: OutboxStatus
  oe_record_offset :: "RecordOffset option"
  oe_retry_count :: u32
  oe_last_error :: "string option"
  oe_retryable :: bool

record MetadataOutbox =
  ob_entries :: "(IdempotencyKey, MetadataOutboxEntry) btree"
  ob_pending :: "IdempotencyKey list"

datatype OutboxEnqueueResult = OrEnqueued | OrDuplicate

record MetadataOutboxSnapshot =
  mos_total :: nat
  mos_pending :: nat
  mos_acknowledged :: nat
  mos_failed :: nat
  mos_queued_pending :: nat

record IptoWriteError =
  we_message :: string
  we_retryable :: bool

definition IptoWriteError_retryable :: "string \<Rightarrow> IptoWriteError" where
  "IptoWriteError_retryable message = \<lparr>we_message = message, we_retryable = True\<rparr>"

definition IptoWriteError_permanent :: "string \<Rightarrow> IptoWriteError" where
  "IptoWriteError_permanent message = \<lparr>we_message = message, we_retryable = False\<rparr>"

definition MetadataOutbox_new :: MetadataOutbox where
  "MetadataOutbox_new = \<lparr>ob_entries = bt_empty, ob_pending = []\<rparr>"

definition enqueue_with_offset ::
  "IptoWritePayload \<Rightarrow> RecordOffset option \<Rightarrow> MetadataOutbox \<Rightarrow> MetadataOutbox \<times> OutboxEnqueueResult" where
  "enqueue_with_offset payload record_offset ob =
     (let key = wp_idempotency_key payload in
      if bt_contains_key (ob_entries ob) key then (ob, OrDuplicate)
      else
        (ob\<lparr>ob_entries := bt_insert key
              \<lparr>oe_payload = payload, oe_status = ObPending, oe_record_offset = record_offset,
               oe_retry_count = 0, oe_last_error = None, oe_retryable = False\<rparr> (ob_entries ob),
            ob_pending := ob_pending ob @ [key]\<rparr>,
         OrEnqueued))"

definition outbox_enqueue :: "IptoWritePayload \<Rightarrow> MetadataOutbox \<Rightarrow> MetadataOutbox \<times> OutboxEnqueueResult" where
  "outbox_enqueue payload ob = enqueue_with_offset payload None ob"

definition next_pending :: "MetadataOutbox \<Rightarrow> MetadataOutboxEntry option" where
  "next_pending ob =
     find (\<lambda>entry. oe_status entry = ObPending) (List.map_filter (bt_get (ob_entries ob)) (ob_pending ob))"

definition next_pending_for_target :: "IptoInstanceId \<Rightarrow> MetadataOutbox \<Rightarrow> MetadataOutboxEntry option" where
  "next_pending_for_target target ob =
     find (\<lambda>entry. oe_status entry = ObPending \<and> wp_target (oe_payload entry) = target)
       (List.map_filter (bt_get (ob_entries ob)) (ob_pending ob))"

definition acknowledge :: "IdempotencyKey \<Rightarrow> MetadataOutbox \<Rightarrow> MetadataOutbox \<times> bool" where
  "acknowledge key ob =
     (case bt_get (ob_entries ob) key of
        None \<Rightarrow> (ob, False)
      | Some entry \<Rightarrow>
          (ob\<lparr>ob_entries := bt_insert key (entry\<lparr>oe_status := ObAcknowledged\<rparr>) (ob_entries ob),
              ob_pending := filter (\<lambda>k. k \<noteq> key) (ob_pending ob)\<rparr>, True))"

definition fail_with_retryability :: "IdempotencyKey \<Rightarrow> string \<Rightarrow> bool \<Rightarrow> MetadataOutbox \<Rightarrow> MetadataOutbox \<times> bool" where
  "fail_with_retryability key err retryable ob =
     (case bt_get (ob_entries ob) key of
        None \<Rightarrow> (ob, False)
      | Some entry \<Rightarrow>
          (ob\<lparr>ob_entries := bt_insert key
                (entry\<lparr>oe_status := ObFailed, oe_retry_count := oe_retry_count entry + 1,
                       oe_last_error := Some err, oe_retryable := retryable\<rparr>) (ob_entries ob),
              ob_pending := filter (\<lambda>k. k \<noteq> key) (ob_pending ob)\<rparr>, True))"

definition outbox_fail :: "IdempotencyKey \<Rightarrow> string \<Rightarrow> MetadataOutbox \<Rightarrow> MetadataOutbox \<times> bool" where
  "outbox_fail key err ob = fail_with_retryability key err False ob"

definition retry_failed :: "IdempotencyKey \<Rightarrow> MetadataOutbox \<Rightarrow> MetadataOutbox \<times> bool" where
  "retry_failed key ob =
     (case bt_get (ob_entries ob) key of
        None \<Rightarrow> (ob, False)
      | Some entry \<Rightarrow>
          if oe_status entry \<noteq> ObFailed then (ob, False)
          else
            (ob\<lparr>ob_entries := bt_insert key (entry\<lparr>oe_status := ObPending\<rparr>) (ob_entries ob),
                ob_pending := (if key \<in> set (ob_pending ob) then ob_pending ob else ob_pending ob @ [key])\<rparr>, True))"

definition retry_failed_for_target :: "IptoInstanceId \<Rightarrow> MetadataOutbox \<Rightarrow> MetadataOutbox \<times> nat" where
  "retry_failed_for_target target ob =
     (let keys = map fst (filter (\<lambda>(_, entry). oe_status entry = ObFailed \<and> oe_retryable entry
                   \<and> wp_target (oe_payload entry) = target) (bt_iter (ob_entries ob)))
      in (fold (\<lambda>key ob. fst (retry_failed key ob)) keys ob, length keys))"

definition outbox_len :: "MetadataOutbox \<Rightarrow> nat" where
  "outbox_len ob = bt_len (ob_entries ob)"

definition outbox_is_empty :: "MetadataOutbox \<Rightarrow> bool" where
  "outbox_is_empty ob \<longleftrightarrow> bt_len (ob_entries ob) = 0"

definition count_status :: "MetadataOutboxEntry \<Rightarrow> MetadataOutboxSnapshot \<Rightarrow> MetadataOutboxSnapshot" where
  "count_status entry s =
     (case oe_status entry of
        ObPending \<Rightarrow> s\<lparr>mos_pending := mos_pending s + 1\<rparr>
      | ObAcknowledged \<Rightarrow> s\<lparr>mos_acknowledged := mos_acknowledged s + 1\<rparr>
      | ObFailed \<Rightarrow> s\<lparr>mos_failed := mos_failed s + 1\<rparr>)"

definition outbox_snapshot :: "MetadataOutbox \<Rightarrow> MetadataOutboxSnapshot" where
  "outbox_snapshot ob =
     fold count_status (bt_values (ob_entries ob))
       \<lparr>mos_total = bt_len (ob_entries ob), mos_pending = 0, mos_acknowledged = 0, mos_failed = 0,
        mos_queued_pending = length (ob_pending ob)\<rparr>"

definition shard_entries ::
  "DataIndividualShardId \<Rightarrow> IptoInstanceId \<Rightarrow> MetadataOutbox \<Rightarrow> (RecordOffset \<times> MetadataOutboxEntry) list" where
  "shard_entries shard_id target ob =
     sort_key fst (List.map_filter (\<lambda>entry. map_option (\<lambda>offset. (offset, entry)) (oe_record_offset entry))
       (filter (\<lambda>entry. wp_target (oe_payload entry) = target \<and> wp_shard_id (oe_payload entry) = shard_id)
         (bt_values (ob_entries ob))))"

definition outbox_acknowledged_checkpoint ::
  "DataIndividualShardId \<Rightarrow> IptoInstanceId \<Rightarrow> SegmentId \<Rightarrow> CheckpointEpoch \<Rightarrow> MetadataOutbox \<Rightarrow> MetadataOutboxCheckpoint option" where
  "outbox_acknowledged_checkpoint shard_id target segment_id epoch ob =
     (let acked = takeWhile (\<lambda>(_, entry). oe_status entry = ObAcknowledged) (shard_entries shard_id target ob) in
      if acked = [] then None
      else case last acked of (offset, entry) \<Rightarrow>
        Some \<lparr>oc_data_individual_shard_id = shard_id, oc_target = target, oc_segment_id = segment_id,
              oc_last_acknowledged_offset = offset, oc_mapping_version = wp_mapping_version (oe_payload entry),
              oc_epoch = epoch\<rparr>)"

definition outbox_acknowledged_checkpoints_for_target ::
  "IptoInstanceId \<Rightarrow> SegmentId \<Rightarrow> CheckpointEpoch \<Rightarrow> MetadataOutbox \<Rightarrow> MetadataOutboxCheckpoint list" where
  "outbox_acknowledged_checkpoints_for_target target segment_id epoch ob =
     (let shards = sorted_list_of_set (set (map (\<lambda>entry. wp_shard_id (oe_payload entry))
            (filter (\<lambda>entry. wp_target (oe_payload entry) = target) (bt_values (ob_entries ob)))))
      in List.map_filter (\<lambda>shard. outbox_acknowledged_checkpoint shard target segment_id epoch ob) shards)"

subsection \<open>Delivery\<close>

type_synonym 'w ipto_write = "'w \<Rightarrow> IptoWritePayload \<Rightarrow> 'w \<times> (IptoWriteError + unit)"

datatype MetadataOutboxDeliveryResult =
  DrNoPending
| DrAcknowledged IdempotencyKey
| DrFailed IdempotencyKey bool string

definition deliver_entry ::
  "'w ipto_write \<Rightarrow> MetadataOutboxEntry option \<Rightarrow> MetadataOutbox \<Rightarrow> 'w \<Rightarrow> MetadataOutbox \<times> 'w \<times> MetadataOutboxDeliveryResult" where
  "deliver_entry write nxt ob w =
     (case map_option oe_payload nxt of
        None \<Rightarrow> (ob, w, DrNoPending)
      | Some payload \<Rightarrow>
          let key = wp_idempotency_key payload in
          (case write w payload of
             (w', Inr _) \<Rightarrow> (fst (acknowledge key ob), w', DrAcknowledged key)
           | (w', Inl err) \<Rightarrow>
               (fst (fail_with_retryability key (we_message err) (we_retryable err) ob), w',
                DrFailed key (we_retryable err) (we_message err))))"

definition deliver_next_pending ::
  "'w ipto_write \<Rightarrow> MetadataOutbox \<Rightarrow> 'w \<Rightarrow> MetadataOutbox \<times> 'w \<times> MetadataOutboxDeliveryResult" where
  "deliver_next_pending write ob w = deliver_entry write (next_pending ob) ob w"

definition deliver_next_pending_for_target ::
  "'w ipto_write \<Rightarrow> IptoInstanceId \<Rightarrow> MetadataOutbox \<Rightarrow> 'w \<Rightarrow> MetadataOutbox \<times> 'w \<times> MetadataOutboxDeliveryResult" where
  "deliver_next_pending_for_target write target ob w = deliver_entry write (next_pending_for_target target ob) ob w"

record MetadataOutboxDrainSummary =
  ds_attempted :: nat
  ds_acknowledged :: nat
  ds_failed :: nat
  ds_stopped_after_failure :: bool

definition drain_summary_empty :: MetadataOutboxDrainSummary where
  "drain_summary_empty = \<lparr>ds_attempted = 0, ds_acknowledged = 0, ds_failed = 0, ds_stopped_after_failure = False\<rparr>"

definition drain_is_empty :: "MetadataOutboxDrainSummary \<Rightarrow> bool" where
  "drain_is_empty s \<longleftrightarrow> ds_attempted s = 0"

fun drain_loop ::
  "(MetadataOutbox \<Rightarrow> 'w \<Rightarrow> MetadataOutbox \<times> 'w \<times> MetadataOutboxDeliveryResult) \<Rightarrow> nat \<Rightarrow>
   MetadataOutbox \<Rightarrow> 'w \<Rightarrow> MetadataOutboxDrainSummary \<Rightarrow> MetadataOutbox \<times> 'w \<times> MetadataOutboxDrainSummary" where
  "drain_loop deliver 0 ob w s = (ob, w, s)"
| "drain_loop deliver (Suc n) ob w s =
     (case deliver ob w of
        (ob', w', DrNoPending) \<Rightarrow> (ob', w', s)
      | (ob', w', DrAcknowledged _) \<Rightarrow>
          drain_loop deliver n ob' w'
            (s\<lparr>ds_attempted := ds_attempted s + 1, ds_acknowledged := ds_acknowledged s + 1\<rparr>)
      | (ob', w', DrFailed _ retryable _) \<Rightarrow>
          let s = s\<lparr>ds_attempted := ds_attempted s + 1, ds_failed := ds_failed s + 1,
                    ds_stopped_after_failure := retryable\<rparr>
          in if retryable then (ob', w', s) else drain_loop deliver n ob' w' s)"

definition drain_pending_outbox ::
  "'w ipto_write \<Rightarrow> nat \<Rightarrow> MetadataOutbox \<Rightarrow> 'w \<Rightarrow> MetadataOutbox \<times> 'w \<times> MetadataOutboxDrainSummary" where
  "drain_pending_outbox write max_attempts ob w =
     drain_loop (deliver_next_pending write) max_attempts ob w drain_summary_empty"

definition drain_pending_outbox_for_target ::
  "'w ipto_write \<Rightarrow> IptoInstanceId \<Rightarrow> nat \<Rightarrow> MetadataOutbox \<Rightarrow> 'w \<Rightarrow> MetadataOutbox \<times> 'w \<times> MetadataOutboxDrainSummary" where
  "drain_pending_outbox_for_target write target max_attempts ob w =
     drain_loop (deliver_next_pending_for_target write target) max_attempts ob w drain_summary_empty"

subsection \<open>The invariant\<close>

definition outbox_wf :: "MetadataOutbox \<Rightarrow> bool" where
  "outbox_wf ob \<longleftrightarrow>
     distinct (ob_pending ob) \<and>
     (\<forall>k. k \<in> set (ob_pending ob) \<longleftrightarrow>
        (\<exists>entry. bt_get (ob_entries ob) k = Some entry \<and> oe_status entry = ObPending)) \<and>
     (\<forall>k entry. bt_get (ob_entries ob) k = Some entry \<longrightarrow> wp_idempotency_key (oe_payload entry) = k)"

lemma outbox_wf_new: "outbox_wf MetadataOutbox_new"
  by (simp add: outbox_wf_def MetadataOutbox_new_def)

lemma outbox_wf_enqueue: "outbox_wf ob \<Longrightarrow> outbox_wf (fst (enqueue_with_offset p off ob))"
  by (auto simp: outbox_wf_def enqueue_with_offset_def Let_def bt_contains_key_iff bt_get_insert)

lemma outbox_wf_acknowledge: "outbox_wf ob \<Longrightarrow> outbox_wf (fst (acknowledge k ob))"
  by (auto simp: outbox_wf_def acknowledge_def bt_get_insert split: option.split)

lemma outbox_wf_fail: "outbox_wf ob \<Longrightarrow> outbox_wf (fst (fail_with_retryability k err r ob))"
  by (auto simp: outbox_wf_def fail_with_retryability_def bt_get_insert split: option.split)

lemma outbox_wf_retry: "outbox_wf ob \<Longrightarrow> outbox_wf (fst (retry_failed k ob))"
  by (auto simp: outbox_wf_def retry_failed_def bt_get_insert split: option.split)

lemma outbox_wf_retry_target: "outbox_wf ob \<Longrightarrow> outbox_wf (fst (retry_failed_for_target t ob))"
proof -
  have "outbox_wf (fold (\<lambda>key ob. fst (retry_failed key ob)) keys ob)" if "outbox_wf ob" for keys
    using that by (induction keys arbitrary: ob) (simp_all add: outbox_wf_retry)
  then show "outbox_wf ob \<Longrightarrow> ?thesis" by (simp add: retry_failed_for_target_def Let_def)
qed

lemma outbox_wf_deliver: "outbox_wf ob \<Longrightarrow> outbox_wf (fst (deliver_entry write nxt ob w))"
  by (auto simp: deliver_entry_def Let_def outbox_wf_acknowledge outbox_wf_fail split: option.split prod.split sum.split)

subsection \<open>What a drain does\<close>

definition entry_key :: "MetadataOutboxEntry \<Rightarrow> IdempotencyKey" where
  "entry_key entry = wp_idempotency_key (oe_payload entry)"

definition pending_entries :: "MetadataOutbox \<Rightarrow> MetadataOutboxEntry list" where
  "pending_entries ob = map (\<lambda>k. the (bt_get (ob_entries ob) k)) (ob_pending ob)"

fun retryable_failure :: "IptoWriteError + unit \<Rightarrow> bool" where
  "retryable_failure (Inl err) \<longleftrightarrow> we_retryable err"
| "retryable_failure (Inr _) \<longleftrightarrow> False"

fun deliver_list ::
  "'w ipto_write \<Rightarrow> 'w \<Rightarrow> IptoWritePayload list \<Rightarrow> 'w \<times> (IptoWritePayload \<times> (IptoWriteError + unit)) list" where
  "deliver_list write w [] = (w, [])"
| "deliver_list write w (p # ps) =
     (case write w p of
        (w', r) \<Rightarrow>
          if retryable_failure r then (w', [(p, r)])
          else (case deliver_list write w' ps of (w'', rs) \<Rightarrow> (w'', (p, r) # rs)))"

definition apply_result :: "IptoWritePayload \<times> (IptoWriteError + unit) \<Rightarrow> MetadataOutbox \<Rightarrow> MetadataOutbox" where
  "apply_result pr ob =
     (case pr of
        (p, Inr _) \<Rightarrow> fst (acknowledge (wp_idempotency_key p) ob)
      | (p, Inl err) \<Rightarrow> fst (fail_with_retryability (wp_idempotency_key p) (we_message err) (we_retryable err) ob))"

definition drain_summary :: "(IptoWritePayload \<times> (IptoWriteError + unit)) list \<Rightarrow> MetadataOutboxDrainSummary \<Rightarrow> MetadataOutboxDrainSummary" where
  "drain_summary rs s =
     \<lparr>ds_attempted = ds_attempted s + length rs,
      ds_acknowledged = ds_acknowledged s + length (filter (\<lambda>(p, r). is_ok r) rs),
      ds_failed = ds_failed s + length (filter (\<lambda>(p, r). \<not> is_ok r) rs),
      ds_stopped_after_failure = list_ex (\<lambda>(p, r). retryable_failure r) rs\<rparr>"

lemma map_filter_Some: "(\<And>x. x \<in> set xs \<Longrightarrow> f x = Some (g x)) \<Longrightarrow> List.map_filter f xs = map g xs"
  by (induction xs) simp_all

lemma pending_entry:
  assumes "outbox_wf ob" "k \<in> set (ob_pending ob)"
  obtains e where "bt_get (ob_entries ob) k = Some e" "entry_key e = k" "oe_status e = ObPending"
  using assms by (fastforce simp: outbox_wf_def entry_key_def)

lemma pending_entries_wf:
  assumes "outbox_wf ob"
  shows "map entry_key (pending_entries ob) = ob_pending ob"
    and "\<forall>e \<in> set (pending_entries ob). oe_status e = ObPending"
    and "List.map_filter (bt_get (ob_entries ob)) (ob_pending ob) = pending_entries ob"
proof -
  have get: "bt_get (ob_entries ob) k = Some (the (bt_get (ob_entries ob) k))"
    and key: "entry_key (the (bt_get (ob_entries ob) k)) = k"
    and stat: "oe_status (the (bt_get (ob_entries ob) k)) = ObPending" if "k \<in> set (ob_pending ob)" for k
    using pending_entry [OF assms that] by (metis option.sel)+
  show "map entry_key (pending_entries ob) = ob_pending ob"
    unfolding pending_entries_def map_map by (rule map_idI) (simp add: key)
  show "\<forall>e \<in> set (pending_entries ob). oe_status e = ObPending"
    unfolding pending_entries_def by (simp add: stat)
  show "List.map_filter (bt_get (ob_entries ob)) (ob_pending ob) = pending_entries ob"
    unfolding pending_entries_def by (rule map_filter_Some) (rule get)
qed

definition touches_only :: "IdempotencyKey \<Rightarrow> MetadataOutbox \<Rightarrow> MetadataOutbox \<Rightarrow> bool" where
  "touches_only k ob ob' \<longleftrightarrow>
     ob_pending ob' = filter (\<lambda>k'. k' \<noteq> k) (ob_pending ob) \<and>
     (\<forall>k'. k' \<noteq> k \<longrightarrow> bt_get (ob_entries ob') k' = bt_get (ob_entries ob) k')"

lemma pending_entries_touch:
  assumes "outbox_wf ob" "touches_only k ob ob'"
  shows "pending_entries ob' = filter (\<lambda>e. entry_key e \<noteq> k) (pending_entries ob)"
proof -
  have key: "entry_key (the (bt_get (ob_entries ob) k')) = k'" if "k' \<in> set (ob_pending ob)" for k'
    using pending_entry [OF assms(1) that] by (metis option.sel)
  have "filter (\<lambda>e. entry_key e \<noteq> k) (pending_entries ob)
      = map (\<lambda>k'. the (bt_get (ob_entries ob) k')) (filter (\<lambda>k'. k' \<noteq> k) (ob_pending ob))"
    unfolding pending_entries_def filter_map comp_def
    by (rule arg_cong [where f = "map _"], rule filter_cong) (simp_all add: key)
  with assms(2) show ?thesis by (simp add: pending_entries_def touches_only_def)
qed

lemma apply_result_touches:
  assumes "bt_get (ob_entries ob) (wp_idempotency_key p) \<noteq> None"
  shows "touches_only (wp_idempotency_key p) ob (apply_result (p, r) ob)"
  using assms
  by (auto simp: touches_only_def apply_result_def acknowledge_def fail_with_retryability_def split: sum.split)

lemma outbox_wf_apply_result: "outbox_wf ob \<Longrightarrow> outbox_wf (apply_result pr ob)"
  by (auto simp: apply_result_def outbox_wf_acknowledge outbox_wf_fail split: prod.split sum.split)

lemma filter_tail:
  assumes "filter P xs = x # ys" "distinct (map f xs)"
  shows "filter P (filter (\<lambda>y. f y \<noteq> f x) xs) = ys"
proof -
  have d: "distinct (map f (filter P xs))" using assms(2) by (rule distinct_map_filter)
  have "filter P (filter (\<lambda>y. f y \<noteq> f x) xs) = filter (\<lambda>y. f y \<noteq> f x) (filter P xs)"
    by (simp add: conj_commute)
  also have "\<dots> = ys" using d unfolding assms(1) by (simp add: filter_id_conv image_iff) metis
  finally show ?thesis .
qed

lemma find_filter: "find P xs = (case filter P xs of [] \<Rightarrow> None | x # _ \<Rightarrow> Some x)"
  by (induction xs) auto

text \<open>The drain loop over any choice of pending entries refines \<open>deliver_list\<close>.\<close>

lemma drain_loop_refines:
  assumes deliver: "\<And>ob w. outbox_wf ob \<Longrightarrow> deliver ob w = deliver_entry write (find P (pending_entries ob)) ob w"
    and "outbox_wf ob" "\<not> ds_stopped_after_failure s"
    and "deliver_list write w (take n (map oe_payload (filter P (pending_entries ob)))) = (w', rs)"
  shows "drain_loop deliver n ob w s = (fold apply_result rs ob, w', drain_summary rs s)"
  using assms(2-)
proof (induction n arbitrary: ob w s rs)
  case 0
  then show ?case by (simp add: drain_summary_def)
next
  case (Suc n)
  show ?case
  proof (cases "filter P (pending_entries ob)")
    case Nil
    then have "find P (pending_entries ob) = None" by (simp add: find_filter)
    with Nil Suc.prems show ?thesis
      by (simp add: deliver deliver_entry_def drain_summary_def)
  next
    case (Cons e es)
    let ?p = "oe_payload e" and ?k = "entry_key e"
    have "e \<in> set (filter P (pending_entries ob))" unfolding Cons by simp
    then have e: "e \<in> set (pending_entries ob)" by simp
    then have "?k \<in> set (ob_pending ob)" using pending_entries_wf(1) [OF Suc.prems(1)] by (metis image_eqI set_map)
    then have in_ob: "bt_get (ob_entries ob) (wp_idempotency_key ?p) \<noteq> None"
      using pending_entry [OF Suc.prems(1)] by (metis entry_key_def option.distinct(1))
    obtain w1 r where wr: "write w ?p = (w1, r)" by fastforce
    let ?ob = "apply_result (?p, r) ob"
    have "distinct (map entry_key (pending_entries ob))"
      using pending_entries_wf(1) [OF Suc.prems(1)] Suc.prems(1) by (simp add: outbox_wf_def)
    with filter_tail [OF Cons this] pending_entries_touch [OF Suc.prems(1) apply_result_touches [OF in_ob, of r]]
    have rest: "filter P (pending_entries ?ob) = es" by (simp add: entry_key_def)
    note IH = Suc.IH [OF outbox_wf_apply_result [OF Suc.prems(1), of "(?p, r)"], unfolded rest]
    have del: "deliver ob w = (?ob, w1, case r of Inr _ \<Rightarrow> DrAcknowledged (wp_idempotency_key ?p)
        | Inl err \<Rightarrow> DrFailed (wp_idempotency_key ?p) (we_retryable err) (we_message err))"
      using Cons wr
      by (simp add: deliver [OF Suc.prems(1)] find_filter deliver_entry_def apply_result_def Let_def split: sum.split)
    show ?thesis
    proof (cases "retryable_failure r")
      case True
      then obtain err where "r = Inl err" "we_retryable err" by (cases r) auto
      with Suc.prems(3) Cons wr del show ?thesis by (auto simp: drain_summary_def Let_def)
    next
      case False
      with Suc.prems(3) Cons wr obtain rs' where rs: "rs = (?p, r) # rs'"
          "deliver_list write w1 (take n (map oe_payload es)) = (w', rs')"
        by (auto split: prod.splits)
      show ?thesis
      proof (cases r)
        case (Inl err)
        with False IH [OF _ rs(2), of "s\<lparr>ds_attempted := ds_attempted s + 1, ds_failed := ds_failed s + 1,
                    ds_stopped_after_failure := False\<rparr>"] del rs(1)
        show ?thesis by (simp add: drain_summary_def Let_def)
      next
        case (Inr u)
        with IH [OF _ rs(2), of "s\<lparr>ds_attempted := ds_attempted s + 1, ds_acknowledged := ds_acknowledged s + 1\<rparr>"]
          del rs(1) Suc.prems(2)
        show ?thesis by (simp add: drain_summary_def)
      qed
    qed
  qed
qed

lemma next_pending_find:
  assumes "outbox_wf ob"
  shows "next_pending ob = find (\<lambda>_. True) (pending_entries ob)"
    and "next_pending_for_target t ob = find (\<lambda>e. wp_target (oe_payload e) = t) (pending_entries ob)"
  using pending_entries_wf(2,3) [OF assms]
  by (auto simp: next_pending_def next_pending_for_target_def intro!: find_cong)

lemma fst_deliver_list_take: "length (snd (deliver_list write w ps)) \<le> length ps \<and>
    map fst (snd (deliver_list write w ps)) = take (length (snd (deliver_list write w ps))) ps"
proof (induction ps arbitrary: w)
  case (Cons p ps)
  obtain w' r where wr: "write w p = (w', r)" by fastforce
  show ?case using Cons.IH [of w'] by (cases "deliver_list write w' ps") (simp add: wr)
qed simp

subsection \<open>Counting\<close>

lemma snapshot_fold:
  "fold count_status es s =
     s\<lparr>mos_pending := mos_pending s + length (filter (\<lambda>e. oe_status e = ObPending) es),
       mos_acknowledged := mos_acknowledged s + length (filter (\<lambda>e. oe_status e = ObAcknowledged) es),
       mos_failed := mos_failed s + length (filter (\<lambda>e. oe_status e = ObFailed) es)\<rparr>"
  by (induction es arbitrary: s) (simp_all add: count_status_def split: OutboxStatus.split)

lemma length_status_split:
  "length (filter (\<lambda>e. oe_status e = ObPending) es) + length (filter (\<lambda>e. oe_status e = ObAcknowledged) es)
     + length (filter (\<lambda>e. oe_status e = ObFailed) es) = length es"
proof (induction es)
  case (Cons e es)
  then show ?case by (cases "oe_status e") simp_all
qed simp

lemma pending_count:
  assumes "outbox_wf ob"
  shows "length (filter (\<lambda>e. oe_status e = ObPending) (bt_values (ob_entries ob))) = length (ob_pending ob)"
proof -
  let ?ks = "filter (\<lambda>k. oe_status (the (bt_get (ob_entries ob) k)) = ObPending) (bt_keys (ob_entries ob))"
  have "set ?ks = set (ob_pending ob)"
    using assms by (auto simp: outbox_wf_def set_bt_keys)
  moreover have "distinct ?ks" using bt_keys_sorted [of "ob_entries ob"] by (simp add: strict_sorted_iff)
  ultimately have "length ?ks = length (ob_pending ob)"
    using assms by (metis distinct_card outbox_wf_def)
  then show ?thesis by (simp add: bt_values_get filter_map comp_def)
qed

subsection \<open>Histories\<close>

text \<open>
  Every operation a client can perform. The writer's state is taken to be the list of the payloads
  it has been handed, which determines its answer; a single delivery can have any answer.
\<close>

inductive outbox_step :: "MetadataOutbox \<Rightarrow> MetadataOutbox \<Rightarrow> bool" where
  step_enqueue: "outbox_step ob (fst (enqueue_with_offset p off ob))"
| step_acknowledge: "outbox_step ob (fst (acknowledge k ob))"
| step_fail: "outbox_step ob (fst (fail_with_retryability k err r ob))"
| step_retry: "outbox_step ob (fst (retry_failed k ob))"
| step_retry_target: "outbox_step ob (fst (retry_failed_for_target t ob))"
| step_deliver: "deliver_next_pending (write :: IptoWritePayload list ipto_write) ob w = (ob', w', res) \<Longrightarrow> outbox_step ob ob'"
| step_deliver_target: "deliver_next_pending_for_target (write :: IptoWritePayload list ipto_write) t ob w = (ob', w', res) \<Longrightarrow> outbox_step ob ob'"

lemma outbox_step_wf: "outbox_step ob ob' \<Longrightarrow> outbox_wf ob \<Longrightarrow> outbox_wf ob'"
proof (induction rule: outbox_step.induct)
  case (step_deliver wr ob w ob' w' res)
  then show ?case using outbox_wf_deliver [of ob wr "next_pending ob" w] by (simp add: deliver_next_pending_def)
next
  case (step_deliver_target wr t ob w ob' w' res)
  then show ?case using outbox_wf_deliver [of ob wr "next_pending_for_target t ob" w]
    by (simp add: deliver_next_pending_for_target_def)
qed (simp_all add: outbox_wf_enqueue outbox_wf_acknowledge outbox_wf_fail outbox_wf_retry outbox_wf_retry_target)

lemma lookup_enqueue:
  "map_option oe_payload (bt_get (ob_entries (fst (enqueue_with_offset p off ob))) k) =
     (if k = wp_idempotency_key p \<and> True \<and> map_option oe_payload (bt_get (ob_entries ob) (wp_idempotency_key p)) = None
      then Some p else map_option oe_payload (bt_get (ob_entries ob) k))"
  by (auto simp: enqueue_with_offset_def Let_def bt_contains_key_iff bt_get_insert)

interpretation outbox_store: dedup_store "\<lambda>p ob. fst (outbox_enqueue p ob)"
  "\<lambda>ob k. map_option oe_payload (bt_get (ob_entries ob) k)" wp_idempotency_key "\<lambda>_. True"
  by unfold_locales (simp only: outbox_enqueue_def lookup_enqueue)

subsection \<open>Properties\<close>

text \<open>
  (C11) Whatever sequence of enqueues, acknowledgements, failures, retries and deliveries led to an
  outbox, its queue holds exactly the keys of the pending entries, each once, and the snapshot
  adds up: the pending count is the length of the queue, and pending, acknowledged and failed
  entries are all entries.
\<close>

theorem outbox_invariant:
  assumes "outbox_step\<^sup>*\<^sup>* MetadataOutbox_new ob"
  shows "outbox_wf ob \<and>
    mos_pending (outbox_snapshot ob) = mos_queued_pending (outbox_snapshot ob) \<and>
    mos_pending (outbox_snapshot ob) + mos_acknowledged (outbox_snapshot ob) + mos_failed (outbox_snapshot ob)
      = mos_total (outbox_snapshot ob)"
proof -
  from assms have wf: "outbox_wf ob"
    by (induction rule: rtranclp_induct) (auto intro: outbox_wf_new outbox_step_wf)
  have "length (bt_values (ob_entries ob)) = bt_len (ob_entries ob)" by (simp add: bt_values_def bt_len_def)
  with wf pending_count [OF wf] length_status_split [of "bt_values (ob_entries ob)"] show ?thesis
    by (simp add: outbox_snapshot_def snapshot_fold)
qed

lemma outbox_invariant_witness:
  "outbox_wf (fst (acknowledge ''data:m1'' (fst (enqueue_with_offset (sample_payload ''m1'') None MetadataOutbox_new))))"
proof -
  have "outbox_step\<^sup>*\<^sup>* MetadataOutbox_new
      (fst (acknowledge ''data:m1'' (fst (enqueue_with_offset (sample_payload ''m1'') None MetadataOutbox_new))))"
    by (rule rtranclp.rtrancl_into_rtrancl [OF r_into_rtranclp [of outbox_step, OF step_enqueue] step_acknowledge])
  from outbox_invariant [OF this] show ?thesis by blast
qed

text \<open>
  (C29) A drain hands the pending payloads to the writer in queue order, at most \<open>max_attempts\<close> of
  them, none twice, and stops after the first retryable failure. The writer's state, the outbox
  and the summary afterwards are those of delivering that list; a drain for one target touches
  no payload of another.
\<close>

theorem drain_delivers_in_order:
  assumes "outbox_wf ob"
    and "deliver_list write w (take n (map oe_payload (pending_entries ob))) = (w1, rs)"
    and "deliver_list write w (take n (map oe_payload (filter (\<lambda>e. wp_target (oe_payload e) = t) (pending_entries ob))))
      = (w2, rs')"
  shows "drain_pending_outbox write n ob w = (fold apply_result rs ob, w1, drain_summary rs drain_summary_empty) \<and>
    drain_pending_outbox_for_target write t n ob w
      = (fold apply_result rs' ob, w2, drain_summary rs' drain_summary_empty) \<and>
    map fst rs = take (length rs) (map oe_payload (pending_entries ob)) \<and> length rs \<le> n \<and>
    list_all (\<lambda>(p, r). wp_target p = t) rs'"
proof -
  have "filter (\<lambda>_. True) (pending_entries ob) = pending_entries ob" by simp
  then have "drain_pending_outbox write n ob w = (fold apply_result rs ob, w1, drain_summary rs drain_summary_empty)"
    unfolding drain_pending_outbox_def using assms(1,2)
    by (intro drain_loop_refines [where P = "\<lambda>_. True"])
      (simp_all add: deliver_next_pending_def next_pending_find drain_summary_empty_def)
  moreover have "drain_pending_outbox_for_target write t n ob w
      = (fold apply_result rs' ob, w2, drain_summary rs' drain_summary_empty)"
    unfolding drain_pending_outbox_for_target_def using assms(1,3)
    by (intro drain_loop_refines)
      (simp_all add: deliver_next_pending_for_target_def next_pending_find drain_summary_empty_def)
  moreover have "map fst rs = take (length rs) (map oe_payload (pending_entries ob)) \<and> length rs \<le> n"
    using fst_deliver_list_take [of "write" w "take n (map oe_payload (pending_entries ob))"] assms(2)
    by (simp add: min_def split: if_splits)
  moreover have "set (map fst rs') \<subseteq> {p. wp_target p = t}"
    using fst_deliver_list_take [of "write" w
        "take n (map oe_payload (filter (\<lambda>e. wp_target (oe_payload e) = t) (pending_entries ob)))"] assms(3)
    by (auto dest!: in_set_takeD)
  ultimately show ?thesis by (auto simp: list_all_iff)
qed

definition always_ok :: "nat ipto_write" where
  "always_ok n p = (n + 1, Ok ())"

lemma drain_delivers_in_order_witness:
  "snd (drain_pending_outbox always_ok 5 (fst (outbox_enqueue (sample_payload ''m1'') MetadataOutbox_new)) 0)
   = (1, \<lparr>ds_attempted = 1, ds_acknowledged = 1, ds_failed = 0, ds_stopped_after_failure = False\<rparr>)"
proof -
  let ?ob = "fst (outbox_enqueue (sample_payload ''m1'') MetadataOutbox_new)"
  have wf: "outbox_wf ?ob" unfolding outbox_enqueue_def by (rule outbox_wf_enqueue [OF outbox_wf_new])
  have "map oe_payload (pending_entries ?ob) = [sample_payload ''m1'']"
    by (simp add: pending_entries_def outbox_enqueue_def enqueue_with_offset_def MetadataOutbox_new_def Let_def
        bt_contains_key_iff)
  then have "deliver_list always_ok 0 (take 5 (map oe_payload (pending_entries ?ob))) = (1, [(sample_payload ''m1'', Inr ())])"
    by (simp add: always_ok_def)
  from drain_delivers_in_order [OF wf this prod.collapse [symmetric]]
  show ?thesis by (simp add: drain_summary_def drain_summary_empty_def)
qed

lemma take_while_prefix:
  fixes xs :: "('k::linorder \<times> 'v) list"
  assumes "sorted (map fst xs)" "takeWhile P xs \<noteq> []"
  defines "l \<equiv> last (takeWhile P xs)"
  shows "l \<in> set xs \<and> P l"
    and "x \<in> set xs \<Longrightarrow> fst x < fst l \<Longrightarrow> P x"
    and "x \<in> set xs \<Longrightarrow> fst l < fst x \<Longrightarrow> \<exists>y \<in> set xs. \<not> P y \<and> fst l \<le> fst y \<and> fst y \<le> fst x"
proof -
  let ?a = "takeWhile P xs"
  have l: "l \<in> set ?a" unfolding l_def using assms(2) by (rule last_in_set)
  then show "l \<in> set xs \<and> P l" by (auto dest: set_takeWhileD)
  have upper: "fst y \<le> fst l" if "y \<in> set ?a" for y
  proof -
    obtain ys where ys: "?a = ys @ [l]" using assms(2) l_def by (metis append_butlast_last_id)
    have "sorted (map fst ?a)" using assms(1) by (metis sorted_append map_append takeWhile_dropWhile_id)
    with that show ?thesis unfolding ys by (auto simp: sorted_append)
  qed
  have split: "xs = ?a @ dropWhile P xs" by simp
  have rest: "fst y \<le> fst z" if "y \<in> set ?a" "z \<in> set (dropWhile P xs)" for y z
    using assms(1) that unfolding split [THEN arg_cong [of _ _ "map fst"]] map_append sorted_append by auto
  show "P x" if "x \<in> set xs" "fst x < fst l"
    using that rest [OF l, of x] split by (metis Un_iff leD set_append set_takeWhileD)
  show "\<exists>y \<in> set xs. \<not> P y \<and> fst l \<le> fst y \<and> fst y \<le> fst x" if x: "x \<in> set xs" "fst l < fst x"
  proof -
    have "x \<in> set (dropWhile P xs)" using x upper split by (metis Un_iff leD set_append)
    then obtain y ys where d: "dropWhile P xs = y # ys" by (cases "dropWhile P xs") auto
    have "sorted (map fst (y # ys))" using assms(1) d by (metis sorted_append map_append takeWhile_dropWhile_id)
    then have "fst y \<le> fst x" using \<open>x \<in> set (dropWhile P xs)\<close> d by auto
    moreover have "\<not> P y" using d by (metis dropWhile_eq_Cons_conv)
    moreover have "y \<in> set xs" using d by (metis list.set_intros(1) set_dropWhileD)
    ultimately show ?thesis using rest [OF l, of y] d by auto
  qed
qed

lemma set_shard_entries:
  "(off, e) \<in> set (shard_entries shard target ob) \<longleftrightarrow>
     e \<in> set (bt_values (ob_entries ob)) \<and> wp_target (oe_payload e) = target \<and> wp_shard_id (oe_payload e) = shard \<and>
     oe_record_offset e = Some off"
  by (force simp: shard_entries_def List.map_filter_def)

lemma acknowledged_prefix:
  assumes "outbox_acknowledged_checkpoint shard target seg epoch ob = Some cp"
  shows "\<exists>e. (oc_last_acknowledged_offset cp, e) \<in> set (shard_entries shard target ob) \<and> oe_status e = ObAcknowledged"
    and "(off, e) \<in> set (shard_entries shard target ob) \<Longrightarrow> off < oc_last_acknowledged_offset cp \<Longrightarrow> oe_status e = ObAcknowledged"
    and "(off, e) \<in> set (shard_entries shard target ob) \<Longrightarrow> oc_last_acknowledged_offset cp < off \<Longrightarrow>
      \<exists>off' e'. (off', e') \<in> set (shard_entries shard target ob) \<and> oe_status e' \<noteq> ObAcknowledged \<and>
        oc_last_acknowledged_offset cp \<le> off' \<and> off' \<le> off"
proof -
  let ?es = "shard_entries shard target ob" and ?P = "\<lambda>(_ :: RecordOffset, e). oe_status e = ObAcknowledged"
  have sorted: "sorted (map fst ?es)" by (simp add: shard_entries_def)
  from assms(1) obtain e' where ne: "takeWhile ?P ?es \<noteq> []"
    and last: "last (takeWhile ?P ?es) = (oc_last_acknowledged_offset cp, e')"
    by (auto simp: outbox_acknowledged_checkpoint_def Let_def split: if_splits prod.splits)
  note prefix = take_while_prefix [OF sorted ne, unfolded last]
  show "\<exists>e. (oc_last_acknowledged_offset cp, e) \<in> set ?es \<and> oe_status e = ObAcknowledged" using prefix(1) by auto
  show "oe_status e = ObAcknowledged" if "(off, e) \<in> set ?es" "off < oc_last_acknowledged_offset cp"
    using prefix(2) [OF that(1)] that(2) by simp
  show "\<exists>off' e'. (off', e') \<in> set ?es \<and> oe_status e' \<noteq> ObAcknowledged \<and>
      oc_last_acknowledged_offset cp \<le> off' \<and> off' \<le> off"
    if "(off, e) \<in> set ?es" "oc_last_acknowledged_offset cp < off"
    using prefix(3) [OF that(1)] that(2) by fastforce
qed

lemma checkpoint_entry:
  assumes "outbox_acknowledged_checkpoint shard target seg epoch ob = Some cp"
  shows "oc_data_individual_shard_id cp = shard \<and> oc_target cp = target \<and> oc_segment_id cp = seg \<and> oc_epoch cp = epoch \<and>
    (\<exists>e. (oc_last_acknowledged_offset cp, e) \<in> set (shard_entries shard target ob) \<and> oe_status e = ObAcknowledged \<and>
       oc_mapping_version cp = wp_mapping_version (oe_payload e))"
proof -
  let ?a = "takeWhile (\<lambda>(_, entry). oe_status entry = ObAcknowledged) (shard_entries shard target ob)"
  from assms have "?a \<noteq> []" by (auto simp: outbox_acknowledged_checkpoint_def Let_def split: if_splits)
  then have "last ?a \<in> set ?a" by (rule last_in_set)
  moreover obtain off e where l: "last ?a = (off, e)" by (cases "last ?a")
  ultimately have "(off, e) \<in> set (shard_entries shard target ob) \<and> oe_status e = ObAcknowledged"
    using set_takeWhileD [of "(off, e)"] by force
  with assms l show ?thesis
    by (auto simp: outbox_acknowledged_checkpoint_def Let_def split: if_splits)
qed

lemma checkpoint_None:
  "outbox_acknowledged_checkpoint shard target seg epoch ob \<noteq> None \<longleftrightarrow>
     (\<exists>off e es. shard_entries shard target ob = (off, e) # es \<and> oe_status e = ObAcknowledged)"
  by (cases "shard_entries shard target ob") (auto simp: outbox_acknowledged_checkpoint_def Let_def split: prod.splits)

text \<open>With one entry per offset the first entry is the one with the least offset.\<close>

lemma first_entry:
  assumes "\<And>off e e'. (off, e) \<in> set (shard_entries shard target ob) \<Longrightarrow> (off, e') \<in> set (shard_entries shard target ob) \<Longrightarrow> e = e'"
  shows "(\<exists>off e es. shard_entries shard target ob = (off, e) # es \<and> oe_status e = ObAcknowledged) \<longleftrightarrow>
    (\<exists>off e. (off, e) \<in> set (shard_entries shard target ob) \<and> oe_status e = ObAcknowledged \<and>
       (\<forall>r \<in> set (shard_entries shard target ob). off \<le> fst r))"
proof (cases "shard_entries shard target ob")
  case (Cons x es)
  obtain off e where x: "x = (off, e)" by fastforce
  have "sorted (map fst (shard_entries shard target ob))" by (simp add: shard_entries_def)
  then have least: "\<forall>r \<in> set (shard_entries shard target ob). off \<le> fst r" by (auto simp: Cons x)
  moreover have "e' = e" if "(off', e') \<in> set (shard_entries shard target ob)" "\<forall>r \<in> set (shard_entries shard target ob). off' \<le> fst r" for off' e'
  proof -
    from that(2) least that(1) have "off' = off" by (force simp: Cons x)
    with assms [of off e' e] that(1) show ?thesis by (simp add: Cons x)
  qed
  ultimately show ?thesis unfolding Cons x by (auto simp: Cons x)
qed simp

text \<open>
  (C30) The checkpoint of a shard and target is the end of the acknowledged prefix of its records, which
  have different offsets. There is a checkpoint exactly when the first of these records is acknowledged;
  it carries the shard, target, segment and epoch asked for and the mapping version of the record it
  names. It never covers an unacknowledged record: the record at the checkpoint and every record before
  it are acknowledged. And it is as late as possible: between the checkpoint and any later record,
  that record included, there is one that is not acknowledged.
\<close>

theorem checkpoint_covers_acknowledged_prefix:
  fixes ob shard target seg epoch
  defines "records \<equiv> {(off, e). e \<in> set (bt_values (ob_entries ob)) \<and> wp_target (oe_payload e) = target \<and>
      wp_shard_id (oe_payload e) = shard \<and> oe_record_offset e = Some off}"
    and "acked \<equiv> \<lambda>e. oe_status e = ObAcknowledged"
    and "cp \<equiv> outbox_acknowledged_checkpoint shard target seg epoch ob"
  assumes "inj_on fst records"
  shows "(cp \<noteq> None \<longleftrightarrow> (\<exists>off e. (off, e) \<in> records \<and> acked e \<and> (\<forall>r \<in> records. off \<le> fst r))) \<and>
    (\<forall>c. cp = Some c \<longrightarrow>
      oc_data_individual_shard_id c = shard \<and> oc_target c = target \<and> oc_segment_id c = seg \<and> oc_epoch c = epoch \<and>
      (\<exists>e. (oc_last_acknowledged_offset c, e) \<in> records \<and> oc_mapping_version c = wp_mapping_version (oe_payload e)) \<and>
      (\<forall>off e. (off, e) \<in> records \<and> off \<le> oc_last_acknowledged_offset c \<longrightarrow> acked e) \<and>
      (\<forall>off e. (off, e) \<in> records \<and> oc_last_acknowledged_offset c < off \<longrightarrow>
        (\<exists>off' e'. (off', e') \<in> records \<and> \<not> acked e' \<and> oc_last_acknowledged_offset c < off' \<and> off' \<le> off)))"
proof -
  let ?es = "shard_entries shard target ob"
  have rec: "records = set ?es" by (auto simp: records_def set_shard_entries)
  have unique: "e = e'" if "(off, e) \<in> set ?es" "(off, e') \<in> set ?es" for off e e'
    using that assms(4) [unfolded rec] by (metis fst_conv inj_on_eq_iff prod.inject)
  have "cp \<noteq> None \<longleftrightarrow> (\<exists>off e. (off, e) \<in> set ?es \<and> acked e \<and> (\<forall>r \<in> set ?es. off \<le> fst r))"
    unfolding cp_def acked_def checkpoint_None by (rule first_entry) (use unique in blast)
  moreover have "oc_data_individual_shard_id c = shard \<and> oc_target c = target \<and> oc_segment_id c = seg \<and> oc_epoch c = epoch \<and>
      (\<exists>e. (oc_last_acknowledged_offset c, e) \<in> set ?es \<and> acked e \<and> oc_mapping_version c = wp_mapping_version (oe_payload e))"
    if "cp = Some c" for c
    using checkpoint_entry [OF that [unfolded cp_def]] unfolding acked_def by blast
  moreover note acknowledged_prefix(2,3) [of shard target seg epoch ob, folded cp_def]
  ultimately show ?thesis unfolding rec acked_def by (auto simp: order.order_iff_strict dest: unique, (metis unique)+)
qed

definition acknowledged_sample :: MetadataOutbox where
  "acknowledged_sample =
     (let p = sample_payload ''m1'' in
      fst (acknowledge (wp_idempotency_key p) (fst (enqueue_with_offset p (Some 8) MetadataOutbox_new))))"

lemma acknowledged_sample_checkpoint:
  "outbox_acknowledged_checkpoint (wp_shard_id (sample_payload ''m1'')) (wp_target (sample_payload ''m1'')) seg epoch
     acknowledged_sample =
   Some \<lparr>oc_data_individual_shard_id = wp_shard_id (sample_payload ''m1''), oc_target = wp_target (sample_payload ''m1''),
     oc_segment_id = seg, oc_last_acknowledged_offset = 8, oc_mapping_version = wp_mapping_version (sample_payload ''m1''),
     oc_epoch = epoch\<rparr>"
  by (simp add: acknowledged_sample_def Let_def acknowledge_def enqueue_with_offset_def MetadataOutbox_new_def
      bt_contains_key_iff outbox_acknowledged_checkpoint_def shard_entries_def bt_eval)

lemma checkpoint_covers_acknowledged_prefix_witness:
  "\<exists>c entry. outbox_acknowledged_checkpoint (wp_shard_id (sample_payload ''m1'')) (wp_target (sample_payload ''m1'')) ''seg'' 1
     acknowledged_sample = Some c \<and>
     entry \<in> set (bt_values (ob_entries acknowledged_sample)) \<and> oe_record_offset entry = Some (oc_last_acknowledged_offset c) \<and>
     oc_segment_id c = ''seg'' \<and> oe_status entry = ObAcknowledged"
proof -
  let ?s = "wp_shard_id (sample_payload ''m1'')" and ?t = "wp_target (sample_payload ''m1'')"
  have one: "\<exists>e. bt_values (ob_entries acknowledged_sample) = [e]"
    by (simp add: acknowledged_sample_def Let_def acknowledge_def enqueue_with_offset_def MetadataOutbox_new_def
        bt_contains_key_iff bt_eval)
  have inj: "inj_on fst {(off, e). e \<in> set (bt_values (ob_entries acknowledged_sample)) \<and> wp_target (oe_payload e) = ?t \<and>
      wp_shard_id (oe_payload e) = ?s \<and> oe_record_offset e = Some off}"
    using one by (auto simp: inj_on_def)
  obtain c where c: "outbox_acknowledged_checkpoint ?s ?t ''seg'' 1 acknowledged_sample = Some c"
    using acknowledged_sample_checkpoint by blast
  from checkpoint_covers_acknowledged_prefix [OF inj, of "''seg''" 1, THEN conjunct2, rule_format, OF c] obtain e where
    "oc_segment_id c = ''seg''" "e \<in> set (bt_values (ob_entries acknowledged_sample))" "oe_record_offset e = Some (oc_last_acknowledged_offset c)"
    "oe_status e = ObAcknowledged" by auto
  with c show ?thesis by blast
qed

end
