(* ===== verification/Provenance_Index.thy ===== *)
theory Provenance_Index
  imports Query
begin

text \<open>
  The shard-local provenance index of \<open>src/data.rs\<close>. Its abstract specification is the log of
  accepted metadata events, the first event of every idempotency key: \<open>prov_index_of ix es\<close> relates
  an index to that log, and every map of the index is a grouping of it.
\<close>

datatype DataProvenanceIngestOutcome = PoAccepted | PoDuplicate

record DataProvenanceIndex =
  pi_events_by_idempotency :: "(IdempotencyKey, DataIndividualMetadataEvent) btree"
  pi_events_by_data_individual :: "(DataIndividualId, IdempotencyKey list) btree"
  pi_events_by_process :: "(ProcessInstanceId, IdempotencyKey list) btree"
  pi_events_by_activity :: "(ProcessInstanceId \<times> ActivityId, IdempotencyKey list) btree"
  pi_data_individuals_by_process :: "(ProcessInstanceId, DataIndividualId fset) btree"
  pi_data_individuals_by_activity :: "(ProcessInstanceId \<times> ActivityId, DataIndividualId fset) btree"

record DataProvenanceIndexSnapshot =
  pis_metadata_event_count :: nat
  pis_data_individual_count :: nat
  pis_process_instance_count :: nat
  pis_activity_count :: nat

definition DataProvenanceIndex_new :: DataProvenanceIndex where
  "DataProvenanceIndex_new =
     \<lparr>pi_events_by_idempotency = bt_empty, pi_events_by_data_individual = bt_empty,
      pi_events_by_process = bt_empty, pi_events_by_activity = bt_empty,
      pi_data_individuals_by_process = bt_empty, pi_data_individuals_by_activity = bt_empty\<rparr>"

text \<open>\<open>entry(k).or_default().insert(x)\<close> on a map of ordered sets, and reading such a map.\<close>

definition bt_finsert :: "'k::linorder \<Rightarrow> 'a \<Rightarrow> ('k, 'a fset) btree \<Rightarrow> ('k, 'a fset) btree" where
  "bt_finsert k x m = bt_insert k (case bt_get m k of None \<Rightarrow> {|x|} | Some s \<Rightarrow> finsert x s) m"

definition bt_fset :: "('k::linorder, 'a::linorder fset) btree \<Rightarrow> 'k \<Rightarrow> 'a list" where
  "bt_fset m k = (case bt_get m k of None \<Rightarrow> [] | Some s \<Rightarrow> sorted_list_of_fset s)"

definition index_activity ::
  "IdempotencyKey \<Rightarrow> DataIndividualId \<Rightarrow> (ProcessInstanceId \<times> ActivityId) option \<Rightarrow> DataProvenanceIndex \<Rightarrow> DataProvenanceIndex" where
  "index_activity key data_individual_id activity_key ix =
     (case activity_key of
        None \<Rightarrow> ix
      | Some ak \<Rightarrow>
          ix\<lparr>pi_events_by_activity := bt_push ak key (pi_events_by_activity ix),
             pi_data_individuals_by_activity :=
               bt_finsert ak data_individual_id (pi_data_individuals_by_activity ix)\<rparr>)"

definition activity_key_of :: "DataIndividualMetadataEvent \<Rightarrow> (ProcessInstanceId \<times> ActivityId) option" where
  "activity_key_of event = map_option (\<lambda>a. (dm_process_instance_id event, a)) (dm_activity_id event)"

definition DataProvenanceIndex_ingest ::
  "DataIndividualMetadataEvent \<Rightarrow> DataProvenanceIndex \<Rightarrow> DataProvenanceIndex \<times> DataProvenanceIngestOutcome" where
  "DataProvenanceIndex_ingest event ix =
     (if bt_contains_key (pi_events_by_idempotency ix) (dm_idempotency_key event) then (ix, PoDuplicate)
      else
        (let key = dm_idempotency_key event;
             data_individual_id = dm_data_individual_id event;
             process_instance_id = dm_process_instance_id event;
             ix = ix\<lparr>pi_events_by_data_individual := bt_push data_individual_id key (pi_events_by_data_individual ix),
                     pi_events_by_process := bt_push process_instance_id key (pi_events_by_process ix),
                     pi_data_individuals_by_process :=
                       bt_finsert process_instance_id data_individual_id (pi_data_individuals_by_process ix)\<rparr>;
             ix = index_activity key data_individual_id (activity_key_of event) ix
         in (ix\<lparr>pi_events_by_idempotency := bt_insert key event (pi_events_by_idempotency ix)\<rparr>, PoAccepted)))"

definition events_for_keys :: "DataProvenanceIndex \<Rightarrow> IdempotencyKey list \<Rightarrow> DataIndividualMetadataEvent list" where
  "events_for_keys ix ks = List.map_filter (bt_get (pi_events_by_idempotency ix)) ks"

definition metadata_for_data_individual :: "DataProvenanceIndex \<Rightarrow> DataIndividualMetadataQuery \<Rightarrow> QueryResult" where
  "metadata_for_data_individual ix q =
     QMetadataEvents (events_for_keys ix
       (take (dq_limit q) (bt_list (pi_events_by_data_individual ix) (dq_data_individual_id q))))"

definition metadata_for_process :: "DataProvenanceIndex \<Rightarrow> ProcessMetadataQuery \<Rightarrow> QueryResult" where
  "metadata_for_process ix q =
     QMetadataEvents (events_for_keys ix
       (take (pmq_limit q) (bt_list (pi_events_by_process ix) (pmq_process_instance_id q))))"

definition metadata_for_activity :: "DataProvenanceIndex \<Rightarrow> ActivityMetadataQuery \<Rightarrow> QueryResult" where
  "metadata_for_activity ix q =
     QMetadataEvents (events_for_keys ix
       (take (amq_limit q) (bt_list (pi_events_by_activity ix) (amq_process_instance_id q, amq_activity_id q))))"

definition data_individuals_for_process :: "DataProvenanceIndex \<Rightarrow> ProcessInstanceId \<Rightarrow> DataIndividualId list" where
  "data_individuals_for_process ix p = bt_fset (pi_data_individuals_by_process ix) p"

definition data_individuals_for_activity ::
  "DataProvenanceIndex \<Rightarrow> ProcessInstanceId \<Rightarrow> ActivityId \<Rightarrow> DataIndividualId list" where
  "data_individuals_for_activity ix p a = bt_fset (pi_data_individuals_by_activity ix) (p, a)"

definition DataProvenanceIndex_snapshot :: "DataProvenanceIndex \<Rightarrow> DataProvenanceIndexSnapshot" where
  "DataProvenanceIndex_snapshot ix =
     \<lparr>pis_metadata_event_count = bt_len (pi_events_by_idempotency ix),
      pis_data_individual_count = bt_len (pi_events_by_data_individual ix),
      pis_process_instance_count = bt_len (pi_events_by_process ix),
      pis_activity_count = bt_len (pi_events_by_activity ix)\<rparr>"

subsection \<open>Groupings of a log\<close>

text \<open>
  \<open>grouped f g agg es k\<close> is what a map that files \<open>g e\<close> under \<open>f e\<close> holds under \<open>k\<close> after the events
  \<open>es\<close>: nothing if no event is filed there.
\<close>

definition grouped :: "('e \<Rightarrow> 'k option) \<Rightarrow> ('e list \<Rightarrow> 'v) \<Rightarrow> 'e list \<Rightarrow> 'k \<Rightarrow> 'v option" where
  "grouped f agg es k =
     (let xs = filter (\<lambda>e. f e = Some k) es in if xs = [] then None else Some (agg xs))"

lemma grouped_Nil [simp]: "grouped f agg [] = Map.empty"
  by (simp add: grouped_def fun_eq_iff)

lemma grouped_None: "grouped f agg es k = None \<longleftrightarrow> Some k \<notin> f ` set es"
  by (auto simp: grouped_def Let_def filter_empty_conv image_iff eq_commute [of "Some k"])

lemma grouped_snoc_unfiled: "f e = None \<Longrightarrow> grouped f agg (es @ [e]) = grouped f agg es"
  by (simp add: grouped_def fun_eq_iff)

lemma grouped_push:
  assumes "bt_get m = grouped f (map g) es" "f e = Some k"
  shows "bt_get (bt_push k (g e) m) = grouped f (map g) (es @ [e])"
proof -
  have "bt_list m k = map g (filter (\<lambda>e. f e = Some k) es)"
    using assms(1) by (simp add: bt_list_def grouped_def Let_def)
  then show ?thesis
    using assms by (auto simp: fun_eq_iff bt_push_def bt_get_insert grouped_def Let_def)
qed

lemma grouped_finsert:
  assumes "bt_get m = grouped f (\<lambda>xs. fset_of_list (map g xs)) es" "f e = Some k"
  shows "bt_get (bt_finsert k (g e) m) = grouped f (\<lambda>xs. fset_of_list (map g xs)) (es @ [e])"
  using assms
  by (simp add: fun_eq_iff bt_finsert_def bt_get_insert grouped_def Let_def del: fset_of_list_filter)

lemma bt_list_grouped:
  "bt_get m = grouped f (map g) es \<Longrightarrow> bt_list m k = map g (filter (\<lambda>e. f e = Some k) es)"
  by (simp add: bt_list_def grouped_def Let_def)

lemma bt_fset_grouped:
  "bt_get m = grouped f (\<lambda>xs. fset_of_list (map g xs)) es \<Longrightarrow>
     bt_fset m k = sorted_list_of_set (g ` {e \<in> set es. f e = Some k})"
proof -
  assume m: "bt_get m = grouped f (\<lambda>xs. fset_of_list (map g xs)) es"
  let ?xs = "filter (\<lambda>e. f e = Some k) es"
  have "bt_fset m k = sorted_list_of_set (g ` set ?xs)"
    using m by (cases ?xs)
      (simp_all add: bt_fset_def grouped_def Let_def sorted_list_of_fset.rep_eq fset_of_list.rep_eq
        del: fset_of_list_filter set_filter)
  then show ?thesis by simp
qed

lemma bt_len_grouped:
  "bt_get m = grouped f agg es \<Longrightarrow> bt_len m = card {k. Some k \<in> f ` set es}"
proof -
  assume "bt_get m = grouped f agg es"
  then have "{k. bt_get m k \<noteq> None} = {k. Some k \<in> f ` set es}" by (simp add: grouped_None)
  then show ?thesis by (simp add: bt_len_keys)
qed

subsection \<open>The log of accepted events\<close>

definition prov_accept :: "DataIndividualMetadataEvent \<Rightarrow> DataIndividualMetadataEvent list \<Rightarrow> DataIndividualMetadataEvent list" where
  "prov_accept e es = (if dm_idempotency_key e \<in> dm_idempotency_key ` set es then es else es @ [e])"

definition prov_index_of :: "DataProvenanceIndex \<Rightarrow> DataIndividualMetadataEvent list \<Rightarrow> bool" where
  "prov_index_of ix es \<longleftrightarrow>
     distinct (map dm_idempotency_key es) \<and>
     bt_get (pi_events_by_idempotency ix) = grouped (Some \<circ> dm_idempotency_key) hd es \<and>
     bt_get (pi_events_by_data_individual ix) = grouped (Some \<circ> dm_data_individual_id) (map dm_idempotency_key) es \<and>
     bt_get (pi_events_by_process ix) = grouped (Some \<circ> dm_process_instance_id) (map dm_idempotency_key) es \<and>
     bt_get (pi_events_by_activity ix) = grouped activity_key_of (map dm_idempotency_key) es \<and>
     bt_get (pi_data_individuals_by_process ix)
       = grouped (Some \<circ> dm_process_instance_id) (\<lambda>xs. fset_of_list (map dm_data_individual_id xs)) es \<and>
     bt_get (pi_data_individuals_by_activity ix)
       = grouped activity_key_of (\<lambda>xs. fset_of_list (map dm_data_individual_id xs)) es"

lemma prov_index_of_new: "prov_index_of DataProvenanceIndex_new []"
  by (simp add: prov_index_of_def DataProvenanceIndex_new_def fun_eq_iff)

lemma prov_contains:
  "prov_index_of ix es \<Longrightarrow> bt_contains_key (pi_events_by_idempotency ix) k \<longleftrightarrow> k \<in> dm_idempotency_key ` set es"
  by (auto simp: prov_index_of_def bt_contains_key_iff grouped_None)

lemma grouped_hd_insert:
  assumes "bt_get m = grouped (Some \<circ> key) hd es" "key e \<notin> key ` set es"
  shows "bt_get (bt_insert (key e) e m) = grouped (Some \<circ> key) hd (es @ [e])"
proof -
  have "filter (\<lambda>e'. key e' = key e) es = []" using assms(2) by (simp add: filter_empty_conv image_iff) metis
  with assms(1) show ?thesis by (auto simp: fun_eq_iff bt_get_insert grouped_def Let_def)
qed

lemma prov_index_ingest:
  assumes "prov_index_of ix es"
  shows "prov_index_of (fst (DataProvenanceIndex_ingest e ix)) (prov_accept e es)"
    and "snd (DataProvenanceIndex_ingest e ix) = (if dm_idempotency_key e \<in> dm_idempotency_key ` set es then PoDuplicate else PoAccepted)"
proof -
  note has = prov_contains [OF assms, of "dm_idempotency_key e"]
  show "snd (DataProvenanceIndex_ingest e ix) = (if dm_idempotency_key e \<in> dm_idempotency_key ` set es then PoDuplicate else PoAccepted)"
    by (simp add: DataProvenanceIndex_ingest_def has Let_def)
  show "prov_index_of (fst (DataProvenanceIndex_ingest e ix)) (prov_accept e es)"
  proof (cases "dm_idempotency_key e \<in> dm_idempotency_key ` set es")
    case True
    then show ?thesis using assms by (simp add: DataProvenanceIndex_ingest_def prov_accept_def has)
  next
    case False
    with assms show ?thesis
      by (cases "activity_key_of e")
        (simp_all add: prov_index_of_def DataProvenanceIndex_ingest_def prov_accept_def has Let_def index_activity_def
          grouped_push grouped_finsert grouped_hd_insert grouped_snoc_unfiled)
  qed
qed

definition prov_ingest_all :: "DataIndividualMetadataEvent list \<Rightarrow> DataProvenanceIndex \<Rightarrow> DataProvenanceIndex" where
  "prov_ingest_all evs ix = fold (\<lambda>e ix. fst (DataProvenanceIndex_ingest e ix)) evs ix"

lemma prov_index_ingest_all: "prov_index_of ix es \<Longrightarrow> prov_index_of (prov_ingest_all evs ix) (fold prov_accept evs es)"
  unfolding prov_ingest_all_def by (induction evs arbitrary: ix es) (simp_all add: prov_index_ingest)

lemma prov_keys_fold:
  "dm_idempotency_key ` set (fold prov_accept evs es) = dm_idempotency_key ` set es \<union> dm_idempotency_key ` set evs"
  by (induction evs arbitrary: es) (auto simp: prov_accept_def)

lemma prov_lookup_ingest:
  "bt_get (pi_events_by_idempotency (fst (DataProvenanceIndex_ingest e ix))) k =
     (if k = dm_idempotency_key e \<and> True \<and> bt_get (pi_events_by_idempotency ix) (dm_idempotency_key e) = None
      then Some e else bt_get (pi_events_by_idempotency ix) k)"
  by (auto simp: DataProvenanceIndex_ingest_def Let_def bt_contains_key_iff bt_get_insert index_activity_def
      split: option.split)

interpretation prov_events: dedup_store "\<lambda>e ix. fst (DataProvenanceIndex_ingest e ix)"
  "\<lambda>ix. bt_get (pi_events_by_idempotency ix)" dm_idempotency_key "\<lambda>_. True"
  by unfold_locales (rule prov_lookup_ingest)

lemma filter_distinct_key: "distinct (map f xs) \<Longrightarrow> x \<in> set xs \<Longrightarrow> filter (\<lambda>y. f y = f x) xs = [x]"
proof (induction xs)
  case (Cons y ys)
  then show ?case by (cases "x = y") (auto simp: filter_empty_conv image_iff)
qed simp

lemma events_for_keys_log:
  assumes "prov_index_of ix es" "set xs \<subseteq> set es"
  shows "events_for_keys ix (map dm_idempotency_key xs) = xs"
proof -
  have "bt_get (pi_events_by_idempotency ix) (dm_idempotency_key x) = Some x" if "x \<in> set es" for x
  proof -
    have "filter (\<lambda>e. dm_idempotency_key e = dm_idempotency_key x) es = [x]"
      using assms(1) that by (simp add: prov_index_of_def filter_distinct_key)
    with assms(1) show ?thesis by (simp add: prov_index_of_def grouped_def)
  qed
  with assms(2) show ?thesis by (induction xs) (simp_all add: events_for_keys_def)
qed

lemma events_for_keys_take:
  assumes "prov_index_of ix es"
  shows "events_for_keys ix (take n (map dm_idempotency_key (filter P es))) = take n (filter P es)"
  unfolding take_map using assms by (intro events_for_keys_log) (auto dest: in_set_takeD)

subsection \<open>Properties\<close>

lemma Some_image: "{k. Some k \<in> (\<lambda>x. Some (f x)) ` S} = f ` S"
  by auto

lemma prov_queries_log:
  assumes "prov_index_of ix es"
  shows "metadata_for_data_individual ix dq
      = QMetadataEvents (take (dq_limit dq) (filter (\<lambda>e. dm_data_individual_id e = dq_data_individual_id dq) es))"
    and "metadata_for_process ix pmq
      = QMetadataEvents (take (pmq_limit pmq) (filter (\<lambda>e. dm_process_instance_id e = pmq_process_instance_id pmq) es))"
    and "metadata_for_activity ix amq
      = QMetadataEvents (take (amq_limit amq)
          (filter (\<lambda>e. activity_key_of e = Some (amq_process_instance_id amq, amq_activity_id amq)) es))"
    and "data_individuals_for_process ix p
      = sorted_list_of_set (dm_data_individual_id ` {e \<in> set es. dm_process_instance_id e = p})"
    and "data_individuals_for_activity ix p a
      = sorted_list_of_set (dm_data_individual_id ` {e \<in> set es. activity_key_of e = Some (p, a)})"
  using assms events_for_keys_take [OF assms]
  by (simp_all add: prov_index_of_def metadata_for_data_individual_def metadata_for_process_def
      metadata_for_activity_def data_individuals_for_process_def data_individuals_for_activity_def
      bt_list_grouped bt_fset_grouped)

lemma prov_snapshot_log:
  assumes "prov_index_of ix es"
  shows "DataProvenanceIndex_snapshot ix =
    \<lparr>pis_metadata_event_count = length es,
     pis_data_individual_count = card (dm_data_individual_id ` set es),
     pis_process_instance_count = card (dm_process_instance_id ` set es),
     pis_activity_count = card {k. Some k \<in> activity_key_of ` set es}\<rparr>"
proof -
  have "card (dm_idempotency_key ` set es) = length es"
    using assms by (simp add: prov_index_of_def distinct_card flip: set_map)
  with assms show ?thesis
    by (simp add: prov_index_of_def DataProvenanceIndex_snapshot_def bt_len_grouped Some_image)
qed

text \<open>
  (C31) The provenance index refines the log of accepted metadata events. After any sequence of
  events it holds the first event of every idempotency key; every query answers from the log, in
  the order of acceptance and cut off at the limit; data individuals are listed once, in order;
  the snapshot counts the log, and the next event is a duplicate exactly when its key was seen.
\<close>

theorem provenance_index_refines_log:
  "let ix = prov_ingest_all evs DataProvenanceIndex_new; log = fold prov_accept evs [] in
     (\<forall>k. bt_get (pi_events_by_idempotency ix) k = find (\<lambda>e. dm_idempotency_key e = k) evs) \<and>
     metadata_for_data_individual ix dq
       = QMetadataEvents (take (dq_limit dq) (filter (\<lambda>e. dm_data_individual_id e = dq_data_individual_id dq) log)) \<and>
     metadata_for_process ix pmq
       = QMetadataEvents (take (pmq_limit pmq)
           (filter (\<lambda>e. dm_process_instance_id e = pmq_process_instance_id pmq) log)) \<and>
     metadata_for_activity ix amq
       = QMetadataEvents (take (amq_limit amq) (filter (\<lambda>e. dm_process_instance_id e = amq_process_instance_id amq
           \<and> dm_activity_id e = Some (amq_activity_id amq)) log)) \<and>
     data_individuals_for_process ix p
       = sorted_list_of_set (dm_data_individual_id ` {e \<in> set log. dm_process_instance_id e = p}) \<and>
     data_individuals_for_activity ix p a
       = sorted_list_of_set (dm_data_individual_id `
           {e \<in> set log. dm_process_instance_id e = p \<and> dm_activity_id e = Some a}) \<and>
     pis_metadata_event_count (DataProvenanceIndex_snapshot ix) = length log \<and>
     pis_data_individual_count (DataProvenanceIndex_snapshot ix) = card (dm_data_individual_id ` set log) \<and>
     snd (DataProvenanceIndex_ingest e ix)
       = (if dm_idempotency_key e \<in> dm_idempotency_key ` set evs then PoDuplicate else PoAccepted)"
proof -
  let ?ix = "prov_ingest_all evs DataProvenanceIndex_new" and ?log = "fold prov_accept evs []"
  have log: "prov_index_of ?ix ?log" by (rule prov_index_ingest_all [OF prov_index_of_new])
  have "bt_get (pi_events_by_idempotency ?ix) k = find (\<lambda>e. dm_idempotency_key e = k) evs" for k
    using prov_events.lookup_fold [of evs DataProvenanceIndex_new k]
    by (simp add: prov_ingest_all_def DataProvenanceIndex_new_def)
  moreover have "activity_key_of e = Some (p, a) \<longleftrightarrow> dm_process_instance_id e = p \<and> dm_activity_id e = Some a" for e p a
    by (auto simp: activity_key_of_def)
  ultimately show ?thesis
    by (simp add: Let_def prov_queries_log [OF log] prov_snapshot_log [OF log] prov_index_ingest(2) [OF log]
        prov_keys_fold)
qed

end
