(* ===== verification/Durable_Outbox.thy ===== *)
theory Durable_Outbox
  imports Outbox Record_Log Provenance_Index "HOL-Library.Sublist"
begin

text \<open>
  The segment-backed metadata outbox of \<open>src/ipto.rs\<close>: \<open>SegmentBackedMetadataOutbox\<close> (create,
  \<open>recover_after\<close>, \<open>enqueue_durable\<close>, checkpoints, seal), the replay functions over its segment, the
  rebalancing of a shard range and the replay of provenance facts. \<open>stored ps\<close> is what a segment
  with the payloads \<open>ps\<close> holds: each payload with the offset of its record. Every replay is a fold
  over \<open>stored ps\<close>; the histories \<open>outbox_run\<close> cover failing syncs, duplicates, deliveries and restarts.
\<close>

record SegmentBackedMetadataOutbox =
  bo_outbox :: MetadataOutbox
  bo_writer :: SegmentWriter

datatype DurableOutboxEnqueueResult = DeEnqueued RecordOffset | DeDuplicate

record SegmentBackedMetadataOutboxSnapshot =
  bos_outbox :: MetadataOutboxSnapshot
  bos_segment :: SegmentManifest

record MetadataOutboxReplaySummary =
  ors_checkpoint_offset :: "RecordOffset option"
  ors_scanned_records :: nat
  ors_skipped_records :: nat
  ors_replayed_records :: nat

record MetadataOutboxReplay =
  orp_outbox :: MetadataOutbox
  orp_summary :: MetadataOutboxReplaySummary

record SegmentBackedMetadataOutboxRecovery =
  obr_outbox :: SegmentBackedMetadataOutbox
  obr_summary :: MetadataOutboxReplaySummary

record MetadataOutboxRebalanceSummary =
  rb_entries_found :: nat
  rb_attempted :: nat
  rb_acknowledged :: nat
  rb_failed :: nat

datatype MetadataOutboxStorageError =
  OsSegment SegmentError
| OsPayloadDecode IptoPayloadDecodeError

definition SegmentBackedMetadataOutbox_create ::
  "disk_io \<Rightarrow> fs \<Rightarrow> path \<Rightarrow> SegmentId \<Rightarrow> NodeId \<Rightarrow> fs \<times> (MetadataOutboxStorageError + SegmentBackedMetadataOutbox)" where
  "SegmentBackedMetadataOutbox_create io fs p sid nid =
     (case SegmentWriter_create io fs p sid nid of
        (fs', r) \<Rightarrow> (fs', res_bind (map_err OsSegment r)
          (\<lambda>w. Ok \<lparr>bo_outbox = MetadataOutbox_new, bo_writer = w\<rparr>)))"

definition replay_metadata_outbox_segment_after ::
  "fs \<Rightarrow> path \<Rightarrow> RecordOffset option \<Rightarrow> MetadataOutboxStorageError + MetadataOutboxReplay" where
  "replay_metadata_outbox_segment_after fs p checkpoint_offset =
     res_bind (map_err OsSegment (SegmentReader_open fs p)) (\<lambda>reader.
     res_bind (read_loop OsSegment
       (\<lambda>rec _ (outbox, summary).
          let summary = summary\<lparr>ors_scanned_records := ors_scanned_records summary + 1\<rparr> in
          if (case checkpoint_offset of None \<Rightarrow> False | Some offset \<Rightarrow> rec_offset rec \<le> offset) then
            Ok (outbox, summary\<lparr>ors_skipped_records := ors_skipped_records summary + 1\<rparr>)
          else
            res_bind (map_err OsPayloadDecode (IptoWritePayload_decode (rec_payload rec))) (\<lambda>payload.
            Ok (fst (enqueue_with_offset payload (Some (rec_offset rec)) outbox),
                summary\<lparr>ors_replayed_records := ors_replayed_records summary + 1\<rparr>)))
       reader
       (MetadataOutbox_new,
        \<lparr>ors_checkpoint_offset = checkpoint_offset, ors_scanned_records = 0,
         ors_skipped_records = 0, ors_replayed_records = 0\<rparr>)) (\<lambda>(outbox, summary).
     Ok \<lparr>orp_outbox = outbox, orp_summary = summary\<rparr>))"

definition replay_metadata_outbox_segment :: "fs \<Rightarrow> path \<Rightarrow> MetadataOutboxStorageError + MetadataOutbox" where
  "replay_metadata_outbox_segment fs p =
     res_bind (replay_metadata_outbox_segment_after fs p None) (\<lambda>replay. Ok (orp_outbox replay))"

definition SegmentBackedMetadataOutbox_recover_after ::
  "fs \<Rightarrow> path \<Rightarrow> SegmentId \<Rightarrow> NodeId \<Rightarrow> RecordOffset option \<Rightarrow>
     MetadataOutboxStorageError + SegmentBackedMetadataOutboxRecovery" where
  "SegmentBackedMetadataOutbox_recover_after fs p sid nid checkpoint_offset =
     res_bind (replay_metadata_outbox_segment_after fs p checkpoint_offset) (\<lambda>replay.
     res_bind (map_err OsSegment (SegmentWriter_open_append fs p sid nid)) (\<lambda>writer.
     Ok \<lparr>obr_outbox = \<lparr>bo_outbox = orp_outbox replay, bo_writer = writer\<rparr>,
         obr_summary = orp_summary replay\<rparr>))"

definition enqueue_durable ::
  "disk_io \<Rightarrow> fs \<Rightarrow> IptoWritePayload \<Rightarrow> SegmentBackedMetadataOutbox \<Rightarrow>
     fs \<times> SegmentBackedMetadataOutbox \<times> (MetadataOutboxStorageError + DurableOutboxEnqueueResult)" where
  "enqueue_durable io fs payload b =
     (if bt_contains_key (ob_entries (bo_outbox b)) (wp_idempotency_key payload) then (fs, b, Ok DeDuplicate)
      else
        (case append_record io fs (bo_writer b) (IptoWritePayload_encode payload) of
           (fs', w, Inl e) \<Rightarrow> (fs', b\<lparr>bo_writer := w\<rparr>, Err (OsSegment e))
         | (fs', w, Inr offset) \<Rightarrow>
             (case SegmentWriter_sync io w of
                Inl e \<Rightarrow> (fs', b\<lparr>bo_writer := w\<rparr>, Err (OsSegment e))
              | Inr _ \<Rightarrow>
                  (fs',
                   b\<lparr>bo_writer := w,
                     bo_outbox := fst (enqueue_with_offset payload (Some offset) (bo_outbox b))\<rparr>,
                   Ok (DeEnqueued offset)))))"

definition durable_flush :: "SegmentBackedMetadataOutbox \<Rightarrow> MetadataOutboxStorageError + unit" where
  "durable_flush b = map_err OsSegment (SegmentWriter_flush (bo_writer b))"

definition durable_sync :: "disk_io \<Rightarrow> SegmentBackedMetadataOutbox \<Rightarrow> MetadataOutboxStorageError + unit" where
  "durable_sync io b = map_err OsSegment (SegmentWriter_sync io (bo_writer b))"

definition durable_manifest :: "SegmentBackedMetadataOutbox \<Rightarrow> SegmentManifest" where
  "durable_manifest b = SegmentWriter_manifest (bo_writer b)"

definition durable_snapshot :: "SegmentBackedMetadataOutbox \<Rightarrow> SegmentBackedMetadataOutboxSnapshot" where
  "durable_snapshot b =
     \<lparr>bos_outbox = outbox_snapshot (bo_outbox b), bos_segment = SegmentWriter_manifest (bo_writer b)\<rparr>"

definition durable_acknowledged_checkpoint ::
  "DataIndividualShardId \<Rightarrow> IptoInstanceId \<Rightarrow> CheckpointEpoch \<Rightarrow> SegmentBackedMetadataOutbox \<Rightarrow> MetadataOutboxCheckpoint option" where
  "durable_acknowledged_checkpoint shard target epoch b =
     outbox_acknowledged_checkpoint shard target (sm_segment_id (SegmentWriter_manifest (bo_writer b))) epoch (bo_outbox b)"

definition durable_acknowledged_checkpoints_for_target ::
  "IptoInstanceId \<Rightarrow> CheckpointEpoch \<Rightarrow> SegmentBackedMetadataOutbox \<Rightarrow> MetadataOutboxCheckpoint list" where
  "durable_acknowledged_checkpoints_for_target target epoch b =
     outbox_acknowledged_checkpoints_for_target target
       (sm_segment_id (SegmentWriter_manifest (bo_writer b))) epoch (bo_outbox b)"

definition durable_seal :: "disk_io \<Rightarrow> SegmentBackedMetadataOutbox \<Rightarrow> MetadataOutboxStorageError + SegmentManifest" where
  "durable_seal io b = map_err OsSegment (SegmentWriter_seal io (bo_writer b))"

definition replay_metadata_outbox_segment_for_shard_range ::
  "fs \<Rightarrow> path \<Rightarrow> DataIndividualShardId \<Rightarrow> DataIndividualShardId \<Rightarrow> MetadataOutboxStorageError + MetadataOutbox" where
  "replay_metadata_outbox_segment_for_shard_range fs p start stop =
     res_bind (map_err OsSegment (SegmentReader_open fs p)) (\<lambda>reader.
     read_loop OsSegment
       (\<lambda>rec _ outbox.
          res_bind (map_err OsPayloadDecode (IptoWritePayload_decode (rec_payload rec))) (\<lambda>payload.
          Ok (if wp_shard_id payload \<ge> start \<and> wp_shard_id payload \<le> stop
              then fst (enqueue_with_offset payload (Some (rec_offset rec)) outbox) else outbox)))
       reader MetadataOutbox_new)"

definition rebalance_shard_range_to ::
  "fs \<Rightarrow> path \<Rightarrow> DataIndividualShardId \<Rightarrow> DataIndividualShardId \<Rightarrow> 'w ipto_write \<Rightarrow> 'w \<Rightarrow> nat \<Rightarrow>
     'w \<times> (MetadataOutboxStorageError + MetadataOutboxRebalanceSummary)" where
  "rebalance_shard_range_to fs p start stop write w max_attempts =
     (case replay_metadata_outbox_segment_for_shard_range fs p start stop of
        Inl e \<Rightarrow> (w, Err e)
      | Inr pending \<Rightarrow>
          (case drain_pending_outbox write max_attempts pending w of
             (pending, w', drain) \<Rightarrow>
               (w', Ok \<lparr>rb_entries_found = outbox_len pending, rb_attempted = ds_attempted drain,
                        rb_acknowledged = ds_acknowledged drain, rb_failed = ds_failed drain\<rparr>)))"

definition replay_provenance :: "fs \<Rightarrow> path \<Rightarrow> MetadataOutboxStorageError + DataProvenanceIndex" where
  "replay_provenance fs p =
     res_bind (map_err OsSegment (SegmentReader_open fs p)) (\<lambda>reader.
     read_loop OsSegment
       (\<lambda>rec _ index.
          res_bind (map_err OsPayloadDecode (IptoWritePayload_decode (rec_payload rec))) (\<lambda>payload.
          Ok (case wp_provenance payload of
                None \<Rightarrow> index
              | Some event \<Rightarrow> fst (DataProvenanceIndex_ingest event index))))
       reader DataProvenanceIndex_new)"

subsection \<open>The outbox as a durable log\<close>

interpretation payload_log: durable_log IptoWritePayload_encode IptoWritePayload_decode payload_ok
  by unfold_locales (rule payload_roundtrip; simp add: MAX_RECORD_LEN_def)

definition segment_holds :: "fs \<Rightarrow> SegmentWriter \<Rightarrow> IptoWritePayload list \<Rightarrow> bool" where
  "segment_holds fs w ps \<longleftrightarrow> segment_open fs w (map IptoWritePayload_encode ps) \<and> list_all payload_ok ps"

definition stored :: "IptoWritePayload list \<Rightarrow> (RecordOffset \<times> IptoWritePayload) list" where
  "stored ps = zip (map rec_offset (segment_records (map IptoWritePayload_encode ps))) ps"

definition replayed :: "(RecordOffset \<times> IptoWritePayload) list \<Rightarrow> MetadataOutbox" where
  "replayed rs = fold (\<lambda>(off, p) ob. fst (enqueue_with_offset p (Some off) ob)) rs MetadataOutbox_new"

definition beyond :: "RecordOffset option \<Rightarrow> RecordOffset \<times> IptoWritePayload \<Rightarrow> bool" where
  "beyond cp r \<longleftrightarrow> (case cp of None \<Rightarrow> True | Some off \<Rightarrow> off < fst r)"

lemma map_snd_stored [simp]: "map snd (stored ps) = ps"
  by (simp add: stored_def)

lemma length_stored [simp]: "length (stored ps) = length ps"
  by (simp add: stored_def)

lemma stored_snoc:
  "stored (ps @ [p]) = stored ps @ [(of_nat (length (segment_bytes (map IptoWritePayload_encode ps))), p)]"
  by (simp add: stored_def segment_records_snoc)

lemma stored_ascend:
  "length (segment_bytes (map IptoWritePayload_encode ps)) < 2 ^ 64 \<Longrightarrow> sorted_wrt (<) (map fst (stored ps))"
  by (simp add: stored_def segment_offsets_ascend)

lemma fold_zip_records:
  "length rs = length xs \<Longrightarrow>
     fold (\<lambda>(rec, x). f (rec_offset rec) x) (zip rs xs) s = fold (\<lambda>(off, x). f off x) (zip (map rec_offset rs) xs) s"
  by (induction rs xs arbitrary: s rule: list_induct2) simp_all

text \<open>
  A replay loop whose body is \<open>step off x\<close> on a record at \<open>off\<close> that decodes to \<open>x\<close> folds \<open>step\<close> over
  the stored payloads.
\<close>

lemma replay_stored:
  assumes "segment_holds fs w ps"
    and "\<And>rec x s. x \<in> set ps \<Longrightarrow> IptoWritePayload_decode (rec_payload rec) = Inr x \<Longrightarrow> b rec s = Inr (step (rec_offset rec) x s)"
  shows "\<exists>reader. SegmentReader_open fs (sw_path w) = Inr reader \<and>
    read_loop OsSegment (\<lambda>rec r. b rec) reader s = Inr (fold (\<lambda>(off, x). step off x) (stored ps) s)"
proof -
  from payload_log.replay_records [of fs w ps b "\<lambda>rec x s. Inr (step (rec_offset rec) x s)" OsSegment s] assms
  obtain reader where reader: "SegmentReader_open fs (sw_path w) = Inr reader"
    and loop: "read_loop OsSegment (\<lambda>rec r. b rec) reader s
      = fold_records (\<lambda>(rec, x) s. Inr (step (rec_offset rec) x s)) (zip (segment_records (map IptoWritePayload_encode ps)) ps) s"
    by (auto simp: segment_holds_def)
  have body: "(\<lambda>(rec, x) s. Inr (step (rec_offset rec) x s)) = (\<lambda>y s. Inr ((\<lambda>(rec, x). step (rec_offset rec) x) y s))"
    by (auto simp: fun_eq_iff)
  show ?thesis
    using reader loop unfolding body fold_records_total by (simp add: fold_zip_records stored_def)
qed

definition replay_step ::
  "RecordOffset option \<Rightarrow> RecordOffset \<Rightarrow> IptoWritePayload \<Rightarrow>
     MetadataOutbox \<times> MetadataOutboxReplaySummary \<Rightarrow> MetadataOutbox \<times> MetadataOutboxReplaySummary" where
  "replay_step cp off p s =
     (let summary = (snd s)\<lparr>ors_scanned_records := ors_scanned_records (snd s) + 1\<rparr> in
      if beyond cp (off, p)
      then (fst (enqueue_with_offset p (Some off) (fst s)),
            summary\<lparr>ors_replayed_records := ors_replayed_records summary + 1\<rparr>)
      else (fst s, summary\<lparr>ors_skipped_records := ors_skipped_records summary + 1\<rparr>))"

lemma fold_replay_step:
  "fold (\<lambda>(off, p). replay_step cp off p) rs (ob, summary) =
     (fold (\<lambda>(off, p) ob. fst (enqueue_with_offset p (Some off) ob)) (filter (beyond cp) rs) ob,
      summary\<lparr>ors_scanned_records := ors_scanned_records summary + length rs,
              ors_skipped_records := ors_skipped_records summary + length (filter (\<lambda>r. \<not> beyond cp r) rs),
              ors_replayed_records := ors_replayed_records summary + length (filter (beyond cp) rs)\<rparr>)"
  by (induction rs arbitrary: ob summary) (auto simp: replay_step_def Let_def)

lemma replay_after_holds:
  assumes "segment_holds fs w ps"
  shows "replay_metadata_outbox_segment_after fs (sw_path w) cp =
    Inr \<lparr>orp_outbox = replayed (filter (beyond cp) (stored ps)),
         orp_summary = \<lparr>ors_checkpoint_offset = cp, ors_scanned_records = length ps,
           ors_skipped_records = length (filter (\<lambda>r. \<not> beyond cp r) (stored ps)),
           ors_replayed_records = length (filter (beyond cp) (stored ps))\<rparr>\<rparr>"
proof -
  let ?b = "\<lambda>rec (outbox, summary).
      let summary = summary\<lparr>ors_scanned_records := ors_scanned_records summary + 1\<rparr> in
      if (case cp of None \<Rightarrow> False | Some offset \<Rightarrow> rec_offset rec \<le> offset) then
        Inr (outbox, summary\<lparr>ors_skipped_records := ors_skipped_records summary + 1\<rparr>)
      else
        res_bind (map_err OsPayloadDecode (IptoWritePayload_decode (rec_payload rec))) (\<lambda>payload.
        Inr (fst (enqueue_with_offset payload (Some (rec_offset rec)) outbox),
            summary\<lparr>ors_replayed_records := ors_replayed_records summary + 1\<rparr>))"
  let ?init = "(MetadataOutbox_new, \<lparr>ors_checkpoint_offset = cp, ors_scanned_records = 0,
      ors_skipped_records = 0, ors_replayed_records = 0\<rparr>)"
  have "?b rec s = Inr (replay_step cp (rec_offset rec) x s)"
    if "IptoWritePayload_decode (rec_payload rec) = Inr x" for rec x s
    using that by (auto simp: replay_step_def beyond_def Let_def split: prod.split option.split)
  from replay_stored [OF assms, of ?b "replay_step cp" ?init, OF this] obtain reader
    where reader: "SegmentReader_open fs (sw_path w) = Inr reader"
      and loop: "read_loop OsSegment (\<lambda>rec r. ?b rec) reader ?init
        = Inr (fold (\<lambda>(off, x). replay_step cp off x) (stored ps) ?init)" by blast
  show ?thesis
    unfolding replay_metadata_outbox_segment_after_def reader map_err_simps res_bind_simps loop fold_replay_step
    by (simp add: replayed_def)
qed

lemma shard_range_holds:
  assumes "segment_holds fs w ps"
  shows "replay_metadata_outbox_segment_for_shard_range fs (sw_path w) start stop
    = Inr (replayed (filter (\<lambda>(off, p). start \<le> wp_shard_id p \<and> wp_shard_id p \<le> stop) (stored ps)))"
proof -
  let ?in = "\<lambda>p. start \<le> wp_shard_id p \<and> wp_shard_id p \<le> stop"
  let ?step = "\<lambda>off p ob. if ?in p then fst (enqueue_with_offset p (Some off) ob) else ob"
  have "fold (\<lambda>(off, p). ?step off p) rs ob
      = fold (\<lambda>(off, p) ob. fst (enqueue_with_offset p (Some off) ob)) (filter (\<lambda>(off, p). ?in p) rs) ob" for rs ob
    by (induction rs arbitrary: ob) (simp_all split: prod.split)
  with replay_stored [OF assms, of "\<lambda>rec outbox.
      res_bind (map_err OsPayloadDecode (IptoWritePayload_decode (rec_payload rec))) (\<lambda>payload.
      Inr (if ?in payload then fst (enqueue_with_offset payload (Some (rec_offset rec)) outbox) else outbox))"
      ?step MetadataOutbox_new]
  show ?thesis by (auto simp: replay_metadata_outbox_segment_for_shard_range_def replayed_def)
qed

lemma replay_provenance_holds:
  assumes "segment_holds fs w ps"
  shows "replay_provenance fs (sw_path w)
    = Inr (prov_ingest_all (List.map_filter wp_provenance ps) DataProvenanceIndex_new)"
proof -
  let ?step = "\<lambda>p index. case wp_provenance p of None \<Rightarrow> index | Some event \<Rightarrow> fst (DataProvenanceIndex_ingest event index)"
  have "fold (\<lambda>(off, p). ?step p) rs ix = prov_ingest_all (List.map_filter wp_provenance (map snd rs)) ix"
    for rs :: "(RecordOffset \<times> IptoWritePayload) list" and ix
    by (induction rs arbitrary: ix) (auto simp: prov_ingest_all_def split: option.split)
  from this [of "stored ps"] replay_stored [OF assms, of "\<lambda>rec index.
      res_bind (map_err OsPayloadDecode (IptoWritePayload_decode (rec_payload rec))) (\<lambda>payload. Inr (?step payload index))"
      "\<lambda>off. ?step" DataProvenanceIndex_new]
  show ?thesis by (auto simp: replay_provenance_def)
qed

subsection \<open>What a replay leaves\<close>

definition fresh_entry :: "RecordOffset \<Rightarrow> IptoWritePayload \<Rightarrow> MetadataOutboxEntry" where
  "fresh_entry off p = \<lparr>oe_payload = p, oe_status = ObPending, oe_record_offset = Some off,
     oe_retry_count = 0, oe_last_error = None, oe_retryable = False\<rparr>"

lemma enqueue_lookup:
  "bt_get (ob_entries (fst (enqueue_with_offset p (Some off) ob))) k =
     (if k = wp_idempotency_key p \<and> bt_get (ob_entries ob) k = None then Some (fresh_entry off p)
      else bt_get (ob_entries ob) k)"
  by (auto simp: enqueue_with_offset_def Let_def bt_contains_key_iff bt_get_insert fresh_entry_def)

lemma replayed_lookup:
  "bt_get (ob_entries (replayed rs)) k
     = map_option (\<lambda>(off, p). fresh_entry off p) (find (\<lambda>(off, p). wp_idempotency_key p = k) rs)"
proof -
  have "bt_get (ob_entries (fold (\<lambda>(off, p) ob. fst (enqueue_with_offset p (Some off) ob)) rs ob)) k
      = or_else (bt_get (ob_entries ob) k)
          (map_option (\<lambda>(off, p). fresh_entry off p) (find (\<lambda>(off, p). wp_idempotency_key p = k) rs))" for ob
    by (induction rs arbitrary: ob) (auto simp: enqueue_lookup or_else_def split: option.split prod.split)
  then show ?thesis by (simp add: replayed_def MetadataOutbox_new_def)
qed

lemma outbox_wf_replayed: "outbox_wf (replayed rs)"
proof -
  have "outbox_wf (fold (\<lambda>(off, p) ob. fst (enqueue_with_offset p (Some off) ob)) rs ob)" if "outbox_wf ob" for ob
    using that by (induction rs arbitrary: ob) (auto simp: outbox_wf_enqueue)
  then show ?thesis by (simp add: replayed_def outbox_wf_new)
qed

lemma replayed_key_iff:
  "bt_get (ob_entries (replayed rs)) k \<noteq> None \<longleftrightarrow> (\<exists>(off, p) \<in> set rs. wp_idempotency_key p = k)"
  by (auto simp: replayed_lookup find_None_iff)

lemma replayed_entryD:
  "bt_get (ob_entries (replayed rs)) k = Some e \<Longrightarrow>
     \<exists>off. e = fresh_entry off (oe_payload e) \<and> (off, oe_payload e) \<in> set rs \<and> wp_idempotency_key (oe_payload e) = k"
  by (auto simp: replayed_lookup find_Some_iff fresh_entry_def) (metis nth_mem)

text \<open>The queue of a replay: the keys in the order of their first records.\<close>

lemma replayed_pending: "ob_pending (replayed rs) = first_seen {||} (map (\<lambda>(off, p). wp_idempotency_key p) rs)"
proof -
  have "ob_pending (fold (\<lambda>(off, p) ob. fst (enqueue_with_offset p (Some off) ob)) rs ob)
      = ob_pending ob @ first_seen seen (map (\<lambda>(off, p). wp_idempotency_key p) rs)"
    if "\<And>k. bt_contains_key (ob_entries ob) k \<longleftrightarrow> k |\<in>| seen" for ob seen
    using that
  proof (induction rs arbitrary: ob seen)
    case (Cons r rs)
    obtain off p where r: "r = (off, p)" by fastforce
    let ?ob = "fst (enqueue_with_offset p (Some off) ob)" and ?k = "wp_idempotency_key p"
    have "bt_contains_key (ob_entries ?ob) k \<longleftrightarrow> k |\<in>| finsert ?k seen" for k
      using Cons.prems [of k] by (auto simp: bt_contains_key_iff enqueue_lookup)
    from Cons.IH [OF this] Cons.prems [of ?k] r show ?case
      by (auto simp: enqueue_with_offset_def Let_def finsert_absorb)
  qed simp
  from this [of MetadataOutbox_new "{||}"] show ?thesis
    by (simp add: replayed_def MetadataOutbox_new_def bt_contains_key_iff)
qed


subsection \<open>Histories\<close>

text \<open>What a client does with the outbox in memory between durable enqueues.\<close>

inductive outbox_delivery :: "MetadataOutbox \<Rightarrow> MetadataOutbox \<Rightarrow> bool" where
  del_acknowledge: "outbox_delivery ob (fst (acknowledge k ob))"
| del_fail: "outbox_delivery ob (fst (fail_with_retryability k err r ob))"
| del_retry: "outbox_delivery ob (fst (retry_failed k ob))"
| del_retry_target: "outbox_delivery ob (fst (retry_failed_for_target t ob))"
| del_deliver: "outbox_delivery ob (fst (deliver_next_pending (write :: IptoWritePayload list ipto_write) ob w))"
| del_deliver_target:
    "outbox_delivery ob (fst (deliver_next_pending_for_target (write :: IptoWritePayload list ipto_write) t ob w))"

text \<open>Deliveries change no payload and no offset, and forget no entry.\<close>

definition keeps_records :: "MetadataOutbox \<Rightarrow> MetadataOutbox \<Rightarrow> bool" where
  "keeps_records ob ob' \<longleftrightarrow>
     (\<forall>k. map_option (\<lambda>e. (oe_payload e, oe_record_offset e)) (bt_get (ob_entries ob') k)
        = map_option (\<lambda>e. (oe_payload e, oe_record_offset e)) (bt_get (ob_entries ob) k))"

lemma keeps_records_ops:
  "keeps_records ob (fst (acknowledge k ob))"
  "keeps_records ob (fst (fail_with_retryability k err r ob))"
  "keeps_records ob (fst (retry_failed k ob))"
  by (auto simp: keeps_records_def acknowledge_def fail_with_retryability_def retry_failed_def bt_get_insert
      split: option.split)

lemma keeps_records_deliver: "keeps_records ob (fst (deliver_entry write nxt ob w))"
  by (auto simp: deliver_entry_def Let_def keeps_records_ops split: option.split prod.split sum.split)
    (simp add: keeps_records_def)

lemma keeps_records_retry_target: "keeps_records ob (fst (retry_failed_for_target t ob))"
proof -
  have "keeps_records ob (fold (\<lambda>key ob. fst (retry_failed key ob)) keys ob')" if "keeps_records ob ob'" for keys ob'
    using that
  proof (induction keys arbitrary: ob')
    case (Cons k keys)
    then show ?case using keeps_records_ops(3) [of ob' k] by (simp add: keeps_records_def)
  qed simp
  then show ?thesis by (simp add: retry_failed_for_target_def Let_def keeps_records_def)
qed

lemma outbox_delivery_keeps: "outbox_delivery ob ob' \<Longrightarrow> keeps_records ob ob' \<and> (outbox_wf ob \<longrightarrow> outbox_wf ob')"
  by (induction rule: outbox_delivery.induct)
    (simp_all add: keeps_records_ops keeps_records_retry_target keeps_records_deliver deliver_next_pending_def
      deliver_next_pending_for_target_def outbox_wf_acknowledge outbox_wf_fail outbox_wf_retry
      outbox_wf_retry_target outbox_wf_deliver)

text \<open>
  \<open>outbox_run fs b ps acked\<close>: a history in which the payloads \<open>ps\<close> were written to the segment and
  \<open>acked\<close> are the offsets and payloads that \<open>enqueue_durable\<close> reported as enqueued. A payload whose
  \<open>sync\<close> failed was written and not reported; a payload that is too large and a duplicate were not
  written; the process may deliver, stop and recover after any checkpoint at any point.
\<close>

inductive outbox_run ::
  "fs \<Rightarrow> SegmentBackedMetadataOutbox \<Rightarrow> IptoWritePayload list \<Rightarrow> (RecordOffset \<times> IptoWritePayload) list \<Rightarrow> bool" where
  or_created: "SegmentBackedMetadataOutbox_create io fs p sid nid = (fs', Inr b) \<Longrightarrow> outbox_run fs' b [] []"
| or_enqueued: "outbox_run fs b ps acked \<Longrightarrow> payload_ok p \<Longrightarrow>
     enqueue_durable io fs p b = (fs', b', Inr (DeEnqueued off)) \<Longrightarrow> outbox_run fs' b' (ps @ [p]) (acked @ [(off, p)])"
| or_unsynced: "outbox_run fs b ps acked \<Longrightarrow> payload_ok p \<Longrightarrow>
     enqueue_durable io fs p b = (fs', b', Inl (OsSegment (Io SyncError))) \<Longrightarrow> outbox_run fs' b' (ps @ [p]) acked"
| or_duplicate: "outbox_run fs b ps acked \<Longrightarrow>
     enqueue_durable io fs p b = (fs', b', Inr DeDuplicate) \<Longrightarrow> outbox_run fs' b' ps acked"
| or_too_large: "outbox_run fs b ps acked \<Longrightarrow>
     enqueue_durable io fs p b = (fs', b', Inl (OsSegment (RecordTooLarge n))) \<Longrightarrow> outbox_run fs' b' ps acked"
| or_delivered: "outbox_run fs b ps acked \<Longrightarrow> outbox_delivery (bo_outbox b) ob \<Longrightarrow>
     outbox_run fs (b\<lparr>bo_outbox := ob\<rparr>) ps acked"
| or_recovered: "outbox_run fs b ps acked \<Longrightarrow>
     SegmentBackedMetadataOutbox_recover_after fs (sw_path (bo_writer b)) sid nid cp = Inr r \<Longrightarrow>
     outbox_run fs (obr_outbox r) ps acked"
| or_elsewhere: "outbox_run fs b ps acked \<Longrightarrow> fs' (sw_path (bo_writer b)) = fs (sw_path (bo_writer b)) \<Longrightarrow>
     outbox_run fs' b ps acked"

definition durable_wf ::
  "fs \<Rightarrow> SegmentBackedMetadataOutbox \<Rightarrow> IptoWritePayload list \<Rightarrow> (RecordOffset \<times> IptoWritePayload) list \<Rightarrow> bool" where
  "durable_wf fs b ps acked \<longleftrightarrow>
     segment_holds fs (bo_writer b) ps \<and> subseq acked (stored ps) \<and> outbox_wf (bo_outbox b) \<and>
     (\<forall>k e. bt_get (ob_entries (bo_outbox b)) k = Some e \<longrightarrow>
        (\<exists>off. oe_record_offset e = Some off \<and> (off, oe_payload e) \<in> set (stored ps)))"

lemma enqueue_durable_written:
  assumes "enqueue_durable io fs p b = (fs', b', r)" "r = Inr (DeEnqueued off) \<or> r = Inl (OsSegment (Io SyncError))"
  shows "\<exists>off w. append_record io fs (bo_writer b) (IptoWritePayload_encode p) = (fs', w, Inr off) \<and> bo_writer b' = w \<and>
    ((\<exists>off'. r = Inr (DeEnqueued off')) \<longrightarrow> r = Inr (DeEnqueued off)) \<and>
    bo_outbox b' = (if r = Inr (DeEnqueued off) then fst (enqueue_with_offset p (Some off) (bo_outbox b)) else bo_outbox b)"
  using assms append_record_errD [of io fs "bo_writer b" "IptoWritePayload_encode p"]
  by (auto simp: enqueue_durable_def SegmentWriter_sync_def split: sum.splits prod.splits if_splits)

lemma enqueue_durable_unwritten:
  assumes "enqueue_durable io fs p b = (fs', b', r)" "r = Inr DeDuplicate \<or> r = Inl (OsSegment (RecordTooLarge n))"
  shows "fs' = fs \<and> b' = b"
  using assms
  by (auto simp: enqueue_durable_def SegmentWriter_sync_def append_record_def Let_def
      split: sum.splits prod.splits if_splits)

lemma durable_wf_write:
  assumes "durable_wf fs b ps acked" "payload_ok p" "enqueue_durable io fs p b = (fs', b', r)"
    and "r = Inr (DeEnqueued off) \<and> acked' = acked @ [(off, p)] \<or> r = Inl (OsSegment (Io SyncError)) \<and> acked' = acked"
  shows "durable_wf fs' b' (ps @ [p]) acked'"
proof -
  from assms(4) have "r = Inr (DeEnqueued off) \<or> r = Inl (OsSegment (Io SyncError))" by auto
  from enqueue_durable_written [OF assms(3) this] obtain off' w where
    w: "append_record io fs (bo_writer b) (IptoWritePayload_encode p) = (fs', w, Inr off')" "bo_writer b' = w"
    and r: "(\<exists>off. r = Inr (DeEnqueued off)) \<longrightarrow> r = Inr (DeEnqueued off')"
    and ob: "bo_outbox b' = (if r = Inr (DeEnqueued off') then fst (enqueue_with_offset p (Some off') (bo_outbox b)) else bo_outbox b)"
    by blast
  have open_: "segment_open fs (bo_writer b) (map IptoWritePayload_encode ps)"
    using assms(1) by (simp add: durable_wf_def segment_holds_def)
  from segment_open_append [OF open_ w(1)] have holds: "segment_holds fs' w (ps @ [p])"
    and off': "off' = of_nat (length (segment_bytes (map IptoWritePayload_encode ps)))"
    using assms(1,2) by (simp_all add: durable_wf_def segment_holds_def)
  have st: "stored (ps @ [p]) = stored ps @ [(off', p)]" by (simp add: stored_snoc off')
  have "subseq acked' (stored ps @ [(off', p)])"
    using assms(1,4) r by (auto simp: durable_wf_def intro: list_emb_append_mono subseq_rev_drop_many)
  then show ?thesis
    using assms(1) holds w(2) ob unfolding durable_wf_def st
    by (auto simp: outbox_wf_enqueue enqueue_lookup fresh_entry_def split: if_splits)
qed

lemma recover_after_holds:
  assumes "segment_holds fs w ps"
  shows "SegmentBackedMetadataOutbox_recover_after fs (sw_path w) sid nid cp =
    Inr \<lparr>obr_outbox = \<lparr>bo_outbox = replayed (filter (beyond cp) (stored ps)),
           bo_writer = w\<lparr>sw_segment_id := sid, sw_node_id := nid\<rparr>\<rparr>,
         obr_summary = \<lparr>ors_checkpoint_offset = cp, ors_scanned_records = length ps,
           ors_skipped_records = length (filter (\<lambda>r. \<not> beyond cp r) (stored ps)),
           ors_replayed_records = length (filter (beyond cp) (stored ps))\<rparr>\<rparr>"
proof -
  from assms have "segment_open fs w (map IptoWritePayload_encode ps)" by (simp add: segment_holds_def)
  then show ?thesis
    unfolding SegmentBackedMetadataOutbox_recover_after_def replay_after_holds [OF assms]
    by (simp only: open_append_segment) simp
qed

lemma durable_wf_recover:
  assumes "durable_wf fs b ps acked"
    and "SegmentBackedMetadataOutbox_recover_after fs (sw_path (bo_writer b)) sid nid cp = Inr r"
  shows "durable_wf fs (obr_outbox r) ps acked"
proof -
  from assms(1) have holds: "segment_holds fs (bo_writer b) ps" by (simp add: durable_wf_def)
  have "\<exists>off. oe_record_offset e = Some off \<and> (off, oe_payload e) \<in> set (stored ps)"
    if "bt_get (ob_entries (replayed (filter (beyond cp) (stored ps)))) k = Some e" for k e
  proof -
    from replayed_entryD [OF that] obtain off where
      "e = fresh_entry off (oe_payload e)" "(off, oe_payload e) \<in> set (stored ps)" by auto
    moreover from this(1) have "oe_record_offset e = Some off"
      by (metis MetadataOutboxEntry.select_convs(3) fresh_entry_def)
    ultimately show ?thesis by blast
  qed
  with assms recover_after_holds [OF holds, of sid nid cp] show ?thesis
    by (auto simp: durable_wf_def segment_holds_def segment_open_def outbox_wf_replayed)
qed

lemma durable_wf_keeps:
  assumes "durable_wf fs b ps offs" "keeps_records (bo_outbox b) ob" "outbox_wf ob"
  shows "durable_wf fs (b\<lparr>bo_outbox := ob\<rparr>) ps offs"
proof -
  have "\<exists>off. oe_record_offset e = Some off \<and> (off, oe_payload e) \<in> set (stored ps)"
    if "bt_get (ob_entries ob) k = Some e" for k e
  proof -
    have "map_option (\<lambda>e. (oe_payload e, oe_record_offset e)) (bt_get (ob_entries (bo_outbox b)) k)
        = Some (oe_payload e, oe_record_offset e)"
      using assms(2) [unfolded keeps_records_def, rule_format, of k] that by simp
    then obtain e' where "bt_get (ob_entries (bo_outbox b)) k = Some e'"
      "oe_payload e' = oe_payload e" "oe_record_offset e' = oe_record_offset e" by auto
    with assms(1) show ?thesis unfolding durable_wf_def by metis
  qed
  with assms(1,3) show ?thesis by (simp add: durable_wf_def)
qed

lemma outbox_run_wf: "outbox_run fs b ps acked \<Longrightarrow> durable_wf fs b ps acked"
proof (induction rule: outbox_run.induct)
  case or_created
  have "bt_get (ob_entries MetadataOutbox_new) k = None" for k by (simp add: MetadataOutbox_new_def)
  with or_created show ?case
    by (auto simp: SegmentBackedMetadataOutbox_create_def durable_wf_def segment_holds_def outbox_wf_new
        stored_def split: prod.splits dest: segment_open_create)
next
  case (or_enqueued fs b ps acked p io fs' b' off)
  then show ?case using durable_wf_write by blast
next
  case (or_unsynced fs b ps acked p io fs' b')
  then show ?case using durable_wf_write by blast
next
  case (or_duplicate fs b ps acked io p fs' b')
  then show ?case using enqueue_durable_unwritten [OF or_duplicate.hyps(2)] by simp
next
  case (or_too_large fs b ps acked io p fs' b' n)
  then show ?case using enqueue_durable_unwritten [OF or_too_large.hyps(2), of n] by simp
next
  case (or_delivered fs b ps acked ob)
  then have wf: "outbox_wf ob" and keeps: "keeps_records (bo_outbox b) ob"
    using outbox_delivery_keeps by (auto simp: durable_wf_def)
  with or_delivered.IH durable_wf_keeps show ?case by blast
next
  case or_recovered
  then show ?case using durable_wf_recover by blast
next
  case or_elsewhere
  then show ?case by (simp add: durable_wf_def segment_holds_def segment_open_def)
qed

subsection \<open>Rebalancing\<close>

definition in_range :: "DataIndividualShardId \<Rightarrow> DataIndividualShardId \<Rightarrow> RecordOffset \<times> IptoWritePayload \<Rightarrow> bool" where
  "in_range start stop r \<longleftrightarrow> start \<le> wp_shard_id (snd r) \<and> wp_shard_id (snd r) \<le> stop"

text \<open>The first record of every key, in the order of the records.\<close>

definition first_records :: "(RecordOffset \<times> IptoWritePayload) list \<Rightarrow> (RecordOffset \<times> IptoWritePayload) list" where
  "first_records rs =
     map (\<lambda>k. the (find (\<lambda>(off, p). wp_idempotency_key p = k) rs))
       (first_seen {||} (map (\<lambda>(off, p). wp_idempotency_key p) rs))"

lemma set_first_seen: "set (first_seen seen xs) = {x \<in> set xs. x |\<notin>| seen}"
  by (induction seen xs rule: first_seen.induct) auto

lemma distinct_first_seen: "distinct (first_seen seen xs)"
  by (induction seen xs rule: first_seen.induct) (auto simp: set_first_seen)

lemma replayed_pending_payloads: "map oe_payload (pending_entries (replayed rs)) = map snd (first_records rs)"
proof -
  have "oe_payload (the (bt_get (ob_entries (replayed rs)) k)) = snd (the (find (\<lambda>(off, p). wp_idempotency_key p = k) rs))"
    if "k \<in> set (first_seen {||} (map (\<lambda>(off, p). wp_idempotency_key p) rs))" for k
  proof -
    from that obtain r where "find (\<lambda>(off, p). wp_idempotency_key p = k) rs = Some r"
      by (cases "find (\<lambda>(off, p). wp_idempotency_key p = k) rs") (auto simp: set_first_seen find_None_iff)
    then show ?thesis by (simp add: replayed_lookup fresh_entry_def split: prod.split)
  qed
  then show ?thesis by (simp add: pending_entries_def replayed_pending first_records_def)
qed

lemma keeps_records_results: "keeps_records ob (fold apply_result rs ob)"
proof -
  have step: "keeps_records ob' (apply_result r ob')" for r ob'
    by (auto simp: apply_result_def keeps_records_ops split: prod.split sum.split)
  have "keeps_records ob (fold apply_result rs ob')" if "keeps_records ob ob'" for ob'
    using that
  proof (induction rs arbitrary: ob')
    case (Cons r rs)
    then show ?case using step [of ob' r] by (simp add: keeps_records_def)
  qed simp
  then show ?thesis by (simp add: keeps_records_def)
qed

lemma keeps_records_len: "keeps_records ob ob' \<Longrightarrow> outbox_len ob' = outbox_len ob"
proof -
  assume "keeps_records ob ob'"
  from this [unfolded keeps_records_def, rule_format, THEN arg_cong [where f = "\<lambda>x. x = None"]]
  have "bt_get (ob_entries ob') k = None \<longleftrightarrow> bt_get (ob_entries ob) k = None" for k by simp
  then show ?thesis by (simp add: outbox_len_def bt_len_keys)
qed

lemma outbox_len_replayed: "outbox_len (replayed rs) = length (first_records rs)"
proof -
  have "{k. bt_get (ob_entries (replayed rs)) k \<noteq> None} = set (first_seen {||} (map (\<lambda>(off, p). wp_idempotency_key p) rs))"
    by (auto simp: replayed_lookup find_None_iff set_first_seen)
  then show ?thesis
    by (simp add: outbox_len_def bt_len_keys first_records_def distinct_card distinct_first_seen)
qed

subsection \<open>A sample history\<close>

lemma enqueue_durable_unlimited:
  assumes "outbox_run fs b ps acked" "payload_ok p" "length (IptoWritePayload_encode p) \<le> MAX_RECORD_LEN"
    and "bt_get (ob_entries (bo_outbox b)) (wp_idempotency_key p) = None"
    and "off = of_nat (length (segment_bytes (map IptoWritePayload_encode ps)))"
  shows "\<exists>fs' b'. outbox_run fs' b' (ps @ [p]) (acked @ [(off, p)]) \<and>
    bo_outbox b' = fst (enqueue_with_offset p (Some off) (bo_outbox b))"
proof -
  let ?io = "\<lparr>write_budget = None, sync_fails = False\<rparr>"
  have "sw_byte_len (bo_writer b) = off"
    using outbox_run_wf [OF assms(1)] assms(5) by (simp add: durable_wf_def segment_holds_def segment_open_def)
  with append_record_unlimited [of ?io "IptoWritePayload_encode p" fs "bo_writer b"] assms(3,4)
  obtain fs' b' where "enqueue_durable ?io fs p b = (fs', b', Inr (DeEnqueued off))"
    "bo_outbox b' = fst (enqueue_with_offset p (Some off) (bo_outbox b))"
    by (simp add: enqueue_durable_def bt_contains_key_iff SegmentWriter_sync_def)
  with assms(1,2) show ?thesis using outbox_run.or_enqueued by metis
qed

definition other_target :: IptoWritePayload where
  "other_target = (sample_payload ''m2'')\<lparr>wp_target := ''ipto-b''\<rparr>"

lemma other_target_ok: "payload_ok other_target"
  by (simp add: other_target_def sample_payload_def sample_metadata_event_def from_event_def metadata_event_builder_defs
      PassiveMetadata_insert_def PassiveMetadata_new_def ActiveMetadata_new_def insert_mapped_def map_field_def
      IptoMapping_new_def attribute_for_def bt_eval payload_ok_def metadata_event_ok_def fields_ok_def
      idempotency_key_of_def str_ok_simple)

lemma other_target_length: "length (IptoWritePayload_encode other_target) < 1000"
  by (simp add: other_target_def sample_payload_def sample_metadata_event_def from_event_def metadata_event_builder_defs
      PassiveMetadata_insert_def PassiveMetadata_new_def ActiveMetadata_new_def insert_mapped_def map_field_def
      IptoMapping_new_def attribute_for_def bt_eval idempotency_key_of_def
      IptoWritePayload_encode_def encode_head_def encode_provenance_def write_string_def write_u32_def write_u64_def
      write_i64_def write_fields_def encode_optional_string_def VMD1_def)

lemma sample_keys:
  "wp_idempotency_key (sample_payload i) = ''data:'' @ i" "wp_idempotency_key other_target = ''data:m2''"
  "wp_target (sample_payload i) = ''ipto-a''" "wp_target other_target = ''ipto-b''"
  "wp_shard_id other_target = 5" "wp_shard_id (sample_payload i) = 5"
  by (simp_all add: other_target_def sample_payload_def sample_metadata_event_def from_event_def
      metadata_event_builder_defs idempotency_key_of_def insert_mapped_def Let_def)

definition second_offset :: RecordOffset where
  "second_offset = of_nat (20 + length (IptoWritePayload_encode (sample_payload ''m1'')))"

definition sample_outbox :: MetadataOutbox where
  "sample_outbox = fst (acknowledge ''data:m2''
     (fst (enqueue_with_offset other_target (Some second_offset)
       (fst (enqueue_with_offset (sample_payload ''m1'') (Some 8) MetadataOutbox_new)))))"

lemma sample_history:
  "\<exists>fs b. outbox_run fs b [sample_payload ''m1'', other_target]
      [(8, sample_payload ''m1''), (second_offset, other_target)] \<and> bo_outbox b = sample_outbox"
proof -
  let ?io = "\<lparr>write_budget = None, sync_fails = False\<rparr>"
  obtain fs0 b0 where created: "SegmentBackedMetadataOutbox_create ?io Map.empty ''o'' ''s'' ''n'' = (fs0, Inr b0)"
    and b0: "bo_outbox b0 = MetadataOutbox_new"
    by (simp add: SegmentBackedMetadataOutbox_create_def SegmentWriter_create_def write_all_def)
  from enqueue_durable_unlimited [OF outbox_run.or_created [OF created] sample_payload_ok, of 8] sample_payload_length b0
  obtain fs1 b1 where 1: "outbox_run fs1 b1 [sample_payload ''m1''] [(8, sample_payload ''m1'')]"
    and b1: "bo_outbox b1 = fst (enqueue_with_offset (sample_payload ''m1'') (Some 8) MetadataOutbox_new)"
    by (auto simp: MAX_RECORD_LEN_def MetadataOutbox_new_def)
  from enqueue_durable_unlimited [OF 1 other_target_ok, of second_offset] other_target_length b1
  obtain fs2 b2 where 2: "outbox_run fs2 b2 ([sample_payload ''m1''] @ [other_target])
      ([(8, sample_payload ''m1'')] @ [(second_offset, other_target)])"
    and b2: "bo_outbox b2 = fst (enqueue_with_offset other_target (Some second_offset) (bo_outbox b1))"
    by (auto simp: MAX_RECORD_LEN_def MetadataOutbox_new_def enqueue_lookup sample_keys second_offset_def
        segment_bytes_def)
  from outbox_run.or_delivered [OF 2 outbox_delivery.del_acknowledge, of "''data:m2''"] b1 b2 show ?thesis
    by (intro exI [of _ fs2] exI [of _ "b2\<lparr>bo_outbox := sample_outbox\<rparr>"]) (simp add: sample_outbox_def)
qed

lemma sample_outbox_m1:
  "bt_get (ob_entries sample_outbox) ''data:m1'' = Some (fresh_entry 8 (sample_payload ''m1''))"
  "''data:m1'' \<in> set (ob_pending sample_outbox)"
  by (simp_all add: sample_outbox_def acknowledge_def enqueue_lookup bt_get_insert sample_keys MetadataOutbox_new_def
      split: option.split)
    (simp add: enqueue_with_offset_def Let_def sample_keys bt_contains_key_iff bt_get_insert)

lemma sample_checkpoint_b:
  "outbox_acknowledged_checkpoint 5 ''ipto-b'' seg epoch sample_outbox =
   Some \<lparr>oc_data_individual_shard_id = 5, oc_target = ''ipto-b'', oc_segment_id = seg,
     oc_last_acknowledged_offset = second_offset, oc_mapping_version = wp_mapping_version other_target, oc_epoch = epoch\<rparr>"
  by (simp add: sample_outbox_def Let_def acknowledge_def enqueue_with_offset_def MetadataOutbox_new_def sample_keys
      bt_contains_key_iff outbox_acknowledged_checkpoint_def shard_entries_def bt_eval)

lemma second_offset_8: "\<not> second_offset < 8"
proof -
  have "unat second_offset = 20 + length (IptoWritePayload_encode (sample_payload ''m1''))"
    unfolding second_offset_def using sample_payload_length by (simp only: unat_of_nat) simp
  then show ?thesis by (simp add: word_less_nat_alt)
qed

subsection \<open>Properties\<close>

text \<open>
  (C5) Nothing that was reported as enqueued is lost. Over every history of a durable outbox, with
  failing syncs, duplicates, deliveries and restarts, the reported records are among the stored
  ones, in order, and recovery after any checkpoint succeeds. The recovered outbox holds, for every
  key with a stored record beyond the checkpoint, the first such record as a pending entry with
  its offset, queued in the order of the records; and everything already held in memory is stored.
\<close>

theorem durable_outbox_recovers:
  assumes "outbox_run fs b ps acked"
  shows "subseq acked (stored ps) \<and>
    (\<forall>k e. bt_get (ob_entries (bo_outbox b)) k = Some e \<longrightarrow>
      (\<exists>off. oe_record_offset e = Some off \<and> (off, oe_payload e) \<in> set (stored ps))) \<and>
    (\<exists>r. SegmentBackedMetadataOutbox_recover_after fs (sw_path (bo_writer b)) sid nid cp = Ok r \<and>
      outbox_wf (bo_outbox (obr_outbox r)) \<and>
      (\<forall>k. bt_get (ob_entries (bo_outbox (obr_outbox r))) k = map_option (\<lambda>(off, p). fresh_entry off p)
        (find (\<lambda>(off, p). wp_idempotency_key p = k) (filter (beyond cp) (stored ps)))) \<and>
      ob_pending (bo_outbox (obr_outbox r))
        = first_seen {||} (map (\<lambda>(off, p). wp_idempotency_key p) (filter (beyond cp) (stored ps))))"
proof -
  from outbox_run_wf [OF assms] have "durable_wf fs b ps acked" "segment_holds fs (bo_writer b) ps"
    by (simp_all add: durable_wf_def)
  then show ?thesis
    unfolding recover_after_holds [OF \<open>segment_holds fs (bo_writer b) ps\<close>]
    by (simp add: durable_wf_def outbox_wf_replayed replayed_lookup replayed_pending)
qed

lemma durable_outbox_recovers_witness:
  "\<exists>fs b r. outbox_run fs b [sample_payload ''m1'', other_target]
      [(8, sample_payload ''m1''), (second_offset, other_target)] \<and>
    SegmentBackedMetadataOutbox_recover_after fs (sw_path (bo_writer b)) ''s'' ''n'' None = Ok r \<and>
    ob_pending (bo_outbox (obr_outbox r)) = [''data:m1'', ''data:m2'']"
proof -
  obtain fs b where run: "outbox_run fs b [sample_payload ''m1'', other_target]
      [(8, sample_payload ''m1''), (second_offset, other_target)]" using sample_history by blast
  have "first_seen {||} (map (\<lambda>(off, p). wp_idempotency_key p)
      (filter (beyond None) (stored [sample_payload ''m1'', other_target]))) = [''data:m1'', ''data:m2'']"
    by (simp add: stored_def segment_records_def sample_keys beyond_def)
  with run durable_outbox_recovers [OF run, of "''s''" "''n''" None] show ?thesis
    by (intro exI [of _ fs] exI [of _ b]) auto
qed

text \<open>
  (C6) Recovery after a checkpoint. With the acknowledged checkpoint of a shard and target as the
  offset to recover after, every entry of that shard and target that was not acknowledged is
  pending again; entries of other shards and targets come back only when they have a record
  beyond that offset, acknowledged or not, as the offset is not compared with their own progress.
\<close>

theorem recovery_after_checkpoint:
  assumes "outbox_run fs b ps acked" "length (segment_bytes (map IptoWritePayload_encode ps)) < 2 ^ 64"
    and "durable_acknowledged_checkpoint shard target epoch b = Some cp"
    and "SegmentBackedMetadataOutbox_recover_after fs (sw_path (bo_writer b)) sid nid
      (Some (oc_last_acknowledged_offset cp)) = Ok r"
    and "bt_get (ob_entries (bo_outbox b)) k = Some e"
  shows "(wp_target (oe_payload e) = target \<and> wp_shard_id (oe_payload e) = shard \<and> oe_status e \<noteq> ObAcknowledged \<longrightarrow>
      k \<in> set (ob_pending (bo_outbox (obr_outbox r)))) \<and>
    (k \<in> set (ob_pending (bo_outbox (obr_outbox r))) \<longleftrightarrow>
      (\<exists>(off, p) \<in> set (stored ps). wp_idempotency_key p = k \<and> oc_last_acknowledged_offset cp < off))"
proof -
  let ?cp = "oc_last_acknowledged_offset cp"
  from outbox_run_wf [OF assms(1)] have wf: "durable_wf fs b ps acked" "outbox_wf (bo_outbox b)"
    and holds: "segment_holds fs (bo_writer b) ps"
    by (simp_all add: durable_wf_def)
  have r: "bo_outbox (obr_outbox r) = replayed (filter (beyond (Some ?cp)) (stored ps))"
    using assms(4) recover_after_holds [OF holds, of sid nid "Some ?cp"] by auto
  have pend: "k \<in> set (ob_pending (bo_outbox (obr_outbox r))) \<longleftrightarrow>
      (\<exists>(off, p) \<in> set (stored ps). wp_idempotency_key p = k \<and> ?cp < off)"
  proof -
    have "k \<in> set (ob_pending (replayed rs)) \<longleftrightarrow> bt_get (ob_entries (replayed rs)) k \<noteq> None" for rs
      using outbox_wf_replayed [of rs] replayed_entryD [of rs k]
      by (auto simp: outbox_wf_def fresh_entry_def) (metis MetadataOutboxEntry.select_convs(2))
    then show ?thesis unfolding r replayed_key_iff by (auto simp: beyond_def)
  qed
  have "k \<in> set (ob_pending (bo_outbox (obr_outbox r)))"
    if e: "wp_target (oe_payload e) = target" "wp_shard_id (oe_payload e) = shard" "oe_status e \<noteq> ObAcknowledged"
  proof -
    from wf(1) assms(5) obtain off where off: "oe_record_offset e = Some off" "(off, oe_payload e) \<in> set (stored ps)"
      by (auto simp: durable_wf_def)
    have key: "wp_idempotency_key (oe_payload e) = k" using wf(2) assms(5) by (auto simp: outbox_wf_def)
    note prefix = acknowledged_prefix [OF assms(3) [unfolded durable_acknowledged_checkpoint_def]]
    have "e \<in> set (bt_values (ob_entries (bo_outbox b)))" using assms(5) by (auto simp: set_bt_values)
    then have se: "(off, e) \<in> set (shard_entries shard target (bo_outbox b))" using e off by (simp add: set_shard_entries)
    have "off \<noteq> ?cp"
    proof
      assume "off = ?cp"
      with prefix(1) obtain e' where e': "(off, e') \<in> set (shard_entries shard target (bo_outbox b))"
        "oe_status e' = ObAcknowledged" by blast
      then obtain k' where k': "bt_get (ob_entries (bo_outbox b)) k' = Some e'" "oe_record_offset e' = Some off"
        by (auto simp: set_shard_entries set_bt_values)
      with wf(1) have "(off, oe_payload e') \<in> set (stored ps)" unfolding durable_wf_def by fastforce
      with off(2) stored_ascend [OF assms(2)] have "oe_payload e' = oe_payload e"
        by (metis eq_key_imp_eq_value strict_sorted_iff)
      with k'(1) key wf(2) have "k' = k" unfolding outbox_wf_def by metis
      with k'(1) assms(5) e'(2) e(3) show False by simp
    qed
    then have "?cp < off" using prefix(2) [OF se] e(3) by force
    with off(2) key show ?thesis unfolding pend by blast
  qed
  with pend show ?thesis by blast
qed

lemma recovery_after_checkpoint_witness:
  "\<exists>fs b cp r. outbox_run fs b [sample_payload ''m1'', other_target]
      [(8, sample_payload ''m1''), (second_offset, other_target)] \<and>
    durable_acknowledged_checkpoint 5 ''ipto-b'' 1 b = Some cp \<and>
    SegmentBackedMetadataOutbox_recover_after fs (sw_path (bo_writer b)) ''s'' ''n''
      (Some (oc_last_acknowledged_offset cp)) = Ok r \<and>
    ''data:m1'' \<in> set (ob_pending (bo_outbox b)) \<and> ''data:m1'' \<notin> set (ob_pending (bo_outbox (obr_outbox r)))"
proof -
  obtain fs b where run: "outbox_run fs b [sample_payload ''m1'', other_target]
      [(8, sample_payload ''m1''), (second_offset, other_target)]"
    and b: "bo_outbox b = sample_outbox" using sample_history by blast
  obtain cp where cp: "durable_acknowledged_checkpoint 5 ''ipto-b'' 1 b = Some cp"
    and off: "oc_last_acknowledged_offset cp = second_offset"
    by (simp add: durable_acknowledged_checkpoint_def b sample_checkpoint_b)
  obtain r where r: "SegmentBackedMetadataOutbox_recover_after fs (sw_path (bo_writer b)) ''s'' ''n''
      (Some (oc_last_acknowledged_offset cp)) = Ok r"
    using outbox_run_wf [OF run] recover_after_holds by (auto simp: durable_wf_def)
  have e: "bt_get (ob_entries (bo_outbox b)) ''data:m1'' = Some (fresh_entry 8 (sample_payload ''m1''))"
    "''data:m1'' \<in> set (ob_pending (bo_outbox b))"
    by (simp_all add: b sample_outbox_m1)
  have len: "length (segment_bytes (map IptoWritePayload_encode [sample_payload ''m1'', other_target])) < 2 ^ 64"
    using sample_payload_length other_target_length by (simp add: segment_bytes_def)
  from recovery_after_checkpoint [OF run len cp r e(1)] have "''data:m1'' \<notin> set (ob_pending (bo_outbox (obr_outbox r)))"
    by (auto simp: off stored_def segment_records_def sample_keys second_offset_8)
  with run cp r e(2) show ?thesis by blast
qed

text \<open>
  Rebalancing a shard range hands to the writer, in the order of the segment, the first
  record of every key whose shard lies in the range, whether it was acknowledged before or not, at
  most \<open>max_attempts\<close> of them and up to the first retryable failure; the summary counts them.
\<close>

lemma rebalance_delivers_range:
  assumes "outbox_run fs b ps acked"
    and "deliver_list write w (take n (map snd (first_records (filter (in_range start stop) (stored ps))))) = (w', rs)"
  shows "rebalance_shard_range_to fs (sw_path (bo_writer b)) start stop write w n =
    (w', Ok \<lparr>rb_entries_found = length (first_records (filter (in_range start stop) (stored ps))),
             rb_attempted = length rs, rb_acknowledged = length (filter (\<lambda>(p, r). is_ok r) rs),
             rb_failed = length (filter (\<lambda>(p, r). \<not> is_ok r) rs)\<rparr>)"
proof -
  let ?ob = "replayed (filter (in_range start stop) (stored ps))"
  from outbox_run_wf [OF assms(1)] have holds: "segment_holds fs (bo_writer b) ps" by (simp add: durable_wf_def)
  have range: "(\<lambda>(off, p). start \<le> wp_shard_id p \<and> wp_shard_id p \<le> stop) = in_range start stop"
    by (auto simp: in_range_def fun_eq_iff)
  have "deliver_next_pending write ob w = deliver_entry write (find (\<lambda>_. True) (pending_entries ob)) ob w"
    if "outbox_wf ob" for ob w
    using that by (simp add: deliver_next_pending_def next_pending_find)
  from drain_loop_refines [where P = "\<lambda>_. True" and s = drain_summary_empty and n = n and w = w and ob = ?ob,
      OF this outbox_wf_replayed]
  have "drain_pending_outbox write n ?ob w = (fold apply_result rs ?ob, w', drain_summary rs drain_summary_empty)"
    using assms(2) by (simp add: replayed_pending_payloads drain_pending_outbox_def drain_summary_empty_def)
  then show ?thesis
    by (simp add: rebalance_shard_range_to_def shard_range_holds [OF holds] range keeps_records_len
        [OF keeps_records_results] outbox_len_replayed drain_summary_def drain_summary_empty_def)
qed

end
