(* ===== verification/Service.thy ===== *)
theory Service
  imports Journal Sitas_Runtime Durable_Outbox
begin

text \<open>
  The node service of \<open>src/service.rs\<close> with its process index (\<open>src/process_index.rs\<close>) and the
  control-plane boundary (\<open>src/control.rs\<close>). \<open>VannakService\<close> owns the process index, the placement
  map, the durable metadata outbox, the provenance index and the optional process-event journal.

  A control plane is the trait \<open>ControlPlane\<close>: its state is a type parameter \<open>'p\<close> and \<open>read\<close> an
  argument; \<open>ControlMutex\<close> is the implementation of \<open>src/control.rs\<close>. The strings a plane reports are
  represented by \<open>plane_error\<close>, the error they render.
\<close>

subsection \<open>Control planes\<close>

datatype plane_error =
  PlanePoisoned
| PlaneRejected ClusterControlError
| PlaneUnavailable string

record ControlMutex =
  cmx_poisoned :: bool
  cmx_state :: ClusterControlState

definition ControlMutex_read :: "ControlMutex \<Rightarrow> plane_error + ClusterControlState" where
  "ControlMutex_read m = (if cmx_poisoned m then Err PlanePoisoned else Ok (cmx_state m))"

definition ControlMutex_propose :: "ClusterControlCommand \<Rightarrow> ControlMutex \<Rightarrow> ControlMutex \<times> (plane_error + unit)" where
  "ControlMutex_propose command m =
     (if cmx_poisoned m then (m, Err PlanePoisoned)
      else case control_apply command (cmx_state m) of
        (state, r) \<Rightarrow> (m\<lparr>cmx_state := state\<rparr>, map_err PlaneRejected r))"

subsection \<open>The process index\<close>

datatype VannakServiceError =
  VsNoPlacementTarget DataIndividualShardId
| VsWriterLeaseNotHeld IptoInstanceId NodeId
| VsControlPlane plane_error
| VsProcessIndexAlreadyPopulated
| VsProcessEventJournalNotConfigured
| VsProcessEventJournal ProcessEventJournalError
| VsMetadataOutboxStorage MetadataOutboxStorageError
| VsProcessIngest IngestError
| VsRuntime SitasRuntimeError

datatype 'm ProcessIndex =
  PxLocal HotIndex
| PxSitas "'m SitasShardRuntime"

fun px_ingest ::
  "exec_call \<Rightarrow> PipelineEvent \<Rightarrow> 'm ProcessIndex \<Rightarrow> 'm ProcessIndex \<times> (VannakServiceError + IngestOutcome)" where
  "px_ingest call event (PxLocal ix) =
     (case HotIndex_ingest event ix of (ix, r) \<Rightarrow> (PxLocal ix, map_err VsProcessIngest r))"
| "px_ingest call event (PxSitas rt) =
     (case sitas_ingest call event rt of
        (rt, r) \<Rightarrow> (PxSitas rt, res_bind (map_err VsRuntime r) (\<lambda>outcome. Ok (sio_outcome outcome))))"

fun px_contains_event :: "exec_call \<Rightarrow> 'm ProcessIndex \<Rightarrow> PipelineEvent \<Rightarrow> VannakServiceError + bool" where
  "px_contains_event call (PxLocal ix) event = Ok (contains_event ix (pe_event_id event))"
| "px_contains_event call (PxSitas rt) event =
     map_err VsRuntime (sitas_contains_event call rt (pe_process_instance_id event) (pe_event_id event))"

fun px_snapshot :: "sitas_error + unit \<Rightarrow> 'm ProcessIndex \<Rightarrow> VannakServiceError + HotIndexSnapshot" where
  "px_snapshot fanned (PxLocal ix) = Ok (HotIndex_snapshot ix)"
| "px_snapshot fanned (PxSitas rt) =
     res_bind (map_err VsRuntime (sitas_runtime_snapshot fanned rt)) (\<lambda>s. Ok (srs_totals s))"

fun px_process_instance ::
  "exec_call \<Rightarrow> 'm ProcessIndex \<Rightarrow> ProcessInstanceQuery \<Rightarrow> VannakServiceError + ProcessInstanceSnapshot option" where
  "px_process_instance call (PxLocal ix) q = Ok (process_instance ix q)"
| "px_process_instance call (PxSitas rt) q = map_err VsRuntime (sitas_process_instance call rt q)"

fun px_pipeline_instances ::
  "sitas_error + unit \<Rightarrow> 'm ProcessIndex \<Rightarrow> PipelineQuery \<Rightarrow> VannakServiceError + QueryResult" where
  "px_pipeline_instances fanned (PxLocal ix) q = Ok (pipeline_instances ix q)"
| "px_pipeline_instances fanned (PxSitas rt) q = map_err VsRuntime (sitas_pipeline_instances fanned rt q)"

fun px_events :: "exec_call \<Rightarrow> 'm ProcessIndex \<Rightarrow> EventQuery \<Rightarrow> VannakServiceError + QueryResult" where
  "px_events call (PxLocal ix) q = Ok (events_query ix q)"
| "px_events call (PxSitas rt) q = map_err VsRuntime (sitas_events call rt q)"

fun px_impact :: "sitas_error + unit \<Rightarrow> 'm ProcessIndex \<Rightarrow> ImpactQuery \<Rightarrow> VannakServiceError + QueryResult" where
  "px_impact fanned (PxLocal ix) q = Ok (impact ix q)"
| "px_impact fanned (PxSitas rt) q = map_err VsRuntime (sitas_impact fanned rt q)"

fun px_process_instances_by_status ::
  "sitas_error + unit \<Rightarrow> 'm ProcessIndex \<Rightarrow> ProcessStatusQuery \<Rightarrow> VannakServiceError + QueryResult" where
  "px_process_instances_by_status fanned (PxLocal ix) q = Ok (process_instances_by_status ix q)"
| "px_process_instances_by_status fanned (PxSitas rt) q =
     map_err VsRuntime (sitas_process_instances_by_status fanned rt q)"

fun px_events_in_time_range ::
  "sitas_error + unit \<Rightarrow> 'm ProcessIndex \<Rightarrow> TimeRangeQuery \<Rightarrow> VannakServiceError + QueryResult" where
  "px_events_in_time_range fanned (PxLocal ix) q = Ok (events_in_time_range ix q)"
| "px_events_in_time_range fanned (PxSitas rt) q = map_err VsRuntime (sitas_events_in_time_range fanned rt q)"

subsection \<open>The service\<close>

record ('m, 'p) VannakService =
  vs_hot_index :: "'m ProcessIndex"
  vs_placement_map :: IptoPlacementMap
  vs_control_plane :: "('p \<times> NodeId) option"
  vs_mapping :: IptoMapping
  vs_metadata_outbox :: SegmentBackedMetadataOutbox
  vs_provenance_index :: DataProvenanceIndex
  vs_process_event_journal :: "ProcessEventJournal option"

record DurableProcessIngestResult =
  dpr_outcome :: IngestOutcome
  dpr_offset :: RecordOffset

record MetadataCaptureResult =
  mcr_target :: IptoInstanceId
  mcr_result :: DurableOutboxEnqueueResult

record VannakServiceSnapshot =
  vss_hot_index :: HotIndexSnapshot
  vss_metadata_outbox :: SegmentBackedMetadataOutboxSnapshot
  vss_provenance_index :: DataProvenanceIndexSnapshot
  vss_process_event_journal :: "SegmentManifest option"
  vss_placement_epoch :: PlacementEpoch

record ('m, 'p) VannakServiceRecovery =
  vsr_service :: "('m, 'p) VannakService"
  vsr_summary :: MetadataOutboxReplaySummary

definition VannakService_new ::
  "IptoPlacementMap \<Rightarrow> IptoMapping \<Rightarrow> SegmentBackedMetadataOutbox \<Rightarrow> ('m, 'p) VannakService" where
  "VannakService_new placement mapping outbox =
     \<lparr>vs_hot_index = PxLocal HotIndex_new, vs_placement_map = placement, vs_control_plane = None,
      vs_mapping = mapping, vs_metadata_outbox = outbox, vs_provenance_index = DataProvenanceIndex_new,
      vs_process_event_journal = None\<rparr>"

definition set_control_plane :: "'p \<Rightarrow> NodeId \<Rightarrow> ('m, 'p) VannakService \<Rightarrow> ('m, 'p) VannakService" where
  "set_control_plane plane node sv = sv\<lparr>vs_control_plane := Some (plane, node)\<rparr>"

definition with_process_event_journal :: "ProcessEventJournal \<Rightarrow> ('m, 'p) VannakService \<Rightarrow> ('m, 'p) VannakService" where
  "with_process_event_journal journal sv = sv\<lparr>vs_process_event_journal := Some journal\<rparr>"

definition with_sitas_runtime ::
  "sitas_error + unit \<Rightarrow> 'm SitasShardRuntime \<Rightarrow> ('m, 'p) VannakService \<Rightarrow> VannakServiceError + ('m, 'p) VannakService" where
  "with_sitas_runtime fanned runtime sv =
     res_bind (px_snapshot fanned (vs_hot_index sv)) (\<lambda>s.
     if his_event_count s \<noteq> 0 then Err VsProcessIndexAlreadyPopulated
     else Ok (sv\<lparr>vs_hot_index := PxSitas runtime\<rparr>))"

definition VannakService_create ::
  "disk_io \<Rightarrow> fs \<Rightarrow> IptoPlacementMap \<Rightarrow> IptoMapping \<Rightarrow> path \<Rightarrow> SegmentId \<Rightarrow> NodeId \<Rightarrow>
     fs \<times> (MetadataOutboxStorageError + ('m, 'p) VannakService)" where
  "VannakService_create io fs placement mapping p sid nid =
     (case SegmentBackedMetadataOutbox_create io fs p sid nid of
        (fs', r) \<Rightarrow> (fs', res_bind r (\<lambda>outbox. Ok (VannakService_new placement mapping outbox))))"

definition VannakService_recover_after ::
  "fs \<Rightarrow> IptoPlacementMap \<Rightarrow> IptoMapping \<Rightarrow> path \<Rightarrow> SegmentId \<Rightarrow> NodeId \<Rightarrow> RecordOffset option \<Rightarrow>
     MetadataOutboxStorageError + ('m, 'p) VannakServiceRecovery" where
  "VannakService_recover_after fs placement mapping p sid nid checkpoint_offset =
     res_bind (replay_provenance fs p) (\<lambda>provenance.
     res_bind (SegmentBackedMetadataOutbox_recover_after fs p sid nid checkpoint_offset) (\<lambda>recovery.
     let service = (VannakService_new placement mapping (obr_outbox recovery))\<lparr>vs_provenance_index := provenance\<rparr> in
     Ok \<lparr>vsr_service = service, vsr_summary = obr_summary recovery\<rparr>))"

definition ingest_process_event ::
  "exec_call \<Rightarrow> PipelineEvent \<Rightarrow> ('m, 'p) VannakService \<Rightarrow> ('m, 'p) VannakService \<times> (VannakServiceError + IngestOutcome)" where
  "ingest_process_event call event sv =
     (case px_ingest call event (vs_hot_index sv) of (px, r) \<Rightarrow> (sv\<lparr>vs_hot_index := px\<rparr>, r))"

definition ingest_process_event_durable ::
  "exec_call \<Rightarrow> exec_call \<Rightarrow> disk_io \<Rightarrow> fs \<Rightarrow> PipelineEvent \<Rightarrow> ('m, 'p) VannakService \<Rightarrow>
     fs \<times> ('m, 'p) VannakService \<times> (VannakServiceError + DurableProcessIngestResult)" where
  "ingest_process_event_durable asked call io fs event sv =
     (case PipelineEvent_validate event of
        Inl e \<Rightarrow> (fs, sv, Err (VsProcessIngest e))
      | Inr _ \<Rightarrow>
     (case vs_process_event_journal sv of
        None \<Rightarrow> (fs, sv, Err VsProcessEventJournalNotConfigured)
      | Some journal \<Rightarrow>
     (case px_contains_event asked (vs_hot_index sv) event of
        Inl e \<Rightarrow> (fs, sv, Err e)
      | Inr True \<Rightarrow>
          (fs, sv, Ok \<lparr>dpr_outcome = IoDuplicate, dpr_offset = sm_byte_len (ProcessEventJournal_manifest journal)\<rparr>)
      | Inr False \<Rightarrow>
     (case append_durable io fs journal event of
        (fs', journal, Inl e) \<Rightarrow> (fs', sv\<lparr>vs_process_event_journal := Some journal\<rparr>, Err (VsProcessEventJournal e))
      | (fs', journal, Inr offset) \<Rightarrow>
          (case px_ingest call event (vs_hot_index sv) of
             (px, r) \<Rightarrow>
               (fs', sv\<lparr>vs_process_event_journal := Some journal, vs_hot_index := px\<rparr>,
                res_bind r (\<lambda>outcome. Ok \<lparr>dpr_outcome = outcome, dpr_offset = offset\<rparr>)))))))"

definition ingest_process_event_configured ::
  "exec_call \<Rightarrow> exec_call \<Rightarrow> disk_io \<Rightarrow> fs \<Rightarrow> PipelineEvent \<Rightarrow> ('m, 'p) VannakService \<Rightarrow>
     fs \<times> ('m, 'p) VannakService \<times> (VannakServiceError + IngestOutcome)" where
  "ingest_process_event_configured asked call io fs event sv =
     (if vs_process_event_journal sv \<noteq> None then
        (case ingest_process_event_durable asked call io fs event sv of
           (fs', sv', r) \<Rightarrow> (fs', sv', res_bind r (\<lambda>x. Ok (dpr_outcome x))))
      else
        (case ingest_process_event call event sv of (sv', r) \<Rightarrow> (fs, sv', r)))"

fun ingest_replayed ::
  "exec_call \<Rightarrow> JournaledPipelineEvent list \<Rightarrow> 'm ProcessIndex \<Rightarrow> 'm ProcessIndex \<times> (VannakServiceError + unit)" where
  "ingest_replayed call [] px = (px, Ok ())"
| "ingest_replayed call (e # es) px =
     (case px_ingest call (je_event e) px of
        (px, Inl err) \<Rightarrow> (px, Err err)
      | (px, Inr _) \<Rightarrow> ingest_replayed call es px)"

definition recover_process_events_into_hot_index ::
  "exec_call \<Rightarrow> fs \<Rightarrow> path \<Rightarrow> ('m, 'p) VannakService \<Rightarrow>
     ('m, 'p) VannakService \<times> (VannakServiceError + ProcessEventReplaySummary)" where
  "recover_process_events_into_hot_index call fs p sv =
     (case replay_process_event_segment fs p of
        Inl e \<Rightarrow> (sv, Err (VsProcessEventJournal e))
      | Inr replay \<Rightarrow>
          (case ingest_replayed call (rp_events replay) (vs_hot_index sv) of
             (px, r) \<Rightarrow> (sv\<lparr>vs_hot_index := px\<rparr>, res_bind r (\<lambda>_. Ok (rp_summary replay)))))"

text \<open>
  \<open>capture_metadata_event\<close>: validate, refresh the placement map from the committed control state,
  resolve the target, check the writer lease, enqueue durably, index the event.
\<close>

definition read_committed ::
  "('p \<Rightarrow> plane_error + ClusterControlState) \<Rightarrow> ('m, 'p) VannakService \<Rightarrow> VannakServiceError + ClusterControlState option" where
  "read_committed read sv =
     (case vs_control_plane sv of
        None \<Rightarrow> Ok None
      | Some (plane, _) \<Rightarrow> res_bind (map_err VsControlPlane (read plane)) (\<lambda>state. Ok (Some state)))"

definition refresh_placement ::
  "ClusterControlState option \<Rightarrow> ('m, 'p) VannakService \<Rightarrow> VannakServiceError + ('m, 'p) VannakService" where
  "refresh_placement committed sv =
     (case committed of
        None \<Rightarrow> Ok sv
      | Some state \<Rightarrow>
          (case placement_map state of
             None \<Rightarrow> Err (VsControlPlane (PlaneUnavailable ''placement is not committed''))
           | Some m \<Rightarrow> Ok (sv\<lparr>vs_placement_map := m\<rparr>)))"

definition lease_missing :: "ClusterControlState option \<Rightarrow> IptoInstanceId \<Rightarrow> ('m, 'p) VannakService \<Rightarrow> NodeId option" where
  "lease_missing committed target sv =
     (case (committed, vs_control_plane sv) of
        (Some state, Some (_, node)) \<Rightarrow>
          (case writer_lease state target of
             None \<Rightarrow> Some node
           | Some lease \<Rightarrow> if wl_holder lease \<noteq> node then Some node else None)
      | _ \<Rightarrow> None)"

definition capture_target ::
  "('p \<Rightarrow> plane_error + ClusterControlState) \<Rightarrow> DataIndividualMetadataEvent \<Rightarrow> ('m, 'p) VannakService \<Rightarrow>
     ('m, 'p) VannakService \<times> (VannakServiceError + IptoInstanceId)" where
  "capture_target read event sv =
     (case DataIndividualMetadataEvent_validate event of
        Inl e \<Rightarrow> (sv, Err (VsProcessIngest e))
      | Inr _ \<Rightarrow>
     (case read_committed read sv of
        Inl e \<Rightarrow> (sv, Err e)
      | Inr committed \<Rightarrow>
     (case refresh_placement committed sv of
        Inl e \<Rightarrow> (sv, Err e)
      | Inr sv \<Rightarrow>
     (case map_resolve (vs_placement_map sv) (dm_data_individual_shard_id event) of
        None \<Rightarrow> (sv, Err (VsNoPlacementTarget (dm_data_individual_shard_id event)))
      | Some target \<Rightarrow>
     (case lease_missing committed target sv of
        Some node \<Rightarrow> (sv, Err (VsWriterLeaseNotHeld target node))
      | None \<Rightarrow> (sv, Ok target))))))"

definition capture_metadata_event ::
  "('p \<Rightarrow> plane_error + ClusterControlState) \<Rightarrow> disk_io \<Rightarrow> fs \<Rightarrow> DataIndividualMetadataEvent \<Rightarrow> ('m, 'p) VannakService \<Rightarrow>
     fs \<times> ('m, 'p) VannakService \<times> (VannakServiceError + MetadataCaptureResult)" where
  "capture_metadata_event read io fs event sv =
     (case capture_target read event sv of
        (sv, Inl e) \<Rightarrow> (fs, sv, Err e)
      | (sv, Inr target) \<Rightarrow>
     (case enqueue_durable io fs (from_event event target (vs_mapping sv)) (vs_metadata_outbox sv) of
        (fs', outbox, Inl e) \<Rightarrow> (fs', sv\<lparr>vs_metadata_outbox := outbox\<rparr>, Err (VsMetadataOutboxStorage e))
      | (fs', outbox, Inr result) \<Rightarrow>
          (fs', sv\<lparr>vs_metadata_outbox := outbox,
                   vs_provenance_index := fst (DataProvenanceIndex_ingest event (vs_provenance_index sv))\<rparr>,
           Ok \<lparr>mcr_target = target, mcr_result = result\<rparr>)))"

definition drain_metadata_for_target ::
  "'w ipto_write \<Rightarrow> IptoInstanceId \<Rightarrow> nat \<Rightarrow> ('m, 'p) VannakService \<Rightarrow> 'w \<Rightarrow>
     ('m, 'p) VannakService \<times> 'w \<times> MetadataOutboxDrainSummary" where
  "drain_metadata_for_target write target max_attempts sv w =
     (case drain_pending_outbox_for_target write target max_attempts (bo_outbox (vs_metadata_outbox sv)) w of
        (ob, w', summary) \<Rightarrow>
          (sv\<lparr>vs_metadata_outbox := (vs_metadata_outbox sv)\<lparr>bo_outbox := ob\<rparr>\<rparr>, w', summary))"

definition drain_metadata_for_target_if_lease_held ::
  "ClusterControlState \<Rightarrow> NodeId \<Rightarrow> 'w ipto_write \<Rightarrow> IptoInstanceId \<Rightarrow> nat \<Rightarrow> ('m, 'p) VannakService \<Rightarrow> 'w \<Rightarrow>
     ('m, 'p) VannakService \<times> 'w \<times> (VannakServiceError + MetadataOutboxDrainSummary)" where
  "drain_metadata_for_target_if_lease_held state node write target max_attempts sv w =
     (case writer_lease state target of
        None \<Rightarrow> (sv, w, Err (VsWriterLeaseNotHeld target node))
      | Some lease \<Rightarrow>
          if wl_holder lease \<noteq> node then (sv, w, Err (VsWriterLeaseNotHeld target node))
          else (case drain_metadata_for_target write target max_attempts sv w of
                  (sv', w', summary) \<Rightarrow> (sv', w', Ok summary)))"

definition service_acknowledged_checkpoint ::
  "DataIndividualShardId \<Rightarrow> IptoInstanceId \<Rightarrow> CheckpointEpoch \<Rightarrow> ('m, 'p) VannakService \<Rightarrow> MetadataOutboxCheckpoint option" where
  "service_acknowledged_checkpoint shard target epoch sv =
     durable_acknowledged_checkpoint shard target epoch (vs_metadata_outbox sv)"

definition service_acknowledged_checkpoints_for_target ::
  "IptoInstanceId \<Rightarrow> CheckpointEpoch \<Rightarrow> ('m, 'p) VannakService \<Rightarrow> MetadataOutboxCheckpoint list" where
  "service_acknowledged_checkpoints_for_target target epoch sv =
     durable_acknowledged_checkpoints_for_target target epoch (vs_metadata_outbox sv)"

definition service_snapshot ::
  "sitas_error + unit \<Rightarrow> ('m, 'p) VannakService \<Rightarrow> VannakServiceError + VannakServiceSnapshot" where
  "service_snapshot fanned sv =
     res_bind (px_snapshot fanned (vs_hot_index sv)) (\<lambda>hot_index.
     Ok \<lparr>vss_hot_index = hot_index,
         vss_metadata_outbox = durable_snapshot (vs_metadata_outbox sv),
         vss_provenance_index = DataProvenanceIndex_snapshot (vs_provenance_index sv),
         vss_process_event_journal = map_option ProcessEventJournal_manifest (vs_process_event_journal sv),
         vss_placement_epoch = pm_epoch (vs_placement_map sv)\<rparr>)"

definition service_replay_metadata_outbox_after ::
  "fs \<Rightarrow> path \<Rightarrow> RecordOffset option \<Rightarrow> MetadataOutboxStorageError + MetadataOutboxReplay" where
  "service_replay_metadata_outbox_after fs p checkpoint_offset = replay_metadata_outbox_segment_after fs p checkpoint_offset"

definition service_process_instance ::
  "exec_call \<Rightarrow> ('m, 'p) VannakService \<Rightarrow> ProcessInstanceQuery \<Rightarrow> VannakServiceError + ProcessInstanceSnapshot option" where
  "service_process_instance call sv q = px_process_instance call (vs_hot_index sv) q"

definition service_pipeline_instances ::
  "sitas_error + unit \<Rightarrow> ('m, 'p) VannakService \<Rightarrow> PipelineQuery \<Rightarrow> VannakServiceError + QueryResult" where
  "service_pipeline_instances fanned sv q = px_pipeline_instances fanned (vs_hot_index sv) q"

definition service_events :: "exec_call \<Rightarrow> ('m, 'p) VannakService \<Rightarrow> EventQuery \<Rightarrow> VannakServiceError + QueryResult" where
  "service_events call sv q = px_events call (vs_hot_index sv) q"

definition service_impact ::
  "sitas_error + unit \<Rightarrow> ('m, 'p) VannakService \<Rightarrow> ImpactQuery \<Rightarrow> VannakServiceError + QueryResult" where
  "service_impact fanned sv q = px_impact fanned (vs_hot_index sv) q"

definition service_process_instances_by_status ::
  "sitas_error + unit \<Rightarrow> ('m, 'p) VannakService \<Rightarrow> ProcessStatusQuery \<Rightarrow> VannakServiceError + QueryResult" where
  "service_process_instances_by_status fanned sv q = px_process_instances_by_status fanned (vs_hot_index sv) q"

definition service_events_in_time_range ::
  "sitas_error + unit \<Rightarrow> ('m, 'p) VannakService \<Rightarrow> TimeRangeQuery \<Rightarrow> VannakServiceError + QueryResult" where
  "service_events_in_time_range fanned sv q = px_events_in_time_range fanned (vs_hot_index sv) q"

definition service_metadata_for_data_individual :: "('m, 'p) VannakService \<Rightarrow> DataIndividualMetadataQuery \<Rightarrow> QueryResult" where
  "service_metadata_for_data_individual sv q = metadata_for_data_individual (vs_provenance_index sv) q"

definition service_metadata_for_process :: "('m, 'p) VannakService \<Rightarrow> ProcessMetadataQuery \<Rightarrow> QueryResult" where
  "service_metadata_for_process sv q = metadata_for_process (vs_provenance_index sv) q"

definition service_metadata_for_activity :: "('m, 'p) VannakService \<Rightarrow> ActivityMetadataQuery \<Rightarrow> QueryResult" where
  "service_metadata_for_activity sv q = metadata_for_activity (vs_provenance_index sv) q"

definition service_data_individuals_for_process :: "('m, 'p) VannakService \<Rightarrow> ProcessInstanceId \<Rightarrow> DataIndividualId list" where
  "service_data_individuals_for_process sv p = data_individuals_for_process (vs_provenance_index sv) p"

definition service_data_individuals_for_activity ::
  "('m, 'p) VannakService \<Rightarrow> ProcessInstanceId \<Rightarrow> ActivityId \<Rightarrow> DataIndividualId list" where
  "service_data_individuals_for_activity sv p a = data_individuals_for_activity (vs_provenance_index sv) p a"

subsection \<open>Process events and restarts\<close>

text \<open>
  \<open>service_run fs sv es acked\<close>: a service with a local process index and a journal that holds the
  events \<open>es\<close>; \<open>acked\<close> are the events whose durable ingestion was answered with a result. The
  process may stop and start again at any point: the new service opens the journal and replays it
  into a fresh index.
\<close>

definition restarted :: "fs \<Rightarrow> ('m, 'p) VannakService \<Rightarrow> ProcessEventJournal \<Rightarrow> ('m, 'p) VannakService \<times> (VannakServiceError + ProcessEventReplaySummary)" where
  "restarted fs sv journal =
     recover_process_events_into_hot_index CallCompletes fs (sw_path (pj_writer journal))
       (with_process_event_journal journal (sv\<lparr>vs_hot_index := PxLocal HotIndex_new\<rparr>))"

inductive service_run ::
  "fs \<Rightarrow> ('m, 'p) VannakService \<Rightarrow> PipelineEvent list \<Rightarrow> PipelineEvent list \<Rightarrow> bool" where
  sr_created: "ProcessEventJournal_create io fs p sid nid = (fs', Inr j) \<Longrightarrow> vs_hot_index sv = PxLocal HotIndex_new \<Longrightarrow>
     service_run fs' (with_process_event_journal j sv) [] []"
| sr_ingested: "service_run fs sv es acked \<Longrightarrow> event_rust e \<Longrightarrow>
     ingest_process_event_durable asked call io fs e sv = (fs', sv', Inr res) \<Longrightarrow>
     service_run fs' sv' (if dpr_outcome res = IoDuplicate then es else es @ [e]) (acked @ [e])"
| sr_unsynced: "service_run fs sv es acked \<Longrightarrow> event_rust e \<Longrightarrow>
     ingest_process_event_durable asked call io fs e sv = (fs', sv', Inl (VsProcessEventJournal (JeSegment (Io SyncError)))) \<Longrightarrow>
     service_run fs' sv' (es @ [e]) acked"
| sr_rejected: "service_run fs sv es acked \<Longrightarrow>
     ingest_process_event_durable asked call io fs e sv = (fs', sv', Inl (VsProcessIngest err)) \<Longrightarrow> service_run fs' sv' es acked"
| sr_restarted: "service_run fs sv es acked \<Longrightarrow> vs_process_event_journal sv = Some j \<Longrightarrow>
     ProcessEventJournal_recover fs (sw_path (pj_writer j)) sid nid = Inr r \<Longrightarrow>
     restarted fs sv (jr_journal r) = (sv', Inr summary) \<Longrightarrow> service_run fs sv' es acked"

definition service_wf :: "fs \<Rightarrow> ('m, 'p) VannakService \<Rightarrow> PipelineEvent list \<Rightarrow> PipelineEvent list \<Rightarrow> bool" where
  "service_wf fs sv es acked \<longleftrightarrow>
     (\<exists>j ix log. vs_process_event_journal sv = Some j \<and> journal_holds fs j es \<and>
        vs_hot_index sv = PxLocal ix \<and> index_of ix log \<and> set log \<subseteq> set es \<and>
        pe_event_id ` set acked \<subseteq> pe_event_id ` set log)"

lemma ingest_replayed_local:
  assumes "list_all event_valid (map je_event jes)"
  shows "ingest_replayed call jes (PxLocal ix) = (PxLocal (ingest_all (map je_event jes) ix), Inr ())"
  using assms
proof (induction jes arbitrary: ix)
  case (Cons e jes)
  obtain out where "snd (HotIndex_ingest (je_event e) ix) = Inr out"
    using Cons.prems ingest_valid [of "je_event e" ix] by auto
  with Cons show ?case by (simp add: case_prod_beta ingest_all_def)
qed (simp add: ingest_all_def)

lemma recover_local:
  assumes "journal_holds fs j es" "vs_hot_index sv = PxLocal HotIndex_new"
  shows "recover_process_events_into_hot_index call fs (sw_path (pj_writer j)) sv
    = (sv\<lparr>vs_hot_index := PxLocal (ingest_all es HotIndex_new)\<rparr>,
       Inr \<lparr>rs_scanned_records = of_nat (length es), rs_replayed_records = of_nat (length es)\<rparr>)"
proof -
  have "list_all event_valid (map je_event (journaled es))" using assms(1) by (simp add: journal_holds_def)
  then show ?thesis
    by (simp add: recover_process_events_into_hot_index_def replay_journal [OF assms(1)] assms(2) ingest_replayed_local)
qed

lemma ids_log_of: "list_all event_valid es \<Longrightarrow> pe_event_id ` set (log_of es) = pe_event_id ` set es"
  unfolding ids_fold_log_accept by (auto simp: list_all_iff)

lemma find_valid: "list_all event_valid es \<Longrightarrow> find (\<lambda>e. event_valid e \<and> P e) es = find P es"
  by (induction es) simp_all

text \<open>What a durable ingestion with a local index does, by its answer.\<close>

lemma ingest_durable_local:
  assumes "vs_hot_index sv = PxLocal ix" "vs_process_event_journal sv = Some j"
    and "ingest_process_event_durable asked call io fs e sv = (fs', sv', r)"
  shows "r = Inr res \<Longrightarrow> dpr_outcome res = IoDuplicate \<Longrightarrow> fs' = fs \<and> sv' = sv \<and> contains_event ix (pe_event_id e)"
    and "r = Inr res \<Longrightarrow> dpr_outcome res \<noteq> IoDuplicate \<Longrightarrow> \<exists>j'. append_durable io fs j e = (fs', j', Inr (dpr_offset res)) \<and>
      vs_process_event_journal sv' = Some j' \<and> vs_hot_index sv' = PxLocal (fst (HotIndex_ingest e ix)) \<and> \<not> contains_event ix (pe_event_id e)"
    and "r = Inl (VsProcessEventJournal je) \<Longrightarrow> \<exists>j'. append_durable io fs j e = (fs', j', Inl je) \<and>
      sv' = sv\<lparr>vs_process_event_journal := Some j'\<rparr>"
    and "r = Inl (VsProcessIngest err) \<Longrightarrow> fs' = fs \<and> sv' = sv"
  using assms
  by (auto simp: ingest_process_event_durable_def HotIndex_ingest_def contains_event_def Let_def
      split: sum.splits bool.splits prod.splits if_splits)

lemma service_wf_ingested:
  assumes "service_wf fs sv es acked" "event_rust e"
    and "ingest_process_event_durable asked call io fs e sv = (fs', sv', Inr res)"
  shows "service_wf fs' sv' (if dpr_outcome res = IoDuplicate then es else es @ [e]) (acked @ [e])"
proof -
  from assms(1) obtain j ix log where j: "vs_process_event_journal sv = Some j" "journal_holds fs j es"
    and ix: "vs_hot_index sv = PxLocal ix" "index_of ix log" "set log \<subseteq> set es"
    and ack: "pe_event_id ` set acked \<subseteq> pe_event_id ` set log" by (auto simp: service_wf_def)
  note spec = ingest_durable_local [OF ix(1) j(1) assms(3)]
  show ?thesis
  proof (cases "dpr_outcome res = IoDuplicate")
    case True
    from spec(1) [OF refl True] contains_index [OF ix(2)] have "fs' = fs" "sv' = sv" "pe_event_id e \<in> pe_event_id ` set log"
      by (auto simp: contains_event_def)
    with True j ix ack show ?thesis by (auto simp: service_wf_def)
  next
    case False
    from spec(2) [OF refl False] obtain j' where a: "append_durable io fs j e = (fs', j', Inr (dpr_offset res))"
      and sv': "vs_process_event_journal sv' = Some j'" "vs_hot_index sv' = PxLocal (fst (HotIndex_ingest e ix))"
      and new: "pe_event_id e \<notin> pe_event_id ` set log" using contains_index [OF ix(2)] by (auto simp: contains_event_def)
    have holds: "journal_holds fs' j' (es @ [e])" using journal_holds_append [OF j(2) assms(2) a] by blast
    then have "event_valid e" by (simp add: journal_holds_def)
    then have "log_accept e log = log @ [e]" using new by (simp add: log_accept_def)
    with index_of_ingest [OF ix(2), of e] have "index_of (fst (HotIndex_ingest e ix)) (log @ [e])" by simp
    moreover have "set (log @ [e]) \<subseteq> set (es @ [e])" "pe_event_id ` set (acked @ [e]) \<subseteq> pe_event_id ` set (log @ [e])"
      using ix(3) ack by auto
    ultimately have "service_wf fs' sv' (es @ [e]) (acked @ [e])"
      using sv' holds unfolding service_wf_def by blast
    then show ?thesis using False by simp
  qed
qed

lemma service_run_wf: "service_run fs sv es acked \<Longrightarrow> service_wf fs sv es acked"
proof (induction rule: service_run.induct)
  case (sr_created io fs p sid nid fs' j sv)
  then show ?case
    using journal_holds_create index_of_new by (fastforce simp: service_wf_def with_process_event_journal_def)
next
  case sr_ingested
  then show ?case using service_wf_ingested by blast
next
  case (sr_unsynced fs sv es acked e asked call io fs' sv')
  then obtain j ix log where j: "vs_process_event_journal sv = Some j" "journal_holds fs j es"
    and ix: "vs_hot_index sv = PxLocal ix" "index_of ix log" "set log \<subseteq> set es"
    and ack: "pe_event_id ` set acked \<subseteq> pe_event_id ` set log" by (auto simp: service_wf_def)
  from ingest_durable_local(3) [OF ix(1) j(1) sr_unsynced.hyps(3) refl] obtain j' where
    a: "append_durable io fs j e = (fs', j', Inl (JeSegment (Io SyncError)))"
    and sv': "sv' = sv\<lparr>vs_process_event_journal := Some j'\<rparr>" by blast
  have "journal_holds fs' j' (es @ [e])" using journal_holds_append [OF j(2) sr_unsynced.hyps(2) a] by blast
  with ix ack sv' show ?case by (auto simp: service_wf_def)
next
  case (sr_rejected fs sv es acked asked call io e fs' sv' err)
  then obtain j ix where "vs_process_event_journal sv = Some j" "vs_hot_index sv = PxLocal ix"
    by (auto simp: service_wf_def)
  from ingest_durable_local(4) [OF this(2,1) sr_rejected.hyps(2) refl] sr_rejected.IH show ?case by simp
next
  case (sr_restarted fs sv es acked j sid nid r sv' summary)
  then have j: "journal_holds fs j es" by (auto simp: service_wf_def)
  from recover_journal [OF j, of sid nid] sr_restarted.hyps(3) have j': "journal_holds fs (jr_journal r) es" by auto
  from recover_local [OF j', of "with_process_event_journal (jr_journal r) (sv\<lparr>vs_hot_index := PxLocal HotIndex_new\<rparr>)" CallCompletes]
    sr_restarted.hyps(4)
  have sv': "vs_process_event_journal sv' = Some (jr_journal r)" "vs_hot_index sv' = PxLocal (ingest_all es HotIndex_new)"
    by (auto simp: restarted_def with_process_event_journal_def)
  have valid: "list_all event_valid es" using j by (simp add: journal_holds_def)
  have "pe_event_id ` set acked \<subseteq> pe_event_id ` set es"
    using sr_restarted.IH unfolding service_wf_def by (meson image_mono subset_trans)
  moreover have "index_of (ingest_all es HotIndex_new) (log_of es)"
    using index_of_ingest_all [OF index_of_new, of es] by simp
  ultimately show ?case unfolding service_wf_def using sv' j' set_log_of [of es] ids_log_of [OF valid]
    by (intro exI [of _ "jr_journal r"] exI [of _ "ingest_all es HotIndex_new"] exI [of _ "log_of es"]) auto
qed

text \<open>
  (C2) Process events survive restarts. Take any history of a service with a local index and a
  process-event journal: durable ingestions that succeed, that are duplicates, that are rejected,
  whose sync fails, and restarts. Starting again from the journal's path succeeds, yields exactly
  the index of the journaled events in their order, and counts each record once; every event whose
  ingestion was ever answered with a result is known to the live index and to the recovered one; the
  recovered index knows every event the live one knows and, for each event id, returns the first
  journaled event with that id.
\<close>

theorem process_events_survive_restart:
  assumes "service_run fs sv es acked"
  shows "\<exists>j ix r sv' summary.
     vs_process_event_journal sv = Some j \<and> vs_hot_index sv = PxLocal ix \<and>
     ProcessEventJournal_recover fs (sw_path (pj_writer j)) sid nid = Ok r \<and>
     restarted fs sv (jr_journal r) = (sv', Ok summary) \<and>
     vs_hot_index sv' = PxLocal (ingest_all es HotIndex_new) \<and>
     rs_replayed_records summary = of_nat (length es) \<and>
     (\<forall>e. e \<in> set acked \<longrightarrow> contains_event ix (pe_event_id e) \<and>
        contains_event (ingest_all es HotIndex_new) (pe_event_id e)) \<and>
     (\<forall>i. contains_event ix i \<longrightarrow> contains_event (ingest_all es HotIndex_new) i) \<and>
     (\<forall>i. bt_get (hi_events_by_id (ingest_all es HotIndex_new)) i = find (\<lambda>e. pe_event_id e = i) es)"
proof -
  from service_run_wf [OF assms] obtain j ix log where
    j: "vs_process_event_journal sv = Some j" "journal_holds fs j es"
    and ix: "vs_hot_index sv = PxLocal ix" "index_of ix log" "set log \<subseteq> set es"
    and ack: "pe_event_id ` set acked \<subseteq> pe_event_id ` set log" unfolding service_wf_def by blast
  from recover_journal [OF j(2), of sid nid] obtain r where
    r: "ProcessEventJournal_recover fs (sw_path (pj_writer j)) sid nid = Ok r" "journal_holds fs (jr_journal r) es" by auto
  obtain sv' summary where re: "restarted fs sv (jr_journal r) = (sv', Ok summary)"
    and sv': "vs_hot_index sv' = PxLocal (ingest_all es HotIndex_new)"
    and n: "rs_replayed_records summary = of_nat (length es)"
    using recover_local [OF r(2), of "with_process_event_journal (jr_journal r) (sv\<lparr>vs_hot_index := PxLocal HotIndex_new\<rparr>)" CallCompletes]
    by (simp add: restarted_def with_process_event_journal_def)
  have valid: "list_all event_valid es" using j(2) by (simp add: journal_holds_def)
  have rix: "index_of (ingest_all es HotIndex_new) (log_of es)"
    using index_of_ingest_all [OF index_of_new, of es] by simp
  have live: "contains_event ix i \<longleftrightarrow> i \<in> pe_event_id ` set log" for i
    by (simp add: contains_event_def contains_index [OF ix(2)])
  have recovered: "contains_event (ingest_all es HotIndex_new) i \<longleftrightarrow> i \<in> pe_event_id ` set es" for i
    by (simp add: contains_event_def contains_index [OF rix] ids_log_of [OF valid])
  have "bt_get (hi_events_by_id (ingest_all es HotIndex_new)) i = find (\<lambda>e. pe_event_id e = i) es" for i
    using hot_events.lookup_fold [of es HotIndex_new i] find_valid [OF valid]
    by (simp add: ingest_all_def HotIndex_new_def)
  moreover have "\<forall>e. e \<in> set acked \<longrightarrow> contains_event ix (pe_event_id e) \<and> contains_event (ingest_all es HotIndex_new) (pe_event_id e)"
    "\<forall>i. contains_event ix i \<longrightarrow> contains_event (ingest_all es HotIndex_new) i"
    unfolding live recovered using ack subset_trans [OF ack image_mono [OF ix(3)]] image_mono [OF ix(3), of pe_event_id] by blast+
  ultimately show ?thesis using j(1) ix(1) r(1) re sv' n by (intro exI conjI) simp_all
qed

lemma valid_event_durable:
  assumes "ProcessEventJournal_create \<lparr>write_budget = None, sync_fails = False\<rparr> Map.empty ''j'' ''s'' ''n'' = (fs0, Inr j0)"
    and "vs_hot_index sv = PxLocal HotIndex_new" "event_valid e" "length (encode_pipeline_event e) \<le> MAX_RECORD_LEN"
  shows "\<exists>fs' sv' res. ingest_process_event_durable CallCompletes CallCompletes \<lparr>write_budget = None, sync_fails = False\<rparr>
      fs0 e (with_process_event_journal j0 sv) = (fs', sv', Inr res) \<and> dpr_outcome res = IoAccepted"
proof -
  let ?io = "\<lparr>write_budget = None, sync_fails = False\<rparr>"
  obtain fs1 j1 off where "append_durable ?io fs0 j0 e = (fs1, j1, Inr off)"
    using assms(3,4) append_record_unlimited [of ?io "encode_pipeline_event e" fs0 "pj_writer j0"]
    by (simp add: append_durable_def SegmentWriter_sync_def flip: validate_iff)
  moreover have "PipelineEvent_validate e = Inr ()" using assms(3) by (simp add: validate_iff)
  moreover have "snd (HotIndex_ingest e HotIndex_new) = Inr IoAccepted"
    using ingest_result [OF index_of_new, of e] assms(3) by simp
  ultimately show ?thesis using assms(2)
    by (simp add: ingest_process_event_durable_def with_process_event_journal_def contains_event_def
        bt_contains_key_iff HotIndex_new_def [THEN arg_cong [of _ _ hi_events_by_id]] case_prod_beta)
qed

lemma codec_sample_durable:
  assumes "ProcessEventJournal_create \<lparr>write_budget = None, sync_fails = False\<rparr> Map.empty ''j'' ''s'' ''n'' = (fs0, Inr j0)"
    and "vs_hot_index sv = PxLocal HotIndex_new"
  shows "\<exists>fs' sv' res. ingest_process_event_durable CallCompletes CallCompletes \<lparr>write_budget = None, sync_fails = False\<rparr>
      fs0 codec_sample (with_process_event_journal j0 sv) = (fs', sv', Inr res) \<and> dpr_outcome res = IoAccepted"
proof (rule valid_event_durable [OF assms])
  show "event_valid codec_sample" "length (encode_pipeline_event codec_sample) \<le> MAX_RECORD_LEN"
    using codec_sample_ok
    by (simp_all add: event_encodable_strings event_rust_def str_ok_def list_all_iff MAX_RECORD_LEN_def)
      (simp add: codec_sample_def event_builder_defs event_valid_def)
qed

lemma process_events_survive_restart_witness:
  "\<exists>fs (sv :: (unit, unit) VannakService) j r sv' summary.
     service_run fs sv [codec_sample] [codec_sample] \<and> vs_process_event_journal sv = Some j \<and>
     ProcessEventJournal_recover fs (sw_path (pj_writer j)) ''s'' ''n'' = Ok r \<and>
     restarted fs sv (jr_journal r) = (sv', Ok summary) \<and>
     vs_hot_index sv' = PxLocal (ingest_all [codec_sample] HotIndex_new) \<and>
     contains_event (ingest_all [codec_sample] HotIndex_new) (pe_event_id codec_sample)"
proof -
  let ?io = "\<lparr>write_budget = None, sync_fails = False\<rparr>"
  obtain fs0 j0 where c: "ProcessEventJournal_create ?io Map.empty ''j'' ''s'' ''n'' = (fs0, Inr j0)"
    by (simp add: ProcessEventJournal_create_def SegmentWriter_create_def write_all_def)
  define sv0 :: "(unit, unit) VannakService" where
    "sv0 = undefined\<lparr>vs_hot_index := PxLocal HotIndex_new\<rparr>"
  have ix: "vs_hot_index sv0 = PxLocal HotIndex_new" by (simp add: sv0_def)
  have rust: "event_rust codec_sample"
    using codec_sample_ok by (simp add: event_encodable_strings event_rust_def str_ok_def list_all_iff)
  from codec_sample_durable [OF c ix] obtain fs1 sv1 res where
    "ingest_process_event_durable CallCompletes CallCompletes ?io fs0 codec_sample
       (with_process_event_journal j0 sv0) = (fs1, sv1, Inr res)" "dpr_outcome res = IoAccepted" by blast
  with service_run.sr_ingested [OF service_run.sr_created [OF c ix] rust]
  have run: "service_run fs1 sv1 [codec_sample] [codec_sample]" by fastforce
  from process_events_survive_restart [OF run, of "''s''" "''n''"] run show ?thesis by fastforce
qed

subsection \<open>Metadata events\<close>

lemma capture_target_uncontrolled:
  assumes "vs_control_plane sv = None"
  shows "capture_target read event sv =
    (sv, case DataIndividualMetadataEvent_validate event of
           Inl e \<Rightarrow> Err (VsProcessIngest e)
         | Inr _ \<Rightarrow> (case map_resolve (vs_placement_map sv) (dm_data_individual_shard_id event) of
             None \<Rightarrow> Err (VsNoPlacementTarget (dm_data_individual_shard_id event)) | Some target \<Rightarrow> Ok target))"
  using assms
  by (simp add: capture_target_def read_committed_def refresh_placement_def lease_missing_def split: sum.split option.split)

lemma capture_target_controlled:
  assumes "vs_control_plane sv = Some (plane, node)"
  shows "capture_target read event sv =
    (case DataIndividualMetadataEvent_validate event of
       Inl e \<Rightarrow> (sv, Err (VsProcessIngest e))
     | Inr _ \<Rightarrow>
    (case read plane of
       Inl e \<Rightarrow> (sv, Err (VsControlPlane e))
     | Inr state \<Rightarrow>
    (case placement_map state of
       None \<Rightarrow> (sv, Err (VsControlPlane (PlaneUnavailable ''placement is not committed'')))
     | Some m \<Rightarrow>
         (sv\<lparr>vs_placement_map := m\<rparr>,
          case map_resolve m (dm_data_individual_shard_id event) of
            None \<Rightarrow> Err (VsNoPlacementTarget (dm_data_individual_shard_id event))
          | Some target \<Rightarrow>
              if \<exists>lease. writer_lease state target = Some lease \<and> wl_holder lease = node then Ok target
              else Err (VsWriterLeaseNotHeld target node)))))"
  using assms
  by (simp add: capture_target_def read_committed_def refresh_placement_def lease_missing_def split: sum.split option.split)

lemma capture_target_frame:
  assumes "capture_target read event sv = (sv', r)"
  shows "\<exists>m. sv' = sv\<lparr>vs_placement_map := m\<rparr> \<and> (vs_control_plane sv = None \<longrightarrow> m = vs_placement_map sv)"
proof (cases "vs_control_plane sv")
  case None
  with assms show ?thesis by (intro exI [of _ "vs_placement_map sv"]) (simp add: capture_target_uncontrolled)
next
  case (Some a)
  have same: "\<exists>m. sv = sv\<lparr>vs_placement_map := m\<rparr>" by (intro exI [of _ "vs_placement_map sv"]) simp
  from Some obtain plane node where cp: "vs_control_plane sv = Some (plane, node)" by (cases a) auto
  from assms [unfolded capture_target_controlled [OF cp]] same cp show ?thesis
    by (simp split: sum.splits option.splits) blast+
qed

lemma capture_target_ok:
  assumes "capture_target read event sv = (sv', Inr target)"
  shows "DataIndividualMetadataEvent_validate event = Ok ()"
    and "map_resolve (vs_placement_map sv') (dm_data_individual_shard_id event) = Some target"
    and "vs_control_plane sv = Some (plane, node) \<Longrightarrow>
      \<exists>state lease. read plane = Ok state \<and> placement_map state = Some (vs_placement_map sv') \<and>
        writer_lease state target = Some lease \<and> wl_holder lease = node"
proof -
  show "DataIndividualMetadataEvent_validate event = Ok ()"
    using assms by (simp add: capture_target_def split: sum.splits)
  show "map_resolve (vs_placement_map sv') (dm_data_individual_shard_id event) = Some target"
    using assms by (cases "vs_control_plane sv")
      (auto simp: capture_target_uncontrolled capture_target_controlled split: sum.splits option.splits if_splits)
  show "\<exists>state lease. read plane = Ok state \<and> placement_map state = Some (vs_placement_map sv') \<and>
      writer_lease state target = Some lease \<and> wl_holder lease = node" if "vs_control_plane sv = Some (plane, node)"
    using assms that by (auto simp: capture_target_controlled split: sum.splits option.splits if_splits)
qed

lemma capture_target_no_storage_error:
  "snd (capture_target read event sv) \<noteq> Inl (VsMetadataOutboxStorage e)"
  by (cases "vs_control_plane sv")
    (auto simp: capture_target_uncontrolled capture_target_controlled split: sum.splits option.splits if_splits)

lemma enqueue_durable_result:
  assumes "enqueue_durable io fs p b = (fs', b', r)"
  shows "r = Inr res \<Longrightarrow> bt_contains_key (ob_entries (bo_outbox b')) (wp_idempotency_key p)"
    and "r = Inl e \<Longrightarrow> bo_outbox b' = bo_outbox b"
  using assms
  by (auto simp: enqueue_durable_def enqueue_lookup bt_contains_key_iff split: if_splits sum.splits prod.splits)

lemma prov_contains_ingest:
  "bt_contains_key (pi_events_by_idempotency (fst (DataProvenanceIndex_ingest e ix))) k \<longleftrightarrow>
     k = dm_idempotency_key e \<or> bt_contains_key (pi_events_by_idempotency ix) k"
  by (auto simp: bt_contains_key_iff prov_lookup_ingest)

lemma from_event_simps [simp]:
  "wp_idempotency_key (from_event e t m) = dm_idempotency_key e" "wp_provenance (from_event e t m) = Some e"
  by (simp_all add: from_event_def Let_def)

text \<open>
  (C4) What a capture does. A capture that is answered with a result took a valid event, to the
  target the placement in force resolves for its shard; with a control plane that placement is the
  committed one and this node holds the target's writer lease in the same committed state. The
  event's key is then in the outbox and in the provenance index. A storage failure changes neither
  the in-memory outbox nor the provenance index, every other failure leaves the disk and the outbox
  alone too, and no capture touches the process index, the journal, the mapping or the control plane.
\<close>

theorem capture_metadata_event_guarded:
  assumes "capture_metadata_event read io fs event sv = (fs', sv', r)"
  shows "(case r of
       Inr res \<Rightarrow>
         DataIndividualMetadataEvent_validate event = Ok () \<and>
         map_resolve (vs_placement_map sv') (dm_data_individual_shard_id event) = Some (mcr_target res) \<and>
         (\<forall>plane node. vs_control_plane sv = Some (plane, node) \<longrightarrow>
            (\<exists>state lease. read plane = Ok state \<and> placement_map state = Some (vs_placement_map sv') \<and>
               writer_lease state (mcr_target res) = Some lease \<and> wl_holder lease = node)) \<and>
         bt_contains_key (ob_entries (bo_outbox (vs_metadata_outbox sv'))) (dm_idempotency_key event) \<and>
         bt_contains_key (pi_events_by_idempotency (vs_provenance_index sv')) (dm_idempotency_key event)
     | Inl (VsMetadataOutboxStorage _) \<Rightarrow>
         bo_outbox (vs_metadata_outbox sv') = bo_outbox (vs_metadata_outbox sv) \<and>
         vs_provenance_index sv' = vs_provenance_index sv
     | Inl _ \<Rightarrow>
         fs' = fs \<and> vs_metadata_outbox sv' = vs_metadata_outbox sv \<and> vs_provenance_index sv' = vs_provenance_index sv) \<and>
     (vs_control_plane sv = None \<longrightarrow> vs_placement_map sv' = vs_placement_map sv) \<and>
     vs_hot_index sv' = vs_hot_index sv \<and> vs_process_event_journal sv' = vs_process_event_journal sv \<and>
     vs_mapping sv' = vs_mapping sv \<and> vs_control_plane sv' = vs_control_plane sv"
proof -
  obtain sv1 t where t: "capture_target read event sv = (sv1, t)" by fastforce
  from capture_target_frame [OF t] obtain m where sv1: "sv1 = sv\<lparr>vs_placement_map := m\<rparr>"
    and m: "vs_control_plane sv = None \<longrightarrow> m = vs_placement_map sv" by (elim exE conjE)
  show ?thesis
  proof (cases t)
    case (Inl e)
    then have "e \<noteq> VsMetadataOutboxStorage x" for x
      using capture_target_no_storage_error [of read event sv x] t by auto
    moreover from assms t Inl have "r = Inl e" "fs' = fs" "sv' = sv\<lparr>vs_placement_map := m\<rparr>"
      by (simp_all add: capture_metadata_event_def sv1)
    ultimately show ?thesis using m by (cases e) simp_all
  next
    case (Inr target)
    obtain fs1 b e where en: "enqueue_durable io fs (from_event event target (vs_mapping sv1)) (vs_metadata_outbox sv1) = (fs1, b, e)"
      by (metis prod_cases3)
    note ok = capture_target_ok [OF t [unfolded Inr]] and res = enqueue_durable_result [OF en]
    from assms t Inr en show ?thesis
    proof (cases e)
      case (Inl err)
      with assms t Inr en have "r = Inl (VsMetadataOutboxStorage err)" "sv' = sv1\<lparr>vs_metadata_outbox := b\<rparr>"
        by (simp_all add: capture_metadata_event_def)
      with res(2) [OF Inl] sv1 m show ?thesis by simp
    next
      case (Inr x)
      with assms t \<open>t = Inr target\<close> en have eqs: "r = Inr \<lparr>mcr_target = target, mcr_result = x\<rparr>"
        "sv' = sv1\<lparr>vs_metadata_outbox := b,
           vs_provenance_index := fst (DataProvenanceIndex_ingest event (vs_provenance_index sv1))\<rparr>"
        by (auto simp: capture_metadata_event_def)
      from res(1) [OF Inr] ok(1,2) ok(3) show ?thesis
        unfolding eqs using sv1 m by (simp add: prov_contains_ingest)
    qed
  qed
qed

definition sample_placement :: IptoPlacementMap where
  "sample_placement = \<lparr>pm_epoch = 1, pm_slots = [],
     pm_ring = \<lparr>ring_epoch = 1, ring_points = [\<lparr>rg_position = 100, rg_instance = ''ipto-a''\<rparr>]\<rparr>, pm_overrides = []\<rparr>"

definition sample_mapping :: IptoMapping where
  "sample_mapping = map_field ''size'' ''dcat:byteSize'' (IptoMapping_new ''v1'')"

definition sample_control :: ClusterControlState where
  "sample_control = control_run [AddNode ''n'', SetIptoPlacementMap sample_placement,
     GrantWriterLease \<lparr>wl_target = ''ipto-a'', wl_holder = ''n'', wl_epoch = 1\<rparr>] ClusterControlState_new"

definition sample_plane :: ControlMutex where
  "sample_plane = \<lparr>cmx_poisoned = False, cmx_state = sample_control\<rparr>"

lemma sample_control_facts:
  "placement_map sample_control = Some sample_placement"
  "writer_lease sample_control ''ipto-a'' = Some \<lparr>wl_target = ''ipto-a'', wl_holder = ''n'', wl_epoch = 1\<rparr>"
  by (simp_all add: sample_control_def control_run_def writer_lease_def placement_map_def ClusterControlState_new_def
      insert_placement_map_def sample_placement_def bt_eval bt_iter_prune bt_len_def MAX_PLACEMENT_HISTORY_def)

lemma sample_resolves: "map_resolve sample_placement 5 = Some ''ipto-a''"
  by (simp add: map_resolve_def sample_placement_def ring_resolve_def)

definition sample_service :: "SegmentBackedMetadataOutbox \<Rightarrow> (unit, ControlMutex) VannakService" where
  "sample_service b = set_control_plane sample_plane ''n'' (VannakService_new sample_placement sample_mapping b)"

lemma sample_payload_from: "from_event (sample_metadata_event ''m1'') ''ipto-a'' sample_mapping = sample_payload ''m1''"
  by (simp add: sample_payload_def sample_mapping_def)

lemma sample_capture_target:
  "capture_target ControlMutex_read (sample_metadata_event ''m1'') (sample_service b) = (sample_service b, Inr ''ipto-a'')"
proof -
  have "DataIndividualMetadataEvent_validate (sample_metadata_event ''m1'') = Inr ()"
    and "dm_data_individual_shard_id (sample_metadata_event ''m1'') = 5"
    by (simp_all add: sample_metadata_event_def metadata_event_builder_defs DataIndividualMetadataEvent_validate_def
        trim_is_empty_def as_bytes_def)
  then show ?thesis
    by (simp add: sample_service_def set_control_plane_def VannakService_new_def ControlMutex_read_def sample_plane_def
        capture_target_controlled sample_control_facts sample_resolves)
qed

lemma enqueue_durable_fits:
  assumes "length (IptoWritePayload_encode p) \<le> MAX_RECORD_LEN"
    and "bt_get (ob_entries (bo_outbox b)) (wp_idempotency_key p) = None"
  shows "\<exists>fs' b' off. enqueue_durable \<lparr>write_budget = None, sync_fails = False\<rparr> fs p b = (fs', b', Inr (DeEnqueued off))"
  using assms append_record_unlimited [of "\<lparr>write_budget = None, sync_fails = False\<rparr>" "IptoWritePayload_encode p" fs "bo_writer b"]
  by (simp add: enqueue_durable_def bt_contains_key_iff SegmentWriter_sync_def)

lemma sample_capture:
  assumes "bo_outbox b = MetadataOutbox_new"
  shows "\<exists>fs' sv' off. capture_metadata_event ControlMutex_read \<lparr>write_budget = None, sync_fails = False\<rparr> fs
    (sample_metadata_event ''m1'') (sample_service b)
    = (fs', sv', Inr \<lparr>mcr_target = ''ipto-a'', mcr_result = DeEnqueued off\<rparr>)"
proof -
  have b: "vs_metadata_outbox (sample_service b) = b" "vs_mapping (sample_service b) = sample_mapping"
    by (simp_all add: sample_service_def set_control_plane_def VannakService_new_def)
  have "bt_get (ob_entries (bo_outbox b)) (wp_idempotency_key (sample_payload ''m1'')) = None"
    "length (IptoWritePayload_encode (sample_payload ''m1'')) \<le> MAX_RECORD_LEN"
    using sample_payload_length assms by (simp_all add: MetadataOutbox_new_def MAX_RECORD_LEN_def)
  from enqueue_durable_fits [OF this(2,1), of fs] show ?thesis
    by (auto simp: capture_metadata_event_def sample_capture_target sample_payload_from b)
qed

lemma capture_metadata_event_guarded_witness:
  "\<exists>fs' sv' res. capture_metadata_event ControlMutex_read \<lparr>write_budget = None, sync_fails = False\<rparr> Map.empty
      (sample_metadata_event ''m1'') (sample_service \<lparr>bo_outbox = MetadataOutbox_new,
        bo_writer = \<lparr>sw_segment_id = ''s'', sw_node_id = ''n'', sw_path = ''o'', sw_record_count = 0, sw_byte_len = 8, sw_checksum = 0\<rparr>\<rparr>)
      = (fs', sv', Ok res) \<and> mcr_target res = ''ipto-a'' \<and>
    bt_contains_key (pi_events_by_idempotency (vs_provenance_index sv')) (dm_idempotency_key (sample_metadata_event ''m1''))"
proof -
  let ?b = "\<lparr>bo_outbox = MetadataOutbox_new,
    bo_writer = \<lparr>sw_segment_id = ''s'', sw_node_id = ''n'', sw_path = ''o'', sw_record_count = 0, sw_byte_len = 8, sw_checksum = 0\<rparr>\<rparr>"
  from sample_capture [of ?b Map.empty] obtain fs' sv' off where
    c: "capture_metadata_event ControlMutex_read \<lparr>write_budget = None, sync_fails = False\<rparr> Map.empty
      (sample_metadata_event ''m1'') (sample_service ?b) = (fs', sv', Inr \<lparr>mcr_target = ''ipto-a'', mcr_result = DeEnqueued off\<rparr>)"
    by auto
  from capture_metadata_event_guarded [OF c] c show ?thesis by simp
qed

subsection \<open>Captured metadata and restarts\<close>

text \<open>
  \<open>metadata_run fs sv ps acked\<close>: a history of captures, drains and restarts of a service whose outbox
  segment holds the payloads \<open>ps\<close>; \<open>acked\<close> are the events whose capture was answered with a result.
\<close>

inductive metadata_run ::
  "fs \<Rightarrow> ('m, 'p) VannakService \<Rightarrow> IptoWritePayload list \<Rightarrow> DataIndividualMetadataEvent list \<Rightarrow> bool" where
  mr_created: "VannakService_create io fs placement mapping p sid nid = (fs', Inr sv) \<Longrightarrow> metadata_run fs' sv [] []"
| mr_configured: "metadata_run fs sv ps acked \<Longrightarrow> metadata_run fs (set_control_plane plane node sv) ps acked"
| mr_captured: "metadata_run fs sv ps acked \<Longrightarrow>
     capture_metadata_event read io fs ev sv = (fs', sv', Inr res) \<Longrightarrow>
     p = from_event ev (mcr_target res) (vs_mapping sv) \<Longrightarrow> payload_ok p \<Longrightarrow>
     metadata_run fs' sv' (if mcr_result res = DeDuplicate then ps else ps @ [p]) (acked @ [ev])"
| mr_unsynced: "metadata_run fs sv ps acked \<Longrightarrow>
     capture_metadata_event read io fs ev sv = (fs', sv', Inl (VsMetadataOutboxStorage (OsSegment (Io SyncError)))) \<Longrightarrow>
     snd (capture_target read ev sv) = Inr target \<Longrightarrow>
     p = from_event ev target (vs_mapping sv) \<Longrightarrow> payload_ok p \<Longrightarrow> metadata_run fs' sv' (ps @ [p]) acked"
| mr_too_large: "metadata_run fs sv ps acked \<Longrightarrow>
     capture_metadata_event read io fs ev sv = (fs', sv', Inl (VsMetadataOutboxStorage (OsSegment (RecordTooLarge n)))) \<Longrightarrow>
     metadata_run fs' sv' ps acked"
| mr_refused: "metadata_run fs sv ps acked \<Longrightarrow>
     capture_metadata_event read io fs ev sv = (fs', sv', Inl err) \<Longrightarrow> (\<forall>e. err \<noteq> VsMetadataOutboxStorage e) \<Longrightarrow>
     metadata_run fs' sv' ps acked"
| mr_drained: "metadata_run fs sv ps acked \<Longrightarrow>
     drain_metadata_for_target (write :: IptoWritePayload list ipto_write) target max_attempts sv w = (sv', w', summary) \<Longrightarrow>
     metadata_run fs sv' ps acked"
| mr_restarted: "metadata_run fs sv ps acked \<Longrightarrow>
     VannakService_recover_after fs placement mapping (sw_path (bo_writer (vs_metadata_outbox sv))) sid nid cp = Inr r \<Longrightarrow>
     metadata_run fs (vsr_service r) ps acked"

definition prov_keys :: "DataProvenanceIndex \<Rightarrow> IdempotencyKey set" where
  "prov_keys ix = {k. bt_contains_key (pi_events_by_idempotency ix) k}"

definition outbox_keys :: "MetadataOutbox \<Rightarrow> IdempotencyKey set" where
  "outbox_keys ob = {k. bt_contains_key (ob_entries ob) k}"

definition metadata_wf ::
  "fs \<Rightarrow> ('m, 'p) VannakService \<Rightarrow> IptoWritePayload list \<Rightarrow> DataIndividualMetadataEvent list \<Rightarrow> bool" where
  "metadata_wf fs sv ps acked \<longleftrightarrow>
     (\<exists>offs. durable_wf fs (vs_metadata_outbox sv) ps offs) \<and>
     (\<forall>p \<in> set ps. \<exists>e. wp_provenance p = Some e \<and> dm_idempotency_key e = wp_idempotency_key p) \<and>
     prov_keys (vs_provenance_index sv) \<subseteq> wp_idempotency_key ` set ps \<and>
     outbox_keys (bo_outbox (vs_metadata_outbox sv)) \<subseteq> prov_keys (vs_provenance_index sv) \<and>
     dm_idempotency_key ` set acked \<subseteq> prov_keys (vs_provenance_index sv)"

lemma prov_keys_ingest [simp]:
  "prov_keys (fst (DataProvenanceIndex_ingest e ix)) = insert (dm_idempotency_key e) (prov_keys ix)"
  by (auto simp: prov_keys_def prov_contains_ingest)

lemma prov_keys_replayed:
  assumes "\<forall>p \<in> set ps. \<exists>e. wp_provenance p = Some e \<and> dm_idempotency_key e = wp_idempotency_key p"
  shows "prov_keys (prov_ingest_all (List.map_filter wp_provenance ps) DataProvenanceIndex_new) = wp_idempotency_key ` set ps"
proof -
  have "prov_keys (fold (\<lambda>e ix. fst (DataProvenanceIndex_ingest e ix)) es ix) = dm_idempotency_key ` set es \<union> prov_keys ix"
    for es ix by (induction es arbitrary: ix) auto
  moreover have "prov_keys DataProvenanceIndex_new = {}"
    by (simp add: prov_keys_def DataProvenanceIndex_new_def bt_contains_key_iff)
  moreover have "dm_idempotency_key ` set (List.map_filter wp_provenance ps) = wp_idempotency_key ` set ps"
    using assms
  proof (induction ps)
    case (Cons p ps)
    then obtain e where "wp_provenance p = Some e" "dm_idempotency_key e = wp_idempotency_key p" by auto
    with Cons show ?case by simp
  qed simp
  ultimately show ?thesis by (simp add: prov_ingest_all_def)
qed

lemma outbox_keys_keeps:
  assumes "keeps_records ob ob'"
  shows "outbox_keys ob' = outbox_keys ob"
proof -
  have "bt_get (ob_entries ob') k = None \<longleftrightarrow> bt_get (ob_entries ob) k = None" for k
    using arg_cong [OF assms [unfolded keeps_records_def, rule_format, of k], of "\<lambda>x. x = None"] by simp
  then show ?thesis by (simp add: outbox_keys_def bt_contains_key_iff)
qed

lemma drain_loop_keeps:
  assumes "\<And>ob w. keeps_records ob (fst (deliver ob w)) \<and> (outbox_wf ob \<longrightarrow> outbox_wf (fst (deliver ob w)))"
  shows "keeps_records ob (fst (drain_loop deliver n ob w s)) \<and> (outbox_wf ob \<longrightarrow> outbox_wf (fst (drain_loop deliver n ob w s)))"
proof (induction n arbitrary: ob w s)
  case (Suc n)
  obtain ob' w' r where d: "deliver ob w = (ob', w', r)" by (metis prod_cases3)
  with assms [of ob w] have "keeps_records ob ob'" "outbox_wf ob \<longrightarrow> outbox_wf ob'" by simp_all
  with Suc.IH [of ob'] show ?case by (auto simp: d Let_def keeps_records_def split: MetadataOutboxDeliveryResult.split)
qed (simp add: keeps_records_def)

lemma metadata_wf_drain:
  assumes "metadata_wf fs sv ps acked" "drain_metadata_for_target write target n sv w = (sv', w', summary)"
  shows "metadata_wf fs sv' ps acked"
proof -
  let ?ob = "bo_outbox (vs_metadata_outbox sv)"
  let ?ob' = "fst (drain_pending_outbox_for_target write target n ?ob w)"
  have sv': "sv' = sv\<lparr>vs_metadata_outbox := (vs_metadata_outbox sv)\<lparr>bo_outbox := ?ob'\<rparr>\<rparr>"
    using assms(2) by (auto simp: drain_metadata_for_target_def split: prod.splits)
  from assms(1) obtain offs where wf: "durable_wf fs (vs_metadata_outbox sv) ps offs" by (auto simp: metadata_wf_def)
  have keeps: "keeps_records ?ob ?ob'" "outbox_wf ?ob'"
    using wf drain_loop_keeps [of "deliver_next_pending_for_target write target" ?ob n w drain_summary_empty]
    by (simp_all add: drain_pending_outbox_for_target_def deliver_next_pending_for_target_def keeps_records_deliver
        outbox_wf_deliver durable_wf_def)
  from durable_wf_keeps [OF wf keeps] outbox_keys_keeps [OF keeps(1)] assms(1) show ?thesis
    unfolding metadata_wf_def sv' by auto
qed

text \<open>A capture that reaches the outbox is one \<open>enqueue_durable\<close>, and a result also indexes the event.\<close>

lemma capture_enqueues:
  assumes "capture_metadata_event read io fs ev sv = (fs', sv', r)"
    and "r = Inr res \<and> target = mcr_target res \<or> r = Inl (VsMetadataOutboxStorage e) \<and> snd (capture_target read ev sv) = Inr target"
  obtains x where "enqueue_durable io fs (from_event ev target (vs_mapping sv)) (vs_metadata_outbox sv)
      = (fs', vs_metadata_outbox sv', x)"
    and "r = Inr res \<longrightarrow> x = Inr (mcr_result res)" "r = Inl (VsMetadataOutboxStorage e) \<longrightarrow> x = Inl e"
    and "vs_provenance_index sv' = (if r = Inr res then fst (DataProvenanceIndex_ingest ev (vs_provenance_index sv)) else vs_provenance_index sv)"
proof -
  obtain sv1 t where t: "capture_target read ev sv = (sv1, t)" by fastforce
  from capture_target_frame [OF t] obtain m where sv1: "sv1 = sv\<lparr>vs_placement_map := m\<rparr>" by (elim exE conjE)
  have "t \<noteq> Inl (VsMetadataOutboxStorage e)" using capture_target_no_storage_error [of read ev sv e] t by simp
  with assms t obtain tg where tg: "t = Inr tg" by (cases t) (auto simp: capture_metadata_event_def)
  obtain fs1 b x where en: "enqueue_durable io fs (from_event ev tg (vs_mapping sv)) (vs_metadata_outbox sv) = (fs1, b, x)"
    by (metis prod_cases3)
  from assms t tg en sv1 have "tg = target" by (cases x) (auto simp: capture_metadata_event_def)
  with assms t tg en sv1 show thesis
    by (cases x; cases res) (auto simp: capture_metadata_event_def intro!: that [of x])
qed

lemma metadata_wf_captured:
  assumes "metadata_wf fs sv ps acked" "capture_metadata_event read io fs ev sv = (fs', sv', Inr res)"
    and p: "p = from_event ev (mcr_target res) (vs_mapping sv)" "payload_ok p"
  shows "metadata_wf fs' sv' (if mcr_result res = DeDuplicate then ps else ps @ [p]) (acked @ [ev])"
proof -
  from capture_enqueues [OF assms(2), of res "mcr_target res" undefined] obtain x where
    en: "enqueue_durable io fs p (vs_metadata_outbox sv) = (fs', vs_metadata_outbox sv', Inr (mcr_result res))"
    and prov: "vs_provenance_index sv' = fst (DataProvenanceIndex_ingest ev (vs_provenance_index sv))"
    unfolding p by auto
  from assms(1) obtain offs where wf: "durable_wf fs (vs_metadata_outbox sv) ps offs" by (auto simp: metadata_wf_def)
  have key: "wp_idempotency_key p = dm_idempotency_key ev" "wp_provenance p = Some ev" by (simp_all add: p)
  show ?thesis
  proof (cases "mcr_result res")
    case (DeEnqueued off)
    from durable_wf_write [OF wf p(2) en, of off] DeEnqueued have "durable_wf fs' (vs_metadata_outbox sv') (ps @ [p]) (offs @ [(off, p)])"
      by simp
    moreover from enqueue_durable_written [OF en, of off] DeEnqueued
    have "outbox_keys (bo_outbox (vs_metadata_outbox sv')) \<subseteq> insert (dm_idempotency_key ev) (outbox_keys (bo_outbox (vs_metadata_outbox sv)))"
      by (auto simp: outbox_keys_def bt_contains_key_iff enqueue_lookup key split: if_splits)
    ultimately show ?thesis using assms(1) DeEnqueued key unfolding metadata_wf_def prov by auto
  next
    case DeDuplicate
    with en have "bt_contains_key (ob_entries (bo_outbox (vs_metadata_outbox sv))) (dm_idempotency_key ev)"
      using key by (auto simp: enqueue_durable_def split: if_splits sum.splits prod.splits)
    with assms(1) have "dm_idempotency_key ev \<in> prov_keys (vs_provenance_index sv)"
      unfolding metadata_wf_def outbox_keys_def by auto
    moreover have "fs' = fs" "vs_metadata_outbox sv' = vs_metadata_outbox sv"
      using enqueue_durable_unwritten [OF en] DeDuplicate by simp_all
    ultimately show ?thesis using assms(1) DeDuplicate unfolding metadata_wf_def prov by (auto simp: insert_absorb)
  qed
qed

lemma metadata_wf_unsynced:
  assumes "metadata_wf fs sv ps acked"
    and "capture_metadata_event read io fs ev sv = (fs', sv', Inl (VsMetadataOutboxStorage (OsSegment (Io SyncError))))"
    and "snd (capture_target read ev sv) = Inr target" and p: "p = from_event ev target (vs_mapping sv)" "payload_ok p"
  shows "metadata_wf fs' sv' (ps @ [p]) acked"
proof -
  from capture_enqueues [OF assms(2), of undefined target "OsSegment (Io SyncError)"] assms(3) obtain x where
    en: "enqueue_durable io fs p (vs_metadata_outbox sv) = (fs', vs_metadata_outbox sv', Inl (OsSegment (Io SyncError)))"
    and prov: "vs_provenance_index sv' = vs_provenance_index sv"
    unfolding p by auto
  from assms(1) obtain offs where wf: "durable_wf fs (vs_metadata_outbox sv) ps offs" by (auto simp: metadata_wf_def)
  from durable_wf_write [OF wf p(2) en, of _ offs] have "durable_wf fs' (vs_metadata_outbox sv') (ps @ [p]) offs" by simp
  moreover from enqueue_durable_result(2) [OF en refl]
  have "outbox_keys (bo_outbox (vs_metadata_outbox sv')) = outbox_keys (bo_outbox (vs_metadata_outbox sv))"
    by simp
  moreover have "wp_provenance p = Some ev" "dm_idempotency_key ev = wp_idempotency_key p" by (simp_all add: p)
  ultimately show ?thesis using assms(1) unfolding metadata_wf_def prov by auto
qed

text \<open>Every other failure leaves the segment and what is known of it alone.\<close>

lemma metadata_wf_refused:
  assumes "metadata_wf fs sv ps acked" "capture_metadata_event read io fs ev sv = (fs', sv', Inl err)"
    and "\<forall>e. err \<noteq> VsMetadataOutboxStorage (OsSegment (Io e))"
  shows "metadata_wf fs' sv' ps acked"
proof (cases "snd (capture_target read ev sv)")
  case (Inl e)
  obtain sv1 t where t: "capture_target read ev sv = (sv1, t)" by fastforce
  from capture_target_frame [OF t] obtain m where "sv1 = sv\<lparr>vs_placement_map := m\<rparr>" by (elim exE conjE)
  with assms(2) t Inl have "fs' = fs" "sv' = sv\<lparr>vs_placement_map := m\<rparr>" by (simp_all add: capture_metadata_event_def)
  with assms(1) show ?thesis by (simp add: metadata_wf_def)
next
  case (Inr target)
  obtain e where err: "err = VsMetadataOutboxStorage e"
    using assms(2) Inr by (auto simp: capture_metadata_event_def split: sum.splits prod.splits)
  from capture_enqueues [OF assms(2), of undefined target e] Inr err obtain
    en: "enqueue_durable io fs (from_event ev target (vs_mapping sv)) (vs_metadata_outbox sv) = (fs', vs_metadata_outbox sv', Inl e)"
    and prov: "vs_provenance_index sv' = vs_provenance_index sv" by auto
  have "\<exists>n. e = OsSegment (RecordTooLarge n)"
    using en assms(3) err append_record_errD [of io fs "bo_writer (vs_metadata_outbox sv)"]
    by (fastforce simp: enqueue_durable_def SegmentWriter_sync_def split: if_splits prod.splits sum.splits)
  with enqueue_durable_unwritten [OF en] prov assms(1) show ?thesis by (auto simp: metadata_wf_def)
qed

lemma service_recover_holds:
  fixes sv :: "('m, 'p) VannakService"
  assumes "metadata_wf fs sv ps acked"
  obtains r :: "('m, 'p) VannakServiceRecovery" where
    "VannakService_recover_after fs placement mapping (sw_path (bo_writer (vs_metadata_outbox sv))) sid nid cp = Inr r"
    "vs_provenance_index (vsr_service r) = prov_ingest_all (List.map_filter wp_provenance ps) DataProvenanceIndex_new"
    "bo_outbox (vs_metadata_outbox (vsr_service r)) = replayed (filter (beyond cp) (stored ps))"
    "metadata_wf fs (vsr_service r) ps acked"
proof -
  let ?b = "vs_metadata_outbox sv"
  from assms obtain offs where wf: "durable_wf fs ?b ps offs" and
    ps: "\<forall>p \<in> set ps. \<exists>e. wp_provenance p = Some e \<and> dm_idempotency_key e = wp_idempotency_key p"
    by (auto simp: metadata_wf_def)
  then have holds: "segment_holds fs (bo_writer ?b) ps" by (simp add: durable_wf_def)
  obtain rec where rec: "SegmentBackedMetadataOutbox_recover_after fs (sw_path (bo_writer ?b)) sid nid cp = Inr rec"
    "bo_outbox (obr_outbox rec) = replayed (filter (beyond cp) (stored ps))"
    using recover_after_holds [OF holds, of sid nid cp] by simp
  define r :: "('m, 'p) VannakServiceRecovery" where "r = \<lparr>vsr_service = (VannakService_new placement mapping (obr_outbox rec))\<lparr>vs_provenance_index :=
      prov_ingest_all (List.map_filter wp_provenance ps) DataProvenanceIndex_new\<rparr>, vsr_summary = obr_summary rec\<rparr>"
  have "VannakService_recover_after fs placement mapping (sw_path (bo_writer ?b)) sid nid cp = Inr r"
    by (simp add: VannakService_recover_after_def replay_provenance_holds [OF holds] rec(1) r_def)
  moreover have keys: "outbox_keys (replayed (filter (beyond cp) (stored ps))) \<subseteq> wp_idempotency_key ` set ps"
  proof
    fix k assume "k \<in> outbox_keys (replayed (filter (beyond cp) (stored ps)))"
    then obtain off p where "(off, p) \<in> set (stored ps)" "wp_idempotency_key p = k"
      using replayed_key_iff [of "filter (beyond cp) (stored ps)" k]
      by (auto simp: outbox_keys_def bt_contains_key_iff simp del: not_None_eq)
    moreover have "snd ` set (stored ps) = set ps" by (metis list.set_map map_snd_stored)
    ultimately show "k \<in> wp_idempotency_key ` set ps" by (metis image_eqI snd_conv)
  qed
  moreover have "metadata_wf fs (vsr_service r) ps acked"
  proof -
    have "dm_idempotency_key ` set acked \<subseteq> wp_idempotency_key ` set ps"
      using assms unfolding metadata_wf_def by (meson subset_trans)
    moreover have "\<exists>offs. durable_wf fs (obr_outbox rec) ps offs" using durable_wf_recover [OF wf rec(1)] ..
    ultimately show ?thesis using keys
      by (simp add: metadata_wf_def r_def VannakService_new_def prov_keys_replayed [OF ps] rec(2) ps)
  qed
  moreover have "vs_provenance_index (vsr_service r) = prov_ingest_all (List.map_filter wp_provenance ps) DataProvenanceIndex_new"
    "bo_outbox (vs_metadata_outbox (vsr_service r)) = replayed (filter (beyond cp) (stored ps))"
    by (simp_all add: r_def VannakService_new_def rec(2))
  ultimately show thesis by (intro that [of r])
qed

lemma metadata_run_wf: "metadata_run fs sv ps acked \<Longrightarrow> metadata_wf fs sv ps acked"
proof (induction rule: metadata_run.induct)
  case (mr_created io fs placement mapping p sid nid fs' sv)
  then obtain b where b: "SegmentBackedMetadataOutbox_create io fs p sid nid = (fs', Inr b)"
    "sv = VannakService_new placement mapping b" by (auto simp: VannakService_create_def split: prod.splits)
  from outbox_run_wf [OF outbox_run.or_created [OF b(1)]] b have "durable_wf fs' (vs_metadata_outbox sv) [] []"
    by (simp add: VannakService_new_def)
  moreover have "bo_outbox b = MetadataOutbox_new"
    using b(1) by (auto simp: SegmentBackedMetadataOutbox_create_def split: prod.splits)
  ultimately show ?case using b(2)
    by (auto simp: metadata_wf_def VannakService_new_def prov_keys_def outbox_keys_def MetadataOutbox_new_def
        DataProvenanceIndex_new_def bt_contains_key_iff)
next
  case mr_configured
  then show ?case by (simp add: metadata_wf_def set_control_plane_def)
next
  case mr_captured
  then show ?case using metadata_wf_captured by blast
next
  case mr_unsynced
  then show ?case using metadata_wf_unsynced by blast
next
  case mr_too_large
  show ?case by (rule metadata_wf_refused [OF mr_too_large.IH mr_too_large.hyps(2)]) simp
next
  case mr_refused
  show ?case by (rule metadata_wf_refused [OF mr_refused.IH mr_refused.hyps(2)]) (use mr_refused.hyps(3) in blast)
next
  case mr_drained
  show ?case by (rule metadata_wf_drain [OF mr_drained.IH mr_drained.hyps(2)])
next
  case (mr_restarted fs sv ps acked placement mapping sid nid cp r)
  then show ?case using service_recover_holds [OF mr_restarted.IH, of placement mapping sid nid cp] by auto
qed

text \<open>
  (C3) Captured metadata survives restarts. Over any history of captures (enqueued, duplicate,
  failing to sync, too large, refused), drains and restarts after any checkpoint, starting again
  succeeds: the provenance index is rebuilt from every stored payload whatever the checkpoint, it
  knows every event the live index knows, and every event whose capture was answered with a result
  is known to both. Recovered without a checkpoint, each such event is pending delivery again.
\<close>

theorem captured_metadata_survives_restart:
  fixes sv :: "('m, 'p) VannakService"
  assumes "metadata_run fs sv ps acked"
  shows "\<exists>r. VannakService_recover_after fs placement mapping (sw_path (bo_writer (vs_metadata_outbox sv))) sid nid cp
        = Ok (r :: ('m, 'p) VannakServiceRecovery) \<and>
     vs_provenance_index (vsr_service r) = prov_ingest_all (List.map_filter wp_provenance ps) DataProvenanceIndex_new \<and>
     prov_keys (vs_provenance_index sv) \<subseteq> prov_keys (vs_provenance_index (vsr_service r)) \<and>
     (\<forall>e. e \<in> set acked \<longrightarrow> dm_idempotency_key e \<in> prov_keys (vs_provenance_index sv) \<and>
        (cp = None \<longrightarrow> dm_idempotency_key e \<in> set (ob_pending (bo_outbox (vs_metadata_outbox (vsr_service r))))))"
proof -
  note wf = metadata_run_wf [OF assms]
  then have ps: "\<forall>p \<in> set ps. \<exists>e. wp_provenance p = Some e \<and> dm_idempotency_key e = wp_idempotency_key p"
    and sub: "prov_keys (vs_provenance_index sv) \<subseteq> wp_idempotency_key ` set ps"
    and ack: "dm_idempotency_key ` set acked \<subseteq> prov_keys (vs_provenance_index sv)" unfolding metadata_wf_def by blast+
  obtain r :: "('m, 'p) VannakServiceRecovery" where
    r: "VannakService_recover_after fs placement mapping (sw_path (bo_writer (vs_metadata_outbox sv))) sid nid cp = Inr r"
    "vs_provenance_index (vsr_service r) = prov_ingest_all (List.map_filter wp_provenance ps) DataProvenanceIndex_new"
    "bo_outbox (vs_metadata_outbox (vsr_service r)) = replayed (filter (beyond cp) (stored ps))"
    by (rule service_recover_holds [OF wf, of placement mapping sid nid cp])
  have "map (\<lambda>(off, p). wp_idempotency_key p) (stored ps) = map wp_idempotency_key (map snd (stored ps))"
    by (simp add: case_prod_beta del: map_snd_stored)
  then have "set (map (\<lambda>(off, p). wp_idempotency_key p) (stored ps)) = wp_idempotency_key ` set ps"
    by (simp only: map_snd_stored list.set_map)
  moreover have "filter (beyond None) (stored ps) = stored ps" by (rule filter_True) (simp add: beyond_def)
  ultimately have "set (ob_pending (replayed (filter (beyond None) (stored ps)))) = wp_idempotency_key ` set ps"
    by (simp add: replayed_pending set_first_seen del: list.set_map)
  then have "dm_idempotency_key e \<in> set (ob_pending (bo_outbox (vs_metadata_outbox (vsr_service r))))"
    if "cp = None" "e \<in> set acked" for e
    unfolding r(3) that(1) using that(2) subset_trans [OF ack sub] by blast
  moreover have "prov_keys (vs_provenance_index sv) \<subseteq> prov_keys (vs_provenance_index (vsr_service r))"
    unfolding r(2) prov_keys_replayed [OF ps] by (rule sub)
  moreover have "dm_idempotency_key e \<in> prov_keys (vs_provenance_index sv)" if "e \<in> set acked" for e
    using ack that by blast
  ultimately show ?thesis using r(1,2) by (intro exI [of _ r]) simp
qed

lemma captured_metadata_survives_restart_witness:
  "\<exists>fs (sv :: (unit, ControlMutex) VannakService) r.
     metadata_run fs sv [sample_payload ''m1''] [sample_metadata_event ''m1''] \<and>
     VannakService_recover_after fs sample_placement sample_mapping (sw_path (bo_writer (vs_metadata_outbox sv)))
       ''s'' ''n'' None = Ok (r :: (unit, ControlMutex) VannakServiceRecovery) \<and>
     ''data:m1'' \<in> set (ob_pending (bo_outbox (vs_metadata_outbox (vsr_service r))))"
proof -
  let ?io = "\<lparr>write_budget = None, sync_fails = False\<rparr>"
  obtain fs0 b where b: "SegmentBackedMetadataOutbox_create ?io Map.empty ''o'' ''s'' ''n'' = (fs0, Inr b)"
    "bo_outbox b = MetadataOutbox_new"
    by (simp add: SegmentBackedMetadataOutbox_create_def SegmentWriter_create_def write_all_def)
  then have "VannakService_create ?io Map.empty sample_placement sample_mapping ''o'' ''s'' ''n''
      = (fs0, Inr (VannakService_new sample_placement sample_mapping b))" by (simp add: VannakService_create_def)
  from metadata_run.mr_configured [OF metadata_run.mr_created [OF this], of sample_plane "''n''"]
  have run: "metadata_run fs0 (sample_service b) [] []" by (simp add: sample_service_def)
  from sample_capture [OF b(2), of fs0] obtain fs1 sv1 off where
    c: "capture_metadata_event ControlMutex_read ?io fs0 (sample_metadata_event ''m1'') (sample_service b)
      = (fs1, sv1, Inr \<lparr>mcr_target = ''ipto-a'', mcr_result = DeEnqueued off\<rparr>)" by blast
  have "sample_payload ''m1'' = from_event (sample_metadata_event ''m1'')
      (mcr_target \<lparr>mcr_target = ''ipto-a'', mcr_result = DeEnqueued off\<rparr>) (vs_mapping (sample_service b))"
    by (simp add: sample_payload_from sample_service_def set_control_plane_def VannakService_new_def)
  from metadata_run.mr_captured [OF run c this sample_payload_ok]
  have run1: "metadata_run fs1 sv1 [sample_payload ''m1''] [sample_metadata_event ''m1'']" by simp
  have "dm_idempotency_key (sample_metadata_event ''m1'') = ''data:m1''"
    using sample_keys(1) [of "''m1''"] by (simp add: sample_payload_def)
  with captured_metadata_survives_restart [OF run1, of sample_placement sample_mapping "''s''" "''n''" None] run1
  show ?thesis by force
qed

end
