(* ===== verification/Kafka_Ingest.thy ===== *)
theory Kafka_Ingest
  imports Service
begin

text \<open>
  The Kafka-shaped ingest boundary of \<open>src/kafka_ingest.rs\<close> and the service's sink for it
  (\<open>submit_kafka_record\<close>): a decoded record with its topic, partition and offset is journaled, handed
  to the mailbox of the owning shard and only then eligible for an offset commit. Partitions and
  offsets are signed integers of the protocol, modelled as \<open>int\<close>; the only arithmetic on them is the
  saturating increment. The blocking submit waits for capacity in the Sitas library: what the
  runtime looks like when the wait ends is an argument.
\<close>

subsection \<open>Records\<close>

datatype KafkaTopicPartition = KafkaTopicPartition (ktp_topic: string) (ktp_partition: int)

instantiation KafkaTopicPartition :: linorder
begin

definition less_eq_KafkaTopicPartition :: "KafkaTopicPartition \<Rightarrow> KafkaTopicPartition \<Rightarrow> bool" where
  "a \<le> b \<longleftrightarrow> (ktp_topic a, ktp_partition a) \<le> (ktp_topic b, ktp_partition b)"

definition less_KafkaTopicPartition :: "KafkaTopicPartition \<Rightarrow> KafkaTopicPartition \<Rightarrow> bool" where
  "a < b \<longleftrightarrow> (ktp_topic a, ktp_partition a) < (ktp_topic b, ktp_partition b)"

instance
  by standard (auto simp: less_eq_KafkaTopicPartition_def less_KafkaTopicPartition_def KafkaTopicPartition.expand)

end

type_synonym KafkaOffset = int

definition i64_max :: int where
  "i64_max = 2 ^ 63 - 1"

definition next_commit_offset :: "KafkaOffset \<Rightarrow> KafkaOffset" where
  "next_commit_offset offset = (if offset \<ge> i64_max then i64_max else offset + 1)"

record KafkaProcessRecord =
  kr_topic_partition :: KafkaTopicPartition
  kr_offset :: KafkaOffset
  kr_event :: PipelineEvent

record KafkaPendingRecord =
  kp_record :: KafkaProcessRecord
  kp_journal_offset :: "RecordOffset option"

definition KafkaPendingRecord_new :: "KafkaProcessRecord \<Rightarrow> KafkaPendingRecord" where
  "KafkaPendingRecord_new r = \<lparr>kp_record = r, kp_journal_offset = None\<rparr>"

record KafkaSubmitOutcome =
  ko_topic_partition :: KafkaTopicPartition
  ko_offset :: KafkaOffset
  ko_next_commit_offset :: KafkaOffset
  ko_journal_offset :: "RecordOffset option"
  ko_queued :: QueuedIngestOutcome

datatype KafkaIngestError =
  KiJournal ProcessEventJournalError
| KiRuntime SitasRuntimeError

definition is_queue_full :: "SitasRuntimeError \<Rightarrow> bool" where
  "is_queue_full e = (case e of SeRuntime (QueueFull _ _) \<Rightarrow> True | _ \<Rightarrow> False)"

text \<open>\<open>SitasShardRuntime::submit\<close>: validate, wait for capacity, send.\<close>

definition sitas_submit ::
  "'m mailbox_ops \<Rightarrow> ('m SitasShardRuntime \<Rightarrow> 'm SitasShardRuntime) \<Rightarrow> PipelineEvent \<Rightarrow> 'm SitasShardRuntime \<Rightarrow>
     'm SitasShardRuntime \<times> (SitasRuntimeError + QueuedIngestOutcome)" where
  "sitas_submit mb waited event rt =
     (case PipelineEvent_validate event of
        Inl e \<Rightarrow> (rt, Err (SeIngest e))
      | Inr _ \<Rightarrow> sitas_try_submit mb event (waited rt))"

text \<open>\<open>journal.append_durable\<close> on the journal that may be configured.\<close>

definition append_journal ::
  "disk_io \<Rightarrow> fs \<Rightarrow> ProcessEventJournal option \<Rightarrow> PipelineEvent \<Rightarrow>
     fs \<times> ProcessEventJournal option \<times> (ProcessEventJournalError + RecordOffset option)" where
  "append_journal io fs journal event =
     (case journal of
        None \<Rightarrow> (fs, None, Ok None)
      | Some j \<Rightarrow>
          (case append_durable io fs j event of
             (fs', j', r) \<Rightarrow> (fs', Some j', res_bind r (\<lambda>off. Ok (Some off)))))"

definition submit_kafka_process_record ::
  "'m mailbox_ops \<Rightarrow> ('m SitasShardRuntime \<Rightarrow> 'm SitasShardRuntime) \<Rightarrow> disk_io \<Rightarrow> fs \<Rightarrow> 'm SitasShardRuntime \<Rightarrow>
   ProcessEventJournal option \<Rightarrow> KafkaProcessRecord \<Rightarrow>
     fs \<times> 'm SitasShardRuntime \<times> ProcessEventJournal option \<times> (KafkaIngestError + KafkaSubmitOutcome)" where
  "submit_kafka_process_record mb waited io fs rt journal r =
     (case append_journal io fs journal (kr_event r) of
        (fs, journal, Inl e) \<Rightarrow> (fs, rt, journal, Err (KiJournal e))
      | (fs, journal, Inr journal_offset) \<Rightarrow>
          (case sitas_submit mb waited (kr_event r) rt of
             (rt, Inl e) \<Rightarrow> (fs, rt, journal, Err (KiRuntime e))
           | (rt, Inr queued) \<Rightarrow>
               (fs, rt, journal, Ok
                  \<lparr>ko_topic_partition = kr_topic_partition r, ko_offset = kr_offset r,
                   ko_next_commit_offset = next_commit_offset (kr_offset r),
                   ko_journal_offset = journal_offset, ko_queued = queued\<rparr>)))"

definition try_submit_kafka_pending_record ::
  "'m mailbox_ops \<Rightarrow> disk_io \<Rightarrow> fs \<Rightarrow> 'm SitasShardRuntime \<Rightarrow> ProcessEventJournal option \<Rightarrow> KafkaPendingRecord \<Rightarrow>
     fs \<times> 'm SitasShardRuntime \<times> ProcessEventJournal option \<times> KafkaPendingRecord \<times>
     (KafkaIngestError + KafkaSubmitOutcome option)" where
  "try_submit_kafka_pending_record mb io fs rt journal pending =
     (case (if kp_journal_offset pending = None \<and> journal \<noteq> None
            then append_journal io fs journal (kr_event (kp_record pending))
            else (fs, journal, Ok (kp_journal_offset pending))) of
        (fs, journal, Inl e) \<Rightarrow> (fs, rt, journal, pending, Err (KiJournal e))
      | (fs, journal, Inr journal_offset) \<Rightarrow>
          let pending = pending\<lparr>kp_journal_offset := journal_offset\<rparr> in
          (case sitas_try_submit mb (kr_event (kp_record pending)) rt of
             (rt, Inl e) \<Rightarrow>
               (fs, rt, journal, pending, if is_queue_full e then Ok None else Err (KiRuntime e))
           | (rt, Inr queued) \<Rightarrow>
               (fs, rt, journal, pending, Ok (Some
                  \<lparr>ko_topic_partition = kr_topic_partition (kp_record pending), ko_offset = kr_offset (kp_record pending),
                   ko_next_commit_offset = next_commit_offset (kr_offset (kp_record pending)),
                   ko_journal_offset = kp_journal_offset pending, ko_queued = queued\<rparr>))))"

definition submit_kafka_record ::
  "'m mailbox_ops \<Rightarrow> disk_io \<Rightarrow> fs \<Rightarrow> KafkaPendingRecord \<Rightarrow> ('m, 'p) VannakService \<Rightarrow>
     fs \<times> ('m, 'p) VannakService \<times> KafkaPendingRecord \<times> (KafkaIngestError + KafkaSubmitOutcome option)" where
  "submit_kafka_record mb io fs pending sv =
     (case vs_hot_index sv of
        PxLocal _ \<Rightarrow> (fs, sv, pending, Err (KiRuntime SeStopped))
      | PxSitas rt \<Rightarrow>
          (case try_submit_kafka_pending_record mb io fs rt (vs_process_event_journal sv) pending of
             (fs, rt, journal, pending, r) \<Rightarrow>
               (fs, sv\<lparr>vs_hot_index := PxSitas rt, vs_process_event_journal := journal\<rparr>, pending, r)))"

subsection \<open>Retries of one record\<close>

text \<open>
  A consumer keeps a record pending and tries again: each attempt has the behaviour of the disk
  during it and what the workers did to the runtime before it.
\<close>

fun submit_attempts ::
  "'m mailbox_ops \<Rightarrow> (disk_io \<times> ('m SitasShardRuntime \<Rightarrow> 'm SitasShardRuntime)) list \<Rightarrow>
   fs \<Rightarrow> 'm SitasShardRuntime \<Rightarrow> ProcessEventJournal option \<Rightarrow> KafkaPendingRecord \<Rightarrow>
     fs \<times> 'm SitasShardRuntime \<times> ProcessEventJournal option \<times> KafkaPendingRecord \<times>
     (KafkaIngestError + KafkaSubmitOutcome option) list" where
  "submit_attempts mb [] fs rt journal pending = (fs, rt, journal, pending, [])"
| "submit_attempts mb ((io, between) # attempts) fs rt journal pending =
     (case try_submit_kafka_pending_record mb io fs (between rt) journal pending of
        (fs, rt, journal, pending, r) \<Rightarrow>
          (case submit_attempts mb attempts fs rt journal pending of
             (fs, rt, journal, pending, rs) \<Rightarrow> (fs, rt, journal, pending, r # rs)))"

abbreviation sync_failed :: "KafkaIngestError + KafkaSubmitOutcome option \<Rightarrow> bool" where
  "sync_failed r \<equiv> r = Inl (KiJournal (JeSegment (Io SyncError)))"

abbreviation torn :: "KafkaIngestError + KafkaSubmitOutcome option \<Rightarrow> bool" where
  "torn r \<equiv> r = Inl (KiJournal (JeSegment (Io WriteError)))"

lemma journaled_snoc:
  "journaled (es @ [e]) = journaled es @ [\<lparr>je_offset = of_nat (length (segment_bytes (map encode_pipeline_event es))), je_event = e\<rparr>]"
  by (simp add: journaled_def segment_records_snoc)

lemma append_durable_cases:
  assumes "append_durable io fs j e = (fs', j', r)" "journal_holds fs j es" "event_rust e"
  obtains (written) off where "r = Inr off" "journal_holds fs' j' (es @ [e])"
      "\<lparr>je_offset = off, je_event = e\<rparr> \<in> set (journaled (es @ [e]))"
  | (unsynced) "r = Inl (JeSegment (Io SyncError))" "journal_holds fs' j' (es @ [e])"
  | (torn) "r = Inl (JeSegment (Io WriteError))"
  | (refused) err where "r = Inl err" "err \<noteq> JeSegment (Io SyncError)" "fs' = fs" "j' = j"
proof (cases r)
  case (Inr off)
  from append_durable_written [OF assms(1), of off] Inr obtain off' w where
    w: "append_record io fs (pj_writer j) (encode_pipeline_event e) = (fs', w, Inr off')" "j' = j\<lparr>pj_writer := w\<rparr>" by blast
  then have "off' = off" using assms(1) Inr by (auto simp: append_durable_def split: sum.splits prod.splits)
  with segment_open_append(2) [OF _ w(1), of "map encode_pipeline_event es"] assms(2)
  have "\<lparr>je_offset = off, je_event = e\<rparr> \<in> set (journaled (es @ [e]))"
    by (simp add: journal_holds_def journaled_snoc)
  with journal_holds_append [OF assms(2,3,1)] Inr show ?thesis by (intro written) auto
next
  case (Inl err)
  show ?thesis
  proof (cases "err = JeSegment (Io SyncError) \<or> err = JeSegment (Io WriteError)")
    case True
    with journal_holds_append [OF assms(2,3,1)] Inl unsynced torn show ?thesis by blast
  next
    case False
    with assms(1) Inl have "fs' = fs \<and> j' = j"
      using append_record_errD [of io fs "pj_writer j" "encode_pipeline_event e"]
      by (auto simp: append_durable_def SegmentWriter_sync_def split: sum.splits prod.splits if_splits)
    with Inl False refused show ?thesis by blast
  qed
qed

definition pending_tracked :: "fs \<Rightarrow> ProcessEventJournal option \<Rightarrow> KafkaPendingRecord \<Rightarrow> PipelineEvent list \<Rightarrow> bool" where
  "pending_tracked fs journal p es \<longleftrightarrow>
     (\<exists>j. journal = Some j \<and> journal_holds fs j es) \<and>
     (\<forall>off. kp_journal_offset p = Some off \<longrightarrow>
        \<lparr>je_offset = off, je_event = kr_event (kp_record p)\<rparr> \<in> set (journaled es))"

lemma try_submit_tracked:
  assumes "try_submit_kafka_pending_record mb io fs rt journal p = (fs', rt', journal', p', r)"
    and "pending_tracked fs journal p es" "event_rust (kr_event (kp_record p))" "\<not> torn r"
  shows "pending_tracked fs' journal' p'
      (es @ (if kp_journal_offset p = None \<and> (sync_failed r \<or> kp_journal_offset p' \<noteq> None) then [kr_event (kp_record p)] else [])) \<and>
    kp_record p' = kp_record p \<and>
    (kp_journal_offset p \<noteq> None \<longrightarrow> kp_journal_offset p' = kp_journal_offset p \<and> \<not> sync_failed r) \<and>
    (sync_failed r \<longrightarrow> kp_journal_offset p' = None) \<and>
    (\<forall>out. r = Inr (Some out) \<longrightarrow> ko_topic_partition out = kr_topic_partition (kp_record p) \<and>
       ko_next_commit_offset out = next_commit_offset (kr_offset (kp_record p)) \<and>
       ko_journal_offset out = kp_journal_offset p' \<and> kp_journal_offset p' \<noteq> None)"
proof (cases "kp_journal_offset p")
  case (Some off)
  with assms(1,2) show ?thesis
    by (cases p) (auto simp: try_submit_kafka_pending_record_def pending_tracked_def Let_def
        split: prod.splits sum.splits if_splits)
next
  case None
  from assms(2) obtain j where j: "journal = Some j" "journal_holds fs j es" by (auto simp: pending_tracked_def)
  obtain fs1 j1 a where a: "append_durable io fs j (kr_event (kp_record p)) = (fs1, j1, a)" by (metis prod_cases3)
  from a j(2) assms(3) show ?thesis
  proof (cases rule: append_durable_cases)
    case (written off)
    with assms(1) None j(1) a show ?thesis
      by (cases p) (auto simp: try_submit_kafka_pending_record_def append_journal_def pending_tracked_def Let_def
          split: prod.splits sum.splits if_splits)
  next
    case unsynced
    with assms(1) None j a show ?thesis
      by (auto simp: try_submit_kafka_pending_record_def append_journal_def pending_tracked_def)
  next
    case torn
    with assms(1,4) None j a show ?thesis
      by (auto simp: try_submit_kafka_pending_record_def append_journal_def)
  next
    case (refused err)
    with assms(1) None j a show ?thesis
      by (auto simp: try_submit_kafka_pending_record_def append_journal_def pending_tracked_def)
  qed
qed

lemma submit_attempts_tracked:
  assumes "submit_attempts mb attempts fs rt journal p = (fs', rt', journal', p', rs)"
    and "pending_tracked fs journal p es" "event_rust (kr_event (kp_record p))" "\<forall>x \<in> set rs. \<not> torn x"
  shows "pending_tracked fs' journal' p'
      (es @ replicate (length (filter sync_failed rs) + (if kp_journal_offset p = None \<and> kp_journal_offset p' \<noteq> None then 1 else 0))
         (kr_event (kp_record p))) \<and>
    kp_record p' = kp_record p \<and> (kp_journal_offset p \<noteq> None \<longrightarrow> kp_journal_offset p' = kp_journal_offset p \<and> filter sync_failed rs = []) \<and>
    (\<forall>out. Inr (Some out) \<in> set rs \<longrightarrow> ko_topic_partition out = kr_topic_partition (kp_record p) \<and>
       ko_next_commit_offset out = next_commit_offset (kr_offset (kp_record p)) \<and>
       ko_journal_offset out = kp_journal_offset p' \<and> kp_journal_offset p' \<noteq> None)"
  using assms
proof (induction attempts arbitrary: fs rt journal p es rs)
  case (Cons a attempts)
  obtain io between where a: "a = (io, between)" by fastforce
  obtain fs1 rt1 journal1 p1 r where step: "try_submit_kafka_pending_record mb io fs (between rt) journal p = (fs1, rt1, journal1, p1, r)"
    by (metis prod_cases5)
  obtain rs1 where rest: "submit_attempts mb attempts fs1 rt1 journal1 p1 = (fs', rt', journal', p', rs1)" and rs: "rs = r # rs1"
    using Cons.prems(1) a step by (auto split: prod.splits)
  let ?new = "if kp_journal_offset p = None \<and> (sync_failed r \<or> kp_journal_offset p1 \<noteq> None) then [kr_event (kp_record p)] else []"
  from try_submit_tracked [OF step Cons.prems(2,3)] Cons.prems(4) rs
  have s: "pending_tracked fs1 journal1 p1 (es @ ?new)" "kp_record p1 = kp_record p"
    "kp_journal_offset p \<noteq> None \<longrightarrow> kp_journal_offset p1 = kp_journal_offset p \<and> \<not> sync_failed r"
    "sync_failed r \<longrightarrow> kp_journal_offset p1 = None"
    and out: "\<forall>out. r = Inr (Some out) \<longrightarrow> ko_topic_partition out = kr_topic_partition (kp_record p) \<and>
       ko_next_commit_offset out = next_commit_offset (kr_offset (kp_record p)) \<and>
       ko_journal_offset out = kp_journal_offset p1 \<and> kp_journal_offset p1 \<noteq> None" by auto
  from Cons.IH [OF rest s(1)] Cons.prems(3,4) s(2) rs
  have ih: "pending_tracked fs' journal' p' ((es @ ?new) @ replicate (length (filter sync_failed rs1)
        + (if kp_journal_offset p1 = None \<and> kp_journal_offset p' \<noteq> None then 1 else 0)) (kr_event (kp_record p)))"
    "kp_record p' = kp_record p" "kp_journal_offset p1 \<noteq> None \<longrightarrow> kp_journal_offset p' = kp_journal_offset p1 \<and> filter sync_failed rs1 = []"
    and outs: "\<forall>out. Inr (Some out) \<in> set rs1 \<longrightarrow> ko_topic_partition out = kr_topic_partition (kp_record p) \<and>
       ko_next_commit_offset out = next_commit_offset (kr_offset (kp_record p)) \<and>
       ko_journal_offset out = kp_journal_offset p' \<and> kp_journal_offset p' \<noteq> None" by auto
  have "?new @ replicate (length (filter sync_failed rs1) + (if kp_journal_offset p1 = None \<and> kp_journal_offset p' \<noteq> None then 1 else 0))
        (kr_event (kp_record p))
      = replicate (length (filter sync_failed rs) + (if kp_journal_offset p = None \<and> kp_journal_offset p' \<noteq> None then 1 else 0))
        (kr_event (kp_record p))"
    using s(3,4) ih(3) by (auto simp: rs)
  with ih s out outs rs show ?case by auto
qed auto

text \<open>
  A pending record is journaled once. Over any number of attempts, with full mailboxes, closed
  mailboxes and failing syncs between them, the journal gains one copy of the event for the attempt
  that recorded its offset and one for each attempt whose sync failed after the write, and nothing
  else; every attempt that was answered with an outcome reports the record's partition, the offset
  after the record's and the journal offset at which the event can be read back.
\<close>

theorem pending_record_journaled:
  assumes "journal_holds fs j es" "event_rust (kr_event r)"
    and "submit_attempts mb attempts fs rt (Some j) (KafkaPendingRecord_new r) = (fs', rt', journal', p', rs)"
    and "\<forall>x \<in> set rs. \<not> torn x"
  shows "\<exists>j' n. journal' = Some j' \<and> journal_holds fs' j' (es @ replicate n (kr_event r)) \<and>
     n = length (filter sync_failed rs) + (if kp_journal_offset p' = None then 0 else 1) \<and>
     (\<forall>out. Inr (Some out) \<in> set rs \<longrightarrow>
        ko_topic_partition out = kr_topic_partition r \<and>
        ko_next_commit_offset out = (if kr_offset r < i64_max then kr_offset r + 1 else i64_max) \<and>
        (\<exists>off. ko_journal_offset out = Some off \<and>
           \<lparr>je_offset = off, je_event = kr_event r\<rparr> \<in> set (journaled (es @ replicate n (kr_event r)))))"
proof -
  have "pending_tracked fs (Some j) (KafkaPendingRecord_new r) es"
    using assms(1) by (simp add: pending_tracked_def KafkaPendingRecord_new_def)
  from submit_attempts_tracked [OF assms(3) this _ assms(4)] assms(2) show ?thesis
    by (auto simp: pending_tracked_def KafkaPendingRecord_new_def next_commit_offset_def not_less)
qed

definition sample_kafka_record :: KafkaProcessRecord where
  "sample_kafka_record = \<lparr>kr_topic_partition = KafkaTopicPartition ''process-events-demo'' 3, kr_offset = 41, kr_event = codec_sample\<rparr>"

definition sample_runtime :: "(nat \<times> PipelineEvent list) SitasShardRuntime" where
  "sample_runtime = \<lparr>st_indexes = [HotIndex_new], st_mailboxes = [(1, [])], st_workers = False\<rparr>"

lemma sample_try_submit:
  "\<exists>queued. snd (sitas_try_submit list_mailbox codec_sample sample_runtime) = Inr queued"
proof -
  have "event_valid codec_sample" by (simp add: codec_sample_def event_builder_defs event_valid_def)
  then have "PipelineEvent_validate codec_sample = Inr ()" by (simp add: validate_iff)
  moreover have "sitas_shard_for sample_runtime p = 0" for p
    by (simp add: sitas_shard_for_def sample_runtime_def shard_for_process_instance_def)
  ultimately show ?thesis
    by (simp add: sitas_try_submit_def Let_def sample_runtime_def list_mailbox_def)
qed

end
