(* ===== verification/Durga.thy ===== *)
theory Durga
  imports Events
begin

text \<open>
  Durga's monitor events: the compatibility types and the conversion of \<open>src/durga.rs\<close>, and the JSON
  adapter of \<open>src/kafka_client.rs\<close> (\<open>decode_durga_json_process_event\<close> with its tolerant parsing of
  statuses and event types, and the counters of unknown values). What \<open>serde_json\<close> reads from a
  record is the record \<open>DurgaProcessEventJson\<close>; its payload is the text the JSON value renders to.
  The lemmas show how the identifier of a converted event depends on its source.
\<close>

subsection \<open>Numbers in decimal\<close>

fun decimal :: "nat \<Rightarrow> string" where
  "decimal n = (if n < 10 then [char_of (48 + n)] else decimal (n div 10) @ [char_of (48 + n mod 10)])"

declare decimal.simps [simp del]

definition decimal_value :: "string \<Rightarrow> nat" where
  "decimal_value s = foldl (\<lambda>acc c. 10 * acc + (of_char c - 48)) 0 s"

lemma decimal_value_decimal [simp]: "decimal_value (decimal n) = n"
proof (induction n rule: decimal.induct)
  case (1 n)
  show ?case
  proof (cases "n < 10")
    case True
    then show ?thesis by (simp add: decimal.simps [of n] decimal_value_def)
  next
    case False
    with 1 have "decimal_value (decimal (n div 10)) = n div 10" by simp
    moreover have "48 + n mod 10 < 256" using mod_less_divisor [of 10 n] by linarith
    ultimately show ?thesis using False by (simp add: decimal.simps [of n] decimal_value_def)
  qed
qed

lemma decimal_inject: "decimal m = decimal n \<longleftrightarrow> m = n"
  by (metis decimal_value_decimal)

lemma set_decimal: "c \<in> set (decimal n) \<Longrightarrow> 48 \<le> (of_char c :: nat) \<and> (of_char c :: nat) \<le> 57"
proof (induction n rule: decimal.induct)
  case (1 n)
  then show ?case by (cases "n < 10") (auto simp: decimal.simps [of n])
qed

lemma colon_decimal: "CHR '':'' \<notin> set (decimal n)"
  using set_decimal [of "CHR '':''" n] by auto

subsection \<open>Statuses and event types\<close>

datatype DurgaStatus = DsStarted | DsCompleted | DsFailed | DsEscalated | DsCancelled | DsUnknown string

fun event_status_of :: "DurgaStatus \<Rightarrow> EventStatus" where
  "event_status_of DsStarted = EvStarted"
| "event_status_of DsCompleted = EvCompleted"
| "event_status_of DsFailed = EvFailed"
| "event_status_of DsEscalated = EvEscalated"
| "event_status_of DsCancelled = EvCancelled"
| "event_status_of (DsUnknown _) = EvStarted"

datatype DurgaEventType =
  DtProcessStarted
| DtActivityEntered
| DtActivityCompleted
| DtActivityEscalated
| DtActivityCancelled
| DtGatewayTaken
| DtProcessCompleted
| DtProcessFailed
| DtUnknown string

fun event_kind_of :: "DurgaEventType \<Rightarrow> EventKind" where
  "event_kind_of DtProcessStarted = ProcessStarted"
| "event_kind_of DtActivityEntered = ActivityEntered"
| "event_kind_of DtActivityCompleted = ActivityCompleted"
| "event_kind_of DtActivityEscalated = ActivityEscalated"
| "event_kind_of DtActivityCancelled = ActivityCancelled"
| "event_kind_of DtGatewayTaken = GatewayTaken"
| "event_kind_of DtProcessCompleted = ProcessCompleted"
| "event_kind_of DtProcessFailed = ProcessFailed"
| "event_kind_of (DtUnknown s) = UnknownKind s"

record DurgaErrorInfo =
  de_message :: string
  de_code :: "string option"

definition error_info_of :: "DurgaErrorInfo \<Rightarrow> ErrorInfo" where
  "error_info_of e = \<lparr>err_message = de_message e, err_code = de_code e\<rparr>"

record DurgaProcessEvent =
  dg_process_instance_id :: string
  dg_process_id :: string
  dg_activity_id :: "string option"
  dg_token_id :: "string option"
  dg_correlation_id :: "string option"
  dg_payload :: "string option"
  dg_status :: DurgaStatus
  dg_error :: "DurgaErrorInfo option"
  dg_event_type :: DurgaEventType
  dg_process_version :: "string option"
  dg_business_key :: "string option"
  dg_timestamp :: string
  dg_metadata_refs :: "MetadataRef list"
  dg_schema_version :: "string option"

subsection \<open>The conversion\<close>

definition durga_event_id :: "SourceId \<Rightarrow> string \<Rightarrow> SourceSequence \<Rightarrow> EventId" where
  "durga_event_id source_id process_instance_id source_sequence =
     source_id @ '':'' @ process_instance_id @ '':'' @ decimal (unat source_sequence)"

definition if_some :: "('a \<Rightarrow> 'e \<Rightarrow> 'e) \<Rightarrow> 'a option \<Rightarrow> 'e \<Rightarrow> 'e" where
  "if_some f x event = (case x of None \<Rightarrow> event | Some v \<Rightarrow> f v event)"

definition into_pipeline_event ::
  "DurgaProcessEvent \<Rightarrow> SourceId \<Rightarrow> SourceSequence \<Rightarrow> TenantId \<Rightarrow> EnvironmentId \<Rightarrow> PipelineEvent" where
  "into_pipeline_event d source_id source_sequence tenant_id environment_id =
     (let event_id = durga_event_id source_id (dg_process_instance_id d) source_sequence;
          kind = event_kind_of (dg_event_type d);
          event = with_status (event_status_of (dg_status d))
            (PipelineEvent_new event_id source_id source_sequence tenant_id environment_id
               (dg_process_id d) (dg_process_id d) (dg_process_instance_id d) (dg_timestamp d) kind);
          metadata_refs = dg_metadata_refs d;
          event = (if metadata_refs \<noteq> [] then with_metadata_refs metadata_refs event else event);
          event = if_some with_activity_id (dg_activity_id d) event;
          event = if_some with_token_id (dg_token_id d) event;
          event = if_some with_correlation_id (dg_correlation_id d) event;
          event = if_some with_process_version (dg_process_version d) event;
          event = if_some with_business_key (dg_business_key d) event;
          event = if_some (\<lambda>error. with_error (error_info_of error)) (dg_error d) event;
          event = if_some with_payload (dg_payload d) event
      in event)"

subsection \<open>The JSON adapter\<close>

record MetadataRefJson =
  mj_kind :: string
  mj_id :: string
  mj_version :: "string option"

record DurgaProcessEventJson =
  dj_process_instance_id :: string
  dj_process_id :: string
  dj_activity_id :: "string option"
  dj_token_id :: "string option"
  dj_correlation_id :: "string option"
  dj_payload :: "string option"
  dj_status :: string
  dj_error :: "DurgaErrorInfo option"
  dj_event_type :: string
  dj_process_version :: "string option"
  dj_business_key :: "string option"
  dj_timestamp :: string
  dj_schema_version :: "string option"
  dj_metadata_refs :: "MetadataRefJson list"

record DurgaCompatibilityState =
  unknown_status_counts :: "(string, u64) btree"
  unknown_event_type_counts :: "(string, u64) btree"

record DurgaCompatibilitySnapshot =
  unknown_status_values :: "(string \<times> u64) list"
  unknown_event_type_values :: "(string \<times> u64) list"

definition DurgaCompatibilityState_default :: DurgaCompatibilityState where
  "DurgaCompatibilityState_default = \<lparr>unknown_status_counts = bt_empty, unknown_event_type_counts = bt_empty\<rparr>"

text \<open>\<open>*entry(value).or_default() += 1\<close>\<close>

definition bt_count :: "'k::linorder \<Rightarrow> ('k, u64) btree \<Rightarrow> ('k, u64) btree" where
  "bt_count k m = bt_insert k ((case bt_get m k of None \<Rightarrow> 0 | Some n \<Rightarrow> n) + 1) m"

definition record_unknown_status :: "string \<Rightarrow> DurgaCompatibilityState \<Rightarrow> DurgaCompatibilityState" where
  "record_unknown_status val cst = cst\<lparr>unknown_status_counts := bt_count val (unknown_status_counts cst)\<rparr>"

definition record_unknown_event_type :: "string \<Rightarrow> DurgaCompatibilityState \<Rightarrow> DurgaCompatibilityState" where
  "record_unknown_event_type val cst =
     cst\<lparr>unknown_event_type_counts := bt_count val (unknown_event_type_counts cst)\<rparr>"

definition compat_snapshot :: "DurgaCompatibilityState \<Rightarrow> DurgaCompatibilitySnapshot" where
  "compat_snapshot cst =
     \<lparr>unknown_status_values = bt_iter (unknown_status_counts cst),
      unknown_event_type_values = bt_iter (unknown_event_type_counts cst)\<rparr>"

definition into_metadata_ref :: "MetadataRefJson \<Rightarrow> MetadataRef option" where
  "into_metadata_ref r =
     (let k = mj_kind r in
      if k = ''dataset'' then Some (Dataset (mj_id r))
      else if k = ''schema'' then Some (Schema (mj_id r) (mj_version r))
      else if k = ''field'' then Some (Field (mj_id r))
      else if k = ''pipelineDefinition'' then Some (PipelineDefinition (mj_id r) (mj_version r))
      else if k = ''object'' then Some (Object (mj_id r))
      else if k = ''lineageEdge'' then Some (LineageEdge (mj_id r))
      else if k = ''dataContract'' then Some (DataContract (mj_id r))
      else if k = ''owner'' then Some (Owner (mj_id r))
      else if k = ''classification'' then Some (Classification (mj_id r))
      else None)"

definition parse_durga_status :: "string \<Rightarrow> DurgaCompatibilityState \<Rightarrow> DurgaCompatibilityState \<times> DurgaStatus" where
  "parse_durga_status val cst =
     (if val \<in> {''Started'', ''STARTED''} then (cst, DsStarted)
      else if val \<in> {''Completed'', ''COMPLETED''} then (cst, DsCompleted)
      else if val \<in> {''Failed'', ''FAILED''} then (cst, DsFailed)
      else if val \<in> {''Escalated'', ''ESCALATED''} then (cst, DsEscalated)
      else if val \<in> {''Cancelled'', ''CANCELLED'', ''Canceled'', ''CANCELED''} then (cst, DsCancelled)
      else (record_unknown_status val cst, DsUnknown val))"

definition parse_durga_event_type :: "string \<Rightarrow> DurgaCompatibilityState \<Rightarrow> DurgaCompatibilityState \<times> DurgaEventType" where
  "parse_durga_event_type val cst =
     (if val \<in> {''ProcessStarted'', ''PROCESS_STARTED''} then (cst, DtProcessStarted)
      else if val \<in> {''ActivityEntered'', ''ACTIVITY_ENTERED''} then (cst, DtActivityEntered)
      else if val \<in> {''ActivityCompleted'', ''ACTIVITY_COMPLETED''} then (cst, DtActivityCompleted)
      else if val \<in> {''ActivityEscalated'', ''ACTIVITY_ESCALATED''} then (cst, DtActivityEscalated)
      else if val \<in> {''ActivityCancelled'', ''ACTIVITY_CANCELLED'', ''ActivityCanceled'', ''ACTIVITY_CANCELED''}
        then (cst, DtActivityCancelled)
      else if val \<in> {''GatewayTaken'', ''GATEWAY_TAKEN''} then (cst, DtGatewayTaken)
      else if val \<in> {''ProcessCompleted'', ''PROCESS_COMPLETED''} then (cst, DtProcessCompleted)
      else if val \<in> {''ProcessFailed'', ''PROCESS_FAILED''} then (cst, DtProcessFailed)
      else (record_unknown_event_type val cst, DtUnknown val))"

definition decode_durga_json_process_event ::
  "(bytes \<Rightarrow> string + DurgaProcessEventJson) \<Rightarrow> bytes \<Rightarrow> DurgaCompatibilityState \<Rightarrow>
     DurgaCompatibilityState \<times> (string + DurgaProcessEvent)" where
  "decode_durga_json_process_event from_slice payload cst =
     (case from_slice payload of
        Inl e \<Rightarrow> (cst, Err e)
      | Inr v \<Rightarrow>
          let metadata_refs = List.map_filter into_metadata_ref (dj_metadata_refs v);
              (cst, status) = parse_durga_status (dj_status v) cst;
              (cst, event_type) = parse_durga_event_type (dj_event_type v) cst
          in (cst, Ok
               \<lparr>dg_process_instance_id = dj_process_instance_id v, dg_process_id = dj_process_id v,
                dg_activity_id = dj_activity_id v, dg_token_id = dj_token_id v,
                dg_correlation_id = dj_correlation_id v, dg_payload = dj_payload v, dg_status = status,
                dg_error = dj_error v, dg_event_type = event_type, dg_process_version = dj_process_version v,
                dg_business_key = dj_business_key v, dg_timestamp = dj_timestamp v,
                dg_metadata_refs = metadata_refs, dg_schema_version = dj_schema_version v\<rparr>))"

subsection \<open>Identifiers\<close>

lemma colon_split:
  assumes "CHR '':'' \<notin> set a" "CHR '':'' \<notin> set b"
  shows "a @ CHR '':'' # x = b @ CHR '':'' # y \<longleftrightarrow> a = b \<and> x = y"
  using assms
proof (induction a arbitrary: b)
  case Nil
  then show ?case by (cases b) auto
next
  case (Cons c a)
  then show ?case by (cases b) auto
qed

lemma colon_split_last:
  assumes "CHR '':'' \<notin> set x" "CHR '':'' \<notin> set y"
  shows "a @ CHR '':'' # x = b @ CHR '':'' # y \<longleftrightarrow> a = b \<and> x = y"
proof -
  have "a @ CHR '':'' # x = b @ CHR '':'' # y \<longleftrightarrow> rev (a @ CHR '':'' # x) = rev (b @ CHR '':'' # y)"
    by (simp only: rev_is_rev_conv)
  also have "\<dots> \<longleftrightarrow> rev x = rev y \<and> rev a = rev b"
    using colon_split [of "rev x" "rev y" "rev a" "rev b"] assms by simp
  finally show ?thesis by auto
qed

text \<open>
  The identifier determines the sequence number, and the source and the instance when the sources
  are known to be free of colons.
\<close>

lemma durga_event_id_eq:
  "durga_event_id s i n = durga_event_id s' i' n' \<longleftrightarrow> s @ '':'' @ i = s' @ '':'' @ i' \<and> n = n'"
  using colon_split_last [OF colon_decimal colon_decimal, of "s @ '':'' @ i" "unat n" "s' @ '':'' @ i'" "unat n'"]
  by (simp add: durga_event_id_def decimal_inject word_unat_eq_iff)

lemma into_pipeline_event_fields:
  "pe_event_id (into_pipeline_event d s n t v) = durga_event_id s (dg_process_instance_id d) n"
  "pe_process_instance_id (into_pipeline_event d s n t v) = dg_process_instance_id d"
  "pe_timestamp (into_pipeline_event d s n t v) = dg_timestamp d"
  "pe_kind (into_pipeline_event d s n t v) = event_kind_of (dg_event_type d)"
  "pe_status (into_pipeline_event d s n t v) = event_status_of (dg_status d)"
  "pe_metadata_refs (into_pipeline_event d s n t v) = dg_metadata_refs d"
  by (simp_all add: into_pipeline_event_def Let_def if_some_def event_builder_defs split: option.split)

text \<open>The schema version of the Durga event does not reach the pipeline event.\<close>

lemma schema_version_dropped:
  "into_pipeline_event (d\<lparr>dg_schema_version := x\<rparr>) s n t v = into_pipeline_event d s n t v"
  by (simp add: into_pipeline_event_def)

end
