(* ===== verification/Kafka_Client.thy ===== *)
theory Kafka_Client
  imports Kafka_Ingest Durga
begin

text \<open>
  The Kafka consumer of \<open>src/kafka_client.rs\<close>: configuration, decoding of records, polling into a sink,
  backpressure by pausing partitions, offset commits and the rebalance callbacks. The client library
  is a parameter: a record \<open>broker\<close> of the operations the code calls, over a state \<open>'b\<close>. A poll also
  yields the rebalance callbacks that ran during it. The lock around the rebalance state is taken
  whether it is poisoned or not, so it does not appear.

  The locale \<open>kafka_sink\<close> is the contract of what a record is polled into: it keeps the record and its
  outcome names the record's partition and the offset after it. The sink of \<open>poll_once\<close> and the sink
  of the service are interpretations.
\<close>

subsection \<open>Topics\<close>

definition DURGA_PROCESS_EVENTS_TOPIC_PREFIX :: string where
  "DURGA_PROCESS_EVENTS_TOPIC_PREFIX = ''process-events-''"

definition DURGA_VALIDATION_TOPIC_SUFFIX :: string where
  "DURGA_VALIDATION_TOPIC_SUFFIX = ''-validation''"

definition DURGA_METADATA_EVENTS_TOPIC_PREFIX :: string where
  "DURGA_METADATA_EVENTS_TOPIC_PREFIX = ''vannak-metadata-events-''"

definition starts_with :: "string \<Rightarrow> string \<Rightarrow> bool" where
  "starts_with s p \<longleftrightarrow> take (length p) s = p"

definition ends_with :: "string \<Rightarrow> string \<Rightarrow> bool" where
  "ends_with s p \<longleftrightarrow> length p \<le> length s \<and> drop (length s - length p) s = p"

definition durga_process_events_topic :: "string \<Rightarrow> string" where
  "durga_process_events_topic process_id = DURGA_PROCESS_EVENTS_TOPIC_PREFIX @ process_id"

definition durga_validation_events_topic :: "string \<Rightarrow> string" where
  "durga_validation_events_topic process_id = DURGA_PROCESS_EVENTS_TOPIC_PREFIX @ process_id @ DURGA_VALIDATION_TOPIC_SUFFIX"

definition durga_metadata_events_topic :: "string \<Rightarrow> string" where
  "durga_metadata_events_topic process_id = DURGA_METADATA_EVENTS_TOPIC_PREFIX @ process_id"

definition is_durga_process_events_topic :: "string \<Rightarrow> bool" where
  "is_durga_process_events_topic topic \<longleftrightarrow>
     starts_with topic DURGA_PROCESS_EVENTS_TOPIC_PREFIX \<and> \<not> ends_with topic DURGA_VALIDATION_TOPIC_SUFFIX"

definition is_durga_validation_events_topic :: "string \<Rightarrow> bool" where
  "is_durga_validation_events_topic topic \<longleftrightarrow>
     starts_with topic DURGA_PROCESS_EVENTS_TOPIC_PREFIX \<and> ends_with topic DURGA_VALIDATION_TOPIC_SUFFIX"

definition is_durga_metadata_events_topic :: "string \<Rightarrow> bool" where
  "is_durga_metadata_events_topic topic \<longleftrightarrow> starts_with topic DURGA_METADATA_EVENTS_TOPIC_PREFIX"

subsection \<open>Errors and configuration\<close>

type_synonym kafka_error = string

datatype KafkaClientError =
  KcInvalidConfig string
| KcKafka kafka_error
| KcCommit kafka_error
| KcMissingPayload
| KcDecode ProcessEventDecodeError
| KcDurgaJson string
| KcIngest KafkaIngestError
| KcPendingPartitionRevoked KafkaTopicPartition KafkaOffset

datatype KafkaPayloadFormat = VannakBinary | DurgaJson

definition KafkaPayloadFormat_parse :: "string \<Rightarrow> KafkaPayloadFormat option" where
  "KafkaPayloadFormat_parse s =
     (if s = ''vannak-binary'' then Some VannakBinary else if s = ''durga-json'' then Some DurgaJson else None)"

fun KafkaPayloadFormat_as_str :: "KafkaPayloadFormat \<Rightarrow> string" where
  "KafkaPayloadFormat_as_str VannakBinary = ''vannak-binary''"
| "KafkaPayloadFormat_as_str DurgaJson = ''durga-json''"

record KafkaProcessConsumerConfig =
  kcc_brokers :: string
  kcc_group_id :: string
  kcc_topics :: "string list"
  kcc_isolation_level :: string
  kcc_payload_format :: KafkaPayloadFormat
  kcc_durga_source_id :: SourceId
  kcc_durga_tenant_id :: TenantId
  kcc_durga_environment_id :: EnvironmentId
  kcc_poll_timeout_ms :: nat
  kcc_enable_partition_eof :: bool
  kcc_auto_offset_reset :: string

definition KafkaProcessConsumerConfig_new :: "string \<Rightarrow> string \<Rightarrow> string list \<Rightarrow> KafkaProcessConsumerConfig" where
  "KafkaProcessConsumerConfig_new brokers group_id topics =
     \<lparr>kcc_brokers = brokers, kcc_group_id = group_id, kcc_topics = topics,
      kcc_isolation_level = ''read_committed'', kcc_payload_format = VannakBinary,
      kcc_durga_source_id = ''kafka'', kcc_durga_tenant_id = ''default'', kcc_durga_environment_id = ''default'',
      kcc_poll_timeout_ms = 100, kcc_enable_partition_eof = False, kcc_auto_offset_reset = ''earliest''\<rparr>"

definition with_poll_timeout :: "nat \<Rightarrow> KafkaProcessConsumerConfig \<Rightarrow> KafkaProcessConsumerConfig" where
  "with_poll_timeout t cfg = cfg\<lparr>kcc_poll_timeout_ms := t\<rparr>"

definition with_partition_eof :: "bool \<Rightarrow> KafkaProcessConsumerConfig \<Rightarrow> KafkaProcessConsumerConfig" where
  "with_partition_eof b cfg = cfg\<lparr>kcc_enable_partition_eof := b\<rparr>"

definition with_auto_offset_reset :: "string \<Rightarrow> KafkaProcessConsumerConfig \<Rightarrow> KafkaProcessConsumerConfig" where
  "with_auto_offset_reset s cfg = cfg\<lparr>kcc_auto_offset_reset := s\<rparr>"

definition with_isolation_level :: "string \<Rightarrow> KafkaProcessConsumerConfig \<Rightarrow> KafkaProcessConsumerConfig" where
  "with_isolation_level s cfg = cfg\<lparr>kcc_isolation_level := s\<rparr>"

definition with_payload_format :: "KafkaPayloadFormat \<Rightarrow> KafkaProcessConsumerConfig \<Rightarrow> KafkaProcessConsumerConfig" where
  "with_payload_format f cfg = cfg\<lparr>kcc_payload_format := f\<rparr>"

definition with_durga_context ::
  "SourceId \<Rightarrow> TenantId \<Rightarrow> EnvironmentId \<Rightarrow> KafkaProcessConsumerConfig \<Rightarrow> KafkaProcessConsumerConfig" where
  "with_durga_context s t e cfg =
     cfg\<lparr>kcc_durga_source_id := s, kcc_durga_tenant_id := t, kcc_durga_environment_id := e\<rparr>"

definition for_durga_processes :: "string \<Rightarrow> string \<Rightarrow> string list \<Rightarrow> KafkaProcessConsumerConfig" where
  "for_durga_processes brokers group_id process_ids =
     with_payload_format DurgaJson
       (KafkaProcessConsumerConfig_new brokers group_id (map durga_process_events_topic process_ids))"

definition config_validate :: "KafkaProcessConsumerConfig \<Rightarrow> KafkaClientError + unit" where
  "config_validate cfg =
     (if trim_is_empty (kcc_brokers cfg) then Err (KcInvalidConfig ''brokers must not be empty'')
      else if trim_is_empty (kcc_group_id cfg) then Err (KcInvalidConfig ''group id must not be empty'')
      else if kcc_topics cfg = [] \<or> list_ex trim_is_empty (kcc_topics cfg)
        then Err (KcInvalidConfig ''at least one non-empty topic is required'')
      else if trim_is_empty (kcc_auto_offset_reset cfg) then Err (KcInvalidConfig ''auto.offset.reset must not be empty'')
      else if trim_is_empty (kcc_isolation_level cfg) then Err (KcInvalidConfig ''isolation.level must not be empty'')
      else Ok ())"

text \<open>\<open>offset.max(0) as u64\<close>\<close>

definition offset_sequence :: "KafkaOffset \<Rightarrow> SourceSequence" where
  "offset_sequence offset = of_int (max offset 0)"

definition decode_event ::
  "(bytes \<Rightarrow> string + DurgaProcessEventJson) \<Rightarrow> KafkaProcessConsumerConfig \<Rightarrow> string \<Rightarrow> KafkaOffset \<Rightarrow> bytes \<Rightarrow>
   DurgaCompatibilityState \<Rightarrow> DurgaCompatibilityState \<times> (KafkaClientError + PipelineEvent)" where
  "decode_event from_slice cfg topic offset payload cst =
     (case kcc_payload_format cfg of
        VannakBinary \<Rightarrow> (cst, map_err KcDecode (decode_pipeline_event payload))
      | DurgaJson \<Rightarrow>
          (case decode_durga_json_process_event from_slice payload cst of
             (cst, r) \<Rightarrow>
               (cst, res_bind (map_err KcDurgaJson r) (\<lambda>event.
                  Ok (into_pipeline_event event (kcc_durga_source_id cfg @ '':'' @ topic) (offset_sequence offset)
                        (kcc_durga_tenant_id cfg) (kcc_durga_environment_id cfg))))))"

subsection \<open>Rebalance state\<close>

type_synonym topic_partition_list = "(string \<times> int \<times> KafkaOffset option) list"

datatype Rebalance = RbAssign topic_partition_list | RbRevoke topic_partition_list | RbError kafka_error

datatype callback = PreRebalance Rebalance | PostRebalance Rebalance

datatype KafkaRebalanceEvent =
  ReAssigned "KafkaTopicPartition list"
| ReRevoked "KafkaTopicPartition list"
| ReError string

record KafkaRebalanceState =
  rb_assigned_partitions :: "KafkaTopicPartition fset"
  rb_revoked_partitions :: "KafkaTopicPartition list"
  rb_pending_revoked_partitions :: "KafkaTopicPartition list"
  rb_pre_rebalance_count :: u64
  rb_post_rebalance_count :: u64
  rb_assignment_count :: u64
  rb_revocation_count :: u64
  rb_error_count :: u64
  rb_last_event :: "KafkaRebalanceEvent option"

definition KafkaRebalanceState_default :: KafkaRebalanceState where
  "KafkaRebalanceState_default =
     \<lparr>rb_assigned_partitions = {||}, rb_revoked_partitions = [], rb_pending_revoked_partitions = [],
      rb_pre_rebalance_count = 0, rb_post_rebalance_count = 0, rb_assignment_count = 0,
      rb_revocation_count = 0, rb_error_count = 0, rb_last_event = None\<rparr>"

definition topic_partitions :: "topic_partition_list \<Rightarrow> KafkaTopicPartition list" where
  "topic_partitions ps = map (\<lambda>(topic, p, _). KafkaTopicPartition topic p) ps"

fun record_rebalance :: "Rebalance \<Rightarrow> KafkaRebalanceState \<Rightarrow> KafkaRebalanceState" where
  "record_rebalance (RbAssign ps) st =
     st\<lparr>rb_assignment_count := rb_assignment_count st + 1,
        rb_last_event := Some (ReAssigned (topic_partitions ps))\<rparr>"
| "record_rebalance (RbRevoke ps) st =
     st\<lparr>rb_revocation_count := rb_revocation_count st + 1,
        rb_assigned_partitions := rb_assigned_partitions st |-| fset_of_list (topic_partitions ps),
        rb_revoked_partitions := rb_revoked_partitions st @ topic_partitions ps,
        rb_pending_revoked_partitions := rb_pending_revoked_partitions st @ topic_partitions ps,
        rb_last_event := Some (ReRevoked (topic_partitions ps))\<rparr>"
| "record_rebalance (RbError e) st =
     st\<lparr>rb_error_count := rb_error_count st + 1, rb_last_event := Some (ReError e)\<rparr>"

definition record_pre_rebalance :: "Rebalance \<Rightarrow> KafkaRebalanceState \<Rightarrow> KafkaRebalanceState" where
  "record_pre_rebalance rb st =
     record_rebalance rb (st\<lparr>rb_pre_rebalance_count := rb_pre_rebalance_count st + 1\<rparr>)"

definition record_post_rebalance :: "Rebalance \<Rightarrow> KafkaRebalanceState \<Rightarrow> KafkaRebalanceState" where
  "record_post_rebalance rb st =
     (let st = st\<lparr>rb_post_rebalance_count := rb_post_rebalance_count st + 1\<rparr> in
      case rb of
        RbAssign ps \<Rightarrow> st\<lparr>rb_assigned_partitions := fset_of_list (topic_partitions ps)\<rparr>
      | _ \<Rightarrow> st)"

fun run_callback :: "callback \<Rightarrow> KafkaRebalanceState \<Rightarrow> KafkaRebalanceState" where
  "run_callback (PreRebalance rb) st = record_pre_rebalance rb st"
| "run_callback (PostRebalance rb) st = record_post_rebalance rb st"

definition take_unhandled_revoked :: "KafkaRebalanceState \<Rightarrow> KafkaRebalanceState \<times> KafkaTopicPartition list" where
  "take_unhandled_revoked st = (st\<lparr>rb_pending_revoked_partitions := []\<rparr>, rb_pending_revoked_partitions st)"

record KafkaRebalanceSnapshot =
  rsn_assigned_partitions :: "KafkaTopicPartition list"
  rsn_revoked_partitions :: "KafkaTopicPartition list"
  rsn_pre_rebalance_count :: u64
  rsn_post_rebalance_count :: u64
  rsn_assignment_count :: u64
  rsn_revocation_count :: u64
  rsn_error_count :: u64
  rsn_last_event :: "KafkaRebalanceEvent option"

definition rebalance_snapshot :: "KafkaRebalanceState \<Rightarrow> KafkaRebalanceSnapshot" where
  "rebalance_snapshot st =
     \<lparr>rsn_assigned_partitions = sorted_list_of_fset (rb_assigned_partitions st),
      rsn_revoked_partitions = rb_revoked_partitions st,
      rsn_pre_rebalance_count = rb_pre_rebalance_count st, rsn_post_rebalance_count = rb_post_rebalance_count st,
      rsn_assignment_count = rb_assignment_count st, rsn_revocation_count = rb_revocation_count st,
      rsn_error_count = rb_error_count st, rsn_last_event = rb_last_event st\<rparr>"

subsection \<open>The client library\<close>

record KafkaMessage =
  km_topic :: string
  km_partition :: int
  km_offset :: KafkaOffset
  km_payload :: "bytes option"

type_synonym ClientConfig = "(string \<times> string) list"

text \<open>
  \<open>add_partition_offset\<close> may refuse an offset; otherwise it appends one element to the list.
\<close>

record 'b broker =
  bk_create :: "ClientConfig \<Rightarrow> kafka_error + 'b"
  bk_subscribe :: "string list \<Rightarrow> 'b \<Rightarrow> 'b \<times> (kafka_error + unit)"
  bk_poll :: "nat \<Rightarrow> 'b \<Rightarrow> 'b \<times> callback list \<times> (kafka_error + KafkaMessage) option"
  bk_pause :: "topic_partition_list \<Rightarrow> 'b \<Rightarrow> 'b \<times> (kafka_error + unit)"
  bk_resume :: "topic_partition_list \<Rightarrow> 'b \<Rightarrow> 'b \<times> (kafka_error + unit)"
  bk_commit :: "topic_partition_list \<Rightarrow> 'b \<Rightarrow> 'b \<times> (kafka_error + unit)"
  bk_refuses_offset :: "string \<Rightarrow> int \<Rightarrow> KafkaOffset \<Rightarrow> kafka_error option"

definition topic_partition_list ::
  "'b broker \<Rightarrow> KafkaTopicPartition \<Rightarrow> KafkaOffset option \<Rightarrow> KafkaClientError + topic_partition_list" where
  "topic_partition_list bk tp offset =
     (case offset of
        Some off \<Rightarrow>
          (case bk_refuses_offset bk (ktp_topic tp) (ktp_partition tp) off of
             Some e \<Rightarrow> Err (KcKafka e)
           | None \<Rightarrow> Ok [(ktp_topic tp, ktp_partition tp, Some off)])
      | None \<Rightarrow> Ok [(ktp_topic tp, ktp_partition tp, None)])"

subsection \<open>The consumer\<close>

record 'b KafkaProcessConsumer =
  kc_consumer :: 'b
  kc_config :: KafkaProcessConsumerConfig
  kc_pending :: "KafkaPendingRecord list"
  kc_paused :: "KafkaTopicPartition fset"
  kc_rebalance_state :: KafkaRebalanceState
  kc_durga_compat :: DurgaCompatibilityState
  kc_total_polled :: u64
  kc_total_accepted :: u64

definition client_config :: "KafkaProcessConsumerConfig \<Rightarrow> ClientConfig" where
  "client_config cfg =
     [(''bootstrap.servers'', kcc_brokers cfg), (''group.id'', kcc_group_id cfg),
      (''enable.auto.commit'', ''false''), (''auto.offset.reset'', kcc_auto_offset_reset cfg),
      (''isolation.level'', kcc_isolation_level cfg),
      (''enable.partition.eof'', if kcc_enable_partition_eof cfg then ''true'' else ''false'')]"

definition KafkaProcessConsumer_start ::
  "'b broker \<Rightarrow> KafkaProcessConsumerConfig \<Rightarrow> KafkaClientError + 'b KafkaProcessConsumer" where
  "KafkaProcessConsumer_start bk cfg =
     res_bind (config_validate cfg) (\<lambda>_.
     res_bind (map_err KcKafka (bk_create bk (client_config cfg))) (\<lambda>consumer.
     case bk_subscribe bk (kcc_topics cfg) consumer of
       (consumer, Inl e) \<Rightarrow> Err (KcKafka e)
     | (consumer, Inr _) \<Rightarrow> Ok
         \<lparr>kc_consumer = consumer, kc_config = cfg, kc_pending = [], kc_paused = {||},
          kc_rebalance_state = KafkaRebalanceState_default, kc_durga_compat = DurgaCompatibilityState_default,
          kc_total_polled = 0, kc_total_accepted = 0\<rparr>))"

record KafkaProcessConsumerSnapshot =
  kcs_pending_records :: nat
  kcs_pending_partitions :: "KafkaTopicPartition list"
  kcs_paused_partitions :: "KafkaTopicPartition list"
  kcs_rebalance :: KafkaRebalanceSnapshot
  kcs_durga_compat :: DurgaCompatibilitySnapshot
  kcs_total_polled :: u64
  kcs_total_accepted :: u64

definition consumer_snapshot :: "'b KafkaProcessConsumer \<Rightarrow> KafkaProcessConsumerSnapshot" where
  "consumer_snapshot c =
     \<lparr>kcs_pending_records = length (kc_pending c),
      kcs_pending_partitions = map (\<lambda>p. kr_topic_partition (kp_record p)) (kc_pending c),
      kcs_paused_partitions = sorted_list_of_fset (kc_paused c),
      kcs_rebalance = rebalance_snapshot (kc_rebalance_state c), kcs_durga_compat = compat_snapshot (kc_durga_compat c),
      kcs_total_polled = kc_total_polled c, kcs_total_accepted = kc_total_accepted c\<rparr>"

definition pause_partition ::
  "'b broker \<Rightarrow> KafkaTopicPartition \<Rightarrow> 'b KafkaProcessConsumer \<Rightarrow> 'b KafkaProcessConsumer \<times> (KafkaClientError + unit)" where
  "pause_partition bk tp c =
     (if tp |\<in>| kc_paused c then (c, Ok ())
      else let c = c\<lparr>kc_paused := finsert tp (kc_paused c)\<rparr> in
        (case topic_partition_list bk tp None of
           Inl e \<Rightarrow> (c, Err e)
         | Inr ps \<Rightarrow>
             (case bk_pause bk ps (kc_consumer c) of
                (b, r) \<Rightarrow> (c\<lparr>kc_consumer := b\<rparr>, map_err KcKafka r))))"

definition resume_partition ::
  "'b broker \<Rightarrow> KafkaTopicPartition \<Rightarrow> 'b KafkaProcessConsumer \<Rightarrow> 'b KafkaProcessConsumer \<times> (KafkaClientError + unit)" where
  "resume_partition bk tp c =
     (if tp |\<notin>| kc_paused c then (c, Ok ())
      else let c = c\<lparr>kc_paused := kc_paused c |-| {|tp|}\<rparr> in
        (case topic_partition_list bk tp None of
           Inl e \<Rightarrow> (c, Err e)
         | Inr ps \<Rightarrow>
             (case bk_resume bk ps (kc_consumer c) of
                (b, r) \<Rightarrow> (c\<lparr>kc_consumer := b\<rparr>, map_err KcKafka r))))"

definition commit_offset ::
  "'b broker \<Rightarrow> KafkaTopicPartition \<Rightarrow> KafkaOffset \<Rightarrow> 'b KafkaProcessConsumer \<Rightarrow>
     'b KafkaProcessConsumer \<times> (KafkaClientError + unit)" where
  "commit_offset bk tp offset c =
     (case topic_partition_list bk tp (Some offset) of
        Inl e \<Rightarrow> (c, Err e)
      | Inr ps \<Rightarrow>
          (case bk_commit bk ps (kc_consumer c) of
             (b, r) \<Rightarrow> (c\<lparr>kc_consumer := b\<rparr>, map_err KcCommit r)))"

definition apply_rebalance_state :: "'b KafkaProcessConsumer \<Rightarrow> 'b KafkaProcessConsumer \<times> (KafkaClientError + unit)" where
  "apply_rebalance_state c =
     (case take_unhandled_revoked (kc_rebalance_state c) of
        (st, revoked) \<Rightarrow>
          let c = c\<lparr>kc_rebalance_state := st\<rparr> in
          if revoked = [] then (c, Ok ())
          else let c = c\<lparr>kc_paused := ffilter (\<lambda>tp. tp \<notin> set revoked) (kc_paused c)\<rparr> in
            (case find (\<lambda>p. kr_topic_partition (kp_record p) \<in> set revoked) (kc_pending c) of
               Some p \<Rightarrow> (c, Err (KcPendingPartitionRevoked (kr_topic_partition (kp_record p)) (kr_offset (kp_record p))))
             | None \<Rightarrow> (c, Ok ())))"

type_synonym 's sink =
  "'s \<Rightarrow> KafkaPendingRecord \<Rightarrow> 's \<times> KafkaPendingRecord \<times> (KafkaIngestError + KafkaSubmitOutcome option)"

text \<open>The sink works on the record at the front of the queue in place.\<close>

definition retry_pending_with ::
  "'b broker \<Rightarrow> 's sink \<Rightarrow> 's \<Rightarrow> 'b KafkaProcessConsumer \<Rightarrow>
     's \<times> 'b KafkaProcessConsumer \<times> (KafkaClientError + KafkaSubmitOutcome option)" where
  "retry_pending_with bk sink s c =
     (case kc_pending c of
        [] \<Rightarrow> (s, c, Ok None)
      | pending # rest \<Rightarrow>
          (case sink s pending of
             (s, pending, r) \<Rightarrow>
               let c = c\<lparr>kc_pending := pending # rest\<rparr> in
               (case r of
                  Inl e \<Rightarrow> (s, c, Err (KcIngest e))
                | Inr None \<Rightarrow>
                    (case pause_partition bk (kr_topic_partition (kp_record pending)) c of
                       (c, r) \<Rightarrow> (s, c, res_bind r (\<lambda>_. Ok None)))
                | Inr (Some out) \<Rightarrow>
                    (case resume_partition bk (ko_topic_partition out) c of
                       (c, Inl e) \<Rightarrow> (s, c, Err e)
                     | (c, Inr _) \<Rightarrow>
                         (case commit_offset bk (ko_topic_partition out) (ko_next_commit_offset out) c of
                            (c, Inl e) \<Rightarrow> (s, c, Err e)
                          | (c, Inr _) \<Rightarrow>
                              (s, c\<lparr>kc_pending := tl (kc_pending c), kc_total_accepted := kc_total_accepted c + 1\<rparr>,
                               Ok (Some out)))))))"

definition poll_with_sink ::
  "(bytes \<Rightarrow> string + DurgaProcessEventJson) \<Rightarrow> 'b broker \<Rightarrow> 's sink \<Rightarrow> 's \<Rightarrow> 'b KafkaProcessConsumer \<Rightarrow>
     's \<times> 'b KafkaProcessConsumer \<times> (KafkaClientError + KafkaSubmitOutcome option)" where
  "poll_with_sink from_slice bk sink s c =
     (case apply_rebalance_state c of
        (c, Inl e) \<Rightarrow> (s, c, Err e)
      | (c, Inr _) \<Rightarrow>
          if kc_pending c \<noteq> [] then retry_pending_with bk sink s c
          else
            (case bk_poll bk (kcc_poll_timeout_ms (kc_config c)) (kc_consumer c) of
               (b, callbacks, result) \<Rightarrow>
                 let c = c\<lparr>kc_consumer := b, kc_rebalance_state := fold run_callback callbacks (kc_rebalance_state c)\<rparr> in
                 (case result of
                    None \<Rightarrow> (s, c, Ok None)
                  | Some result \<Rightarrow>
                      let c = c\<lparr>kc_total_polled := kc_total_polled c + 1\<rparr> in
                      (case result of
                         Inl e \<Rightarrow> (s, c, Err (KcKafka e))
                       | Inr message \<Rightarrow>
                           (case km_payload message of
                              None \<Rightarrow> (s, c, Err KcMissingPayload)
                            | Some payload \<Rightarrow>
                                (case decode_event from_slice (kc_config c) (km_topic message) (km_offset message)
                                        payload (kc_durga_compat c) of
                                   (cst, r) \<Rightarrow>
                                     let c = c\<lparr>kc_durga_compat := cst\<rparr> in
                                     (case r of
                                        Inl e \<Rightarrow> (s, c, Err e)
                                      | Inr event \<Rightarrow>
                                          let r = \<lparr>kr_topic_partition = KafkaTopicPartition (km_topic message) (km_partition message),
                                                   kr_offset = km_offset message, kr_event = event\<rparr>
                                          in retry_pending_with bk sink s
                                               (c\<lparr>kc_pending := kc_pending c @ [KafkaPendingRecord_new r]\<rparr>))))))))"

text \<open>The closure of \<open>poll_once\<close>, over the file system, the runtime and the journal it borrows.\<close>

type_synonym 'm ingest_state = "fs \<times> 'm SitasShardRuntime \<times> ProcessEventJournal option"

definition poll_sink :: "'m mailbox_ops \<Rightarrow> disk_io \<Rightarrow> 'm ingest_state sink" where
  "poll_sink mb io s pending =
     (case s of (fs, rt, journal) \<Rightarrow>
        (case try_submit_kafka_pending_record mb io fs rt journal pending of
           (fs, rt, journal, pending, r) \<Rightarrow> ((fs, rt, journal), pending, r)))"

definition poll_once ::
  "(bytes \<Rightarrow> string + DurgaProcessEventJson) \<Rightarrow> 'b broker \<Rightarrow> 'm mailbox_ops \<Rightarrow> disk_io \<Rightarrow>
   'm ingest_state \<Rightarrow> 'b KafkaProcessConsumer \<Rightarrow>
     'm ingest_state \<times> 'b KafkaProcessConsumer \<times> (KafkaClientError + KafkaSubmitOutcome option)" where
  "poll_once from_slice bk mb io s c = poll_with_sink from_slice bk (poll_sink mb io) s c"

fun poll_batch ::
  "(bytes \<Rightarrow> string + DurgaProcessEventJson) \<Rightarrow> 'b broker \<Rightarrow> 'm mailbox_ops \<Rightarrow> disk_io \<Rightarrow>
   'm ingest_state \<Rightarrow> 'b KafkaProcessConsumer \<Rightarrow> nat \<Rightarrow> KafkaSubmitOutcome list \<Rightarrow>
     'm ingest_state \<times> 'b KafkaProcessConsumer \<times> (KafkaClientError + KafkaSubmitOutcome list)" where
  "poll_batch from_slice bk mb io s c 0 outcomes = (s, c, Ok outcomes)"
| "poll_batch from_slice bk mb io s c (Suc max_records) outcomes =
     (case poll_once from_slice bk mb io s c of
        (s, c, Inl e) \<Rightarrow> (s, c, Err e)
      | (s, c, Inr None) \<Rightarrow> (s, c, Ok outcomes)
      | (s, c, Inr (Some outcome)) \<Rightarrow> poll_batch from_slice bk mb io s c max_records (outcomes @ [outcome]))"

subsection \<open>What the broker saw\<close>

text \<open>
  The operations of a broker with a log of the messages it delivered and of the commits it was asked
  for, each with whether it was acknowledged. The consumer behaves the same on it.
\<close>

record broker_log =
  kl_messages :: "KafkaMessage list"
  kl_commits :: "(topic_partition_list \<times> bool) list"

definition logged :: "'b broker \<Rightarrow> ('b \<times> broker_log) broker" where
  "logged bk =
     \<lparr>bk_create = \<lambda>cc. res_bind (bk_create bk cc) (\<lambda>b. Ok (b, \<lparr>kl_messages = [], kl_commits = []\<rparr>)),
      bk_subscribe = \<lambda>ts (b, l). case bk_subscribe bk ts b of (b, r) \<Rightarrow> ((b, l), r),
      bk_poll = \<lambda>t (b, l). case bk_poll bk t b of (b, cs, r) \<Rightarrow>
        ((b, case r of Some (Inr m) \<Rightarrow> l\<lparr>kl_messages := kl_messages l @ [m]\<rparr> | _ \<Rightarrow> l), cs, r),
      bk_pause = \<lambda>ps (b, l). case bk_pause bk ps b of (b, r) \<Rightarrow> ((b, l), r),
      bk_resume = \<lambda>ps (b, l). case bk_resume bk ps b of (b, r) \<Rightarrow> ((b, l), r),
      bk_commit = \<lambda>ps (b, l). case bk_commit bk ps b of (b, r) \<Rightarrow>
        ((b, l\<lparr>kl_commits := kl_commits l @ [(ps, r = Inr ())]\<rparr>), r),
      bk_refuses_offset = bk_refuses_offset bk\<rparr>"

text \<open>
  The record a message becomes, if it has a payload that decodes. The compatibility counters do not
  influence it.
\<close>

definition record_of ::
  "(bytes \<Rightarrow> string + DurgaProcessEventJson) \<Rightarrow> KafkaProcessConsumerConfig \<Rightarrow> KafkaMessage \<Rightarrow> KafkaProcessRecord option" where
  "record_of from_slice cfg m =
     (case km_payload m of
        None \<Rightarrow> None
      | Some payload \<Rightarrow>
          (case snd (decode_event from_slice cfg (km_topic m) (km_offset m) payload DurgaCompatibilityState_default) of
             Inl _ \<Rightarrow> None
           | Inr event \<Rightarrow> Some
               \<lparr>kr_topic_partition = KafkaTopicPartition (km_topic m) (km_partition m),
                kr_offset = km_offset m, kr_event = event\<rparr>))"

lemma parse_durga_indep:
  "snd (parse_durga_status x cst) = snd (parse_durga_status x cst')"
  "snd (parse_durga_event_type x cst) = snd (parse_durga_event_type x cst')"
  by (simp_all add: parse_durga_status_def parse_durga_event_type_def)

lemma decode_event_indep:
  "snd (decode_event fs cfg t off p cst) = snd (decode_event fs cfg t off p cst')"
proof -
  have "snd (decode_durga_json_process_event fs p cst) = snd (decode_durga_json_process_event fs p cst')"
  proof (cases "fs p")
    case (Inr v)
    obtain x y where "\<And>cst. snd (parse_durga_status (dj_status v) cst) = x"
      "\<And>cst. snd (parse_durga_event_type (dj_event_type v) cst) = y"
      using parse_durga_indep by metis
    with Inr show ?thesis by (simp add: decode_durga_json_process_event_def case_prod_unfold Let_def)
  qed (simp add: decode_durga_json_process_event_def)
  then show ?thesis
    by (simp add: decode_event_def case_prod_unfold split: KafkaPayloadFormat.split)
qed

definition commit_of :: "KafkaProcessRecord \<Rightarrow> topic_partition_list" where
  "commit_of r = [(ktp_topic (kr_topic_partition r), ktp_partition (kr_topic_partition r), Some (next_commit_offset (kr_offset r)))]"

definition acknowledged :: "broker_log \<Rightarrow> topic_partition_list list" where
  "acknowledged l = map fst (filter snd (kl_commits l))"

abbreviation klog :: "('b \<times> broker_log) KafkaProcessConsumer \<Rightarrow> broker_log" where
  "klog c \<equiv> snd (kc_consumer c)"

lemma logged_pause:
  assumes "pause_partition (logged bk) tp c = (c', r)"
  shows "klog c' = klog c \<and> kc_pending c' = kc_pending c \<and> kc_config c' = kc_config c"
  using assms by (auto simp: pause_partition_def topic_partition_list_def logged_def Let_def split: if_splits prod.splits)

lemma logged_resume:
  assumes "resume_partition (logged bk) tp c = (c', r)"
  shows "klog c' = klog c \<and> kc_pending c' = kc_pending c \<and> kc_config c' = kc_config c"
  using assms by (auto simp: resume_partition_def topic_partition_list_def logged_def Let_def split: if_splits prod.splits)

lemma logged_commit:
  assumes "commit_offset (logged bk) tp off c = (c', r)"
  shows "kc_pending c' = kc_pending c \<and> kc_config c' = kc_config c \<and> kl_messages (klog c') = kl_messages (klog c) \<and>
    (r = Inr () \<and> kl_commits (klog c') = kl_commits (klog c) @ [([(ktp_topic tp, ktp_partition tp, Some off)], True)] \<or>
     (\<exists>e. r = Inl e) \<and> (kl_commits (klog c') = kl_commits (klog c) \<or>
       kl_commits (klog c') = kl_commits (klog c) @ [([(ktp_topic tp, ktp_partition tp, Some off)], False)]))"
  using assms
  by (auto simp: commit_offset_def topic_partition_list_def logged_def map_err_def split: option.splits prod.splits sum.splits)

lemma apply_rebalance_keeps:
  assumes "apply_rebalance_state c = (c', r)"
  shows "kc_consumer c' = kc_consumer c \<and> kc_pending c' = kc_pending c \<and> kc_config c' = kc_config c"
  using assms by (auto simp: apply_rebalance_state_def take_unhandled_revoked_def Let_def split: if_splits option.splits)

text \<open>
  A revocation that hits the pending record is reported once: the record stays pending, and the next
  poll without a further revocation submits it.
\<close>

lemma revoked_pending_retried:
  assumes "apply_rebalance_state c = (c', Inl err)"
  shows "kc_pending c' = kc_pending c \<and> poll_with_sink from_slice bk sink s c' = retry_pending_with bk sink s c'"
proof -
  from assms have c': "kc_pending c' = kc_pending c" "kc_pending c \<noteq> []" "rb_pending_revoked_partitions (kc_rebalance_state c') = []"
    by (auto simp: apply_rebalance_state_def take_unhandled_revoked_def Let_def find_None_iff split: if_splits option.splits)
  then have "apply_rebalance_state c' = (c', Inr ())"
    by (simp add: apply_rebalance_state_def take_unhandled_revoked_def)
  with c' show ?thesis by (simp add: poll_with_sink_def)
qed

lemma retry_effect:
  assumes "kc_pending c = p # rest" "sink s p = (s1, p1, o1)" "retry_pending_with (logged bk) sink s c = (s', c', r)"
  obtains (waiting) "s' = s1" "kc_pending c' = p1 # rest" "kc_config c' = kc_config c"
      "kl_messages (klog c') = kl_messages (klog c)" "kl_commits (klog c') = kl_commits (klog c)"
  | (refused) out where "o1 = Inr (Some out)" "s' = s1" "kc_pending c' = p1 # rest" "kc_config c' = kc_config c"
      "kl_messages (klog c') = kl_messages (klog c)"
      "kl_commits (klog c') = kl_commits (klog c) @ [([(ktp_topic (ko_topic_partition out), ktp_partition (ko_topic_partition out), Some (ko_next_commit_offset out))], False)]"
  | (committed) out where "o1 = Inr (Some out)" "s' = s1" "kc_pending c' = rest" "kc_config c' = kc_config c"
      "kl_messages (klog c') = kl_messages (klog c)"
      "kl_commits (klog c') = kl_commits (klog c) @ [([(ktp_topic (ko_topic_partition out), ktp_partition (ko_topic_partition out), Some (ko_next_commit_offset out))], True)]"
proof (cases "\<exists>out. o1 = Inr (Some out)")
  case False
  obtain c1 r1 where q: "pause_partition (logged bk) (kr_topic_partition (kp_record p1)) (c\<lparr>kc_pending := p1 # rest\<rparr>) = (c1, r1)" by fastforce
  from False have "s' = s1 \<and> (c' = c\<lparr>kc_pending := p1 # rest\<rparr> \<or> c' = c1)"
    using assms q by (auto simp: retry_pending_with_def Let_def split: sum.splits option.splits)
  with logged_pause [OF q] show ?thesis by (intro waiting) auto
next
  case True
  then obtain out where o1: "o1 = Inr (Some out)" by blast
  obtain c1 r1 where r1: "resume_partition (logged bk) (ko_topic_partition out) (c\<lparr>kc_pending := p1 # rest\<rparr>) = (c1, r1)" by fastforce
  note q1 = logged_resume [OF r1]
  show ?thesis
  proof (cases r1)
    case (Inl err)
    with assms o1 r1 q1 show ?thesis by (intro waiting) (auto simp: retry_pending_with_def Let_def)
  next
    case (Inr u)
    obtain c2 r2 where r2: "commit_offset (logged bk) (ko_topic_partition out) (ko_next_commit_offset out) c1 = (c2, r2)" by fastforce
    have "s' = s1" "c' = (if r2 = Inr () then c2\<lparr>kc_pending := tl (kc_pending c2), kc_total_accepted := kc_total_accepted c2 + 1\<rparr> else c2)"
      using assms o1 r1 Inr r2 by (auto simp: retry_pending_with_def Let_def split: sum.splits)
    with logged_commit [OF r2] q1 show ?thesis
      by (elim conjE disjE exE) (use o1 in \<open>auto intro: waiting refused committed\<close>)
  qed
qed

lemma retry_messages:
  assumes "retry_pending_with (logged bk) sink s c = (s', c', r)"
  shows "kl_messages (klog c') = kl_messages (klog c)"
proof (cases "kc_pending c")
  case (Cons p rest)
  obtain s1 p1 o1 where k: "sink s p = (s1, p1, o1)" by (metis prod_cases3)
  from Cons k assms show ?thesis by (cases rule: retry_effect) auto
qed (use assms in \<open>simp add: retry_pending_with_def\<close>)

text \<open>A poll with no record pending: nothing usable arrived, or a record that is then submitted.\<close>

lemma fresh_poll:
  assumes "poll_with_sink from_slice (logged bk) sink s c = (s', c', r)"
    and "apply_rebalance_state c = (c0, r0)" "kc_pending c0 = []" "r0 = Inr ()"
  obtains (dropped) "s' = s" "kc_pending c' = []" "kl_commits (klog c') = kl_commits (klog c0)" "kc_config c' = kc_config c0"
      "List.map_filter (record_of from_slice (kc_config c0)) (kl_messages (klog c'))
       = List.map_filter (record_of from_slice (kc_config c0)) (kl_messages (klog c0))"
  | (received) m x c1 where "record_of from_slice (kc_config c0) m = Some x"
      "kl_messages (klog c1) = kl_messages (klog c0) @ [m]" "kc_pending c1 = [KafkaPendingRecord_new x]"
      "kl_commits (klog c1) = kl_commits (klog c0)" "kc_config c1 = kc_config c0"
      "retry_pending_with (logged bk) sink s c1 = (s', c', r)"
proof -
  obtain b l where bl: "kc_consumer c0 = (b, l)" by fastforce
  obtain b1 cs res where poll: "bk_poll bk (kcc_poll_timeout_ms (kc_config c0)) b = (b1, cs, res)" by (metis prod_cases3)
  note unfold = poll_with_sink_def assms(2-4) bl poll logged_def Let_def
  consider "res = None" | err where "res = Some (Inl err)" | m where "res = Some (Inr m)" "km_payload m = None"
    | m payload where "res = Some (Inr m)" "km_payload m = Some payload"
    by (metis option.exhaust sum.exhaust)
  then show ?thesis
  proof cases
    case (4 m payload)
    obtain cst d where d: "decode_event from_slice (kc_config c0) (km_topic m) (km_offset m) payload (kc_durga_compat c0) = (cst, d)"
      by fastforce
    then have d': "snd (decode_event from_slice (kc_config c0) (km_topic m) (km_offset m) payload DurgaCompatibilityState_default) = d"
      using decode_event_indep by (metis snd_conv)
    show ?thesis
    proof (cases d)
      case (Inl err)
      with assms(1) 4 d d' show ?thesis by (intro dropped) (auto simp: unfold map_filter_def record_of_def)
    next
      case (Inr event)
      show ?thesis
        by (rule received [of m], use assms(1) 4 d d' Inr in \<open>auto simp: unfold record_of_def\<close>)
    qed
  qed (use assms(1) in \<open>auto simp: unfold map_filter_def record_of_def intro!: dropped\<close>)
qed

subsection \<open>The contract of a sink\<close>

text \<open>
  A sink runs in an environment \<open>'e\<close> (what the disk and the workers do meanwhile). It keeps the record
  it was given; when it answers with an outcome, the outcome is for that record and the record has
  been \<open>admitted\<close>, and what was admitted stays so. \<open>inv\<close> is the invariant of its state together with
  the pending record, if there is one.
\<close>

locale kafka_sink =
  fixes sink :: "'e \<Rightarrow> 's sink"
    and good :: "'e \<Rightarrow> bool"
    and fine :: "KafkaProcessRecord \<Rightarrow> bool"
    and inv :: "'s \<Rightarrow> KafkaPendingRecord option \<Rightarrow> bool"
    and admitted :: "'s \<Rightarrow> KafkaProcessRecord \<Rightarrow> bool"
  assumes inv_new: "inv s None \<Longrightarrow> fine x \<Longrightarrow> inv s (Some (KafkaPendingRecord_new x))"
    and inv_done: "inv s (Some p) \<Longrightarrow> inv s None"
    and keeps: "inv s (Some p) \<Longrightarrow> good e \<Longrightarrow> sink e s p = (s', p', r) \<Longrightarrow>
      inv s' (Some p') \<and> kp_record p' = kp_record p"
    and admitted_mono: "inv s (Some p) \<Longrightarrow> good e \<Longrightarrow> sink e s p = (s', p', r) \<Longrightarrow> admitted s x \<Longrightarrow> admitted s' x"
    and outcome: "inv s (Some p) \<Longrightarrow> good e \<Longrightarrow> sink e s p = (s', p', Inr (Some out)) \<Longrightarrow>
      admitted s' (kp_record p) \<and> ko_topic_partition out = kr_topic_partition (kp_record p) \<and>
      ko_next_commit_offset out = next_commit_offset (kr_offset (kp_record p))"
begin

definition front :: "KafkaPendingRecord list \<Rightarrow> KafkaPendingRecord option" where
  "front ps = (case ps of [] \<Rightarrow> None | p # _ \<Rightarrow> Some p)"

text \<open>The invariant of the consumer: \<open>rs\<close> are the records received, the first of them committed.\<close>

definition consumer_inv ::
  "('b \<times> broker_log) KafkaProcessConsumer \<Rightarrow> 's \<Rightarrow> KafkaProcessRecord list \<Rightarrow> bool" where
  "consumer_inv c s rs \<longleftrightarrow> length (kc_pending c) \<le> 1 \<and> inv s (front (kc_pending c)) \<and>
     (\<exists>committed. rs = committed @ map kp_record (kc_pending c) \<and> acknowledged (klog c) = map commit_of committed \<and>
        list_all (admitted s) committed) \<and>
     (\<forall>(ps, ok) \<in> set (kl_commits (klog c)). \<exists>r \<in> set rs. ps = commit_of r \<and> admitted s r)"

lemma consumer_inv_fields:
  assumes "consumer_inv c s rs" "kc_pending c' = kc_pending c" "kl_commits (klog c') = kl_commits (klog c)"
  shows "consumer_inv c' s rs"
  using assms by (simp add: consumer_inv_def acknowledged_def)

lemma retry_keeps:
  assumes "consumer_inv c s rs" "good e" "retry_pending_with (logged bk) (sink e) s c = (s', c', r)"
  shows "consumer_inv c' s' rs \<and> kl_messages (klog c') = kl_messages (klog c) \<and> kc_config c' = kc_config c"
proof (cases "kc_pending c")
  case Nil
  with assms show ?thesis by (simp add: retry_pending_with_def)
next
  case (Cons p rest)
  with assms(1) have "rest = []" by (simp add: consumer_inv_def)
  note p = Cons [unfolded this]
  obtain s1 p1 o1 where k: "sink e s p = (s1, p1, o1)" by (metis prod_cases3)
  from assms(1) p have i: "inv s (Some p)" by (simp add: consumer_inv_def front_def)
  note kept = keeps [OF i assms(2) k] and mono = admitted_mono [OF i assms(2) k]
  obtain committed where rs: "rs = committed @ [kp_record p]" "acknowledged (klog c) = map commit_of committed"
    "list_all (admitted s) committed"
    using assms(1) p by (auto simp: consumer_inv_def)
  have old: "\<forall>(ps, ok) \<in> set (kl_commits (klog c)). \<exists>r \<in> set rs. ps = commit_of r \<and> admitted s1 r"
    using assms(1) mono unfolding consumer_inv_def by fast
  have adm: "list_all (admitted s1) committed" using rs(3) mono by (auto simp: list_all_iff)
  from p k assms(3) show ?thesis
  proof (cases rule: retry_effect)
    case waiting
    with rs old adm kept show ?thesis by (auto simp: consumer_inv_def front_def acknowledged_def)
  next
    case (refused out)
    with outcome [OF i assms(2)] k rs old adm kept show ?thesis
      by (auto simp: consumer_inv_def front_def acknowledged_def commit_of_def)
  next
    case (committed out)
    with outcome [OF i assms(2)] k rs old adm kept inv_done [of s1 p1] show ?thesis
      by (auto simp: consumer_inv_def front_def acknowledged_def commit_of_def)
  qed
qed

lemma poll_keeps:
  assumes "consumer_inv c s (List.map_filter (record_of from_slice cfg) (kl_messages (klog c)))" "kc_config c = cfg" "good e"
    and "poll_with_sink from_slice (logged bk) (sink e) s c = (s', c', r)"
    and "\<And>m x. m \<in> set (kl_messages (klog c')) \<Longrightarrow> record_of from_slice cfg m = Some x \<Longrightarrow> fine x"
  shows "consumer_inv c' s' (List.map_filter (record_of from_slice cfg) (kl_messages (klog c'))) \<and> kc_config c' = cfg"
proof -
  obtain c0 r0 where a: "apply_rebalance_state c = (c0, r0)" by fastforce
  note ak = apply_rebalance_keeps [OF a]
  then have inv0: "consumer_inv c0 s (List.map_filter (record_of from_slice cfg) (kl_messages (klog c0)))" "kc_config c0 = cfg"
    using assms(1,2) by (simp_all add: consumer_inv_def)
  show ?thesis
  proof (cases "(\<exists>err. r0 = Inl err) \<or> kc_pending c0 \<noteq> []")
    case True
    with assms(4) a have "s' = s \<and> c' = c0 \<or> retry_pending_with (logged bk) (sink e) s c0 = (s', c', r)"
      by (auto simp: poll_with_sink_def split: sum.splits)
    with inv0 retry_keeps [OF inv0(1) assms(3), of bk s' c' r] show ?thesis by auto
  next
    case False
    then have e: "kc_pending c0 = []" "r0 = Inr ()" by (cases r0; simp)+
    from assms(4) a e show ?thesis
    proof (cases rule: fresh_poll)
      case (dropped)
      with inv0 e show ?thesis by (auto simp: consumer_inv_def acknowledged_def)
    next
      case (received m x c1)
      let ?rs = "List.map_filter (record_of from_slice cfg) (kl_messages (klog c1))"
      have "record_of from_slice cfg m = Some x" using received(1) inv0(2) by simp
      moreover from this have rs: "?rs = List.map_filter (record_of from_slice cfg) (kl_messages (klog c0)) @ [x]"
        using received(2) by (simp add: map_filter_def)
      ultimately have "fine x \<Longrightarrow> consumer_inv c1 s ?rs"
        using inv0(1) e(1) received(3,4) inv_new [of s x]
        by (auto simp: consumer_inv_def acknowledged_def front_def KafkaPendingRecord_new_def)
      moreover have k: "fine x \<Longrightarrow> consumer_inv c1 s ?rs \<Longrightarrow> ?thesis"
        using retry_keeps [OF _ assms(3) received(6)] received(5) inv0(2) by auto
      moreover have "kl_messages (klog c') = kl_messages (klog c1)"
        using retry_messages [OF received(6)] .
      then have "fine x" using assms(5) [OF _ \<open>record_of from_slice cfg m = Some x\<close>] received(2) by simp
      ultimately show ?thesis by blast
    qed
  qed
qed

lemma start_keeps:
  assumes "KafkaProcessConsumer_start (logged bk) cfg = Inr c" "inv s None"
  shows "consumer_inv c s [] \<and> kc_config c = cfg \<and> kl_messages (klog c) = []"
proof -
  from assms(1) have "kc_pending c = [] \<and> klog c = \<lparr>kl_messages = [], kl_commits = []\<rparr> \<and> kc_config c = cfg"
    by (auto simp: KafkaProcessConsumer_start_def logged_def map_err_def split: prod.splits sum.splits)
  with assms(2) show ?thesis by (simp add: consumer_inv_def front_def acknowledged_def)
qed

end

subsection \<open>The sinks\<close>

lemma journal_holds_unique:
  assumes "journal_holds fs j es" "journal_holds fs j es'"
  shows "es = es'"
proof -
  from replay_journal [OF assms(1)] replay_journal [OF assms(2)] have "journaled es = journaled es'" by simp
  then show ?thesis by (metis map_je_event_journaled)
qed

lemma append_journal_untorn:
  assumes "write_budget io = None"
  shows "snd (snd (append_journal io fs journal e)) \<noteq> Inl (JeSegment (Io WriteError))"
  using assms append_record_unlimited [of io "encode_pipeline_event e" fs]
  by (auto simp: append_journal_def append_durable_def SegmentWriter_sync_def append_record_def
      split: option.splits sum.splits prod.splits if_splits)

lemma try_submit_untorn:
  assumes "try_submit_kafka_pending_record mb io fs rt journal p = (fs', rt', journal', p', r)" "write_budget io = None"
  shows "\<not> torn r"
proof -
  obtain fs1 j1 a where a: "append_journal io fs journal (kr_event (kp_record p)) = (fs1, j1, a)" by (metis prod_cases3)
  with append_journal_untorn [OF assms(2), of fs journal "kr_event (kp_record p)"] have "a \<noteq> Inl (JeSegment (Io WriteError))" by simp
  with assms(1) a show ?thesis
    by (auto simp: try_submit_kafka_pending_record_def Let_def split: if_splits prod.splits sum.splits)
qed

text \<open>What both sinks keep: the journal holds the events, those of the history before among them.\<close>

definition ingest_inv :: "PipelineEvent list \<Rightarrow> fs \<times> ProcessEventJournal option \<Rightarrow> KafkaPendingRecord option \<Rightarrow> bool" where
  "ingest_inv es0 s p \<longleftrightarrow> (case s of (fs, journal) \<Rightarrow> \<exists>es.
     (\<exists>j. journal = Some j \<and> journal_holds fs j (es0 @ es)) \<and>
     (\<forall>q. p = Some q \<longrightarrow> event_rust (kr_event (kp_record q)) \<and> pending_tracked fs journal q (es0 @ es)))"

definition in_journal :: "fs \<times> ProcessEventJournal option \<Rightarrow> KafkaProcessRecord \<Rightarrow> bool" where
  "in_journal s r \<longleftrightarrow> (case s of (fs, journal) \<Rightarrow>
     \<exists>j es. journal = Some j \<and> journal_holds fs j es \<and> kr_event r \<in> set es)"

lemma in_journalI: "journal_holds fs j es \<Longrightarrow> kr_event r \<in> set es \<Longrightarrow> in_journal (fs, Some j) r"
  by (auto simp: in_journal_def)

lemma in_journal_iff: "journal_holds fs j es \<Longrightarrow> in_journal (fs, Some j) r \<longleftrightarrow> kr_event r \<in> set es"
  unfolding in_journal_def using journal_holds_unique by auto

lemma ingest_inv_pending:
  "ingest_inv es0 s None \<Longrightarrow> event_rust (kr_event x) \<Longrightarrow> ingest_inv es0 s (Some (KafkaPendingRecord_new x))"
  "ingest_inv es0 s (Some p) \<Longrightarrow> ingest_inv es0 s None"
  by (auto simp: ingest_inv_def pending_tracked_def KafkaPendingRecord_new_def)

lemma ingest_inv_submit:
  assumes "ingest_inv es0 (fs, journal) (Some p)" "write_budget io = None"
    and "try_submit_kafka_pending_record mb io fs rt journal p = (fs', rt', journal', p', r)"
  shows "ingest_inv es0 (fs', journal') (Some p')" "kp_record p' = kp_record p"
    "in_journal (fs, journal) x \<Longrightarrow> in_journal (fs', journal') x"
    "r = Inr (Some out) \<Longrightarrow> in_journal (fs', journal') (kp_record p) \<and>
      ko_topic_partition out = kr_topic_partition (kp_record p) \<and>
      ko_next_commit_offset out = next_commit_offset (kr_offset (kp_record p))"
proof -
  obtain es where es: "pending_tracked fs journal p (es0 @ es)" and e: "event_rust (kr_event (kp_record p))"
    using assms(1) by (auto simp: ingest_inv_def)
  note step = try_submit_tracked [OF assms(3) es e try_submit_untorn [OF assms(3,2)]]
  then obtain es1 where es1: "pending_tracked fs' journal' p' (es0 @ es @ es1)" by auto
  then show "ingest_inv es0 (fs', journal') (Some p')" "kp_record p' = kp_record p"
    using step e by (auto simp: ingest_inv_def pending_tracked_def)
  show "in_journal (fs', journal') x" if "in_journal (fs, journal) x"
    using that es es1 journal_holds_unique [of fs] by (fastforce simp: in_journal_def pending_tracked_def)
  assume "r = Inr (Some out)"
  with step obtain off where off: "kp_journal_offset p' = Some off"
    "ko_topic_partition out = kr_topic_partition (kp_record p)"
    "ko_next_commit_offset out = next_commit_offset (kr_offset (kp_record p))" by auto
  with es1 step have "\<lparr>je_offset = off, je_event = kr_event (kp_record p)\<rparr> \<in> set (journaled (es0 @ es @ es1))"
    by (simp add: pending_tracked_def)
  then have "je_event \<lparr>je_offset = off, je_event = kr_event (kp_record p)\<rparr> \<in> je_event ` set (journaled (es0 @ es @ es1))"
    by (rule imageI)
  then have "kr_event (kp_record p) \<in> set (es0 @ es @ es1)"
    by (metis list.set_map map_je_event_journaled JournaledPipelineEvent.select_convs(2))
  with es1 off show "in_journal (fs', journal') (kp_record p) \<and>
      ko_topic_partition out = kr_topic_partition (kp_record p) \<and>
      ko_next_commit_offset out = next_commit_offset (kr_offset (kp_record p))"
    by (auto simp del: set_append simp: pending_tracked_def intro: in_journalI)
qed

abbreviation poll_view :: "'m ingest_state \<Rightarrow> fs \<times> ProcessEventJournal option" where
  "poll_view s \<equiv> (fst s, snd (snd s))"

interpretation once: kafka_sink "poll_sink mb" "\<lambda>io. write_budget io = None" "\<lambda>r. event_rust (kr_event r)"
  "\<lambda>s. ingest_inv es0 (poll_view s)" "\<lambda>s. in_journal (poll_view s)" for mb es0
  by unfold_locales
    (auto simp: poll_sink_def ingest_inv_pending split: prod.splits dest: ingest_inv_submit intro: ingest_inv_pending(2))

text \<open>\<open>poll_with_sink\<close> on the service: the sink of \<open>VannakService::submit_kafka_record\<close>.\<close>

definition service_sink :: "'m mailbox_ops \<Rightarrow> disk_io \<Rightarrow> (fs \<times> ('m, 'p) VannakService) sink" where
  "service_sink mb io s pending =
     (case submit_kafka_record mb io (fst s) pending (snd s) of (fs, sv, pending, r) \<Rightarrow> ((fs, sv), pending, r))"

abbreviation service_view :: "fs \<times> ('m, 'p) VannakService \<Rightarrow> fs \<times> ProcessEventJournal option" where
  "service_view s \<equiv> (fst s, vs_process_event_journal (snd s))"

interpretation service: kafka_sink "service_sink mb" "\<lambda>io. write_budget io = None" "\<lambda>r. event_rust (kr_event r)"
  "\<lambda>s. ingest_inv es0 (service_view s)" "\<lambda>s. in_journal (service_view s)" for mb es0
  by unfold_locales
    (auto simp: service_sink_def submit_kafka_record_def ingest_inv_pending split: prod.splits ProcessIndex.splits
      dest: ingest_inv_submit intro: ingest_inv_pending(2))

text \<open>
  Whatever the disk does, the sink answers for the record it was given: the contract with nothing said
  about the journal.
\<close>

lemma service_sink_record:
  assumes "service_sink mb io s p = (s', p', r)"
  shows "kp_record p' = kp_record p"
    "r = Inr (Some out) \<Longrightarrow> ko_topic_partition out = kr_topic_partition (kp_record p) \<and>
      ko_next_commit_offset out = next_commit_offset (kr_offset (kp_record p))"
  using assms
  by (auto simp: service_sink_def submit_kafka_record_def try_submit_kafka_pending_record_def Let_def
      split: prod.splits ProcessIndex.splits sum.splits if_splits)

interpretation any_disk: kafka_sink "service_sink mb" "\<lambda>_. True" "\<lambda>_. True" "\<lambda>_ _. True" "\<lambda>_ _. True" for mb
  by unfold_locales (auto dest: service_sink_record)

subsection \<open>Histories of a consumer\<close>

text \<open>
  A consumer polls into a service; between polls the workers change the index. \<open>es0\<close> is what the
  journal held when the consumer started; \<open>clipped\<close> says whether the disk could cut a write short in one of
  the polls, so that an append of the journal may have failed part-way.
\<close>

inductive consumer_run ::
  "(bytes \<Rightarrow> string + DurgaProcessEventJson) \<Rightarrow> 'b broker \<Rightarrow> 'm mailbox_ops \<Rightarrow> KafkaProcessConsumerConfig \<Rightarrow>
   PipelineEvent list \<Rightarrow> bool \<Rightarrow> fs \<Rightarrow> ('m, 'p) VannakService \<Rightarrow> ('b \<times> broker_log) KafkaProcessConsumer \<Rightarrow> bool"
  for from_slice bk mb cfg es0 where
  cr_start: "KafkaProcessConsumer_start (logged bk) cfg = Inr c \<Longrightarrow> vs_process_event_journal sv = Some j \<Longrightarrow>
     journal_holds fs j es0 \<Longrightarrow> consumer_run from_slice bk mb cfg es0 False fs sv c"
| cr_poll: "consumer_run from_slice bk mb cfg es0 clipped fs sv c \<Longrightarrow>
     poll_with_sink from_slice (logged bk) (service_sink mb io) (fs, sv) c = ((fs', sv'), c', r) \<Longrightarrow>
     (\<And>m x. m \<in> set (kl_messages (klog c')) \<Longrightarrow> record_of from_slice cfg m = Some x \<Longrightarrow> event_rust (kr_event x)) \<Longrightarrow>
     consumer_run from_slice bk mb cfg es0 (clipped \<or> write_budget io \<noteq> None) fs' sv' c'"
| cr_worker: "consumer_run from_slice bk mb cfg es0 clipped fs sv c \<Longrightarrow>
     consumer_run from_slice bk mb cfg es0 clipped fs (sv\<lparr>vs_hot_index := x\<rparr>) c"

lemma consumer_run_inv:
  assumes "consumer_run from_slice bk mb cfg es0 clipped fs sv c"
  defines "rs \<equiv> List.map_filter (record_of from_slice cfg) (kl_messages (klog c))"
  shows "any_disk.consumer_inv c (fs, sv) rs" "\<not> clipped \<Longrightarrow> service.consumer_inv es0 c (fs, sv) rs" "kc_config c = cfg"
  using assms(1) unfolding rs_def
proof (induction rule: consumer_run.induct)
  case (cr_start c sv j fs)
  have "ingest_inv es0 (fs, vs_process_event_journal sv) None" using cr_start by (auto simp: ingest_inv_def intro!: exI [of _ "[]"])
  with service.start_keeps [OF cr_start(1), where s = "(fs, sv)" and ?es0.0 = es0] any_disk.start_keeps [OF cr_start(1), of "(fs, sv)"]
  show "any_disk.consumer_inv c (fs, sv) (List.map_filter (record_of from_slice cfg) (kl_messages (klog c)))"
    "service.consumer_inv es0 c (fs, sv) (List.map_filter (record_of from_slice cfg) (kl_messages (klog c)))" "kc_config c = cfg"
    by (simp_all add: map_filter_def)
next
  case (cr_poll clipped fs sv c io fs' sv' c' r)
  note poll = cr_poll.hyps(2) and rust = cr_poll.hyps(3)
  show "any_disk.consumer_inv c' (fs', sv') (List.map_filter (record_of from_slice cfg) (kl_messages (klog c')))" "kc_config c' = cfg"
    using any_disk.poll_keeps [OF cr_poll.IH(1,3) _ poll] by simp_all
  assume "\<not> (clipped \<or> write_budget io \<noteq> None)"
  then have "\<not> clipped" "write_budget io = None" by simp_all
  with service.poll_keeps [OF cr_poll.IH(2) cr_poll.IH(3) _ poll] rust
  show "service.consumer_inv es0 c' (fs', sv') (List.map_filter (record_of from_slice cfg) (kl_messages (klog c')))" by blast
next
  case (cr_worker clipped fs sv c x)
  then show "any_disk.consumer_inv c (fs, sv\<lparr>vs_hot_index := x\<rparr>) (List.map_filter (record_of from_slice cfg) (kl_messages (klog c)))"
    "kc_config c = cfg"
    "\<not> clipped \<Longrightarrow> service.consumer_inv es0 c (fs, sv\<lparr>vs_hot_index := x\<rparr>) (List.map_filter (record_of from_slice cfg) (kl_messages (klog c)))"
    by (simp_all add: any_disk.consumer_inv_def service.consumer_inv_def)
qed

text \<open>
  (C16) Offsets are committed after admission, once and in order. Whatever the broker answers (errors
  on any call, refused commits, rebalances, messages without payload or that do not decode), whatever the
  disk does, and however often the shard mailbox was full, the decodable messages the consumer received
  are, in order, the records whose commit was acknowledged followed by at most one pending record; each
  acknowledged commit names its record's partition and the offset after it, and every commit that was
  issued at all is for a received record. As long as no write to the disk was cut short (syncs may fail),
  the service's journal holds the event of every record for which a commit was issued, and extends what
  it held at the start. After a write that was cut short this last part can fail: the consumer retries
  the append behind the torn bytes of the segment (see the torn writes in \<open>Storage\<close>). The decoded events
  are values Rust can hold.
\<close>

theorem commits_follow_journal:
  assumes "consumer_run from_slice bk mb cfg es0 clipped fs sv c"
  shows "\<exists>committed.
     List.map_filter (record_of from_slice cfg) (kl_messages (klog c)) = committed @ map kp_record (kc_pending c) \<and>
     length (kc_pending c) \<le> 1 \<and>
     acknowledged (klog c) = map commit_of committed \<and>
     (\<forall>(ps, ok) \<in> set (kl_commits (klog c)). \<exists>r \<in> set (committed @ map kp_record (kc_pending c)). ps = commit_of r) \<and>
     (\<not> clipped \<longrightarrow> (\<exists>j es. vs_process_event_journal sv = Some j \<and> journal_holds fs j (es0 @ es) \<and>
        (\<forall>(ps, ok) \<in> set (kl_commits (klog c)). \<exists>r \<in> set (committed @ map kp_record (kc_pending c)).
           ps = commit_of r \<and> kr_event r \<in> set (es0 @ es))))"
proof -
  note any = consumer_run_inv(1) [OF assms, unfolded any_disk.consumer_inv_def]
  then obtain committed where rs: "List.map_filter (record_of from_slice cfg) (kl_messages (klog c)) = committed @ map kp_record (kc_pending c)"
    "acknowledged (klog c) = map commit_of committed" by auto
  have "\<exists>j es. vs_process_event_journal sv = Some j \<and> journal_holds fs j (es0 @ es) \<and>
      (\<forall>(ps, ok) \<in> set (kl_commits (klog c)). \<exists>r \<in> set (committed @ map kp_record (kc_pending c)).
         ps = commit_of r \<and> kr_event r \<in> set (es0 @ es))" if "\<not> clipped"
  proof -
    note inv = consumer_run_inv(2) [OF assms that, unfolded service.consumer_inv_def]
    then obtain j es where j: "vs_process_event_journal sv = Some j" "journal_holds fs j (es0 @ es)" by (auto simp: ingest_inv_def)
    then have "in_journal (fs, vs_process_event_journal sv) r \<longleftrightarrow> kr_event r \<in> set (es0 @ es)" for r by (simp add: in_journal_iff)
    with inv rs j show ?thesis by auto
  qed
  with any rs show ?thesis by (intro exI [of _ committed]) auto
qed

definition list_broker :: "KafkaMessage list \<Rightarrow> KafkaMessage list broker" where
  "list_broker ms =
     \<lparr>bk_create = \<lambda>_. Inr ms, bk_subscribe = \<lambda>_ b. (b, Inr ()),
      bk_poll = \<lambda>_ b. (case b of [] \<Rightarrow> ([], [], None) | m # b \<Rightarrow> (b, [], Some (Inr m))),
      bk_pause = \<lambda>_ b. (b, Inr ()), bk_resume = \<lambda>_ b. (b, Inr ()), bk_commit = \<lambda>_ b. (b, Inr ()),
      bk_refuses_offset = \<lambda>_ _ _. None\<rparr>"

definition sample_message :: KafkaMessage where
  "sample_message = \<lparr>km_topic = ''process-events-demo'', km_partition = 3, km_offset = 41,
     km_payload = Some (encode_pipeline_event codec_sample)\<rparr>"

definition sample_consumer_config :: KafkaProcessConsumerConfig where
  "sample_consumer_config = KafkaProcessConsumerConfig_new ''localhost:9092'' ''vannak'' [''process-events-demo'']"

lemma sample_config_valid: "config_validate sample_consumer_config = Ok ()"
  by code_simp

lemma codec_sample_journalable:
  "event_rust codec_sample" "PipelineEvent_validate codec_sample = Inr ()"
  "length (encode_pipeline_event codec_sample) \<le> MAX_RECORD_LEN"
  "decode_pipeline_event (encode_pipeline_event codec_sample) = Inr codec_sample"
proof -
  show r: "event_rust codec_sample" "length (encode_pipeline_event codec_sample) \<le> MAX_RECORD_LEN"
    using codec_sample_ok
    by (simp_all add: event_encodable_strings event_rust_def str_ok_def list_all_iff MAX_RECORD_LEN_def)
  have "event_valid codec_sample" by (simp add: codec_sample_def event_builder_defs event_valid_def)
  then show "PipelineEvent_validate codec_sample = Inr ()" by (simp add: validate_iff)
  from r show "decode_pipeline_event (encode_pipeline_event codec_sample) = Inr codec_sample"
    by (rule event_log.decode_encode)
qed

lemma commits_follow_journal_witness:
  "\<exists>fs (sv :: (nat \<times> PipelineEvent list, unit) VannakService) c.
     consumer_run (\<lambda>_. Inl ''invalid'') (list_broker [sample_message]) list_mailbox sample_consumer_config [] False fs sv c \<and>
     acknowledged (klog c) = [[(''process-events-demo'', 3, Some 42)]] \<and> kc_pending c = [] \<and>
     (\<exists>j es. vs_process_event_journal sv = Some j \<and> journal_holds fs j es \<and> codec_sample \<in> set es)"
proof -
  let ?io = "\<lparr>write_budget = None, sync_fails = False\<rparr>" and ?bk = "list_broker [sample_message]"
  let ?decode = "\<lambda>_ :: bytes. Inl ''invalid'' :: string + DurgaProcessEventJson"
  obtain fs j where c: "ProcessEventJournal_create ?io Map.empty ''j'' ''s'' ''n'' = (fs, Inr j)"
    by (simp add: ProcessEventJournal_create_def SegmentWriter_create_def write_all_def)
  define sv :: "(nat \<times> PipelineEvent list, unit) VannakService" where
    "sv = undefined\<lparr>vs_hot_index := PxSitas sample_runtime, vs_process_event_journal := Some j\<rparr>"
  obtain fs1 j1 off where a: "append_durable ?io fs j codec_sample = (fs1, j1, Inr off)"
    using codec_sample_journalable append_record_unlimited [of ?io "encode_pipeline_event codec_sample" fs "pj_writer j"]
    by (simp add: append_durable_def SegmentWriter_sync_def)
  obtain rt1 queued where q: "sitas_try_submit list_mailbox codec_sample sample_runtime = (rt1, Inr queued)"
    using sample_try_submit by (metis prod.collapse)
  obtain c0 where c0: "KafkaProcessConsumer_start (logged ?bk) sample_consumer_config = Inr c0"
    and f0: "kc_consumer c0 = ([sample_message], \<lparr>kl_messages = [], kl_commits = []\<rparr>)" "kc_pending c0 = []"
      "kc_config c0 = sample_consumer_config" "kc_rebalance_state c0 = KafkaRebalanceState_default" "kc_paused c0 = {||}"
    by (simp add: KafkaProcessConsumer_start_def sample_config_valid logged_def list_broker_def)
  have start: "consumer_run ?decode ?bk list_mailbox sample_consumer_config [] False fs sv c0"
    by (rule cr_start [OF c0 _ journal_holds_create [OF c]]) (simp add: sv_def)
  have rec: "record_of ?decode sample_consumer_config sample_message = Some sample_kafka_record"
    by (simp add: record_of_def sample_message_def decode_event_def sample_consumer_config_def
        KafkaProcessConsumerConfig_new_def codec_sample_journalable sample_kafka_record_def)
  obtain sv1 c1 r where p: "poll_with_sink ?decode (logged ?bk) (service_sink list_mailbox ?io) (fs, sv) c0 = ((fs1, sv1), c1, r)"
    and c1: "kl_messages (klog c1) = [sample_message]" "kc_pending c1 = []"
    using a q f0
    by (simp add: poll_with_sink_def apply_rebalance_state_def take_unhandled_revoked_def KafkaRebalanceState_default_def
        logged_def list_broker_def Let_def sample_message_def decode_event_def sample_consumer_config_def
        KafkaProcessConsumerConfig_new_def codec_sample_journalable retry_pending_with_def service_sink_def
        submit_kafka_record_def sv_def try_submit_kafka_pending_record_def append_journal_def KafkaPendingRecord_new_def
        resume_partition_def commit_offset_def topic_partition_list_def)
  have run: "consumer_run ?decode ?bk list_mailbox sample_consumer_config [] False fs1 sv1 c1"
  proof -
    have "event_rust (kr_event x)" if "m \<in> set (kl_messages (klog c1))" "record_of ?decode sample_consumer_config m = Some x" for m x
      using that c1 rec codec_sample_journalable(1) by (auto simp: sample_kafka_record_def)
    from cr_poll [OF start p this] show ?thesis by simp
  qed
  from commits_follow_journal [OF run] obtain committed j es where h: "vs_process_event_journal sv1 = Some j" "journal_holds fs1 j es"
    "List.map_filter (record_of ?decode sample_consumer_config) [sample_message] = committed"
    "acknowledged (klog c1) = map commit_of committed"
    "\<forall>(ps, ok) \<in> set (kl_commits (klog c1)). \<exists>r \<in> set committed. ps = commit_of r \<and> kr_event r \<in> set es"
    unfolding c1 by auto
  from h(3) have "committed = [sample_kafka_record]" by (simp add: map_filter_def rec)
  moreover from this h(4) have "kl_commits (klog c1) \<noteq> []" by (auto simp: acknowledged_def)
  ultimately have "codec_sample \<in> set es" using h(5) by (cases "kl_commits (klog c1)") (auto simp: sample_kafka_record_def)
  with run c1 h \<open>committed = _\<close> show ?thesis
    by (intro exI [of _ fs1] exI [of _ sv1] exI [of _ c1])
      (auto simp: commit_of_def sample_kafka_record_def next_commit_offset_def i64_max_def)
qed

end
