(* ===== verification/Rebalance.thy ===== *)
theory Rebalance
  imports Durable_Outbox
begin

text \<open>
  Rebalancing after a placement change (\<open>src/daemon.rs\<close>): \<open>detect_placement_change\<close> compares two
  placement maps at the interval starts of both, \<open>rebalance_after_placement_change\<close> replays the outbox
  segment for each moved range, and a step of \<open>run_rebalance_monitor\<close> watches the control state. The
  detected ranges are exactly the shards that moved, in order and grouped as far as possible, and a
  rebalance hands every stored payload of a moved shard to the writer.

  The monitor sleeps between steps and stops at the stop token: a run is the list of control states it
  found, one per step.
\<close>

subsection \<open>Detection\<close>

type_synonym moved_range = "DataIndividualShardId \<times> DataIndividualShardId \<times> IptoInstanceId \<times> IptoInstanceId"

record PlacementChange =
  pc_from_epoch :: PlacementEpoch
  pc_to_epoch :: PlacementEpoch
  pc_moved_ranges :: "moved_range list"

definition change_is_empty :: "PlacementChange \<Rightarrow> bool" where
  "change_is_empty c \<longleftrightarrow> pc_moved_ranges c = []"

text \<open>The body of the loop for a start whose target changed: extend the last range or push one.\<close>

definition push_range :: "DataIndividualShardId \<Rightarrow> DataIndividualShardId \<Rightarrow> IptoInstanceId \<Rightarrow> IptoInstanceId \<Rightarrow>
   moved_range list \<Rightarrow> moved_range list" where
  "push_range start stop from to moved =
     (if moved \<noteq> [] then
        case last moved of (previous_start, previous_end, previous_from, previous_to) \<Rightarrow>
          if u64_checked_add previous_end 1 = Some start \<and> previous_from = from \<and> previous_to = to
          then butlast moved @ [(previous_start, stop, previous_from, previous_to)]
          else moved @ [(start, stop, from, to)]
      else moved @ [(start, stop, from, to)])"

fun detect_ranges ::
  "IptoPlacementMap \<Rightarrow> IptoPlacementMap \<Rightarrow> u64 list \<Rightarrow> moved_range list \<Rightarrow> moved_range list" where
  "detect_ranges from_map to_map [] moved = moved"
| "detect_ranges from_map to_map (start # rest) moved =
     (let stop = (case rest of [] \<Rightarrow> 2 ^ 64 - 1 | next # _ \<Rightarrow> next - 1) in
      case (map_resolve from_map start, map_resolve to_map start) of
        (Some from, Some to) \<Rightarrow>
          detect_ranges from_map to_map rest (if from = to then moved else push_range start stop from to moved)
      | _ \<Rightarrow> detect_ranges from_map to_map rest moved)"

definition detect_placement_change :: "IptoPlacementMap \<Rightarrow> IptoPlacementMap \<Rightarrow> PlacementChange" where
  "detect_placement_change from_map to_map =
     (let boundaries = sorted_list_of_fset (interval_starts from_map |\<union>| interval_starts to_map)
      in \<lparr>pc_from_epoch = pm_epoch from_map, pc_to_epoch = pm_epoch to_map,
          pc_moved_ranges = detect_ranges from_map to_map boundaries []\<rparr>)"

subsection \<open>Rebalancing\<close>

record RebalanceOutcome =
  ro_placement_change :: PlacementChange
  ro_drain_summary :: MetadataOutboxRebalanceSummary

fun rebalance_ranges ::
  "fs \<Rightarrow> path \<Rightarrow> PlacementChange \<Rightarrow> 'w ipto_write \<Rightarrow> nat \<Rightarrow> moved_range list \<Rightarrow> 'w \<Rightarrow> RebalanceOutcome list \<Rightarrow>
     'w \<times> (MetadataOutboxStorageError + RebalanceOutcome list)" where
  "rebalance_ranges fs p change write max_attempts [] w outcomes = (w, Ok outcomes)"
| "rebalance_ranges fs p change write max_attempts ((start, stop, _, _) # ranges) w outcomes =
     (case rebalance_shard_range_to fs p start stop write w max_attempts of
        (w, Inl e) \<Rightarrow> (w, Err e)
      | (w, Inr summary) \<Rightarrow>
          rebalance_ranges fs p change write max_attempts ranges w
            (outcomes @ [\<lparr>ro_placement_change = change, ro_drain_summary = summary\<rparr>]))"

definition rebalance_after_placement_change ::
  "fs \<Rightarrow> path \<Rightarrow> PlacementChange \<Rightarrow> 'w ipto_write \<Rightarrow> nat \<Rightarrow> 'w \<Rightarrow>
     'w \<times> (MetadataOutboxStorageError + RebalanceOutcome list)" where
  "rebalance_after_placement_change fs p change write max_attempts w =
     rebalance_ranges fs p change write max_attempts (pc_moved_ranges change) w []"

subsection \<open>The monitor\<close>

record RebalanceMonitorConfig =
  rmc_check_interval_ms :: nat
  rmc_max_drain_attempts :: nat
  rmc_outbox_segment_path :: path

definition RebalanceMonitorConfig_default :: RebalanceMonitorConfig where
  "RebalanceMonitorConfig_default =
     \<lparr>rmc_check_interval_ms = 30000, rmc_max_drain_attempts = 100, rmc_outbox_segment_path = ''outbox.seg''\<rparr>"

record monitor =
  mo_last_epoch :: "PlacementEpoch option"
  mo_outcomes :: "RebalanceOutcome list"

definition monitor_step ::
  "'w ipto_write \<Rightarrow> RebalanceMonitorConfig \<Rightarrow> fs \<Rightarrow> ClusterControlState \<Rightarrow> 'w \<times> monitor \<Rightarrow> 'w \<times> monitor" where
  "monitor_step write config fs st wm =
     (case wm of (w, m) \<Rightarrow>
        (case placement_map st of
           None \<Rightarrow> (w, m)
         | Some pm \<Rightarrow>
             (case mo_last_epoch m of
                None \<Rightarrow> (w, m\<lparr>mo_last_epoch := Some (pm_epoch pm)\<rparr>)
              | Some prev \<Rightarrow>
                  if prev \<noteq> pm_epoch pm then
                    (case map_option snd (find (\<lambda>(epoch, _). epoch = prev) (placement_map_history st)) of
                       None \<Rightarrow> (w, m\<lparr>mo_last_epoch := Some (pm_epoch pm)\<rparr>)
                     | Some prev_map \<Rightarrow>
                         let change = detect_placement_change prev_map pm in
                         if change_is_empty change then (w, m\<lparr>mo_last_epoch := Some (pm_epoch pm)\<rparr>)
                         else
                           (case rebalance_after_placement_change fs (rmc_outbox_segment_path config) change write
                                   (rmc_max_drain_attempts config) w of
                              (w, Inr result) \<Rightarrow>
                                (w, m\<lparr>mo_outcomes := mo_outcomes m @ result, mo_last_epoch := Some (pm_epoch pm)\<rparr>)
                            | (w, Inl _) \<Rightarrow> (w, m\<lparr>mo_last_epoch := Some (pm_epoch pm)\<rparr>)))
                  else (w, m))))"

definition run_rebalance_monitor ::
  "'w ipto_write \<Rightarrow> RebalanceMonitorConfig \<Rightarrow> (fs \<times> ClusterControlState) list \<Rightarrow> 'w \<Rightarrow> 'w \<times> RebalanceOutcome list" where
  "run_rebalance_monitor write config observed w =
     (case fold (\<lambda>(fs, st). monitor_step write config fs st) observed (w, \<lparr>mo_last_epoch = None, mo_outcomes = []\<rparr>) of
        (w, m) \<Rightarrow> (w, mo_outcomes m))"

subsection \<open>What the ranges cover\<close>

definition moves :: "IptoPlacementMap \<Rightarrow> IptoPlacementMap \<Rightarrow> DataIndividualShardId \<Rightarrow> IptoInstanceId \<Rightarrow> IptoInstanceId \<Rightarrow> bool" where
  "moves from_map to_map s f t \<longleftrightarrow> map_resolve from_map s = Some f \<and> map_resolve to_map s = Some t \<and> f \<noteq> t"

definition covered :: "moved_range list \<Rightarrow> DataIndividualShardId \<Rightarrow> IptoInstanceId \<Rightarrow> IptoInstanceId \<Rightarrow> bool" where
  "covered rs s f t \<longleftrightarrow> (\<exists>a b. (a, b, f, t) \<in> set rs \<and> a \<le> s \<and> s \<le> b)"

text \<open>Ascending, disjoint, and neighbours that touch differ in a target.\<close>

fun separate :: "moved_range \<Rightarrow> moved_range \<Rightarrow> bool" where
  "separate (a, b, f, t) (a', b', f', t') \<longleftrightarrow> b < a' \<and> \<not> (b + 1 = a' \<and> f = f' \<and> t = t')"

definition ranges_wf :: "moved_range list \<Rightarrow> bool" where
  "ranges_wf rs \<longleftrightarrow> (\<forall>(a, b, f, t) \<in> set rs. a \<le> b) \<and> successively separate rs"

lemma u64_le_pred:
  assumes "(x :: u64) < y"
  shows "s \<le> y - 1 \<longleftrightarrow> s < y"
proof -
  have "0 < unat y" using assms by (simp add: word_less_nat_alt)
  moreover from this have "unat (y - 1) = unat y - 1" by (intro unat_minus_one) auto
  ultimately show ?thesis by (simp add: word_le_nat_alt word_less_nat_alt) linarith
qed

lemma u64_le_max: "(x :: u64) \<le> 2 ^ 64 - 1"
proof -
  have "(2 ^ 64 - 1 :: u64) = - 1" by simp
  then show ?thesis by (simp only: word_order.extremum)
qed

lemma push_range_effect:
  assumes "ranges_wf moved" "start \<le> stop" "\<forall>(a, b, f, t) \<in> set moved. b < start"
  shows "ranges_wf (push_range start stop from to moved) \<and>
    (\<forall>(a, b, f, t) \<in> set (push_range start stop from to moved). b \<le> stop) \<and>
    (covered (push_range start stop from to moved) s f t \<longleftrightarrow>
       covered moved s f t \<or> f = from \<and> t = to \<and> start \<le> s \<and> s \<le> stop)"
proof (cases moved rule: rev_cases)
  case Nil
  with assms(2) show ?thesis by (auto simp: push_range_def ranges_wf_def covered_def)
next
  case (snoc ms r)
  obtain a b pf pt where r: "r = (a, b, pf, pt)" by (metis prod_cases4)
  have b: "a \<le> b" "b < start" using assms(1,3) snoc r by (auto simp: ranges_wf_def)
  note add = u64_succ_below(1) [OF b(2)]
  have old: "\<forall>(a, b, f, t) \<in> set ms. b \<le> stop" using assms(2,3) snoc by fastforce
  show ?thesis
  proof (cases "b + 1 = start \<and> pf = from \<and> pt = to")
    case True
    then have p: "push_range start stop from to moved = ms @ [(a, stop, from, to)]"
      using snoc r add by (auto simp: push_range_def)
    have "s \<le> b \<or> start \<le> s" for s using True b(2) u64_succ_below(2) [OF b(2), of s] by (auto simp: not_le not_less)
    then have "a \<le> s \<and> s \<le> stop \<longleftrightarrow> a \<le> s \<and> s \<le> b \<or> start \<le> s \<and> s \<le> stop" for s
      using b assms(2) by (meson order.trans order.strict_implies_order)
    with snoc r True have cov: "covered (ms @ [(a, stop, from, to)]) s f t \<longleftrightarrow> covered moved s f t \<or> f = from \<and> t = to \<and> start \<le> s \<and> s \<le> stop"
      by (auto simp: covered_def)
    have "ranges_wf (ms @ [(a, stop, from, to)])"
      using assms(1,2) b snoc r True
      by (cases "last ms") (auto simp: ranges_wf_def successively_append_iff)
    with p cov old show ?thesis by auto
  next
    case False
    then have p: "push_range start stop from to moved = moved @ [(start, stop, from, to)]"
      using snoc r add by (auto simp: push_range_def)
    have "ranges_wf (moved @ [(start, stop, from, to)])"
      using assms(1,2) False b snoc r by (auto simp: ranges_wf_def successively_append_iff)
    with p old b assms(2) snoc r show ?thesis by (auto simp: covered_def)
  qed
qed

lemma detect_ranges_effect:
  assumes "sorted_wrt (<) bs" "\<And>x y. x \<in> set bs \<Longrightarrow> y |\<in>| interval_starts from_map |\<union>| interval_starts to_map \<Longrightarrow> x < y \<Longrightarrow> y \<in> set bs"
    and "ranges_wf moved" "\<And>a b f t h. (a, b, f, t) \<in> set moved \<Longrightarrow> h \<in> set bs \<Longrightarrow> b < h"
  shows "ranges_wf (detect_ranges from_map to_map bs moved) \<and>
    (covered (detect_ranges from_map to_map bs moved) s f t \<longleftrightarrow>
       covered moved s f t \<or> bs \<noteq> [] \<and> hd bs \<le> s \<and> moves from_map to_map s f t)"
  using assms
proof (induction bs arbitrary: moved)
  case (Cons start rest)
  define stop :: u64 where "stop = (case rest of [] \<Rightarrow> 2 ^ 64 - 1 | next # _ \<Rightarrow> next - 1)"
  have upto: "x \<le> stop \<longleftrightarrow> rest = [] \<or> x < hd rest" for x
    using u64_le_pred [of start "hd rest" x] Cons.prems(1) u64_le_max [of x]
    by (cases rest) (auto simp: stop_def)
  have "start \<le> stop" using upto Cons.prems(1) by (cases rest) auto
  have below: "stop < h" if "h \<in> set rest" for h
  proof -
    have "\<not> h \<le> stop" using upto that Cons.prems(1) by (cases rest) auto
    then show ?thesis by simp
  qed
  have const: "map_resolve m start = map_resolve m x"
    if "m = from_map \<or> m = to_map" "start \<le> x" "x \<le> stop" for m x
  proof (rule resolve_constant [OF that(2)])
    fix y assume "y |\<in>| interval_starts m"
    then show "\<not> (start < y \<and> y \<le> x)"
      using Cons.prems(2) [of start y] that below [of y] by (auto simp: not_le)
  qed
  have tail: "start \<le> x \<longleftrightarrow> start \<le> x \<and> x \<le> stop \<or> rest \<noteq> [] \<and> hd rest \<le> x" for x
    using upto [of x] Cons.prems(1) by (cases rest) auto
  have rest: "\<And>x y. x \<in> set rest \<Longrightarrow> y |\<in>| interval_starts from_map |\<union>| interval_starts to_map \<Longrightarrow> x < y \<Longrightarrow> y \<in> set rest"
    using Cons.prems(1,2) by (metis list.set_intros(2) order.asym set_ConsD sorted_wrt.simps(2))
  note IH = Cons.IH [OF _ rest]
  show ?case
  proof (cases "\<exists>f0 t0. moves from_map to_map start f0 t0")
    case True
    then obtain f0 t0 where m: "moves from_map to_map start f0 t0" by blast
    let ?moved = "push_range start stop f0 t0 moved"
    note push = push_range_effect [OF Cons.prems(3) \<open>start \<le> stop\<close>, of f0 t0]
    have lt: "\<forall>(a, b, f, t) \<in> set moved. b < start" using Cons.prems(4) by fastforce
    have "detect_ranges from_map to_map (start # rest) moved = detect_ranges from_map to_map rest ?moved"
      using m by (auto simp: moves_def stop_def Let_def)
    moreover have "moves from_map to_map x f t \<longleftrightarrow> f = f0 \<and> t = t0" if "start \<le> x" "x \<le> stop" for x f t
      using m const [OF _ that, of from_map] const [OF _ that, of to_map] by (auto simp: moves_def)
    moreover have "b < h" if "(a, b, f, t) \<in> set ?moved" "h \<in> set rest" for a b f t h
      using push [OF lt] below [OF that(2)] that(1) by fastforce
    ultimately show ?thesis
      using push [OF lt] IH [where moved = ?moved] Cons.prems(1) tail [of s] by auto
  next
    case False
    then have "detect_ranges from_map to_map (start # rest) moved = detect_ranges from_map to_map rest moved"
      by (auto simp: moves_def Let_def split: option.splits)
    moreover have "\<not> moves from_map to_map x f t" if "start \<le> x" "x \<le> stop" for x f t
      using False const [OF _ that, of from_map] const [OF _ that, of to_map] by (auto simp: moves_def)
    ultimately show ?thesis
      using IH [where moved = moved] Cons.prems(1,3,4) tail [of s] by auto
  qed
qed simp

lemma detect_change_effect:
  "ranges_wf (pc_moved_ranges (detect_placement_change from_map to_map)) \<and>
   (covered (pc_moved_ranges (detect_placement_change from_map to_map)) s f t \<longleftrightarrow> moves from_map to_map s f t)"
proof -
  let ?bs = "sorted_list_of_fset (interval_starts from_map |\<union>| interval_starts to_map)"
  have "0 \<in> set ?bs" by (simp add: interval_starts_def)
  moreover have sorted: "sorted_wrt (<) ?bs" by (simp add: sorted_list_of_fset.rep_eq)
  ultimately have "?bs \<noteq> []" "hd ?bs = 0" by (cases ?bs; force)+
  with detect_ranges_effect [OF sorted, of from_map to_map "[]" s f t] show ?thesis
    by (simp add: detect_placement_change_def ranges_wf_def covered_def)
qed

text \<open>
  (C20) The detected ranges are exactly what moved: a shard lies in a range with given targets if and
  only if the two maps resolve it to these different instances. The ranges ascend without overlap,
  and two ranges that touch differ in their targets, so no range could be longer.
\<close>

theorem detected_ranges_exact:
  fixes from_map to_map
  defines "ranges \<equiv> pc_moved_ranges (detect_placement_change from_map to_map)"
  shows "(\<forall>s f t. (\<exists>a b. (a, b, f, t) \<in> set ranges \<and> a \<le> s \<and> s \<le> b) \<longleftrightarrow>
            (map_resolve from_map s = Some f \<and> map_resolve to_map s = Some t \<and> f \<noteq> t)) \<and>
    successively separate ranges"
  using detect_change_effect [of from_map to_map]
  by (simp add: ranges_def ranges_wf_def covered_def moves_def)

subsection \<open>What a rebalance delivers\<close>

definition moved_payloads :: "IptoWritePayload list \<Rightarrow> moved_range list \<Rightarrow> IptoWritePayload list" where
  "moved_payloads ps rs =
     concat (map (\<lambda>(a, b, _, _). map snd (first_records (filter (in_range a b) (stored ps)))) rs)"

lemma deliver_list_accepted:
  assumes "\<And>w p. snd (write w p) = Inr ()"
  shows "deliver_list write w ps = (foldl (\<lambda>w p. fst (write w p)) w ps, map (\<lambda>p. (p, Inr ())) ps)"
proof (induction ps arbitrary: w)
  case (Cons p ps)
  obtain w' where "write w p = (w', Inr ())" using assms by (metis prod.collapse)
  with Cons show ?case by simp
qed simp

lemma set_first_records:
  "snd ` set (first_records rs) \<subseteq> snd ` set rs"
  "(off, p) \<in> set rs \<Longrightarrow> \<exists>q \<in> snd ` set (first_records rs). wp_idempotency_key q = wp_idempotency_key p"
proof -
  have found: "\<exists>r. find (\<lambda>(off, q). wp_idempotency_key q = wp_idempotency_key p) rs = Some r \<and> r \<in> set rs \<and>
      wp_idempotency_key (snd r) = wp_idempotency_key p" if "(off, p) \<in> set rs" for off p
  proof -
    from that have "find (\<lambda>(off, q). wp_idempotency_key q = wp_idempotency_key p) rs \<noteq> None"
      by (metis (mono_tags, lifting) find_None_iff case_prod_conv)
    then obtain r where r: "find (\<lambda>(off, q). wp_idempotency_key q = wp_idempotency_key p) rs = Some r" by blast
    then have "r \<in> set rs \<and> wp_idempotency_key (snd r) = wp_idempotency_key p" by (force simp: find_Some_iff in_set_conv_nth)
    with r show ?thesis by blast
  qed
  show "snd ` set (first_records rs) \<subseteq> snd ` set rs"
  proof
    fix q assume "q \<in> snd ` set (first_records rs)"
    then obtain off p where "(off, p) \<in> set rs"
      "q = snd (the (find (\<lambda>(off, q). wp_idempotency_key q = wp_idempotency_key p) rs))"
      by (auto simp: first_records_def set_first_seen)
    with found [of off p] show "q \<in> snd ` set rs" by auto
  qed
  show "\<exists>q \<in> snd ` set (first_records rs). wp_idempotency_key q = wp_idempotency_key p" if "(off, p) \<in> set rs"
  proof -
    from found [OF that] obtain r where "find (\<lambda>(off, q). wp_idempotency_key q = wp_idempotency_key p) rs = Some r"
      "wp_idempotency_key (snd r) = wp_idempotency_key p" by blast
    moreover have "wp_idempotency_key p \<in> set (first_seen {||} (map (\<lambda>(off, p). wp_idempotency_key p) rs))"
      using that by (force simp: set_first_seen)
    ultimately show ?thesis by (force simp: first_records_def)
  qed
qed

lemma length_first_records: "length (first_records rs) \<le> length rs"
proof -
  have "length (first_seen A xs) \<le> length xs" for A :: "'a fset" and xs by (induction xs arbitrary: A) (auto simp: le_SucI)
  from this [of "{||}" "map (\<lambda>(off, p). wp_idempotency_key p) rs"] show ?thesis by (simp add: first_records_def)
qed

lemma rebalance_ranges_accepted:
  assumes "outbox_run fs b ps acked" "length ps \<le> n" "\<And>w p. snd (write w p) = Inr ()"
  shows "\<exists>outs. rebalance_ranges fs (sw_path (bo_writer b)) change write n rs w outcomes
      = (foldl (\<lambda>w p. fst (write w p)) w (moved_payloads ps rs), Ok (outcomes @ outs)) \<and> length outs = length rs"
proof (induction rs arbitrary: w outcomes)
  case (Cons r rs)
  obtain x y f t where r: "r = (x, y, f, t)" by (metis prod_cases4)
  let ?qs = "map snd (first_records (filter (in_range x y) (stored ps)))"
  have "length ?qs \<le> n"
    using length_first_records [of "filter (in_range x y) (stored ps)"] length_filter_le [of "in_range x y" "stored ps"] assms(2)
    by simp
  then have "deliver_list write w (take n ?qs) = (foldl (\<lambda>w p. fst (write w p)) w ?qs, map (\<lambda>p. (p, Inr ())) ?qs)"
    by (simp only: take_all deliver_list_accepted [OF assms(3)])
  from rebalance_delivers_range [OF assms(1) this]
  obtain summary where "rebalance_shard_range_to fs (sw_path (bo_writer b)) x y write w n
      = (foldl (\<lambda>w p. fst (write w p)) w ?qs, Inr summary)" by blast
  moreover obtain outs where "rebalance_ranges fs (sw_path (bo_writer b)) change write n rs (foldl (\<lambda>w p. fst (write w p)) w ?qs)
      (outcomes @ [\<lparr>ro_placement_change = change, ro_drain_summary = summary\<rparr>])
    = (foldl (\<lambda>w p. fst (write w p)) (foldl (\<lambda>w p. fst (write w p)) w ?qs) (moved_payloads ps rs),
       Ok ((outcomes @ [\<lparr>ro_placement_change = change, ro_drain_summary = summary\<rparr>]) @ outs)) \<and> length outs = length rs"
    using Cons.IH by blast
  ultimately show ?case
    using r by (intro exI [of _ "\<lparr>ro_placement_change = change, ro_drain_summary = summary\<rparr> # outs"]) (simp add: moved_payloads_def)
qed (simp add: moved_payloads_def)

text \<open>
  (C19) A rebalance after a placement change is complete. For any history of the outbox, with a writer
  that accepts what it is given and enough attempts, the writer receives only stored payloads whose
  shard moved between the two maps, and for every stored payload whose shard moved one with its
  idempotency key, whose shard moved between the same instances.
\<close>

theorem rebalance_complete:
  assumes "outbox_run fs b ps acked" "length ps \<le> n" "\<forall>w p. snd (write w p) = Ok ()"
  shows "\<exists>delivered outcomes.
     rebalance_after_placement_change fs (sw_path (bo_writer b)) (detect_placement_change from_map to_map) write n w
       = (foldl (\<lambda>w p. fst (write w p)) w delivered, Ok outcomes) \<and>
     (\<forall>p \<in> set delivered. p \<in> set ps \<and> (\<exists>f t. moves from_map to_map (wp_shard_id p) f t)) \<and>
     (\<forall>p \<in> set ps. \<forall>f t. moves from_map to_map (wp_shard_id p) f t \<longrightarrow>
        (\<exists>q \<in> set delivered. wp_idempotency_key q = wp_idempotency_key p \<and> moves from_map to_map (wp_shard_id q) f t))"
proof -
  let ?rs = "pc_moved_ranges (detect_placement_change from_map to_map)"
  note cov = detect_change_effect [of from_map to_map, THEN conjunct2]
  have "p \<in> set ps \<and> (\<exists>f t. moves from_map to_map (wp_shard_id p) f t)" if p: "p \<in> set (moved_payloads ps ?rs)" for p
  proof -
    from p obtain x y f t where r: "(x, y, f, t) \<in> set ?rs" "p \<in> snd ` set (first_records (filter (in_range x y) (stored ps)))"
      by (force simp: moved_payloads_def)
    with set_first_records(1) have "p \<in> snd ` set (filter (in_range x y) (stored ps))" by blast
    then have "p \<in> snd ` set (stored ps)" "covered ?rs (wp_shard_id p) f t"
      using r(1) by (auto simp: in_range_def covered_def)
    moreover have "snd ` set (stored ps) = set ps" by (simp flip: set_map)
    ultimately show ?thesis using cov by auto
  qed
  moreover have "\<exists>q \<in> set (moved_payloads ps ?rs). wp_idempotency_key q = wp_idempotency_key p \<and> moves from_map to_map (wp_shard_id q) f t"
    if p: "p \<in> set ps" "moves from_map to_map (wp_shard_id p) f t" for p f t
  proof -
    from p(2) obtain x y where r: "(x, y, f, t) \<in> set ?rs" "x \<le> wp_shard_id p" "wp_shard_id p \<le> y"
      unfolding cov [symmetric] covered_def by blast
    from p(1) have "p \<in> snd ` set (stored ps)" by (simp flip: set_map)
    then obtain off where "(off, p) \<in> set (filter (in_range x y) (stored ps))" using r by (auto simp: in_range_def)
    from set_first_records(2) [OF this] set_first_records(1) obtain q
      where q: "q \<in> snd ` set (first_records (filter (in_range x y) (stored ps)))" "wp_idempotency_key q = wp_idempotency_key p"
        "q \<in> snd ` set (filter (in_range x y) (stored ps))" by blast
    from q(3) r(1) have "covered ?rs (wp_shard_id q) f t" by (auto simp: in_range_def covered_def)
    with q r(1) cov show ?thesis by (force simp: moved_payloads_def)
  qed
  ultimately show ?thesis
    using rebalance_ranges_accepted [OF assms(1,2), of "write" "detect_placement_change from_map to_map" ?rs w "[]"] assms(3)
    by (auto simp: rebalance_after_placement_change_def)
qed

definition whole_ring_to :: "PlacementEpoch \<Rightarrow> IptoInstanceId \<Rightarrow> IptoPlacementMap" where
  "whole_ring_to epoch target =
     \<lparr>pm_epoch = epoch, pm_slots = [], pm_ring = \<lparr>ring_epoch = epoch, ring_points = []\<rparr>,
      pm_overrides = [\<lparr>rn_start = 0, rn_end = 2 ^ 64 - 1, rn_target = target\<rparr>]\<rparr>"

lemma resolve_whole_ring: "map_resolve (whole_ring_to e t) s = Some t"
  using u64_le_max [of s] by (simp add: whole_ring_to_def map_resolve_def IptoPlacementRange_contains_def)

lemma rebalance_complete_witness:
  "\<exists>fs b acked n outcomes. outbox_run fs b [sample_payload ''m1'', other_target] acked \<and>
     rebalance_after_placement_change fs (sw_path (bo_writer b))
       (detect_placement_change (whole_ring_to 1 ''a'') (whole_ring_to 2 ''b'')) always_ok 2 0 = (n, Ok outcomes) \<and> 0 < n"
proof -
  obtain fs b where run: "outbox_run fs b [sample_payload ''m1'', other_target]
      [(8, sample_payload ''m1''), (second_offset, other_target)]" using sample_history by blast
  have moved: "moves (whole_ring_to 1 ''a'') (whole_ring_to 2 ''b'') s ''a'' ''b''" for s
    by (simp add: moves_def resolve_whole_ring)
  from rebalance_complete [OF run, of 2 always_ok "whole_ring_to 1 ''a''" "whole_ring_to 2 ''b''" 0]
  obtain delivered outcomes where d: "rebalance_after_placement_change fs (sw_path (bo_writer b))
       (detect_placement_change (whole_ring_to 1 ''a'') (whole_ring_to 2 ''b'')) always_ok 2 0
     = (foldl (\<lambda>w p. fst (always_ok w p)) 0 delivered, Ok outcomes)" "delivered \<noteq> []"
    using moved by (fastforce simp: always_ok_def)
  have "foldl (\<lambda>w p. fst (always_ok w p)) w ps = w + length ps" for w ps
    by (induction ps arbitrary: w) (simp_all add: always_ok_def)
  from this [of 0 delivered] d run show ?thesis by fastforce
qed

text \<open>
  A change whose rebalance failed is not tried again: the step records the new epoch whatever the
  result, and a later step that finds the same placement does nothing.
\<close>

lemma monitor_drops_failed_change:
  assumes "monitor_step write config fs st (w, m) = (w', m')" "placement_map st = Some pm" "placement_map st' = Some pm"
  shows "mo_last_epoch m' = Some (pm_epoch pm) \<and> monitor_step write config fs' st' (w', m') = (w', m')"
proof -
  have "mo_last_epoch m' = Some (pm_epoch pm)"
    using assms(1,2) by (auto simp: monitor_step_def Let_def split: option.splits if_splits prod.splits sum.splits)
  with assms(3) show ?thesis by (simp add: monitor_step_def)
qed

end
