(* ===== verification/Discovery.thy ===== *)
theory Discovery
  imports Storage
begin

text \<open>
  Segment discovery of \<open>src/daemon.rs\<close>: the daemon's own segment scanner and \<open>discover_segments\<close>, which
  classifies the \<open>.seg\<close> files of a directory. The scanner duplicates the reader of \<open>src/storage.rs\<close>;
  the lemmas show that both agree on every file, so discovery accepts exactly the files that can be
  reopened for appending, and reports for each the counters its writer had.

  What \<open>read_dir\<close> yields is an argument: an error, or the entries in the order the operating system
  gives them, each an error or a name and whether it is a regular file. The text of an I/O error is
  kept as the error.
\<close>

subsection \<open>Paths\<close>

text \<open>
  \<open>Path::extension\<close> and \<open>Path::file_stem\<close> of a file name: the part after and before the last dot, a
  name that starts with its only dot having no extension.
\<close>

definition rsplit_file_at_dot :: "string \<Rightarrow> string option \<times> string option" where
  "rsplit_file_at_dot name =
     (if name = ''..'' then (Some name, None)
      else
        let after = rev (takeWhile (\<lambda>c. c \<noteq> CHR ''.'') (rev name)) in
        if length after = length name then (None, Some name)
        else let before = take (length name - length after - 1) name in
          if before = [] then (Some name, None) else (Some before, Some after))"

definition extension :: "string \<Rightarrow> string option" where
  "extension name = (case rsplit_file_at_dot name of (before, after) \<Rightarrow> if before = None then None else after)"

definition file_stem :: "string \<Rightarrow> string" where
  "file_stem name = (case rsplit_file_at_dot name of
     (Some before, _) \<Rightarrow> before | (None, Some after) \<Rightarrow> after | (None, None) \<Rightarrow> [])"

definition entry_path :: "path \<Rightarrow> string \<Rightarrow> path" where
  "entry_path dir name = dir @ ''/'' @ name"

subsection \<open>The scanner\<close>

definition SEGMENT_EXTENSION :: string where
  "SEGMENT_EXTENSION = ''seg''"

definition SEGMENT_MAGIC_LEN :: u64 where
  "SEGMENT_MAGIC_LEN = 8"

definition daemon_combine_checksum :: "u64 \<Rightarrow> u64 \<Rightarrow> u64" where
  "daemon_combine_checksum current nxt = word_rotl 7 current XOR nxt"

fun checksum_loop :: "u64 \<Rightarrow> bytes \<Rightarrow> u64" where
  "checksum_loop hash [] = hash"
| "checksum_loop hash (byte # payload) = checksum_loop ((hash XOR ucast byte) * 0x00000100000001b3) payload"

definition checksum_value :: "bytes \<Rightarrow> u64" where
  "checksum_value payload = checksum_loop 0xcbf29ce484222325 payload"

record SegmentScanner =
  sc_reader :: bytes
  sc_offset :: u64

definition SegmentScanner_open :: "fs \<Rightarrow> path \<Rightarrow> SegmentError + SegmentScanner" where
  "SegmentScanner_open fs p =
     (case fs p of
        None \<Rightarrow> Err (Io NotFound)
      | Some file \<Rightarrow>
          res_bind (read_exact 8 file) (\<lambda>(magic, reader).
          if magic \<noteq> as_bytes ''VANNAK01'' then Err InvalidMagic
          else Ok \<lparr>sc_reader = reader, sc_offset = SEGMENT_MAGIC_LEN\<rparr>))"

definition scanner_read_next :: "SegmentScanner \<Rightarrow> SegmentError + SegmentRecord option \<times> SegmentScanner" where
  "scanner_read_next sc =
     (let read = min 4 (length (sc_reader sc)) in
      if read = 0 then Ok (None, sc)
      else if read < 4 then Err (TrailingBytes (sc_offset sc) (sc_offset sc + of_nat read))
      else
        let len_buf = take 4 (sc_reader sc) in
        res_bind (read_exact 8 (drop 4 (sc_reader sc))) (\<lambda>(checksum_buf, reader).
        let len = unat (from_le_bytes len_buf :: u32);
            expected_checksum = (from_le_bytes checksum_buf :: u64) in
        res_bind (read_exact len reader) (\<lambda>(payload, reader).
        let offset = sc_offset sc;
            sc' = \<lparr>sc_reader = reader, sc_offset = sc_offset sc + (4 + 8 + of_nat len)\<rparr>;
            actual = checksum_value payload in
        if actual \<noteq> expected_checksum then Err (ChecksumMismatch offset expected_checksum actual)
        else Ok (Some \<lparr>rec_offset = offset, rec_checksum = actual, rec_payload = payload\<rparr>, sc'))))"

lemma scanner_read_next_shrinks:
  assumes "scanner_read_next sc = Inr (Some rec, sc')"
  shows "length (sc_reader sc') < length (sc_reader sc)"
  using assms by (auto simp: scanner_read_next_def read_exact_def Let_def split: if_splits)

text \<open>The counters of the loop: record count, byte length and checksum.\<close>

function validate_loop :: "SegmentScanner \<Rightarrow> u64 \<times> u64 \<times> u64 \<Rightarrow> SegmentError + u64 \<times> u64 \<times> u64" where
  "validate_loop inner counters =
     (case scanner_read_next inner of
        Inl e \<Rightarrow> Err e
      | Inr (None, _) \<Rightarrow> Ok counters
      | Inr (Some rec, inner') \<Rightarrow>
          (case counters of (record_count, byte_len, check) \<Rightarrow>
             validate_loop inner'
               (record_count + 1, sc_offset inner', daemon_combine_checksum check (rec_checksum rec))))"
  by pat_completeness auto
termination
  by (relation "measure (\<lambda>(sc, _). length (sc_reader sc))") (auto dest: scanner_read_next_shrinks)

declare validate_loop.simps [simp del]

definition validate_and_manifest_segment :: "fs \<Rightarrow> path \<Rightarrow> string \<Rightarrow> SegmentError + SegmentManifest" where
  "validate_and_manifest_segment fs dir name =
     (let p = entry_path dir name in
      res_bind (SegmentScanner_open fs p) (\<lambda>inner.
      res_bind (validate_loop inner (0, SEGMENT_MAGIC_LEN, 0)) (\<lambda>(record_count, byte_len, check).
      (case fs p of
         None \<Rightarrow> Err (Io NotFound)
       | Some file \<Rightarrow>
           let file_len = (of_nat (length file) :: u64) in
           if file_len \<noteq> byte_len then Err (TrailingBytes byte_len file_len)
           else Ok \<lparr>sm_segment_id = file_stem name, sm_node_id = ''discovery'', sm_path = p,
                    sm_record_count = record_count, sm_byte_len = byte_len, sm_checksum = check\<rparr>))))"

subsection \<open>Discovery\<close>

record SegmentDiscoveryResult =
  dr_segments :: "SegmentManifest list"
  dr_invalid :: "path list"
  dr_io_errors :: "(path \<times> io_error) list"

definition discovery_is_empty :: "SegmentDiscoveryResult \<Rightarrow> bool" where
  "discovery_is_empty r \<longleftrightarrow> dr_segments r = [] \<and> dr_invalid r = [] \<and> dr_io_errors r = []"

record dir_entry =
  de_name :: string
  de_is_file :: bool

definition discover_entry :: "fs \<Rightarrow> path \<Rightarrow> io_error + dir_entry \<Rightarrow> SegmentDiscoveryResult \<Rightarrow> SegmentDiscoveryResult" where
  "discover_entry fs dir entry result =
     (case entry of
        Inl _ \<Rightarrow> result
      | Inr entry \<Rightarrow>
          if \<not> de_is_file entry then result
          else if extension (de_name entry) \<noteq> Some SEGMENT_EXTENSION then result
          else
            (case validate_and_manifest_segment fs dir (de_name entry) of
               Inr manifest \<Rightarrow> result\<lparr>dr_segments := dr_segments result @ [manifest]\<rparr>
             | Inl InvalidMagic \<Rightarrow> result\<lparr>dr_invalid := dr_invalid result @ [entry_path dir (de_name entry)]\<rparr>
             | Inl (Io error) \<Rightarrow> result\<lparr>dr_io_errors := dr_io_errors result @ [(entry_path dir (de_name entry), error)]\<rparr>
             | Inl _ \<Rightarrow> result\<lparr>dr_invalid := dr_invalid result @ [entry_path dir (de_name entry)]\<rparr>))"

definition discover_segments ::
  "fs \<Rightarrow> path \<Rightarrow> io_error + (io_error + dir_entry) list \<Rightarrow> io_error + SegmentDiscoveryResult" where
  "discover_segments fs dir entries =
     (let result = \<lparr>dr_segments = [], dr_invalid = [], dr_io_errors = []\<rparr> in
      case entries of
        Inl NotFound \<Rightarrow> Ok result
      | Inl error \<Rightarrow> Err error
      | Inr entries \<Rightarrow>
          let result = fold (discover_entry fs dir) entries result in
          Ok (result\<lparr>dr_segments := sort_key sm_path (dr_segments result), dr_invalid := sort (dr_invalid result)\<rparr>))"

subsection \<open>Agreement with the reader of the storage module\<close>

lemma checksum_loop_eq: "checksum_loop h bs = foldl fnv_step h bs"
  by (induction bs arbitrary: h) (simp_all add: fnv_step_def)

lemma checksum_value_eq: "checksum_value = checksum"
  by (simp add: fun_eq_iff checksum_value_def checksum_def checksum_loop_eq)

definition reader_of :: "SegmentScanner \<Rightarrow> SegmentReader" where
  "reader_of sc = \<lparr>sr_rest = sc_reader sc, sr_offset = sc_offset sc\<rparr>"

definition scanner_of :: "SegmentReader \<Rightarrow> SegmentScanner" where
  "scanner_of r = \<lparr>sc_reader = sr_rest r, sc_offset = sr_offset r\<rparr>"

lemma scanner_open_eq: "SegmentScanner_open fs p = res_bind (SegmentReader_open fs p) (\<lambda>r. Ok (scanner_of r))"
  by (simp add: SegmentScanner_open_def SegmentReader_open_def scanner_of_def read_exact_def
      SEGMENT_MAGIC_LEN_def flip: SEGMENT_MAGIC_def split: option.split)

lemma scanner_read_next_eq:
  "scanner_read_next (scanner_of r) = res_bind (read_next r) (\<lambda>(rec, r'). Ok (rec, scanner_of r'))"
  by (simp add: scanner_read_next_def read_next_def scanner_of_def read_exact_def checksum_value_eq Let_def)

lemma validate_loop_eq:
  "validate_loop (scanner_of r) (n, len, c) =
     res_bind (read_loop id
        (\<lambda>rec r stats.
           Ok \<lparr>st_record_count = st_record_count stats + 1, st_byte_len = sr_offset r,
               st_checksum = combine_checksum (st_checksum stats) (rec_checksum rec)\<rparr>)
        r \<lparr>st_record_count = n, st_byte_len = len, st_checksum = c\<rparr>)
       (\<lambda>stats. Ok (st_record_count stats, st_byte_len stats, st_checksum stats))"
proof (induction "length (sr_rest r)" arbitrary: r n len c rule: less_induct)
  case less
  show ?case
  proof (cases "read_next r")
    case (Inl e)
    then show ?thesis by (simp add: validate_loop.simps read_loop.simps scanner_read_next_eq)
  next
    case (Inr x)
    obtain rec r' where x: "x = (rec, r')" by fastforce
    show ?thesis
    proof (cases rec)
      case None
      with Inr x show ?thesis by (simp add: validate_loop.simps read_loop.simps scanner_read_next_eq)
    next
      case (Some rc)
      have "daemon_combine_checksum = combine_checksum"
        by (simp add: fun_eq_iff daemon_combine_checksum_def combine_checksum_def)
      moreover have "sc_offset (scanner_of r') = sr_offset r'" by (simp add: scanner_of_def)
      moreover note less [of r' "n + 1" "sr_offset r'" "combine_checksum c (rec_checksum rc)"]
      ultimately show ?thesis
        using Inr x Some read_next_shrinks [of r rc r']
        by (simp add: validate_loop.simps [of "scanner_of r"] read_loop.simps [of _ _ r] scanner_read_next_eq)
    qed
  qed
qed

lemma validate_eq_scan:
  "validate_and_manifest_segment fs dir name =
     res_bind (scan_segment fs (entry_path dir name)) (\<lambda>stats.
       Ok \<lparr>sm_segment_id = file_stem name, sm_node_id = ''discovery'', sm_path = entry_path dir name,
           sm_record_count = st_record_count stats, sm_byte_len = st_byte_len stats, sm_checksum = st_checksum stats\<rparr>)"
  by (cases "SegmentReader_open fs (entry_path dir name)")
    (simp_all add: validate_and_manifest_segment_def scan_segment_def scanner_open_eq validate_loop_eq
      SEGMENT_MAGIC_LEN_def Let_def res_bind_def split: sum.split option.split)

text \<open>The names of the regular \<open>.seg\<close> files among the entries.\<close>

definition segment_names :: "(io_error + dir_entry) list \<Rightarrow> string set" where
  "segment_names entries = {de_name e | e. Inr e \<in> set entries \<and> de_is_file e \<and> extension (de_name e) = Some SEGMENT_EXTENSION}"

definition manifest_of :: "path \<Rightarrow> string \<Rightarrow> SegmentStats \<Rightarrow> SegmentManifest" where
  "manifest_of dir name stats =
     \<lparr>sm_segment_id = file_stem name, sm_node_id = ''discovery'', sm_path = entry_path dir name,
      sm_record_count = st_record_count stats, sm_byte_len = st_byte_len stats, sm_checksum = st_checksum stats\<rparr>"

lemma discover_fold:
  "set (dr_segments (fold (discover_entry fs dir) entries r)) = set (dr_segments r) \<union>
     {manifest_of dir n stats | n stats. n \<in> segment_names entries \<and> scan_segment fs (entry_path dir n) = Inr stats}"
  "set (dr_invalid (fold (discover_entry fs dir) entries r)) = set (dr_invalid r) \<union>
     {entry_path dir n | n e. n \<in> segment_names entries \<and> scan_segment fs (entry_path dir n) = Inl e \<and> (\<forall>io. e \<noteq> Io io)}"
  "set (dr_io_errors (fold (discover_entry fs dir) entries r)) = set (dr_io_errors r) \<union>
     {(entry_path dir n, io) | n io. n \<in> segment_names entries \<and> scan_segment fs (entry_path dir n) = Inl (Io io)}"
proof (induction entries arbitrary: r)
  case (Cons e entries)
  {
    case 1
    show ?case by (simp add: Cons.IH)
      (auto simp: discover_entry_def segment_names_def validate_eq_scan manifest_of_def res_bind_def
        split: sum.splits SegmentError.splits)
  next
    case 2
    show ?case by (simp add: Cons.IH)
      (auto simp: discover_entry_def segment_names_def validate_eq_scan res_bind_def
        split: sum.splits SegmentError.splits)
  next
    case 3
    show ?case by (simp add: Cons.IH)
      (auto simp: discover_entry_def segment_names_def validate_eq_scan res_bind_def
        split: sum.splits SegmentError.splits)
  }
qed (simp_all add: segment_names_def)

text \<open>
  Discovery agrees with the storage module. Of the regular \<open>.seg\<close> files of a directory it lists
  as segments exactly those the storage scan accepts, with the counters of that scan, as invalid
  exactly those it rejects for their contents, and as I/O errors the rest, the first two in the order
  of their paths; a segment that was written there through the storage module is listed with the
  counters of its writer.
\<close>

lemma discovery_matches_storage:
  assumes "discover_segments fs dir (Inr entries) = Ok r"
  shows "set (dr_segments r) =
       {manifest_of dir n stats | n stats. n \<in> segment_names entries \<and> scan_segment fs (entry_path dir n) = Ok stats} \<and>
     set (dr_invalid r) =
       {entry_path dir n | n e. n \<in> segment_names entries \<and> scan_segment fs (entry_path dir n) = Err e \<and> (\<forall>io. e \<noteq> Io io)} \<and>
     set (dr_io_errors r) =
       {(entry_path dir n, io) | n io. n \<in> segment_names entries \<and> scan_segment fs (entry_path dir n) = Err (Io io)} \<and>
     sorted (map sm_path (dr_segments r)) \<and> sorted (dr_invalid r) \<and>
     (\<forall>w ps n. written fs w ps \<and> n \<in> segment_names entries \<and> sw_path w = entry_path dir n \<longrightarrow>
        (SegmentWriter_manifest w)\<lparr>sm_segment_id := file_stem n, sm_node_id := ''discovery''\<rparr> \<in> set (dr_segments r))"
proof -
  let ?r = "fold (discover_entry fs dir) entries \<lparr>dr_segments = [], dr_invalid = [], dr_io_errors = []\<rparr>"
  from assms have r: "r = ?r\<lparr>dr_segments := sort_key sm_path (dr_segments ?r), dr_invalid := sort (dr_invalid ?r)\<rparr>"
    by (simp add: discover_segments_def Let_def)
  have "(SegmentWriter_manifest w)\<lparr>sm_segment_id := file_stem n, sm_node_id := ''discovery''\<rparr> \<in> set (dr_segments r)"
    if w: "written fs w ps" "n \<in> segment_names entries" "sw_path w = entry_path dir n" for w ps n
  proof -
    from written_open [OF w(1)] have "segment_open fs w ps" .
    with scan_segment_open [of fs "sw_path w" ps] w(3)
    have "scan_segment fs (entry_path dir n)
        = Inr \<lparr>st_record_count = sw_record_count w, st_byte_len = sw_byte_len w, st_checksum = sw_checksum w\<rparr>"
      by (simp add: segment_open_def)
    with w show ?thesis
      by (auto simp: r discover_fold SegmentWriter_manifest_def manifest_of_def intro!: exI [of _ n])
  qed
  then show ?thesis by (auto simp: r discover_fold)
qed

end
