(* ===== verification/Raft_SM.thy ===== *)
theory Raft_SM
  imports Cluster
begin

text \<open>
  The Raft state machine of \<open>src/raft_sm.rs\<close>: the serialisable forms of the control types, the
  encoding and decoding of commands and of snapshots, and \<open>ClusterStateMachine\<close> with \<open>apply\<close>,
  \<open>snapshot\<close>, \<open>restore\<close> and \<open>query\<close>.

  \<open>serde_json\<close> is a parameter: a record \<open>json\<close> of the conversions the code uses, over a type \<open>'j\<close> of
  documents. Its documented behaviour is that a document written from a value is read back as that
  value (\<open>json_ok\<close>). The strings the machine answers are represented by the error they render.
  The read-write lock is never poisoned: no code that holds it panics.

  The locale \<open>replicated_machine\<close> is what Raft relies on: a deterministic step, and a dump from which
  the state is restored. Its client lemma is that a replica that starts from a dump and applies the
  rest of the log ends in the state of a replica that applied the whole log.
\<close>

subsection \<open>Paths as strings\<close>

text \<open>
  \<open>Path::to_string_lossy\<close>: each maximal invalid subsequence of the bytes becomes U+FFFD, whose
  UTF-8 form is \<open>EF BF BD\<close>.
\<close>

definition replacement :: bytes where
  "replacement = [0xEF, 0xBF, 0xBD]"

fun lossy_bytes :: "bytes \<Rightarrow> bytes" where
  "lossy_bytes [] = []"
| "lossy_bytes (b0 # bs) =
     (if b0 < 0x80 then b0 # lossy_bytes bs
      else if 0xC2 \<le> b0 \<and> b0 \<le> 0xDF then
        (case bs of
           [] \<Rightarrow> replacement
         | b1 # bs1 \<Rightarrow> if utf8_cont b1 then b0 # b1 # lossy_bytes bs1 else replacement @ lossy_bytes bs)
      else if 0xE0 \<le> b0 \<and> b0 \<le> 0xEF then
        (case bs of
           [] \<Rightarrow> replacement
         | b1 # bs1 \<Rightarrow>
             if \<not> utf8_second3 b0 b1 then replacement @ lossy_bytes bs
             else (case bs1 of
                [] \<Rightarrow> replacement
              | b2 # bs2 \<Rightarrow> if utf8_cont b2 then b0 # b1 # b2 # lossy_bytes bs2 else replacement @ lossy_bytes bs1))
      else
        (case bs of
           [] \<Rightarrow> replacement
         | b1 # bs1 \<Rightarrow>
             if \<not> utf8_second4 b0 b1 then replacement @ lossy_bytes bs
             else (case bs1 of
                [] \<Rightarrow> replacement
              | b2 # bs2 \<Rightarrow>
                  if \<not> utf8_cont b2 then replacement @ lossy_bytes bs1
                  else (case bs2 of
                     [] \<Rightarrow> replacement
                   | b3 # bs3 \<Rightarrow>
                       if utf8_cont b3 then b0 # b1 # b2 # b3 # lossy_bytes bs3 else replacement @ lossy_bytes bs2))))"

definition to_string_lossy :: "path \<Rightarrow> string" where
  "to_string_lossy p = string_of_bytes (lossy_bytes (as_bytes p))"

lemma lossy_bytes_valid: "utf8_valid bs \<Longrightarrow> lossy_bytes bs = bs"
proof (induction bs rule: utf8_valid.induct)
  case (2 b0 bs)
  from "2.prems" [unfolded utf8_valid.simps(2) [of b0 bs]] "2.IH" show ?case
    unfolding lossy_bytes.simps(2) [of b0 bs]
    by (auto simp del: lossy_bytes.simps utf8_valid.simps split: list.splits if_splits)
qed simp

lemma to_string_lossy_valid [simp]: "rust_string p \<Longrightarrow> to_string_lossy p = p"
  by (simp add: to_string_lossy_def rust_string_def lossy_bytes_valid)

subsection \<open>Serialisable forms\<close>

record SerPlacementSlot =
  ss_instance :: string
  ss_vnodes :: u32

record SerPlacementRange =
  sr_start :: u64
  sr_end :: u64
  sr_target :: string

record SerPlacementMap =
  spm_epoch :: u64
  spm_slots :: "SerPlacementSlot list"
  spm_overrides :: "SerPlacementRange list"

record SerWriterLease =
  swl_target :: string
  swl_holder :: string
  swl_epoch :: u64

record SerOutboxCheckpoint =
  soc_data_individual_shard_id :: u64
  soc_target :: string
  soc_segment_id :: string
  soc_last_acknowledged_offset :: u64
  soc_mapping_version :: string
  soc_epoch :: u64

record SerSegmentManifest =
  ssm_segment_id :: string
  ssm_node_id :: string
  ssm_path :: string
  ssm_record_count :: u64
  ssm_byte_len :: u64
  ssm_checksum :: u64

record SerSegmentOffset =
  so_segment_id :: string
  so_offset :: u64

record SerCheckpointManifest =
  scm_checkpoint_id :: string
  scm_node_id :: string
  scm_epoch :: u64
  scm_segment_offsets :: "SerSegmentOffset list"
  scm_metadata_version :: "string option"
  scm_checksum :: u64

record SerClusterControlSnapshot =
  scs_nodes :: "string list"
  scs_placement_maps :: "SerPlacementMap list"
  scs_writer_leases :: "SerWriterLease list"
  scs_outbox_checkpoints :: "SerOutboxCheckpoint list"
  scs_sealed_segments :: "SerSegmentManifest list"
  scs_checkpoints :: "SerCheckpointManifest list"

text \<open>The variants carry the fields of the structs of the same shape.\<close>

datatype SerCommandVariant =
  ScAddNode string
| ScRemoveNode string
| ScSetIptoPlacementMap SerPlacementMap
| ScGrantWriterLease SerWriterLease
| ScRecordOutboxCheckpoint SerOutboxCheckpoint
| ScRecordSealedSegment SerSegmentManifest
| ScRecordCheckpoint SerCheckpointManifest

text \<open>The errors whose text the machine reports.\<close>

datatype RaftError =
  RaftJson string
| RaftControl ClusterControlError

subsection \<open>Conversions\<close>

text \<open>\<open>collect::<Result<Vec<_>, _>>\<close>: the values in order, or the first error.\<close>

fun collect_results :: "('e + 'a) list \<Rightarrow> 'e + 'a list" where
  "collect_results [] = Ok []"
| "collect_results (r # rs) = res_bind r (\<lambda>x. res_bind (collect_results rs) (\<lambda>xs. Ok (x # xs)))"

definition to_ser_slots :: "IptoPlacementSlot list \<Rightarrow> SerPlacementSlot list" where
  "to_ser_slots slots = map (\<lambda>s. \<lparr>ss_instance = sl_instance s, ss_vnodes = sl_vnodes s\<rparr>) slots"

definition from_ser_slots :: "SerPlacementSlot list \<Rightarrow> ClusterControlError + IptoPlacementSlot list" where
  "from_ser_slots ser = collect_results (map (\<lambda>s. IptoPlacementSlot_new (ss_instance s) (ss_vnodes s)) ser)"

definition to_ser_overrides :: "IptoPlacementRange list \<Rightarrow> SerPlacementRange list" where
  "to_ser_overrides ranges = map (\<lambda>r. \<lparr>sr_start = rn_start r, sr_end = rn_end r, sr_target = rn_target r\<rparr>) ranges"

definition from_ser_overrides :: "SerPlacementRange list \<Rightarrow> ClusterControlError + IptoPlacementRange list" where
  "from_ser_overrides ser = collect_results (map (\<lambda>r. IptoPlacementRange_new (sr_start r) (sr_end r) (sr_target r)) ser)"

definition to_ser_map :: "PlacementEpoch \<Rightarrow> IptoPlacementMap \<Rightarrow> SerPlacementMap" where
  "to_ser_map epoch m =
     \<lparr>spm_epoch = epoch, spm_slots = to_ser_slots (pm_slots m), spm_overrides = to_ser_overrides (pm_overrides m)\<rparr>"

definition from_ser_map :: "SerPlacementMap \<Rightarrow> RaftError + IptoPlacementMap" where
  "from_ser_map ser =
     res_bind (map_err RaftControl (from_ser_slots (spm_slots ser))) (\<lambda>slots.
     res_bind (map_err RaftControl (from_ser_overrides (spm_overrides ser))) (\<lambda>overrides.
     map_err RaftControl (IptoPlacementMap_new (spm_epoch ser) slots overrides)))"

definition to_ser_lease :: "IptoInstanceId \<Rightarrow> WriterLease \<Rightarrow> SerWriterLease" where
  "to_ser_lease target l = \<lparr>swl_target = target, swl_holder = wl_holder l, swl_epoch = wl_epoch l\<rparr>"

definition from_ser_lease :: "SerWriterLease \<Rightarrow> WriterLease" where
  "from_ser_lease l = \<lparr>wl_target = swl_target l, wl_holder = swl_holder l, wl_epoch = swl_epoch l\<rparr>"

definition to_ser_outbox_checkpoint ::
  "DataIndividualShardId \<Rightarrow> IptoInstanceId \<Rightarrow> MetadataOutboxCheckpoint \<Rightarrow> SerOutboxCheckpoint" where
  "to_ser_outbox_checkpoint shard_id target c =
     \<lparr>soc_data_individual_shard_id = shard_id, soc_target = target, soc_segment_id = oc_segment_id c,
      soc_last_acknowledged_offset = oc_last_acknowledged_offset c, soc_mapping_version = oc_mapping_version c,
      soc_epoch = oc_epoch c\<rparr>"

definition from_ser_outbox_checkpoint :: "SerOutboxCheckpoint \<Rightarrow> MetadataOutboxCheckpoint" where
  "from_ser_outbox_checkpoint c =
     \<lparr>oc_data_individual_shard_id = soc_data_individual_shard_id c, oc_target = soc_target c,
      oc_segment_id = soc_segment_id c, oc_last_acknowledged_offset = soc_last_acknowledged_offset c,
      oc_mapping_version = soc_mapping_version c, oc_epoch = soc_epoch c\<rparr>"

definition to_ser_segment :: "SegmentManifest \<Rightarrow> SerSegmentManifest" where
  "to_ser_segment m =
     \<lparr>ssm_segment_id = sm_segment_id m, ssm_node_id = sm_node_id m, ssm_path = to_string_lossy (sm_path m),
      ssm_record_count = sm_record_count m, ssm_byte_len = sm_byte_len m, ssm_checksum = sm_checksum m\<rparr>"

definition from_ser_segment :: "SerSegmentManifest \<Rightarrow> SegmentManifest" where
  "from_ser_segment m =
     \<lparr>sm_segment_id = ssm_segment_id m, sm_node_id = ssm_node_id m, sm_path = ssm_path m,
      sm_record_count = ssm_record_count m, sm_byte_len = ssm_byte_len m, sm_checksum = ssm_checksum m\<rparr>"

definition to_ser_checkpoint :: "CheckpointManifest \<Rightarrow> SerCheckpointManifest" where
  "to_ser_checkpoint c =
     \<lparr>scm_checkpoint_id = cm_checkpoint_id c, scm_node_id = cm_node_id c, scm_epoch = cm_epoch c,
      scm_segment_offsets = map (\<lambda>(i, off). \<lparr>so_segment_id = i, so_offset = off\<rparr>) (bt_iter (cm_segment_offsets c)),
      scm_metadata_version = cm_metadata_version c, scm_checksum = cm_checksum c\<rparr>"

definition from_ser_checkpoint :: "SerCheckpointManifest \<Rightarrow> CheckpointManifest" where
  "from_ser_checkpoint c =
     \<lparr>cm_checkpoint_id = scm_checkpoint_id c, cm_node_id = scm_node_id c, cm_epoch = scm_epoch c,
      cm_segment_offsets = bt_from_list (map (\<lambda>so. (so_segment_id so, so_offset so)) (scm_segment_offsets c)),
      cm_metadata_version = scm_metadata_version c, cm_checksum = scm_checksum c\<rparr>"

subsection \<open>Commands\<close>

text \<open>The conversions \<open>serde_json\<close> supplies, each fallible in both directions.\<close>

datatype ClusterQuery =
  CqControlSnapshot
| CqResolveTarget u64
| CqResolveWithFallback u64
| CqListIptoInstances
| CqCurrentPlacementEpoch
| CqGetWriterLease string
| CqGetOutboxCheckpoint u64 string
| CqGetSealedSegment string

datatype AnswerValue =
  AvOptString "string option"
| AvStrings "string list"
| AvOptU64 "u64 option"
| AvError RaftError

record 'j json =
  js_empty :: 'j
  js_of_command :: "SerCommandVariant \<Rightarrow> string + 'j"
  js_to_command :: "'j \<Rightarrow> string + SerCommandVariant"
  js_of_snapshot :: "SerClusterControlSnapshot \<Rightarrow> string + 'j"
  js_to_snapshot :: "'j \<Rightarrow> string + SerClusterControlSnapshot"
  js_to_query :: "'j \<Rightarrow> string + ClusterQuery"
  js_of_answer :: "AnswerValue \<Rightarrow> string + 'j"

definition json_ok :: "'j json \<Rightarrow> bool" where
  "json_ok js \<longleftrightarrow>
     (\<forall>c. \<exists>d. js_of_command js c = Ok d \<and> js_to_command js d = Ok c) \<and>
     (\<forall>s. \<exists>d. js_of_snapshot js s = Ok d \<and> js_to_snapshot js d = Ok s)"

definition unwrap_or :: "'a \<Rightarrow> 'e + 'a \<Rightarrow> 'a" where
  "unwrap_or d r = (case r of Inl _ \<Rightarrow> d | Inr x \<Rightarrow> x)"

fun ser_command :: "ClusterControlCommand \<Rightarrow> SerCommandVariant" where
  "ser_command (AddNode node_id) = ScAddNode node_id"
| "ser_command (RemoveNode node_id) = ScRemoveNode node_id"
| "ser_command (SetIptoPlacementMap m) = ScSetIptoPlacementMap (to_ser_map (pm_epoch m) m)"
| "ser_command (GrantWriterLease lease) = ScGrantWriterLease (to_ser_lease (wl_target lease) lease)"
| "ser_command (RecordOutboxCheckpoint cp) =
     ScRecordOutboxCheckpoint (to_ser_outbox_checkpoint (oc_data_individual_shard_id cp) (oc_target cp) cp)"
| "ser_command (RecordSealedSegment manifest) = ScRecordSealedSegment (to_ser_segment manifest)"
| "ser_command (RecordCheckpoint cp) = ScRecordCheckpoint (to_ser_checkpoint cp)"

fun deser_command :: "SerCommandVariant \<Rightarrow> RaftError + ClusterControlCommand" where
  "deser_command (ScAddNode node_id) = Ok (AddNode node_id)"
| "deser_command (ScRemoveNode node_id) = Ok (RemoveNode node_id)"
| "deser_command (ScSetIptoPlacementMap m) = res_bind (from_ser_map m) (\<lambda>m. Ok (SetIptoPlacementMap m))"
| "deser_command (ScGrantWriterLease lease) = Ok (GrantWriterLease (from_ser_lease lease))"
| "deser_command (ScRecordOutboxCheckpoint cp) = Ok (RecordOutboxCheckpoint (from_ser_outbox_checkpoint cp))"
| "deser_command (ScRecordSealedSegment manifest) = Ok (RecordSealedSegment (from_ser_segment manifest))"
| "deser_command (ScRecordCheckpoint cp) = Ok (RecordCheckpoint (from_ser_checkpoint cp))"

definition encode_command :: "'j json \<Rightarrow> ClusterControlCommand \<Rightarrow> string + 'j" where
  "encode_command js cmd = js_of_command js (ser_command cmd)"

definition decode_command :: "'j json \<Rightarrow> 'j \<Rightarrow> RaftError + ClusterControlCommand" where
  "decode_command js data = res_bind (map_err RaftJson (js_to_command js data)) deser_command"

subsection \<open>Snapshots\<close>

definition ser_snapshot :: "ClusterControlState \<Rightarrow> SerClusterControlSnapshot" where
  "ser_snapshot st =
     \<lparr>scs_nodes = sorted_list_of_fset (cs_nodes st),
      scs_placement_maps = map (\<lambda>(epoch, m). to_ser_map epoch m) (placement_map_history st),
      scs_writer_leases = map (\<lambda>(target, l). to_ser_lease target l) (bt_iter (cs_writer_leases st)),
      scs_outbox_checkpoints =
        map (\<lambda>((shard_id, target), c). to_ser_outbox_checkpoint shard_id target c) (bt_iter (cs_outbox_checkpoints st)),
      scs_sealed_segments = map to_ser_segment (bt_values (cs_sealed_segments st)),
      scs_checkpoints = map to_ser_checkpoint (bt_values (cs_checkpoints st))\<rparr>"

text \<open>The loops of \<open>decode_snapshot\<close>: convert an item to a command, apply it, stop at an error.\<close>

fun apply_each ::
  "('a \<Rightarrow> RaftError + ClusterControlCommand) \<Rightarrow> 'a list \<Rightarrow> ClusterControlState \<Rightarrow> RaftError + ClusterControlState" where
  "apply_each conv [] st = Ok st"
| "apply_each conv (x # xs) st =
     res_bind (conv x) (\<lambda>cmd.
       case control_apply cmd st of
         (st', Inl e) \<Rightarrow> Err (RaftControl e)
       | (st', Inr _) \<Rightarrow> apply_each conv xs st')"

definition deser_snapshot :: "SerClusterControlSnapshot \<Rightarrow> RaftError + ClusterControlState" where
  "deser_snapshot snapshot =
     res_bind (apply_each (\<lambda>node. Ok (AddNode node)) (scs_nodes snapshot) ClusterControlState_new) (\<lambda>st.
     res_bind (apply_each (\<lambda>m. res_bind (from_ser_map m) (\<lambda>m. Ok (SetIptoPlacementMap m)))
       (scs_placement_maps snapshot) st) (\<lambda>st.
     res_bind (apply_each (\<lambda>l. Ok (GrantWriterLease (from_ser_lease l))) (scs_writer_leases snapshot) st) (\<lambda>st.
     res_bind (apply_each (\<lambda>c. Ok (RecordOutboxCheckpoint (from_ser_outbox_checkpoint c)))
       (scs_outbox_checkpoints snapshot) st) (\<lambda>st.
     res_bind (apply_each (\<lambda>m. Ok (RecordSealedSegment (from_ser_segment m))) (scs_sealed_segments snapshot) st) (\<lambda>st.
     apply_each (\<lambda>c. Ok (RecordCheckpoint (from_ser_checkpoint c))) (scs_checkpoints snapshot) st)))))"

definition encode_snapshot :: "'j json \<Rightarrow> ClusterControlState \<Rightarrow> string + 'j" where
  "encode_snapshot js st = js_of_snapshot js (ser_snapshot st)"

definition decode_snapshot :: "'j json \<Rightarrow> 'j \<Rightarrow> RaftError + ClusterControlState" where
  "decode_snapshot js data = res_bind (map_err RaftJson (js_to_snapshot js data)) deser_snapshot"

subsection \<open>The state machine\<close>

record ClusterStateMachine =
  sm_state :: ClusterControlState

definition ClusterStateMachine_new :: ClusterStateMachine where
  "ClusterStateMachine_new = \<lparr>sm_state = ClusterControlState_new\<rparr>"

definition sm_apply :: "'j json \<Rightarrow> 'j \<Rightarrow> ClusterStateMachine \<Rightarrow> ClusterStateMachine" where
  "sm_apply js command sm =
     (case decode_command js command of
        Inl _ \<Rightarrow> sm
      | Inr cmd \<Rightarrow> sm\<lparr>sm_state := fst (control_apply cmd (sm_state sm))\<rparr>)"

definition sm_apply_with_result :: "'j json \<Rightarrow> 'j \<Rightarrow> ClusterStateMachine \<Rightarrow> ClusterStateMachine \<times> 'j" where
  "sm_apply_with_result js command sm =
     (case decode_command js command of
        Inl e \<Rightarrow> (sm, unwrap_or (js_empty js) (js_of_answer js (AvError e)))
      | Inr cmd \<Rightarrow>
          (case control_apply cmd (sm_state sm) of
             (st, Inr _) \<Rightarrow> (sm\<lparr>sm_state := st\<rparr>, js_empty js)
           | (st, Inl e) \<Rightarrow>
               (sm\<lparr>sm_state := st\<rparr>, unwrap_or (js_empty js) (js_of_answer js (AvError (RaftControl e))))))"

definition sm_snapshot :: "'j json \<Rightarrow> ClusterStateMachine \<Rightarrow> 'j" where
  "sm_snapshot js sm = unwrap_or (js_empty js) (encode_snapshot js (sm_state sm))"

definition sm_restore :: "'j json \<Rightarrow> 'j \<Rightarrow> ClusterStateMachine \<Rightarrow> ClusterStateMachine" where
  "sm_restore js snapshot_data sm =
     (case decode_snapshot js snapshot_data of Inl _ \<Rightarrow> sm | Inr st \<Rightarrow> sm\<lparr>sm_state := st\<rparr>)"

fun handle_query :: "'j json \<Rightarrow> ClusterControlState \<Rightarrow> ClusterQuery \<Rightarrow> 'j" where
  "handle_query js st CqControlSnapshot = unwrap_or (js_empty js) (encode_snapshot js st)"
| "handle_query js st (CqResolveTarget shard_id) =
     unwrap_or (js_empty js) (js_of_answer js (AvOptString (resolve_ipto_target st shard_id)))"
| "handle_query js st (CqResolveWithFallback shard_id) =
     unwrap_or (js_empty js) (js_of_answer js (AvStrings (resolve_with_fallback st shard_id)))"
| "handle_query js st CqListIptoInstances =
     unwrap_or (js_empty js) (js_of_answer js (AvStrings (all_ipto_instances st)))"
| "handle_query js st CqCurrentPlacementEpoch =
     unwrap_or (js_empty js) (js_of_answer js (AvOptU64 (map_option pm_epoch (placement_map st))))"
| "handle_query js st (CqGetWriterLease target) =
     unwrap_or (js_empty js) (js_of_answer js (AvOptString (map_option wl_holder (writer_lease st target))))"
| "handle_query js st (CqGetOutboxCheckpoint shard_id target) =
     unwrap_or (js_empty js)
       (js_of_answer js (AvOptU64 (map_option oc_last_acknowledged_offset (outbox_checkpoint st shard_id target))))"
| "handle_query js st (CqGetSealedSegment segment_id) =
     unwrap_or (js_empty js) (js_of_answer js (AvOptU64 (map_option sm_checksum (sealed_segment st segment_id))))"

definition sm_query :: "'j json \<Rightarrow> 'j \<Rightarrow> ClusterStateMachine \<Rightarrow> 'j" where
  "sm_query js request sm =
     (case js_to_query js request of
        Inl e \<Rightarrow> unwrap_or (js_empty js) (js_of_answer js (AvError (RaftJson e)))
      | Inr query \<Rightarrow> handle_query js (sm_state sm) query)"

subsection \<open>Replicated machines\<close>

locale replicated_machine =
  fixes step :: "'c \<Rightarrow> 's \<Rightarrow> 's"
    and start :: 's
    and dump :: "'s \<Rightarrow> 'd"
    and load :: "'d \<Rightarrow> 'e + 's"
    and good :: "'s \<Rightarrow> bool"
    and admissible :: "'c \<Rightarrow> bool"
  assumes good_start: "good start"
    and good_step: "good s \<Longrightarrow> admissible c \<Longrightarrow> good (step c s)"
    and load_dump: "good s \<Longrightarrow> load (dump s) = Ok s"
begin

lemma good_log: "good s \<Longrightarrow> list_all admissible cs \<Longrightarrow> good (fold step cs s)"
  by (induction cs arbitrary: s) (auto simp: good_step)

lemma catch_up:
  assumes "list_all admissible cs"
  shows "res_bind (load (dump (fold step cs start))) (\<lambda>s. Ok (fold step ds s)) = Ok (fold step (cs @ ds) start)"
  using load_dump [OF good_log [OF good_start assms]] by simp

end

subsection \<open>What every decoded command and every reachable state satisfies\<close>

definition placement_wf :: "IptoPlacementMap \<Rightarrow> bool" where
  "placement_wf m \<longleftrightarrow>
     list_all (\<lambda>s. sl_vnodes s \<noteq> 0) (pm_slots m) \<and> list_all (\<lambda>r. rn_start r \<le> rn_end r) (pm_overrides m) \<and>
     IptoPlacementMap_new (pm_epoch m) (pm_slots m) (pm_overrides m) = Ok m"

definition command_ok :: "ClusterControlCommand \<Rightarrow> bool" where
  "command_ok c \<longleftrightarrow>
     (case c of SetIptoPlacementMap m \<Rightarrow> placement_wf m | RecordSealedSegment s \<Rightarrow> rust_string (sm_path s) | _ \<Rightarrow> True)"

definition state_ok :: "ClusterControlState \<Rightarrow> bool" where
  "state_ok st \<longleftrightarrow> control_wf st \<and>
     (\<forall>e m. bt_get (cs_placement_maps st) e = Some m \<longrightarrow> placement_wf m) \<and>
     (\<forall>i s. bt_get (cs_sealed_segments st) i = Some s \<longrightarrow> rust_string (sm_path s))"

lemma collect_results_map:
  "(\<And>x. x \<in> set xs \<Longrightarrow> f (g x) = Ok x) \<Longrightarrow> collect_results (map f (map g xs)) = Ok xs"
  by (induction xs) auto

lemma collect_results_ok: "collect_results rs = Ok xs \<longleftrightarrow> rs = map Ok xs"
  by (induction rs arbitrary: xs) (auto simp: Cons_eq_map_conv)

lemma from_to_ser_slots: "list_all (\<lambda>s. sl_vnodes s \<noteq> 0) slots \<Longrightarrow> from_ser_slots (to_ser_slots slots) = Ok slots"
  unfolding from_ser_slots_def to_ser_slots_def
  by (rule collect_results_map) (simp add: IptoPlacementSlot_new_def list_all_iff)

lemma from_to_ser_overrides:
  "list_all (\<lambda>r. rn_start r \<le> rn_end r) ranges \<Longrightarrow> from_ser_overrides (to_ser_overrides ranges) = Ok ranges"
  unfolding from_ser_overrides_def to_ser_overrides_def
  by (rule collect_results_map) (auto simp: IptoPlacementRange_new_def list_all_iff not_less)

lemma from_to_ser_map: "placement_wf m \<Longrightarrow> from_ser_map (to_ser_map (pm_epoch m) m) = Ok m"
  by (simp add: from_ser_map_def to_ser_map_def placement_wf_def from_to_ser_slots from_to_ser_overrides)

lemma from_ser_map_wf:
  assumes "from_ser_map ser = Ok m"
  shows "placement_wf m"
proof -
  from assms obtain slots overrides where
    s: "from_ser_slots (spm_slots ser) = Ok slots" and o: "from_ser_overrides (spm_overrides ser) = Ok overrides"
    and m: "IptoPlacementMap_new (spm_epoch ser) slots overrides = Ok m" by (auto simp: from_ser_map_def)
  have slots: "list_all (\<lambda>s. sl_vnodes s \<noteq> 0) slots"
  proof (unfold list_all_iff, rule ballI)
    fix x assume "x \<in> set slots"
    with s have "Ok x \<in> set (map (\<lambda>s. IptoPlacementSlot_new (ss_instance s) (ss_vnodes s)) (spm_slots ser))"
      unfolding from_ser_slots_def collect_results_ok by simp
    then show "sl_vnodes x \<noteq> 0" by (auto simp: IptoPlacementSlot_new_def split: if_splits)
  qed
  have ranges: "\<forall>r \<in> set overrides. rn_start r \<le> rn_end r"
  proof
    fix x assume "x \<in> set overrides"
    with o have "Ok x \<in> set (map (\<lambda>r. IptoPlacementRange_new (sr_start r) (sr_end r) (sr_target r)) (spm_overrides ser))"
      unfolding from_ser_overrides_def collect_results_ok by simp
    then show "rn_start x \<le> rn_end x" by (auto simp: IptoPlacementRange_new_def not_less split: if_splits)
  qed
  note new = IptoPlacementMap_new_okD [OF m]
  have "IptoPlacementMap_new (spm_epoch ser) slots (sort_key rn_start overrides) = Ok m"
    using new by (simp add: IptoPlacementMap_new_def Let_def sort_key_id_if_sorted)
  with slots ranges new show ?thesis by (simp add: placement_wf_def list_all_iff)
qed

lemma bt_fold_insert:
  "asc_keys (bt_iter m @ es) \<Longrightarrow> bt_iter (fold (\<lambda>(k, v). bt_insert k v) es m) = bt_iter m @ es"
proof (induction es arbitrary: m)
  case (Cons e es)
  obtain k v where e: "e = (k, v)" by fastforce
  with Cons.prems have "\<forall>x \<in> set (bt_iter m). fst x < k" by (simp add: asc_keys_append)
  with Cons e show ?case by (simp add: bt_iter_insert_last)
qed simp

lemma bt_from_list_iter [simp]: "bt_from_list (bt_iter m) = m"
  using bt_fold_insert [of bt_empty "bt_iter m"] by (simp add: bt_from_list_def bt_iter_inject)

lemma from_to_ser_values:
  "from_ser_lease (to_ser_lease (wl_target l) l) = l"
  "from_ser_outbox_checkpoint (to_ser_outbox_checkpoint (oc_data_individual_shard_id c) (oc_target c) c) = c"
  "rust_string (sm_path s) \<Longrightarrow> from_ser_segment (to_ser_segment s) = s"
  "from_ser_checkpoint (to_ser_checkpoint cm) = cm"
  by (simp_all add: from_ser_lease_def to_ser_lease_def from_ser_outbox_checkpoint_def to_ser_outbox_checkpoint_def
      from_ser_segment_def to_ser_segment_def from_ser_checkpoint_def to_ser_checkpoint_def comp_def case_prod_beta)

lemma deser_ser_command: "command_ok c \<Longrightarrow> deser_command (ser_command c) = Ok c"
  by (cases c) (simp_all add: command_ok_def from_to_ser_map from_to_ser_values)

lemma decoded_command_ok:
  assumes "deser_command d = Ok c" "\<And>m. c = RecordSealedSegment m \<Longrightarrow> rust_string (sm_path m)"
  shows "command_ok c"
  using assms by (cases d) (auto simp: command_ok_def from_ser_map_wf)

lemma state_ok_new: "state_ok ClusterControlState_new"
  by (simp add: state_ok_def control_wf_new) (simp add: ClusterControlState_new_def)

lemma state_ok_apply: "state_ok st \<Longrightarrow> command_ok c \<Longrightarrow> state_ok (fst (control_apply c st))"
proof -
  assume st: "state_ok st" and c: "command_ok c"
  have "control_wf (fst (control_apply c st))" using st control_wf_apply by (simp add: state_ok_def)
  moreover have "placement_wf m" if "bt_get (cs_placement_maps (fst (control_apply c st))) e = Some m" for e m
    using that st c
    by (cases c) (auto simp: state_ok_def command_ok_def insert_placement_map_def Let_def bt_get_insert
        split: option.splits if_splits dest!: bt_get_prune)
  moreover have "rust_string (sm_path s)" if "bt_get (cs_sealed_segments (fst (control_apply c st))) i = Some s" for i s
    using that st c
    by (cases c) (auto simp: state_ok_def command_ok_def insert_placement_map_def Let_def bt_get_insert
        split: option.splits if_splits)
  ultimately show ?thesis by (simp add: state_ok_def)
qed

subsection \<open>Loading a dump\<close>

lemma bt_prefix:
  assumes "bt_iter m @ (k, v) # rest = bt_iter M"
  shows "bt_get M k = Some v" "bt_get m k = None" "bt_iter (bt_insert k v m) = bt_iter m @ [(k, v)]"
    and "bt_get m k' = Some v' \<Longrightarrow> bt_get M k' = Some v' \<and> k' < k"
proof -
  have "asc_keys (bt_iter m @ (k, v) # rest)" unfolding assms by simp
  then have less: "\<forall>x \<in> set (bt_iter m). fst x < k" by (simp add: asc_keys_append)
  then show "bt_iter (bt_insert k v m) = bt_iter m @ [(k, v)]" by (rule bt_iter_insert_last)
  show "bt_get M k = Some v" by (simp add: bt_get_iter flip: assms)
  have "bt_get m k \<noteq> Some x" for x using less by (auto simp: bt_get_iter)
  then show "bt_get m k = None" by (cases "bt_get m k") auto
  show "bt_get M k' = Some v' \<and> k' < k" if "bt_get m k' = Some v'"
    using that less by (auto simp: bt_get_iter simp flip: assms)
qed

lemma apply_each_entries:
  assumes "bt_iter m @ es = bt_iter M"
    and step: "\<And>m' k v rest. bt_iter m' @ (k, v) # rest = bt_iter M \<Longrightarrow>
      \<exists>c. conv (ser (k, v)) = Ok c \<and> control_apply c (ctx m') = (ctx (bt_insert k v m'), Ok ())"
  shows "apply_each conv (map ser es) (ctx m) = Ok (ctx M)"
  using assms(1)
proof (induction es arbitrary: m)
  case Nil
  then show ?case by (simp add: bt_iter_inject)
next
  case (Cons e es)
  obtain k v where e: "e = (k, v)" by fastforce
  with Cons.prems have pre: "bt_iter m @ (k, v) # es = bt_iter M" by simp
  from step [OF pre] obtain c where "conv (ser (k, v)) = Ok c" "control_apply c (ctx m) = (ctx (bt_insert k v m), Ok ())" by blast
  moreover have "apply_each conv (map ser es) (ctx (bt_insert k v m)) = Ok (ctx M)"
    using pre by (intro Cons.IH) (simp add: bt_prefix(3) [OF pre])
  ultimately show ?case by (simp add: e)
qed

lemma load_nodes:
  "apply_each (\<lambda>node. Ok (AddNode node)) ns st = Ok (st\<lparr>cs_nodes := fset_of_list ns |\<union>| cs_nodes st\<rparr>)"
  by (induction ns arbitrary: st) (auto simp: ClusterControlState.defs)

lemma load_placement_maps:
  assumes "\<And>e m. bt_get M e = Some m \<Longrightarrow> pm_epoch m = e \<and> placement_wf m" "bt_len M \<le> MAX_PLACEMENT_HISTORY"
    and "cs_placement_maps st = bt_empty"
  shows "apply_each (\<lambda>m. res_bind (from_ser_map m) (\<lambda>m. Ok (SetIptoPlacementMap m)))
    (map (\<lambda>(epoch, m). to_ser_map epoch m) (bt_iter M)) st = Ok (st\<lparr>cs_placement_maps := M\<rparr>)"
proof -
  have "\<exists>c. res_bind (from_ser_map (case (k, v) of (epoch, m) \<Rightarrow> to_ser_map epoch m)) (\<lambda>m. Ok (SetIptoPlacementMap m)) = Ok c \<and>
      control_apply c (st\<lparr>cs_placement_maps := m\<rparr>) = (st\<lparr>cs_placement_maps := bt_insert k v m\<rparr>, Ok ())"
    if pre: "bt_iter m @ (k, v) # rest = bt_iter M" for m k v rest
  proof -
    note p = bt_prefix [OF pre]
    from assms(1) [OF p(1)] have v: "pm_epoch v = k" "placement_wf v" by auto
    have "length (bt_iter (bt_insert k v m)) \<le> bt_len M"
      unfolding p(3) bt_len_def by (simp flip: pre)
    then have keep: "prune_history (bt_insert k v m) = bt_insert k v m"
      using assms(2) by (subst prune_history.simps) (simp add: bt_len_def)
    have "\<not> pm_epoch v \<le> pm_epoch cur" if "bt_last m = Some (k', cur)" for k' cur
      using that p(4) [of k' cur] assms(1) [of k' cur] v(1) by (auto simp: bt_last_Some)
    then show ?thesis using from_to_ser_map [OF v(2)] v(1) keep
      by (auto simp: insert_placement_map_def split: option.split)
  qed
  then have "apply_each (\<lambda>m. res_bind (from_ser_map m) (\<lambda>m. Ok (SetIptoPlacementMap m)))
      (map (\<lambda>(epoch, m). to_ser_map epoch m) (bt_iter M)) (st\<lparr>cs_placement_maps := bt_empty\<rparr>) = Ok (st\<lparr>cs_placement_maps := M\<rparr>)"
    by (intro apply_each_entries [where ctx = "\<lambda>m. st\<lparr>cs_placement_maps := m\<rparr>"]) simp_all
  moreover have "st\<lparr>cs_placement_maps := bt_empty\<rparr> = st" using assms(3) by (cases st) simp
  ultimately show ?thesis by simp
qed

lemma load_leases:
  assumes "\<And>t l. bt_get M t = Some l \<Longrightarrow> wl_target l = t \<and> wl_holder l |\<in>| cs_nodes st" and "cs_writer_leases st = bt_empty"
  shows "apply_each (\<lambda>l. Ok (GrantWriterLease (from_ser_lease l)))
    (map (\<lambda>(target, l). to_ser_lease target l) (bt_iter M)) st = Ok (st\<lparr>cs_writer_leases := M\<rparr>)"
proof -
  have "\<exists>c. Ok (GrantWriterLease (from_ser_lease (case (k, v) of (target, l) \<Rightarrow> to_ser_lease target l))) = (Ok c :: RaftError + _) \<and>
      control_apply c (st\<lparr>cs_writer_leases := m\<rparr>) = (st\<lparr>cs_writer_leases := bt_insert k v m\<rparr>, Ok ())"
    if pre: "bt_iter m @ (k, v) # rest = bt_iter M" for m k v rest
    using bt_prefix(2) [OF pre] assms(1) [OF bt_prefix(1) [OF pre]] from_to_ser_values(1) [of v] by auto
  then have "apply_each (\<lambda>l. Ok (GrantWriterLease (from_ser_lease l)))
      (map (\<lambda>(target, l). to_ser_lease target l) (bt_iter M)) (st\<lparr>cs_writer_leases := bt_empty\<rparr>) = Ok (st\<lparr>cs_writer_leases := M\<rparr>)"
    by (intro apply_each_entries [where ctx = "\<lambda>m. st\<lparr>cs_writer_leases := m\<rparr>"]) simp_all
  moreover have "st\<lparr>cs_writer_leases := bt_empty\<rparr> = st" using assms(2) by (cases st) simp
  ultimately show ?thesis by simp
qed

lemma load_outbox_checkpoints:
  assumes "\<And>k c. bt_get M k = Some c \<Longrightarrow> k = (oc_data_individual_shard_id c, oc_target c)" and "cs_outbox_checkpoints st = bt_empty"
  shows "apply_each (\<lambda>c. Ok (RecordOutboxCheckpoint (from_ser_outbox_checkpoint c)))
    (map (\<lambda>((shard_id, target), c). to_ser_outbox_checkpoint shard_id target c) (bt_iter M)) st
    = Ok (st\<lparr>cs_outbox_checkpoints := M\<rparr>)"
proof -
  let ?ser = "\<lambda>((shard_id, target), c). to_ser_outbox_checkpoint shard_id target c"
  have "\<exists>c. Ok (RecordOutboxCheckpoint (from_ser_outbox_checkpoint (?ser (k, v)))) = (Ok c :: RaftError + _) \<and>
      control_apply c (st\<lparr>cs_outbox_checkpoints := m\<rparr>) = (st\<lparr>cs_outbox_checkpoints := bt_insert k v m\<rparr>, Ok ())"
    if pre: "bt_iter m @ (k, v) # rest = bt_iter M" for m k v rest
    using bt_prefix(2) [OF pre] assms(1) [OF bt_prefix(1) [OF pre]] from_to_ser_values(2) [of v] by auto
  then have "apply_each (\<lambda>c. Ok (RecordOutboxCheckpoint (from_ser_outbox_checkpoint c)))
      (map ?ser (bt_iter M)) (st\<lparr>cs_outbox_checkpoints := bt_empty\<rparr>) = Ok (st\<lparr>cs_outbox_checkpoints := M\<rparr>)"
    by (intro apply_each_entries [where ctx = "\<lambda>m. st\<lparr>cs_outbox_checkpoints := m\<rparr>"]) simp_all
  moreover have "st\<lparr>cs_outbox_checkpoints := bt_empty\<rparr> = st" using assms(2) by (cases st) simp
  ultimately show ?thesis by simp
qed

lemma map_values: "map f (bt_values m) = map (\<lambda>(k, v). f v) (bt_iter m)"
  by (simp add: bt_values_def case_prod_beta)

lemma load_sealed_segments:
  assumes "\<And>i s. bt_get M i = Some s \<Longrightarrow> sm_segment_id s = i \<and> rust_string (sm_path s)" and "cs_sealed_segments st = bt_empty"
  shows "apply_each (\<lambda>m. Ok (RecordSealedSegment (from_ser_segment m))) (map to_ser_segment (bt_values M)) st
    = Ok (st\<lparr>cs_sealed_segments := M\<rparr>)"
proof -
  have "\<exists>c. Ok (RecordSealedSegment (from_ser_segment (case (k, v) of (i, s) \<Rightarrow> to_ser_segment s))) = (Ok c :: RaftError + _) \<and>
      control_apply c (st\<lparr>cs_sealed_segments := m\<rparr>) = (st\<lparr>cs_sealed_segments := bt_insert k v m\<rparr>, Ok ())"
    if pre: "bt_iter m @ (k, v) # rest = bt_iter M" for m k v rest
    using assms(1) [OF bt_prefix(1) [OF pre]] from_to_ser_values(3) [of v] by auto
  then have "apply_each (\<lambda>m. Ok (RecordSealedSegment (from_ser_segment m)))
      (map (\<lambda>(i, s). to_ser_segment s) (bt_iter M)) (st\<lparr>cs_sealed_segments := bt_empty\<rparr>) = Ok (st\<lparr>cs_sealed_segments := M\<rparr>)"
    by (intro apply_each_entries [where ctx = "\<lambda>m. st\<lparr>cs_sealed_segments := m\<rparr>"]) simp_all
  moreover have "st\<lparr>cs_sealed_segments := bt_empty\<rparr> = st" using assms(2) by (cases st) simp
  ultimately show ?thesis by (simp add: map_values)
qed

lemma load_checkpoints:
  assumes "\<And>i c. bt_get M i = Some c \<Longrightarrow> cm_checkpoint_id c = i" and "cs_checkpoints st = bt_empty"
  shows "apply_each (\<lambda>c. Ok (RecordCheckpoint (from_ser_checkpoint c))) (map to_ser_checkpoint (bt_values M)) st
    = Ok (st\<lparr>cs_checkpoints := M\<rparr>)"
proof -
  have "\<exists>c. Ok (RecordCheckpoint (from_ser_checkpoint (case (k, v) of (i, s) \<Rightarrow> to_ser_checkpoint s))) = (Ok c :: RaftError + _) \<and>
      control_apply c (st\<lparr>cs_checkpoints := m\<rparr>) = (st\<lparr>cs_checkpoints := bt_insert k v m\<rparr>, Ok ())"
    if pre: "bt_iter m @ (k, v) # rest = bt_iter M" for m k v rest
    using bt_prefix(2) [OF pre] assms(1) [OF bt_prefix(1) [OF pre]] from_to_ser_values(4) [of v] by auto
  then have "apply_each (\<lambda>c. Ok (RecordCheckpoint (from_ser_checkpoint c)))
      (map (\<lambda>(i, s). to_ser_checkpoint s) (bt_iter M)) (st\<lparr>cs_checkpoints := bt_empty\<rparr>) = Ok (st\<lparr>cs_checkpoints := M\<rparr>)"
    by (intro apply_each_entries [where ctx = "\<lambda>m. st\<lparr>cs_checkpoints := m\<rparr>"]) simp_all
  moreover have "st\<lparr>cs_checkpoints := bt_empty\<rparr> = st" using assms(2) by (cases st) simp
  ultimately show ?thesis by (simp add: map_values)
qed

lemma deser_ser_snapshot:
  assumes "state_ok st"
  shows "deser_snapshot (ser_snapshot st) = Ok st"
proof -
  have "fset_of_list (sorted_list_of_fset (cs_nodes st)) = cs_nodes st" by simp
  moreover have "k = (oc_data_individual_shard_id c, oc_target c)" if "bt_get (cs_outbox_checkpoints st) k = Some c" for k c
    using assms that by (simp only: state_ok_def control_wf_def)
  note load_outbox = load_outbox_checkpoints [OF this]
  ultimately show ?thesis using assms
    by (simp add: deser_snapshot_def ser_snapshot_def placement_map_history_def state_ok_def control_wf_def
        load_nodes load_placement_maps load_leases load_outbox load_sealed_segments load_checkpoints
        ClusterControlState_new_def)
qed

interpretation control: replicated_machine "\<lambda>c st. fst (control_apply c st)" ClusterControlState_new
  ser_snapshot deser_snapshot state_ok command_ok
  by unfold_locales (auto simp: state_ok_new state_ok_apply deser_ser_snapshot)

subsection \<open>Properties\<close>

definition sm_run :: "'j json \<Rightarrow> 'j list \<Rightarrow> ClusterStateMachine \<Rightarrow> ClusterStateMachine" where
  "sm_run js log sm = fold (sm_apply js) log sm"

text \<open>The commands of a log that can be decoded.\<close>

definition decoded :: "'j json \<Rightarrow> 'j list \<Rightarrow> ClusterControlCommand list" where
  "decoded js log = List.map_filter (\<lambda>d. case decode_command js d of Inl _ \<Rightarrow> None | Inr c \<Rightarrow> Some c) log"

lemma sm_run_decoded: "sm_run js log sm = sm\<lparr>sm_state := control_run (decoded js log) (sm_state sm)\<rparr>"
proof (induction log arbitrary: sm)
  case (Cons d log)
  then show ?case
    by (cases "decode_command js d") (simp_all add: sm_run_def sm_apply_def decoded_def control_run_def)
qed (simp add: sm_run_def decoded_def control_run_def)

lemma decoded_ok:
  assumes "\<And>d m. d \<in> set log \<Longrightarrow> decode_command js d = Ok (RecordSealedSegment m) \<Longrightarrow> rust_string (sm_path m)"
  shows "list_all command_ok (decoded js log)"
proof -
  have "command_ok c" if "d \<in> set log" "decode_command js d = Ok c" for c d
    using that(2) assms [OF that(1)] decoded_command_ok [of _ c] by (auto simp: decode_command_def)
  then show ?thesis
    unfolding decoded_def by (induction log) (auto split: sum.splits)
qed

text \<open>
  (C21) A replica catches up from a snapshot. Whatever log of documents the leader has applied,
  decodable or not, a snapshot taken after any part of it and restored into any state machine,
  followed by the rest of the log, gives the state machine that applied the whole log; and encoding
  a well-formed command and applying the document applies the command.
\<close>

theorem snapshot_catch_up:
  assumes "json_ok js"
    and "\<forall>d m. d \<in> set log \<longrightarrow> decode_command js d = Ok (RecordSealedSegment m) \<longrightarrow> rust_string (sm_path m)"
  shows "sm_run js rest (sm_restore js (sm_snapshot js (sm_run js log ClusterStateMachine_new)) sm)
      = sm_run js (log @ rest) ClusterStateMachine_new \<and>
    (command_ok c \<longrightarrow> (\<exists>d. encode_command js c = Ok d \<and>
      sm_apply js d sm = \<lparr>sm_state = fst (control_apply c (sm_state sm))\<rparr>))"
proof (intro conjI impI)
  let ?st = "control_run (decoded js log) ClusterControlState_new"
  have "list_all command_ok (decoded js log)" using assms(2) by (intro decoded_ok) blast
  from control.load_dump [OF control.good_log [OF control.good_start this]]
  have "deser_snapshot (ser_snapshot ?st) = Ok ?st" by (simp add: control_run_def)
  moreover obtain d where "js_of_snapshot js (ser_snapshot ?st) = Ok d" "js_to_snapshot js d = Ok (ser_snapshot ?st)"
    using assms(1) by (auto simp: json_ok_def)
  ultimately have "sm_restore js (sm_snapshot js (sm_run js log ClusterStateMachine_new)) sm = \<lparr>sm_state = ?st\<rparr>"
    by (simp add: sm_restore_def sm_snapshot_def encode_snapshot_def decode_snapshot_def unwrap_or_def
        sm_run_decoded ClusterStateMachine_new_def)
  moreover have "sm_run js log ClusterStateMachine_new = \<lparr>sm_state = ?st\<rparr>"
    by (simp add: sm_run_decoded ClusterStateMachine_new_def)
  ultimately show "sm_run js rest (sm_restore js (sm_snapshot js (sm_run js log ClusterStateMachine_new)) sm)
      = sm_run js (log @ rest) ClusterStateMachine_new" by (simp add: sm_run_def)
  show "\<exists>d. encode_command js c = Ok d \<and> sm_apply js d sm = \<lparr>sm_state = fst (control_apply c (sm_state sm))\<rparr>"
    if c: "command_ok c"
  proof -
    obtain d where "js_of_command js (ser_command c) = Ok d" "js_to_command js d = Ok (ser_command c)"
      using assms(1) by (auto simp: json_ok_def)
    with deser_ser_command [OF c] show ?thesis
      by (intro exI [of _ d]) (cases sm, simp add: encode_command_def sm_apply_def decode_command_def)
  qed
qed

text \<open>A document type that holds the values themselves.\<close>

datatype sample_doc = DocCommand SerCommandVariant | DocSnapshot SerClusterControlSnapshot | DocAnswer AnswerValue

definition sample_json :: "sample_doc json" where
  "sample_json =
     \<lparr>js_empty = DocAnswer (AvStrings []),
      js_of_command = (\<lambda>c. Ok (DocCommand c)),
      js_to_command = (\<lambda>d. case d of DocCommand c \<Rightarrow> Ok c | _ \<Rightarrow> Err ''not a command''),
      js_of_snapshot = (\<lambda>s. Ok (DocSnapshot s)),
      js_to_snapshot = (\<lambda>d. case d of DocSnapshot s \<Rightarrow> Ok s | _ \<Rightarrow> Err ''not a snapshot''),
      js_to_query = (\<lambda>d. Err ''not a query''),
      js_of_answer = (\<lambda>a. Ok (DocAnswer a))\<rparr>"

lemma snapshot_catch_up_witness:
  "let log = [DocCommand (ScAddNode ''a''), DocAnswer (AvStrings [])];
       rest = [DocCommand (ScGrantWriterLease \<lparr>swl_target = ''t'', swl_holder = ''a'', swl_epoch = 4\<rparr>)];
       sm = sm_run sample_json rest
         (sm_restore sample_json (sm_snapshot sample_json (sm_run sample_json log ClusterStateMachine_new)) ClusterStateMachine_new)
   in map_option wl_epoch (writer_lease (sm_state sm) ''t'') = Some 4 \<and> (\<exists>d. encode_command sample_json (AddNode ''b'') = Ok d)"
proof -
  have ok: "json_ok sample_json" by (simp add: json_ok_def sample_json_def)
  have "\<forall>d m. d \<in> set [DocCommand (ScAddNode ''a''), DocAnswer (AvStrings [])] \<longrightarrow>
      decode_command sample_json d = Ok (RecordSealedSegment m) \<longrightarrow> rust_string (sm_path m)"
    by (auto simp: decode_command_def sample_json_def)
  note catch_up = snapshot_catch_up [OF ok this, of _ ClusterStateMachine_new]
  have "command_ok (AddNode ''b'')" by (simp add: command_ok_def)
  with catch_up [THEN conjunct2] show ?thesis
    unfolding Let_def catch_up [THEN conjunct1]
    by (auto simp: sm_run_def sm_apply_def decode_command_def sample_json_def ClusterStateMachine_new_def
        ClusterControlState_new_def from_ser_lease_def writer_lease_def)
qed

end
