(* ===== verification/Http_Api.thy ===== *)
theory Http_Api
  imports Raft_SM Durga Service
begin

text \<open>
  The handlers of the HTTP endpoint of \<open>src/daemon.rs\<close> for process events, metadata events and queries,
  from the body of a request to the response. Reading requests and the routes are in \<open>Http_Server\<close>.

  \<open>serde_json\<close> is a parameter: \<open>from_str\<close> parses a text into a \<open>json_value\<close>, \<open>to_text\<close> renders one. A
  value is the library's enum; a number is an integer or something else, an object the list of its
  entries. The texts that errors render to are parameters too. A generated event id is made from the
  process id, the clock and a counter, given by \<open>id_source\<close>.

  The main result ties the answer for the body of a process event to the journal of the service.
\<close>

subsection \<open>JSON values\<close>

datatype json_value =
  JNull
| JBool bool
| JInt int
| JFloat string
| JString string
| JArray "json_value list"
| JObject "(string \<times> json_value) list"

fun json_get :: "json_value \<Rightarrow> string \<Rightarrow> json_value option" where
  "json_get (JObject fs) k = map_of fs k"
| "json_get _ k = None"

fun json_as_str :: "json_value \<Rightarrow> string option" where
  "json_as_str (JString s) = Some s"
| "json_as_str _ = None"

fun json_as_u64 :: "json_value \<Rightarrow> u64 option" where
  "json_as_u64 (JInt n) = (if 0 \<le> n \<and> n < 2 ^ 64 then Some (of_int n) else None)"
| "json_as_u64 _ = None"

fun json_as_i64 :: "json_value \<Rightarrow> i64 option" where
  "json_as_i64 (JInt n) = (if - (2 ^ 63) \<le> n \<and> n < 2 ^ 63 then Some (of_int n) else None)"
| "json_as_i64 _ = None"

fun json_as_bool :: "json_value \<Rightarrow> bool option" where
  "json_as_bool (JBool b) = Some b"
| "json_as_bool _ = None"

fun json_as_array :: "json_value \<Rightarrow> json_value list option" where
  "json_as_array (JArray vs) = Some vs"
| "json_as_array _ = None"

definition json_string_field :: "json_value \<Rightarrow> string \<Rightarrow> string option" where
  "json_string_field v k = Option.bind (json_get v k) json_as_str"

definition json_u64_field :: "json_value \<Rightarrow> string \<Rightarrow> u64 option" where
  "json_u64_field v k = Option.bind (json_get v k) json_as_u64"

subsection \<open>Process events\<close>

record id_source =
  ids_pid :: nat
  ids_nanos :: nat
  ids_counter :: u64

definition ingest_event_id :: "id_source \<Rightarrow> EventId" where
  "ingest_event_id ids =
     ''ingest-'' @ decimal (ids_pid ids) @ ''-'' @ decimal (ids_nanos ids) @ ''-'' @ decimal (unat (ids_counter ids))"

definition parse_event_kind :: "string \<Rightarrow> EventKind option" where
  "parse_event_kind s =
     (if s = ''ProcessStarted'' then Some ProcessStarted
      else if s = ''ProcessCompleted'' then Some ProcessCompleted
      else if s = ''ProcessFailed'' then Some ProcessFailed
      else if s = ''ActivityEntered'' then Some ActivityEntered
      else if s = ''ActivityCompleted'' then Some ActivityCompleted
      else if s = ''ActivityCancelled'' then Some ActivityCancelled
      else if s = ''ActivityEscalated'' then Some ActivityEscalated
      else if s = ''GatewayTaken'' then Some GatewayTaken
      else None)"

definition or_default :: "'a \<Rightarrow> 'a option \<Rightarrow> 'a" where
  "or_default d x = (case x of None \<Rightarrow> d | Some v \<Rightarrow> v)"

definition ingest_event_of :: "json_value \<Rightarrow> EventId \<Rightarrow> ProcessInstanceId \<Rightarrow> PipelineId \<Rightarrow> EventKind \<Rightarrow> PipelineEvent" where
  "ingest_event_of v event_id pi_id pipeline_id kind =
     (let timestamp = or_default ''unknown'' (json_string_field v ''timestamp'');
          tenant_id = or_default ''demo'' (json_string_field v ''tenant_id'');
          environment_id = or_default ''demo'' (json_string_field v ''environment_id'');
          event = PipelineEvent_new event_id ''daemon-http'' 0 tenant_id environment_id pipeline_id ''demo-definition''
                    pi_id timestamp kind
      in case json_string_field v ''activity_id'' of
           None \<Rightarrow> event
         | Some activity_id \<Rightarrow> with_activity_id activity_id event)"

definition parse_ingest_event_json ::
  "(string \<Rightarrow> string + json_value) \<Rightarrow> id_source \<Rightarrow> string \<Rightarrow> id_source \<times> PipelineEvent option" where
  "parse_ingest_event_json from_str ids body =
     (case from_str body of
        Inl _ \<Rightarrow> (ids, None)
      | Inr v \<Rightarrow>
          (case json_string_field v ''process_instance_id'' of
             None \<Rightarrow> (ids, None)
           | Some pi_id \<Rightarrow>
          (case json_string_field v ''pipeline_id'' of
             None \<Rightarrow> (ids, None)
           | Some pipeline_id \<Rightarrow>
          (case json_string_field v ''kind'' of
             None \<Rightarrow> (ids, None)
           | Some kind_str \<Rightarrow>
          (case parse_event_kind kind_str of
             None \<Rightarrow> (ids, None)
           | Some kind \<Rightarrow>
          (case json_string_field v ''event_id'' of
             Some event_id \<Rightarrow> (ids, Some (ingest_event_of v event_id pi_id pipeline_id kind))
           | None \<Rightarrow>
               (ids\<lparr>ids_counter := ids_counter ids + 1\<rparr>,
                Some (ingest_event_of v (ingest_event_id ids) pi_id pipeline_id kind))))))))"

text \<open>
  An event posted without a timestamp is stamped \<open>unknown\<close>, which is after every timestamp that starts
  with a digit: later events of the instance are taken for stale.
\<close>

lemma untimed_event_hides_later:
  assumes "json_string_field v ''timestamp'' = None" "pe_timestamp later = c # cs" "c \<le> CHR ''9''"
  shows "apply_event later (apply_event (ingest_event_of v e i p k) st) = apply_event (ingest_event_of v e i p k) st"
proof -
  have "pe_timestamp (ingest_event_of v e i p k) = ''unknown''"
    using assms(1) by (simp add: ingest_event_of_def or_default_def event_builder_defs Let_def split: option.split)
  moreover have "c < CHR ''u''" using assms(3) by (rule order.strict_trans1) (simp add: less_char_def)
  then have "pe_timestamp later < ''unknown''" by (simp add: assms(2))
  ultimately show ?thesis by (intro apply_stale) (auto simp: apply_last_updated max_def intro: order.strict_trans)
qed

subsection \<open>Metadata events\<close>

definition json_required :: "json_value \<Rightarrow> string \<Rightarrow> string + string" where
  "json_required v field =
     (case json_string_field v field of
        Some x \<Rightarrow> if trim_is_empty x then Err (''missing or empty '' @ field) else Ok x
      | None \<Rightarrow> Err (''missing or empty '' @ field))"

fun collect_strings :: "string \<Rightarrow> json_value list \<Rightarrow> string + string list" where
  "collect_strings err [] = Ok []"
| "collect_strings err (v # vs) =
     (case json_as_str v of
        None \<Rightarrow> Err err
      | Some s \<Rightarrow> res_bind (collect_strings err vs) (\<lambda>ss. Ok (s # ss)))"

definition parse_operation :: "json_value \<Rightarrow> string \<Rightarrow> string + MetadataOperation" where
  "parse_operation v operation =
     (if operation = ''Created'' then Ok MoCreated
      else if operation = ''Received'' then Ok MoReceived
      else if operation = ''Transformed''
        then Ok (MoTransformed (json_string_field v ''plugin_name'') (json_string_field v ''plugin_version''))
      else if operation = ''Masked'' then
        (case Option.bind (json_get v ''fields'') json_as_array of
           None \<Rightarrow> Err ''Masked requires fields''
         | Some vs \<Rightarrow> res_bind (collect_strings ''invalid masked field'' vs) (\<lambda>ss. Ok (MoMasked ss)))
      else if operation = ''Validated'' then
        (case Option.bind (json_get v ''passed'') json_as_bool of
           None \<Rightarrow> Err ''Validated requires passed''
         | Some b \<Rightarrow> Ok (MoValidated b))
      else if operation = ''Enriched'' then Ok (MoEnriched (json_string_field v ''source''))
      else if operation = ''Routed'' then Ok MoRouted
      else if operation = ''Persisted'' then Ok MoPersisted
      else Err ''invalid metadata operation'')"

fun parse_metadata_value :: "json_value \<Rightarrow> string + MetadataValue" where
  "parse_metadata_value (JString s) = Ok (MvString s)"
| "parse_metadata_value (JBool b) = Ok (MvBoolean b)"
| "parse_metadata_value (JArray vs) =
     res_bind (collect_strings ''metadata lists must contain strings'' vs) (\<lambda>ss. Ok (MvStringList ss))"
| "parse_metadata_value (JObject fs) =
     (if length fs = 1 then
        (case Option.bind (map_of fs ''timestamp'') json_as_str of
           None \<Rightarrow> Err ''expected timestamp object''
         | Some t \<Rightarrow> Ok (MvTimestamp t))
      else Err ''unsupported metadata value'')"
| "parse_metadata_value JNull = Err ''unsupported metadata value''"
| "parse_metadata_value v =
     (case json_as_i64 v of
        None \<Rightarrow> Err ''metadata numbers must be signed integers''
      | Some n \<Rightarrow> Ok (MvInteger n))"

fun insert_fields :: "(string \<Rightarrow> MetadataValue \<Rightarrow> 'm \<Rightarrow> 'm) \<Rightarrow> (string \<times> json_value) list \<Rightarrow> 'm \<Rightarrow> string + 'm" where
  "insert_fields ins [] m = Ok m"
| "insert_fields ins ((name, v) # fs) m =
     res_bind (parse_metadata_value v) (\<lambda>x. insert_fields ins fs (ins name x m))"

definition parse_metadata_fields ::
  "(string \<Rightarrow> MetadataValue \<Rightarrow> 'm \<Rightarrow> 'm) \<Rightarrow> json_value \<Rightarrow> string \<Rightarrow> 'm \<Rightarrow> string + 'm" where
  "parse_metadata_fields ins v field m =
     (case json_get v field of
        None \<Rightarrow> Ok m
      | Some (JObject fs) \<Rightarrow> insert_fields ins fs m
      | Some _ \<Rightarrow> Err (field @ '' must be an object''))"

definition parse_shard :: "json_value \<Rightarrow> DataIndividualId \<Rightarrow> string + DataIndividualShardId" where
  "parse_shard v data_id =
     (case json_get v ''data_individual_shard_id'' of
        Some x \<Rightarrow> (case json_as_u64 x of None \<Rightarrow> Err ''invalid data_individual_shard_id'' | Some n \<Rightarrow> Ok n)
      | None \<Rightarrow> Ok (from_data_individual data_id))"

definition parse_metadata_event_json ::
  "(string \<Rightarrow> string + json_value) \<Rightarrow> (IngestError \<Rightarrow> string) \<Rightarrow> string \<Rightarrow> string + DataIndividualMetadataEvent" where
  "parse_metadata_event_json from_str render body =
     res_bind (from_str body) (\<lambda>v.
     res_bind (json_required v ''data_individual_id'') (\<lambda>data_id.
     res_bind (parse_shard v data_id) (\<lambda>shard.
     res_bind (json_required v ''operation'') (\<lambda>operation.
     res_bind (parse_operation v operation) (\<lambda>operation.
     res_bind (json_required v ''metadata_event_id'') (\<lambda>metadata_event_id.
     res_bind (json_required v ''tenant_id'') (\<lambda>tenant_id.
     res_bind (json_required v ''environment_id'') (\<lambda>environment_id.
     res_bind (json_required v ''pipeline_id'') (\<lambda>pipeline_id.
     res_bind (json_required v ''process_instance_id'') (\<lambda>process_instance_id.
     res_bind (json_required v ''timestamp'') (\<lambda>timestamp.
     let event = DataIndividualMetadataEvent_new metadata_event_id data_id shard tenant_id environment_id pipeline_id
                   process_instance_id timestamp operation;
         event = if_some dm_with_activity_id (json_string_field v ''activity_id'') event;
         event = if_some with_source_payload_ref (json_string_field v ''source_payload_ref'') event in
     res_bind (parse_metadata_fields PassiveMetadata_insert v ''passive_metadata'' PassiveMetadata_new) (\<lambda>passive.
     res_bind (parse_metadata_fields ActiveMetadata_insert v ''active_metadata'' ActiveMetadata_new) (\<lambda>active.
     let event = with_active_metadata active (with_passive_metadata passive event) in
     res_bind (map_err render (DataIndividualMetadataEvent_validate event)) (\<lambda>_.
     Ok event))))))))))))))"

subsection \<open>Handlers\<close>

text \<open>
  \<open>texts\<close>: the JSON library and the renderings; \<open>calls\<close>: what the executor, the control plane and the
  disk do during the request. A handler takes whether the service's lock is poisoned.
\<close>

record texts =
  tx_from_str :: "string \<Rightarrow> string + json_value"
  tx_to_text :: "json_value \<Rightarrow> string"
  tx_service_error :: "VannakServiceError \<Rightarrow> string"
  tx_ingest_error :: "IngestError \<Rightarrow> string"
  tx_plane_error :: "plane_error \<Rightarrow> string"
  tx_event_kind :: "EventKind \<Rightarrow> string"
  tx_operation :: "MetadataOperation \<Rightarrow> string"

record 'p calls =
  ca_asked :: exec_call
  ca_call :: exec_call
  ca_fanned :: "sitas_error + unit"
  ca_read :: "'p \<Rightarrow> plane_error + ClusterControlState"
  ca_io :: disk_io

type_synonym response = "string \<times> string"

definition error_body :: "texts \<Rightarrow> string \<Rightarrow> string" where
  "error_body tx message = tx_to_text tx (JObject [(''error'', JString message)])"

definition service_unavailable :: response where
  "service_unavailable = (''503 Service Unavailable'', ''{\"error\":\"service unavailable\"}'')"

definition service_error_response :: "texts \<Rightarrow> VannakServiceError \<Rightarrow> response" where
  "service_error_response tx e = (''503 Service Unavailable'', error_body tx (tx_service_error tx e))"

definition handle_ingest_request ::
  "texts \<Rightarrow> 'p calls \<Rightarrow> bool \<Rightarrow> string \<Rightarrow> fs \<times> id_source \<times> ('m, 'p) VannakService \<Rightarrow>
     (fs \<times> id_source \<times> ('m, 'p) VannakService) \<times> response" where
  "handle_ingest_request tx ca poisoned body state =
     (case state of (fs, ids, svc) \<Rightarrow>
        if poisoned then (state, service_unavailable)
        else case parse_ingest_event_json (tx_from_str tx) ids body of
          (ids, None) \<Rightarrow> ((fs, ids, svc), (''400 Bad Request'', ''{\"error\":\"invalid event JSON\"}''))
        | (ids, Some event) \<Rightarrow>
            (case ingest_process_event_configured (ca_asked ca) (ca_call ca) (ca_io ca) fs event svc of
               (fs, svc, r) \<Rightarrow>
                 ((fs, ids, svc),
                  (case r of
                     Inr IoAccepted \<Rightarrow> (''200 OK'', ''{\"status\":\"accepted\"}'')
                   | Inr IoDuplicate \<Rightarrow> (''200 OK'', ''{\"status\":\"duplicate\"}'')
                   | Inl (VsProcessIngest e) \<Rightarrow> (''400 Bad Request'', error_body tx (tx_ingest_error tx e))
                   | Inl e \<Rightarrow> service_error_response tx e))))"

definition handle_metadata_ingest_request ::
  "texts \<Rightarrow> 'p calls \<Rightarrow> bool \<Rightarrow> string \<Rightarrow> fs \<times> ('m, 'p) VannakService \<Rightarrow> (fs \<times> ('m, 'p) VannakService) \<times> response" where
  "handle_metadata_ingest_request tx ca poisoned body state =
     (case state of (fs, svc) \<Rightarrow>
        (case parse_metadata_event_json (tx_from_str tx) (tx_ingest_error tx) body of
           Inl e \<Rightarrow> (state, (''400 Bad Request'', error_body tx e))
         | Inr event \<Rightarrow>
             if poisoned then (state, service_unavailable)
             else case capture_metadata_event (ca_read ca) (ca_io ca) fs event svc of
               (fs, svc, Inr result) \<Rightarrow>
                 ((fs, svc),
                  (''200 OK'', tx_to_text tx (JObject
                     [(''status'', JString (if mcr_result result = DeDuplicate then ''duplicate'' else ''accepted'')),
                      (''target'', JString (mcr_target result))])))
             | (fs, svc, Inl e) \<Rightarrow> ((fs, svc), service_error_response tx e)))"

fun status_text :: "ProcessStatus \<Rightarrow> string" where
  "status_text PsUnknown = ''Unknown''"
| "status_text PsActive = ''Active''"
| "status_text PsCompleted = ''Completed''"
| "status_text PsFailed = ''Failed''"
| "status_text PsCancelled = ''Cancelled''"

text \<open>The keys of an object are in ascending order, as the library keeps them.\<close>

definition instance_json :: "ProcessInstanceSnapshot \<Rightarrow> json_value" where
  "instance_json snap =
     JObject [(''pipeline_id'', JString (snap_pipeline_id snap)),
              (''process_instance_id'', JString (snap_process_instance_id snap)),
              (''status'', JString (status_text (snap_status snap)))]"

definition event_json :: "texts \<Rightarrow> PipelineEvent \<Rightarrow> json_value" where
  "event_json tx e =
     JObject [(''event_id'', JString (pe_event_id e)), (''kind'', JString (tx_event_kind tx (pe_kind e))),
              (''pipeline_id'', JString (pe_pipeline_id e)), (''process_instance_id'', JString (pe_process_instance_id e))]"

definition metadata_event_json :: "texts \<Rightarrow> DataIndividualMetadataEvent \<Rightarrow> json_value" where
  "metadata_event_json tx e =
     JObject [(''data_individual_id'', JString (dm_data_individual_id e)),
              (''metadata_event_id'', JString (dm_metadata_event_id e)),
              (''operation'', JString (tx_operation tx (dm_operation e)))]"

fun query_result_json :: "texts \<Rightarrow> QueryResult \<Rightarrow> json_value" where
  "query_result_json tx (QProcessInstances snaps) =
     JObject [(''instance'', JArray (map instance_json snaps)), (''type'', JString ''ProcessInstances'')]"
| "query_result_json tx (QEvents es) =
     JObject [(''events'', JArray (map (event_json tx) es)), (''type'', JString ''Events'')]"
| "query_result_json tx (QMetadataEvents es) =
     JObject [(''events'', JArray (map (metadata_event_json tx) es)), (''type'', JString ''MetadataEvents'')]"

definition serialize_query_result :: "texts \<Rightarrow> QueryResult \<Rightarrow> string" where
  "serialize_query_result tx r = tx_to_text tx (query_result_json tx r)"

definition query_response :: "texts \<Rightarrow> VannakServiceError + QueryResult \<Rightarrow> response" where
  "query_response tx r =
     (case r of Inr result \<Rightarrow> (''200 OK'', serialize_query_result tx result) | Inl e \<Rightarrow> service_error_response tx e)"

definition parse_query_status :: "string \<Rightarrow> ProcessStatus option" where
  "parse_query_status s =
     (if s = ''Active'' then Some PsActive
      else if s = ''Completed'' then Some PsCompleted
      else if s = ''Failed'' then Some PsFailed
      else if s = ''Cancelled'' then Some PsCancelled
      else None)"

definition query_limit :: "json_value \<Rightarrow> QueryLimit" where
  "query_limit v = QueryLimit_new (unat (or_default 100 (json_u64_field v ''limit'')))"

definition invalid_query :: response where
  "invalid_query = (''400 Bad Request'', ''{\"error\":\"invalid query\"}'')"

definition dispatch_query :: "texts \<Rightarrow> 'p calls \<Rightarrow> json_value \<Rightarrow> string \<Rightarrow> ('m, 'p) VannakService \<Rightarrow> response" where
  "dispatch_query tx ca v query_type svc =
     (let field = json_string_field v in
      if query_type = ''ProcessInstance'' \<and> field ''process_instance_id'' \<noteq> None then
        (case service_process_instance (ca_call ca) svc \<lparr>iq_process_instance_id = the (field ''process_instance_id'')\<rparr> of
           Inr (Some snap) \<Rightarrow> (''200 OK'', serialize_query_result tx (QProcessInstances [snap]))
         | Inr None \<Rightarrow> (''200 OK'', ''{\"type\":\"ProcessInstances\",\"instance\":[]}'')
         | Inl e \<Rightarrow> service_error_response tx e)
      else if query_type = ''Pipeline'' \<and> field ''pipeline_id'' \<noteq> None then
        query_response tx (service_pipeline_instances (ca_fanned ca) svc
          \<lparr>plq_pipeline_id = the (field ''pipeline_id''), plq_limit = query_limit v\<rparr>)
      else if query_type = ''ProcessStatus'' \<and> field ''status'' \<noteq> None then
        (case parse_query_status (the (field ''status'')) of
           None \<Rightarrow> (''400 Bad Request'', ''{\"error\":\"invalid process status\"}'')
         | Some status \<Rightarrow>
             query_response tx (service_process_instances_by_status (ca_fanned ca) svc
               \<lparr>sq_status = status, sq_limit = query_limit v\<rparr>))
      else if query_type = ''DataIndividualMetadata'' \<and> field ''data_individual_id'' \<noteq> None then
        (''200 OK'', serialize_query_result tx (service_metadata_for_data_individual svc
           \<lparr>dq_data_individual_id = the (field ''data_individual_id''), dq_limit = query_limit v\<rparr>))
      else if query_type = ''ProcessMetadata'' \<and> field ''process_instance_id'' \<noteq> None then
        (''200 OK'', serialize_query_result tx (service_metadata_for_process svc
           \<lparr>pmq_process_instance_id = the (field ''process_instance_id''), pmq_limit = query_limit v\<rparr>))
      else if query_type = ''ActivityMetadata'' \<and> field ''process_instance_id'' \<noteq> None \<and> field ''activity_id'' \<noteq> None then
        (''200 OK'', serialize_query_result tx (service_metadata_for_activity svc
           \<lparr>amq_process_instance_id = the (field ''process_instance_id''), amq_activity_id = the (field ''activity_id''),
            amq_limit = query_limit v\<rparr>))
      else invalid_query)"

definition handle_query_request :: "texts \<Rightarrow> 'p calls \<Rightarrow> bool \<Rightarrow> string \<Rightarrow> ('m, 'p) VannakService \<Rightarrow> response" where
  "handle_query_request tx ca poisoned body svc =
     (if poisoned then service_unavailable
      else case tx_from_str tx body of
        Inl _ \<Rightarrow> (''400 Bad Request'', ''{\"error\":\"invalid query JSON\"}'')
      | Inr v \<Rightarrow>
          (case json_string_field v ''type'' of
             None \<Rightarrow> invalid_query
           | Some query_type \<Rightarrow> dispatch_query tx ca v query_type svc))"

subsection \<open>Answers and durability\<close>

lemma configured_durable:
  assumes "vs_process_event_journal sv = Some j" "vs_hot_index sv = PxLocal ix"
    and "ingest_process_event_configured asked call io fs e sv = (fs', sv', r)"
  obtains (answered) res where "ingest_process_event_durable asked call io fs e sv = (fs', sv', Inr res)" "r = Inr (dpr_outcome res)"
  | (failed) err where "ingest_process_event_durable asked call io fs e sv = (fs', sv', Inl err)" "r = Inl err"
      "\<And>x. err = VsProcessIngest x \<Longrightarrow> fs' = fs \<and> sv' = sv"
proof -
  obtain fs1 sv1 r1 where d: "ingest_process_event_durable asked call io fs e sv = (fs1, sv1, r1)" by (metis prod_cases3)
  have "fs' = fs1" "sv' = sv1" "r = res_bind r1 (\<lambda>x. Ok (dpr_outcome x))"
    using assms(1,3) d by (simp_all add: ingest_process_event_configured_def)
  with d answered failed ingest_durable_local(4) [OF assms(2,1) d] show ?thesis by (cases r1) auto
qed

text \<open>
  What the handler of \<open>POST /ingest\<close> answers for a body is what happened. On a service with a journal and
  a local index, in any history of ingestions and restarts, a request answered \<open>200\<close> has extended the
  history by the event it carried, acknowledged and in the journal, so that every later restart recovers
  it; a request answered \<open>400\<close> has changed neither the files nor the service; and nothing but \<open>200\<close>, \<open>400\<close>
  and \<open>503\<close> is answered.
\<close>

lemma ingest_request_answered:
  assumes "service_run fs sv es acked"
    and "parse_ingest_event_json (tx_from_str tx) ids body = (ids1, parsed)" "\<forall>e. parsed = Some e \<longrightarrow> event_rust e"
    and "handle_ingest_request tx ca poisoned body (fs, ids, sv) = ((fs', ids', sv'), (status, text'))"
  shows "(status = ''200 OK'' \<longrightarrow> (\<exists>e. parsed = Some e \<and>
        (text' = ''{\"status\":\"accepted\"}'' \<and> service_run fs' sv' (es @ [e]) (acked @ [e]) \<or>
         text' = ''{\"status\":\"duplicate\"}'' \<and> service_run fs' sv' es (acked @ [e])))) \<and>
     (status = ''400 Bad Request'' \<longrightarrow> fs' = fs \<and> sv' = sv) \<and>
     status \<in> {''200 OK'', ''400 Bad Request'', ''503 Service Unavailable''}"
proof -
  from service_run_wf [OF assms(1)] obtain j ix where j: "vs_process_event_journal sv = Some j" "vs_hot_index sv = PxLocal ix"
    by (auto simp: service_wf_def)
  show ?thesis
  proof (cases "poisoned \<or> parsed = None")
    case True
    then consider "poisoned" | "\<not> poisoned" "parsed = None" by blast
    then show ?thesis
    proof cases
      case 1
      with assms(4) show ?thesis by (simp add: handle_ingest_request_def service_unavailable_def) blast
    next
      case 2
      with assms(2,4) show ?thesis by (simp add: handle_ingest_request_def) blast
    qed
  next
    case False
    then obtain e where e: "parsed = Some e" "\<not> poisoned" by auto
    obtain fs1 sv1 r where i: "ingest_process_event_configured (ca_asked ca) (ca_call ca) (ca_io ca) fs e sv = (fs1, sv1, r)"
      by (metis prod_cases3)
    have out: "fs' = fs1" "sv' = sv1" "(status, text') = (case r of
                     Inr IoAccepted \<Rightarrow> (''200 OK'', ''{\"status\":\"accepted\"}'')
                   | Inr IoDuplicate \<Rightarrow> (''200 OK'', ''{\"status\":\"duplicate\"}'')
                   | Inl (VsProcessIngest e) \<Rightarrow> (''400 Bad Request'', error_body tx (tx_ingest_error tx e))
                   | Inl e \<Rightarrow> service_error_response tx e)"
      using assms(2,4) e i by (simp_all add: handle_ingest_request_def)
    from j i show ?thesis
    proof (cases rule: configured_durable)
      case (answered res)
      have "service_run fs1 sv1 (if dpr_outcome res = IoDuplicate then es else es @ [e]) (acked @ [e])"
        using service_run.sr_ingested [OF assms(1) _ answered(1)] assms(3) e(1) by simp
      with answered(2) out e(1) show ?thesis by (cases "dpr_outcome res") auto
    next
      case (failed err)
      with out e(1) show ?thesis by (cases err) (auto simp: service_error_response_def)
    qed
  qed
qed

definition sample_texts :: texts where
  "sample_texts =
     \<lparr>tx_from_str = \<lambda>body. if body = ''event'' then Inr (JObject [(''event_id'', JString ''e1''), (''kind'', JString ''ProcessStarted''),
          (''pipeline_id'', JString ''p''), (''process_instance_id'', JString ''i'')]) else Inl ''expected value'',
      tx_to_text = \<lambda>_. [], tx_service_error = \<lambda>_. [], tx_ingest_error = \<lambda>_. [], tx_plane_error = \<lambda>_. [],
      tx_event_kind = \<lambda>_. [], tx_operation = \<lambda>_. []\<rparr>"

definition sample_calls :: "'p calls" where
  "sample_calls = \<lparr>ca_asked = CallCompletes, ca_call = CallCompletes, ca_fanned = Inr (), ca_read = \<lambda>_. Inl PlanePoisoned,
     ca_io = \<lparr>write_budget = None, sync_fails = False\<rparr>\<rparr>"

definition sample_http_event :: PipelineEvent where
  "sample_http_event = PipelineEvent_new ''e1'' ''daemon-http'' 0 ''demo'' ''demo'' ''p'' ''demo-definition'' ''i'' ''unknown'' ProcessStarted"

lemma sample_http_event_ok:
  "event_valid sample_http_event" "event_rust sample_http_event"
  "length (encode_pipeline_event sample_http_event) \<le> MAX_RECORD_LEN"
proof -
  have "event_encodable sample_http_event" "length (encode_pipeline_event sample_http_event) < 1000"
    by (simp_all add: sample_http_event_def event_builder_defs event_encodable_def error_ok_def kind_ok_def str_ok_ascii
        encode_pipeline_event_def put_metadata_refs_def)
  then show "event_rust sample_http_event" "length (encode_pipeline_event sample_http_event) \<le> MAX_RECORD_LEN"
    by (simp_all add: event_encodable_strings event_rust_def str_ok_def list_all_iff MAX_RECORD_LEN_def)
  show "event_valid sample_http_event" by (simp add: sample_http_event_def event_builder_defs event_valid_def)
qed

lemma sample_ingest_request:
  "\<exists>fs (sv :: (unit, unit) VannakService) fs' sv'. service_run fs sv [] [] \<and>
     (\<forall>ids. parse_ingest_event_json (tx_from_str sample_texts) ids ''event'' = (ids, Some sample_http_event) \<and>
       handle_ingest_request sample_texts sample_calls False ''event'' (fs, ids, sv)
         = ((fs', ids, sv'), (''200 OK'', ''{\"status\":\"accepted\"}'')))"
proof -
  let ?io = "\<lparr>write_budget = None, sync_fails = False\<rparr>"
  obtain fs0 j0 where c: "ProcessEventJournal_create ?io Map.empty ''j'' ''s'' ''n'' = (fs0, Inr j0)"
    by (simp add: ProcessEventJournal_create_def SegmentWriter_create_def write_all_def)
  define sv0 :: "(unit, unit) VannakService" where "sv0 = undefined\<lparr>vs_hot_index := PxLocal HotIndex_new\<rparr>"
  let ?sv = "with_process_event_journal j0 sv0"
  have ix: "vs_hot_index sv0 = PxLocal HotIndex_new" by (simp add: sv0_def)
  have parse: "parse_ingest_event_json (tx_from_str sample_texts) ids ''event'' = (ids, Some sample_http_event)" for ids
    by (simp add: parse_ingest_event_json_def sample_texts_def json_string_field_def parse_event_kind_def ingest_event_of_def
        or_default_def sample_http_event_def)
  obtain fs1 sv1 res where "ingest_process_event_durable CallCompletes CallCompletes ?io fs0 sample_http_event ?sv = (fs1, sv1, Inr res)"
    "dpr_outcome res = IoAccepted"
    using valid_event_durable [OF c ix sample_http_event_ok(1,3)] by blast
  then have "handle_ingest_request sample_texts sample_calls False ''event'' (fs0, ids, ?sv)
      = ((fs1, ids, sv1), (''200 OK'', ''{\"status\":\"accepted\"}''))" for ids
    using parse by (simp add: handle_ingest_request_def ingest_process_event_configured_def sample_calls_def
        with_process_event_journal_def)
  with parse sr_created [OF c ix] show ?thesis by blast
qed

end
