(* ===== verification/Background_Writer.thy ===== *)
theory Background_Writer
  imports Service
begin

text \<open>
  The background writer of \<open>src/daemon.rs\<close>. A cycle reads the control state, drains the outbox for every
  target whose writer lease the node holds, and proposes the checkpoints of what is acknowledged. The
  control plane is the trait \<open>ControlPlane\<close> as a record of its two operations; \<open>mutex_plane\<close> is the
  implementation of \<open>src/control.rs\<close>. The loop runs until the stop token is set: a run is a list of
  cycles, each preceded by what other threads did to the plane and to the service. The copy of the
  snapshot kept for the health endpoint has no influence on the loop and is left out.

  A cycle is one step: between its drain and its proposals the code releases the service's lock, and what
  other threads do in that time is not modelled; neither are the panics on a poisoned service lock.

  The lemmas show that a drain for one target leaves the entries of the others alone, and, in the locale
  \<open>applying_plane\<close> of planes on which a failed call has no effect, that the proposals of a cycle are
  accepted while the plane is up and that after a cycle without an error the committed checkpoints cover
  what is acknowledged and nothing else. The mutex plane and a plane that refuses a proposal interpret it.
\<close>

subsection \<open>Configuration and state\<close>

record BackgroundWriterConfig =
  bwc_interval_ms :: nat
  bwc_max_drain_attempts_per_target :: nat
  bwc_verbose :: bool

definition BackgroundWriterConfig_default :: BackgroundWriterConfig where
  "BackgroundWriterConfig_default =
     \<lparr>bwc_interval_ms = 5000, bwc_max_drain_attempts_per_target = 100, bwc_verbose = False\<rparr>"

record BackgroundWriterSnapshot =
  bw_cycles :: u64
  bw_total_acknowledged :: nat
  bw_total_failed :: nat
  bw_last_control_error :: "plane_error option"
  bw_current_cycle :: "u64 option"
  bw_last_summary :: "(IptoInstanceId \<times> MetadataOutboxDrainSummary) list option"

definition BackgroundWriterSnapshot_default :: BackgroundWriterSnapshot where
  "BackgroundWriterSnapshot_default =
     \<lparr>bw_cycles = 0, bw_total_acknowledged = 0, bw_total_failed = 0, bw_last_control_error = None,
      bw_current_cycle = None, bw_last_summary = None\<rparr>"

record 'q plane =
  pl_read :: "'q \<Rightarrow> plane_error + ClusterControlState"
  pl_propose :: "ClusterControlCommand \<Rightarrow> 'q \<Rightarrow> 'q \<times> (plane_error + unit)"

definition mutex_plane :: "ControlMutex plane" where
  "mutex_plane = \<lparr>pl_read = ControlMutex_read, pl_propose = ControlMutex_propose\<rparr>"

record ('w, 'm, 'p, 'q) writer_state =
  ws_snapshot :: BackgroundWriterSnapshot
  ws_plane :: 'q
  ws_service :: "('m, 'p) VannakService"
  ws_writer :: 'w

subsection \<open>One cycle\<close>

definition checkpoint_epoch_of :: "ClusterControlState \<Rightarrow> u64 \<Rightarrow> CheckpointEpoch" where
  "checkpoint_epoch_of control cycles =
     (let epochs = map oc_epoch (bt_values (cs_outbox_checkpoints control));
          latest = (if epochs = [] then 0 else Max (set epochs)) in
      case u64_checked_add latest cycles of None \<Rightarrow> 2 ^ 64 - 1 | Some e \<Rightarrow> e)"

definition lease_held :: "ClusterControlState \<Rightarrow> NodeId \<Rightarrow> IptoInstanceId \<Rightarrow> bool" where
  "lease_held control node target \<longleftrightarrow>
     (case writer_lease control target of None \<Rightarrow> False | Some lease \<Rightarrow> wl_holder lease = node)"

definition already_committed :: "ClusterControlState \<Rightarrow> IptoInstanceId \<Rightarrow> MetadataOutboxCheckpoint \<Rightarrow> bool" where
  "already_committed control target checkpoint \<longleftrightarrow>
     (case outbox_checkpoint control (oc_data_individual_shard_id checkpoint) target of
        None \<Rightarrow> False
      | Some committed \<Rightarrow>
          oc_segment_id committed = oc_segment_id checkpoint \<and>
          oc_last_acknowledged_offset committed \<ge> oc_last_acknowledged_offset checkpoint)"

definition propose_checkpoint ::
  "'q plane \<Rightarrow> ClusterControlState \<Rightarrow> IptoInstanceId \<Rightarrow> MetadataOutboxCheckpoint \<Rightarrow>
     'q \<times> BackgroundWriterSnapshot \<Rightarrow> 'q \<times> BackgroundWriterSnapshot" where
  "propose_checkpoint pl control target checkpoint qs =
     (case qs of (q, snapshot) \<Rightarrow>
        if already_committed control target checkpoint then (q, snapshot)
        else case pl_propose pl (RecordOutboxCheckpoint checkpoint) q of
          (q, Inr _) \<Rightarrow> (q, snapshot)
        | (q, Inl error) \<Rightarrow> (q, snapshot\<lparr>bw_last_control_error := Some error\<rparr>))"

definition writer_target ::
  "'q plane \<Rightarrow> NodeId \<Rightarrow> 'w ipto_write \<Rightarrow> BackgroundWriterConfig \<Rightarrow> ClusterControlState \<Rightarrow> CheckpointEpoch \<Rightarrow>
   IptoInstanceId \<Rightarrow> ('w, 'm, 'p, 'q) writer_state \<times> (IptoInstanceId \<times> MetadataOutboxDrainSummary) list \<Rightarrow>
     ('w, 'm, 'p, 'q) writer_state \<times> (IptoInstanceId \<times> MetadataOutboxDrainSummary) list" where
  "writer_target pl node write config control checkpoint_epoch target state =
     (case state of (ws, cycle_summaries) \<Rightarrow>
        if \<not> lease_held control node target then (ws, cycle_summaries)
        else
          let svc = ws_service ws;
              svc = svc\<lparr>vs_metadata_outbox := (vs_metadata_outbox svc)\<lparr>bo_outbox :=
                      fst (retry_failed_for_target target (bo_outbox (vs_metadata_outbox svc)))\<rparr>\<rparr>
          in (case drain_metadata_for_target_if_lease_held control node write target
                     (bwc_max_drain_attempts_per_target config) svc (ws_writer ws) of
                (svc, w, result) \<Rightarrow>
                  let checkpoints = service_acknowledged_checkpoints_for_target target checkpoint_epoch svc;
                      snapshot = ws_snapshot ws;
                      (snapshot, cycle_summaries) =
                        (case result of
                           Inr summary \<Rightarrow>
                             if drain_is_empty summary then (snapshot, cycle_summaries)
                             else (snapshot\<lparr>bw_total_acknowledged := bw_total_acknowledged snapshot + ds_acknowledged summary,
                                            bw_total_failed := bw_total_failed snapshot + ds_failed summary\<rparr>,
                                   cycle_summaries @ [(target, summary)])
                         | Inl _ \<Rightarrow> (snapshot, cycle_summaries));
                      (q, snapshot) = fold (propose_checkpoint pl control target) checkpoints (ws_plane ws, snapshot)
                  in (\<lparr>ws_snapshot = snapshot, ws_plane = q, ws_service = svc, ws_writer = w\<rparr>, cycle_summaries)))"

definition writer_cycle ::
  "'q plane \<Rightarrow> NodeId \<Rightarrow> 'w ipto_write \<Rightarrow> BackgroundWriterConfig \<Rightarrow> ('w, 'm, 'p, 'q) writer_state \<Rightarrow> ('w, 'm, 'p, 'q) writer_state" where
  "writer_cycle pl node write config ws =
     (let snapshot = ws_snapshot ws;
          snapshot = snapshot\<lparr>bw_cycles := bw_cycles snapshot + 1\<rparr>;
          snapshot = snapshot\<lparr>bw_current_cycle := Some (bw_cycles snapshot)\<rparr> in
      case pl_read pl (ws_plane ws) of
        Inl error \<Rightarrow> ws\<lparr>ws_snapshot := snapshot\<lparr>bw_last_control_error := Some error\<rparr>\<rparr>
      | Inr control \<Rightarrow>
          let snapshot = snapshot\<lparr>bw_last_control_error := None\<rparr>;
              targets = (case placement_map control of None \<Rightarrow> [] | Some m \<Rightarrow> map_instances m);
              checkpoint_epoch = checkpoint_epoch_of control (bw_cycles snapshot);
              (ws, cycle_summaries) =
                fold (writer_target pl node write config control checkpoint_epoch) targets (ws\<lparr>ws_snapshot := snapshot\<rparr>, [])
          in if cycle_summaries \<noteq> [] then ws\<lparr>ws_snapshot := (ws_snapshot ws)\<lparr>bw_last_summary := Some cycle_summaries\<rparr>\<rparr>
             else ws)"

fun writer_cycles ::
  "'q plane \<Rightarrow> NodeId \<Rightarrow> 'w ipto_write \<Rightarrow> BackgroundWriterConfig \<Rightarrow>
   (('q \<Rightarrow> 'q) \<times> (('m, 'p) VannakService \<Rightarrow> ('m, 'p) VannakService)) list \<Rightarrow>
   ('w, 'm, 'p, 'q) writer_state \<Rightarrow> ('w, 'm, 'p, 'q) writer_state" where
  "writer_cycles pl node write config [] ws =
     ws\<lparr>ws_snapshot := (ws_snapshot ws)\<lparr>bw_current_cycle := Some (bw_cycles (ws_snapshot ws))\<rparr>\<rparr>"
| "writer_cycles pl node write config ((others_plane, others_service) # others) ws =
     writer_cycles pl node write config others
       (writer_cycle pl node write config
          (ws\<lparr>ws_plane := others_plane (ws_plane ws), ws_service := others_service (ws_service ws)\<rparr>))"

definition run_background_writer ::
  "'q plane \<Rightarrow> NodeId \<Rightarrow> 'w ipto_write \<Rightarrow> BackgroundWriterConfig \<Rightarrow>
   (('q \<Rightarrow> 'q) \<times> (('m, 'p) VannakService \<Rightarrow> ('m, 'p) VannakService)) list \<Rightarrow>
   'q \<Rightarrow> ('m, 'p) VannakService \<Rightarrow> 'w \<Rightarrow> ('w, 'm, 'p, 'q) writer_state" where
  "run_background_writer pl node write config others q svc w =
     writer_cycles pl node write config others
       \<lparr>ws_snapshot = BackgroundWriterSnapshot_default, ws_plane = q, ws_service = svc, ws_writer = w\<rparr>"

subsection \<open>Drains of one target\<close>

definition only_target :: "IptoInstanceId \<Rightarrow> MetadataOutbox \<Rightarrow> MetadataOutbox \<Rightarrow> bool" where
  "only_target t ob ob' \<longleftrightarrow> outbox_wf ob' \<and>
     (\<forall>k. bt_get (ob_entries ob') k = bt_get (ob_entries ob) k \<or>
        (\<exists>e e'. bt_get (ob_entries ob) k = Some e \<and> bt_get (ob_entries ob') k = Some e' \<and>
           oe_payload e' = oe_payload e \<and> wp_target (oe_payload e) = t))"

lemma only_target_refl: "outbox_wf ob \<Longrightarrow> only_target t ob ob"
  by (simp add: only_target_def)

lemma only_target_trans: "only_target t ob ob1 \<Longrightarrow> only_target t ob1 ob2 \<Longrightarrow> only_target t ob ob2"
proof -
  assume a: "only_target t ob ob1" "only_target t ob1 ob2"
  have "bt_get (ob_entries ob2) k = bt_get (ob_entries ob) k \<or>
        (\<exists>e e'. bt_get (ob_entries ob) k = Some e \<and> bt_get (ob_entries ob2) k = Some e' \<and>
           oe_payload e' = oe_payload e \<and> wp_target (oe_payload e) = t)" for k
    using a(1) [unfolded only_target_def, THEN conjunct2, THEN spec, of k]
      a(2) [unfolded only_target_def, THEN conjunct2, THEN spec, of k]
    by (elim disjE exE conjE) (metis option.inject)+
  with a(2) show ?thesis unfolding only_target_def by blast
qed

lemma only_target_ops:
  assumes "outbox_wf ob" "bt_get (ob_entries ob) k = Some e" "wp_target (oe_payload e) = t"
  shows "only_target t ob (fst (acknowledge k ob))" "only_target t ob (fst (fail_with_retryability k err r ob))"
    "only_target t ob (fst (retry_failed k ob))"
  using assms outbox_wf_acknowledge [OF assms(1), of k] outbox_wf_fail [OF assms(1), of k err r] outbox_wf_retry [OF assms(1), of k]
  by (auto simp: only_target_def acknowledge_def fail_with_retryability_def retry_failed_def bt_get_insert)

lemma next_pending_for_target_entry:
  assumes "outbox_wf ob" "next_pending_for_target t ob = Some e"
  shows "bt_get (ob_entries ob) (wp_idempotency_key (oe_payload e)) = Some e \<and> wp_target (oe_payload e) = t"
proof -
  from assms(2) have "e \<in> set (List.map_filter (bt_get (ob_entries ob)) (ob_pending ob))" "wp_target (oe_payload e) = t"
    by (auto simp: next_pending_for_target_def find_Some_iff in_set_conv_nth)
  then obtain k where "bt_get (ob_entries ob) k = Some e" by (auto simp: map_filter_def)
  with assms(1) \<open>wp_target _ = t\<close> show ?thesis by (auto simp: outbox_wf_def)
qed

lemma only_target_deliver:
  assumes "outbox_wf ob"
  shows "only_target t ob (fst (deliver_next_pending_for_target write t ob w))"
proof (cases "next_pending_for_target t ob")
  case None
  with assms show ?thesis by (simp add: deliver_next_pending_for_target_def deliver_entry_def only_target_refl)
next
  case (Some e)
  from next_pending_for_target_entry [OF assms Some] Some only_target_ops [OF assms] show ?thesis
    by (auto simp: deliver_next_pending_for_target_def deliver_entry_def Let_def split: prod.split sum.split)
qed

lemma only_target_drain:
  assumes "only_target t ob0 ob" "drain_loop (deliver_next_pending_for_target write t) n ob w s = (ob', w', s')"
  shows "only_target t ob0 ob'"
  using assms
proof (induction n arbitrary: ob w s)
  case (Suc n)
  obtain ob1 w1 r where d: "deliver_next_pending_for_target write t ob w = (ob1, w1, r)" by (metis prod_cases3)
  have "only_target t ob0 ob1"
    using only_target_trans [OF Suc.prems(1)] only_target_deliver [of ob t "write" w] Suc.prems(1) d
    by (simp add: only_target_def)
  with Suc d show ?case by (auto simp: Let_def split: MetadataOutboxDeliveryResult.splits if_splits)
qed simp

lemma only_target_retry:
  assumes "outbox_wf ob"
  shows "only_target t ob (fst (retry_failed_for_target t ob))"
proof -
  let ?in_t = "\<lambda>ob k. \<exists>e. bt_get (ob_entries ob) k = Some e \<and> wp_target (oe_payload e) = t"
  have "only_target t ob (fold (\<lambda>key ob. fst (retry_failed key ob)) keys ob1)"
    if "only_target t ob ob1" "\<forall>k \<in> set keys. ?in_t ob1 k" for keys ob1
    using that
  proof (induction keys arbitrary: ob1)
    case (Cons k keys)
    then obtain e where e: "bt_get (ob_entries ob1) k = Some e" "wp_target (oe_payload e) = t" by auto
    have wf: "outbox_wf ob1" using Cons.prems(1) by (simp add: only_target_def)
    note step = only_target_ops(3) [OF wf e]
    have "\<forall>x \<in> set keys. ?in_t (fst (retry_failed k ob1)) x"
    proof
      fix x assume "x \<in> set keys"
      with Cons.prems(2) obtain ex where "bt_get (ob_entries ob1) x = Some ex" "wp_target (oe_payload ex) = t" by auto
      with step show "?in_t (fst (retry_failed k ob1)) x" unfolding only_target_def by (metis option.inject)
    qed
    with Cons.IH only_target_trans [OF Cons.prems(1) step] show ?case by simp
  qed simp
  moreover have "\<forall>k \<in> set (map fst (filter (\<lambda>(_, entry). oe_status entry = ObFailed \<and> oe_retryable entry
      \<and> wp_target (oe_payload entry) = t) (bt_iter (ob_entries ob)))). ?in_t ob k"
    by (auto simp: bt_get_iter)
  ultimately show ?thesis using only_target_refl [OF assms] by (simp add: retry_failed_for_target_def Let_def)
qed

lemma only_target_checkpoints:
  assumes "only_target t ob ob'" "t' \<noteq> t"
  shows "outbox_acknowledged_checkpoints_for_target t' seg epoch ob' = outbox_acknowledged_checkpoints_for_target t' seg epoch ob"
proof -
  let ?of = "\<lambda>ob. filter (\<lambda>e. wp_target (oe_payload e) = t') (bt_values (ob_entries ob))"
  have get: "bt_get (ob_entries ob') k = bt_get (ob_entries ob) k \<or>
     (\<exists>e e'. bt_get (ob_entries ob) k = Some e \<and> bt_get (ob_entries ob') k = Some e' \<and>
        wp_target (oe_payload e) \<noteq> t' \<and> wp_target (oe_payload e') \<noteq> t')" for k
    using assms by (metis only_target_def)
  have keys: "bt_keys (ob_entries ob') = bt_keys (ob_entries ob)"
  proof (rule strict_sorted_equal)
    have "bt_get (ob_entries ob') k = None \<longleftrightarrow> bt_get (ob_entries ob) k = None" for k using get [of k] by auto
    then show "set (bt_keys (ob_entries ob')) = set (bt_keys (ob_entries ob))" by (auto simp: set_bt_keys)
  qed (simp_all add: bt_keys_sorted)
  have "filter (\<lambda>e. wp_target (oe_payload e) = t') (map (\<lambda>k. the (bt_get (ob_entries ob') k)) ks)
      = filter (\<lambda>e. wp_target (oe_payload e) = t') (map (\<lambda>k. the (bt_get (ob_entries ob) k)) ks)" for ks
    using get by (induction ks) (auto, (metis option.sel)+)
  then have same: "?of ob' = ?of ob" by (simp add: bt_values_get keys)
  have both: "filter (\<lambda>e. wp_target (oe_payload e) = t' \<and> wp_shard_id (oe_payload e) = s) xs
      = filter (\<lambda>e. wp_shard_id (oe_payload e) = s) (filter (\<lambda>e. wp_target (oe_payload e) = t') xs)" for s xs
    by (simp add: conj_commute)
  have "shard_entries s t' ob' = shard_entries s t' ob" for s by (simp only: shard_entries_def both same)
  with same show ?thesis
    by (simp only: outbox_acknowledged_checkpoints_for_target_def outbox_acknowledged_checkpoint_def)
qed

subsection \<open>The proposals of a cycle\<close>

lemma checkpoints_shape:
  assumes "cp \<in> set (outbox_acknowledged_checkpoints_for_target t seg E ob)"
  shows "oc_target cp = t \<and> oc_epoch cp = E \<and> oc_segment_id cp = seg"
  using assms
  by (auto simp: outbox_acknowledged_checkpoints_for_target_def outbox_acknowledged_checkpoint_def map_filter_def Let_def
      split: if_splits prod.splits)

lemma checkpoints_distinct:
  "distinct (map oc_data_individual_shard_id (outbox_acknowledged_checkpoints_for_target t seg E ob))"
proof -
  have shard: "oc_data_individual_shard_id cp = s" if "outbox_acknowledged_checkpoint s t seg E ob = Some cp" for s cp
    using that by (auto simp: outbox_acknowledged_checkpoint_def Let_def split: if_splits prod.splits)
  have "map oc_data_individual_shard_id (List.map_filter (\<lambda>s. outbox_acknowledged_checkpoint s t seg E ob) ss)
      = filter (\<lambda>s. outbox_acknowledged_checkpoint s t seg E ob \<noteq> None) ss" for ss
    by (induction ss) (auto simp: map_filter_def dest: shard)
  then show ?thesis by (simp add: outbox_acknowledged_checkpoints_for_target_def Let_def)
qed

lemma checkpoint_epoch_above:
  assumes "bt_get (cs_outbox_checkpoints control) k = Some c" "n \<noteq> 0"
    and "\<forall>c \<in> set (bt_values (cs_outbox_checkpoints control)). unat (oc_epoch c) + unat n < 2 ^ 64"
  shows "oc_epoch c < checkpoint_epoch_of control n"
proof -
  let ?epochs = "map oc_epoch (bt_values (cs_outbox_checkpoints control))"
  have c: "c \<in> set (bt_values (cs_outbox_checkpoints control))" using assms(1) by (cases k) (auto simp: set_bt_values)
  then have ne: "?epochs \<noteq> []" by auto
  then have "Max (set ?epochs) \<in> set ?epochs" by (intro Max_in) auto
  then have bound: "unat (Max (set ?epochs)) + unat n < 2 ^ 64" using assms(3) by auto
  have le: "oc_epoch c \<le> Max (set ?epochs)" using c by (intro Max_ge) auto
  have n: "0 < unat n" using assms(2) by (simp add: unat_gt_0)
  have "u64_checked_add x n \<noteq> None" if "unat x + unat n < 2 ^ 64" for x using that by (simp add: u64_checked_add_def)
  with bound obtain e where e: "u64_checked_add (Max (set ?epochs)) n = Some e" by blast
  have "unat e = unat (Max (set ?epochs)) + unat n" by (rule u64_checked_add_unat [OF e])
  then have "unat (oc_epoch c) < unat e" using le n by (simp add: word_le_nat_alt)
  with ne e show ?thesis by (simp add: checkpoint_epoch_of_def word_less_nat_alt)
qed

text \<open>
  What the lemmas need of a control plane \<open>pl\<close> that only the writer uses during a cycle; \<open>ctl\<close> is its
  committed control state. A read that succeeds returns that state; a proposal that succeeds has been
  applied, one that fails has changed nothing. While the plane is \<open>up\<close> it can be read, and it accepts
  every command the control state accepts. The plane may fail at any call when it is not \<open>up\<close>.
\<close>

locale applying_plane =
  fixes pl :: "'q plane" and ctl :: "'q \<Rightarrow> ClusterControlState" and up :: "'q \<Rightarrow> bool"
  assumes read_state: "pl_read pl q = Inr st \<Longrightarrow> st = ctl q"
    and read_up: "up q \<Longrightarrow> pl_read pl q = Inr (ctl q)"
    and propose_effect: "pl_propose pl c q = (q', r) \<Longrightarrow>
      (case r of Inr _ \<Rightarrow> control_apply c (ctl q) = (ctl q', Inr ()) | Inl _ \<Rightarrow> ctl q' = ctl q)"
    and propose_up: "up q \<Longrightarrow> pl_propose pl c q = (q', r) \<Longrightarrow> snd (control_apply c (ctl q)) = Inr () \<Longrightarrow> up q' \<and> r = Inr ()"
begin

lemma propose_one:
  assumes "propose_checkpoint pl control t cp (q, snap) = (q', snap')" "oc_target cp = t"
    and "outbox_checkpoint (ctl q) (oc_data_individual_shard_id cp) t = outbox_checkpoint control (oc_data_individual_shard_id cp) t"
  defines "key \<equiv> (oc_data_individual_shard_id cp, t)"
  shows "\<exists>m. ctl q' = (ctl q)\<lparr>cs_outbox_checkpoints := m\<rparr> \<and>
    (\<forall>k. bt_get m k = bt_get (cs_outbox_checkpoints (ctl q)) k \<or> \<not> already_committed control t cp \<and> k = key \<and> bt_get m k = Some cp) \<and>
    (bw_last_control_error snap' = None \<longrightarrow> bw_last_control_error snap = None \<and>
       (\<not> already_committed control t cp \<longrightarrow> bt_get m key = Some cp)) \<and>
    (up q \<and> (\<forall>c. outbox_checkpoint control (oc_data_individual_shard_id cp) t = Some c \<longrightarrow> oc_epoch c < oc_epoch cp) \<longrightarrow>
       up q' \<and> snap' = snap)"
proof (cases "already_committed control t cp")
  case True
  with assms(1) show ?thesis by (intro exI [of _ "cs_outbox_checkpoints (ctl q)"]) (simp add: propose_checkpoint_def)
next
  case False
  obtain q1 r where p: "pl_propose pl (RecordOutboxCheckpoint cp) q = (q1, r)" by fastforce
  with assms(1) False have out: "q' = q1" "snap' = (case r of Inr _ \<Rightarrow> snap | Inl e \<Rightarrow> snap\<lparr>bw_last_control_error := Some e\<rparr>)"
    by (auto simp: propose_checkpoint_def split: sum.splits)
  have fresh: "snd (control_apply (RecordOutboxCheckpoint cp) (ctl q)) = Inr ()"
    if "\<forall>c. outbox_checkpoint control (oc_data_individual_shard_id cp) t = Some c \<longrightarrow> oc_epoch c < oc_epoch cp"
    using that assms(2,3) by (auto simp: outbox_checkpoint_def Let_def split: option.split)
  show ?thesis
  proof (cases r)
    case (Inl e)
    with propose_effect [OF p] propose_up [OF _ p fresh] out show ?thesis
      by (intro exI [of _ "cs_outbox_checkpoints (ctl q)"]) auto
  next
    case (Inr u)
    with propose_effect [OF p] have "control_apply (RecordOutboxCheckpoint cp) (ctl q) = (ctl q1, Inr ())" by simp
    then have "ctl q1 = (ctl q)\<lparr>cs_outbox_checkpoints := bt_insert key cp (cs_outbox_checkpoints (ctl q))\<rparr>"
      by (auto simp: Let_def key_def assms(2) split: option.splits if_splits)
    with Inr out False propose_up [OF _ p fresh] show ?thesis
      by (intro exI [of _ "bt_insert key cp (cs_outbox_checkpoints (ctl q))"]) (auto simp: bt_get_insert)
  qed
qed

lemma propose_all:
  assumes "fold (propose_checkpoint pl control t) cps (q, snap) = (q', snap')" "distinct (map oc_data_individual_shard_id cps)"
    and "\<forall>cp \<in> set cps. oc_target cp = t \<and>
      outbox_checkpoint (ctl q) (oc_data_individual_shard_id cp) t = outbox_checkpoint control (oc_data_individual_shard_id cp) t"
  shows "\<exists>m. ctl q' = (ctl q)\<lparr>cs_outbox_checkpoints := m\<rparr> \<and>
    (\<forall>k. bt_get m k = bt_get (cs_outbox_checkpoints (ctl q)) k \<or>
       (\<exists>cp \<in> set cps. \<not> already_committed control t cp \<and> k = (oc_data_individual_shard_id cp, t) \<and> bt_get m k = Some cp)) \<and>
    (bw_last_control_error snap' = None \<longrightarrow> bw_last_control_error snap = None \<and>
       (\<forall>cp \<in> set cps. \<not> already_committed control t cp \<longrightarrow> bt_get m (oc_data_individual_shard_id cp, t) = Some cp)) \<and>
    (up q \<and> (\<forall>cp \<in> set cps. \<forall>c. outbox_checkpoint control (oc_data_individual_shard_id cp) t = Some c \<longrightarrow> oc_epoch c < oc_epoch cp) \<longrightarrow>
       up q' \<and> snap' = snap)"
  using assms
proof (induction cps arbitrary: q snap)
  case Nil
  then show ?case by (intro exI [of _ "cs_outbox_checkpoints (ctl q)"]) simp
next
  case (Cons cp cps)
  obtain q1 snap1 where p: "propose_checkpoint pl control t cp (q, snap) = (q1, snap1)" by fastforce
  let ?key = "(oc_data_individual_shard_id cp, t)"
  have cp: "oc_target cp = t"
    "outbox_checkpoint (ctl q) (oc_data_individual_shard_id cp) t = outbox_checkpoint control (oc_data_individual_shard_id cp) t"
    using Cons.prems(3) by simp_all
  from propose_one [OF p cp] obtain m1 where
    m1: "ctl q1 = (ctl q)\<lparr>cs_outbox_checkpoints := m1\<rparr>"
      "\<forall>k. bt_get m1 k = bt_get (cs_outbox_checkpoints (ctl q)) k \<or> \<not> already_committed control t cp \<and> k = ?key \<and> bt_get m1 k = Some cp"
      "bw_last_control_error snap1 = None \<longrightarrow> bw_last_control_error snap = None \<and>
         (\<not> already_committed control t cp \<longrightarrow> bt_get m1 ?key = Some cp)"
      "up q \<and> (\<forall>c. outbox_checkpoint control (oc_data_individual_shard_id cp) t = Some c \<longrightarrow> oc_epoch c < oc_epoch cp) \<longrightarrow> up q1 \<and> snap1 = snap"
    by (elim exE conjE) (rule that)
  have other: "oc_data_individual_shard_id x \<noteq> oc_data_individual_shard_id cp" if "x \<in> set cps" for x
    using that Cons.prems(2) by (metis distinct.simps(2) image_eqI list.set_map list.simps(9))
  have "oc_target x = t \<and>
      outbox_checkpoint (ctl q1) (oc_data_individual_shard_id x) t = outbox_checkpoint control (oc_data_individual_shard_id x) t"
    if "x \<in> set cps" for x
    using Cons.prems(3) [rule_format, of x] that other [OF that] m1(1) m1(2) [rule_format, of "(oc_data_individual_shard_id x, t)"]
    by (auto simp: outbox_checkpoint_def)
  with Cons.IH [of q1 snap1] Cons.prems(1,2) p have "\<exists>m. ctl q' = (ctl q1)\<lparr>cs_outbox_checkpoints := m\<rparr> \<and>
      (\<forall>k. bt_get m k = bt_get (cs_outbox_checkpoints (ctl q1)) k \<or>
         (\<exists>cp \<in> set cps. \<not> already_committed control t cp \<and> k = (oc_data_individual_shard_id cp, t) \<and> bt_get m k = Some cp)) \<and>
      (bw_last_control_error snap' = None \<longrightarrow> bw_last_control_error snap1 = None \<and>
         (\<forall>cp \<in> set cps. \<not> already_committed control t cp \<longrightarrow> bt_get m (oc_data_individual_shard_id cp, t) = Some cp)) \<and>
      (up q1 \<and> (\<forall>cp \<in> set cps. \<forall>c. outbox_checkpoint control (oc_data_individual_shard_id cp) t = Some c \<longrightarrow> oc_epoch c < oc_epoch cp)
         \<longrightarrow> up q' \<and> snap' = snap1)" by simp
  then obtain m where
    m: "ctl q' = (ctl q1)\<lparr>cs_outbox_checkpoints := m\<rparr>"
      "\<forall>k. bt_get m k = bt_get (cs_outbox_checkpoints (ctl q1)) k \<or>
         (\<exists>cp \<in> set cps. \<not> already_committed control t cp \<and> k = (oc_data_individual_shard_id cp, t) \<and> bt_get m k = Some cp)"
      "bw_last_control_error snap' = None \<longrightarrow> bw_last_control_error snap1 = None \<and>
         (\<forall>cp \<in> set cps. \<not> already_committed control t cp \<longrightarrow> bt_get m (oc_data_individual_shard_id cp, t) = Some cp)"
      "up q1 \<and> (\<forall>cp \<in> set cps. \<forall>c. outbox_checkpoint control (oc_data_individual_shard_id cp) t = Some c \<longrightarrow> oc_epoch c < oc_epoch cp)
         \<longrightarrow> up q' \<and> snap' = snap1"
    by (elim exE conjE) (rule that)
  have same: "bt_get m ?key = bt_get m1 ?key" using m(2) [rule_format, of ?key] m1(1) by (auto dest: other)
  have "bt_get m k = bt_get (cs_outbox_checkpoints (ctl q)) k \<or>
      (\<exists>x \<in> set (cp # cps). \<not> already_committed control t x \<and> k = (oc_data_individual_shard_id x, t) \<and> bt_get m k = Some x)" for k
    using m(2) [rule_format, of k] m1(1) m1(2) [rule_format, of k] same by (cases "k = ?key") auto
  moreover have "bw_last_control_error snap' = None \<longrightarrow> bw_last_control_error snap = None \<and>
      (\<forall>x \<in> set (cp # cps). \<not> already_committed control t x \<longrightarrow> bt_get m (oc_data_individual_shard_id x, t) = Some x)"
    using m(3) m1(3) same by simp
  moreover have "ctl q' = (ctl q)\<lparr>cs_outbox_checkpoints := m\<rparr>" using m(1) m1(1) by simp
  ultimately show ?case using m(4) m1(4) by (intro exI [of _ m]) simp
qed

end

subsection \<open>The invariant of a cycle\<close>

abbreviation ws_outbox :: "('w, 'm, 'p, 'q) writer_state \<Rightarrow> MetadataOutbox" where
  "ws_outbox ws \<equiv> bo_outbox (vs_metadata_outbox (ws_service ws))"

abbreviation acknowledged_checkpoints ::
  "CheckpointEpoch \<Rightarrow> ('w, 'm, 'p, 'q) writer_state \<Rightarrow> IptoInstanceId \<Rightarrow> MetadataOutboxCheckpoint list" where
  "acknowledged_checkpoints E ws t \<equiv> service_acknowledged_checkpoints_for_target t E (ws_service ws)"

text \<open>\<open>checkpointed st t cp\<close>: the control state has a checkpoint of the segment that covers \<open>cp\<close>.\<close>

definition checkpointed :: "ClusterControlState \<Rightarrow> IptoInstanceId \<Rightarrow> MetadataOutboxCheckpoint \<Rightarrow> bool" where
  "checkpointed st t cp \<longleftrightarrow> (\<exists>c. outbox_checkpoint st (oc_data_individual_shard_id cp) t = Some c \<and>
     oc_segment_id c = oc_segment_id cp \<and> oc_last_acknowledged_offset cp \<le> oc_last_acknowledged_offset c)"

definition leased_only :: "ClusterControlState \<Rightarrow> NodeId \<Rightarrow> MetadataOutbox \<Rightarrow> MetadataOutbox \<Rightarrow> bool" where
  "leased_only control node ob ob' \<longleftrightarrow>
     (\<forall>k. bt_get (ob_entries ob') k = bt_get (ob_entries ob) k \<or>
        (\<exists>e e'. bt_get (ob_entries ob) k = Some e \<and> bt_get (ob_entries ob') k = Some e' \<and>
           oe_payload e' = oe_payload e \<and> lease_held control node (wp_target (oe_payload e))))"

lemma leased_only_step:
  assumes "leased_only control node ob ob1" "only_target t ob1 ob2" "lease_held control node t"
  shows "leased_only control node ob ob2"
  unfolding leased_only_def
proof
  fix k
  from assms(1) [unfolded leased_only_def, THEN spec, of k] assms(2) [unfolded only_target_def, THEN conjunct2, THEN spec, of k] assms(3)
  show "bt_get (ob_entries ob2) k = bt_get (ob_entries ob) k \<or>
        (\<exists>e e'. bt_get (ob_entries ob) k = Some e \<and> bt_get (ob_entries ob2) k = Some e' \<and>
           oe_payload e' = oe_payload e \<and> lease_held control node (wp_target (oe_payload e)))"
    by (elim disjE exE conjE) (metis option.inject)+
qed

lemma writer_target_unleased:
  "\<not> lease_held control node t \<Longrightarrow> writer_target pl node write config control E t (ws, sums) = (ws, sums)"
  by (simp add: writer_target_def)

lemma writer_target_leased:
  assumes "lease_held control node t" "outbox_wf (ws_outbox ws)"
    and "writer_target pl node write config control E t (ws, sums) = (ws', sums')"
  shows "\<exists>snapshot. bw_last_control_error snapshot = bw_last_control_error (ws_snapshot ws) \<and>
    only_target t (ws_outbox ws) (ws_outbox ws') \<and>
    bo_writer (vs_metadata_outbox (ws_service ws')) = bo_writer (vs_metadata_outbox (ws_service ws)) \<and>
    fold (propose_checkpoint pl control t) (acknowledged_checkpoints E ws' t) (ws_plane ws, snapshot)
      = (ws_plane ws', ws_snapshot ws')"
proof -
  obtain lease where lease: "writer_lease control t = Some lease" "wl_holder lease = node"
    using assms(1) by (auto simp: lease_held_def split: option.splits)
  let ?ob = "fst (retry_failed_for_target t (ws_outbox ws))"
  obtain ob' w' summary where d: "drain_pending_outbox_for_target write t (bwc_max_drain_attempts_per_target config) ?ob (ws_writer ws)
      = (ob', w', summary)" by (metis prod_cases3)
  have "only_target t (ws_outbox ws) ob'"
    using only_target_drain [OF only_target_retry [OF assms(2)]] d by (simp add: drain_pending_outbox_for_target_def)
  with assms(1,3) lease d show ?thesis
    by (intro exI [of _ "if drain_is_empty summary then ws_snapshot ws
          else (ws_snapshot ws)\<lparr>bw_total_acknowledged := bw_total_acknowledged (ws_snapshot ws) + ds_acknowledged summary,
                 bw_total_failed := bw_total_failed (ws_snapshot ws) + ds_failed summary\<rparr>"])
      (auto simp: writer_target_def drain_metadata_for_target_if_lease_held_def drain_metadata_for_target_def Let_def
        split: prod.splits if_splits)
qed

text \<open>Room for the epochs of a cycle below the limit of the saturating sum.\<close>

definition epoch_room :: "ClusterControlState \<Rightarrow> u64 \<Rightarrow> bool" where
  "epoch_room control cycles \<longleftrightarrow> unat cycles + 1 < 2 ^ 64 \<and>
     (\<forall>c \<in> set (bt_values (cs_outbox_checkpoints control)). unat (oc_epoch c) + unat cycles + 1 < 2 ^ 64)"

context applying_plane
begin

text \<open>
  The invariant of a cycle whose targets \<open>done'\<close> have been handled; \<open>fine\<close> says that the plane was up at
  the start and that the epoch of the cycle is above the committed ones.
\<close>

definition cycle_inv ::
  "bool \<Rightarrow> ClusterControlState \<Rightarrow> NodeId \<Rightarrow> CheckpointEpoch \<Rightarrow> MetadataOutbox \<Rightarrow> IptoInstanceId set \<Rightarrow>
   ('w, 'm, 'p, 'q) writer_state \<Rightarrow> bool" where
  "cycle_inv fine control node E ob0 done' ws \<longleftrightarrow>
     outbox_wf (ws_outbox ws) \<and>
     (\<exists>m. ctl (ws_plane ws) = control\<lparr>cs_outbox_checkpoints := m\<rparr>) \<and>
     (\<forall>s t. t \<notin> done' \<longrightarrow> outbox_checkpoint (ctl (ws_plane ws)) s t = outbox_checkpoint control s t) \<and>
     (bw_last_control_error (ws_snapshot ws) = None \<longrightarrow> (\<forall>t \<in> done'. lease_held control node t \<longrightarrow>
        (\<forall>cp \<in> set (acknowledged_checkpoints E ws t). checkpointed (ctl (ws_plane ws)) t cp))) \<and>
     (\<forall>s t. outbox_checkpoint (ctl (ws_plane ws)) s t = outbox_checkpoint control s t \<or>
        lease_held control node t \<and>
        (\<exists>cp \<in> set (acknowledged_checkpoints E ws t). outbox_checkpoint (ctl (ws_plane ws)) s t = Some cp)) \<and>
     leased_only control node ob0 (ws_outbox ws) \<and>
     (fine \<longrightarrow> up (ws_plane ws) \<and> bw_last_control_error (ws_snapshot ws) = None)"

lemma cycle_inv_step:
  assumes inv: "cycle_inv fine control node E ob0 done' ws" and t: "t \<notin> done'"
    and E: "fine \<Longrightarrow> \<forall>s c. outbox_checkpoint control s t = Some c \<longrightarrow> oc_epoch c < E"
    and step: "writer_target pl node write config control E t (ws, sums) = (ws', sums')"
  shows "cycle_inv fine control node E ob0 (insert t done') ws'"
proof (cases "lease_held control node t")
  case False
  with inv step show ?thesis by (auto simp: cycle_inv_def writer_target_unleased)
next
  case True
  let ?st = "ctl (ws_plane ws)" and ?st' = "ctl (ws_plane ws')" and ?cps = "acknowledged_checkpoints E ws' t"
  note i = inv [unfolded cycle_inv_def]
  obtain snapshot where l: "bw_last_control_error snapshot = bw_last_control_error (ws_snapshot ws)"
    "only_target t (ws_outbox ws) (ws_outbox ws')"
    "bo_writer (vs_metadata_outbox (ws_service ws')) = bo_writer (vs_metadata_outbox (ws_service ws))"
    "fold (propose_checkpoint pl control t) ?cps (ws_plane ws, snapshot) = (ws_plane ws', ws_snapshot ws')"
    using writer_target_leased [OF True _ step] i by blast
  have others: "acknowledged_checkpoints E ws' t' = acknowledged_checkpoints E ws t'" if "t' \<noteq> t" for t'
    using only_target_checkpoints [OF l(2) that] l(3)
    by (simp add: service_acknowledged_checkpoints_for_target_def durable_acknowledged_checkpoints_for_target_def)
  have shape: "oc_target cp = t \<and> oc_epoch cp = E" if "cp \<in> set ?cps" for cp
    using that by (auto simp: service_acknowledged_checkpoints_for_target_def durable_acknowledged_checkpoints_for_target_def
        dest: checkpoints_shape)
  have dist: "distinct (map oc_data_individual_shard_id ?cps)"
    by (simp add: service_acknowledged_checkpoints_for_target_def durable_acknowledged_checkpoints_for_target_def checkpoints_distinct)
  have "\<forall>cp \<in> set ?cps. oc_target cp = t \<and>
      outbox_checkpoint ?st (oc_data_individual_shard_id cp) t = outbox_checkpoint control (oc_data_individual_shard_id cp) t"
    using shape i t by blast
  from propose_all [OF l(4) dist, OF this] obtain m where m: "?st' = ?st\<lparr>cs_outbox_checkpoints := m\<rparr>"
    "\<forall>k. bt_get m k = bt_get (cs_outbox_checkpoints ?st) k \<or>
       (\<exists>cp \<in> set ?cps. \<not> already_committed control t cp \<and> k = (oc_data_individual_shard_id cp, t) \<and> bt_get m k = Some cp)"
    "bw_last_control_error (ws_snapshot ws') = None \<longrightarrow> bw_last_control_error snapshot = None \<and>
       (\<forall>cp \<in> set ?cps. \<not> already_committed control t cp \<longrightarrow> bt_get m (oc_data_individual_shard_id cp, t) = Some cp)"
    "up (ws_plane ws) \<and> (\<forall>cp \<in> set ?cps. \<forall>c. outbox_checkpoint control (oc_data_individual_shard_id cp) t = Some c \<longrightarrow> oc_epoch c < oc_epoch cp)
       \<longrightarrow> up (ws_plane ws') \<and> ws_snapshot ws' = snapshot" by (elim exE conjE) (rule that)
  have st': "outbox_checkpoint ?st' s t' = bt_get m (s, t')" for s t' by (simp add: m(1) outbox_checkpoint_def)
  have keep: "outbox_checkpoint ?st' s t' = outbox_checkpoint ?st s t'" if "t' \<noteq> t" for s t'
    using m(2) [rule_format, of "(s, t')"] that unfolding st' unfolding outbox_checkpoint_def by auto
  have at_t: "outbox_checkpoint ?st' s t = outbox_checkpoint control s t \<or> (\<exists>cp \<in> set ?cps. outbox_checkpoint ?st' s t = Some cp)" for s
    using m(2) [rule_format, of "(s, t)"] i t unfolding st' unfolding outbox_checkpoint_def by metis
  have covered: "checkpointed ?st' t cp" if cp: "cp \<in> set ?cps" and e: "bw_last_control_error (ws_snapshot ws') = None" for cp
  proof (cases "already_committed control t cp")
    case True
    have "x = cp" if "x \<in> set ?cps" "oc_data_individual_shard_id x = oc_data_individual_shard_id cp" for x
      using dist cp that by (metis distinct_map inj_on_contraD)
    with True m(2) [rule_format, of "(oc_data_individual_shard_id cp, t)"] i t
    have "outbox_checkpoint ?st' (oc_data_individual_shard_id cp) t = outbox_checkpoint control (oc_data_individual_shard_id cp) t"
      unfolding st' unfolding outbox_checkpoint_def by (metis prod.inject)
    with True show ?thesis by (auto simp: checkpointed_def already_committed_def split: option.splits)
  next
    case False
    with m(3) cp e show ?thesis by (simp add: checkpointed_def st')
  qed
  have same: "checkpointed ?st' t' cp \<longleftrightarrow> checkpointed ?st t' cp" if "t' \<noteq> t" for t' cp
    using keep [OF that] by (simp add: checkpointed_def)
  show ?thesis
    unfolding cycle_inv_def
  proof (intro conjI)
    show "outbox_wf (ws_outbox ws')" using l(2) by (simp add: only_target_def)
    show "\<exists>m. ?st' = control\<lparr>cs_outbox_checkpoints := m\<rparr>" using i m(1) by auto
    show "\<forall>s t'. t' \<notin> insert t done' \<longrightarrow> outbox_checkpoint ?st' s t' = outbox_checkpoint control s t'" using i keep by auto
    show "bw_last_control_error (ws_snapshot ws') = None \<longrightarrow> (\<forall>t' \<in> insert t done'. lease_held control node t' \<longrightarrow>
        (\<forall>cp \<in> set (acknowledged_checkpoints E ws' t'). checkpointed ?st' t' cp))"
      using i l(1) m(3) covered others same t by (metis insert_iff)
    show "\<forall>s t'. outbox_checkpoint ?st' s t' = outbox_checkpoint control s t' \<or> lease_held control node t' \<and>
        (\<exists>cp \<in> set (acknowledged_checkpoints E ws' t'). outbox_checkpoint ?st' s t' = Some cp)"
      using i at_t keep others True by metis
    show "leased_only control node ob0 (ws_outbox ws')" using leased_only_step [OF _ l(2) True] i by blast
    show "fine \<longrightarrow> up (ws_plane ws') \<and> bw_last_control_error (ws_snapshot ws') = None"
      using i l(1) m(4) E shape by auto
  qed
qed

lemma cycle_inv_targets:
  assumes "cycle_inv fine control node E ob0 done' ws" "distinct ts" "set ts \<inter> done' = {}"
    and "fine \<Longrightarrow> \<forall>k c. bt_get (cs_outbox_checkpoints control) k = Some c \<longrightarrow> oc_epoch c < E"
    and "fold (writer_target pl node write config control E) ts (ws, sums) = (ws', sums')"
  shows "cycle_inv fine control node E ob0 (set ts \<union> done') ws'"
  using assms(1-3,5)
proof (induction ts arbitrary: done' ws sums)
  case (Cons t ts)
  obtain ws1 sums1 where step: "writer_target pl node write config control E t (ws, sums) = (ws1, sums1)" by fastforce
  have "cycle_inv fine control node E ob0 (insert t done') ws1"
    using cycle_inv_step [OF Cons.prems(1) _ _ step] Cons.prems(3) assms(4) by (auto simp: outbox_checkpoint_def)
  from Cons.IH [OF this, of sums1] Cons.prems step show ?case by auto
qed simp

lemma writer_cycle_inv:
  fixes ws :: "('w, 'm, 'p, 'q) writer_state"
  assumes "pl_read pl (ws_plane ws) = Inr control" "outbox_wf (ws_outbox ws)"
  defines "E \<equiv> checkpoint_epoch_of control (bw_cycles (ws_snapshot ws) + 1)"
    and "ts \<equiv> case placement_map control of None \<Rightarrow> [] | Some m \<Rightarrow> map_instances m"
  shows "cycle_inv (up (ws_plane ws) \<and> epoch_room control (bw_cycles (ws_snapshot ws))) control node E (ws_outbox ws) (set ts)
    (writer_cycle pl node wr config ws)"
proof -
  let ?n = "bw_cycles (ws_snapshot ws) + 1" and ?fine = "up (ws_plane ws) \<and> epoch_room control (bw_cycles (ws_snapshot ws))"
  let ?ws0 = "ws\<lparr>ws_snapshot := (ws_snapshot ws)\<lparr>bw_cycles := ?n, bw_current_cycle := Some ?n, bw_last_control_error := None\<rparr>\<rparr>"
  obtain ws1 sums where f: "fold (writer_target pl node wr config control E) ts (?ws0, []) = (ws1, sums)" by fastforce
  have ws': "writer_cycle pl node wr config ws
      = (if sums \<noteq> [] then ws1\<lparr>ws_snapshot := (ws_snapshot ws1)\<lparr>bw_last_summary := Some sums\<rparr>\<rparr> else ws1)"
    using assms(1) f by (simp add: writer_cycle_def E_def ts_def Let_def)
  have start: "cycle_inv ?fine control node E (ws_outbox ws) {} ?ws0"
    using assms(2) read_state [OF assms(1)]
    by (auto simp: cycle_inv_def leased_only_def intro!: exI [of _ "cs_outbox_checkpoints control"])
  have "distinct ts" by (simp add: ts_def map_instances_def split: option.split)
  moreover have "oc_epoch c < E" if "?fine" "bt_get (cs_outbox_checkpoints control) k = Some c" for k c
  proof -
    have n: "unat ?n = unat (bw_cycles (ws_snapshot ws)) + 1" using that(1) by (simp add: epoch_room_def unat_word_ariths)
    then have "?n \<noteq> 0" by auto
    with checkpoint_epoch_above [OF that(2)] that(1) n show ?thesis by (simp add: E_def epoch_room_def add.assoc)
  qed
  ultimately have "cycle_inv ?fine control node E (ws_outbox ws) (set ts \<union> {}) ws1"
    using cycle_inv_targets [OF start _ _ _ f] by blast
  then show ?thesis by (simp add: ws' cycle_inv_def)
qed

end

interpretation exclusive: applying_plane mutex_plane cmx_state "\<lambda>q. \<not> cmx_poisoned q"
proof
  fix c q q' r
  assume p: "pl_propose mutex_plane c q = (q', r)"
  obtain st r' where a: "control_apply c (cmx_state q) = (st, r')" by fastforce
  show "case r of Inr _ \<Rightarrow> control_apply c (cmx_state q) = (cmx_state q', Inr ()) | Inl _ \<Rightarrow> cmx_state q' = cmx_state q"
    using p a control_apply_err [of c]
    by (cases r') (auto simp: mutex_plane_def ControlMutex_propose_def split: if_splits)
  show "\<not> cmx_poisoned q' \<and> r = Inr ()" if "\<not> cmx_poisoned q" "snd (control_apply c (cmx_state q)) = Inr ()"
    using that p a by (auto simp: mutex_plane_def ControlMutex_propose_def)
qed (auto simp: mutex_plane_def ControlMutex_read_def split: if_splits)

text \<open>A plane that refuses the next checkpoint proposal and accepts the following ones.\<close>

definition flaky_plane :: "(bool \<times> ClusterControlState) plane" where
  "flaky_plane =
     \<lparr>pl_read = \<lambda>(_, st). Ok st,
      pl_propose = \<lambda>c (reject, st).
        (case c of
           RecordOutboxCheckpoint _ \<Rightarrow>
             if reject then ((False, st), Err (PlaneUnavailable ''temporary quorum failure''))
             else (case control_apply c st of (st, r) \<Rightarrow> ((reject, st), map_err PlaneRejected r))
         | _ \<Rightarrow> (case control_apply c st of (st, r) \<Rightarrow> ((reject, st), map_err PlaneRejected r)))\<rparr>"

interpretation flaky: applying_plane flaky_plane snd "\<lambda>q. \<not> fst q"
proof
  fix c q q' r
  assume p: "pl_propose flaky_plane c q = (q', r)"
  obtain st r' where a: "control_apply c (snd q) = (st, r')" by fastforce
  show "case r of Inr _ \<Rightarrow> control_apply c (snd q) = (snd q', Inr ()) | Inl _ \<Rightarrow> snd q' = snd q"
    using p a control_apply_err [of c]
    by (cases q; cases r') (auto simp: flaky_plane_def split: if_splits ClusterControlCommand.splits prod.splits)
  show "\<not> fst q' \<and> r = Inr ()" if "\<not> fst q" "snd (control_apply c (snd q)) = Inr ()"
    using that p a by (cases q) (auto simp: flaky_plane_def split: if_splits ClusterControlCommand.splits)
qed (auto simp: flaky_plane_def)

text \<open>
  (C18) A cycle of the background writer commits what is acknowledged or records that it could not. The
  control plane is one on which a failed call has no effect and a successful proposal is applied, such as
  the mutex plane or one that refuses some proposals, and no other thread or node acts during the cycle;
  the Ipto writer may answer anything. A failed read changes nothing and is recorded. When the cycle ends
  without a recorded error, then for every target of the placement whose lease the node holds each
  acknowledged checkpoint of the outbox is covered by a committed checkpoint of the same segment; and
  there is no error when the plane is up and the epochs are below the limit of the saturating sum.
  In every case a committed checkpoint changes only for a target whose lease the node holds and only to
  an acknowledged checkpoint of the outbox; the rest of the control state is as it was; and only outbox
  entries of leased targets change, never their payload.
\<close>

theorem writer_cycle_commits_acknowledged:
  fixes ws :: "('w, 'm, 'p, 'q) writer_state" and node :: NodeId and wr :: "'w ipto_write" and config :: BackgroundWriterConfig
  assumes "applying_plane pl ctl up" "outbox_wf (ws_outbox ws)"
  defines "ws' \<equiv> writer_cycle pl node wr config ws"
    and "st \<equiv> ctl (ws_plane ws)"
    and "E \<equiv> checkpoint_epoch_of (ctl (ws_plane ws)) (bw_cycles (ws_snapshot ws) + 1)"
  defines "st' \<equiv> ctl (ws_plane ws')"
  shows "(\<forall>e. pl_read pl (ws_plane ws) = Err e \<longrightarrow> bw_last_control_error (ws_snapshot ws') = Some e \<and>
        ws_plane ws' = ws_plane ws \<and> ws_service ws' = ws_service ws \<and> ws_writer ws' = ws_writer ws) \<and>
    (up (ws_plane ws) \<and> unat (bw_cycles (ws_snapshot ws)) + 1 < 2 ^ 64 \<and>
       (\<forall>c \<in> set (bt_values (cs_outbox_checkpoints st)). unat (oc_epoch c) + unat (bw_cycles (ws_snapshot ws)) + 1 < 2 ^ 64) \<longrightarrow>
       bw_last_control_error (ws_snapshot ws') = None) \<and>
    (bw_last_control_error (ws_snapshot ws') = None \<longrightarrow>
       (\<forall>m t cp. placement_map st = Some m \<and> t \<in> set (map_instances m) \<and> lease_held st node t \<and>
        cp \<in> set (service_acknowledged_checkpoints_for_target t E (ws_service ws')) \<longrightarrow>
        (\<exists>c. outbox_checkpoint st' (oc_data_individual_shard_id cp) t = Some c \<and>
           oc_segment_id c = oc_segment_id cp \<and> oc_last_acknowledged_offset cp \<le> oc_last_acknowledged_offset c))) \<and>
    (\<forall>s t. outbox_checkpoint st' s t \<noteq> outbox_checkpoint st s t \<longrightarrow> lease_held st node t \<and>
        (\<exists>cp \<in> set (service_acknowledged_checkpoints_for_target t E (ws_service ws')). outbox_checkpoint st' s t = Some cp)) \<and>
    (\<exists>m. st' = st\<lparr>cs_outbox_checkpoints := m\<rparr>) \<and>
    (\<forall>k. bt_get (ob_entries (ws_outbox ws')) k = bt_get (ob_entries (ws_outbox ws)) k \<or>
       (\<exists>e e'. bt_get (ob_entries (ws_outbox ws)) k = Some e \<and> bt_get (ob_entries (ws_outbox ws')) k = Some e' \<and>
          oe_payload e' = oe_payload e \<and> lease_held st node (wp_target (oe_payload e))))"
proof (cases "pl_read pl (ws_plane ws)")
  case (Inl e)
  then have ws': "ws_plane ws' = ws_plane ws" "ws_service ws' = ws_service ws" "ws_writer ws' = ws_writer ws"
    "bw_last_control_error (ws_snapshot ws') = Some e"
    by (simp_all add: ws'_def writer_cycle_def Let_def)
  have "\<not> up (ws_plane ws)" using applying_plane.read_up [OF assms(1), of "ws_plane ws"] Inl by auto
  moreover have "\<exists>m. st' = st\<lparr>cs_outbox_checkpoints := m\<rparr>"
    by (intro exI [of _ "cs_outbox_checkpoints st"]) (simp add: st'_def st_def ws')
  ultimately show ?thesis using Inl ws' by (simp add: st'_def st_def)
next
  case (Inr control)
  then have st: "control = st" using applying_plane.read_state [OF assms(1)] by (simp add: st_def)
  let ?ts = "case placement_map st of None \<Rightarrow> [] | Some m \<Rightarrow> map_instances m"
  have "applying_plane.cycle_inv ctl up (up (ws_plane ws) \<and> epoch_room st (bw_cycles (ws_snapshot ws))) st node E (ws_outbox ws) (set ?ts) ws'"
    using applying_plane.writer_cycle_inv [OF assms(1) Inr assms(2), of node wr config] by (simp add: st ws'_def E_def st_def)
  note inv = this [unfolded applying_plane.cycle_inv_def [OF assms(1)]]
  have fine: "bw_last_control_error (ws_snapshot ws') = None" if "up (ws_plane ws)" "epoch_room st (bw_cycles (ws_snapshot ws))"
    using inv that by blast
  have covered: "checkpointed st' t cp"
    if "bw_last_control_error (ws_snapshot ws') = None" "placement_map st = Some m" "t \<in> set (map_instances m)" "lease_held st node t"
      "cp \<in> set (acknowledged_checkpoints E ws' t)" for m t cp
    using inv that unfolding st'_def by auto
  have changed: "outbox_checkpoint st' s t = outbox_checkpoint st s t \<or> lease_held st node t \<and>
      (\<exists>cp \<in> set (acknowledged_checkpoints E ws' t). outbox_checkpoint st' s t = Some cp)" for s t
    using inv unfolding st'_def by blast
  have "\<exists>m. st' = st\<lparr>cs_outbox_checkpoints := m\<rparr>" "leased_only st node (ws_outbox ws) (ws_outbox ws')"
    using inv unfolding st'_def by blast+
  with Inr fine covered changed show ?thesis
    unfolding epoch_room_def checkpointed_def leased_only_def by (intro conjI) (blast | simp)+
qed

definition sample_writer_state :: "(nat, unit, ControlMutex, ControlMutex) writer_state" where
  "sample_writer_state =
     \<lparr>ws_snapshot = BackgroundWriterSnapshot_default, ws_plane = sample_plane,
      ws_service = sample_service \<lparr>bo_outbox = acknowledged_sample, bo_writer = undefined\<rparr>, ws_writer = 0\<rparr>"

lemma drain_loop_idle: "deliver ob w = (ob, w, DrNoPending) \<Longrightarrow> drain_loop deliver n ob w s = (ob, w, s)"
  by (cases n) simp_all

lemma acknowledged_sample_idle:
  "fst (retry_failed_for_target t acknowledged_sample) = acknowledged_sample"
  "drain_pending_outbox_for_target wr t n acknowledged_sample w = (acknowledged_sample, w, drain_summary_empty)"
  "outbox_wf acknowledged_sample"
proof -
  have "oe_status e \<noteq> ObFailed" if "(k, e) \<in> set (bt_iter (ob_entries acknowledged_sample))" for k e
    using that by (auto simp: acknowledged_sample_def Let_def acknowledge_def enqueue_with_offset_def MetadataOutbox_new_def
        bt_contains_key_iff bt_eval)
  then have "filter (\<lambda>(_, e). oe_status e = ObFailed \<and> oe_retryable e \<and> wp_target (oe_payload e) = t)
      (bt_iter (ob_entries acknowledged_sample)) = []" by (fastforce simp: filter_empty_conv)
  then show "fst (retry_failed_for_target t acknowledged_sample) = acknowledged_sample"
    by (simp add: retry_failed_for_target_def)
  have "ob_pending acknowledged_sample = []"
    by (simp add: acknowledged_sample_def Let_def acknowledge_def enqueue_with_offset_def MetadataOutbox_new_def bt_contains_key_iff)
  then have "next_pending_for_target t acknowledged_sample = None"
    by (simp add: next_pending_for_target_def map_filter_def)
  then show "drain_pending_outbox_for_target wr t n acknowledged_sample w = (acknowledged_sample, w, drain_summary_empty)"
    by (simp add: drain_pending_outbox_for_target_def drain_loop_idle deliver_next_pending_for_target_def deliver_entry_def)
  show "outbox_wf acknowledged_sample"
    by (simp add: acknowledged_sample_def Let_def outbox_wf_acknowledge outbox_wf_enqueue outbox_wf_new)
qed

lemma writer_cycle_commits_acknowledged_witness:
  "\<exists>c. outbox_checkpoint (cmx_state (ws_plane (writer_cycle mutex_plane ''n'' always_ok BackgroundWriterConfig_default sample_writer_state)))
      5 ''ipto-a'' = Some c \<and> 8 \<le> oc_last_acknowledged_offset c"
proof -
  let ?ws' = "writer_cycle mutex_plane ''n'' always_ok BackgroundWriterConfig_default sample_writer_state"
  let ?E = "checkpoint_epoch_of sample_control 1"
  have m: "map_instances sample_placement = [''ipto-a'']"
    by (simp add: map_instances_def sample_placement_def ring_instances_def)
  have held: "lease_held sample_control ''n'' ''ipto-a''" by (simp add: lease_held_def sample_control_facts)
  have checkpoints: "bt_values (cs_outbox_checkpoints sample_control) = []"
    by (simp add: sample_control_def control_run_def ClusterControlState_new_def insert_placement_map_def bt_eval
        split: option.split)
  have ob: "ws_outbox ?ws' = acknowledged_sample"
    by (simp add: writer_cycle_def sample_writer_state_def sample_plane_def mutex_plane_def ControlMutex_read_def
        sample_control_facts m writer_target_def held drain_metadata_for_target_if_lease_held_def Let_def
        drain_metadata_for_target_def sample_service_def set_control_plane_def VannakService_new_def acknowledged_sample_idle
        drain_is_empty_def drain_summary_empty_def split: prod.split)
  have shape: "wp_shard_id (sample_payload ''m1'') = 5" "wp_target (sample_payload ''m1'') = ''ipto-a''"
    by (simp_all add: sample_payload_def sample_metadata_event_def metadata_event_builder_defs from_event_def Let_def)
  obtain cp where cp: "cp \<in> set (service_acknowledged_checkpoints_for_target ''ipto-a'' ?E (ws_service ?ws'))"
    "oc_data_individual_shard_id cp = 5" "oc_last_acknowledged_offset cp = 8"
  proof -
    let ?seg = "sm_segment_id (SegmentWriter_manifest (bo_writer (vs_metadata_outbox (ws_service ?ws'))))"
    have "5 \<in> set (map (\<lambda>entry. wp_shard_id (oe_payload entry))
        (filter (\<lambda>entry. wp_target (oe_payload entry) = ''ipto-a'') (bt_values (ob_entries acknowledged_sample))))"
      using shape by (simp add: acknowledged_sample_def Let_def acknowledge_def enqueue_with_offset_def MetadataOutbox_new_def
          bt_contains_key_iff bt_eval)
    moreover note acknowledged_sample_checkpoint [of ?seg ?E, unfolded shape]
    ultimately show thesis
      by (intro that) (auto simp: service_acknowledged_checkpoints_for_target_def ob map_filter_def image_iff
          durable_acknowledged_checkpoints_for_target_def outbox_acknowledged_checkpoints_for_target_def intro!: bexI [of _ 5])
  qed
  have facts: "\<not> cmx_poisoned (ws_plane sample_writer_state)" "outbox_wf (ws_outbox sample_writer_state)"
    "cmx_state (ws_plane sample_writer_state) = sample_control" "bw_cycles (ws_snapshot sample_writer_state) = 0"
    by (simp_all add: sample_writer_state_def sample_plane_def sample_service_def set_control_plane_def VannakService_new_def
        acknowledged_sample_idle(3) BackgroundWriterSnapshot_default_def)
  note cycle = writer_cycle_commits_acknowledged [OF exclusive.applying_plane_axioms facts(2), of "''n''" always_ok BackgroundWriterConfig_default,
      unfolded facts(3,4)]
  have "bw_last_control_error (ws_snapshot ?ws') = None"
    using cycle [THEN conjunct2, THEN conjunct1] facts(1) by (simp add: checkpoints)
  with cycle [THEN conjunct2, THEN conjunct2, THEN conjunct1] sample_control_facts(1) m held cp
  obtain c where "outbox_checkpoint (cmx_state (ws_plane ?ws')) 5 ''ipto-a'' = Some c" "8 \<le> oc_last_acknowledged_offset c" by fastforce
  then show ?thesis by blast
qed

end
