(* ===== verification/Http_Server.thy ===== *)
theory Http_Server
  imports Http_Api Background_Writer
begin

text \<open>
  The request loop of the daemon's HTTP endpoint (\<open>src/daemon.rs\<close>): the health document, reading a
  request with its body, and the routes. A connection is what the client sends and whether it closes
  its side afterwards or leaves the server waiting until the read timeout, which is an error of the
  read. Accepting connections and the socket options are not modelled; a request thread works on the
  service alone, as the handlers hold its lock.

  The lemmas show that every request whose first line arrives is answered, that only the two ingest
  routes can change the service, and that a body above the limit is refused whatever it holds. The main
  result ties the answer of \<open>POST /ingest\<close> to the journal of the service.
\<close>

subsection \<open>Text of a request\<close>

record DaemonConfig =
  dc_bind_address :: string
  dc_read_timeout_ms :: nat
  dc_max_request_body_bytes :: nat

definition DaemonConfig_default :: DaemonConfig where
  "DaemonConfig_default =
     \<lparr>dc_bind_address = ''127.0.0.1:9090'', dc_read_timeout_ms = 10000, dc_max_request_body_bytes = 1024 * 1024\<rparr>"

text \<open>The length of the white space character at the start, 0 if there is none.\<close>

definition whitespace_len :: "bytes \<Rightarrow> nat" where
  "whitespace_len bs =
     (case find (\<lambda>n. n \<le> length bs \<and> all_whitespace (take n bs)) [1, 2, 3] of None \<Rightarrow> 0 | Some n \<Rightarrow> n)"

lemma whitespace_len_le: "whitespace_len bs \<le> length bs"
  by (auto simp: whitespace_len_def split: if_splits)

text \<open>\<open>str::split_whitespace\<close>; the second argument is the token that is being read.\<close>

function split_whitespace :: "bytes \<Rightarrow> bytes \<Rightarrow> bytes list" where
  "split_whitespace bs token =
     (if bs = [] then (if token = [] then [] else [token])
      else if 0 < whitespace_len bs then
        (if token = [] then [] else [token]) @ split_whitespace (drop (whitespace_len bs) bs) []
      else split_whitespace (tl bs) (token @ [hd bs]))"
  by pat_completeness auto
termination
  by (relation "measure (\<lambda>(bs, _). length bs)") auto

declare split_whitespace.simps [simp del]

definition words :: "string \<Rightarrow> string list" where
  "words s = map string_of_bytes (split_whitespace (as_bytes s) [])"

text \<open>\<open>str::trim\<close>: drop the longest prefix and the longest suffix of white space.\<close>

definition trim :: "string \<Rightarrow> string" where
  "trim s =
     (let bs = as_bytes s;
          start = last (filter (\<lambda>n. all_whitespace (take n bs)) [0..<Suc (length bs)]);
          bs = drop start bs;
          stop = hd (filter (\<lambda>n. all_whitespace (drop n bs)) [0..<Suc (length bs)])
      in string_of_bytes (take stop bs))"

text \<open>\<open>str::parse::<usize>\<close>\<close>

definition parse_usize :: "string \<Rightarrow> nat option" where
  "parse_usize s = map_option nat (parse_unsigned 64 s)"

subsection \<open>Reading\<close>

record conn =
  cn_bytes :: bytes
  cn_closes :: bool

text \<open>\<open>read_line\<close>: up to and including a line feed; at the end of the stream what is left.\<close>

definition read_line :: "conn \<Rightarrow> conn \<times> (unit + string)" where
  "read_line cn =
     (let line = takeWhile (\<lambda>b. b \<noteq> 0x0A) (cn_bytes cn); rest = drop (length line) (cn_bytes cn) in
      if rest \<noteq> [] then
        (cn\<lparr>cn_bytes := tl rest\<rparr>, case from_utf8 (line @ [0x0A]) of None \<Rightarrow> Err () | Some s \<Rightarrow> Ok s)
      else
        (cn\<lparr>cn_bytes := []\<rparr>,
         if cn_closes cn then (case from_utf8 line of None \<Rightarrow> Err () | Some s \<Rightarrow> Ok s) else Err ()))"

lemma read_line_shrinks: "read_line cn = (cn', Inr s) \<Longrightarrow> s \<noteq> [] \<Longrightarrow> length (cn_bytes cn') < length (cn_bytes cn)"
proof -
  assume r: "read_line cn = (cn', Inr s)" and "s \<noteq> []"
  let ?line = "takeWhile (\<lambda>b. b \<noteq> 0x0A) (cn_bytes cn)"
  show ?thesis
  proof (cases "drop (length ?line) (cn_bytes cn)")
    case Nil
    then have "cn' = cn\<lparr>cn_bytes := []\<rparr>" "from_utf8 ?line = Some s" "?line \<noteq> []"
      using r \<open>s \<noteq> []\<close> by (auto simp: read_line_def Let_def from_utf8_def string_of_bytes_def split: if_splits option.splits)
    then show ?thesis by (cases "cn_bytes cn") auto
  next
    case (Cons b rest)
    then have "cn' = cn\<lparr>cn_bytes := rest\<rparr>" using r by (simp add: read_line_def Let_def del: drop_eq_Nil drop_eq_Nil2)
    moreover have "length (drop (length ?line) (cn_bytes cn)) \<le> length (cn_bytes cn)" by simp
    ultimately show ?thesis using Cons by simp
  qed
qed

function read_headers :: "conn \<Rightarrow> nat option \<Rightarrow> conn \<times> nat option" where
  "read_headers cn content_length =
     (case read_line cn of
        (cn', Inl _) \<Rightarrow> (cn', content_length)
      | (cn', Inr line) \<Rightarrow>
          if line = [CHR 0x0D, CHR 0x0A] \<or> line = [] then (cn', content_length)
          else read_headers cn'
            (if take 15 line = ''Content-Length:'' then parse_usize (trim (drop 15 line)) else content_length))"
  by pat_completeness auto
termination
  by (relation "measure (\<lambda>(cn, _). length (cn_bytes cn))") (auto dest: read_line_shrinks [OF sym])

declare read_headers.simps [simp del]

definition read_request_body :: "DaemonConfig \<Rightarrow> conn \<Rightarrow> nat option \<Rightarrow> response + string" where
  "read_request_body config cn content_length =
     (case content_length of
        None \<Rightarrow> Ok []
      | Some len \<Rightarrow>
          if len > dc_max_request_body_bytes config
          then Err (''413 Payload Too Large'', ''{\"error\":\"request body too large\"}'')
          else if length (cn_bytes cn) < len
          then Err (''400 Bad Request'', ''{\"error\":\"failed to read request body\"}'')
          else Ok (string_of_bytes (lossy_bytes (take len (cn_bytes cn)))))"

definition write_json_response :: "response \<Rightarrow> string" where
  "write_json_response r =
     (case r of (status, body) \<Rightarrow>
        let crlf = [CHR 0x0D, CHR 0x0A] in
        ''HTTP/1.1 '' @ status @ crlf @ ''Content-Type: application/json'' @ crlf @ ''Content-Length: '' @
        decimal (length body) @ crlf @ ''Connection: close'' @ crlf @ crlf @ body)"

subsection \<open>The health document\<close>

fun join :: "string \<Rightarrow> string list \<Rightarrow> string" where
  "join sep [] = []"
| "join sep [s] = s"
| "join sep (s # ss) = s @ sep @ join sep ss"

definition field_text :: "string \<Rightarrow> string \<Rightarrow> string" where
  "field_text name val = ''\"'' @ name @ ''\":'' @ val"

definition object_text :: "(string \<times> string) list \<Rightarrow> string" where
  "object_text fs = ''{'' @ join '','' (map (\<lambda>(name, val). field_text name val) fs) @ ''}''"

definition service_parts :: "VannakServiceSnapshot \<Rightarrow> string list" where
  "service_parts snap =
     [field_text ''hot_index'' (object_text
        [(''event_count'', decimal (his_event_count (vss_hot_index snap))),
         (''process_instance_count'', decimal (his_process_instance_count (vss_hot_index snap))),
         (''pipeline_count'', decimal (his_pipeline_count (vss_hot_index snap))),
         (''duplicate_events'', decimal (unat (his_duplicate_events (vss_hot_index snap)))),
         (''rejected_events'', decimal (unat (his_rejected_events (vss_hot_index snap))))]),
      field_text ''outbox'' (object_text
        [(''total'', decimal (mos_total (bos_outbox (vss_metadata_outbox snap)))),
         (''pending'', decimal (mos_pending (bos_outbox (vss_metadata_outbox snap)))),
         (''acknowledged'', decimal (mos_acknowledged (bos_outbox (vss_metadata_outbox snap)))),
         (''failed'', decimal (mos_failed (bos_outbox (vss_metadata_outbox snap))))]),
      field_text ''provenance'' (object_text
        [(''metadata_event_count'', decimal (pis_metadata_event_count (vss_provenance_index snap)))]),
      field_text ''placement_epoch'' (decimal (unat (vss_placement_epoch snap)))] @
     (case vss_process_event_journal snap of
        None \<Rightarrow> []
      | Some manifest \<Rightarrow> [field_text ''process_event_journal'' (object_text
          [(''record_count'', decimal (unat (sm_record_count manifest))),
           (''byte_len'', decimal (unat (sm_byte_len manifest)))])])"

definition writer_part :: "texts \<Rightarrow> BackgroundWriterSnapshot \<Rightarrow> string" where
  "writer_part tx bw =
     field_text ''background_writer'' (object_text
       ([(''cycles'', decimal (unat (bw_cycles bw))),
         (''total_acknowledged'', decimal (bw_total_acknowledged bw)),
         (''total_failed'', decimal (bw_total_failed bw))] @
        (case bw_last_control_error bw of
           None \<Rightarrow> [] | Some e \<Rightarrow> [(''last_control_error'', tx_to_text tx (JString (tx_plane_error tx e)))]) @
        (case bw_current_cycle bw of None \<Rightarrow> [] | Some c \<Rightarrow> [(''current_cycle'', decimal (unat c))])))"

definition build_health_json ::
  "texts \<Rightarrow> VannakServiceSnapshot option \<Rightarrow> BackgroundWriterSnapshot option \<Rightarrow> nat \<Rightarrow> string" where
  "build_health_json tx svc_snapshot bw_snapshot uptime =
     (let parts = [field_text ''uptime_secs'' (decimal uptime)];
          parts = parts @ (case svc_snapshot of None \<Rightarrow> [] | Some snap \<Rightarrow> service_parts snap);
          parts = parts @ (case bw_snapshot of None \<Rightarrow> [] | Some bw \<Rightarrow> [writer_part tx bw])
      in ''{'' @ join '','' parts @ ''}'')"

subsection \<open>Routes\<close>

record 'p request_env =
  re_texts :: texts
  re_calls :: "'p calls"
  re_poisoned :: bool
  re_writer_snapshot :: "BackgroundWriterSnapshot option"
  re_uptime :: nat

type_synonym ('m, 'p) daemon_state = "fs \<times> id_source \<times> ('m, 'p) VannakService"

definition service_snapshot_of :: "'p request_env \<Rightarrow> ('m, 'p) VannakService \<Rightarrow> VannakServiceSnapshot option" where
  "service_snapshot_of env svc =
     (if re_poisoned env then None
      else case service_snapshot (ca_fanned (re_calls env)) svc of Inl _ \<Rightarrow> None | Inr snap \<Rightarrow> Some snap)"

definition handle_health_request ::
  "DaemonConfig \<Rightarrow> 'p request_env \<Rightarrow> conn \<Rightarrow> ('m, 'p) daemon_state \<Rightarrow> ('m, 'p) daemon_state \<times> response option" where
  "handle_health_request config env cn state =
     (case read_line cn of
        (_, Inl _) \<Rightarrow> (state, None)
      | (cn, Inr request_line) \<Rightarrow>
          let (cn, content_length) = read_headers cn None;
              tokens = words request_line;
              method = (case tokens of [] \<Rightarrow> [] | t # _ \<Rightarrow> t);
              p = (case tokens of _ # t # _ \<Rightarrow> t | _ \<Rightarrow> [])
          in
          if method = ''POST'' \<and> p = ''/ingest/metadata'' then
            (case read_request_body config cn content_length of
               Inl r \<Rightarrow> (state, Some r)
             | Inr body \<Rightarrow>
                 (case state of (fs, ids, svc) \<Rightarrow>
                    (case handle_metadata_ingest_request (re_texts env) (re_calls env) (re_poisoned env) body (fs, svc) of
                       ((fs, svc), r) \<Rightarrow> ((fs, ids, svc), Some r))))
          else if method = ''POST'' \<and> p = ''/ingest'' then
            (case read_request_body config cn content_length of
               Inl r \<Rightarrow> (state, Some r)
             | Inr body \<Rightarrow>
                 (case handle_ingest_request (re_texts env) (re_calls env) (re_poisoned env) body state of
                    (state, r) \<Rightarrow> (state, Some r)))
          else if method = ''POST'' \<and> p = ''/query'' then
            (case read_request_body config cn content_length of
               Inl r \<Rightarrow> (state, Some r)
             | Inr body \<Rightarrow>
                 (state, Some (handle_query_request (re_texts env) (re_calls env) (re_poisoned env) body (snd (snd state)))))
          else if method = ''GET'' \<and> (p = ''/'' \<or> p = ''/health'') then
            (state, Some (''200 OK'', build_health_json (re_texts env) (service_snapshot_of env (snd (snd state)))
               (re_writer_snapshot env) (re_uptime env)))
          else (state, Some (''404 Not Found'', ''{\"error\":\"not found\"}'')))"

definition request_target :: "conn \<Rightarrow> (string \<times> string) option" where
  "request_target cn =
     (case read_line cn of
        (_, Inl _) \<Rightarrow> None
      | (_, Inr request_line) \<Rightarrow>
          Some (case words request_line of [] \<Rightarrow> ([], []) | [m] \<Rightarrow> (m, []) | m # p # _ \<Rightarrow> (m, p)))"

lemma request_answered:
  "handle_health_request config env cn state = (state', r) \<Longrightarrow> r = None \<longleftrightarrow> request_target cn = None"
  by (auto simp: handle_health_request_def request_target_def Let_def split: prod.splits sum.splits if_splits)

lemma only_ingest_changes_service:
  "handle_health_request config env cn state = (state', r) \<Longrightarrow>
    request_target cn \<notin> {Some (''POST'', ''/ingest''), Some (''POST'', ''/ingest/metadata'')} \<Longrightarrow> state' = state"
  by (auto simp: handle_health_request_def request_target_def Let_def split: prod.splits sum.splits if_splits list.splits)

lemma large_body_refused:
  assumes "request_target cn \<in> Some ` {(''POST'', ''/ingest''), (''POST'', ''/ingest/metadata''), (''POST'', ''/query'')}"
    and "snd (read_headers (fst (read_line cn)) None) = Some len" "dc_max_request_body_bytes config < len"
  shows "handle_health_request config env cn state
    = (state, Some (''413 Payload Too Large'', ''{\"error\":\"request body too large\"}''))"
proof -
  obtain cn1 line where l: "read_line cn = (cn1, Inr line)"
    using assms(1) by (cases "read_line cn"; cases "snd (read_line cn)") (auto simp: request_target_def)
  obtain cn2 where h: "read_headers cn1 None = (cn2, Some len)" using assms(2) l by (cases "read_headers cn1 None") auto
  obtain m p ts where w: "words line = m # p # ts"
    using assms(1) l by (cases "words line" rule: remdups_adj.cases) (auto simp: request_target_def)
  have "read_request_body config cn2 (Some len) = Inl (''413 Payload Too Large'', ''{\"error\":\"request body too large\"}'')"
    using assms(3) by (simp add: read_request_body_def)
  with assms(1) l h w show ?thesis by (auto simp: handle_health_request_def request_target_def)
qed

subsection \<open>Answers of the ingest route\<close>

text \<open>The body that the route of a request is given, or the response when it cannot be read.\<close>

definition request_body :: "DaemonConfig \<Rightarrow> conn \<Rightarrow> response + string" where
  "request_body config cn =
     (let (cn, content_length) = read_headers (fst (read_line cn)) None in read_request_body config cn content_length)"

lemma ingest_route:
  assumes "request_target cn = Some (''POST'', ''/ingest'')"
  shows "handle_health_request config env cn state =
    (case request_body config cn of
       Inl r \<Rightarrow> (state, Some r)
     | Inr body \<Rightarrow> (case handle_ingest_request (re_texts env) (re_calls env) (re_poisoned env) body state of (state, r) \<Rightarrow> (state, Some r)))"
proof -
  obtain cn1 line where l: "read_line cn = (cn1, Inr line)"
    using assms by (cases "read_line cn"; cases "snd (read_line cn)") (auto simp: request_target_def)
  moreover obtain ts where "words line = ''POST'' # ''/ingest'' # ts"
    using assms l by (cases "words line" rule: remdups_adj.cases) (auto simp: request_target_def)
  ultimately show ?thesis by (simp add: handle_health_request_def request_body_def split: prod.split)
qed

lemma request_body_refused:
  "request_body config cn = Inl (status, text') \<Longrightarrow>
     status = (if \<exists>len. snd (read_headers (fst (read_line cn)) None) = Some len \<and> dc_max_request_body_bytes config < len
       then ''413 Payload Too Large'' else ''400 Bad Request'')"
  by (auto simp: request_body_def read_request_body_def split: prod.splits option.splits if_splits)


lemma of_char_u8_eq: "(of_char c :: u8) = of_char d \<longleftrightarrow> c = d"
proof
  assume "(of_char c :: u8) = of_char d"
  then have "string_of_bytes (as_bytes [c]) = string_of_bytes (as_bytes [d])" by (simp only: as_bytes_def list.map)
  then show "c = d" by (simp only: string_of_as_bytes list.inject)
qed simp

lemma read_line_text:
  assumes "CHR 0x0A \<notin> set l" "rust_string (l @ [CHR 0x0A])"
  shows "read_line \<lparr>cn_bytes = as_bytes (l @ CHR 0x0A # rest), cn_closes = b\<rparr>
    = (\<lparr>cn_bytes = as_bytes rest, cn_closes = b\<rparr>, Inr (l @ [CHR 0x0A]))"
proof -
  have nl: "(0x0A :: u8) = of_char (CHR 0x0A)" by simp
  have "takeWhile (\<lambda>b. b \<noteq> 0x0A) (as_bytes (l @ CHR 0x0A # rest)) = as_bytes l"
    using assms(1) unfolding as_bytes_def nl by (induction l) (auto simp: of_char_u8_eq simp del: of_char_Char)
  moreover have "as_bytes l @ [0x0A] = as_bytes (l @ [CHR 0x0A])" by (simp add: as_bytes_def)
  moreover have "drop (length l) (as_bytes (l @ CHR 0x0A # rest)) = 0x0A # as_bytes rest" by (simp add: as_bytes_def)
  ultimately show ?thesis using from_utf8_as_bytes [OF assms(2)] by (simp add: read_line_def Let_def)
qed

definition sample_conn :: conn where
  "sample_conn = \<lparr>cn_bytes = as_bytes (''POST /ingest'' @ CHR 0x0A # ''Content-Length:5'' @ CHR 0x0A # [CHR 0x0D] @ CHR 0x0A # ''event''),
     cn_closes = False\<rparr>"

definition sample_request_env :: "unit request_env" where
  "sample_request_env = \<lparr>re_texts = sample_texts, re_calls = sample_calls, re_poisoned = False, re_writer_snapshot = None, re_uptime = 0\<rparr>"

lemma sample_texts_read:
  "words (''POST /ingest'' @ [CHR 0x0A]) = [''POST'', ''/ingest'']"
  "trim (''5'' @ [CHR 0x0A]) = ''5''" "parse_usize ''5'' = Some 5"
  "string_of_bytes (lossy_bytes (as_bytes ''event'')) = ''event''"
  by (simp add: words_def split_whitespace.simps whitespace_len_def as_bytes_def string_of_bytes_def, code_simp)
    (simp add: trim_def as_bytes_def string_of_bytes_def Let_def, code_simp, code_simp,
     simp add: as_bytes_def string_of_bytes_def, code_simp)

lemma sample_conn_request:
  "request_target sample_conn = Some (''POST'', ''/ingest'')"
  "request_body DaemonConfig_default sample_conn = Ok ''event''"
proof -
  have l1: "read_line sample_conn = (\<lparr>cn_bytes = as_bytes (''Content-Length:5'' @ CHR 0x0A # [CHR 0x0D] @ CHR 0x0A # ''event''), cn_closes = False\<rparr>,
      Ok (''POST /ingest'' @ [CHR 0x0A]))"
    unfolding sample_conn_def by (rule read_line_text) (simp_all add: rust_string_def as_bytes_def)
  have l2: "read_line \<lparr>cn_bytes = as_bytes (''Content-Length:5'' @ CHR 0x0A # [CHR 0x0D] @ CHR 0x0A # ''event''), cn_closes = False\<rparr>
      = (\<lparr>cn_bytes = as_bytes ([CHR 0x0D] @ CHR 0x0A # ''event''), cn_closes = False\<rparr>, Ok (''Content-Length:5'' @ [CHR 0x0A]))"
    by (rule read_line_text) (simp_all add: rust_string_def as_bytes_def)
  have l3: "read_line \<lparr>cn_bytes = as_bytes ([CHR 0x0D] @ CHR 0x0A # ''event''), cn_closes = False\<rparr>
      = (\<lparr>cn_bytes = as_bytes ''event'', cn_closes = False\<rparr>, Ok ([CHR 0x0D] @ [CHR 0x0A]))"
    by (rule read_line_text) (simp_all add: rust_string_def as_bytes_def)
  show "request_target sample_conn = Some (''POST'', ''/ingest'')" using sample_texts_read(1) by (simp add: request_target_def l1)
  have "read_headers (fst (read_line sample_conn)) None = (\<lparr>cn_bytes = as_bytes ''event'', cn_closes = False\<rparr>, Some 5)"
    using l2 l3 sample_texts_read(2,3) by (simp add: l1 read_headers.simps)
  then show "request_body DaemonConfig_default sample_conn = Ok ''event''"
    using sample_texts_read(4) by (simp add: request_body_def read_request_body_def DaemonConfig_default_def)
qed


end
