(* ===== verification/Cluster_Query.thy ===== *)
theory Cluster_Query
  imports Http_Server
begin

text \<open>
  Queries that are sent to every node (\<open>src/daemon.rs\<close>): the request, reading the answer of a peer, the
  scanner that takes the instances out of the answer's text, and the three ways of merging them with
  the local result. What a peer's connection yields is a parameter of a fan-out, by the position of the
  peer: a failure to connect or to send, or the bytes that arrive. A panic is the value \<open>None\<close>.

  The lemmas show what the merged result of a fan-out is, and what the scanner makes of the text that
  the query endpoint of \<open>Http_Api\<close> produces.
\<close>

subsection \<open>The scanner\<close>

record ClusterQueryConfig =
  cqc_peers :: "string list"
  cqc_connect_timeout_ms :: nat
  cqc_read_timeout_ms :: nat

definition ClusterQueryConfig_default :: ClusterQueryConfig where
  "ClusterQueryConfig_default = \<lparr>cqc_peers = [], cqc_connect_timeout_ms = 3000, cqc_read_timeout_ms = 5000\<rparr>"

record ClusterQueryResult =
  cqr_peer_count :: nat
  cqr_failed_peers :: "string list"
  cqr_merged :: QueryResult

text \<open>\<open>str::find\<close>, and a slice from an index, which panics outside the text or within a character.\<close>

fun find_str :: "string \<Rightarrow> string \<Rightarrow> nat option" where
  "find_str pat [] = (if pat = [] then Some 0 else None)"
| "find_str pat (c # s) = (if take (length pat) (c # s) = pat then Some 0 else map_option Suc (find_str pat s))"

definition slice_from :: "nat \<Rightarrow> string \<Rightarrow> string option" where
  "slice_from i s =
     (if i = length s \<or> i < length s \<and> \<not> utf8_cont (of_char (s ! i)) then Some (drop i s) else None)"

definition contains_str :: "string \<Rightarrow> string \<Rightarrow> bool" where
  "contains_str s pat \<longleftrightarrow> find_str pat s \<noteq> None"

text \<open>The value of a field: what follows the first occurrence of its name, up to a quotation mark.\<close>

definition field_marker :: "string \<Rightarrow> string" where
  "field_marker key = ''\"'' @ key @ ''\":\"''"

definition until_quote :: "string \<Rightarrow> nat" where
  "until_quote s = or_default 0 (find_str ''\"'' s)"

definition scan_field :: "string \<Rightarrow> string \<Rightarrow> string option" where
  "scan_field key s =
     (case find_str (field_marker key) s of
        None \<Rightarrow> None
      | Some start \<Rightarrow> (let after = drop (start + length (field_marker key)) s in Some (take (until_quote after) after)))"

definition peer_snapshot :: "ProcessInstanceId \<Rightarrow> PipelineId \<Rightarrow> ProcessStatus \<Rightarrow> ProcessInstanceSnapshot" where
  "peer_snapshot pi_id pipeline_id status =
     \<lparr>snap_tenant_id = [], snap_environment_id = [], snap_pipeline_id = pipeline_id, snap_process_definition_id = [],
      snap_process_instance_id = pi_id, snap_process_version = None, snap_current_activity_id = None, snap_status = status,
      snap_started_at = None, snap_last_updated_at = ''1970-01-01T00:00:00Z'', snap_completed_at = None,
      snap_correlation_id = None, snap_business_key = None, snap_token_id = None, snap_activities = bt_empty,
      snap_activity_entered_at = bt_empty, snap_activity_durations = bt_empty, snap_metadata_refs = [],
      snap_retry_count = 0, snap_last_error = None\<rparr>"

lemma find_str_bound: "find_str pat s = Some n \<Longrightarrow> n + length pat \<le> length s"
proof (induction s arbitrary: n)
  case (Cons c s)
  show ?case
  proof (cases "take (length pat) (c # s) = pat")
    case True
    then have "length pat \<le> length (c # s)" by (metis length_take min.absorb_iff1 min.commute)
    with True Cons.prems show ?thesis by simp
  next
    case False
    with Cons.prems obtain m where "find_str pat s = Some m" "n = Suc m" by auto
    with Cons.IH show ?thesis by simp
  qed
qed (simp split: if_splits)

function scan_instances :: "string \<Rightarrow> ProcessInstanceSnapshot list option" where
  "scan_instances rest =
     (case find_str (field_marker ''process_instance_id'') rest of
        None \<Rightarrow> Some []
      | Some start \<Rightarrow>
          let after_field = drop (start + length (field_marker ''process_instance_id'')) rest;
              id_end = until_quote after_field;
              pi_id = take id_end after_field;
              pipeline_id = or_default [] (scan_field ''pipeline_id'' after_field);
              status = or_default PsActive (Option.bind (scan_field ''status'' after_field) parse_query_status)
          in
          (case slice_from (id_end + 1) after_field of
             None \<Rightarrow> None
           | Some rest \<Rightarrow> map_option ((#) (peer_snapshot pi_id pipeline_id status)) (scan_instances rest)))"
  by pat_completeness auto
termination
  by (relation "measure length") (auto simp: slice_from_def field_marker_def dest!: find_str_bound split: if_splits)

declare scan_instances.simps [simp del]

definition parse_query_result_json :: "string \<Rightarrow> QueryResult option option" where
  "parse_query_result_json text' =
     (let body = trim text' in
      if contains_str body ''\"type\":\"ProcessInstances\"'' then
        (case scan_instances body of
           None \<Rightarrow> None
         | Some instances \<Rightarrow>
             if instances = [] \<and> contains_str body ''\"error\"'' then Some None else Some (Some (QProcessInstances instances)))
      else Some None)"

subsection \<open>Asking a peer\<close>

function read_response_head :: "conn \<Rightarrow> string \<Rightarrow> unit + conn \<times> string" where
  "read_response_head cn response =
     (case read_line cn of
        (_, Inl e) \<Rightarrow> Inl e
      | (cn', Inr line) \<Rightarrow>
          if line = [] \<or> line = [CHR 0x0D, CHR 0x0A] then Inr (cn', response)
          else read_response_head cn' (response @ line))"
  by pat_completeness auto
termination
  by (relation "measure (\<lambda>(cn, _). length (cn_bytes cn))") (auto dest: read_line_shrinks [OF sym])

declare read_response_head.simps [simp del]

definition read_to_string :: "conn \<Rightarrow> unit + string" where
  "read_to_string cn =
     (if cn_closes cn then (case from_utf8 (cn_bytes cn) of None \<Rightarrow> Err () | Some s \<Rightarrow> Ok s) else Err ())"

definition peer_request :: "string \<Rightarrow> string \<Rightarrow> string" where
  "peer_request peer json_body =
     (let crlf = [CHR 0x0D, CHR 0x0A] in
      ''POST /query HTTP/1.1'' @ crlf @ ''Host: '' @ peer @ crlf @ ''Content-Type: application/json'' @ crlf @
      ''Content-Length: '' @ decimal (length json_body) @ crlf @ ''Connection: close'' @ crlf @ crlf @ json_body)"

definition send_query_to_peer ::
  "(string \<Rightarrow> string \<Rightarrow> unit + conn) \<Rightarrow> string \<Rightarrow> string \<Rightarrow> (unit + QueryResult option) option" where
  "send_query_to_peer net peer json_body =
     (case net peer (peer_request peer json_body) of
        Inl e \<Rightarrow> Some (Inl e)
      | Inr cn \<Rightarrow>
          (case read_response_head cn [] of
             Inl e \<Rightarrow> Some (Inl e)
           | Inr (cn, response) \<Rightarrow>
               if response = [] then Some (Inr None)
               else case read_to_string cn of
                 Inl e \<Rightarrow> Some (Inl e)
               | Inr body \<Rightarrow> map_option Inr (parse_query_result_json body)))"

subsection \<open>Fan-out\<close>

type_synonym network = "nat \<Rightarrow> string \<Rightarrow> string \<Rightarrow> unit + conn"

text \<open>The loop over the peers, with the way the answer of one is merged.\<close>

fun fanout_peers ::
  "network \<Rightarrow> string \<Rightarrow> (ProcessInstanceSnapshot list \<Rightarrow> ProcessInstanceSnapshot list \<Rightarrow> ProcessInstanceSnapshot list) \<Rightarrow>
   nat \<Rightarrow> string list \<Rightarrow> ProcessInstanceSnapshot list \<times> string list \<Rightarrow> (ProcessInstanceSnapshot list \<times> string list) option" where
  "fanout_peers net json_body merge i [] acc = Some acc"
| "fanout_peers net json_body merge i (peer # peers) (instances, failed) =
     (case send_query_to_peer (net i) peer json_body of
        None \<Rightarrow> None
      | Some (Inr (Some (QProcessInstances more_instances))) \<Rightarrow>
          fanout_peers net json_body merge (Suc i) peers (merge instances more_instances, failed)
      | Some (Inr _) \<Rightarrow> fanout_peers net json_body merge (Suc i) peers (instances, failed)
      | Some (Inl _) \<Rightarrow> fanout_peers net json_body merge (Suc i) peers (instances, failed @ [peer]))"

definition fanout_process_instance_query ::
  "network \<Rightarrow> exec_call \<Rightarrow> bool \<Rightarrow> ('m, 'p) VannakService \<Rightarrow> ProcessInstanceQuery \<Rightarrow> ClusterQueryConfig \<Rightarrow>
   ClusterQueryResult option" where
  "fanout_process_instance_query net call poisoned service query config =
     (if poisoned then None
      else
        let local_result = service_process_instance call service query;
            instances = (case local_result of Inr (Some snap) \<Rightarrow> [snap] | _ \<Rightarrow> []);
            failed = (case local_result of Inl _ \<Rightarrow> [''local''] | Inr _ \<Rightarrow> []);
            seen_ids = map snap_process_instance_id instances;
            json_body = ''{\"type\":\"ProcessInstance\",\"process_instance_id\":\"'' @ iq_process_instance_id query @ ''\"}''
        in
        (case fanout_peers net json_body
             (\<lambda>instances more_instances. instances @ filter (\<lambda>inst. snap_process_instance_id inst \<notin> set seen_ids) more_instances)
             0 (cqc_peers config) (instances, failed) of
           None \<Rightarrow> None
         | Some (instances, failed) \<Rightarrow>
             Some \<lparr>cqr_peer_count = length (cqc_peers config), cqr_failed_peers = failed,
                   cqr_merged = QProcessInstances instances\<rparr>))"

text \<open>\<open>extend (drain (..remaining.min (len)))\<close>\<close>

definition merge_limited ::
  "QueryLimit \<Rightarrow> ProcessInstanceSnapshot list \<Rightarrow> ProcessInstanceSnapshot list \<Rightarrow> ProcessInstanceSnapshot list" where
  "merge_limited limit all_instances more_instances =
     (let remaining = limit - length all_instances in all_instances @ take (min remaining (length more_instances)) more_instances)"

definition local_instances :: "VannakServiceError + QueryResult \<Rightarrow> ProcessInstanceSnapshot list" where
  "local_instances r = (case r of Inr (QProcessInstances instances) \<Rightarrow> instances | _ \<Rightarrow> [])"

definition fanout_limited ::
  "network \<Rightarrow> string \<Rightarrow> QueryLimit \<Rightarrow> ProcessInstanceSnapshot list \<Rightarrow> ClusterQueryConfig \<Rightarrow> ClusterQueryResult option" where
  "fanout_limited net json_body limit all_instances config =
     (case fanout_peers net json_body (merge_limited limit) 0 (cqc_peers config) (all_instances, []) of
        None \<Rightarrow> None
      | Some (all_instances, failed) \<Rightarrow>
          Some \<lparr>cqr_peer_count = length (cqc_peers config), cqr_failed_peers = failed,
                cqr_merged = QProcessInstances (take limit all_instances)\<rparr>)"

definition fanout_pipeline_query ::
  "network \<Rightarrow> sitas_error + unit \<Rightarrow> bool \<Rightarrow> ('m, 'p) VannakService \<Rightarrow> PipelineQuery \<Rightarrow> ClusterQueryConfig \<Rightarrow>
   ClusterQueryResult option" where
  "fanout_pipeline_query net fanned poisoned service query config =
     (if poisoned then None
      else fanout_limited net
        (''{\"type\":\"Pipeline\",\"pipeline_id\":\"'' @ plq_pipeline_id query @ ''\",\"limit\":'' @ decimal (plq_limit query) @ ''}'')
        (plq_limit query) (local_instances (service_pipeline_instances fanned service query)) config)"

definition fanout_process_status_query ::
  "network \<Rightarrow> sitas_error + unit \<Rightarrow> bool \<Rightarrow> ('m, 'p) VannakService \<Rightarrow> ProcessStatusQuery \<Rightarrow> ClusterQueryConfig \<Rightarrow>
   ClusterQueryResult option" where
  "fanout_process_status_query net fanned poisoned service query config =
     (if poisoned then None
      else fanout_limited net
        (''{\"type\":\"ProcessStatus\",\"status\":\"'' @ status_text (sq_status query) @ ''\",\"limit\":'' @ decimal (sq_limit query) @ ''}'')
        (sq_limit query) (local_instances (service_process_instances_by_status fanned service query)) config)"

subsection \<open>Text in segments\<close>

text \<open>
  A text is seen as its segments between quotation marks. A marker occurs where a segment is the key, the
  next one is a colon and another quotation mark follows.
\<close>

abbreviation quoted :: "string list \<Rightarrow> string" where
  "quoted segs \<equiv> join ''\"'' segs"

abbreviation quote_free :: "string \<Rightarrow> bool" where
  "quote_free s \<equiv> CHR 0x22 \<notin> set s"

fun segs_after :: "string \<Rightarrow> string list \<Rightarrow> string list option" where
  "segs_after key (s # k # c # v # rest) =
     (if k = key \<and> c = '':'' then Some (v # rest) else segs_after key (k # c # v # rest))"
| "segs_after key _ = None"

lemma quoted_Cons: "quoted (s # segs) = s @ (if segs = [] then [] else CHR 0x22 # quoted segs)"
  by (cases segs) simp_all

lemma find_skip: "quote_free a \<Longrightarrow> find_str (CHR 0x22 # pat) (a @ s) = map_option ((+) (length a)) (find_str (CHR 0x22 # pat) s)"
proof (induction a)
  case Nil
  then show ?case by (cases "find_str (CHR 0x22 # pat) s") simp_all
next
  case (Cons c a)
  then show ?case by (cases "find_str (CHR 0x22 # pat) s") auto
qed

lemma find_none: "quote_free a \<Longrightarrow> find_str (CHR 0x22 # pat) a = None"
  using find_skip [of a pat "[]"] by simp

lemma until_quote_quoted: "quote_free v \<Longrightarrow> until_quote (quoted (v # rest)) = (if rest = [] then 0 else length v)"
  by (simp add: until_quote_def or_default_def quoted_Cons find_skip find_none)

lemma take_quote_free: "quote_free c \<Longrightarrow> take n c \<noteq> a @ CHR 0x22 # b"
  using in_set_takeD [of "CHR 0x22" n c] by auto

lemma prefix_take: "take (length pat) s = pat \<longleftrightarrow> (\<exists>t. s = pat @ t)"
  by (metis append_eq_conv_conj append_take_drop_id)

lemma quote_split: "quote_free k \<Longrightarrow> quote_free key \<Longrightarrow> k @ CHR 0x22 # s = key @ CHR 0x22 # t \<longleftrightarrow> k = key \<and> s = t"
  by (induction k arbitrary: key) (auto simp: Cons_eq_append_conv split: if_splits, (case_tac key; auto)+)

lemma marker_at:
  assumes "quote_free key" "quote_free k"
  shows "take (length (field_marker key)) (CHR 0x22 # k @ CHR 0x22 # s) = field_marker key \<longleftrightarrow> k = key \<and> (\<exists>t. s = '':\"'' @ t)"
  unfolding prefix_take using quote_split [OF assms(2,1)] by (simp add: field_marker_def)

lemma marker_skip:
  "quote_free a \<Longrightarrow> find_str (field_marker key) (a @ s) = map_option ((+) (length a)) (find_str (field_marker key) s)"
  by (simp add: field_marker_def find_skip)

text \<open>No marker fits into fewer than three quotation marks.\<close>

lemma no_marker:
  assumes "quote_free key" "quote_free k" "quote_free c"
  shows "find_str (field_marker key) c = None" "find_str (field_marker key) (CHR 0x22 # c) = None"
    "find_str (field_marker key) (CHR 0x22 # k @ CHR 0x22 # c) = None"
proof -
  show "find_str (field_marker key) c = None" and one: "find_str (field_marker key) (CHR 0x22 # c) = None"
    using assms by (simp_all add: field_marker_def find_none take_quote_free)
  have "\<not> (\<exists>t. c = '':\"'' @ t)" using assms by auto
  then have "take (length (field_marker key)) (CHR 0x22 # k @ CHR 0x22 # c) \<noteq> field_marker key"
    using marker_at [OF assms(1,2), of c] by simp
  then show "find_str (field_marker key) (CHR 0x22 # k @ CHR 0x22 # c) = None"
    unfolding find_str.simps(2) [of "field_marker key" "CHR 0x22" "k @ CHR 0x22 # c"] marker_skip [OF assms(2)] one by simp
qed

lemma find_marker:
  assumes "quote_free key" "list_all quote_free segs"
  shows "map_option (\<lambda>n. drop (n + length (field_marker key)) (quoted segs)) (find_str (field_marker key) (quoted segs))
    = map_option quoted (segs_after key segs)"
  using assms
proof (induction key segs rule: segs_after.induct)
  case (1 key s k c v rest)
  let ?m = "field_marker key" and ?r = "quoted (k # c # v # rest)"
  have r: "?r = k @ CHR 0x22 # c @ CHR 0x22 # quoted (v # rest)" by simp
  have all: "quoted (s # k # c # v # rest) = s @ CHR 0x22 # ?r" by simp
  have "(\<exists>t. c @ CHR 0x22 # quoted (v # rest) = '':\"'' @ t) \<longleftrightarrow> c = '':''"
    using quote_split [of c "'':''" "quoted (v # rest)"] 1(3) by auto
  then have at: "take (length ?m) (CHR 0x22 # ?r) = ?m \<longleftrightarrow> k = key \<and> c = '':''"
    using marker_at [OF 1(2), of k "c @ CHR 0x22 # quoted (v # rest)"] 1(3) r by simp
  have skip: "find_str ?m (s @ CHR 0x22 # ?r) = map_option ((+) (length s)) (find_str ?m (CHR 0x22 # ?r))"
    using 1(3) by (simp add: field_marker_def find_skip)
  show ?case
  proof (cases "k = key \<and> c = '':''")
    case True
    then have "find_str ?m (CHR 0x22 # ?r) = Some 0" using at by simp
    moreover have "drop (length ?m) (CHR 0x22 # ?r) = quoted (v # rest)" using True by (simp add: field_marker_def)
    ultimately show ?thesis using True skip by (simp only: all) simp
  next
    case False
    then have "find_str ?m (CHR 0x22 # ?r) = map_option Suc (find_str ?m ?r)" using at by auto
    then have "map_option (\<lambda>n. drop (n + length ?m) (s @ CHR 0x22 # ?r)) (find_str ?m (s @ CHR 0x22 # ?r))
      = map_option (\<lambda>n. drop (n + length ?m) ?r) (find_str ?m ?r)"
      unfolding skip by (simp only: option.map_comp comp_def) (simp add: add.commute [of "length s"] add.assoc)
    then have "map_option (\<lambda>n. drop (n + length ?m) (quoted (s # k # c # v # rest))) (find_str ?m (quoted (s # k # c # v # rest)))
      = map_option quoted (segs_after key (k # c # v # rest))"
      using False 1 unfolding all by simp
    with False show ?thesis by (simp only: segs_after.simps if_False)
  qed
qed (simp_all add: quoted_Cons marker_skip no_marker del: find_str.simps)

definition segs_value :: "string list \<Rightarrow> string" where
  "segs_value segs = (case segs of v # _ # _ \<Rightarrow> v | _ \<Rightarrow> [])"

lemma segs_after_quote_free:
  "list_all quote_free segs \<Longrightarrow> segs_after key segs = Some segs' \<Longrightarrow> list_all quote_free segs' \<and> segs' \<noteq> []"
  by (induction key segs rule: segs_after.induct) (auto split: if_splits)

lemma take_until_quote:
  "list_all quote_free segs \<Longrightarrow> segs \<noteq> [] \<Longrightarrow> take (until_quote (quoted segs)) (quoted segs) = segs_value segs"
  using until_quote_quoted [of "hd segs" "tl segs"]
  by (cases segs rule: remdups_adj.cases) (simp_all add: segs_value_def quoted_Cons del: join.simps)

lemma scan_field_quoted:
  assumes "quote_free key" "list_all quote_free segs"
  shows "scan_field key (quoted segs) = map_option segs_value (segs_after key segs)"
proof (cases "segs_after key segs")
  case None
  then show ?thesis using find_marker [OF assms] by (simp add: scan_field_def)
next
  case (Some segs')
  then obtain n where "find_str (field_marker key) (quoted segs) = Some n"
    "drop (n + length (field_marker key)) (quoted segs) = quoted segs'"
    using find_marker [OF assms] by auto
  then show ?thesis
    using Some take_until_quote [of segs'] segs_after_quote_free [OF assms(2) Some] by (simp add: scan_field_def)
qed

lemma scan_end:
  assumes "list_all quote_free segs" "segs_after ''process_instance_id'' segs = None"
  shows "scan_instances (quoted segs) = Some []"
proof -
  have "find_str (field_marker ''process_instance_id'') (quoted segs) = None"
    using find_marker [of "''process_instance_id''", OF _ assms(1)] assms(2) by simp
  then show ?thesis by (simp add: scan_instances.simps)
qed

lemma scan_step:
  assumes "list_all quote_free segs" "segs_after ''process_instance_id'' segs = Some (v # (CHR '','' # w) # rest)"
  shows "scan_instances (quoted segs) = map_option ((#) (peer_snapshot v
      (or_default [] (map_option segs_value (segs_after ''pipeline_id'' (v # (CHR '','' # w) # rest))))
      (or_default PsActive (Option.bind (map_option segs_value (segs_after ''status'' (v # (CHR '','' # w) # rest))) parse_query_status))))
    (scan_instances (quoted ((CHR '','' # w) # rest)))"
proof -
  let ?m = "field_marker ''process_instance_id''" and ?after = "v # (CHR '','' # w) # rest"
  have free: "list_all quote_free ?after" using segs_after_quote_free [OF assms] by blast
  then have v: "quote_free v" by simp
  obtain n where n: "find_str ?m (quoted segs) = Some n" "drop (n + length ?m) (quoted segs) = quoted ?after"
    using find_marker [of "''process_instance_id''", OF _ assms(1)] assms(2) by (auto simp: map_option_case split: option.splits)
  have u: "until_quote (quoted ?after) = length v" "take (length v) (quoted ?after) = v"
    using until_quote_quoted [OF v, of "(CHR '','' # w) # rest"] by (simp_all add: quoted_Cons)
  have "slice_from (length v + 1) (quoted ?after) = Some (quoted ((CHR '','' # w) # rest))"
    by (simp add: slice_from_def quoted_Cons nth_append utf8_cont_def)
  then show ?thesis
    unfolding scan_instances.simps [of "quoted segs"] n(1) option.case Let_def n(2) u
    using scan_field_quoted [OF _ free, of "''pipeline_id''"] scan_field_quoted [OF _ free, of "''status''"] by simp
qed

subsection \<open>What the scanner makes of the answer of a peer\<close>

definition inst_segs :: "ProcessInstanceSnapshot \<Rightarrow> string list" where
  "inst_segs s =
     [''pipeline_id'', '':'', snap_pipeline_id s, '','', ''process_instance_id'', '':'', snap_process_instance_id s, '','',
      ''status'', '':'', status_text (snap_status s)]"

fun tail_segs :: "ProcessInstanceSnapshot list \<Rightarrow> string list" where
  "tail_segs [] = [''}],'', ''type'', '':'', ''ProcessInstances'', ''}'']"
| "tail_segs (s # ss) = ''},{'' # inst_segs s @ tail_segs ss"

fun answer_segs :: "ProcessInstanceSnapshot list \<Rightarrow> string list" where
  "answer_segs [] = [''{'', ''instance'', '':[],'', ''type'', '':'', ''ProcessInstances'', ''}'']"
| "answer_segs (s # ss) = ''{'' # ''instance'' # '':[{'' # inst_segs s @ tail_segs ss"

text \<open>Each instance with the pipeline of the one after it.\<close>

fun misread :: "ProcessInstanceSnapshot list \<Rightarrow> ProcessInstanceSnapshot list" where
  "misread [] = []"
| "misread (s # ss) =
     peer_snapshot (snap_process_instance_id s) (case ss of [] \<Rightarrow> [] | next_one # _ \<Rightarrow> snap_pipeline_id next_one)
       (if snap_status s = PsUnknown then PsActive else snap_status s) # misread ss"

definition snapshot_plain :: "ProcessInstanceSnapshot \<Rightarrow> bool" where
  "snapshot_plain s \<longleftrightarrow> quote_free (snap_pipeline_id s) \<and> quote_free (snap_process_instance_id s)"

lemma status_text_free [simp]: "quote_free (status_text st)"
  by (cases st) simp_all

lemma status_read [simp]:
  "or_default PsActive (parse_query_status (status_text st)) = (if st = PsUnknown then PsActive else st)"
  by (cases st) (simp_all add: parse_query_status_def or_default_def)

lemma tail_segs_free: "list_all snapshot_plain ss \<Longrightarrow> list_all quote_free (tail_segs ss)"
  by (induction ss) (simp_all add: inst_segs_def snapshot_plain_def)

lemma tail_not_Nil [simp]: "tail_segs ss \<noteq> []" "answer_segs ss \<noteq> []"
  by (cases ss; simp)+

lemma scan_tail:
  assumes "list_all snapshot_plain ss" "quote_free st"
  shows "scan_instances (quoted ('','' # ''status'' # '':'' # st # tail_segs ss)) = Some (misread ss)"
  using assms
proof (induction ss arbitrary: st)
  case Nil
  then show ?case using scan_end [of "'','' # ''status'' # '':'' # st # tail_segs []"] by simp
next
  case (Cons s ss)
  let ?st = "status_text (snap_status s)" and ?id = "snap_process_instance_id s"
  have free: "list_all quote_free ('','' # ''status'' # '':'' # st # tail_segs (s # ss))"
    using Cons.prems tail_segs_free [of "s # ss"] by (simp del: tail_segs.simps)
  have "segs_after ''pipeline_id'' (?id # '','' # ''status'' # '':'' # ?st # tail_segs ss)
    = (case ss of [] \<Rightarrow> None | s' # ss' \<Rightarrow> segs_after ''pipeline_id'' (tail_segs ss))"
    by (cases ss) (simp_all add: inst_segs_def)
  then have pipeline: "or_default [] (map_option segs_value (segs_after ''pipeline_id'' (?id # '','' # ''status'' # '':'' # ?st # tail_segs ss)))
    = (case ss of [] \<Rightarrow> [] | s' # _ \<Rightarrow> snap_pipeline_id s')"
    by (cases ss) (simp_all add: inst_segs_def or_default_def segs_value_def)
  have "segs_value (?st # tail_segs ss) = ?st" by (cases "tail_segs ss") (simp_all add: segs_value_def)
  then have status: "or_default PsActive (Option.bind (map_option segs_value
      (segs_after ''status'' (?id # '','' # ''status'' # '':'' # ?st # tail_segs ss))) parse_query_status)
    = (if snap_status s = PsUnknown then PsActive else snap_status s)"
    by (cases "tail_segs ss") (simp_all del: not_Cons_self)
  have "segs_after ''process_instance_id'' ('','' # ''status'' # '':'' # st # tail_segs (s # ss))
    = Some (?id # '','' # ''status'' # '':'' # ?st # tail_segs ss)"
    by (simp add: inst_segs_def)
  from scan_step [OF free this] pipeline status Cons.IH [of ?st] Cons.prems(1) show ?case by simp
qed

lemma answer_segs_free: "list_all snapshot_plain snaps \<Longrightarrow> list_all quote_free (answer_segs snaps)"
  using tail_segs_free [of "tl snaps"] by (cases snaps) (simp_all add: inst_segs_def snapshot_plain_def)

text \<open>The first instance is found like one after another.\<close>

lemma scan_answer:
  assumes "list_all snapshot_plain snaps"
  shows "scan_instances (quoted (answer_segs snaps)) = Some (misread snaps)"
proof (cases snaps)
  case Nil
  then show ?thesis using scan_end [of "answer_segs []"] by simp
next
  case (Cons s ss)
  let ?segs = "'','' # ''status'' # '':'' # [] # tail_segs snaps"
  have "segs_after ''process_instance_id'' (answer_segs snaps) = segs_after ''process_instance_id'' ?segs"
    "segs_after ''process_instance_id'' ?segs
       = Some (snap_process_instance_id s # '','' # ''status'' # '':'' # status_text (snap_status s) # tail_segs ss)"
    using Cons by (simp_all add: inst_segs_def)
  moreover have "list_all quote_free ?segs" using tail_segs_free [OF assms] by simp
  ultimately have "scan_instances (quoted (answer_segs snaps)) = scan_instances (quoted ?segs)"
    using scan_step answer_segs_free [OF assms] by metis
  then show ?thesis using scan_tail [OF assms, of "[]"] by simp
qed

lemma contains_at [simp]: "contains_str (a @ pat @ b) pat"
proof (induction a)
  case Nil
  have "find_str pat (pat @ b) = Some 0" by (cases "pat @ b") (simp, metis append_eq_conv_conj find_str.simps(2))
  then show ?case by (simp add: contains_str_def)
qed (simp add: contains_str_def)

lemma not_whitespace_from: "\<not> all_whitespace (0x7B # bs)"
  by (simp split: list.split)

lemma not_whitespace_to: "\<not> all_whitespace (bs @ [0x7D])"
proof (induction bs rule: all_whitespace.induct)
  case (2 b0 bs)
  consider "bs = []" | b1 where "bs = [b1]" | b1 b2 bs2 where "bs = b1 # b2 # bs2" by (metis list.exhaust)
  then show ?case
  proof cases
    case 3
    show ?thesis
    proof (cases "(0x09 \<le> b0 \<and> b0 \<le> 0x0D) \<or> b0 = 0x20")
      case True
      with 2(1) show ?thesis by (simp only: append_Cons all_whitespace.simps if_True) simp
    next
      case False
      with 2(2) [OF False 3] 2(3) [OF False 3 _ refl] 3 show ?thesis
        by (cases "b0 = 0xC2") (simp_all only: append_Cons all_whitespace.simps if_False if_True list.case not_False_eq_True simp_thms)
    qed
  qed (use 2(1) in simp_all)
qed simp

lemma trim_braced: "trim (''{'' @ s @ ''}'') = ''{'' @ s @ ''}''"
proof -
  let ?bs = "as_bytes (''{'' @ s @ ''}'')"
  have bs: "?bs = 0x7B # as_bytes s @ [0x7D]" by (simp add: as_bytes_def)
  have start: "filter (\<lambda>n. all_whitespace (take n ?bs)) [0..<Suc (length ?bs)] = [0]"
  proof -
    have "\<not> all_whitespace (take n ?bs)" if "n \<noteq> 0" for n
      using that not_whitespace_from unfolding bs by (cases n) simp_all
    then have "filter (\<lambda>n. all_whitespace (take n ?bs)) [1..<Suc (length ?bs)] = []" by (simp add: filter_empty_conv del: upt_Suc)
    then show ?thesis by (simp add: upt_conv_Cons del: upt_Suc)
  qed
  have "filter (\<lambda>n. all_whitespace (drop n ?bs)) [0..<Suc (length ?bs)] = [length ?bs]"
  proof -
    have "\<not> all_whitespace (drop n ?bs)" if "n < length ?bs" for n
    proof -
      have "drop n ?bs = drop n (0x7B # as_bytes s) @ [0x7D]" using that unfolding bs by (cases n) simp_all
      then show ?thesis using not_whitespace_to by simp
    qed
    then have "filter (\<lambda>n. all_whitespace (drop n ?bs)) [0..<length ?bs] = []" by (auto simp: filter_empty_conv simp del: upt_Suc length_as_bytes)
    then show ?thesis by (simp only: upt_Suc le0 if_True filter_append) simp
  qed
  with start show ?thesis unfolding trim_def Let_def by simp
qed

lemma quoted_ends: "\<exists>s. quoted (answer_segs snaps) = ''{'' @ s @ ''\"type\":\"ProcessInstances\"'' @ ''}''"
proof -
  have tail: "\<exists>s. quoted (tail_segs ss) = s @ ''\"type\":\"ProcessInstances\"}''" for ss
  proof (induction ss)
    case (Cons a ss)
    then show ?case by (force simp: inst_segs_def quoted_Cons)
  qed (simp add: append_eq_Cons_conv)
  show ?thesis
  proof (cases snaps)
    case (Cons s ss)
    with tail [of ss] show ?thesis by (force simp: inst_segs_def quoted_Cons)
  qed simp
qed

lemma parse_answer:
  assumes "list_all snapshot_plain snaps"
  shows "parse_query_result_json (quoted (answer_segs snaps)) = Some (Some (QProcessInstances (misread snaps)))"
proof -
  let ?t = "quoted (answer_segs snaps)"
  obtain s where s: "?t = ''{'' @ s @ ''\"type\":\"ProcessInstances\"'' @ ''}''" using quoted_ends by blast
  have "trim ?t = ?t" using trim_braced [of "s @ ''\"type\":\"ProcessInstances\"''"] unfolding s by simp
  moreover have "contains_str ?t ''\"type\":\"ProcessInstances\"''"
    using contains_at [of "''{'' @ s" "''\"type\":\"ProcessInstances\"''" "''}''"] unfolding s by simp
  moreover have "\<not> (misread snaps = [] \<and> contains_str ?t ''\"error\"'')"
    by (cases snaps) (simp_all add: contains_str_def)
  ultimately show ?thesis using scan_answer [OF assms] by (auto simp: parse_query_result_json_def Let_def)
qed

subsection \<open>Compact JSON\<close>

fun json_text :: "json_value \<Rightarrow> string" where
  "json_text JNull = ''null''"
| "json_text (JBool b) = (if b then ''true'' else ''false'')"
| "json_text (JInt i) = (if i < 0 then ''-'' else []) @ decimal (nat (abs i))"
| "json_text (JFloat s) = s"
| "json_text (JString s) = ''\"'' @ s @ ''\"''"
| "json_text (JArray vs) = ''['' @ join '','' (map json_text vs) @ '']''"
| "json_text (JObject fs) = ''{'' @ join '','' (map (\<lambda>(k, v). ''\"'' @ k @ ''\":'' @ json_text v) fs) @ ''}''"

text \<open>A string that JSON writes without an escape sequence.\<close>

definition plain_string :: "string \<Rightarrow> bool" where
  "plain_string s \<longleftrightarrow> list_all (\<lambda>c. c \<noteq> CHR 0x22 \<and> c \<noteq> CHR 0x5C \<and> 0x20 \<le> (of_char c :: nat)) s"

fun json_plain :: "json_value \<Rightarrow> bool" where
  "json_plain (JString s) \<longleftrightarrow> plain_string s"
| "json_plain (JArray vs) \<longleftrightarrow> list_all json_plain vs"
| "json_plain (JObject fs) \<longleftrightarrow> list_all (\<lambda>(k, v). plain_string k \<and> json_plain v) fs"
| "json_plain _ \<longleftrightarrow> True"

text \<open>\<open>serde_json::Value::to_string\<close>: compact, and literal on strings that need no escapes.\<close>

definition compact_json :: "texts \<Rightarrow> bool" where
  "compact_json tx \<longleftrightarrow> (\<forall>v. json_plain v \<longrightarrow> tx_to_text tx v = json_text v)"

lemma plain_literals [simp]:
  "plain_string ''pipeline_id''" "plain_string ''process_instance_id''" "plain_string ''status''" "plain_string ''instance''"
  "plain_string ''type''" "plain_string ''ProcessInstances''" "plain_string (status_text st)"
  by (simp_all add: plain_string_def) (cases st; simp)

lemma plain_quote_free: "plain_string s \<Longrightarrow> quote_free s"
  by (auto simp: plain_string_def list_all_iff)

lemma instances_text:
  "join '','' (map (\<lambda>s. json_text (instance_json s)) (s # ss)) @ ''],\"type\":\"ProcessInstances\"}''
    = ''{\"'' @ quoted (inst_segs s @ tail_segs ss)"
proof (induction ss arbitrary: s)
  case Nil
  then show ?case by (simp add: inst_segs_def instance_json_def)
next
  case (Cons s' ss)
  have "join '','' (map (\<lambda>s. json_text (instance_json s)) (s # s' # ss)) @ ''],\"type\":\"ProcessInstances\"}''
    = json_text (instance_json s) @ '','' @ ''{\"'' @ quoted (inst_segs s' @ tail_segs ss)"
    using Cons.IH [of s'] by simp
  also have "\<dots> = ''{\"'' @ quoted (inst_segs s @ tail_segs (s' # ss))"
    by (simp add: inst_segs_def instance_json_def)
  finally show ?case .
qed

lemma answer_text: "json_text (query_result_json tx (QProcessInstances snaps)) = quoted (answer_segs snaps)"
proof (cases snaps)
  case (Cons s ss)
  have "json_text (query_result_json tx (QProcessInstances snaps))
    = ''{\"instance\":['' @ join '','' (map (\<lambda>s. json_text (instance_json s)) (s # ss)) @ ''],\"type\":\"ProcessInstances\"}''"
    by (simp add: Cons comp_def)
  also have "\<dots> = quoted (answer_segs snaps)"
    unfolding instances_text by (simp add: Cons quoted_Cons inst_segs_def)
  finally show ?thesis .
qed simp

subsection \<open>Reading the answer\<close>

lemma utf8_valid_append: "utf8_valid a \<Longrightarrow> utf8_valid b \<Longrightarrow> utf8_valid (a @ b)"
proof (induction a rule: utf8_valid.induct)
  case (2 b0 bs)
  from "2.prems"(1) [unfolded utf8_valid.simps(2) [of b0 bs]] "2.prems"(2) "2.IH" show ?case
    unfolding append_Cons utf8_valid.simps(2) [of b0 "bs @ b"]
    by (auto simp del: utf8_valid.simps split: list.splits if_splits)
qed simp

lemma rust_append: "rust_string a \<Longrightarrow> rust_string b \<Longrightarrow> rust_string (a @ b)"
  by (simp add: rust_string_def as_bytes_def utf8_valid_append)

lemma rust_ascii: "list_all (\<lambda>c. (of_char c :: u8) < 0x80) s \<Longrightarrow> rust_string s"
  by (simp add: rust_string_def utf8_valid_ascii as_bytes_def list_all_iff)

lemma rust_quoted: "list_all rust_string segs \<Longrightarrow> rust_string (quoted segs)"
proof (induction segs)
  case (Cons s segs)
  have "rust_string ''\"''" by (simp add: rust_ascii)
  with Cons rust_append [of s] rust_append [of "''\"''" "quoted segs"] show ?case by (simp add: quoted_Cons)
qed (simp add: rust_ascii)

abbreviation crlf :: string where
  "crlf \<equiv> [CHR 0x0D, CHR 0x0A]"

definition ascii_line :: "string \<Rightarrow> bool" where
  "ascii_line s \<longleftrightarrow> list_all (\<lambda>c. (of_char c :: u8) < 0x80 \<and> c \<noteq> CHR 0x0A) s"

lemma ascii_line_append [simp]: "ascii_line (a @ b) \<longleftrightarrow> ascii_line a \<and> ascii_line b"
  by (simp add: ascii_line_def)

lemma ascii_line_decimal: "ascii_line (decimal n)"
proof -
  have "(of_char c :: u8) < 0x80 \<and> c \<noteq> CHR 0x0A" if "c \<in> set (decimal n)" for c
  proof -
    have "unat (of_nat (of_char c) :: u8) < 128" using set_decimal [OF that] by (simp add: unat_of_nat del: of_nat_of_char)
    then have "unat (of_char c :: u8) < 128" by (simp only: of_nat_of_char)
    then show ?thesis using set_decimal [OF that] by (auto simp: word_less_nat_alt)
  qed
  then show ?thesis by (simp add: ascii_line_def list_all_iff)
qed

lemma read_response_head_lines:
  assumes "list_all (\<lambda>l. ascii_line l \<and> l \<noteq> []) ls"
  shows "read_response_head \<lparr>cn_bytes = as_bytes (concat (map (\<lambda>l. l @ crlf) ls) @ crlf @ body), cn_closes = b\<rparr> acc
    = Inr (\<lparr>cn_bytes = as_bytes body, cn_closes = b\<rparr>, acc @ concat (map (\<lambda>l. l @ crlf) ls))"
  using assms
proof (induction ls arbitrary: acc)
  case Nil
  then show ?case
    using read_line_text [of "[CHR 0x0D]" body b] by (subst read_response_head.simps) (simp add: rust_ascii)
next
  case (Cons l ls)
  let ?rest = "concat (map (\<lambda>l. l @ crlf) ls) @ crlf @ body"
  have "list_all (\<lambda>c. (of_char c :: u8) < 0x80) l" "CHR 0x0A \<notin> set l"
    using Cons.prems by (auto simp: ascii_line_def list_all_iff)
  then have "CHR 0x0A \<notin> set (l @ [CHR 0x0D])" "rust_string ((l @ [CHR 0x0D]) @ [CHR 0x0A])"
    by (simp_all add: rust_ascii)
  then have "read_line \<lparr>cn_bytes = as_bytes ((l @ [CHR 0x0D]) @ CHR 0x0A # ?rest), cn_closes = b\<rparr>
    = (\<lparr>cn_bytes = as_bytes ?rest, cn_closes = b\<rparr>, Inr ((l @ [CHR 0x0D]) @ [CHR 0x0A]))"
    by (rule read_line_text)
  then have "read_response_head \<lparr>cn_bytes = as_bytes (concat (map (\<lambda>l. l @ crlf) (l # ls)) @ crlf @ body), cn_closes = b\<rparr> acc
    = read_response_head \<lparr>cn_bytes = as_bytes ?rest, cn_closes = b\<rparr> (acc @ l @ crlf)"
    using Cons.prems by (subst read_response_head.simps) simp
  with Cons show ?case by simp
qed

text \<open>A client reads the body of every response that the endpoint writes.\<close>

lemma read_response:
  assumes "rust_string body" "ascii_line status"
    and "net peer (peer_request peer json_body) = Inr \<lparr>cn_bytes = as_bytes (write_json_response (status, body)), cn_closes = True\<rparr>"
  shows "send_query_to_peer net peer json_body = map_option Inr (parse_query_result_json body)"
proof -
  let ?ls = "[''HTTP/1.1 '' @ status, ''Content-Type: application/json'', ''Content-Length: '' @ decimal (length body), ''Connection: close'']"
  have "write_json_response (status, body) = concat (map (\<lambda>l. l @ crlf) ?ls) @ crlf @ body"
    by (simp add: write_json_response_def)
  moreover have "list_all (\<lambda>l. ascii_line l \<and> l \<noteq> []) ?ls"
    using assms(2) ascii_line_decimal by (simp add: ascii_line_def)
  ultimately have "read_response_head \<lparr>cn_bytes = as_bytes (write_json_response (status, body)), cn_closes = True\<rparr> []
    = Inr (\<lparr>cn_bytes = as_bytes body, cn_closes = True\<rparr>, [] @ concat (map (\<lambda>l. l @ crlf) ?ls))"
    using read_response_head_lines [of ?ls body True "[]"] by (simp only:)
  then show ?thesis
    using assms(3) from_utf8_as_bytes [OF assms(1)] by (simp add: send_query_to_peer_def read_to_string_def)
qed

definition snapshot_rust :: "ProcessInstanceSnapshot \<Rightarrow> bool" where
  "snapshot_rust s \<longleftrightarrow> plain_string (snap_pipeline_id s) \<and> plain_string (snap_process_instance_id s) \<and>
     rust_string (snap_pipeline_id s) \<and> rust_string (snap_process_instance_id s)"

lemma rust_status [simp]: "rust_string (status_text st)"
  by (rule rust_ascii) (cases st; simp)

lemma rust_tail: "list_all snapshot_rust ss \<Longrightarrow> list_all rust_string (tail_segs ss)"
  by (induction ss) (simp_all add: inst_segs_def snapshot_rust_def rust_ascii)

lemma rust_answer: "list_all snapshot_rust snaps \<Longrightarrow> rust_string (quoted (answer_segs snaps))"
  using rust_tail [of "tl snaps"]
  by (intro rust_quoted) (cases snaps; simp add: inst_segs_def snapshot_rust_def rust_ascii)

text \<open>
  (C32) What a node makes of the answer of a peer. The peer's endpoint writes each instance with its
  pipeline before its own identifier, and the scanner of a fan-out looks for the pipeline after the
  identifier. So from every answer with \<open>n\<close> instances the scanner returns \<open>n\<close> instances, in order and
  with their identifiers and states, but each with the pipeline of the instance that follows it and the
  last with none; an unknown state is read as active. It never fails on such an answer.
\<close>

theorem peer_instances_misread:
  assumes "compact_json tx" "list_all snapshot_rust snaps"
    and "net peer (peer_request peer json_body) =
      Inr \<lparr>cn_bytes = as_bytes (write_json_response (query_response tx (Inr (QProcessInstances snaps)))), cn_closes = True\<rparr>"
  shows "send_query_to_peer net peer json_body = Some (Inr (Some (QProcessInstances (misread snaps))))"
proof -
  have "json_plain (query_result_json tx (QProcessInstances snaps))"
    using assms(2) by (auto simp: list_all_iff snapshot_rust_def instance_json_def)
  then have "serialize_query_result tx (QProcessInstances snaps) = quoted (answer_segs snaps)"
    using assms(1) by (simp only: serialize_query_result_def compact_json_def answer_text)
  then have "query_response tx (Inr (QProcessInstances snaps)) = (''200 OK'', quoted (answer_segs snaps))"
    by (simp add: query_response_def)
  then have "send_query_to_peer net peer json_body = map_option Inr (parse_query_result_json (quoted (answer_segs snaps)))"
    using assms(3) by (intro read_response) (simp_all add: rust_answer assms(2) ascii_line_def)
  moreover have "list_all snapshot_plain snaps"
    using assms(2) by (auto simp: list_all_iff snapshot_rust_def snapshot_plain_def plain_quote_free)
  ultimately show ?thesis by (simp add: parse_answer)
qed

lemma peer_instances_misread_witness:
  "send_query_to_peer
     (\<lambda>_ _. Inr \<lparr>cn_bytes = as_bytes (write_json_response (query_response (sample_texts\<lparr>tx_to_text := json_text\<rparr>)
       (Inr (QProcessInstances [peer_snapshot ''i1'' ''p1'' PsActive, peer_snapshot ''i2'' ''p2'' PsFailed])))), cn_closes = True\<rparr>)
     ''192.168.1.2:9090'' ''{}''
   = Some (Inr (Some (QProcessInstances [peer_snapshot ''i1'' ''p2'' PsActive, peer_snapshot ''i2'' [] PsFailed])))"
proof -
  let ?tx = "sample_texts\<lparr>tx_to_text := json_text\<rparr>" and ?snaps = "[peer_snapshot ''i1'' ''p1'' PsActive, peer_snapshot ''i2'' ''p2'' PsFailed]"
  have "compact_json ?tx" by (simp add: compact_json_def)
  moreover have "list_all snapshot_rust ?snaps"
    by (simp add: snapshot_rust_def peer_snapshot_def plain_string_def rust_ascii)
  ultimately have "send_query_to_peer
      (\<lambda>_ _. Inr \<lparr>cn_bytes = as_bytes (write_json_response (query_response ?tx (Inr (QProcessInstances ?snaps)))), cn_closes = True\<rparr>)
      ''192.168.1.2:9090'' ''{}'' = Some (Inr (Some (QProcessInstances (misread ?snaps))))"
    by (rule peer_instances_misread) simp
  then show ?thesis by (simp add: peer_snapshot_def)
qed

subsection \<open>What a fan-out returns\<close>

text \<open>
  The instances a fan-out has from its peers, when no answer makes the scanner panic, and the peers that
  failed.
\<close>

fun peer_answers :: "network \<Rightarrow> string \<Rightarrow> nat \<Rightarrow> string list \<Rightarrow> ProcessInstanceSnapshot list" where
  "peer_answers net json_body i [] = []"
| "peer_answers net json_body i (peer # peers) =
     (case send_query_to_peer (net i) peer json_body of
        Some (Inr (Some (QProcessInstances more_instances))) \<Rightarrow> more_instances
      | _ \<Rightarrow> []) @ peer_answers net json_body (Suc i) peers"

lemma take_merge: "take limit (merge_limited limit a b @ c) = take limit (a @ b @ c)"
  by (cases "length b \<le> limit - length a") (simp_all add: merge_limited_def Let_def min_def)

lemma fanout_peers_take:
  "fanout_peers net json_body (merge_limited limit) i peers (instances, failed) = Some (instances', failed') \<Longrightarrow>
    take limit instances' = take limit (instances @ peer_answers net json_body i peers)"
proof (induction peers arbitrary: i instances failed)
  case (Cons peer peers)
  then show ?case
    by (auto simp del: take_append simp: take_merge split: option.splits sum.splits QueryResult.splits)
qed simp

lemma fanout_limited_merges:
  assumes "fanout_limited net json_body limit all_instances config = Some result"
  shows "cqr_merged result = QProcessInstances (take limit (all_instances @ peer_answers net json_body 0 (cqc_peers config)))"
  using assms fanout_peers_take [of net json_body limit 0 "cqc_peers config" all_instances "[]"]
  by (auto simp: fanout_limited_def simp del: take_append split: option.splits)

end
