(* ===== verification/Command_Line.thy ===== *)
theory Command_Line
  imports Kafka_Client Http_Server
begin

text \<open>
  The command lines of the programs: \<open>parse_args\<close> of \<open>src/bin/vannak.rs\<close>, \<open>CliConfig::parse\<close> of
  \<open>src/bin/vannak-kafka-ingest.rs\<close> and the arguments of \<open>src/bin/vannak-node.rs\<close>, with the discovery of
  peers by DNS. A parser is a loop that takes options from the front of the list of arguments. What
  \<open>dig\<close> prints and what a host name resolves to are parameters.

  The lemmas show that a configuration that is accepted satisfies what the rest of the program relies
  on, and that every such configuration has a command line that is read back as it.
\<close>

subsection \<open>Text\<close>

definition quoted_text :: "string \<Rightarrow> string" where
  "quoted_text s = [CHR 0x27] @ s @ [CHR 0x27]"

fun ClusterControlError_text :: "ClusterControlError \<Rightarrow> string" where
  "ClusterControlError_text NoPlacementSlots = ''Ipto placement map requires at least one slot''"
| "ClusterControlError_text (ZeroVnodes i) =
     ''Ipto placement slot for '' @ quoted_text i @ '' must have at least one virtual node''"
| "ClusterControlError_text (InvalidPlacementRange start end') =
     ''invalid Ipto placement range: start '' @ decimal (unat start) @ '' is greater than end '' @ decimal (unat end')"
| "ClusterControlError_text (OverlappingPlacementRanges left_start left_end right_start right_end) =
     ''overlapping Ipto placement ranges: '' @ decimal (unat left_start) @ ''..='' @ decimal (unat left_end) @
     '' overlaps '' @ decimal (unat right_start) @ ''..='' @ decimal (unat right_end)"
| "ClusterControlError_text (StalePlacementEpoch current proposed) =
     ''stale Ipto placement epoch: current '' @ decimal (unat current) @ '', proposed '' @ decimal (unat proposed)"
| "ClusterControlError_text (UnknownLeaseHolder holder) =
     ''writer lease holder '' @ quoted_text holder @ '' is not a cluster node''"
| "ClusterControlError_text (StaleLeaseEpoch target current proposed) =
     ''stale writer lease epoch for target '' @ quoted_text target @ '': current '' @ decimal (unat current) @
     '', proposed '' @ decimal (unat proposed)"
| "ClusterControlError_text (StaleCheckpointEpoch shard_id target current proposed) =
     ''stale outbox checkpoint epoch for shard '' @ decimal (unat shard_id) @ '' target '' @ quoted_text target @
     '': current '' @ decimal (unat current) @ '', proposed '' @ decimal (unat proposed)"
| "ClusterControlError_text (StaleCheckpointManifest checkpoint_id current proposed) =
     ''stale checkpoint manifest epoch for '' @ quoted_text checkpoint_id @ '': current '' @ decimal (unat current) @
     '', proposed '' @ decimal (unat proposed)"

definition is_flag :: "string \<Rightarrow> bool" where
  "is_flag s \<longleftrightarrow> take 2 s = ''--''"

text \<open>\<open>str::parse\<close> for \<open>i64\<close>.\<close>

definition parse_i64 :: "string \<Rightarrow> i64 option" where
  "parse_i64 s =
     (case (case s of
              [] \<Rightarrow> None
            | c # cs \<Rightarrow>
                if c = CHR ''-'' then map_option uminus (parse_digits cs)
                else if c = CHR ''+'' then parse_digits cs
                else parse_digits s) of
        None \<Rightarrow> None
      | Some n \<Rightarrow> if - (2 ^ 63) \<le> n \<and> n < 2 ^ 63 then Some (word_of_int n) else None)"

definition parse_word :: "nat \<Rightarrow> string \<Rightarrow> 'w::len word option" where
  "parse_word w s = map_option word_of_int (parse_unsigned w s)"

subsection \<open>The supervisor\<close>

record RaftArgs =
  ra_host :: string
  ra_port :: "16 word"
  ra_peer_id :: string
  ra_data_dir :: string
  ra_peers :: "string list"

record KafkaArgs =
  ka_brokers :: string
  ka_group_id :: string
  ka_shards :: nat
  ka_mailbox_capacity :: nat
  ka_topics :: "string list"

record SupervisorConfig =
  su_raft :: "RaftArgs option"
  su_kafka :: "KafkaArgs option"
  su_health_bind_address :: "string option"
  su_outbox_path :: "string option"
  su_outbox_segment_id :: "SegmentId option"
  su_outbox_node_id :: "NodeId option"
  su_process_journal_path :: "string option"
  su_writer_interval_secs :: u64
  su_placement :: "IptoPlacementMap option"
  su_with_ipto :: bool
  su_ipto_tenant_id :: i64
  su_require_ipto :: bool
  su_max_request_body_bytes :: nat

definition SupervisorConfig_default :: SupervisorConfig where
  "SupervisorConfig_default =
     \<lparr>su_raft = None, su_kafka = None, su_health_bind_address = None, su_outbox_path = None,
      su_outbox_segment_id = None, su_outbox_node_id = None, su_process_journal_path = None,
      su_writer_interval_secs = 5, su_placement = None, su_with_ipto = False, su_ipto_tenant_id = 1,
      su_require_ipto = False, su_max_request_body_bytes = 1024 * 1024\<rparr>"

definition usage :: string where
  "usage = concat (map (\<lambda>line. line @ [CHR 0x0A])
     [''usage: vannak [probe <host> <port>] [options]'',
      [],
      ''Commands:'',
      ''  probe <host> <port>         Probe a running Vannak node for cluster summary'',
      [],
      ''Options:'',
      ''  --raft <host> <port> <peer-id> <data-dir> [peers...]'',
      ''      Start Raft control-plane node'',
      ''  --srv <service> <host> <port> <peer-id> <data-dir>'',
      ''      Discover Raft peers via DNS SRV'',
      ''  --kafka <brokers> <group-id> <shards> <mailbox-capacity> <topic> [<topic>...]'',
      ''      Start Kafka process-event consumer (requires kafka-client feature)'',
      ''  --health <bind-addr>'',
      ''      Health/query HTTP server bind address (default: 127.0.0.1:9090)'',
      ''  --outbox <segment-path> <segment-id> <node-id>'',
      ''      Metadata outbox segment path and identity (default: data-dir/vannak or ~/.local/state/vannak)'',
      ''  --journal <path>'',
      ''      Process event journal segment path'',
      ''  --max-request-body-bytes <bytes>'',
      ''      Maximum accepted POST body size (default: 1048576)'',
      ''  --writer-interval <secs>'',
      ''      Background writer drain interval in seconds (default: 5)'',
      ''  --with-ipto'',
      ''      Try to start the PostgreSQL-backed Ipto writer (requires ipto-writer feature)'',
      ''  --require-ipto'',
      ''      Fail startup if --with-ipto cannot initialize the Ipto writer'',
      ''  --ipto-tenant <id>'',
      ''      Ipto tenant id for --with-ipto (default: 1)'',
      ''  --placement <epoch> <target> <vnodes> [<target> <vnodes> ...]'',
      ''      Ipto placement map (default: single ipto-default with 1 vnode)''])"

text \<open>The arguments up to the next option, and the rest.\<close>

abbreviation operands :: "string list \<Rightarrow> string list" where
  "operands args \<equiv> takeWhile (\<lambda>a. \<not> is_flag a) args"

abbreviation after_operands :: "string list \<Rightarrow> string list" where
  "after_operands args \<equiv> dropWhile (\<lambda>a. \<not> is_flag a) args"

text \<open>
  Each parser of an option gets the arguments behind it and returns the changed configuration with
  the arguments that are left.
\<close>

definition parse_raft :: "string list \<Rightarrow> SupervisorConfig \<Rightarrow> string + SupervisorConfig \<times> string list" where
  "parse_raft args config =
     (case args of
        host # port # peer_id # data_dir # rest \<Rightarrow>
          (case parse_word 16 port of
             None \<Rightarrow> Err ''invalid raft port''
           | Some port \<Rightarrow>
               Ok (config\<lparr>su_raft := Some \<lparr>ra_host = host, ra_port = port, ra_peer_id = peer_id, ra_data_dir = data_dir,
                                            ra_peers = operands rest\<rparr>\<rparr>, after_operands rest))
      | _ \<Rightarrow> Err usage)"

definition parse_srv ::
  "(string \<Rightarrow> string \<Rightarrow> string list) \<Rightarrow> string list \<Rightarrow> SupervisorConfig \<Rightarrow> string + SupervisorConfig \<times> string list" where
  "parse_srv resolve args config =
     (case args of
        service # host # port # peer_id # data_dir # rest \<Rightarrow>
          (case parse_word 16 port of
             None \<Rightarrow> Err ''invalid raft port''
           | Some port \<Rightarrow>
               Ok (config\<lparr>su_raft := Some \<lparr>ra_host = host, ra_port = port, ra_peer_id = peer_id, ra_data_dir = data_dir,
                                            ra_peers = resolve service peer_id\<rparr>\<rparr>, rest))
      | _ \<Rightarrow> Err usage)"

definition parse_kafka :: "string list \<Rightarrow> SupervisorConfig \<Rightarrow> string + SupervisorConfig \<times> string list" where
  "parse_kafka args config =
     (case args of
        brokers # group_id # shards # mailbox_capacity # rest \<Rightarrow>
          (case parse_usize shards of
             None \<Rightarrow> Err ''invalid shards''
           | Some shards \<Rightarrow>
               (case parse_usize mailbox_capacity of
                  None \<Rightarrow> Err ''invalid mailbox capacity''
                | Some mailbox_capacity \<Rightarrow>
                    if operands rest = [] then Err ''--kafka requires at least one topic''
                    else Ok (config\<lparr>su_kafka := Some \<lparr>ka_brokers = brokers, ka_group_id = group_id, ka_shards = shards,
                           ka_mailbox_capacity = mailbox_capacity, ka_topics = operands rest\<rparr>\<rparr>, after_operands rest)))
      | _ \<Rightarrow> Err usage)"

definition parse_outbox :: "string list \<Rightarrow> SupervisorConfig \<Rightarrow> string + SupervisorConfig \<times> string list" where
  "parse_outbox args config =
     (case args of
        path # segment_id # node_id # rest \<Rightarrow>
          Ok (config\<lparr>su_outbox_path := Some path, su_outbox_segment_id := Some segment_id,
                     su_outbox_node_id := Some node_id\<rparr>, rest)
      | _ \<Rightarrow> Err usage)"

definition parse_writer_interval :: "string list \<Rightarrow> SupervisorConfig \<Rightarrow> string + SupervisorConfig \<times> string list" where
  "parse_writer_interval args config =
     (case args of
        secs # rest \<Rightarrow>
          (case parse_word 64 secs of
             None \<Rightarrow> Err ''invalid interval''
           | Some secs \<Rightarrow>
               if secs = 0 then Err ''--writer-interval must be greater than zero''
               else Ok (config\<lparr>su_writer_interval_secs := secs\<rparr>, rest))
      | [] \<Rightarrow> Err usage)"

definition parse_ipto_tenant :: "string list \<Rightarrow> SupervisorConfig \<Rightarrow> string + SupervisorConfig \<times> string list" where
  "parse_ipto_tenant args config =
     (case args of
        tenant # rest \<Rightarrow>
          (case parse_i64 tenant of
             None \<Rightarrow> Err ''invalid Ipto tenant id''
           | Some tenant \<Rightarrow> Ok (config\<lparr>su_ipto_tenant_id := tenant\<rparr>, rest))
      | [] \<Rightarrow> Err usage)"

definition parse_max_body :: "string list \<Rightarrow> SupervisorConfig \<Rightarrow> string + SupervisorConfig \<times> string list" where
  "parse_max_body args config =
     (case args of
        bytes_arg # rest \<Rightarrow>
          (case parse_usize bytes_arg of
             None \<Rightarrow> Err ''invalid max request body size''
           | Some limit \<Rightarrow>
               if limit = 0 then Err ''--max-request-body-bytes must be greater than zero''
               else Ok (config\<lparr>su_max_request_body_bytes := limit\<rparr>, rest))
      | [] \<Rightarrow> Err usage)"

fun parse_slots :: "string list \<Rightarrow> IptoPlacementSlot list \<Rightarrow> string + IptoPlacementSlot list \<times> string list" where
  "parse_slots (target # vnodes # rest) slots =
     (if is_flag target then Ok (slots, target # vnodes # rest)
      else if is_flag vnodes then Err ''--placement target is missing a vnodes value''
      else case parse_word 32 vnodes of
        None \<Rightarrow> Err ''invalid vnodes''
      | Some vnodes \<Rightarrow>
          (case IptoPlacementSlot_new target vnodes of
             Inl e \<Rightarrow> Err (ClusterControlError_text e)
           | Inr slot \<Rightarrow> parse_slots rest (slots @ [slot])))"
| "parse_slots args slots = Ok (slots, args)"

definition parse_placement :: "string list \<Rightarrow> SupervisorConfig \<Rightarrow> string + SupervisorConfig \<times> string list" where
  "parse_placement args config =
     (case args of
        [] \<Rightarrow> Err ''--placement requires an epoch and at least one target/vnodes pair''
      | epoch # rest \<Rightarrow>
          if is_flag epoch then Err ''--placement requires an epoch and at least one target/vnodes pair''
          else case parse_word 64 epoch of
            None \<Rightarrow> Err ''invalid placement epoch''
          | Some epoch \<Rightarrow>
              (case parse_slots rest [] of
                 Inl e \<Rightarrow> Err e
               | Inr (slots, rest) \<Rightarrow>
                   if slots = [] then Err ''--placement requires at least one target/vnodes pair''
                   else if rest \<noteq> [] \<and> \<not> is_flag (hd rest) then Err ''--placement requires complete target/vnodes pairs''
                   else (case IptoPlacementMap_new epoch slots [] of
                           Inl e \<Rightarrow> Err (ClusterControlError_text e)
                         | Inr placement \<Rightarrow> Ok (config\<lparr>su_placement := Some placement\<rparr>, rest))))"

definition parse_option ::
  "(string \<Rightarrow> string \<Rightarrow> string list) \<Rightarrow> string \<Rightarrow> string list \<Rightarrow> SupervisorConfig \<Rightarrow> string + SupervisorConfig \<times> string list" where
  "parse_option resolve opt args config =
     (if opt = ''--raft'' then parse_raft args config
      else if opt = ''--srv'' then parse_srv resolve args config
      else if opt = ''--kafka'' then parse_kafka args config
      else if opt = ''--health'' then
        (case args of bind_addr # rest \<Rightarrow> Ok (config\<lparr>su_health_bind_address := Some bind_addr\<rparr>, rest) | [] \<Rightarrow> Err usage)
      else if opt = ''--outbox'' then parse_outbox args config
      else if opt = ''--journal'' then
        (case args of path # rest \<Rightarrow> Ok (config\<lparr>su_process_journal_path := Some path\<rparr>, rest) | [] \<Rightarrow> Err usage)
      else if opt = ''--writer-interval'' then parse_writer_interval args config
      else if opt = ''--with-ipto'' then Ok (config\<lparr>su_with_ipto := True\<rparr>, args)
      else if opt = ''--require-ipto'' then Ok (config\<lparr>su_require_ipto := True\<rparr>, args)
      else if opt = ''--ipto-tenant'' then parse_ipto_tenant args config
      else if opt = ''--max-request-body-bytes'' then parse_max_body args config
      else if opt = ''--placement'' then parse_placement args config
      else if is_flag opt then Err (''unknown option '' @ opt)
      else Ok (config, args))"

text \<open>What an option can do, whatever its name.\<close>

lemma if_mem: "x \<in> S \<Longrightarrow> y \<in> S \<Longrightarrow> (if b then x else y) \<in> S"
  by simp

definition option_results ::
  "(string \<Rightarrow> string \<Rightarrow> string list) \<Rightarrow> string \<Rightarrow> string list \<Rightarrow> SupervisorConfig \<Rightarrow> (string + SupervisorConfig \<times> string list) set" where
  "option_results resolve opt args c =
     {parse_raft args c, parse_srv resolve args c, parse_kafka args c, parse_outbox args c, parse_writer_interval args c,
      parse_ipto_tenant args c, parse_max_body args c, parse_placement args c,
      (case args of a # rest \<Rightarrow> Ok (c\<lparr>su_health_bind_address := Some a\<rparr>, rest) | [] \<Rightarrow> Err usage),
      (case args of a # rest \<Rightarrow> Ok (c\<lparr>su_process_journal_path := Some a\<rparr>, rest) | [] \<Rightarrow> Err usage),
      Ok (c\<lparr>su_with_ipto := True\<rparr>, args), Ok (c\<lparr>su_require_ipto := True\<rparr>, args),
      Err (''unknown option '' @ opt), Ok (c, args)}"

lemma parse_option_result: "parse_option resolve opt args c \<in> option_results resolve opt args c"
  unfolding parse_option_def option_results_def by (intro if_mem; simp only: insert_iff simp_thms)

lemma parse_slots_length: "parse_slots args slots = Inr (slots', rest) \<Longrightarrow> length rest \<le> length args"
  by (induction args slots rule: parse_slots.induct)
    (auto split: if_splits option.splits sum.splits simp: le_SucI)

lemma after_operands_length: "length (after_operands xs) \<le> Suc (Suc (Suc (Suc (length xs))))"
  using length_dropWhile_le [of "\<lambda>a. \<not> is_flag a" xs] by linarith

lemma parse_placement_length: "parse_placement args c = Inr (c', rest) \<Longrightarrow> length rest \<le> length args"
  by (auto simp: parse_placement_def dest!: parse_slots_length split: list.splits if_splits option.splits sum.splits)

lemma parse_option_length:
  assumes "parse_option resolve opt args config = Inr (config', rest)"
  shows "length rest \<le> length args"
proof -
  have "Inr (config', rest) \<in> option_results resolve opt args config"
    using parse_option_result [of resolve opt args config] assms by simp
  then show ?thesis unfolding option_results_def
    by (elim insertE) (auto simp: after_operands_length parse_raft_def parse_srv_def parse_kafka_def parse_outbox_def
        parse_writer_interval_def parse_ipto_tenant_def parse_max_body_def dest: parse_placement_length [OF sym]
        split: list.splits option.splits if_splits)
qed

function parse_loop ::
  "(string \<Rightarrow> string \<Rightarrow> string list) \<Rightarrow> string list \<Rightarrow> SupervisorConfig \<Rightarrow> string + SupervisorConfig" where
  "parse_loop resolve [] config = Ok config"
| "parse_loop resolve (opt # args) config =
     (case parse_option resolve opt args config of
        Inl e \<Rightarrow> Err e
      | Inr (config, rest) \<Rightarrow> parse_loop resolve rest config)"
  by pat_completeness auto
termination
  by (relation "measure (\<lambda>(_, args, _). length args)") (auto dest: parse_option_length)

definition parse_args :: "(string \<Rightarrow> string \<Rightarrow> string list) \<Rightarrow> string list \<Rightarrow> string + SupervisorConfig" where
  "parse_args resolve args =
     (case parse_loop resolve args SupervisorConfig_default of
        Inl e \<Rightarrow> Err e
      | Inr config \<Rightarrow>
          if su_require_ipto config \<and> \<not> su_with_ipto config then Err ''--require-ipto requires --with-ipto''
          else Ok config)"

subsection \<open>Accepted configurations\<close>

definition placement_ok :: "IptoPlacementMap \<Rightarrow> bool" where
  "placement_ok m \<longleftrightarrow>
     IptoPlacementMap_new (pm_epoch m) (pm_slots m) [] = Ok m \<and> (\<forall>sl \<in> set (pm_slots m). sl_vnodes sl \<noteq> 0 \<and> \<not> is_flag (sl_instance sl))"

definition kafka_ok :: "KafkaArgs \<Rightarrow> bool" where
  "kafka_ok k \<longleftrightarrow>
     ka_topics k \<noteq> [] \<and> (\<forall>t \<in> set (ka_topics k). \<not> is_flag t) \<and> ka_shards k < 2 ^ 64 \<and> ka_mailbox_capacity k < 2 ^ 64"

definition given_together :: "'a option \<Rightarrow> 'b option \<Rightarrow> 'c option \<Rightarrow> bool" where
  "given_together a b c \<longleftrightarrow> (a = None \<longleftrightarrow> b = None) \<and> (a = None \<longleftrightarrow> c = None)"

definition options_ok :: "SupervisorConfig \<Rightarrow> bool" where
  "options_ok c \<longleftrightarrow>
     pred_option kafka_ok (su_kafka c) \<and> pred_option placement_ok (su_placement c) \<and>
     su_writer_interval_secs c \<noteq> 0 \<and> 0 < su_max_request_body_bytes c \<and> su_max_request_body_bytes c < 2 ^ 64 \<and>
     given_together (su_outbox_path c) (su_outbox_segment_id c) (su_outbox_node_id c)"

lemma parse_usize_bound: "parse_usize s = Some n \<Longrightarrow> n < 2 ^ 64"
  by (auto simp: parse_usize_def parse_unsigned_def nat_less_iff split: option.splits if_splits list.splits)

lemma parse_slots_ok:
  "parse_slots args slots = Inr (slots', rest) \<Longrightarrow> \<forall>sl \<in> set slots. sl_vnodes sl \<noteq> 0 \<and> \<not> is_flag (sl_instance sl) \<Longrightarrow>
    \<forall>sl \<in> set slots'. sl_vnodes sl \<noteq> 0 \<and> \<not> is_flag (sl_instance sl)"
  by (induction args slots rule: parse_slots.induct)
    (auto simp: IptoPlacementSlot_new_def split: if_splits option.splits)

lemma placement_new_ok:
  assumes "IptoPlacementMap_new epoch slots [] = Inr m" "\<forall>sl \<in> set slots. sl_vnodes sl \<noteq> 0 \<and> \<not> is_flag (sl_instance sl)"
  shows "placement_ok m"
  using assms by (auto simp: placement_ok_def IptoPlacementMap_new_def split: if_splits)

lemma options_ok_update:
  "options_ok c \<Longrightarrow> placement_ok m \<Longrightarrow> options_ok (c\<lparr>su_placement := Some m\<rparr>)"
  "options_ok c \<Longrightarrow> kafka_ok k \<Longrightarrow> options_ok (c\<lparr>su_kafka := Some k\<rparr>)"
  "options_ok c \<Longrightarrow> options_ok (c\<lparr>su_raft := r\<rparr>)"
  "options_ok c \<Longrightarrow> options_ok (c\<lparr>su_health_bind_address := a\<rparr>)"
  "options_ok c \<Longrightarrow> options_ok (c\<lparr>su_process_journal_path := p\<rparr>)"
  "options_ok c \<Longrightarrow> options_ok (c\<lparr>su_ipto_tenant_id := t\<rparr>)"
  "options_ok c \<Longrightarrow> options_ok (c\<lparr>su_with_ipto := b\<rparr>)"
  "options_ok c \<Longrightarrow> options_ok (c\<lparr>su_require_ipto := b\<rparr>)"
  "options_ok c \<Longrightarrow> w \<noteq> 0 \<Longrightarrow> options_ok (c\<lparr>su_writer_interval_secs := w\<rparr>)"
  "options_ok c \<Longrightarrow> 0 < n \<Longrightarrow> n < 2 ^ 64 \<Longrightarrow> options_ok (c\<lparr>su_max_request_body_bytes := n\<rparr>)"
  "options_ok c \<Longrightarrow> options_ok (c\<lparr>su_outbox_path := Some path, su_outbox_segment_id := Some s, su_outbox_node_id := Some nid\<rparr>)"
  by (simp_all add: options_ok_def) (simp add: given_together_def)

lemma parse_placement_ok:
  assumes "parse_placement args config = Inr (config', rest)" "options_ok config"
  shows "options_ok config'"
  using assms(1)
  by (auto simp: parse_placement_def intro!: options_ok_update(1) [OF assms(2)] elim!: placement_new_ok dest!: parse_slots_ok
      split: list.splits if_splits option.splits sum.splits)

lemma parse_kafka_ok:
  assumes "parse_kafka args config = Inr (config', rest)" "options_ok config"
  shows "options_ok config'"
  using assms(1)
  by (auto simp: parse_kafka_def kafka_ok_def intro!: options_ok_update(2) [OF assms(2)] dest!: parse_usize_bound
      dest: set_takeWhileD split: list.splits if_splits option.splits)

lemma parse_option_ok:
  assumes "parse_option resolve opt args config = Inr (config', rest)" "options_ok config"
  shows "options_ok config'"
proof -
  have "Inr (config', rest) \<in> option_results resolve opt args config"
    using parse_option_result [of resolve opt args config] assms by simp
  then show ?thesis
    using assms(2) parse_placement_ok [of args config config' rest] parse_kafka_ok [of args config config' rest]
    unfolding option_results_def
    by (elim insertE) (auto simp: parse_raft_def parse_srv_def parse_outbox_def parse_writer_interval_def
        parse_ipto_tenant_def parse_max_body_def dest: parse_usize_bound intro!: options_ok_update
        split: list.splits option.splits if_splits)
qed

lemma parse_loop_ok: "parse_loop resolve args config = Inr config' \<Longrightarrow> options_ok config \<Longrightarrow> options_ok config'"
  by (induction resolve args config rule: parse_loop.induct) (auto dest: parse_option_ok split: sum.splits)

lemma default_ok: "options_ok SupervisorConfig_default"
  by (simp add: options_ok_def SupervisorConfig_default_def given_together_def)

text \<open>
  (C37) A command line that the supervisor accepts gives a configuration the rest of the program can use:
  the writer interval and the limit of request bodies are positive, a Kafka consumer has a topic, a
  placement map is the one that its slots build, each with a virtual node, the three values of
  the outbox are given together, and an Ipto writer is required only where it is enabled. The number of
  shards and the mailbox capacity are not checked here; the runtime refuses zero when it starts.
\<close>

theorem parse_args_accepts_valid:
  assumes "parse_args resolve args = Ok config"
  shows "su_writer_interval_secs config \<noteq> 0 \<and> 0 < su_max_request_body_bytes config \<and>
    (\<forall>k. su_kafka config = Some k \<longrightarrow> ka_topics k \<noteq> [] \<and> (\<forall>t \<in> set (ka_topics k). \<not> is_flag t)) \<and>
    (\<forall>m. su_placement config = Some m \<longrightarrow>
      IptoPlacementMap_new (pm_epoch m) (pm_slots m) [] = Ok m \<and> (\<forall>sl \<in> set (pm_slots m). sl_vnodes sl \<noteq> 0)) \<and>
    (su_outbox_path config = None \<longleftrightarrow> su_outbox_segment_id config = None) \<and>
    (su_outbox_path config = None \<longleftrightarrow> su_outbox_node_id config = None) \<and>
    (su_require_ipto config \<longrightarrow> su_with_ipto config)"
proof -
  have "options_ok config" "su_require_ipto config \<longrightarrow> su_with_ipto config"
    using assms parse_loop_ok [OF _ default_ok] by (auto simp: parse_args_def split: sum.splits if_splits)
  then show ?thesis
    unfolding options_ok_def kafka_ok_def placement_ok_def given_together_def
    by (elim conjE, intro conjI) (assumption | auto)+
qed

subsection \<open>Printing a configuration\<close>

text \<open>\<open>print_args\<close> writes a configuration in the syntax of the usage text.\<close>

definition signed_decimal :: "i64 \<Rightarrow> string" where
  "signed_decimal w = (if sint w < 0 then CHR ''-'' # decimal (nat (- sint w)) else decimal (nat (sint w)))"

definition print_raft :: "RaftArgs \<Rightarrow> string list" where
  "print_raft r = [''--raft'', ra_host r, decimal (unat (ra_port r)), ra_peer_id r, ra_data_dir r] @ ra_peers r"

definition print_kafka :: "KafkaArgs \<Rightarrow> string list" where
  "print_kafka k = [''--kafka'', ka_brokers k, ka_group_id k, decimal (ka_shards k), decimal (ka_mailbox_capacity k)] @ ka_topics k"

definition print_slots :: "IptoPlacementSlot list \<Rightarrow> string list" where
  "print_slots slots = concat (map (\<lambda>sl. [sl_instance sl, decimal (unat (sl_vnodes sl))]) slots)"

definition print_option :: "('a \<Rightarrow> string list) \<Rightarrow> 'a option \<Rightarrow> string list" where
  "print_option p x = (case x of None \<Rightarrow> [] | Some y \<Rightarrow> p y)"

definition print_args :: "SupervisorConfig \<Rightarrow> string list" where
  "print_args c =
     print_option print_raft (su_raft c) @
     print_option print_kafka (su_kafka c) @
     print_option (\<lambda>a. [''--health'', a]) (su_health_bind_address c) @
     print_option (\<lambda>p. [''--outbox'', p, the (su_outbox_segment_id c), the (su_outbox_node_id c)]) (su_outbox_path c) @
     print_option (\<lambda>p. [''--journal'', p]) (su_process_journal_path c) @
     print_option (\<lambda>m. [''--placement'', decimal (unat (pm_epoch m))] @ print_slots (pm_slots m)) (su_placement c) @
     [''--writer-interval'', decimal (unat (su_writer_interval_secs c)),
      ''--ipto-tenant'', signed_decimal (su_ipto_tenant_id c),
      ''--max-request-body-bytes'', decimal (su_max_request_body_bytes c)] @
     (if su_with_ipto c then [''--with-ipto''] else []) @ (if su_require_ipto c then [''--require-ipto''] else [])"

lemma digit_char:
  assumes "n < 10"
  shows "digit_value (char_of (48 + n)) = Some (int n)"
proof -
  have code: "(of_char (char_of (48 + n)) :: nat) = 48 + n" using assms by simp
  then have "(of_char (char_of (48 + n)) :: int) = 48 + int n" by (metis of_nat_add of_nat_numeral of_nat_of_char)
  then show ?thesis using assms code unfolding digit_value_def less_eq_char_def by simp
qed

lemma digits_value_append:
  "digits_value acc (xs @ ys) = (case digits_value acc xs of None \<Rightarrow> None | Some a \<Rightarrow> digits_value a ys)"
  by (induction xs arbitrary: acc) (auto split: option.split)

lemma digits_value_decimal: "digits_value 0 (decimal n) = Some (int n)"
proof (induction n rule: decimal.induct)
  case (1 n)
  show ?case
  proof (cases "n < 10")
    case True
    then show ?thesis by (simp add: decimal.simps [of n] digit_char)
  next
    case False
    have "10 * int (n div 10) + int (n mod 10) = int n"
      by (metis mult_div_mod_eq of_nat_add of_nat_mult of_nat_numeral)
    with False 1 show ?thesis by (simp add: decimal.simps [of n] digits_value_append digit_char)
  qed
qed

lemma decimal_nonempty [simp]: "decimal n \<noteq> []"
  by (subst decimal.simps) simp

lemma decimal_no_sign: "decimal n = c # cs \<Longrightarrow> c \<noteq> CHR ''-'' \<and> c \<noteq> CHR ''+''"
  using set_decimal [of c n] by auto

lemma parse_decimal: "parse_unsigned w (decimal n) = (if n < 2 ^ w then Some (int n) else None)"
proof -
  have sign: "(case decimal n of [] \<Rightarrow> [] | c # cs \<Rightarrow> if c = CHR ''+'' then cs else decimal n) = decimal n"
    by (cases "decimal n") (auto dest: decimal_no_sign)
  have "int n < 2 ^ w \<longleftrightarrow> n < 2 ^ w" by (metis of_nat_less_iff of_nat_numeral of_nat_power)
  with sign show ?thesis by (simp add: parse_unsigned_def parse_digits_def digits_value_decimal)
qed

lemma parse_word_decimal: "LENGTH('w) = w \<Longrightarrow> parse_word w (decimal (unat x)) = Some x" for x :: "'w::len word"
  by (auto simp: parse_word_def parse_decimal)

lemma parse_usize_decimal: "n < 2 ^ 64 \<Longrightarrow> parse_usize (decimal n) = Some n"
  by (simp add: parse_usize_def parse_decimal)

lemma parse_i64_decimal: "parse_i64 (signed_decimal x) = Some x"
proof -
  have bounds: "- (2 ^ 63) \<le> sint x" "sint x < 2 ^ 63" using sint_range_size [of x] by (simp_all add: word_size)
  show ?thesis
  proof (cases "sint x < 0")
    case True
    then have "parse_digits (decimal (nat (- sint x))) = Some (- sint x)"
      by (simp add: parse_digits_def digits_value_decimal)
    with True bounds show ?thesis by (simp add: parse_i64_def signed_decimal_def)
  next
    case False
    then have "parse_digits (decimal (nat (sint x))) = Some (sint x)"
      by (simp add: parse_digits_def digits_value_decimal)
    with False bounds show ?thesis
      by (cases "decimal (nat (sint x))") (auto simp: parse_i64_def signed_decimal_def dest: decimal_no_sign)
  qed
qed

lemma decimal_no_flag: "\<not> is_flag (decimal n)"
  by (cases "decimal n") (auto simp: is_flag_def dest: decimal_no_sign)

text \<open>What follows an option is empty or starts with the next one.\<close>

definition at_option :: "string list \<Rightarrow> bool" where
  "at_option args \<longleftrightarrow> args = [] \<or> is_flag (hd args)"

lemma operands_append:
  assumes "\<forall>x \<in> set xs. \<not> is_flag x" "at_option rest"
  shows "operands (xs @ rest) = xs" "after_operands (xs @ rest) = rest"
proof -
  have "operands rest = []" "after_operands rest = rest" using assms(2) by (cases rest; simp add: at_option_def)+
  with assms(1) show "operands (xs @ rest) = xs" "after_operands (xs @ rest) = rest"
    by (simp_all add: takeWhile_append2 dropWhile_append2)
qed

lemma parse_slots_stop: "at_option rest \<Longrightarrow> parse_slots rest slots = Inr (slots, rest)"
  by (cases "(rest, slots)" rule: parse_slots.cases) (auto simp: at_option_def)

lemma parse_slots_print:
  assumes "\<forall>sl \<in> set slots. sl_vnodes sl \<noteq> 0 \<and> \<not> is_flag (sl_instance sl)" "at_option rest"
  shows "parse_slots (print_slots slots @ rest) acc = Inr (acc @ slots, rest)"
  using assms(1)
proof (induction slots arbitrary: acc)
  case (Cons sl slots)
  have "parse_word 32 (decimal (unat (sl_vnodes sl))) = Some (sl_vnodes sl)" by (simp add: parse_word_decimal)
  with Cons show ?case by (simp add: print_slots_def decimal_no_flag IptoPlacementSlot_new_def)
qed (simp add: print_slots_def parse_slots_stop assms(2))

definition printable :: "SupervisorConfig \<Rightarrow> bool" where
  "printable c \<longleftrightarrow> (\<forall>r. su_raft c = Some r \<longrightarrow> (\<forall>p \<in> set (ra_peers r). \<not> is_flag p))"

lemma update_None [simp]:
  "su_raft c = None \<Longrightarrow> c\<lparr>su_raft := None\<rparr> = c" "su_kafka c = None \<Longrightarrow> c\<lparr>su_kafka := None\<rparr> = c"
  "su_health_bind_address c = None \<Longrightarrow> c\<lparr>su_health_bind_address := None\<rparr> = c"
  "su_process_journal_path c = None \<Longrightarrow> c\<lparr>su_process_journal_path := None\<rparr> = c"
  "su_placement c = None \<Longrightarrow> c\<lparr>su_placement := None\<rparr> = c"
  by (cases c; simp)+

lemma loop_step: "parse_option resolve opt (args @ rest) c = Inr (c', rest) \<Longrightarrow> parse_loop resolve (opt # args @ rest) c = parse_loop resolve rest c'"
  by simp

lemma loop_raft:
  assumes "at_option rest" "\<forall>r. x = Some r \<longrightarrow> (\<forall>p \<in> set (ra_peers r). \<not> is_flag p)" "su_raft c = None"
  shows "parse_loop resolve (print_option print_raft x @ rest) c = parse_loop resolve rest (c\<lparr>su_raft := x\<rparr>)"
proof (cases x)
  case (Some r)
  have "parse_option resolve ''--raft'' (tl (print_raft r) @ rest) c = Inr (c\<lparr>su_raft := Some r\<rparr>, rest)"
    using operands_append [of "ra_peers r", OF _ assms(1)] assms(2) Some
    by (simp add: parse_option_def parse_raft_def print_raft_def parse_word_decimal)
  from loop_step [OF this] Some show ?thesis by (simp add: print_option_def print_raft_def)
qed (use assms(3) in \<open>simp add: print_option_def\<close>)

lemma loop_kafka:
  assumes "at_option rest" "pred_option kafka_ok x" "su_kafka c = None"
  shows "parse_loop resolve (print_option print_kafka x @ rest) c = parse_loop resolve rest (c\<lparr>su_kafka := x\<rparr>)"
proof (cases x)
  case (Some k)
  with assms(2) have k: "ka_topics k \<noteq> []" "ka_shards k < 2 ^ 64" "ka_mailbox_capacity k < 2 ^ 64"
    "operands (ka_topics k @ rest) = ka_topics k" "after_operands (ka_topics k @ rest) = rest"
    using operands_append [of "ka_topics k", OF _ assms(1)] by (simp_all add: kafka_ok_def)
  have "parse_option resolve ''--kafka'' (tl (print_kafka k) @ rest) c = Inr (c\<lparr>su_kafka := Some k\<rparr>, rest)"
    using k by (simp add: parse_option_def parse_kafka_def print_kafka_def parse_usize_decimal)
  from loop_step [OF this] Some show ?thesis by (simp add: print_option_def print_kafka_def)
qed (use assms(3) in \<open>simp add: print_option_def\<close>)

lemma loop_placement:
  assumes "at_option rest" "pred_option placement_ok x" "su_placement c = None"
  shows "parse_loop resolve (print_option (\<lambda>m. [''--placement'', decimal (unat (pm_epoch m))] @ print_slots (pm_slots m)) x @ rest) c
    = parse_loop resolve rest (c\<lparr>su_placement := x\<rparr>)"
proof (cases x)
  case (Some m)
  with assms(2) have m: "IptoPlacementMap_new (pm_epoch m) (pm_slots m) [] = Inr m" "pm_slots m \<noteq> []"
    "parse_slots (print_slots (pm_slots m) @ rest) [] = Inr (pm_slots m, rest)"
    using parse_slots_print [OF _ assms(1)] by (auto simp: placement_ok_def IptoPlacementMap_new_def split: if_splits)
  have "parse_placement (decimal (unat (pm_epoch m)) # print_slots (pm_slots m) @ rest) c = Inr (c\<lparr>su_placement := Some m\<rparr>, rest)"
    using m assms(1) by (auto simp: parse_placement_def decimal_no_flag parse_word_decimal at_option_def)
  then have "parse_option resolve ''--placement'' ((decimal (unat (pm_epoch m)) # print_slots (pm_slots m)) @ rest) c
      = Inr (c\<lparr>su_placement := Some m\<rparr>, rest)"
    by (simp add: parse_option_def)
  from loop_step [OF this] Some show ?thesis by (simp add: print_option_def)
qed (use assms(3) in \<open>simp add: print_option_def\<close>)

lemma loop_health:
  "su_health_bind_address c = None \<Longrightarrow> parse_loop resolve (print_option (\<lambda>a. [''--health'', a]) x @ rest) c
    = parse_loop resolve rest (c\<lparr>su_health_bind_address := x\<rparr>)"
  by (cases x) (simp_all add: print_option_def parse_option_def)

lemma loop_journal:
  "su_process_journal_path c = None \<Longrightarrow> parse_loop resolve (print_option (\<lambda>p. [''--journal'', p]) x @ rest) c
    = parse_loop resolve rest (c\<lparr>su_process_journal_path := x\<rparr>)"
  by (cases x) (simp_all add: print_option_def parse_option_def)

lemma loop_outbox:
  assumes "given_together x s n" "su_outbox_path c = None" "su_outbox_segment_id c = None" "su_outbox_node_id c = None"
  shows "parse_loop resolve (print_option (\<lambda>p. [''--outbox'', p, the s, the n]) x @ rest) c
    = parse_loop resolve rest (c\<lparr>su_outbox_path := x, su_outbox_segment_id := s, su_outbox_node_id := n\<rparr>)"
proof (cases x)
  case None
  with assms have "c\<lparr>su_outbox_path := x, su_outbox_segment_id := s, su_outbox_node_id := n\<rparr> = c"
    by (cases c) (simp add: given_together_def)
  with None show ?thesis by (simp add: print_option_def)
next
  case (Some p)
  with assms(1) show ?thesis by (auto simp: print_option_def parse_option_def parse_outbox_def given_together_def)
qed

lemma loop_numbers:
  assumes "w \<noteq> 0" "0 < n" "n < 2 ^ 64"
  shows "parse_loop resolve ([''--writer-interval'', decimal (unat w), ''--ipto-tenant'', signed_decimal t,
      ''--max-request-body-bytes'', decimal n] @ rest) c
    = parse_loop resolve rest (c\<lparr>su_writer_interval_secs := w, su_ipto_tenant_id := t, su_max_request_body_bytes := n\<rparr>)"
  using assms by (simp add: parse_option_def parse_writer_interval_def parse_ipto_tenant_def parse_max_body_def
      parse_word_decimal parse_i64_decimal parse_usize_decimal)

lemma loop_flags:
  "parse_loop resolve ((if a then [''--with-ipto''] else []) @ (if b then [''--require-ipto''] else [])) c
    = Inr (if a then if b then c\<lparr>su_with_ipto := True, su_require_ipto := True\<rparr> else c\<lparr>su_with_ipto := True\<rparr>
           else if b then c\<lparr>su_require_ipto := True\<rparr> else c)"
  by (simp add: parse_option_def)

lemma at_option_print:
  assumes "at_option rest" "\<And>y. at_option (p y)" "\<And>y. p y \<noteq> []"
  shows "at_option (print_option p x @ rest)"
  using assms by (auto simp: print_option_def at_option_def split: option.split)

text \<open>
  (C38) Every configuration that satisfies what the parser guarantees, and whose peers do not look like
  options, has a command line: the one that \<open>print_args\<close> writes is read back as exactly that
  configuration.
\<close>

theorem parse_print_args:
  assumes "options_ok config" "printable config" "su_require_ipto config \<longrightarrow> su_with_ipto config"
  shows "parse_args resolve (print_args config) = Ok config"
proof -
  define numbers where "numbers = [''--writer-interval'', decimal (unat (su_writer_interval_secs config)),
      ''--ipto-tenant'', signed_decimal (su_ipto_tenant_id config),
      ''--max-request-body-bytes'', decimal (su_max_request_body_bytes config)] @
     (if su_with_ipto config then [''--with-ipto''] else []) @ (if su_require_ipto config then [''--require-ipto''] else [])"
  have n: "at_option numbers" by (simp add: numbers_def at_option_def is_flag_def)
  have ok: "pred_option kafka_ok (su_kafka config)" "pred_option placement_ok (su_placement config)"
    "su_writer_interval_secs config \<noteq> 0" "0 < su_max_request_body_bytes config" "su_max_request_body_bytes config < 2 ^ 64"
    "given_together (su_outbox_path config) (su_outbox_segment_id config) (su_outbox_node_id config)"
    using assms(1) by (simp_all add: options_ok_def)
  have start: "at_option (print_kafka k)" "print_kafka k \<noteq> []" "at_option [''--health'', a]" "at_option [''--journal'', a]"
    "at_option [''--outbox'', a, s, d]" "at_option ([''--placement'', a] @ xs)" for k a s d xs
    by (simp_all add: at_option_def is_flag_def print_kafka_def)
  let ?p = "print_option (\<lambda>m. [''--placement'', decimal (unat (pm_epoch m))] @ print_slots (pm_slots m)) (su_placement config)"
  let ?j = "print_option (\<lambda>p. [''--journal'', p]) (su_process_journal_path config)"
  let ?o = "print_option (\<lambda>p. [''--outbox'', p, the (su_outbox_segment_id config), the (su_outbox_node_id config)]) (su_outbox_path config)"
  let ?h = "print_option (\<lambda>a. [''--health'', a]) (su_health_bind_address config)"
  have "at_option (?p @ numbers)" by (rule at_option_print [OF n start(6)]) simp
  then have "at_option (?j @ ?p @ numbers)" by (rule at_option_print [OF _ start(4)]) simp
  then have "at_option (?o @ ?j @ ?p @ numbers)" by (rule at_option_print [OF _ start(5)]) simp
  then have h: "at_option (?h @ ?o @ ?j @ ?p @ numbers)" by (rule at_option_print [OF _ start(3)]) simp
  then have k: "at_option (print_option print_kafka (su_kafka config) @ ?h @ ?o @ ?j @ ?p @ numbers)"
    by (rule at_option_print [OF _ start(1,2)])
  have "parse_loop resolve (print_args config) SupervisorConfig_default = parse_loop resolve numbers
     (SupervisorConfig_default\<lparr>su_raft := su_raft config, su_kafka := su_kafka config,
        su_health_bind_address := su_health_bind_address config, su_outbox_path := su_outbox_path config,
        su_outbox_segment_id := su_outbox_segment_id config, su_outbox_node_id := su_outbox_node_id config,
        su_process_journal_path := su_process_journal_path config, su_placement := su_placement config\<rparr>)"
    using loop_raft [OF k, of "su_raft config"] loop_kafka [OF h ok(1)] loop_outbox [OF ok(6)] loop_placement [OF n ok(2)] assms(2)
    by (simp only: print_args_def numbers_def [symmetric] printable_def)
      (simp add: loop_health loop_journal SupervisorConfig_default_def)
  also have "\<dots> = Inr config"
    unfolding numbers_def append_assoc loop_numbers [OF ok(3,4,5)] loop_flags
    by (cases config) (auto simp: SupervisorConfig_default_def)
  finally show ?thesis using assms(3) by (simp add: parse_args_def)
qed

lemma parse_args_accepts_valid_witness:
  "\<exists>config. parse_args (\<lambda>_ _. []) [''--kafka'', ''b:9092'', ''g'', ''2'', ''16'', ''t''] = Ok config \<and>
     (\<exists>k. su_kafka config = Some k \<and> ka_shards k = 2 \<and> ka_topics k = [''t'']) \<and> su_writer_interval_secs config \<noteq> 0"
proof -
  let ?k = "\<lparr>ka_brokers = ''b:9092'', ka_group_id = ''g'', ka_shards = 2, ka_mailbox_capacity = 16, ka_topics = [''t'']\<rparr>"
  have digits: "parse_usize ''2'' = Some 2" "parse_usize ''16'' = Some 16"
    by (simp_all add: parse_usize_def parse_unsigned_def parse_digits_def digit_value_def)
  have run: "parse_args (\<lambda>_ _. []) [''--kafka'', ''b:9092'', ''g'', ''2'', ''16'', ''t''] = Ok (SupervisorConfig_default\<lparr>su_kafka := Some ?k\<rparr>)"
    by (simp add: parse_args_def parse_option_def parse_kafka_def digits is_flag_def) (simp add: SupervisorConfig_default_def)
  from parse_args_accepts_valid [OF run] run show ?thesis by auto
qed

lemma parse_print_args_witness:
  "\<exists>c. options_ok c \<and> printable c \<and> su_raft c \<noteq> None \<and> parse_args (\<lambda>_ _. []) (print_args c) = Ok c"
proof -
  let ?c = "SupervisorConfig_default\<lparr>su_raft := Some \<lparr>ra_host = ''h'', ra_port = 10081, ra_peer_id = ''n'', ra_data_dir = ''d'',
    ra_peers = [''m@h:1'']\<rparr>, su_with_ipto := True, su_require_ipto := True\<rparr>"
  have ok: "options_ok ?c" "printable ?c" "su_require_ipto ?c \<longrightarrow> su_with_ipto ?c"
    by (intro options_ok_update default_ok) (simp_all add: printable_def is_flag_def)
  from parse_print_args [OF ok] ok show ?thesis by (intro exI [of _ ?c]) simp
qed

subsection \<open>The Kafka ingest runner\<close>

record JournalConfig =
  jc_path :: path
  jc_segment_id :: SegmentId
  jc_node_id :: NodeId

record CliConfig =
  cl_brokers :: string
  cl_group_id :: string
  cl_shards :: nat
  cl_mailbox_capacity :: nat
  cl_poll_timeout_ms :: u64
  cl_report_interval :: u64
  cl_payload_format :: KafkaPayloadFormat
  cl_source_id :: SourceId
  cl_tenant_id :: TenantId
  cl_environment_id :: EnvironmentId
  cl_journal :: "JournalConfig option"
  cl_topics :: "string list"

definition ingest_usage :: string where
  "ingest_usage = ''usage: vannak-kafka-ingest <brokers> <group-id> <shards> <mailbox-capacity> [--payload-format vannak-binary|durga-json] [--durga-process <process-id>] [--source-id <id>] [--tenant-id <id>] [--environment-id <id>] [--journal <path> <segment-id> <node-id>] [--poll-timeout-ms <ms>] [--report-interval <n>] <topic>...''"

definition parse_positive_usize :: "string \<Rightarrow> string \<Rightarrow> string + nat" where
  "parse_positive_usize s label =
     (case parse_usize s of
        None \<Rightarrow> Err (label @ '' must be a positive integer'')
      | Some parsed \<Rightarrow> if parsed = 0 then Err (label @ '' must be greater than zero'') else Ok parsed)"

definition cli_option :: "string \<Rightarrow> string list \<Rightarrow> CliConfig \<Rightarrow> string + CliConfig \<times> string list" where
  "cli_option opt args c =
     (if opt = ''--journal'' then
        (case args of
           p # segment_id # node_id # rest \<Rightarrow>
             Ok (c\<lparr>cl_journal := Some \<lparr>jc_path = p, jc_segment_id = segment_id, jc_node_id = node_id\<rparr>\<rparr>, rest)
         | _ \<Rightarrow> Err ingest_usage)
      else if opt = ''--poll-timeout-ms'' then
        (case args of
           ms # rest \<Rightarrow>
             (case parse_word 64 ms of
                None \<Rightarrow> Err ''poll-timeout-ms must be a positive integer''
              | Some ms \<Rightarrow> Ok (c\<lparr>cl_poll_timeout_ms := ms\<rparr>, rest))
         | [] \<Rightarrow> Err ingest_usage)
      else if opt = ''--report-interval'' then
        (case args of
           n # rest \<Rightarrow>
             (case parse_word 64 n of
                None \<Rightarrow> Err ''report-interval must be a positive integer''
              | Some n \<Rightarrow>
                  if n = 0 then Err ''report-interval must be greater than zero'' else Ok (c\<lparr>cl_report_interval := n\<rparr>, rest))
         | [] \<Rightarrow> Err ingest_usage)
      else if opt = ''--payload-format'' then
        (case args of
           format # rest \<Rightarrow>
             (case KafkaPayloadFormat_parse format of
                None \<Rightarrow> Err ''payload-format must be vannak-binary or durga-json''
              | Some format \<Rightarrow> Ok (c\<lparr>cl_payload_format := format\<rparr>, rest))
         | [] \<Rightarrow> Err ingest_usage)
      else if opt = ''--durga-process'' then
        (case args of
           process_id # rest \<Rightarrow>
             Ok (c\<lparr>cl_payload_format := DurgaJson, cl_topics := cl_topics c @ [durga_process_events_topic process_id]\<rparr>, rest)
         | [] \<Rightarrow> Err ingest_usage)
      else if opt = ''--source-id'' then
        (case args of i # rest \<Rightarrow> Ok (c\<lparr>cl_source_id := i\<rparr>, rest) | [] \<Rightarrow> Err ingest_usage)
      else if opt = ''--tenant-id'' then
        (case args of i # rest \<Rightarrow> Ok (c\<lparr>cl_tenant_id := i\<rparr>, rest) | [] \<Rightarrow> Err ingest_usage)
      else if opt = ''--environment-id'' then
        (case args of i # rest \<Rightarrow> Ok (c\<lparr>cl_environment_id := i\<rparr>, rest) | [] \<Rightarrow> Err ingest_usage)
      else if is_flag opt then Err (''unknown option '' @ opt)
      else Ok (c\<lparr>cl_topics := cl_topics c @ [opt]\<rparr>, args))"

definition cli_ok :: "CliConfig \<Rightarrow> bool" where
  "cli_ok c \<longleftrightarrow> 0 < cl_shards c \<and> 0 < cl_mailbox_capacity c \<and> cl_report_interval c \<noteq> 0"

lemma cli_option_shape:
  assumes "cli_option opt args c = Inr (c', rest)"
  shows "length rest \<le> length args \<and> cl_shards c' = cl_shards c \<and> cl_mailbox_capacity c' = cl_mailbox_capacity c \<and>
    (cl_report_interval c' = cl_report_interval c \<or> cl_report_interval c' \<noteq> 0)"
proof -
  let ?ok = "\<lambda>r. case r of Inl e \<Rightarrow> True | Inr (c', rest) \<Rightarrow> length rest \<le> length args \<and> cl_shards c' = cl_shards c \<and>
    cl_mailbox_capacity c' = cl_mailbox_capacity c \<and> (cl_report_interval c' = cl_report_interval c \<or> cl_report_interval c' \<noteq> 0)"
  have "cli_option opt args c \<in> Collect ?ok"
    unfolding cli_option_def by (intro if_mem) (simp_all split: list.split option.split)
  with assms show ?thesis by simp
qed

function cli_loop :: "string list \<Rightarrow> CliConfig \<Rightarrow> string + CliConfig" where
  "cli_loop [] c = Ok c"
| "cli_loop (opt # args) c =
     (case cli_option opt args c of
        Inl e \<Rightarrow> Err e
      | Inr (c, rest) \<Rightarrow> cli_loop rest c)"
  by pat_completeness auto
termination
  by (relation "measure (\<lambda>(args, _). length args)") (auto dest: cli_option_shape)

definition CliConfig_parse :: "string list \<Rightarrow> string + CliConfig" where
  "CliConfig_parse args =
     (case args of
        brokers # group_id # shards # mailbox_capacity # first # rest \<Rightarrow>
          res_bind (parse_positive_usize shards ''shards'') (\<lambda>shards.
          res_bind (parse_positive_usize mailbox_capacity ''mailbox-capacity'') (\<lambda>mailbox_capacity.
          res_bind (cli_loop (first # rest)
            \<lparr>cl_brokers = brokers, cl_group_id = group_id, cl_shards = shards, cl_mailbox_capacity = mailbox_capacity,
             cl_poll_timeout_ms = 100, cl_report_interval = 1000, cl_payload_format = VannakBinary, cl_source_id = ''kafka'',
             cl_tenant_id = ''default'', cl_environment_id = ''default'', cl_journal = None, cl_topics = []\<rparr>) (\<lambda>c.
          if cl_topics c = [] then Err ingest_usage else Ok c)))
      | _ \<Rightarrow> Err ingest_usage)"

lemma cli_loop_ok: "cli_loop args c = Inr c' \<Longrightarrow> cli_ok c \<Longrightarrow> cli_ok c'"
proof (induction args c rule: cli_loop.induct)
  case (2 opt args c)
  then obtain c1 rest where o: "cli_option opt args c = Inr (c1, rest)" "cli_loop rest c1 = Inr c'"
    by (auto split: sum.splits)
  from cli_option_shape [OF o(1)] 2(3) have "cli_ok c1" by (auto simp: cli_ok_def)
  with 2(1) [OF o(1) refl o(2)] show ?case by simp
qed simp

text \<open>What the runner accepts has shards, mailboxes, a topic and an interval that it can divide by.\<close>

lemma cli_accepts_valid:
  assumes "CliConfig_parse args = Inr c"
  shows "cli_ok c" "cl_topics c \<noteq> []"
proof -
  from assms obtain as c0 where "cli_loop as c0 = Inr c" "cli_ok c0" "cl_topics c \<noteq> []"
    by (auto simp: CliConfig_parse_def parse_positive_usize_def cli_ok_def simp del: cli_loop.simps
        split: list.splits option.splits if_splits)
  then show "cli_ok c" "cl_topics c \<noteq> []" using cli_loop_ok by blast+
qed

end
