(* ===== verification/Node_Control.thy ===== *)
theory Node_Control
  imports Raft_SM Background_Writer
begin

text \<open>
  The control plane of a Raft member (\<open>src/node_control.rs\<close>): \<open>RaftControlPlane\<close> sends the commands and
  queries of the metadata writer to the consensus library and follows at most two redirects to the
  leader. The library, its transport and the protobuf codec are a parameter, the record \<open>raft_ops\<close> over
  a state of the cluster. Its contract \<open>raft_contract\<close> is the one Raft documents: there is one log, it
  only grows, a command answered with success is in the log and its answer is what the state machine of
  \<open>Raft_SM\<close> returned for it, and a query answered with success saw some state between the request and
  the answer.

  The main result is that the plane is linearizable: a proposal reported as done was applied and accepted,
  and a read returns a committed state of the time of the call.
\<close>

subsection \<open>The consensus library\<close>

datatype rpc_kind = ClientQueryRequest | ClientCommandRequest

record 'j raft_response =
  rr_success :: bool
  rr_leader_id :: string
  rr_status :: string
  rr_message :: string
  rr_result :: 'j

record ('n, 'j, 'b) raft_ops =
  rf_me :: "'n \<Rightarrow> string"
  rf_dispatch :: "rpc_kind \<Rightarrow> 'b \<Rightarrow> 'n \<Rightarrow> 'n \<times> 'b"
  rf_peer_addr :: "string \<Rightarrow> 'n \<Rightarrow> string + string"
  rf_send_rpc :: "string \<Rightarrow> rpc_kind \<Rightarrow> 'b \<Rightarrow> 'n \<Rightarrow> 'n \<times> (string + 'b)"
  rf_encode_request :: "rpc_kind \<Rightarrow> 'j \<Rightarrow> 'b"
  rf_decode_response :: "rpc_kind \<Rightarrow> 'b \<Rightarrow> string + 'j raft_response"
  rf_of_query :: "ClusterQuery \<Rightarrow> string + 'j"
  rf_error_text :: "RaftError \<Rightarrow> string"
  rf_result_text :: "'j \<Rightarrow> string"

subsection \<open>Requests\<close>

fun follow_leader ::
  "('n, 'j, 'b) raft_ops \<Rightarrow> rpc_kind \<Rightarrow> 'b \<Rightarrow> nat \<Rightarrow> 'n \<times> 'b \<Rightarrow> 'n \<times> (string + 'b)" where
  "follow_leader ops kind payload 0 (n, reply) = (n, Ok reply)"
| "follow_leader ops kind payload (Suc redirects) (n, reply) =
     (case rf_decode_response ops kind reply of
        Inl e \<Rightarrow> (n, Err e)
      | Inr response \<Rightarrow>
          if rr_success response \<or> rr_leader_id response = [] \<or> rr_leader_id response = rf_me ops n then (n, Ok reply)
          else case rf_peer_addr ops (rr_leader_id response) n of
            Inl e \<Rightarrow> (n, Err e)
          | Inr address \<Rightarrow>
              (case rf_send_rpc ops address kind payload n of
                 (n, Inl e) \<Rightarrow> (n, Err e)
               | (n, Inr reply) \<Rightarrow> follow_leader ops kind payload redirects (n, reply)))"

definition request :: "('n, 'j, 'b) raft_ops \<Rightarrow> rpc_kind \<Rightarrow> 'b \<Rightarrow> 'n \<Rightarrow> 'n \<times> (string + 'b)" where
  "request ops kind payload n = follow_leader ops kind payload 2 (rf_dispatch ops kind payload n)"

definition RaftControlPlane_read ::
  "'j json \<Rightarrow> ('n, 'j, 'b) raft_ops \<Rightarrow> 'n \<Rightarrow> 'n \<times> (plane_error + ClusterControlState)" where
  "RaftControlPlane_read js ops n =
     (case rf_of_query ops CqControlSnapshot of
        Inl e \<Rightarrow> (n, Err (PlaneUnavailable e))
      | Inr query \<Rightarrow>
          (case request ops ClientQueryRequest (rf_encode_request ops ClientQueryRequest query) n of
             (n, Inl e) \<Rightarrow> (n, Err (PlaneUnavailable e))
           | (n, Inr reply) \<Rightarrow>
               (case rf_decode_response ops ClientQueryRequest reply of
                  Inl e \<Rightarrow> (n, Err (PlaneUnavailable e))
                | Inr response \<Rightarrow>
                    if \<not> rr_success response
                    then (n, Err (PlaneUnavailable (''control read: '' @ rr_status response @ '' '' @ rr_message response)))
                    else (n, map_err (\<lambda>e. PlaneUnavailable (rf_error_text ops e)) (decode_snapshot js (rr_result response))))))"

definition RaftControlPlane_propose ::
  "'j json \<Rightarrow> ('n, 'j, 'b) raft_ops \<Rightarrow> ClusterControlCommand \<Rightarrow> 'n \<Rightarrow> 'n \<times> (plane_error + unit)" where
  "RaftControlPlane_propose js ops command n =
     (case encode_command js command of
        Inl e \<Rightarrow> (n, Err (PlaneUnavailable e))
      | Inr data \<Rightarrow>
          (case request ops ClientCommandRequest (rf_encode_request ops ClientCommandRequest data) n of
             (n, Inl e) \<Rightarrow> (n, Err (PlaneUnavailable e))
           | (n, Inr reply) \<Rightarrow>
               (case rf_decode_response ops ClientCommandRequest reply of
                  Inl e \<Rightarrow> (n, Err (PlaneUnavailable e))
                | Inr response \<Rightarrow>
                    if \<not> rr_success response
                    then (n, Err (PlaneUnavailable (''control proposal: '' @ rr_status response @ '' '' @ rr_message response)))
                    else if rr_result response \<noteq> js_empty js
                    then (n, Err (PlaneUnavailable (rf_result_text ops (rr_result response))))
                    else (n, Ok ()))))"

text \<open>The plane as the background writer uses it.\<close>

definition raft_plane :: "'j json \<Rightarrow> ('n, 'j, 'b) raft_ops \<Rightarrow> 'n plane" where
  "raft_plane js ops = \<lparr>pl_read = (\<lambda>n. snd (RaftControlPlane_read js ops n)), pl_propose = RaftControlPlane_propose js ops\<rparr>"

subsection \<open>The contract\<close>

abbreviation state_after :: "'j json \<Rightarrow> 'j list \<Rightarrow> ClusterStateMachine" where
  "state_after js log \<equiv> sm_run js log ClusterStateMachine_new"

text \<open>\<open>answered js kind d L L' resp\<close>: what a response says about the growth of the log from \<open>L\<close> to \<open>L'\<close>.\<close>

definition answered :: "'j json \<Rightarrow> rpc_kind \<Rightarrow> 'j \<Rightarrow> 'j list \<Rightarrow> 'j list \<Rightarrow> 'j raft_response \<Rightarrow> bool" where
  "answered js kind d L L' resp \<longleftrightarrow> rr_success resp \<longrightarrow>
     (case kind of
        ClientQueryRequest \<Rightarrow>
          \<exists>pre post. L' = L @ pre @ post \<and> rr_result resp = sm_query js d (state_after js (L @ pre))
      | ClientCommandRequest \<Rightarrow>
          \<exists>pre post. L' = L @ pre @ d # post \<and> rr_result resp = snd (sm_apply_with_result js d (state_after js (L @ pre))))"

definition raft_contract :: "'j json \<Rightarrow> ('n, 'j, 'b) raft_ops \<Rightarrow> ('n \<Rightarrow> 'j list) \<Rightarrow> bool" where
  "raft_contract js ops log \<longleftrightarrow>
     (\<forall>kind d n n' reply. rf_dispatch ops kind (rf_encode_request ops kind d) n = (n', reply) \<longrightarrow>
        (\<exists>added. log n' = log n @ added) \<and>
        (\<forall>resp. rf_decode_response ops kind reply = Ok resp \<longrightarrow> answered js kind d (log n) (log n') resp)) \<and>
     (\<forall>kind d address n n' r. rf_send_rpc ops address kind (rf_encode_request ops kind d) n = (n', r) \<longrightarrow>
        (\<exists>added. log n' = log n @ added) \<and>
        (\<forall>reply resp. r = Ok reply \<and> rf_decode_response ops kind reply = Ok resp \<longrightarrow> answered js kind d (log n) (log n') resp))"

text \<open>A rejected command has an answer, since no JSON text is empty; and the query is read back.\<close>

definition json_answers :: "'j json \<Rightarrow> ('n, 'j, 'b) raft_ops \<Rightarrow> bool" where
  "json_answers js ops \<longleftrightarrow>
     (\<forall>e. \<exists>d. js_of_answer js (AvError e) = Ok d \<and> d \<noteq> js_empty js) \<and>
     (\<forall>d. rf_of_query ops CqControlSnapshot = Ok d \<longrightarrow> js_to_query js d = Ok CqControlSnapshot)"

lemma contract_dispatch:
  assumes "raft_contract js ops log" "rf_dispatch ops kind (rf_encode_request ops kind d) n = (n', reply)"
  shows "\<exists>added. log n' = log n @ added"
    and "rf_decode_response ops kind reply = Inr resp \<Longrightarrow> answered js kind d (log n) (log n') resp"
  using conjunct1 [OF assms(1) [unfolded raft_contract_def], rule_format, OF assms(2)] by simp_all

lemma contract_send:
  assumes "raft_contract js ops log" "rf_send_rpc ops address kind (rf_encode_request ops kind d) n = (n', Inr reply)"
  shows "\<exists>added. log n' = log n @ added"
    and "rf_decode_response ops kind reply = Inr resp \<Longrightarrow> answered js kind d (log n) (log n') resp"
  using conjunct2 [OF assms(1) [unfolded raft_contract_def], rule_format, OF assms(2)] by simp_all

lemma answered_later: "L0 = L @ added \<Longrightarrow> answered js kind d L0 L' resp \<Longrightarrow> answered js kind d L L' resp"
  unfolding answered_def by (cases kind) (auto, (metis append.assoc)+)

lemma follow_leader_answered:
  assumes "raft_contract js ops log" "follow_leader ops kind (rf_encode_request ops kind d) k (n, reply) = (n', Inr reply')"
    and "log n = L @ added" "\<And>resp. rf_decode_response ops kind reply = Inr resp \<Longrightarrow> answered js kind d L (log n) resp"
    and "rf_decode_response ops kind reply' = Inr resp"
  shows "answered js kind d L (log n') resp"
  using assms(2-)
proof (induction k arbitrary: n reply added)
  case (Suc k)
  show ?case
  proof (cases "follow_leader ops kind (rf_encode_request ops kind d) (Suc k) (n, reply) = (n, Inr reply)")
    case True
    with Suc.prems show ?thesis by simp
  next
    case False
    with Suc.prems(1) obtain address n1 reply1 where
      s: "rf_send_rpc ops address kind (rf_encode_request ops kind d) n = (n1, Inr reply1)"
      and rest: "follow_leader ops kind (rf_encode_request ops kind d) k (n1, reply1) = (n', Inr reply')"
      by (auto split: sum.splits if_splits prod.splits)
    obtain m where m: "log n1 = log n @ m" using contract_send(1) [OF assms(1) s] by blast
    note a = contract_send(2) [OF assms(1) s]
    have "log n1 = L @ added @ m" using m Suc.prems(2) by simp
    moreover have "answered js kind d L (log n1) resp" if "rf_decode_response ops kind reply1 = Inr resp" for resp
      using answered_later [OF Suc.prems(2) a [OF that]] .
    ultimately show ?thesis using Suc.IH [OF rest] Suc.prems(4) by blast
  qed
qed simp

lemma raft_request_answered:
  assumes "raft_contract js ops log" "request ops kind (rf_encode_request ops kind d) n = (n', Inr reply)"
    "rf_decode_response ops kind reply = Inr resp"
  shows "answered js kind d (log n) (log n') resp"
proof -
  obtain n0 reply0 where d: "rf_dispatch ops kind (rf_encode_request ops kind d) n = (n0, reply0)" by (metis prod.collapse)
  obtain added where l: "log n0 = log n @ added" using contract_dispatch(1) [OF assms(1) d] by blast
  have "follow_leader ops kind (rf_encode_request ops kind d) 2 (n0, reply0) = (n', Inr reply)"
    using assms(2) d by (simp only: request_def)
  from follow_leader_answered [OF assms(1) this l contract_dispatch(2) [OF assms(1) d] assms(3)] show ?thesis .
qed

lemma decode_encoded_command:
  assumes "json_ok js" "command_ok c" "encode_command js c = Inr d"
  shows "decode_command js d = Inr c"
proof -
  obtain d' where "js_of_command js (ser_command c) = Inr d'" "js_to_command js d' = Inr (ser_command c)"
    using assms(1) by (auto simp: json_ok_def)
  with assms(3) deser_ser_command [OF assms(2)] show ?thesis by (simp add: encode_command_def decode_command_def)
qed

lemma accepted_command:
  assumes "json_ok js" "json_answers js ops" "command_ok c" "encode_command js c = Inr d"
    "snd (sm_apply_with_result js d sm) = js_empty js"
  shows "snd (control_apply c (sm_state sm)) = Inr ()"
proof -
  have "unwrap_or (js_empty js) (js_of_answer js (AvError e)) \<noteq> js_empty js" for e
    using assms(2) unfolding json_answers_def unwrap_or_def by (metis sum.case(2))
  with assms(5) decode_encoded_command [OF assms(1,3,4)] show ?thesis
    by (auto simp: sm_apply_with_result_def split: prod.splits sum.splits)
qed

lemma snapshot_decoded:
  assumes "json_ok js" "\<forall>d m. d \<in> set log \<longrightarrow> decode_command js d = Ok (RecordSealedSegment m) \<longrightarrow> rust_string (sm_path m)"
  shows "decode_snapshot js (handle_query js (sm_state (state_after js log)) CqControlSnapshot) = Inr (sm_state (state_after js log))"
proof -
  let ?st = "control_run (decoded js log) ClusterControlState_new"
  have "list_all command_ok (decoded js log)" using assms(2) by (intro decoded_ok) blast
  from control.load_dump [OF control.good_log [OF control.good_start this]]
  have "deser_snapshot (ser_snapshot ?st) = Inr ?st" by (simp add: control_run_def)
  moreover obtain d where "js_of_snapshot js (ser_snapshot ?st) = Inr d" "js_to_snapshot js d = Inr (ser_snapshot ?st)"
    using assms(1) by (auto simp: json_ok_def)
  ultimately show ?thesis
    by (simp add: encode_snapshot_def decode_snapshot_def unwrap_or_def sm_run_decoded ClusterStateMachine_new_def)
qed

text \<open>Whatever a request returns, the log only grows.\<close>

lemma follow_leader_grows:
  assumes "raft_contract js ops log" "follow_leader ops kind (rf_encode_request ops kind d) k (n, reply) = (n', r)"
  shows "\<exists>added. log n' = log n @ added"
  using assms(2)
proof (induction k arbitrary: n reply)
  case (Suc k)
  show ?case
  proof (cases "n' = n")
    case False
    with Suc.prems obtain address n1 r1 where s: "rf_send_rpc ops address kind (rf_encode_request ops kind d) n = (n1, r1)"
      and rest: "n' = n1 \<or> (\<exists>reply1. follow_leader ops kind (rf_encode_request ops kind d) k (n1, reply1) = (n', r))"
      by (auto split: sum.splits if_splits prod.splits)
    obtain added where "log n1 = log n @ added"
      using conjunct2 [OF assms(1) [unfolded raft_contract_def], rule_format, OF s] by blast
    with rest Suc.IH show ?thesis by force
  qed simp
qed simp

lemma request_grows:
  assumes "raft_contract js ops log" "request ops kind (rf_encode_request ops kind d) n = (n', r)"
  shows "\<exists>added. log n' = log n @ added"
proof -
  obtain n0 reply where d: "rf_dispatch ops kind (rf_encode_request ops kind d) n = (n0, reply)" by (metis prod.collapse)
  have "follow_leader ops kind (rf_encode_request ops kind d) 2 (n0, reply) = (n', r)" using assms(2) d by (simp only: request_def)
  from follow_leader_grows [OF assms(1) this] contract_dispatch(1) [OF assms(1) d] show ?thesis by force
qed

lemma raft_plane_grows:
  assumes "raft_contract js ops log"
  shows "RaftControlPlane_propose js ops c n = (n', r) \<Longrightarrow> \<exists>added. log n' = log n @ added"
    and "RaftControlPlane_read js ops n = (n', s) \<Longrightarrow> \<exists>added. log n' = log n @ added"
  by (auto simp: RaftControlPlane_propose_def RaftControlPlane_read_def dest: request_grows [OF assms]
      split: sum.splits prod.splits if_splits)

lemma propose_committed:
  assumes "raft_contract js ops log" "json_ok js" "json_answers js ops" "command_ok c"
    and "RaftControlPlane_propose js ops c n = (n', Inr ())"
  shows "\<exists>d pre post. encode_command js c = Inr d \<and> log n' = log n @ pre @ d # post \<and>
    snd (control_apply c (sm_state (state_after js (log n @ pre)))) = Inr ()"
proof -
  from assms(5) obtain d reply resp where d: "encode_command js c = Inr d"
    and r: "request ops ClientCommandRequest (rf_encode_request ops ClientCommandRequest d) n = (n', Inr reply)"
      "rf_decode_response ops ClientCommandRequest reply = Inr resp" "rr_success resp" "rr_result resp = js_empty js"
    by (auto simp: RaftControlPlane_propose_def split: sum.splits prod.splits if_splits)
  from raft_request_answered [OF assms(1) r(1,2)] r(3,4) obtain pre post where
    "log n' = log n @ pre @ d # post" "snd (sm_apply_with_result js d (state_after js (log n @ pre))) = js_empty js"
    by (auto simp: answered_def)
  with accepted_command [OF assms(2,3,4) d] d show ?thesis by blast
qed

lemma read_committed_log:
  assumes "raft_contract js ops log" "json_ok js" "json_answers js ops"
    and "\<forall>d m. d \<in> set (log n') \<longrightarrow> decode_command js d = Inr (RecordSealedSegment m) \<longrightarrow> rust_string (sm_path m)"
    and "RaftControlPlane_read js ops n = (n', Inr st)"
  shows "\<exists>pre post. log n' = log n @ pre @ post \<and> st = sm_state (state_after js (log n @ pre))"
proof -
  from assms(5) obtain d reply resp where d: "rf_of_query ops CqControlSnapshot = Inr d"
    and r: "request ops ClientQueryRequest (rf_encode_request ops ClientQueryRequest d) n = (n', Inr reply)"
      "rf_decode_response ops ClientQueryRequest reply = Inr resp" "rr_success resp"
    and st: "decode_snapshot js (rr_result resp) = Inr st"
    by (auto simp: RaftControlPlane_read_def split: sum.splits prod.splits if_splits)
  from raft_request_answered [OF assms(1) r(1,2)] r(3) obtain pre post where
    l: "log n' = log n @ pre @ post" and q: "rr_result resp = sm_query js d (state_after js (log n @ pre))"
    by (auto simp: answered_def)
  have "js_to_query js d = Inr CqControlSnapshot" using assms(3) d by (simp add: json_answers_def)
  then have "rr_result resp = handle_query js (sm_state (state_after js (log n @ pre))) CqControlSnapshot"
    using q by (simp add: sm_query_def)
  moreover have "\<forall>d m. d \<in> set (log n @ pre) \<longrightarrow> decode_command js d = Inr (RecordSealedSegment m) \<longrightarrow> rust_string (sm_path m)"
    using assms(4) l by (metis Un_iff append.assoc set_append)
  ultimately have "st = sm_state (state_after js (log n @ pre))" using snapshot_decoded [OF assms(2)] st by fastforce
  with l show ?thesis by blast
qed

text \<open>
  (C36) The Raft control plane is linearizable. When the consensus library keeps its contract, a proposal
  that is reported as done, at this node or after redirects, is in the log behind everything that was
  committed before the call, and the control state accepted it there; and a read returns the control
  state after some committed part of the log that contains everything committed before the call.
\<close>

theorem raft_plane_linearizable:
  assumes "raft_contract js ops log" "json_ok js" "json_answers js ops"
    and "\<forall>d m. d \<in> set (log n') \<longrightarrow> decode_command js d = Ok (RecordSealedSegment m) \<longrightarrow> rust_string (sm_path m)"
  shows "(command_ok c \<and> RaftControlPlane_propose js ops c n = (n', Ok ()) \<longrightarrow>
      (\<exists>d pre post. encode_command js c = Ok d \<and> log n' = log n @ pre @ d # post \<and>
        snd (control_apply c (sm_state (state_after js (log n @ pre)))) = Ok ())) \<and>
    (RaftControlPlane_read js ops n = (n', Ok st) \<longrightarrow>
      (\<exists>pre post. log n' = log n @ pre @ post \<and> st = sm_state (state_after js (log n @ pre))))"
  using propose_committed [OF assms(1,2,3), of c n n'] read_committed_log [OF assms, of n st] by blast

subsection \<open>A cluster of one\<close>

text \<open>A single member that is the leader: its log is the state, and a request is answered at once.\<close>

datatype control_doc = CdCommand SerCommandVariant | CdSnapshot SerClusterControlSnapshot | CdQuery ClusterQuery
  | CdAnswer AnswerValue | CdEmpty

definition doc_json :: "control_doc json" where
  "doc_json =
     \<lparr>js_empty = CdEmpty,
      js_of_command = (\<lambda>c. Ok (CdCommand c)),
      js_to_command = (\<lambda>d. case d of CdCommand c \<Rightarrow> Ok c | _ \<Rightarrow> Err ''not a command''),
      js_of_snapshot = (\<lambda>s. Ok (CdSnapshot s)),
      js_to_snapshot = (\<lambda>d. case d of CdSnapshot s \<Rightarrow> Ok s | _ \<Rightarrow> Err ''not a snapshot''),
      js_to_query = (\<lambda>d. case d of CdQuery q \<Rightarrow> Ok q | _ \<Rightarrow> Err ''not a query''),
      js_of_answer = (\<lambda>a. Ok (CdAnswer a))\<rparr>"

definition reply_of :: "control_doc \<Rightarrow> control_doc raft_response" where
  "reply_of d = \<lparr>rr_success = True, rr_leader_id = ''n1'', rr_status = [], rr_message = [], rr_result = d\<rparr>"

definition single_node :: "(control_doc list, control_doc, control_doc) raft_ops" where
  "single_node =
     \<lparr>rf_me = (\<lambda>_. ''n1''),
      rf_dispatch = (\<lambda>kind d log. case kind of
         ClientQueryRequest \<Rightarrow> (log, sm_query doc_json d (state_after doc_json log))
       | ClientCommandRequest \<Rightarrow> (log @ [d], snd (sm_apply_with_result doc_json d (state_after doc_json log)))),
      rf_peer_addr = (\<lambda>_ _. Err ''unknown peer''), rf_send_rpc = (\<lambda>_ _ _ log. (log, Err ''unreachable'')),
      rf_encode_request = (\<lambda>_ d. d), rf_decode_response = (\<lambda>_ d. Ok (reply_of d)),
      rf_of_query = (\<lambda>q. Ok (CdQuery q)), rf_error_text = (\<lambda>_. []), rf_result_text = (\<lambda>_. [])\<rparr>"

lemma single_node_contract: "raft_contract doc_json single_node id"
proof -
  have "answered doc_json ClientQueryRequest d log log (reply_of (sm_query doc_json d (state_after doc_json log)))" for d log
    by (auto simp: answered_def reply_of_def intro!: exI [of _ "[]"])
  moreover have "answered doc_json ClientCommandRequest d log (log @ [d])
      (reply_of (snd (sm_apply_with_result doc_json d (state_after doc_json log))))" for d log
    by (auto simp: answered_def reply_of_def intro!: exI [of _ "[]"])
  ultimately show ?thesis by (auto simp: raft_contract_def single_node_def split: rpc_kind.splits)
qed

lemma raft_plane_linearizable_witness:
  "\<exists>log' d pre post. RaftControlPlane_propose doc_json single_node (AddNode ''n1'') [] = (log', Ok ()) \<and>
     encode_command doc_json (AddNode ''n1'') = Ok d \<and> log' = [] @ pre @ d # post \<and>
     snd (control_apply (AddNode ''n1'') (sm_state (state_after doc_json ([] @ pre)))) = Ok ()"
proof -
  let ?d = "CdCommand (ScAddNode ''n1'')"
  have js: "json_ok doc_json" "json_answers doc_json single_node"
    by (simp_all add: json_ok_def json_answers_def doc_json_def single_node_def)
  have decoded: "decode_command doc_json ?d = Inr (AddNode ''n1'')" by (simp add: decode_command_def doc_json_def)
  then have answer: "snd (sm_apply_with_result doc_json ?d sm) = CdEmpty" for sm
    by (simp add: sm_apply_with_result_def) (simp add: doc_json_def)
  have "rf_dispatch single_node ClientCommandRequest ?d [] = ([?d], CdEmpty)" using answer by (simp add: single_node_def)
  then have "request single_node ClientCommandRequest ?d [] = ([?d], Inr CdEmpty)"
    by (simp add: request_def numeral_2_eq_2) (simp add: single_node_def reply_of_def)
  moreover have "encode_command doc_json (AddNode ''n1'') = Inr ?d" "js_empty doc_json = CdEmpty"
    "rf_encode_request single_node ClientCommandRequest ?d = ?d"
    "rf_decode_response single_node ClientCommandRequest CdEmpty = Inr (reply_of CdEmpty)"
    by (simp_all add: encode_command_def doc_json_def single_node_def)
  ultimately have propose: "RaftControlPlane_propose doc_json single_node (AddNode ''n1'') [] = ([?d], Ok ())"
    by (simp add: RaftControlPlane_propose_def reply_of_def)
  moreover have "\<forall>d m. d \<in> set (id [?d]) \<longrightarrow> decode_command doc_json d = Ok (RecordSealedSegment m) \<longrightarrow> rust_string (sm_path m)"
    using decoded by simp
  ultimately show ?thesis
    using raft_plane_linearizable [OF single_node_contract js, of "[?d]" "AddNode ''n1''" "[]"] by (simp add: command_ok_def)
qed

end
