(* ===== verification/Sitas_Workers.thy ===== *)
theory Sitas_Workers
  imports Sitas_Runtime
begin

text \<open>
  The long-running mailbox workers of \<open>src/sitas_runtime.rs\<close>: \<open>start_mailbox_workers\<close>,
  \<open>run_ingest_worker\<close>, \<open>stop_mailbox_workers\<close>, and \<open>submit\<close>, \<open>drain_shard\<close>, \<open>drain_all\<close> and \<open>stop\<close> beside them. The
  receiver of a mailbox is in the state of its shard or held by the shard's worker. A worker task is
  modelled by what it does between two points at which it may wait: it takes the receiver, it handles one
  result of the race between the mailbox and the stop token, or it returns. \<open>access\<close> is the result of
  reaching the shard's state, which the library may refuse.

  \<open>worker_run\<close> interleaves submissions, manual drains and the steps of the workers in any order. Every
  such history is one of the bounded ingest runtime in \<open>Runtime\<close>, so nothing is lost and the order of a
  shard is kept; each receiver has one owner, and stopping returns all of them with summaries that count
  what each worker was handed. A refused access to a shard's state ends the worker with an error, and the
  event it had just received goes with it; histories with such a refusal are left out of \<open>worker_run\<close>.
\<close>

subsection \<open>State\<close>

record IngestWorkerSummary =
  iw_attempted :: u64
  iw_accepted :: u64
  iw_duplicates :: u64
  iw_failed :: u64

definition IngestWorkerSummary_default :: IngestWorkerSummary where
  "IngestWorkerSummary_default = \<lparr>iw_attempted = 0, iw_accepted = 0, iw_duplicates = 0, iw_failed = 0\<rparr>"

datatype worker_task =
  WtSpawned
| WtRunning IngestWorkerSummary
| WtFinished "SitasRuntimeError + IngestWorkerSummary"

text \<open>\<open>st_workers\<close> of the runtime is \<open>workers.is_some()\<close>; the tasks are those of the current workers.\<close>

record 'm WorkerRuntime =
  wr_runtime :: "'m SitasShardRuntime"
  wr_receivers :: "bool list"
  wr_tasks :: "worker_task list"
  wr_stop :: bool

definition WorkerRuntime_start ::
  "'m mailbox_ops \<Rightarrow> sitas_error + unit \<Rightarrow> sitas_error + unit \<Rightarrow> SitasRuntimeConfig \<Rightarrow> SitasRuntimeError + 'm WorkerRuntime" where
  "WorkerRuntime_start mb executor mailboxes config =
     res_bind (SitasShardRuntime_start mb executor mailboxes config) (\<lambda>rt.
     Ok \<lparr>wr_runtime = rt, wr_receivers = replicate (sc_shard_count config) True, wr_tasks = [], wr_stop = False\<rparr>)"

definition set_task :: "nat \<Rightarrow> worker_task \<Rightarrow> 'm WorkerRuntime \<Rightarrow> 'm WorkerRuntime" where
  "set_task i t wr = wr\<lparr>wr_tasks := (wr_tasks wr)[i := t]\<rparr>"

definition set_receiver :: "nat \<Rightarrow> bool \<Rightarrow> 'm WorkerRuntime \<Rightarrow> 'm WorkerRuntime" where
  "set_receiver i b wr = wr\<lparr>wr_receivers := (wr_receivers wr)[i := b]\<rparr>"

subsection \<open>Starting and stopping\<close>

definition start_mailbox_workers ::
  "sitas_error + unit \<Rightarrow> 'm WorkerRuntime \<Rightarrow> 'm WorkerRuntime \<times> (SitasRuntimeError + unit)" where
  "start_mailbox_workers spawned wr =
     (if st_workers (wr_runtime wr) then (wr, Err SeWorkersAlreadyRunning)
      else case spawned of
        Inl e \<Rightarrow> (wr, Err (SeSpawn e))
      | Inr _ \<Rightarrow>
          (wr\<lparr>wr_runtime := (wr_runtime wr)\<lparr>st_workers := True\<rparr>,
              wr_tasks := replicate (length (st_indexes (wr_runtime wr))) WtSpawned, wr_stop := False\<rparr>, Ok ()))"

text \<open>
  \<open>stop_mailbox_workers\<close> sets the stop token, waits until every worker has returned and collects the
  summaries up to the first error; \<open>request_stop\<close> and \<open>join_workers\<close> are what it does before and after
  the wait.
\<close>

definition request_stop :: "'m WorkerRuntime \<Rightarrow> 'm WorkerRuntime" where
  "request_stop wr = (if st_workers (wr_runtime wr) then wr\<lparr>wr_stop := True\<rparr> else wr)"

fun finished :: "worker_task \<Rightarrow> bool" where
  "finished (WtFinished _) = True"
| "finished _ = False"

fun collect_summaries :: "nat \<Rightarrow> worker_task list \<Rightarrow> SitasRuntimeError + (LogicalShardId \<times> IngestWorkerSummary) list" where
  "collect_summaries i [] = Ok []"
| "collect_summaries i (WtFinished r # tasks) =
     res_bind r (\<lambda>summary. res_bind (collect_summaries (Suc i) tasks) (\<lambda>ss. Ok ((i, summary) # ss)))"
| "collect_summaries i (_ # tasks) = Ok []"

definition join_workers ::
  "sitas_error + unit \<Rightarrow> 'm WorkerRuntime \<Rightarrow>
     'm WorkerRuntime \<times> (SitasRuntimeError + (LogicalShardId \<times> IngestWorkerSummary) list)" where
  "join_workers joined wr =
     (if \<not> st_workers (wr_runtime wr) then (wr, Ok [])
      else
        (wr\<lparr>wr_runtime := (wr_runtime wr)\<lparr>st_workers := False\<rparr>, wr_tasks := []\<rparr>,
         case joined of Inl e \<Rightarrow> Err (SeJoin e) | Inr _ \<Rightarrow> collect_summaries 0 (wr_tasks wr)))"

text \<open>\<open>stop\<close> consumes the runtime; \<open>executor\<close> is the result of stopping the executor.\<close>

definition sitas_stop :: "sitas_error + unit \<Rightarrow> sitas_error + unit \<Rightarrow> 'm WorkerRuntime \<Rightarrow> SitasRuntimeError + unit" where
  "sitas_stop joined executor wr =
     (case snd (join_workers joined wr) of
        Inl e \<Rightarrow> Err e
      | Inr _ \<Rightarrow> (case executor of Inl e \<Rightarrow> Err (SeStart e) | Inr _ \<Rightarrow> Ok ()))"

subsection \<open>The worker of a shard\<close>

definition worker_begin :: "sitas_error + unit \<Rightarrow> nat \<Rightarrow> 'm WorkerRuntime \<Rightarrow> 'm WorkerRuntime" where
  "worker_begin access i wr =
     (case wr_tasks wr ! i of
        WtSpawned \<Rightarrow>
          (case access of
             Inl e \<Rightarrow> set_task i (WtFinished (Err (SeWorkerAccess e))) wr
           | Inr _ \<Rightarrow>
               if wr_receivers wr ! i then set_task i (WtRunning IngestWorkerSummary_default) (set_receiver i False wr)
               else set_task i (WtFinished (Err SeWorkersRunning)) wr)
      | _ \<Rightarrow> wr)"

text \<open>After the loop: the receiver goes back to the shard's state.\<close>

definition worker_break :: "sitas_error + unit \<Rightarrow> nat \<Rightarrow> 'm WorkerRuntime \<Rightarrow> 'm WorkerRuntime" where
  "worker_break access i wr =
     (case wr_tasks wr ! i of
        WtRunning summary \<Rightarrow>
          (case access of
             Inl e \<Rightarrow> set_task i (WtFinished (Err (SeWorkerAccess e))) wr
           | Inr _ \<Rightarrow> set_task i (WtFinished (Ok summary)) (set_receiver i True wr))
      | _ \<Rightarrow> wr)"

definition count_outcome :: "IngestError + IngestOutcome \<Rightarrow> IngestWorkerSummary \<Rightarrow> IngestWorkerSummary" where
  "count_outcome r summary =
     (case r of
        Inr IoAccepted \<Rightarrow> summary\<lparr>iw_accepted := iw_accepted summary + 1\<rparr>
      | Inr IoDuplicate \<Rightarrow> summary\<lparr>iw_duplicates := iw_duplicates summary + 1\<rparr>
      | Inl _ \<Rightarrow> summary\<lparr>iw_failed := iw_failed summary + 1\<rparr>)"

definition worker_receive ::
  "'m mailbox_ops \<Rightarrow> sitas_error + unit \<Rightarrow> nat \<Rightarrow> 'm WorkerRuntime \<Rightarrow> 'm WorkerRuntime" where
  "worker_receive mb access i wr =
     (case wr_tasks wr ! i of
        WtRunning summary \<Rightarrow>
          let rt = wr_runtime wr in
          (case mb_try_recv mb (st_mailboxes rt ! i) of
             (box, Inr event) \<Rightarrow>
               let rt = rt\<lparr>st_mailboxes := (st_mailboxes rt)[i := box]\<rparr>;
                   summary = summary\<lparr>iw_attempted := iw_attempted summary + 1\<rparr>
               in (case access of
                     Inl e \<Rightarrow> set_task i (WtFinished (Err (SeWorkerAccess e))) (wr\<lparr>wr_runtime := rt\<rparr>)
                   | Inr _ \<Rightarrow>
                       (case HotIndex_ingest event (st_indexes rt ! i) of
                          (ix, outcome) \<Rightarrow>
                            set_task i (WtRunning (count_outcome outcome summary))
                              (wr\<lparr>wr_runtime := rt\<lparr>st_indexes := (st_indexes rt)[i := ix]\<rparr>\<rparr>)))
           | (box, Inl RecvClosed) \<Rightarrow> worker_break access i wr
           | (box, Inl RecvEmpty) \<Rightarrow> wr)
      | _ \<Rightarrow> wr)"

definition worker_stopped :: "sitas_error + unit \<Rightarrow> nat \<Rightarrow> 'm WorkerRuntime \<Rightarrow> 'm WorkerRuntime" where
  "worker_stopped access i wr = (if wr_stop wr then worker_break access i wr else wr)"

subsection \<open>Draining and submitting beside the workers\<close>

definition worker_submit ::
  "'m mailbox_ops \<Rightarrow> PipelineEvent \<Rightarrow> 'm WorkerRuntime \<Rightarrow> 'm WorkerRuntime \<times> (SitasRuntimeError + QueuedIngestOutcome)" where
  "worker_submit mb event wr =
     (case sitas_try_submit mb event (wr_runtime wr) of (rt, r) \<Rightarrow> (wr\<lparr>wr_runtime := rt\<rparr>, r))"

text \<open>
  \<open>submit\<close> waits while the mailbox of the shard is full: it has no result in such a state and sends in a
  later one, when a worker or a drain has made room.
\<close>

definition worker_send ::
  "'m mailbox_ops \<Rightarrow> PipelineEvent \<Rightarrow> 'm WorkerRuntime \<Rightarrow>
     ('m WorkerRuntime \<times> (SitasRuntimeError + QueuedIngestOutcome)) option" where
  "worker_send mb event wr =
     (case PipelineEvent_validate event of
        Inl e \<Rightarrow> Some (wr, Err (SeIngest e))
      | Inr _ \<Rightarrow>
          let rt = wr_runtime wr;
              shard_id = sitas_shard_for rt (pe_process_instance_id event);
              shards = length (st_mailboxes rt)
          in (case mb_sender_to mb shards shard_id of
                Inl e \<Rightarrow> Some (wr, Err (SeAddressMailbox e))
              | Inr _ \<Rightarrow>
                  (case mb_try_send mb (st_mailboxes rt ! shard_id) event of
                     (box, Inl SendFull) \<Rightarrow> None
                   | (box, Inl SendClosed) \<Rightarrow>
                       Some (wr\<lparr>wr_runtime := rt\<lparr>st_mailboxes := (st_mailboxes rt)[shard_id := box]\<rparr>\<rparr>, Err (SeMailboxClosed shard_id))
                   | (box, Inr _) \<Rightarrow>
                       Some (wr\<lparr>wr_runtime := rt\<lparr>st_mailboxes := (st_mailboxes rt)[shard_id := box]\<rparr>\<rparr>,
                         (case mb_snapshot mb shards shard_id of
                            Inl e \<Rightarrow> Err (SeAddressMailbox e)
                          | Inr _ \<Rightarrow>
                              Ok \<lparr>qo_shard_id = shard_id, qo_queued_depth = mb_len mb box, qo_capacity = mb_capacity mb box\<rparr>)))))"

text \<open>A drain is refused while the receiver of the shard is taken.\<close>

definition worker_drain_shard ::
  "'m mailbox_ops \<Rightarrow> exec_call \<Rightarrow> LogicalShardId \<Rightarrow> nat \<Rightarrow> 'm WorkerRuntime \<Rightarrow>
     'm WorkerRuntime \<times> (SitasRuntimeError + IngestDrainSummary)" where
  "worker_drain_shard mb call shard_id max_events wr =
     (let rt = wr_runtime wr in
      case sitas_drain_shard mb call shard_id max_events (rt\<lparr>st_workers := \<not> wr_receivers wr ! shard_id\<rparr>) of
        (rt', r) \<Rightarrow> (wr\<lparr>wr_runtime := rt'\<lparr>st_workers := st_workers rt\<rparr>\<rparr>, r))"

fun sitas_drain_shards ::
  "'m mailbox_ops \<Rightarrow> (nat \<Rightarrow> exec_call) \<Rightarrow> nat \<Rightarrow> LogicalShardId list \<Rightarrow> 'm WorkerRuntime \<Rightarrow>
     'm WorkerRuntime \<times> (SitasRuntimeError + IngestDrainSummary list)" where
  "sitas_drain_shards mb calls max_events [] wr = (wr, Ok [])"
| "sitas_drain_shards mb calls max_events (idx # idxs) wr =
     (case worker_drain_shard mb (calls idx) idx max_events wr of
        (wr, Inl e) \<Rightarrow> (wr, Err e)
      | (wr, Inr summary) \<Rightarrow>
          (case sitas_drain_shards mb calls max_events idxs wr of
             (wr, r) \<Rightarrow> (wr, res_bind r (\<lambda>ss. Ok (summary # ss)))))"

definition sitas_drain_all ::
  "'m mailbox_ops \<Rightarrow> (nat \<Rightarrow> exec_call) \<Rightarrow> nat \<Rightarrow> 'm WorkerRuntime \<Rightarrow>
     'm WorkerRuntime \<times> (SitasRuntimeError + IngestDrainSummary list)" where
  "sitas_drain_all mb calls max_events wr =
     sitas_drain_shards mb calls max_events [0..<length (st_indexes (wr_runtime wr))] wr"

subsection \<open>Histories\<close>

text \<open>
  \<open>worker_run mb cap n wr subs got\<close>: a history of a runtime with \<open>n\<close> shards of capacity \<open>cap\<close> in which the
  submissions \<open>subs\<close> were accepted, in this order, and every step found the state of its shard; \<open>got\<close> are
  the events that the mailbox of each shard handed to the worker that was started last.
\<close>

definition handed :: "'m mailbox_ops \<Rightarrow> nat \<Rightarrow> 'm WorkerRuntime \<Rightarrow> PipelineEvent list" where
  "handed mb i wr =
     (case wr_tasks wr ! i of
        WtRunning _ \<Rightarrow> (case mb_try_recv mb (st_mailboxes (wr_runtime wr) ! i) of (_, Inr e) \<Rightarrow> [e] | _ \<Rightarrow> [])
      | _ \<Rightarrow> [])"

inductive worker_run ::
  "'m mailbox_ops \<Rightarrow> nat \<Rightarrow> nat \<Rightarrow> 'm WorkerRuntime \<Rightarrow> PipelineEvent list \<Rightarrow> PipelineEvent list list \<Rightarrow> bool"
  for mb cap n where
  run_created: "WorkerRuntime_start mb (Ok ()) (Ok ()) (SitasRuntimeConfig_new n cap) = Ok wr \<Longrightarrow>
    worker_run mb cap n wr [] (replicate n [])"
| run_accepted: "worker_run mb cap n wr subs got \<Longrightarrow> worker_submit mb e wr = (wr', Inr out) \<Longrightarrow>
    worker_run mb cap n wr' (subs @ [e]) got"
| run_refused: "worker_run mb cap n wr subs got \<Longrightarrow> worker_submit mb e wr = (wr', Inl err) \<Longrightarrow> worker_run mb cap n wr' subs got"
| run_sent: "worker_run mb cap n wr subs got \<Longrightarrow> worker_send mb e wr = Some (wr', Inr out) \<Longrightarrow>
    worker_run mb cap n wr' (subs @ [e]) got"
| run_not_sent: "worker_run mb cap n wr subs got \<Longrightarrow> worker_send mb e wr = Some (wr', Inl err) \<Longrightarrow> worker_run mb cap n wr' subs got"
| run_drained: "worker_run mb cap n wr subs got \<Longrightarrow> worker_drain_shard mb CallCompletes i m wr = (wr', r) \<Longrightarrow>
    worker_run mb cap n wr' subs got"
| run_workers: "worker_run mb cap n wr subs got \<Longrightarrow> start_mailbox_workers spawned wr = (wr', r) \<Longrightarrow>
    worker_run mb cap n wr' subs (case r of Inl _ \<Rightarrow> got | Inr _ \<Rightarrow> replicate n [])"
| run_begun: "worker_run mb cap n wr subs got \<Longrightarrow> i < length (wr_tasks wr) \<Longrightarrow>
    worker_run mb cap n (worker_begin (Ok ()) i wr) subs got"
| run_received: "worker_run mb cap n wr subs got \<Longrightarrow> i < length (wr_tasks wr) \<Longrightarrow>
    worker_run mb cap n (worker_receive mb (Ok ()) i wr) subs (got[i := got ! i @ handed mb i wr])"
| run_stopped: "worker_run mb cap n wr subs got \<Longrightarrow> i < length (wr_tasks wr) \<Longrightarrow>
    worker_run mb cap n (worker_stopped (Ok ()) i wr) subs got"
| run_stop: "worker_run mb cap n wr subs got \<Longrightarrow> worker_run mb cap n (request_stop wr) subs got"
| run_joined: "worker_run mb cap n wr subs got \<Longrightarrow> list_all finished (wr_tasks wr) \<Longrightarrow> join_workers joined wr = (wr', r) \<Longrightarrow>
    worker_run mb cap n wr' subs got"

subsection \<open>Workers and the bounded runtime\<close>

abbreviation idle :: "'m SitasShardRuntime \<Rightarrow> 'm SitasShardRuntime" where
  "idle rt \<equiv> rt\<lparr>st_workers := False\<rparr>"

text \<open>No worker has returned with an error.\<close>

fun task_ok :: "worker_task \<Rightarrow> bool" where
  "task_ok (WtFinished r) \<longleftrightarrow> (case r of Inl _ \<Rightarrow> False | Inr _ \<Rightarrow> True)"
| "task_ok _ \<longleftrightarrow> True"

fun running :: "worker_task \<Rightarrow> bool" where
  "running (WtRunning _) = True"
| "running _ = False"

definition worker_inv :: "nat \<Rightarrow> 'm WorkerRuntime \<Rightarrow> bool" where
  "worker_inv n wr \<longleftrightarrow>
     length (wr_receivers wr) = n \<and> length (st_indexes (wr_runtime wr)) = n \<and>
     length (wr_tasks wr) = (if st_workers (wr_runtime wr) then n else 0) \<and> list_all task_ok (wr_tasks wr) \<and>
     (\<forall>i < n. wr_receivers wr ! i \<longleftrightarrow> \<not> (i < length (wr_tasks wr) \<and> running (wr_tasks wr ! i)))"

lemma idle_submit:
  "sitas_try_submit mb e (idle rt) = (idle (fst (sitas_try_submit mb e rt)), snd (sitas_try_submit mb e rt))"
  by (simp add: sitas_try_submit_def sitas_shard_for_def Let_def split: sum.split prod.split ShardSendError.split)

lemma submit_with_room: "worker_send mb e wr = Some x \<Longrightarrow> worker_submit mb e wr = x"
  by (auto simp: worker_send_def worker_submit_def sitas_try_submit_def Let_def
      split: sum.splits prod.splits ShardSendError.splits)

lemma submit_keeps:
  "length (st_indexes (fst (sitas_try_submit mb e rt))) = length (st_indexes rt)"
  "st_workers (fst (sitas_try_submit mb e rt)) = st_workers rt"
  by (simp_all add: sitas_try_submit_def Let_def split: sum.split prod.split ShardSendError.split)

lemma drain_keeps: "length (st_indexes (fst (sitas_drain_shard mb call i m rt))) = length (st_indexes rt)"
  by (simp add: sitas_drain_shard_def Let_def split: exec_call.split prod.split)

lemma drain_refused: "st_workers rt \<Longrightarrow> fst (sitas_drain_shard mb CallCompletes i m rt) = rt"
  by (simp add: sitas_drain_shard_def split: prod.split)

lemma worker_drain_idle:
  "worker_drain_shard mb CallCompletes i m wr = (wr', r) \<Longrightarrow> i < length (st_indexes (wr_runtime wr)) \<Longrightarrow>
    idle (wr_runtime wr') = (if wr_receivers wr ! i then idle (fst (sitas_drain_shard mb CallCompletes i m (idle (wr_runtime wr))))
      else idle (wr_runtime wr))"
  by (auto simp: worker_drain_shard_def Let_def drain_refused split: prod.splits dest!: arg_cong [where f = fst])

text \<open>A worker that receives an event does what a manual drain of one event would do.\<close>

lemma worker_receive_idle:
  assumes "wr_tasks wr ! i = WtRunning s" "mb_try_recv mb (st_mailboxes (wr_runtime wr) ! i) = (box, Inr e)"
    "i < length (st_indexes (wr_runtime wr))"
  shows "idle (wr_runtime (worker_receive mb (Inr ()) i wr)) = fst (sitas_drain_shard mb CallCompletes i 1 (idle (wr_runtime wr)))"
  using assms
  by (simp add: worker_receive_def sitas_drain_shard_def Let_def set_task_def split: prod.splits sum.splits IngestOutcome.splits)

definition worker_sim ::
  "'m mailbox_ops \<Rightarrow> ('m \<Rightarrow> PipelineEvent list) \<Rightarrow> nat \<Rightarrow> nat \<Rightarrow> 'm WorkerRuntime \<Rightarrow> PipelineEvent list \<Rightarrow> bool" where
  "worker_sim mb q cap n wr subs \<longleftrightarrow> worker_inv n wr \<and> (\<exists>bi. bi_run cap n bi subs \<and> sitas_rel mb q (idle (wr_runtime wr)) bi)"

lemma worker_simI: "worker_inv n wr \<Longrightarrow> bi_run cap n bi subs \<Longrightarrow> sitas_rel mb q (idle (wr_runtime wr)) bi \<Longrightarrow> worker_sim mb q cap n wr subs"
  unfolding worker_sim_def by blast

lemma sim_submit:
  assumes "mailbox_fifo mb q" "worker_sim mb q cap n wr subs" "worker_submit mb e wr = (wr', r)"
  shows "worker_sim mb q cap n wr' (case r of Inr _ \<Rightarrow> subs @ [e] | Inl _ \<Rightarrow> subs)"
proof -
  from assms(2) obtain bi where inv: "worker_inv n wr" and bi: "bi_run cap n bi subs" "sitas_rel mb q (idle (wr_runtime wr)) bi"
    unfolding worker_sim_def by blast
  have wr': "wr' = wr\<lparr>wr_runtime := fst (sitas_try_submit mb e (wr_runtime wr))\<rparr>" "r = snd (sitas_try_submit mb e (wr_runtime wr))"
    using assms(3) by (auto simp: worker_submit_def split: prod.splits)
  obtain bi' r' where b: "bi_submit e bi = (bi', r')" by (metis prod.collapse)
  have sim: "sitas_rel mb q (idle (wr_runtime wr')) bi'" "r = map_err to_sitas_error r'"
    using sitas_submit_sim [OF assms(1) bi(2) bi_run_bounded [OF bi(1)], of e] b wr' by (simp_all add: idle_submit)
  have "worker_inv n wr'" using inv wr'(1) by (simp add: worker_inv_def submit_keeps)
  moreover have "bi_run cap n bi' (case r of Inr _ \<Rightarrow> subs @ [e] | Inl _ \<Rightarrow> subs)"
    using b bi(1) sim(2) by (cases r') (auto intro: bi_run.intros)
  ultimately show ?thesis using sim(1) by (intro worker_simI)
qed

lemma sim_drained:
  assumes "mailbox_fifo mb q" "bi_run cap n bi subs" "sitas_rel mb q rt bi"
  obtains bi' where "bi_run cap n bi' subs" "sitas_rel mb q (fst (sitas_drain_shard mb CallCompletes i m rt)) bi'"
proof -
  obtain bi' r' where "drain_shard i m bi = (bi', r')" by (metis prod.collapse)
  with sitas_drain_sim [OF assms(1,3) bi_run_bounded [OF assms(2)], of i m] assms(2) show ?thesis
    by (intro that [of bi']) (auto intro: bi_run.intros)
qed

lemma sim_drain:
  assumes "mailbox_fifo mb q" "worker_sim mb q cap n wr subs" "worker_drain_shard mb CallCompletes i m wr = (wr', r)"
  shows "worker_sim mb q cap n wr' subs"
proof -
  from assms(2) obtain bi where inv: "worker_inv n wr" and bi: "bi_run cap n bi subs" "sitas_rel mb q (idle (wr_runtime wr)) bi"
    unfolding worker_sim_def by blast
  let ?rt = "(wr_runtime wr)\<lparr>st_workers := \<not> wr_receivers wr ! i\<rparr>"
  let ?d = "fst (sitas_drain_shard mb CallCompletes i m ?rt)"
  have wr': "wr' = wr\<lparr>wr_runtime := ?d\<lparr>st_workers := st_workers (wr_runtime wr)\<rparr>\<rparr>"
    using assms(3) by (auto simp: worker_drain_shard_def Let_def split: prod.splits)
  have "worker_inv n wr'" using inv wr' by (simp add: worker_inv_def drain_keeps)
  moreover obtain bi' where bi': "bi_run cap n bi' subs" "sitas_rel mb q (fst (sitas_drain_shard mb CallCompletes i m (idle (wr_runtime wr)))) bi'"
    by (rule sim_drained [OF assms(1) bi])
  have "sitas_rel mb q (idle (wr_runtime wr')) (if wr_receivers wr ! i then bi' else bi)"
  proof (cases "wr_receivers wr ! i")
    case True
    then have "?rt = idle (wr_runtime wr)" by simp
    moreover have "\<not> st_workers (fst (sitas_drain_shard mb CallCompletes i m (idle (wr_runtime wr))))"
      using bi'(2) by (simp add: sitas_rel_def)
    ultimately show ?thesis using bi'(2) wr' True by (simp add: sitas_rel_def)
  next
    case False
    then show ?thesis using bi(2) wr' by (simp add: drain_refused sitas_rel_def)
  qed
  ultimately show ?thesis using bi(1) bi'(1) by (intro worker_simI [of n wr' cap "if wr_receivers wr ! i then bi' else bi"]) simp_all
qed

text \<open>Steps of a worker that leave indexes and mailboxes alone.\<close>

lemma inv_step:
  assumes "worker_inv n wr" "i < length (wr_tasks wr)" "task_ok t" "b \<longleftrightarrow> \<not> running t"
  shows "worker_inv n (set_task i t (set_receiver i b wr))"
  using assms
  by (auto simp: worker_inv_def set_task_def set_receiver_def nth_list_update list_all_update split: if_splits)

lemma set_receiver_same: "worker_inv n wr \<Longrightarrow> i < length (wr_tasks wr) \<Longrightarrow> set_receiver i (\<not> running (wr_tasks wr ! i)) wr = wr"
proof -
  assume "worker_inv n wr" "i < length (wr_tasks wr)"
  then have "wr_receivers wr ! i = (\<not> running (wr_tasks wr ! i))" by (auto simp: worker_inv_def split: if_splits)
  then have "(wr_receivers wr)[i := \<not> running (wr_tasks wr ! i)] = wr_receivers wr"
    by (subst \<open>_ = _\<close> [symmetric]) (rule list_update_id)
  then show ?thesis by (simp add: set_receiver_def)
qed

lemma worker_sim_frame:
  assumes "worker_sim mb q cap n wr subs" "worker_inv n wr'" "idle (wr_runtime wr') = idle (wr_runtime wr)"
  shows "worker_sim mb q cap n wr' subs"
  using assms unfolding worker_sim_def by simp

lemma task_okD: "worker_inv n wr \<Longrightarrow> i < length (wr_tasks wr) \<Longrightarrow> task_ok (wr_tasks wr ! i)"
  by (simp add: worker_inv_def list_all_length)

lemma inv_begin: "worker_inv n wr \<Longrightarrow> i < length (wr_tasks wr) \<Longrightarrow> worker_inv n (worker_begin (Inr ()) i wr)"
  using inv_step [of n wr i "WtRunning IngestWorkerSummary_default" False]
  by (auto simp: worker_begin_def worker_inv_def split: worker_task.split if_splits)

lemma inv_break:
  assumes "worker_inv n wr" "i < length (wr_tasks wr)"
  shows "worker_inv n (worker_break (Inr ()) i wr)"
proof (cases "wr_tasks wr ! i")
  case (WtRunning s)
  with task_okD [OF assms] inv_step [OF assms, of "WtFinished (Inr s)" True] show ?thesis by (simp add: worker_break_def)
qed (use assms in \<open>simp_all add: worker_break_def\<close>)

lemma runtime_begin_break [simp]:
  "wr_runtime (worker_begin a i wr) = wr_runtime wr" "wr_runtime (worker_break a i wr) = wr_runtime wr"
  by (simp_all add: worker_begin_def worker_break_def set_task_def set_receiver_def split: worker_task.split sum.split)

lemma sim_receive:
  assumes "mailbox_fifo mb q" "worker_sim mb q cap n wr subs" "i < length (wr_tasks wr)"
  shows "worker_sim mb q cap n (worker_receive mb (Inr ()) i wr) subs"
proof -
  from assms(2) obtain bi where inv: "worker_inv n wr" and bi: "bi_run cap n bi subs" "sitas_rel mb q (idle (wr_runtime wr)) bi"
    unfolding worker_sim_def by blast
  obtain box res where r: "mb_try_recv mb (st_mailboxes (wr_runtime wr) ! i) = (box, res)" by (metis prod.collapse)
  have i: "i < n" "i < length (st_indexes (wr_runtime wr))" using inv assms(3) by (auto simp: worker_inv_def split: if_splits)
  consider s e where "wr_tasks wr ! i = WtRunning s" "res = Inr e" | "worker_receive mb (Inr ()) i wr \<in> {wr, worker_break (Inr ()) i wr}"
    using r by (cases "wr_tasks wr ! i"; cases res) (auto simp: worker_receive_def split: ShardRecvError.split)
  then show ?thesis
  proof cases
    case 1
    let ?wr = "worker_receive mb (Inr ()) i wr"
    have "worker_inv n ?wr"
    proof -
      let ?s = "count_outcome (snd (HotIndex_ingest e (st_indexes (wr_runtime wr) ! i))) (s\<lparr>iw_attempted := iw_attempted s + 1\<rparr>)"
      have "worker_inv n (set_task i (WtRunning ?s) (set_receiver i False wr))" by (rule inv_step [OF inv assms(3)]) simp_all
      moreover have "set_receiver i False wr = wr" using set_receiver_same [OF inv assms(3)] 1(1) by simp
      moreover have "wr_tasks ?wr = wr_tasks (set_task i (WtRunning ?s) wr)" "wr_receivers ?wr = wr_receivers wr"
        "st_workers (wr_runtime ?wr) = st_workers (wr_runtime wr)" "length (st_indexes (wr_runtime ?wr)) = length (st_indexes (wr_runtime wr))"
        using 1 r by (simp_all add: worker_receive_def Let_def set_task_def split: prod.split)
      ultimately show ?thesis by (simp add: worker_inv_def set_task_def)
    qed
    moreover obtain bi' where "bi_run cap n bi' subs" "sitas_rel mb q (fst (sitas_drain_shard mb CallCompletes i 1 (idle (wr_runtime wr)))) bi'"
      by (rule sim_drained [OF assms(1) bi])
    ultimately show ?thesis using worker_receive_idle [of wr i s mb box e] 1 r i(2) by (intro worker_simI) simp_all
  next
    case 2
    with worker_sim_frame [OF assms(2) inv_break [OF inv assms(3)]] assms(2) show ?thesis by auto
  qed
qed

lemma inv_join:
  assumes "worker_inv n wr" "list_all finished (wr_tasks wr)" "join_workers joined wr = (wr', r)"
  shows "worker_inv n wr'"
proof -
  have "\<not> running (wr_tasks wr ! i)" if "i < length (wr_tasks wr)" for i
    using assms(2) that by (cases "wr_tasks wr ! i") (auto simp: list_all_length)
  with assms(1,3) show ?thesis by (auto simp: join_workers_def worker_inv_def split: if_splits)
qed

lemma worker_run_sim:
  assumes "mailbox_fifo mb q" "worker_run mb cap n wr subs got"
  shows "worker_sim mb q cap n wr subs"
  using assms(2)
proof (induction rule: worker_run.induct)
  case (run_created wr)
  then obtain rt where rt: "SitasShardRuntime_start mb (Inr ()) (Inr ()) (SitasRuntimeConfig_new n cap) = Inr rt"
    and wr: "wr = \<lparr>wr_runtime = rt, wr_receivers = replicate n True, wr_tasks = [], wr_stop = False\<rparr>"
    by (auto simp: WorkerRuntime_start_def SitasRuntimeConfig_new_def)
  from sitas_rel_start [OF assms(1) rt] obtain bi where bi: "BoundedIngestRuntime_new n cap = Inr bi" "sitas_rel mb q rt bi"
    by (auto simp: SitasRuntimeConfig_new_def)
  have "length (st_indexes rt) = n" "\<not> st_workers rt"
    using rt by (auto simp: SitasShardRuntime_start_def SitasRuntimeConfig_new_def split: if_splits)
  with wr bi show ?case by (intro worker_simI [OF _ bi_run.bi_created]) (auto simp: worker_inv_def sitas_rel_def)
next
  case (run_accepted wr subs got e wr' out)
  then show ?case using sim_submit [OF assms(1) run_accepted.IH run_accepted.hyps(2)] by simp
next
  case (run_refused wr subs got e wr' err)
  then show ?case using sim_submit [OF assms(1) run_refused.IH run_refused.hyps(2)] by simp
next
  case (run_sent wr subs got e wr' out)
  then show ?case using sim_submit [OF assms(1) run_sent.IH submit_with_room [OF run_sent.hyps(2)]] by simp
next
  case (run_not_sent wr subs got e wr' err)
  then show ?case using sim_submit [OF assms(1) run_not_sent.IH submit_with_room [OF run_not_sent.hyps(2)]] by simp
next
  case run_drained
  then show ?case using sim_drain [OF assms(1)] by blast
next
  case (run_workers wr subs got spawned wr' r)
  then have "worker_inv n wr'" "idle (wr_runtime wr') = idle (wr_runtime wr)"
    by (auto simp: worker_sim_def worker_inv_def start_mailbox_workers_def list_all_iff split: sum.splits if_splits)
  with run_workers.IH show ?case by (rule worker_sim_frame)
next
  case (run_begun wr subs got i)
  then have "worker_inv n (worker_begin (Inr ()) i wr)" by (simp add: worker_sim_def inv_begin)
  with run_begun.IH show ?case by (rule worker_sim_frame) simp
next
  case run_received
  then show ?case using sim_receive [OF assms(1)] by blast
next
  case (run_stopped wr subs got i)
  then have "worker_inv n (worker_stopped (Inr ()) i wr)" by (simp add: worker_sim_def worker_stopped_def inv_break)
  with run_stopped.IH show ?case by (rule worker_sim_frame) (simp add: worker_stopped_def)
next
  case (run_stop wr subs got)
  then have "worker_inv n (request_stop wr)" by (auto simp: worker_sim_def worker_inv_def request_stop_def)
  with run_stop.IH show ?case by (rule worker_sim_frame) (simp add: request_stop_def)
next
  case (run_joined wr subs got joined wr' r)
  then have "worker_inv n wr'" using inv_join by (auto simp: worker_sim_def)
  with run_joined.IH show ?case
    by (rule worker_sim_frame) (use run_joined.hyps(3) in \<open>auto simp: join_workers_def split: if_splits\<close>)
qed

subsection \<open>What the summaries count\<close>

text \<open>The summary of a worker that was handed \<open>es\<close> by a shard that had ingested \<open>d\<close> before.\<close>

definition summary_of :: "PipelineEvent list \<Rightarrow> PipelineEvent list \<Rightarrow> IngestWorkerSummary" where
  "summary_of d es =
     (let new = length (log_of (d @ es)) - length (log_of d) in
      \<lparr>iw_attempted = of_nat (length es), iw_accepted = of_nat new, iw_duplicates = of_nat (length es - new), iw_failed = 0\<rparr>)"

lemma summary_of_iff:
  "s = summary_of d es \<longleftrightarrow> (let new = length (log_of (d @ es)) - length (log_of d) in
     iw_attempted s = of_nat (length es) \<and> iw_accepted s = of_nat new \<and> iw_duplicates s = of_nat (length es - new) \<and> iw_failed s = 0)"
  by (cases s) (simp add: summary_of_def Let_def)

lemma summary_of_Nil [simp]: "summary_of d [] = IngestWorkerSummary_default"
  by (simp add: summary_of_def IngestWorkerSummary_default_def)

lemma log_of_growth: "length (log_of d) \<le> length (log_of (d @ es)) \<and> length (log_of (d @ es)) \<le> length (log_of d) + length es"
  by (induction es rule: rev_induct) (auto simp: log_accept_def)

lemma summary_of_snoc:
  assumes "event_valid e"
  shows "summary_of d (es @ [e]) =
    count_outcome (snd (HotIndex_ingest e (ingest_all (d @ es) HotIndex_new)))
      ((summary_of d es)\<lparr>iw_attempted := iw_attempted (summary_of d es) + 1\<rparr>)"
proof -
  let ?old = "log_of (d @ es)"
  have log: "index_of (ingest_all (d @ es) HotIndex_new) ?old" by (rule index_of_ingest_all [OF index_of_new])
  have snoc: "log_of (d @ es @ [e]) = log_accept e ?old" by simp
  note g = log_of_growth [of d es]
  show ?thesis
  proof (cases "pe_event_id e \<in> pe_event_id ` set ?old")
    case True
    then have "length es + 1 - (length ?old - length (log_of d)) = Suc (length es - (length ?old - length (log_of d)))" using g by linarith
    with True assms snoc ingest_result [OF log, of e] show ?thesis
      by (simp add: summary_of_def Let_def log_accept_def count_outcome_def)
  next
    case False
    then have "length ?old + 1 - length (log_of d) = Suc (length ?old - length (log_of d))" using g by linarith
    with False assms snoc ingest_result [OF log, of e] show ?thesis
      by (simp add: summary_of_def Let_def log_accept_def count_outcome_def)
  qed
qed

text \<open>
  How far a shard is: what it ingested before its worker took the receiver, what the worker was handed,
  what was drained after the worker had returned, and what is still queued.
\<close>

fun task_counts :: "PipelineEvent list \<Rightarrow> PipelineEvent list \<Rightarrow> PipelineEvent list \<Rightarrow> worker_task \<Rightarrow> bool" where
  "task_counts d0 es d1 WtSpawned \<longleftrightarrow> es = []"
| "task_counts d0 es d1 (WtRunning s) \<longleftrightarrow> d1 = [] \<and> s = summary_of d0 es"
| "task_counts d0 es d1 (WtFinished r) \<longleftrightarrow> r = Ok (summary_of d0 es)"

definition worker_progress ::
  "('m \<Rightarrow> PipelineEvent list) \<Rightarrow> nat \<Rightarrow> PipelineEvent list \<Rightarrow> PipelineEvent list list \<Rightarrow> 'm WorkerRuntime \<Rightarrow> bool" where
  "worker_progress q n subs got wr \<longleftrightarrow> length got = n \<and>
     (\<forall>i < length (wr_tasks wr). \<exists>d0 d1. routed n i subs = d0 @ got ! i @ d1 @ q (st_mailboxes (wr_runtime wr) ! i) \<and>
        task_counts d0 (got ! i) d1 (wr_tasks wr ! i))"

lemma exI2: "P x y \<Longrightarrow> \<exists>x y. P x y"
  by blast

lemma simE:
  assumes "worker_sim mb q cap n wr subs"
  obtains "worker_inv n wr" "length (st_mailboxes (wr_runtime wr)) = n" "0 < n" "list_all event_valid subs"
    "\<And>i. i < n \<Longrightarrow> length (q (st_mailboxes (wr_runtime wr) ! i)) \<le> cap"
    "\<And>i. i < n \<Longrightarrow> \<exists>d. routed n i subs = d @ q (st_mailboxes (wr_runtime wr) ! i) \<and>
       st_indexes (wr_runtime wr) ! i = ingest_all d HotIndex_new"
proof -
  from assms obtain bi where inv: "worker_inv n wr" and bi: "bi_run cap n bi subs" "sitas_rel mb q (idle (wr_runtime wr)) bi"
    unfolding worker_sim_def by blast
  note b = bi_run_bounded [OF bi(1), unfolded bounded_of_def]
  have ix: "st_indexes (wr_runtime wr) = rt_shards (bi_runtime bi)" and queues: "map q (st_mailboxes (wr_runtime wr)) = bi_queues bi"
    using bi(2) by (simp_all add: sitas_rel_def)
  then have len: "length (st_mailboxes (wr_runtime wr)) = n" using b by (auto dest: arg_cong [where f = length])
  then have box: "q (st_mailboxes (wr_runtime wr) ! i) = bi_queues bi ! i" if "i < n" for i using that by (simp flip: queues)
  show thesis using that [OF inv len] b box ix by simp
qed

lemma progress_step:
  assumes "worker_progress q n subs got wr"
    and "length (wr_tasks wr') = length (wr_tasks wr)"
    and "\<And>i d0 d1. i < length (wr_tasks wr) \<Longrightarrow> routed n i subs = d0 @ got ! i @ d1 @ q (st_mailboxes (wr_runtime wr) ! i) \<Longrightarrow>
      task_counts d0 (got ! i) d1 (wr_tasks wr ! i) \<Longrightarrow>
      \<exists>d0 d1. routed n i subs' = d0 @ got' ! i @ d1 @ q (st_mailboxes (wr_runtime wr') ! i) \<and>
        task_counts d0 (got' ! i) d1 (wr_tasks wr' ! i)"
    and "length got' = length got"
  shows "worker_progress q n subs' got' wr'"
  using assms unfolding worker_progress_def by metis

lemma submit_tasks: "worker_submit mb e wr = (wr', r) \<Longrightarrow> wr_tasks wr' = wr_tasks wr"
  by (auto simp: worker_submit_def split: prod.splits)

lemma submit_boxes:
  assumes "mailbox_fifo mb q" "worker_sim mb q cap n wr subs" "worker_submit mb e wr = (wr', r)" "i < n"
  shows "q (st_mailboxes (wr_runtime wr') ! i)
    = q (st_mailboxes (wr_runtime wr) ! i) @ (if (\<exists>out. r = Inr out) \<and> event_shard n e = i then [e] else [])"
proof -
  from assms(2) have n: "length (st_mailboxes (wr_runtime wr)) = n" "length (st_indexes (wr_runtime wr)) = n" "0 < n"
    by (elim simE; simp add: worker_inv_def)+
  let ?rt = "wr_runtime wr"
  have shard: "sitas_shard_for ?rt (pe_process_instance_id e) = event_shard n e" by (simp add: sitas_shard_for_def event_shard_def n)
  have bound: "event_shard n e < n" using n(3) by (simp add: event_shard_def)
  obtain box sent where send: "mb_try_send mb (st_mailboxes ?rt ! event_shard n e) e = (box, sent)" by fastforce
  note s = mailbox_sendD [OF assms(1) send] and ok = mailbox_addressed [OF assms(1) bound]
  let ?res = "sitas_try_submit mb e ?rt"
  have "st_mailboxes (fst ?res) = (case PipelineEvent_validate e of Inr _ \<Rightarrow> (st_mailboxes ?rt)[event_shard n e := box] | Inl _ \<Rightarrow> st_mailboxes ?rt)"
    "(\<exists>out. snd ?res = Inr out) \<longleftrightarrow> (\<exists>u. PipelineEvent_validate e = Inr u) \<and> sent = Inr ()"
    using ok by (auto simp: sitas_try_submit_def shard send Let_def n(1) split: sum.split ShardSendError.split)
  moreover have "st_mailboxes (wr_runtime wr') = st_mailboxes (fst ?res)" "r = snd ?res"
    using assms(3) by (auto simp: worker_submit_def split: prod.splits)
  ultimately show ?thesis
    using s(2,3) assms(4) bound n(1)
    by (cases "event_shard n e = i"; cases "PipelineEvent_validate e"; cases "length (q (st_mailboxes ?rt ! event_shard n e)) < mb_capacity mb (st_mailboxes ?rt ! event_shard n e)") simp_all
qed

lemma progress_submit:
  assumes "mailbox_fifo mb q" "worker_sim mb q cap n wr subs" "worker_submit mb e wr = (wr', r)" "worker_progress q n subs got wr"
  shows "worker_progress q n (case r of Inr _ \<Rightarrow> subs @ [e] | Inl _ \<Rightarrow> subs) got wr'"
proof (rule progress_step [OF assms(4)])
  fix i d0 d1
  assume i: "i < length (wr_tasks wr)" and
    d: "routed n i subs = d0 @ got ! i @ d1 @ q (st_mailboxes (wr_runtime wr) ! i)" "task_counts d0 (got ! i) d1 (wr_tasks wr ! i)"
  from assms(2) i have "i < n" by (elim simE) (auto simp: worker_inv_def split: if_splits)
  with d submit_boxes [OF assms(1-3), of i] submit_tasks [OF assms(3)]
  show "\<exists>d0 d1. routed n i (case r of Inr _ \<Rightarrow> subs @ [e] | Inl _ \<Rightarrow> subs) = d0 @ got ! i @ d1 @ q (st_mailboxes (wr_runtime wr') ! i) \<and>
      task_counts d0 (got ! i) d1 (wr_tasks wr' ! i)"
    by (intro exI2 [of _ d0 d1]) (auto simp: routed_def split: sum.split)
qed (simp_all add: submit_tasks [OF assms(3)])

lemma drain_loop_drops:
  assumes "mailbox_fifo mb q" "sitas_drain_loop mb m box ix s = (box', ix', s')"
  shows "\<exists>x. q box = x @ q box'"
  using assms(2)
proof (induction m arbitrary: box ix s)
  case (Suc m)
  obtain box1 r where recv: "mb_try_recv mb box = (box1, r)" by fastforce
  note d = mailbox_recvD(2) [OF assms(1) recv]
  show ?case
  proof (cases r)
    case (Inl err)
    with Suc.prems recv d show ?thesis by auto
  next
    case (Inr e)
    obtain ix1 res where ing: "HotIndex_ingest e ix = (ix1, res)" by fastforce
    have "\<exists>s1. sitas_drain_loop mb m box1 ix1 s1 = (box', ix', s')"
      using Suc.prems recv Inr ing by (auto simp: Let_def split: sum.splits IngestOutcome.splits)
    then obtain x where "q box1 = x @ q box'" using Suc.IH by blast
    with d Inr show ?thesis by (intro exI [of _ "e # x"]) simp
  qed
qed auto

lemma drain_effect:
  assumes "mailbox_fifo mb q" "worker_drain_shard mb CallCompletes j m wr = (wr', r)"
  shows "wr_tasks wr' = wr_tasks wr \<and>
    (\<exists>x. q (st_mailboxes (wr_runtime wr) ! i) = x @ q (st_mailboxes (wr_runtime wr') ! i) \<and> (wr_receivers wr ! i \<or> x = []))"
proof -
  let ?rt = "wr_runtime wr"
  obtain box ix s where loop: "sitas_drain_loop mb m (st_mailboxes ?rt ! j) (st_indexes ?rt ! j)
      \<lparr>id_shard_id = j, id_attempted = 0, id_accepted = 0, id_duplicates = 0, id_failed = 0, id_remaining_depth = 0\<rparr> = (box, ix, s)"
    by (metis prod_cases3)
  have "wr_tasks wr' = wr_tasks wr" using assms(2) by (auto simp: worker_drain_shard_def Let_def split: prod.splits)
  moreover have "st_mailboxes (wr_runtime wr') = st_mailboxes ?rt \<or>
      wr_receivers wr ! j \<and> st_mailboxes (wr_runtime wr') = (st_mailboxes ?rt)[j := box]"
    using assms(2) loop
    by (auto simp: worker_drain_shard_def sitas_drain_shard_def Let_def split: prod.splits if_splits)
  ultimately show ?thesis
    using drain_loop_drops [OF assms(1) loop]
    by (cases "i = j"; cases "j < length (st_mailboxes ?rt)") (auto simp: list_update_beyond)
qed

lemma progress_drain:
  assumes "mailbox_fifo mb q" "worker_sim mb q cap n wr subs" "worker_drain_shard mb CallCompletes j m wr = (wr', r)"
    "worker_progress q n subs got wr"
  shows "worker_progress q n subs got wr'"
proof (rule progress_step [OF assms(4)])
  fix i d0 d1
  assume i: "i < length (wr_tasks wr)" and
    d: "routed n i subs = d0 @ got ! i @ d1 @ q (st_mailboxes (wr_runtime wr) ! i)" "task_counts d0 (got ! i) d1 (wr_tasks wr ! i)"
  obtain x where x: "q (st_mailboxes (wr_runtime wr) ! i) = x @ q (st_mailboxes (wr_runtime wr') ! i)" "wr_receivers wr ! i \<or> x = []"
    and tasks: "wr_tasks wr' = wr_tasks wr" using drain_effect [OF assms(1,3), of i] by blast
  from assms(2) i have "wr_receivers wr ! i \<longleftrightarrow> \<not> running (wr_tasks wr ! i)"
    by (elim simE) (auto simp: worker_inv_def split: if_splits)
  with d x tasks show "\<exists>d0 d1. routed n i subs = d0 @ got ! i @ d1 @ q (st_mailboxes (wr_runtime wr') ! i) \<and>
      task_counts d0 (got ! i) d1 (wr_tasks wr' ! i)"
    by (intro exI2 [of _ d0 "d1 @ x"]) (cases "wr_tasks wr ! i"; simp)
qed (use drain_effect [OF assms(1,3)] in simp_all)

lemma progress_begin:
  assumes "worker_inv n wr" "worker_progress q n subs got wr" "j < length (wr_tasks wr)"
  shows "worker_progress q n subs got (worker_begin (Inr ()) j wr)"
proof (rule progress_step [OF assms(2)])
  fix i d0 d1
  assume i: "i < length (wr_tasks wr)" and
    d: "routed n i subs = d0 @ got ! i @ d1 @ q (st_mailboxes (wr_runtime wr) ! i)" "task_counts d0 (got ! i) d1 (wr_tasks wr ! i)"
  show "\<exists>d0 d1. routed n i subs = d0 @ got ! i @ d1 @ q (st_mailboxes (wr_runtime (worker_begin (Inr ()) j wr)) ! i) \<and>
      task_counts d0 (got ! i) d1 (wr_tasks (worker_begin (Inr ()) j wr) ! i)"
  proof (cases "i = j \<and> wr_tasks wr ! i = WtSpawned")
    case True
    then have "wr_receivers wr ! i" using assms(1) i by (auto simp: worker_inv_def split: if_splits)
    with True d i show ?thesis
      by (elim conjE, intro exI2 [of _ "d0 @ d1" "[]"]) (auto simp: worker_begin_def set_task_def set_receiver_def)
  next
    case False
    then have "wr_tasks (worker_begin (Inr ()) j wr) ! i = wr_tasks wr ! i"
      by (auto simp: worker_begin_def set_task_def set_receiver_def split: worker_task.split)
    with d show ?thesis by auto
  qed
qed (simp_all add: worker_begin_def set_task_def set_receiver_def split: worker_task.split)

lemma progress_break:
  assumes "worker_progress q n subs got wr" "j < length (wr_tasks wr)"
  shows "worker_progress q n subs got (worker_break (Inr ()) j wr)"
proof (rule progress_step [OF assms(1)])
  fix i d0 d1
  assume "i < length (wr_tasks wr)" and
    "routed n i subs = d0 @ got ! i @ d1 @ q (st_mailboxes (wr_runtime wr) ! i)" "task_counts d0 (got ! i) d1 (wr_tasks wr ! i)"
  then show "\<exists>d0 d1. routed n i subs = d0 @ got ! i @ d1 @ q (st_mailboxes (wr_runtime (worker_break (Inr ()) j wr)) ! i) \<and>
      task_counts d0 (got ! i) d1 (wr_tasks (worker_break (Inr ()) j wr) ! i)"
    by (intro exI2 [of _ d0 d1]) (cases "i = j"; auto simp: worker_break_def set_task_def set_receiver_def split: worker_task.split)
qed (simp_all add: worker_break_def set_task_def set_receiver_def split: worker_task.split)

lemma routed_valid: "list_all event_valid subs \<Longrightarrow> list_all event_valid (routed n i subs)"
  by (auto simp: routed_def list_all_iff)

lemma progress_receive:
  assumes "mailbox_fifo mb q" "worker_sim mb q cap n wr subs" "worker_progress q n subs got wr" "j < length (wr_tasks wr)"
  shows "worker_progress q n subs (got[j := got ! j @ handed mb j wr]) (worker_receive mb (Inr ()) j wr)"
proof -
  obtain box res where r: "mb_try_recv mb (st_mailboxes (wr_runtime wr) ! j) = (box, res)" by (metis prod.collapse)
  note recv = mailbox_recvD(2) [OF assms(1) r]
  show ?thesis
  proof (cases "\<exists>s e. wr_tasks wr ! j = WtRunning s \<and> res = Inr e")
    case False
    then have none: "handed mb j wr = []" "worker_receive mb (Inr ()) j wr \<in> {wr, worker_break (Inr ()) j wr}"
      using r by (cases "wr_tasks wr ! j"; cases res; auto simp: handed_def worker_receive_def split: ShardRecvError.split)+
    then show ?thesis using assms(3) progress_break [OF assms(3,4)] by auto
  next
    case True
    then obtain s e where t: "wr_tasks wr ! j = WtRunning s" "res = Inr e" by blast
    have n: "length (st_mailboxes (wr_runtime wr)) = n" "j < n" "length got = n"
      using assms(2-4) by (auto simp: worker_progress_def worker_inv_def elim!: simE split: if_splits)
    let ?wr = "worker_receive mb (Inr ()) j wr"
    let ?s = "count_outcome (snd (HotIndex_ingest e (st_indexes (wr_runtime wr) ! j))) (s\<lparr>iw_attempted := iw_attempted s + 1\<rparr>)"
    have step: "wr_tasks ?wr = (wr_tasks wr)[j := WtRunning ?s]" "st_mailboxes (wr_runtime ?wr) = (st_mailboxes (wr_runtime wr))[j := box]"
      "handed mb j wr = [e]"
      using t r by (simp_all add: worker_receive_def handed_def Let_def set_task_def split: prod.split)
    have q: "q (st_mailboxes (wr_runtime wr) ! j) = e # q box" using recv t(2) by simp
    from assms(2) have "\<exists>d. routed n j subs = d @ q (st_mailboxes (wr_runtime wr) ! j) \<and> st_indexes (wr_runtime wr) ! j = ingest_all d HotIndex_new"
      and valid: "list_all event_valid subs" using n(2) by (elim simE; blast)+
    then obtain d where d: "routed n j subs = d @ e # q box" "st_indexes (wr_runtime wr) ! j = ingest_all d HotIndex_new"
      unfolding q by blast
    have "event_valid e" using routed_valid [OF valid, of n j] d(1) by simp
    show ?thesis
    proof (rule progress_step [OF assms(3)])
      fix i d0 d1
      assume i: "i < length (wr_tasks wr)" and
        d0: "routed n i subs = d0 @ got ! i @ d1 @ q (st_mailboxes (wr_runtime wr) ! i)" "task_counts d0 (got ! i) d1 (wr_tasks wr ! i)"
      show "\<exists>d0 d1. routed n i subs = d0 @ got[j := got ! j @ handed mb j wr] ! i @ d1 @ q (st_mailboxes (wr_runtime ?wr) ! i) \<and>
        task_counts d0 (got[j := got ! j @ handed mb j wr] ! i) d1 (wr_tasks ?wr ! i)"
      proof (cases "i = j")
        case False
        with d0 step show ?thesis by auto
      next
        case True
        with d0 d q t(1) have "d = d0 @ got ! j" "s = summary_of d0 (got ! j)" by auto
        with d0 True t(1) i n q step summary_of_snoc [OF \<open>event_valid e\<close>, of d0 "got ! j"] d(2) show ?thesis
          by (intro exI2 [of _ d0 "[]"]) simp
      qed
    qed (simp_all add: step)
  qed
qed

lemma worker_run_progress:
  assumes "mailbox_fifo mb q" "worker_run mb cap n wr subs got"
  shows "worker_progress q n subs got wr"
  using assms(2)
proof (induction rule: worker_run.induct)
  case (run_created wr)
  then show ?case by (auto simp: WorkerRuntime_start_def SitasRuntimeConfig_new_def worker_progress_def)
next
  case (run_accepted wr subs got e wr' out)
  then show ?case using progress_submit [OF assms(1) worker_run_sim [OF assms(1) run_accepted.hyps(1)]] by fastforce
next
  case (run_refused wr subs got e wr' err)
  then show ?case using progress_submit [OF assms(1) worker_run_sim [OF assms(1) run_refused.hyps(1)]] by fastforce
next
  case (run_sent wr subs got e wr' out)
  then show ?case using progress_submit [OF assms(1) worker_run_sim [OF assms(1) run_sent.hyps(1)]] submit_with_room by fastforce
next
  case (run_not_sent wr subs got e wr' err)
  then show ?case using progress_submit [OF assms(1) worker_run_sim [OF assms(1) run_not_sent.hyps(1)]] submit_with_room by fastforce
next
  case (run_drained wr subs got i m wr' r)
  then show ?case using progress_drain [OF assms(1) worker_run_sim [OF assms(1) run_drained.hyps(1)]] by blast
next
  case (run_workers wr subs got spawned wr' r)
  from worker_run_sim [OF assms(1) worker_run.run_workers [OF run_workers.hyps(1,2)]] have
    "\<exists>d. routed n i subs = d @ q (st_mailboxes (wr_runtime wr') ! i)" if "i < n" for i
    using that by (elim simE) blast
  moreover have "length (st_indexes (wr_runtime wr)) = n"
    using worker_run_sim [OF assms(1) run_workers.hyps(1)] by (elim simE) (simp add: worker_inv_def)
  ultimately show ?case
    using run_workers.IH run_workers.hyps(2)
    by (auto simp: start_mailbox_workers_def worker_progress_def split: if_splits sum.splits) (metis append_Nil)+
next
  case (run_begun wr subs got i)
  moreover have "worker_inv n wr" using worker_run_sim [OF assms(1) run_begun.hyps(1)] by (simp add: worker_sim_def)
  ultimately show ?case using progress_begin by blast
next
  case (run_received wr subs got i)
  then show ?case using progress_receive [OF assms(1) worker_run_sim [OF assms(1) run_received.hyps(1)]] by blast
next
  case (run_stopped wr subs got i)
  then show ?case by (auto simp: worker_stopped_def intro: progress_break)
next
  case (run_stop wr subs got)
  then show ?case by (simp add: worker_progress_def request_stop_def)
next
  case (run_joined wr subs got joined wr' r)
  then show ?case by (auto simp: worker_progress_def join_workers_def split: if_splits)
qed

subsection \<open>Nothing is lost\<close>

lemma collect_finished:
  assumes "list_all finished tasks" "list_all task_ok tasks"
  shows "\<exists>ss. collect_summaries i tasks = Inr ss \<and> map fst ss = [i..<i + length tasks] \<and>
    (\<forall>k < length tasks. tasks ! k = WtFinished (Ok (snd (ss ! k))))"
  using assms
proof (induction tasks arbitrary: i)
  case (Cons t tasks)
  from Cons.prems obtain s where t: "t = WtFinished (Inr s)" by (cases t) (auto split: sum.splits)
  from Cons.IH [of "Suc i"] Cons.prems obtain ss where
    "collect_summaries (Suc i) tasks = Inr ss" "map fst ss = [Suc i..<Suc i + length tasks]"
    "\<forall>k < length tasks. tasks ! k = WtFinished (Ok (snd (ss ! k)))" by auto
  moreover have "[i..<i + length (t # tasks)] = i # [Suc i..<Suc i + length tasks]" by (simp add: upt_conv_Cons del: upt_Suc)
  ultimately show ?case using t by (simp add: nth_Cons' del: upt_Suc)
qed simp

lemma join_finished:
  assumes "worker_inv n wr" "list_all finished (wr_tasks wr)" "st_workers (wr_runtime wr)" "join_workers (Ok ()) wr = (wr', r)"
  shows "(\<forall>i < n. wr_receivers wr' ! i) \<and> (\<exists>ss. r = Ok ss \<and> map fst ss = [0..<n] \<and>
    (\<forall>i < n. wr_tasks wr ! i = WtFinished (Ok (snd (ss ! i)))))"
proof -
  have "worker_inv n wr'" "wr_tasks wr' = []" using inv_join [OF assms(1,2,4)] assms(3,4) by (auto simp: join_workers_def)
  moreover have "length (wr_tasks wr) = n" "list_all task_ok (wr_tasks wr)" using assms(1,3) by (simp_all add: worker_inv_def)
  ultimately show ?thesis using collect_finished [OF assms(2), of 0] assms(3,4) by (auto simp: worker_inv_def join_workers_def)
qed

text \<open>
  (C34) Workers lose nothing as long as they reach the state of their shard. In every interleaving of
  submissions, completed manual drains and worker steps in which no access to a shard's state is refused
  by the library, with workers started and stopped any number of times, no mailbox exceeds its capacity;
  each shard has ingested, in order, a prefix of the accepted submissions routed to it and the rest is in
  its mailbox; its receiver is held by the worker or is in the shard's state, never both. When the
  mailboxes are empty the shards are those of a runtime that ingested all accepted submissions directly.
  Once all workers have returned, joining them puts all receivers back and gives one summary per shard,
  which counts exactly the events that the mailbox handed to this worker, a run of the shard's
  submissions: \<open>attempted\<close> is their number, \<open>accepted\<close> the number of those that are new after what the
  shard had ingested before, \<open>duplicates\<close> the others (modulo \<open>2 ^ 64\<close>), and none has failed.
\<close>

theorem workers_lose_nothing:
  fixes wr wr' :: "'m WorkerRuntime"
  assumes "mailbox_fifo mb q" "worker_run mb cap n wr subs got"
  defines "box \<equiv> \<lambda>i. q (st_mailboxes (wr_runtime wr) ! i)"
  shows "(\<forall>i < n. length (box i) \<le> cap \<and>
      (\<exists>d. routed n i subs = d @ box i \<and> st_indexes (wr_runtime wr) ! i = ingest_all d HotIndex_new) \<and>
      (wr_receivers wr ! i \<longleftrightarrow> \<not> (i < length (wr_tasks wr) \<and> running (wr_tasks wr ! i)))) \<and>
    ((\<forall>i < n. box i = []) \<longrightarrow> sharded (wr_runtime wr) = rt_ingest_all subs (runtime_of n [])) \<and>
    (list_all finished (wr_tasks wr) \<and> st_workers (wr_runtime wr) \<and> join_workers (Ok ()) wr = (wr', r) \<longrightarrow>
      (\<forall>i < n. wr_receivers wr' ! i) \<and>
      (\<exists>ss. r = Ok ss \<and> map fst ss = [0..<n] \<and>
        (\<forall>i < n. \<exists>before after. routed n i subs = before @ got ! i @ after @ box i \<and>
           (let s = snd (ss ! i); new = length (log_of (before @ got ! i)) - length (log_of before) in
            iw_attempted s = of_nat (length (got ! i)) \<and> iw_accepted s = of_nat new \<and>
            iw_duplicates s = of_nat (length (got ! i) - new) \<and> iw_failed s = 0))))"
proof -
  have sim: "worker_sim mb q cap n wr subs" by (rule worker_run_sim [OF assms(1,2)])
  then have inv: "worker_inv n wr" and n: "0 < n" and parts: "\<forall>i < n. length (box i) \<le> cap \<and>
      (\<exists>d. routed n i subs = d @ box i \<and> st_indexes (wr_runtime wr) ! i = ingest_all d HotIndex_new)"
    unfolding box_def by (elim simE; blast)+
  have "sharded (wr_runtime wr) = rt_ingest_all subs (runtime_of n [])" if "\<forall>i < n. box i = []"
  proof -
    have "st_indexes (wr_runtime wr) ! i = ingest_all (routed n i subs) HotIndex_new" if "i < n" for i
      using parts \<open>\<forall>i < n. box i = []\<close> that by force
    then have "st_indexes (wr_runtime wr) = rt_shards (runtime_of n subs)"
      using inv by (intro nth_equalityI) (simp_all add: worker_inv_def)
    then show ?thesis using rt_ingest_all_runtime_of [OF n, of subs "[]"] by (simp add: sharded_def)
  qed
  moreover have "(\<forall>i < n. wr_receivers wr' ! i) \<and> (\<exists>ss. r = Ok ss \<and> map fst ss = [0..<n] \<and>
      (\<forall>i < n. \<exists>before after. routed n i subs = before @ got ! i @ after @ box i \<and> snd (ss ! i) = summary_of before (got ! i)))"
    if j: "list_all finished (wr_tasks wr)" "st_workers (wr_runtime wr)" "join_workers (Ok ()) wr = (wr', r)"
  proof -
    obtain ss where ss: "r = Ok ss" "map fst ss = [0..<n]" "\<forall>i < n. wr_tasks wr ! i = WtFinished (Ok (snd (ss ! i)))"
      and home: "\<forall>i < n. wr_receivers wr' ! i" using join_finished [OF inv j] by blast
    have "length (wr_tasks wr) = n" using inv j(2) by (simp add: worker_inv_def)
    with worker_run_progress [OF assms(1,2)] ss(3)
    have "\<exists>before after. routed n i subs = before @ got ! i @ after @ box i \<and> snd (ss ! i) = summary_of before (got ! i)" if "i < n" for i
      using that unfolding worker_progress_def box_def by (metis task_counts.simps(3) sum.inject(2))
    with ss home show ?thesis by blast
  qed
  ultimately show ?thesis
    using parts inv unfolding worker_inv_def summary_of_iff Let_def by blast
qed

subsection \<open>Stopping terminates\<close>

definition worker_step :: "'m mailbox_ops \<Rightarrow> 'm WorkerRuntime \<Rightarrow> 'm WorkerRuntime \<Rightarrow> bool" where
  "worker_step mb wr wr' \<longleftrightarrow> wr' \<noteq> wr \<and> (\<exists>i < length (wr_tasks wr).
     wr' \<in> {worker_begin (Ok ()) i wr, worker_receive mb (Ok ()) i wr, worker_stopped (Ok ()) i wr})"

fun task_weight :: "worker_task \<Rightarrow> nat" where
  "task_weight WtSpawned = 2"
| "task_weight (WtRunning _) = 1"
| "task_weight (WtFinished _) = 0"

definition work :: "('m \<Rightarrow> PipelineEvent list) \<Rightarrow> 'm WorkerRuntime \<Rightarrow> nat" where
  "work q wr = sum_list (map task_weight (wr_tasks wr)) + sum_list (map (\<lambda>b. length (q b)) (st_mailboxes (wr_runtime wr)))"

lemma sum_list_update_less:
  "i < length xs \<Longrightarrow> f x < f (xs ! i) \<Longrightarrow> sum_list (map f (xs[i := x])) < (sum_list (map f xs) :: nat)"
  by (induction xs arbitrary: i) (auto split: nat.split)

lemma sum_list_update_same: "f x = f (xs ! i) \<Longrightarrow> sum_list (map f (xs[i := x])) = (sum_list (map f xs) :: nat)"
  by (metis list_update_id map_update)

lemma work_set_task:
  "i < length (wr_tasks wr) \<Longrightarrow> task_weight t < task_weight (wr_tasks wr ! i) \<Longrightarrow> work q (set_task i t wr) < work q wr"
  by (simp add: work_def set_task_def sum_list_update_less)

lemma work_receiver [simp]: "work q (set_receiver i b wr) = work q wr" "wr_tasks (set_receiver i b wr) = wr_tasks wr"
  by (simp_all add: work_def set_receiver_def)

lemma work_break: "i < length (wr_tasks wr) \<Longrightarrow> worker_break (Inr ()) i wr \<noteq> wr \<Longrightarrow> work q (worker_break (Inr ()) i wr) < work q wr"
  using work_set_task [of i "set_receiver i True wr"] by (auto simp: worker_break_def split: worker_task.splits)

lemma work_begin: "i < length (wr_tasks wr) \<Longrightarrow> worker_begin (Inr ()) i wr \<noteq> wr \<Longrightarrow> work q (worker_begin (Inr ()) i wr) < work q wr"
  using work_set_task [of i "set_receiver i False wr"] work_set_task [of i wr]
  by (auto simp: worker_begin_def split: worker_task.splits if_splits)

lemma work_receive:
  assumes "mailbox_fifo mb q" "i < length (wr_tasks wr)" "i < length (st_mailboxes (wr_runtime wr))"
    "worker_receive mb (Inr ()) i wr \<noteq> wr"
  shows "work q (worker_receive mb (Inr ()) i wr) < work q wr"
proof (cases "wr_tasks wr ! i")
  case (WtRunning s)
  obtain box res where r: "mb_try_recv mb (st_mailboxes (wr_runtime wr) ! i) = (box, res)" by (metis prod.collapse)
  show ?thesis
  proof (cases res)
    case (Inl err)
    then show ?thesis
      using assms(4) r WtRunning work_break [OF assms(2), of q] by (cases err) (auto simp: worker_receive_def)
  next
    case (Inr e)
    let ?wr = "worker_receive mb (Inr ()) i wr"
    have shorter: "length (q box) < length (q (st_mailboxes (wr_runtime wr) ! i))" using mailbox_recvD(2) [OF assms(1) r] Inr by simp
    have "\<exists>s'. wr_tasks ?wr = (wr_tasks wr)[i := WtRunning s']" "st_mailboxes (wr_runtime ?wr) = (st_mailboxes (wr_runtime wr))[i := box]"
      using r Inr WtRunning by (auto simp: worker_receive_def Let_def set_task_def split: prod.split)
    moreover have "sum_list (map task_weight ((wr_tasks wr)[i := WtRunning s'])) = sum_list (map task_weight (wr_tasks wr))" for s'
      using WtRunning by (intro sum_list_update_same) simp
    moreover note sum_list_update_less [OF assms(3), of "\<lambda>b. length (q b)" box]
    ultimately show ?thesis using shorter by (auto simp: work_def)
  qed
qed (use assms(4) in \<open>simp_all add: worker_receive_def\<close>)

lemma worker_step_possible:
  assumes "worker_inv n wr" "wr_stop wr" "\<not> list_all finished (wr_tasks wr)"
  shows "\<exists>wr'. worker_step mb wr wr'"
proof -
  obtain i where i: "i < length (wr_tasks wr)" "\<not> finished (wr_tasks wr ! i)" using assms(3) by (auto simp: list_all_length)
  have changed: "set_task i t (set_receiver i b wr) \<noteq> wr" if "t \<noteq> wr_tasks wr ! i" for t b
  proof
    assume "set_task i t (set_receiver i b wr) = wr"
    then have "wr_tasks (set_task i t (set_receiver i b wr)) ! i = wr_tasks wr ! i" by simp
    with that i(1) show False by (simp add: set_task_def set_receiver_def)
  qed
  show ?thesis
  proof (cases "wr_tasks wr ! i")
    case WtSpawned
    then have "wr_receivers wr ! i" using assms(1) i(1) by (auto simp: worker_inv_def split: if_splits)
    with WtSpawned changed i(1) show ?thesis
      by (intro exI [of _ "worker_begin (Inr ()) i wr"]) (auto simp: worker_step_def worker_begin_def)
  next
    case (WtRunning s)
    with changed i(1) assms(2) show ?thesis
      by (intro exI [of _ "worker_stopped (Inr ()) i wr"]) (auto simp: worker_step_def worker_stopped_def worker_break_def)
  next
    case (WtFinished r)
    with i(2) show ?thesis by simp
  qed
qed

text \<open>
  (C35) Stopping the workers terminates. In any state that a history reaches after the stop was requested,
  a step of a worker takes one event off a mailbox or brings a worker nearer its return, so the work that
  is left decreases with every step, and as long as a worker has not returned some worker can take a
  step. The wait of \<open>stop_mailbox_workers\<close> therefore ends after at most as many steps as there are queued
  events and twice as many workers, when nothing more is submitted.
\<close>

theorem worker_stop_terminates:
  assumes "mailbox_fifo mb q" "worker_run mb cap n wr subs got" "wr_stop wr"
  shows "(worker_step mb wr wr' \<longrightarrow> work q wr' < work q wr \<and> wr_stop wr' \<and> (\<exists>got'. worker_run mb cap n wr' subs got')) \<and>
    (\<not> list_all finished (wr_tasks wr) \<longrightarrow> (\<exists>wr''. worker_step mb wr wr'')) \<and>
    work q wr \<le> 2 * n + n * cap"
proof -
  from worker_run_sim [OF assms(1,2)] obtain bi where inv: "worker_inv n wr" and bi: "bi_run cap n bi subs"
    and rel: "sitas_rel mb q (idle (wr_runtime wr)) bi" unfolding worker_sim_def by blast
  have b: "bounded_of cap n bi subs" by (rule bi_run_bounded [OF bi])
  have queues: "map q (st_mailboxes (wr_runtime wr)) = bi_queues bi" using rel by (simp add: sitas_rel_def)
  then have len: "length (st_mailboxes (wr_runtime wr)) = n" using b by (auto simp: bounded_of_def dest: arg_cong [where f = length])
  have tasks: "length (wr_tasks wr) \<le> n" using inv by (simp add: worker_inv_def)
  have "work q wr' < work q wr \<and> wr_stop wr' \<and> (\<exists>got'. worker_run mb cap n wr' subs got')" if "worker_step mb wr wr'"
  proof -
    from that obtain i where i: "i < length (wr_tasks wr)" "wr' \<noteq> wr" and
      wr': "wr' \<in> {worker_begin (Inr ()) i wr, worker_receive mb (Inr ()) i wr, worker_stopped (Inr ()) i wr}"
      unfolding worker_step_def by blast
    have "wr_stop wr'"
      using wr' assms(3) by (auto simp: worker_begin_def worker_receive_def worker_stopped_def worker_break_def Let_def
          set_task_def set_receiver_def split: worker_task.split sum.split prod.split ShardRecvError.split)
    moreover have "\<exists>got'. worker_run mb cap n wr' subs got'"
      using wr' run_begun [OF assms(2) i(1)] run_received [OF assms(2) i(1)] run_stopped [OF assms(2) i(1)] by blast
    moreover have "work q wr' < work q wr"
      using wr' i assms(3) tasks len work_begin [OF i(1), of q] work_receive [OF assms(1) i(1)] work_break [OF i(1), of q]
      by (auto simp: worker_stopped_def)
    ultimately show ?thesis by simp
  qed
  moreover have "work q wr \<le> 2 * n + n * cap"
  proof -
    have "task_weight t \<le> 2" for t by (cases t) simp_all
    then have "sum_list (map task_weight (wr_tasks wr)) \<le> sum_list (map (\<lambda>_. 2) (wr_tasks wr))" by (intro sum_list_mono) simp
    moreover have "length (q (st_mailboxes (wr_runtime wr) ! i)) \<le> cap" if "i < n" for i
      using that b len by (auto simp: bounded_of_def simp flip: queues)
    then have "sum_list (map (\<lambda>b. length (q b)) (st_mailboxes (wr_runtime wr))) \<le> sum_list (map (\<lambda>_. cap) (st_mailboxes (wr_runtime wr)))"
      using len by (intro sum_list_mono) (auto simp: in_set_conv_nth)
    ultimately show ?thesis using tasks len by (simp add: work_def sum_list_triv)
  qed
  ultimately show ?thesis using worker_step_possible [OF inv assms(3)] by blast
qed

subsection \<open>A history\<close>

definition sample_workers :: "bool \<Rightarrow> bool list \<Rightarrow> worker_task list \<Rightarrow> bool \<Rightarrow> (nat \<times> PipelineEvent list) WorkerRuntime" where
  "sample_workers workers receivers tasks stop =
     \<lparr>wr_runtime = \<lparr>st_indexes = [HotIndex_new, HotIndex_new], st_mailboxes = [(4, []), (4, [])], st_workers = workers\<rparr>,
      wr_receivers = receivers, wr_tasks = tasks, wr_stop = stop\<rparr>"

lemma sample_workers_stopping: "worker_run list_mailbox 4 2 (sample_workers True [True, True] [WtSpawned, WtSpawned] True) [] [[], []]"
proof -
  have "WorkerRuntime_start list_mailbox (Ok ()) (Ok ()) (SitasRuntimeConfig_new 2 4) = Ok (sample_workers False [True, True] [] False)"
    by (simp add: WorkerRuntime_start_def SitasShardRuntime_start_def SitasRuntimeConfig_new_def sample_workers_def
        receivers_addressed [OF list_mailbox_fifo] numeral_2_eq_2) (simp add: list_mailbox_def)
  from run_workers [OF run_created [OF this], of "Inr ()"]
  have "worker_run list_mailbox 4 2 (sample_workers True [True, True] [WtSpawned, WtSpawned] False) [] [[], []]"
    by (simp add: start_mailbox_workers_def sample_workers_def numeral_2_eq_2)
  from run_stop [OF this] show ?thesis by (simp add: request_stop_def sample_workers_def)
qed

text \<open>One shard to which the same event is submitted twice; its worker is handed both copies and stopped.\<close>

definition one_shard :: "PipelineEvent list \<Rightarrow> PipelineEvent list \<Rightarrow> bool \<Rightarrow> bool \<Rightarrow> worker_task list \<Rightarrow> bool \<Rightarrow>
    (nat \<times> PipelineEvent list) WorkerRuntime" where
  "one_shard d b workers receiver tasks stop =
     \<lparr>wr_runtime = \<lparr>st_indexes = [ingest_all d HotIndex_new], st_mailboxes = [(4, b)], st_workers = workers\<rparr>,
      wr_receivers = [receiver], wr_tasks = tasks, wr_stop = stop\<rparr>"

definition sample_submission :: PipelineEvent where
  "sample_submission = sample_event ''a'' ''1'' ProcessStarted"

lemma sample_submission_valid: "event_valid sample_submission" "PipelineEvent_validate sample_submission = Inr ()"
  by (simp_all add: validate_iff sample_submission_def sample_event_def event_builder_defs event_valid_def)

lemma one_shard_steps:
  "length b < 4 \<Longrightarrow> \<exists>out. worker_submit list_mailbox sample_submission (one_shard d b False receiver [] stop)
     = (one_shard d (b @ [sample_submission]) False receiver [] stop, Inr out)"
  "worker_receive list_mailbox (Ok ()) 0 (one_shard d (e # b) workers False [WtRunning s] stop)
     = one_shard (d @ [e]) b workers False
         [WtRunning (count_outcome (snd (HotIndex_ingest e (ingest_all d HotIndex_new))) (s\<lparr>iw_attempted := iw_attempted s + 1\<rparr>))] stop"
  "handed list_mailbox 0 (one_shard d (e # b) workers False [WtRunning s] stop) = [e]"
  by (simp_all add: worker_submit_def sitas_try_submit_def sample_submission_valid sitas_shard_for_def shard_for_process_instance_def
      one_shard_def list_mailbox_def Let_def worker_receive_def handed_def set_task_def ingest_all_def split: prod.split)

lemma one_shard_history:
  "\<exists>s. worker_run list_mailbox 4 1 (one_shard [sample_submission, sample_submission] [] True True [WtFinished (Ok s)] True)
     [sample_submission, sample_submission] [[sample_submission, sample_submission]]"
proof -
  let ?e = sample_submission and ?d = IngestWorkerSummary_default
  have "WorkerRuntime_start list_mailbox (Ok ()) (Ok ()) (SitasRuntimeConfig_new 1 4) = Ok (one_shard [] [] False True [] False)"
    by (simp add: WorkerRuntime_start_def SitasShardRuntime_start_def SitasRuntimeConfig_new_def one_shard_def ingest_all_def
        list_mailbox_def)
  from run_created [OF this] have "worker_run list_mailbox 4 1 (one_shard [] [] False True [] False) [] [[]]" by simp
  with one_shard_steps(1) [of "[]"] have "worker_run list_mailbox 4 1 (one_shard [] [?e] False True [] False) [?e] [[]]"
    using run_accepted by fastforce
  with one_shard_steps(1) [of "[?e]"] have "worker_run list_mailbox 4 1 (one_shard [] [?e, ?e] False True [] False) [?e, ?e] [[]]"
    using run_accepted by fastforce
  from run_workers [OF this, of "Inr ()"]
  have "worker_run list_mailbox 4 1 (one_shard [] [?e, ?e] True True [WtSpawned] False) [?e, ?e] [[]]"
    by (simp add: start_mailbox_workers_def one_shard_def)
  from run_begun [OF this, of 0]
  have "worker_run list_mailbox 4 1 (one_shard [] [?e, ?e] True False [WtRunning ?d] False) [?e, ?e] [[]]"
    by (simp add: worker_begin_def one_shard_def set_task_def set_receiver_def)
  from run_received [OF this, of 0]
  obtain s where "worker_run list_mailbox 4 1 (one_shard [?e] [?e] True False [WtRunning s] False) [?e, ?e] [[?e]]"
    by (auto simp: one_shard_steps) (simp add: one_shard_def)
  from run_received [OF this, of 0]
  obtain s where "worker_run list_mailbox 4 1 (one_shard [?e, ?e] [] True False [WtRunning s] False) [?e, ?e] [[?e, ?e]]"
    by (auto simp: one_shard_steps) (simp add: one_shard_def)
  from run_stopped [OF run_stop [OF this], of 0] show ?thesis
    by (auto simp: worker_stopped_def request_stop_def worker_break_def one_shard_def set_task_def set_receiver_def)
qed

lemma workers_lose_nothing_witness:
  "\<exists>wr wr' s. worker_run list_mailbox 4 1 wr [sample_submission, sample_submission] [[sample_submission, sample_submission]] \<and>
     join_workers (Ok ()) wr = (wr', Ok [(0, s)]) \<and> wr_receivers wr' ! 0 \<and>
     iw_attempted s = 2 \<and> iw_accepted s = 1 \<and> iw_duplicates s = 1 \<and> iw_failed s = 0"
proof -
  let ?e = sample_submission
  obtain s where run: "worker_run list_mailbox 4 1 (one_shard [?e, ?e] [] True True [WtFinished (Ok s)] True) [?e, ?e] [[?e, ?e]]"
    using one_shard_history by blast
  let ?wr = "one_shard [?e, ?e] [] True True [WtFinished (Ok s)] True"
  obtain wr' where j: "join_workers (Ok ()) ?wr = (wr', Ok [(0, s)])" by (simp add: join_workers_def one_shard_def)
  have r: "routed 1 0 [?e, ?e] = [?e, ?e]" by (simp add: routed_def event_shard_def shard_for_process_instance_def)
  have "list_all finished (wr_tasks ?wr) \<and> st_workers (wr_runtime ?wr) \<and> join_workers (Ok ()) ?wr = (wr', Ok [(0, s)])"
    and box: "snd (st_mailboxes (wr_runtime ?wr) ! 0) = []" using j by (simp_all add: one_shard_def)
  note joined = workers_lose_nothing [OF list_mailbox_fifo run, THEN conjunct2, THEN conjunct2, rule_format, OF this(1)]
  then have home: "wr_receivers wr' ! 0" by simp
  from joined obtain before after where b: "routed 1 0 [?e, ?e] = before @ [?e, ?e] @ after"
    and c: "iw_attempted s = of_nat 2" "iw_accepted s = of_nat (length (log_of (before @ [?e, ?e])) - length (log_of before))"
      "iw_duplicates s = of_nat (2 - (length (log_of (before @ [?e, ?e])) - length (log_of before)))" "iw_failed s = 0"
    by (auto simp: box Let_def numeral_2_eq_2)
  from b r have "length (before @ [?e, ?e] @ after) = length [?e, ?e]" by metis
  then have "before = []" by simp
  then have new: "length (log_of (before @ [?e, ?e])) - length (log_of before) = 1" by (simp add: log_accept_def sample_submission_valid)
  from c run j home show ?thesis unfolding new by auto
qed

lemma worker_stop_terminates_witness:
  "\<exists>wr wr'. worker_run list_mailbox 4 2 wr [] [[], []] \<and> wr_stop wr \<and> worker_step list_mailbox wr wr' \<and> work snd wr' < work snd wr \<and> work snd wr = 4"
proof -
  let ?wr = "sample_workers True [True, True] [WtSpawned, WtSpawned] True"
  let ?wr' = "worker_begin (Ok ()) 0 ?wr"
  have stop: "wr_stop ?wr" by (simp add: sample_workers_def)
  have "wr_tasks ?wr' \<noteq> wr_tasks ?wr" by (simp add: worker_begin_def sample_workers_def set_task_def set_receiver_def)
  then have step: "worker_step list_mailbox ?wr ?wr'" by (auto simp: worker_step_def sample_workers_def)
  moreover have "work snd ?wr = 4" by (simp add: work_def sample_workers_def)
  ultimately show ?thesis
    using worker_stop_terminates [OF list_mailbox_fifo sample_workers_stopping stop, of ?wr'] sample_workers_stopping stop by blast
qed

end
