(* ===== verification/Supervisor.thy ===== *)
theory Supervisor
  imports Command_Line Node_Control Sitas_Workers
begin

text \<open>
  The start of a supervised node (\<open>src/bin/vannak.rs\<close>) and of a control-plane node
  (\<open>src/bin/vannak-node.rs\<close>): the discovery of peers, the members of the Raft group and the initialisation
  of the control plane. The output of \<open>dig\<close>, the resolution of host names and the clock are parameters.

  Initialisation is proved for any control plane that other nodes use at the same time (locale
  \<open>shared_plane\<close>), of which the mutex plane and the Raft plane are instances.
\<close>

subsection \<open>Peers\<close>

text \<open>\<open>str::lines\<close>: without the line ends; there is no last line that is empty.\<close>

definition strip_return :: "string \<Rightarrow> string" where
  "strip_return line = (case strip_suffix (CHR 0x0D) line of None \<Rightarrow> line | Some s \<Rightarrow> s)"

definition text_lines :: "string \<Rightarrow> string list" where
  "text_lines s =
     (let parts = split_char (CHR 0x0A) s
      in map strip_return (butlast parts) @ (if last parts = [] then [] else [last parts]))"

definition trim_end_dots :: "string \<Rightarrow> string" where
  "trim_end_dots s = rev (dropWhile (\<lambda>c. c = CHR ''.'') (rev s))"

definition srv_peer :: "(string \<Rightarrow> string option) \<Rightarrow> string \<Rightarrow> string \<Rightarrow> string option" where
  "srv_peer lookup my_peer_id line =
     (let parts = words line in
      if length parts \<ge> 4 then
        let port = parts ! 2;
            hostname = trim_end_dots (parts ! 3);
            peer_id = hd (split_char (CHR ''.'') hostname)
        in if peer_id = my_peer_id then None
           else map_option (\<lambda>addr. peer_id @ ''@'' @ addr) (lookup (hostname @ '':'' @ port))
      else None)"

definition srv_peers :: "(string \<Rightarrow> string option) \<Rightarrow> string \<Rightarrow> string \<Rightarrow> string list" where
  "srv_peers lookup my_peer_id stdout =
     (if trim stdout = [] then [] else List.map_filter (srv_peer lookup my_peer_id) (text_lines stdout))"

text \<open>\<open>dig service n\<close> is what the command prints at attempt \<open>n\<close>, if it succeeds.\<close>

definition resolve_dns_srv ::
  "(string \<Rightarrow> nat \<Rightarrow> string option) \<Rightarrow> (string \<Rightarrow> string option) \<Rightarrow> string \<Rightarrow> string \<Rightarrow> string list" where
  "resolve_dns_srv dig lookup service my_peer_id =
     (case find (\<lambda>peers. peers \<noteq> [])
             (map (\<lambda>attempt. case dig service attempt of None \<Rightarrow> [] | Some out \<Rightarrow> srv_peers lookup my_peer_id out) [0..<30]) of
        None \<Rightarrow> []
      | Some peers \<Rightarrow> peers)"

text \<open>\<open>SocketAddr::from_str\<close> and \<open>to_socket_addrs\<close> are parameters.\<close>

record 'a resolver =
  rs_from_str :: "string \<Rightarrow> 'a option"
  rs_to_socket_addrs :: "string \<Rightarrow> 'a list option"

definition parse_peer_spec :: "'a resolver \<Rightarrow> string \<Rightarrow> (string \<times> 'a) option" where
  "parse_peer_spec rs spec =
     (case split_once (CHR ''@'') spec of
        None \<Rightarrow> None
      | Some (id_part, addr_part) \<Rightarrow>
          (case rs_from_str rs addr_part of
             Some addr \<Rightarrow> Some (id_part, addr)
           | None \<Rightarrow>
               (case rs_to_socket_addrs rs addr_part of
                  Some (addr # _) \<Rightarrow> Some (id_part, addr)
                | _ \<Rightarrow> None)))"

text \<open>The members of the Raft group and the addresses of the peers.\<close>

definition add_peer :: "'a resolver \<Rightarrow> string \<Rightarrow> (string, 'a) btree \<times> (string \<times> 'a) list \<Rightarrow> (string, 'a) btree \<times> (string \<times> 'a) list" where
  "add_peer rs spec acc =
     (case parse_peer_spec rs spec of
        None \<Rightarrow> acc
      | Some (i, addr) \<Rightarrow>
          if bt_contains_key (fst acc) i then acc else (bt_insert i addr (fst acc), snd acc @ [(i, addr)]))"

definition raft_members :: "'a resolver \<Rightarrow> string \<times> 'a \<Rightarrow> string list \<Rightarrow> (string, 'a) btree \<times> (string \<times> 'a) list" where
  "raft_members rs me peers = fold (add_peer rs) peers (bt_empty, [me])"

text \<open>\<open>str::replace\<close> and the type of the answer to a request.\<close>

function replace_all :: "string \<Rightarrow> string \<Rightarrow> string \<Rightarrow> string" where
  "replace_all from' to s =
     (if s = [] then []
      else if from' \<noteq> [] \<and> take (length from') s = from' then to @ replace_all from' to (drop (length from') s)
      else hd s # replace_all from' to (tl s))"
  by pat_completeness auto
termination
  by (relation "measure (\<lambda>(_, _, s). length s)") auto

declare replace_all.simps [simp del]

definition response_type_for :: "string \<Rightarrow> string" where
  "response_type_for request_type =
     (if length ''Request'' \<le> length request_type \<and> drop (length request_type - length ''Request'') request_type = ''Request''
      then replace_all ''Request'' ''Response'' request_type
      else request_type @ ''Response'')"

text \<open>The arguments of a control-plane node; \<open>None\<close> is the exit with the usage text.\<close>

datatype node_command =
  NodeProbe string "16 word"
| NodeServe string "16 word" string string "string list"

definition node_port :: "string \<Rightarrow> 16 word" where
  "node_port s = (case parse_word 16 s of None \<Rightarrow> 10081 | Some port \<Rightarrow> port)"

definition node_args :: "(string \<Rightarrow> string \<Rightarrow> string list) \<Rightarrow> string list \<Rightarrow> node_command option" where
  "node_args resolve args =
     (case args of
        program # first # rest \<Rightarrow>
          if first = ''probe'' then
            (case rest of host # port # _ \<Rightarrow> Some (NodeProbe host (node_port port)) | _ \<Rightarrow> None)
          else if first = ''--srv'' then
            (case rest of
               service # host # port # peer_id # data_dir # _ \<Rightarrow>
                 Some (NodeServe host (node_port port) peer_id data_dir (resolve service peer_id))
             | _ \<Rightarrow> None)
          else
            (case rest of
               port # peer_id # data_dir # peer # peers \<Rightarrow> Some (NodeServe first (node_port port) peer_id data_dir (peer # peers))
             | _ \<Rightarrow> None)
      | _ \<Rightarrow> None)"

subsection \<open>Initialising the control plane\<close>

text \<open>
  A control plane is given by what a read and a proposal do to its state. An attempt may end with an
  error, after which the loop tries again, or panic: at \<open>unwrap\<close> of a missing placement map or at the
  first of no nodes.
\<close>

type_synonym 'q plane_read = "'q \<Rightarrow> 'q \<times> (plane_error + ClusterControlState)"
type_synonym 'q plane_propose = "ClusterControlCommand \<Rightarrow> 'q \<Rightarrow> 'q \<times> (plane_error + unit)"

datatype attempt_result = AtOk | AtErr plane_error | AtPanic

fun propose_each :: "'q plane_propose \<Rightarrow> ClusterControlCommand list \<Rightarrow> 'q \<Rightarrow> 'q \<times> (plane_error + unit)" where
  "propose_each propose [] q = (q, Ok ())"
| "propose_each propose (c # cs) q =
     (case propose c q of
        (q, Inl e) \<Rightarrow> (q, Err e)
      | (q, Inr _) \<Rightarrow> propose_each propose cs q)"

definition missing_nodes :: "NodeId list \<Rightarrow> ClusterControlState \<Rightarrow> ClusterControlCommand list" where
  "missing_nodes nodes st = map AddNode (filter (\<lambda>node. node |\<notin>| cs_nodes st) nodes)"

definition missing_placement :: "IptoPlacementMap \<Rightarrow> ClusterControlState \<Rightarrow> ClusterControlCommand list" where
  "missing_placement placement st = (if placement_map st = None then [SetIptoPlacementMap placement] else [])"

definition first_lease :: "NodeId list \<Rightarrow> IptoInstanceId \<Rightarrow> WriterLease" where
  "first_lease nodes target =
     \<lparr>wl_target = target,
      wl_holder = (case find (\<lambda>node. node = target) nodes of Some node \<Rightarrow> node | None \<Rightarrow> nodes ! 0),
      wl_epoch = 1\<rparr>"

definition missing_leases :: "NodeId list \<Rightarrow> IptoPlacementMap \<Rightarrow> ClusterControlState \<Rightarrow> ClusterControlCommand list" where
  "missing_leases nodes m st =
     map (\<lambda>target. GrantWriterLease (first_lease nodes target))
       (filter (\<lambda>target. writer_lease st target = None) (map_instances m))"

definition initialize_attempt ::
  "'q plane_read \<Rightarrow> 'q plane_propose \<Rightarrow> IptoPlacementMap \<Rightarrow> NodeId list \<Rightarrow> 'q \<Rightarrow> 'q \<times> attempt_result" where
  "initialize_attempt read propose placement nodes q =
     (case read q of
        (q, Inl e) \<Rightarrow> (q, AtErr e)
      | (q, Inr state) \<Rightarrow>
     (case propose_each propose (missing_nodes nodes state) q of
        (q, Inl e) \<Rightarrow> (q, AtErr e)
      | (q, Inr _) \<Rightarrow>
     (case propose_each propose (missing_placement placement state) q of
        (q, Inl e) \<Rightarrow> (q, AtErr e)
      | (q, Inr _) \<Rightarrow>
     (case read q of
        (q, Inl e) \<Rightarrow> (q, AtErr e)
      | (q, Inr state) \<Rightarrow>
     (case placement_map state of
        None \<Rightarrow> (q, AtPanic)
      | Some m \<Rightarrow>
          if nodes = [] \<and> missing_leases nodes m state \<noteq> [] then (q, AtPanic)
          else (case propose_each propose (missing_leases nodes m state) q of
                  (q, Inl e) \<Rightarrow> (q, AtErr e)
                | (q, Inr _) \<Rightarrow> (q, AtOk)))))))"

datatype start_result = SrReady | SrFailed "plane_error option" | SrPanicked

text \<open>The loop; \<open>attempts\<close> of its iterations start before the deadline and a stop.\<close>

fun initialize_loop ::
  "'q plane_read \<Rightarrow> 'q plane_propose \<Rightarrow> IptoPlacementMap \<Rightarrow> NodeId list \<Rightarrow> nat \<Rightarrow> plane_error option \<Rightarrow> 'q \<Rightarrow> 'q \<times> start_result" where
  "initialize_loop read propose placement nodes 0 last_error q = (q, SrFailed last_error)"
| "initialize_loop read propose placement nodes (Suc attempts) last_error q =
     (case initialize_attempt read propose placement nodes q of
        (q, AtOk) \<Rightarrow> (q, SrReady)
      | (q, AtPanic) \<Rightarrow> (q, SrPanicked)
      | (q, AtErr e) \<Rightarrow> initialize_loop read propose placement nodes attempts (Some e) q)"

definition initialize_control_plane ::
  "'q plane_read \<Rightarrow> 'q plane_propose \<Rightarrow> IptoPlacementMap \<Rightarrow> NodeId list \<Rightarrow> nat \<Rightarrow> 'q \<Rightarrow> 'q \<times> start_result" where
  "initialize_control_plane read propose placement nodes attempts q =
     initialize_loop read propose placement nodes attempts None q"

text \<open>The mutex plane of a node without Raft.\<close>

definition mutex_read :: "ControlMutex plane_read" where
  "mutex_read m = (m, ControlMutex_read m)"

subsection \<open>A shared control plane\<close>

text \<open>Commands that take nothing away.\<close>

fun lasting :: "ClusterControlCommand \<Rightarrow> bool" where
  "lasting (RemoveNode _) = False"
| "lasting _ = True"

text \<open>What a proposal is for.\<close>

fun in_effect :: "ClusterControlState \<Rightarrow> ClusterControlCommand \<Rightarrow> bool" where
  "in_effect st (AddNode n) \<longleftrightarrow> n |\<in>| cs_nodes st"
| "in_effect st (SetIptoPlacementMap _) \<longleftrightarrow> placement_map st \<noteq> None"
| "in_effect st (GrantWriterLease l) \<longleftrightarrow> writer_lease st (wl_target l) \<noteq> None"
| "in_effect st _ \<longleftrightarrow> True"

lemma bt_last_insert_some: "bt_last (bt_insert k v m) \<noteq> None"
  by (metis bt_get_insert_same bt_last_None option.distinct(1))

lemma insert_placement_some: "placement_map (fst (insert_placement_map m st)) \<noteq> None"
  using bt_last_insert_some [of "pm_epoch m" m "cs_placement_maps st"]
  by (cases "bt_last (cs_placement_maps st)") (auto simp: insert_placement_map_def placement_map_def)

lemma apply_in_effect: "snd (control_apply c st) = Inr () \<Longrightarrow> in_effect (fst (control_apply c st)) c"
  using insert_placement_some
  by (cases c) (auto simp: writer_lease_def bt_get_insert split: option.splits if_splits)

lemma apply_keeps_effect: "lasting c \<Longrightarrow> in_effect st d \<Longrightarrow> in_effect (fst (control_apply c st)) d"
proof (cases c)
  case (SetIptoPlacementMap m)
  then show "in_effect st d \<Longrightarrow> ?thesis"
    using insert_placement_some [of m st]
    by (cases d) (auto simp: insert_placement_map_def writer_lease_def split: option.splits if_splits)
qed (cases d; auto simp: Let_def writer_lease_def placement_map_def bt_get_insert split: option.splits)+

lemma run_keeps_effect: "list_all lasting cs \<Longrightarrow> in_effect st d \<Longrightarrow> in_effect (control_run cs st) d"
  unfolding control_run_def by (induction cs arbitrary: st) (auto dest: apply_keeps_effect)

lemma control_run_append: "control_run (cs @ ds) st = control_run ds (control_run cs st)"
  by (simp add: control_run_def)

lemma control_run_Cons: "control_run (c # cs) st = control_run cs (fst (control_apply c st))"
  by (simp add: control_run_def)

text \<open>\<open>grown st st'\<close>: commands that take nothing away led from \<open>st\<close> to \<open>st'\<close>.\<close>

definition grown :: "ClusterControlState \<Rightarrow> ClusterControlState \<Rightarrow> bool" where
  "grown st st' \<longleftrightarrow> (\<exists>cs. list_all lasting cs \<and> st' = control_run cs st)"

lemma grown_refl [simp]: "grown st st"
  unfolding grown_def by (intro exI [of _ "[]"]) (simp add: control_run_def)

lemma grown_trans: "grown st st1 \<Longrightarrow> grown st1 st2 \<Longrightarrow> grown st st2"
  unfolding grown_def by (metis control_run_append list_all_append)

lemma grown_apply: "lasting c \<Longrightarrow> grown st (fst (control_apply c st))"
  unfolding grown_def by (intro exI [of _ "[c]"]) (simp add: control_run_def)

lemma grown_effect: "grown st st' \<Longrightarrow> in_effect st c \<Longrightarrow> in_effect st' c"
  unfolding grown_def using run_keeps_effect by metis

text \<open>What an attempt that succeeds leaves behind; \<open>m\<close> is the placement map that it read.\<close>

definition initialized :: "NodeId list \<Rightarrow> ClusterControlState \<Rightarrow> ClusterControlState \<Rightarrow> bool" where
  "initialized nodes st st' \<longleftrightarrow>
     (\<forall>n \<in> set nodes. n |\<in>| cs_nodes st') \<and>
     (\<exists>st1 m. grown st st1 \<and> grown st1 st' \<and> placement_map st1 = Some m \<and>
        (\<forall>t \<in> set (map_instances m). writer_lease st' t \<noteq> None))"

lemma initialized_before: "grown st0 st \<Longrightarrow> initialized nodes st st' \<Longrightarrow> initialized nodes st0 st'"
  unfolding initialized_def using grown_trans by blast

text \<open>
  \<open>shared_plane\<close>: other nodes may commit commands during any call. \<open>settled q\<close> says that none of those
  committed up to \<open>q\<close> removed a node. A read returns the state at some point during the call; a proposal that
  is reported as done was accepted at some point during the call.
\<close>

locale shared_plane =
  fixes read :: "'q plane_read" and propose :: "'q plane_propose"
    and state :: "'q \<Rightarrow> ClusterControlState" and settled :: "'q \<Rightarrow> bool"
  assumes read_grows: "read q = (q', s) \<Longrightarrow> settled q' \<Longrightarrow> settled q \<and> grown (state q) (state q')"
    and read_state: "read q = (q', Inr st) \<Longrightarrow> settled q' \<Longrightarrow> grown (state q) st \<and> grown st (state q')"
    and propose_grows: "propose c q = (q', r) \<Longrightarrow> command_ok c \<Longrightarrow> lasting c \<Longrightarrow> settled q' \<Longrightarrow>
      settled q \<and> grown (state q) (state q')"
    and propose_accepted: "propose c q = (q', Inr ()) \<Longrightarrow> command_ok c \<Longrightarrow> lasting c \<Longrightarrow> settled q' \<Longrightarrow>
      \<exists>st. grown (state q) st \<and> snd (control_apply c st) = Inr () \<and> grown (fst (control_apply c st)) (state q')"
begin

lemma proposed_each:
  "propose_each propose cs q = (q', r) \<Longrightarrow> list_all (\<lambda>c. command_ok c \<and> lasting c) cs \<Longrightarrow> settled q' \<Longrightarrow>
    settled q \<and> grown (state q) (state q') \<and> (r = Inr () \<longrightarrow> list_all (in_effect (state q')) cs)"
proof (induction cs arbitrary: q)
  case (Cons c cs)
  obtain q1 r1 where p: "propose c q = (q1, r1)" by (metis prod.collapse)
  show ?case
  proof (cases r1)
    case (Inl e)
    with Cons.prems p propose_grows [OF p] show ?thesis by auto
  next
    case (Inr u)
    with Cons.prems p have rest: "propose_each propose cs q1 = (q', r)" by simp
    from Cons.IH [OF this] Cons.prems have l: "settled q1" "grown (state q1) (state q')"
      "r = Inr () \<longrightarrow> list_all (in_effect (state q')) cs" by auto
    have "propose c q = (q1, Inr ())" using p Inr by simp
    from propose_accepted [OF this] Cons.prems(2) l(1) apply_in_effect [of c] grown_effect
    have "in_effect (state q1) c" by auto
    with l grown_effect [OF l(2)] propose_grows [OF p _ _ l(1)] grown_trans Cons.prems(2) show ?thesis by auto
  qed
qed simp

lemma missing_commands_ok:
  "list_all (\<lambda>c. command_ok c \<and> lasting c) (missing_nodes nodes st)"
  "placement_wf placement \<Longrightarrow> list_all (\<lambda>c. command_ok c \<and> lasting c) (missing_placement placement st)"
  "list_all (\<lambda>c. command_ok c \<and> lasting c) (missing_leases nodes m st)"
  by (simp_all add: missing_nodes_def missing_placement_def missing_leases_def command_ok_def list_all_iff)

lemma attempt_grows:
  assumes "initialize_attempt read propose placement nodes q = (q', r)" "placement_wf placement" "settled q'"
  shows "settled q \<and> grown (state q) (state q')"
  using assms(1,3) missing_commands_ok(1) missing_commands_ok(2) [OF assms(2)] missing_commands_ok(3)
  by (auto simp: initialize_attempt_def split: prod.splits sum.splits option.splits if_splits
      dest!: read_grows proposed_each elim!: grown_trans intro: grown_trans)

lemma attempt_initializes:
  assumes "initialize_attempt read propose placement nodes q = (q', AtOk)" "placement_wf placement" "settled q'"
  shows "initialized nodes (state q) (state q')"
proof -
  from assms(1) obtain q1 q2 q3 q4 st1 st2 m where r1: "read q = (q1, Inr st1)"
    and p1: "propose_each propose (missing_nodes nodes st1) q1 = (q2, Inr ())"
    and p2: "propose_each propose (missing_placement placement st1) q2 = (q3, Inr ())"
    and r2: "read q3 = (q4, Inr st2)" and m: "placement_map st2 = Some m"
    and p3: "propose_each propose (missing_leases nodes m st2) q4 = (q', Inr ())"
    by (auto simp: initialize_attempt_def split: prod.splits sum.splits option.splits if_splits)
  note e3 = proposed_each [OF p3 missing_commands_ok(3) assms(3)]
  note g2 = read_grows [OF r2 conjunct1 [OF e3]] note s2 = read_state [OF r2 conjunct1 [OF e3]]
  note e2 = proposed_each [OF p2 missing_commands_ok(2) [OF assms(2)] conjunct1 [OF g2]]
  note e1 = proposed_each [OF p1 missing_commands_ok(1) conjunct1 [OF e2]]
  note g1 = read_grows [OF r1 conjunct1 [OF e1]] note s1 = read_state [OF r1 conjunct1 [OF e1]]
  have from2: "grown (state q2) (state q')" using e2 g2 e3 grown_trans by blast
  have from1: "grown st1 (state q')" using s1 e1 from2 grown_trans by blast
  have "n |\<in>| cs_nodes (state q')" if "n \<in> set nodes" for n
  proof (cases "n |\<in>| cs_nodes st1")
    case True
    with grown_effect [OF from1, of "AddNode n"] show ?thesis by simp
  next
    case False
    with that e1 have "in_effect (state q2) (AddNode n)" by (auto simp: missing_nodes_def list_all_iff)
    with grown_effect [OF from2] show ?thesis by fastforce
  qed
  moreover have "writer_lease (state q') t \<noteq> None" if "t \<in> set (map_instances m)" for t
  proof (cases "writer_lease st2 t = None")
    case True
    with that e3 show ?thesis by (fastforce simp: missing_leases_def list_all_iff first_lease_def)
  next
    case False
    moreover have "grown st2 (state q')" using s2 e3 grown_trans by blast
    ultimately show ?thesis
      using grown_effect [of st2 "state q'" "GrantWriterLease \<lparr>wl_target = t, wl_holder = [], wl_epoch = 0\<rparr>"] by simp
  qed
  moreover have "grown (state q) st2" "grown st2 (state q')" using s1 e1 e2 g1 s2 e3 grown_trans by blast+
  ultimately show ?thesis using m unfolding initialized_def by blast
qed

lemma loop_initializes:
  "initialize_loop read propose placement nodes attempts last_error q = (q', SrReady) \<Longrightarrow> placement_wf placement \<Longrightarrow> settled q' \<Longrightarrow>
    initialized nodes (state q) (state q')"
proof (induction attempts arbitrary: q last_error)
  case (Suc attempts)
  obtain q1 r where a: "initialize_attempt read propose placement nodes q = (q1, r)" by (metis prod.collapse)
  have grows: "initialize_loop read propose placement nodes k l q1 = (q', SrReady) \<Longrightarrow> settled q1" for k l q1
  proof (induction k arbitrary: l q1)
    case (Suc k)
    obtain q2 r2 where a2: "initialize_attempt read propose placement nodes q1 = (q2, r2)" by (metis prod.collapse)
    with Suc Suc.prems attempt_grows [OF a2 \<open>placement_wf placement\<close>] \<open>settled q'\<close> show ?case
      by (cases r2) auto
  qed simp
  show ?case
  proof (cases r)
    case AtOk
    with Suc.prems a attempt_initializes [OF a [unfolded AtOk]] show ?thesis by simp
  next
    case (AtErr e)
    with Suc.prems a have l: "initialize_loop read propose placement nodes attempts (Some e) q1 = (q', SrReady)" by simp
    from Suc.IH [OF this Suc.prems(2,3)] attempt_grows [OF a Suc.prems(2) grows [OF l]] show ?thesis
      using initialized_before by blast
  next
    case AtPanic
    with Suc.prems a show ?thesis by simp
  qed
qed simp

end

interpretation mutex: shared_plane mutex_read ControlMutex_propose cmx_state "\<lambda>_. True"
proof
  fix q q' :: ControlMutex and s st c and r :: "plane_error + unit"
  show "mutex_read q = (q', s) \<Longrightarrow> True \<Longrightarrow> True \<and> grown (cmx_state q) (cmx_state q')" by (simp add: mutex_read_def)
  show "mutex_read q = (q', Inr st) \<Longrightarrow> True \<Longrightarrow> grown (cmx_state q) st \<and> grown st (cmx_state q')"
    by (auto simp: mutex_read_def ControlMutex_read_def split: if_splits)
  show "True \<and> grown (cmx_state q) (cmx_state q')" if "ControlMutex_propose c q = (q', r)" "command_ok c" "lasting c" True
    using that grown_apply [of c "cmx_state q"] by (auto simp: ControlMutex_propose_def split: if_splits prod.splits)
  show "\<exists>st. grown (cmx_state q) st \<and> snd (control_apply c st) = Inr () \<and> grown (fst (control_apply c st)) (cmx_state q')"
    if "ControlMutex_propose c q = (q', Inr ())" "command_ok c" "lasting c" True
    using that by (intro exI [of _ "cmx_state q"]) (auto simp: ControlMutex_propose_def split: if_splits prod.splits)
qed

text \<open>The Raft plane, as long as no committed command removes a node.\<close>

definition raft_settled :: "'j json \<Rightarrow> ('n \<Rightarrow> 'j list) \<Rightarrow> 'n \<Rightarrow> bool" where
  "raft_settled js log n \<longleftrightarrow> list_all lasting (decoded js (log n)) \<and>
     (\<forall>d m. d \<in> set (log n) \<longrightarrow> decode_command js d = Ok (RecordSealedSegment m) \<longrightarrow> rust_string (sm_path m))"

definition committed_state :: "'j json \<Rightarrow> 'j list \<Rightarrow> ClusterControlState" where
  "committed_state js log = control_run (decoded js log) ClusterControlState_new"

lemma state_after_committed: "sm_state (state_after js log) = committed_state js log"
  by (simp add: sm_run_decoded ClusterStateMachine_new_def committed_state_def)

lemma decoded_append: "decoded js (a @ b) = decoded js a @ decoded js b"
  by (simp add: decoded_def map_filter_def)

lemma committed_grown:
  assumes "list_all lasting (decoded js (a @ b))"
  shows "grown (committed_state js a) (committed_state js (a @ b))"
  using assms unfolding grown_def
  by (intro exI [of _ "decoded js b"]) (simp add: decoded_append committed_state_def control_run_append)

lemma raft_shared_plane:
  assumes contract: "raft_contract js ops log" and json: "json_ok js" "json_answers js ops"
  shows "shared_plane (RaftControlPlane_read js ops) (RaftControlPlane_propose js ops) (\<lambda>n. committed_state js (log n)) (raft_settled js log)"
proof
  have settled: "raft_settled js log n \<and> grown (committed_state js (log n)) (committed_state js (log n'))"
    if "log n' = log n @ added" "raft_settled js log n'" for n n' added
    using that committed_grown [of js "log n" added] by (auto simp: raft_settled_def decoded_append)
  fix n n' s st c and r :: "plane_error + unit"
  show "raft_settled js log n \<and> grown (committed_state js (log n)) (committed_state js (log n'))"
    if "RaftControlPlane_read js ops n = (n', s)" "raft_settled js log n'"
    using raft_plane_grows(2) [OF contract that(1)] settled that(2) by blast
  show "raft_settled js log n \<and> grown (committed_state js (log n)) (committed_state js (log n'))"
    if "RaftControlPlane_propose js ops c n = (n', r)" "command_ok c" "lasting c" "raft_settled js log n'"
    using raft_plane_grows(1) [OF contract that(1)] settled that(4) by blast
  show "grown (committed_state js (log n)) st \<and> grown st (committed_state js (log n'))"
    if "RaftControlPlane_read js ops n = (n', Inr st)" "raft_settled js log n'"
  proof -
    from that(2) have "\<forall>d m. d \<in> set (log n') \<longrightarrow> decode_command js d = Inr (RecordSealedSegment m) \<longrightarrow> rust_string (sm_path m)"
      by (simp add: raft_settled_def)
    from read_committed_log [OF contract json this that(1)] obtain pre post where
      l: "log n' = log n @ pre @ post" "st = committed_state js (log n @ pre)" by (auto simp: state_after_committed)
    then have "list_all lasting (decoded js (log n @ pre))" "list_all lasting (decoded js ((log n @ pre) @ post))"
      using that(2) by (simp_all add: raft_settled_def decoded_append)
    with l show ?thesis using committed_grown [of js "log n" pre] committed_grown [of js "log n @ pre" post] by simp
  qed
  show "\<exists>st. grown (committed_state js (log n)) st \<and> snd (control_apply c st) = Inr () \<and>
      grown (fst (control_apply c st)) (committed_state js (log n'))"
    if "RaftControlPlane_propose js ops c n = (n', Inr ())" "command_ok c" "lasting c" "raft_settled js log n'"
  proof -
    from propose_committed [OF contract json that(2,1)] obtain d pre post where
      d: "encode_command js c = Inr d" "log n' = log n @ pre @ d # post"
        "snd (control_apply c (committed_state js (log n @ pre))) = Inr ()" by (auto simp: state_after_committed)
    have "decode_command js d = Inr c" using decode_encoded_command [OF json(1) that(2) d(1)] .
    then have "committed_state js ((log n @ pre) @ [d]) = fst (control_apply c (committed_state js (log n @ pre)))"
      by (simp add: committed_state_def decoded_append control_run_append) (simp add: decoded_def map_filter_simps control_run_def)
    moreover have "list_all lasting (decoded js (log n @ pre))" "list_all lasting (decoded js ((log n @ pre @ [d]) @ post))"
      using that(4) d(2) decoded_append [of js "[d]" post] by (auto simp: raft_settled_def decoded_append)
    ultimately show ?thesis
      using d committed_grown [of js "log n" pre] committed_grown [of js "(log n @ pre) @ [d]" post]
      by (intro exI [of _ "committed_state js (log n @ pre)"]) simp
  qed
qed

subsection \<open>Properties of the start\<close>

text \<open>
  (C39) A node that starts under Raft, together with other nodes that start, finds the cluster ready when
  the initialisation succeeds, after any number of failed attempts: the nodes of its configuration are
  members, a placement map is committed, and each target of the map that it read has a writer lease
  whose holder is a member. It assumes that the consensus library keeps its contract and that no
  committed command removes a node.
\<close>

theorem raft_start_initializes:
  assumes "raft_contract js ops log" "json_ok js" "json_answers js ops" "placement_wf placement" "raft_settled js log n'"
    and "initialize_control_plane (RaftControlPlane_read js ops) (RaftControlPlane_propose js ops) placement nodes attempts n
      = (n', SrReady)"
  defines "st' \<equiv> committed_state js (log n')"
  shows "(\<forall>node \<in> set nodes. node |\<in>| cs_nodes st') \<and>
    (\<exists>st1 m. grown (committed_state js (log n)) st1 \<and> grown st1 st' \<and> placement_map st1 = Some m \<and>
      (\<forall>t \<in> set (map_instances m). \<exists>l. writer_lease st' t = Some l \<and> wl_target l = t \<and> wl_holder l |\<in>| cs_nodes st'))"
proof -
  have "initialized nodes (committed_state js (log n)) st'"
    using shared_plane.loop_initializes [OF raft_shared_plane [OF assms(1-3)] _ assms(4,5)] assms(6)
    unfolding st'_def initialize_control_plane_def by blast
  moreover have "control_wf st'"
    using reachable_wf [OF reachable_run [OF reachable.initial]] by (simp add: st'_def committed_state_def)
  then have "\<exists>l. writer_lease st' t = Some l \<and> wl_target l = t \<and> wl_holder l |\<in>| cs_nodes st'" if "writer_lease st' t \<noteq> None" for t
    using that by (auto simp: control_wf_def writer_lease_def)
  ultimately show ?thesis unfolding initialized_def by blast
qed

lemma propose_nodes:
  "\<not> cmx_poisoned q \<Longrightarrow> propose_each ControlMutex_propose (map AddNode ns) q
    = (q\<lparr>cmx_state := (cmx_state q)\<lparr>cs_nodes := fset_of_list ns |\<union>| cs_nodes (cmx_state q)\<rparr>\<rparr>, Ok ())"
  by (induction ns arbitrary: q) (simp_all add: ControlMutex_propose_def)

lemma propose_leases:
  assumes "\<not> cmx_poisoned q" "distinct ts" "\<forall>t \<in> set ts. writer_lease (cmx_state q) t = None"
    and "\<forall>t \<in> set ts. wl_holder (first_lease nodes t) |\<in>| cs_nodes (cmx_state q)"
  shows "propose_each ControlMutex_propose (map (\<lambda>t. GrantWriterLease (first_lease nodes t)) ts) q
    = (q\<lparr>cmx_state := (cmx_state q)\<lparr>cs_writer_leases :=
         fold (\<lambda>t. bt_insert t (first_lease nodes t)) ts (cs_writer_leases (cmx_state q))\<rparr>\<rparr>, Ok ())"
  using assms
proof (induction ts arbitrary: q)
  case (Cons t ts)
  let ?q = "q\<lparr>cmx_state := (cmx_state q)\<lparr>cs_writer_leases := bt_insert t (first_lease nodes t) (cs_writer_leases (cmx_state q))\<rparr>\<rparr>"
  have target: "wl_target (first_lease nodes t) = t" by (simp add: first_lease_def)
  with Cons.prems have "ControlMutex_propose (GrantWriterLease (first_lease nodes t)) q = (?q, Ok ())"
    by (simp add: ControlMutex_propose_def writer_lease_def)
  moreover have "\<forall>t' \<in> set ts. writer_lease (cmx_state ?q) t' = None"
    using Cons.prems(2,3) by (auto simp: writer_lease_def bt_get_insert)
  ultimately show ?case using Cons.IH [of ?q] Cons.prems by simp
qed simp

lemma get_fold_leases:
  "bt_get (fold (\<lambda>t. bt_insert t (f t)) ts leases) t = (if t \<in> set ts then Some (f t) else bt_get leases t)"
  by (induction ts arbitrary: leases) (auto simp: bt_get_insert)

lemma distinct_instances: "distinct (map_instances m)"
  by (simp add: map_instances_def)

lemma first_holder: "nodes \<noteq> [] \<Longrightarrow> wl_holder (first_lease nodes t) = (if t \<in> set nodes then t else hd nodes)"
  by (auto simp: first_lease_def find_None_iff find_Some_iff hd_conv_nth split: option.split)

text \<open>The control state after the start of a node without Raft.\<close>

definition started :: "IptoPlacementMap \<Rightarrow> NodeId list \<Rightarrow> ClusterControlState \<Rightarrow> ClusterControlState \<Rightarrow> bool" where
  "started placement nodes st st' \<longleftrightarrow>
     cs_nodes st' = fset_of_list nodes |\<union>| cs_nodes st \<and>
     placement_map st' = Some (case placement_map st of None \<Rightarrow> placement | Some m \<Rightarrow> m) \<and>
     (\<forall>t. writer_lease st' t =
        (case writer_lease st t of
           Some l \<Rightarrow> Some l
         | None \<Rightarrow>
             if t \<in> set (map_instances (case placement_map st of None \<Rightarrow> placement | Some m \<Rightarrow> m))
             then Some \<lparr>wl_target = t, wl_holder = (if t \<in> set nodes then t else hd nodes), wl_epoch = 1\<rparr> else None))"

lemma first_placement:
  assumes "placement_map st = None"
  shows "\<exists>maps. insert_placement_map placement st = (st\<lparr>cs_placement_maps := maps\<rparr>, Inr ())"
    and "placement_map (fst (insert_placement_map placement st)) = Some placement"
proof -
  have none: "bt_last (cs_placement_maps st) = None" using assms by (simp add: placement_map_def)
  then have "\<forall>k. bt_get (cs_placement_maps st) k = None" by (simp add: bt_last_None)
  then have "bt_last (bt_insert (pm_epoch placement) placement (cs_placement_maps st)) = Some (pm_epoch placement, placement)"
    by (intro bt_last_insert_new) simp
  with none show "\<exists>maps. insert_placement_map placement st = (st\<lparr>cs_placement_maps := maps\<rparr>, Inr ())"
    "placement_map (fst (insert_placement_map placement st)) = Some placement"
    by (auto simp: insert_placement_map_def placement_map_def)
qed

lemma propose_placement:
  assumes "\<not> cmx_poisoned q" "placement_map st = placement_map (cmx_state q)"
  shows "\<exists>maps. propose_each ControlMutex_propose (missing_placement placement st) q
      = (q\<lparr>cmx_state := (cmx_state q)\<lparr>cs_placement_maps := maps\<rparr>\<rparr>, Inr ()) \<and>
    placement_map ((cmx_state q)\<lparr>cs_placement_maps := maps\<rparr>)
      = Some (case placement_map (cmx_state q) of None \<Rightarrow> placement | Some m \<Rightarrow> m)"
proof (cases "placement_map (cmx_state q)")
  case None
  with first_placement [OF None, of placement] assms show ?thesis
    by (auto simp: missing_placement_def ControlMutex_propose_def)
next
  case (Some m)
  with assms(2) show ?thesis
    by (intro exI [of _ "cs_placement_maps (cmx_state q)"]) (simp add: missing_placement_def)
qed

lemma mutex_attempt:
  assumes "\<not> cmx_poisoned q" "nodes \<noteq> []"
  shows "\<exists>q'. initialize_attempt mutex_read ControlMutex_propose placement nodes q = (q', AtOk) \<and> \<not> cmx_poisoned q' \<and>
    started placement nodes (cmx_state q) (cmx_state q')"
proof -
  let ?st = "cmx_state q" and ?ns = "filter (\<lambda>node. node |\<notin>| cs_nodes (cmx_state q)) nodes"
  let ?pm = "case placement_map (cmx_state q) of None \<Rightarrow> placement | Some m \<Rightarrow> m"
  define q1 where "q1 = q\<lparr>cmx_state := ?st\<lparr>cs_nodes := fset_of_list ?ns |\<union>| cs_nodes ?st\<rparr>\<rparr>"
  have nodes: "cs_nodes (cmx_state q1) = fset_of_list nodes |\<union>| cs_nodes ?st"
    by (auto simp: q1_def fset_of_list.rep_eq fset_eq_iff)
  have q1: "\<not> cmx_poisoned q1" "placement_map ?st = placement_map (cmx_state q1)"
    using assms(1) by (simp_all add: q1_def placement_map_def)
  obtain maps where p: "propose_each ControlMutex_propose (missing_placement placement ?st) q1
      = (q1\<lparr>cmx_state := (cmx_state q1)\<lparr>cs_placement_maps := maps\<rparr>\<rparr>, Inr ())"
    "placement_map ((cmx_state q1)\<lparr>cs_placement_maps := maps\<rparr>) = Some ?pm"
    using propose_placement [OF q1] q1(2) by auto
  define q2 where "q2 = q1\<lparr>cmx_state := (cmx_state q1)\<lparr>cs_placement_maps := maps\<rparr>\<rparr>"
  have leases: "cs_writer_leases (cmx_state q2) = cs_writer_leases ?st" by (simp add: q2_def q1_def)
  let ?ts = "filter (\<lambda>t. writer_lease (cmx_state q2) t = None) (map_instances ?pm)"
  have "wl_holder (first_lease nodes t) |\<in>| cs_nodes (cmx_state q2)" for t
    using assms(2) nodes by (auto simp: first_holder q2_def fset_of_list.rep_eq)
  then have l: "propose_each ControlMutex_propose (missing_leases nodes ?pm (cmx_state q2)) q2
      = (q2\<lparr>cmx_state := (cmx_state q2)\<lparr>cs_writer_leases :=
           fold (\<lambda>t. bt_insert t (first_lease nodes t)) ?ts (cs_writer_leases (cmx_state q2))\<rparr>\<rparr>, Inr ())"
    using q1(1) propose_leases [of q2 ?ts nodes] distinct_instances [of ?pm]
    by (simp add: missing_leases_def q2_def)
  define q3 where "q3 = q2\<lparr>cmx_state := (cmx_state q2)\<lparr>cs_writer_leases :=
      fold (\<lambda>t. bt_insert t (first_lease nodes t)) ?ts (cs_writer_leases (cmx_state q2))\<rparr>\<rparr>"
  have steps: "propose_each ControlMutex_propose (missing_nodes nodes ?st) q = (q1, Inr ())"
    "propose_each ControlMutex_propose (missing_placement placement ?st) q1 = (q2, Inr ())"
    "propose_each ControlMutex_propose (missing_leases nodes ?pm (cmx_state q2)) q2 = (q3, Inr ())"
    "placement_map (cmx_state q2) = Some ?pm" "ControlMutex_read q = Inr ?st" "ControlMutex_read q2 = Inr (cmx_state q2)"
    using propose_nodes [OF assms(1), of ?ns] p l q1(1) assms(1)
    by (simp_all add: missing_nodes_def q1_def q2_def q3_def ControlMutex_read_def)
  then have "initialize_attempt mutex_read ControlMutex_propose placement nodes q = (q3, AtOk)"
    using assms(2) by (simp add: initialize_attempt_def mutex_read_def)
  moreover have "started placement nodes ?st (cmx_state q3)"
    unfolding started_def
    using nodes p(2) assms(2) first_holder [OF assms(2)] leases
    by (auto simp: q3_def q2_def placement_map_def writer_lease_def get_fold_leases first_lease_def split: option.splits)
  ultimately show ?thesis using q1(1) by (auto simp: q3_def q2_def)
qed

lemma started_again:
  assumes "started placement nodes st (cmx_state q)" "\<not> cmx_poisoned q"
  shows "initialize_attempt mutex_read ControlMutex_propose placement nodes q = (q, AtOk)"
proof -
  let ?pm = "case placement_map st of None \<Rightarrow> placement | Some m \<Rightarrow> m"
  have "missing_nodes nodes (cmx_state q) = []"
    using assms(1) by (auto simp: missing_nodes_def started_def filter_empty_conv fset_of_list.rep_eq)
  moreover have pm: "placement_map (cmx_state q) = Some ?pm" using assms(1) by (simp add: started_def)
  moreover have "missing_leases nodes ?pm (cmx_state q) = []"
    using assms(1) by (auto simp: missing_leases_def started_def filter_empty_conv split: option.splits)
  ultimately show ?thesis
    using assms(2) by (simp add: initialize_attempt_def mutex_read_def ControlMutex_read_def missing_placement_def)
qed

text \<open>
  (C40) A node without Raft is ready after one attempt. Whatever the control state is, the nodes are added,
  the placement map is set where there is none, and every target of the map in force gets a lease of
  epoch 1 where it has none: for the node of the same name, otherwise for the first node. A
  placement map and leases that exist are left alone, and starting again changes nothing.
\<close>

theorem local_start_initializes:
  fixes placement :: IptoPlacementMap
  assumes "\<not> cmx_poisoned q" "nodes \<noteq> []" "0 < attempts"
  defines "st \<equiv> cmx_state q"
    and "pm \<equiv> (case placement_map (cmx_state q) of None \<Rightarrow> placement | Some m \<Rightarrow> m)"
  shows "\<exists>q'. initialize_control_plane mutex_read ControlMutex_propose placement nodes attempts q = (q', SrReady) \<and>
    cs_nodes (cmx_state q') = fset_of_list nodes |\<union>| cs_nodes st \<and> placement_map (cmx_state q') = Some pm \<and>
    (\<forall>t. writer_lease (cmx_state q') t =
      (if writer_lease st t = None \<and> t \<in> set (map_instances pm)
       then Some \<lparr>wl_target = t, wl_holder = (if t \<in> set nodes then t else hd nodes), wl_epoch = 1\<rparr>
       else writer_lease st t)) \<and>
    initialize_control_plane mutex_read ControlMutex_propose placement nodes attempts q' = (q', SrReady)"
proof -
  obtain k where k: "attempts = Suc k" using assms(3) by (cases attempts) auto
  obtain q' where q': "initialize_attempt mutex_read ControlMutex_propose placement nodes q = (q', AtOk)"
    "\<not> cmx_poisoned q'" "started placement nodes st (cmx_state q')"
    using mutex_attempt [OF assms(1,2)] unfolding st_def by blast
  have "writer_lease (cmx_state q') t =
      (if writer_lease st t = None \<and> t \<in> set (map_instances pm)
       then Some \<lparr>wl_target = t, wl_holder = (if t \<in> set nodes then t else hd nodes), wl_epoch = 1\<rparr>
       else writer_lease st t)" for t
    using q'(3) unfolding started_def pm_def st_def by (cases "writer_lease (cmx_state q) t") simp_all
  with q' started_again [OF q'(3,2)] k show ?thesis
    by (intro exI [of _ q']) (simp add: initialize_control_plane_def started_def pm_def st_def)
qed

lemma local_start_initializes_witness:
  "\<exists>q'. initialize_control_plane mutex_read ControlMutex_propose sample_placement [''n''] 1
      \<lparr>cmx_poisoned = False, cmx_state = ClusterControlState_new\<rparr> = (q', SrReady) \<and>
    cs_nodes (cmx_state q') = {|''n''|} \<and> placement_map (cmx_state q') = Some sample_placement \<and>
    writer_lease (cmx_state q') ''ipto-a'' = Some \<lparr>wl_target = ''ipto-a'', wl_holder = ''n'', wl_epoch = 1\<rparr>"
proof -
  have "map_instances sample_placement = [''ipto-a'']"
    by (simp add: map_instances_def sample_placement_def ring_instances_def)
  moreover have "placement_map ClusterControlState_new = None" "writer_lease ClusterControlState_new t = None"
    "cs_nodes ClusterControlState_new = {||}" for t
    by (simp_all add: ClusterControlState_new_def placement_map_def writer_lease_def bt_last_None)
  ultimately show ?thesis
    using local_start_initializes [of "\<lparr>cmx_poisoned = False, cmx_state = ClusterControlState_new\<rparr>" "[''n'']" 1 sample_placement] by auto
qed

text \<open>A single Raft node goes through the same steps as the mutex.\<close>

definition same_state :: "control_doc list \<Rightarrow> ControlMutex \<Rightarrow> bool" where
  "same_state log q \<longleftrightarrow> committed_state doc_json log = cmx_state q \<and> \<not> cmx_poisoned q \<and> raft_settled doc_json id log"

lemma doc_json_ok: "json_ok doc_json" "json_answers doc_json single_node"
  by (simp_all add: json_ok_def json_answers_def doc_json_def single_node_def)

lemma doc_fields:
  "js_empty doc_json = CdEmpty" "js_of_answer doc_json a = Inr (CdAnswer a)" "rf_encode_request single_node kind d = d"
  "rf_decode_response single_node kind d = Inr (reply_of d)" "rr_success (reply_of d)" "rr_result (reply_of d) = d"
  by (simp_all add: doc_json_def single_node_def reply_of_def)

lemma doc_decode: "command_ok c \<Longrightarrow> decode_command doc_json (CdCommand (ser_command c)) = Inr c"
  using deser_ser_command [of c] by (simp add: decode_command_def doc_json_def)

lemma single_request:
  "request single_node kind d log = (case rf_dispatch single_node kind d log of (log', reply) \<Rightarrow> (log', Inr reply))"
  by (cases "rf_dispatch single_node kind d log")
    (simp add: request_def numeral_2_eq_2, simp add: single_node_def reply_of_def)

lemma single_propose:
  assumes "command_ok c" "lasting c" "\<forall>m. c \<noteq> RecordSealedSegment m" "same_state log q"
  shows "\<exists>log' r q' r'. RaftControlPlane_propose doc_json single_node c log = (log', r) \<and> ControlMutex_propose c q = (q', r') \<and>
    same_state log' q' \<and> (r = Inr () \<longleftrightarrow> r' = Inr ())"
proof -
  let ?d = "CdCommand (ser_command c)" and ?st = "committed_state doc_json log"
  have enc: "encode_command doc_json c = Inr ?d" by (simp add: encode_command_def doc_json_def)
  let ?a = "snd (sm_apply_with_result doc_json ?d (state_after doc_json log))"
  have answer: "?a = CdEmpty \<longleftrightarrow> snd (control_apply c ?st) = Inr ()"
    using doc_decode [OF assms(1)]
    by (auto simp: sm_apply_with_result_def state_after_committed doc_fields unwrap_or_def split: prod.splits sum.splits)
  have "rf_dispatch single_node ClientCommandRequest ?d log = (log @ [?d], ?a)" by (simp add: single_node_def)
  then have "request single_node ClientCommandRequest ?d log = (log @ [?d], Inr ?a)" by (simp add: single_request)
  then obtain r where r: "RaftControlPlane_propose doc_json single_node c log = (log @ [?d], r)" "r = Inr () \<longleftrightarrow> ?a = CdEmpty"
    using enc by (cases "?a = CdEmpty") (auto simp: RaftControlPlane_propose_def doc_fields)
  obtain q' r' where m: "ControlMutex_propose c q = (q', r')" by (metis prod.collapse)
  have "decoded doc_json (log @ [?d]) = decoded doc_json log @ [c]"
    using doc_decode [OF assms(1)] by (simp add: decoded_append) (simp add: decoded_def map_filter_simps)
  then have "committed_state doc_json (log @ [?d]) = fst (control_apply c ?st)" "raft_settled doc_json id (log @ [?d])"
    using assms doc_decode [OF assms(1)]
    by (auto simp: committed_state_def control_run_append same_state_def raft_settled_def) (simp add: control_run_def)
  with m r answer assms(4) have "same_state (log @ [?d]) q'" "r = Inr () \<longleftrightarrow> r' = Inr ()"
    by (auto simp: same_state_def ControlMutex_propose_def split: prod.splits)
  with r m show ?thesis by blast
qed

lemma single_propose_each:
  assumes "list_all (\<lambda>c. command_ok c \<and> lasting c \<and> (\<forall>m. c \<noteq> RecordSealedSegment m)) cs" "same_state log q"
    and "propose_each ControlMutex_propose cs q = (q', Inr ())"
  shows "\<exists>log'. propose_each (RaftControlPlane_propose doc_json single_node) cs log = (log', Inr ()) \<and> same_state log' q'"
  using assms
proof (induction cs arbitrary: log q)
  case (Cons c cs)
  then obtain log1 r q1 r' where p: "RaftControlPlane_propose doc_json single_node c log = (log1, r)"
    "ControlMutex_propose c q = (q1, r')" "same_state log1 q1" "r = Inr () \<longleftrightarrow> r' = Inr ()"
    using single_propose [of c log q] by auto
  with Cons.prems(3) have "r' = Inr ()" "propose_each ControlMutex_propose cs q1 = (q', Inr ())" by (auto split: sum.splits)
  with Cons.IH [OF _ p(3)] Cons.prems(1) p show ?case by simp
qed simp

lemma single_read:
  assumes "same_state log q"
  shows "RaftControlPlane_read doc_json single_node log = (log, Inr (cmx_state q))"
proof -
  have q: "rf_of_query single_node CqControlSnapshot = Inr (CdQuery CqControlSnapshot)"
    "rf_dispatch single_node ClientQueryRequest d log = (log, sm_query doc_json d (state_after doc_json log))"
    "js_to_query doc_json (CdQuery CqControlSnapshot) = Inr CqControlSnapshot" for d
    by (simp_all add: single_node_def doc_json_def)
  have "decode_snapshot doc_json (handle_query doc_json (sm_state (state_after doc_json log)) CqControlSnapshot)
      = Inr (sm_state (state_after doc_json log))"
    using assms by (intro snapshot_decoded doc_json_ok(1)) (auto simp: same_state_def raft_settled_def)
  moreover have "sm_query doc_json (CdQuery CqControlSnapshot) (state_after doc_json log)
      = handle_query doc_json (sm_state (state_after doc_json log)) CqControlSnapshot"
    by (simp add: sm_query_def q)
  ultimately show ?thesis
    using assms q by (simp add: RaftControlPlane_read_def single_request doc_fields state_after_committed same_state_def)
qed

definition default_placement :: "ClusterControlError + IptoPlacementMap" where
  "default_placement = res_bind (IptoPlacementSlot_new ''ipto-default'' 1) (\<lambda>slot. IptoPlacementMap_new 1 [slot] [])"

lemma default_placement_ok: "\<exists>m. default_placement = Ok m \<and> placement_wf m \<and> map_instances m = [''ipto-default'']"
  by (simp add: default_placement_def IptoPlacementSlot_new_def IptoPlacementMap_new_def placement_wf_def map_instances_def
      ring_instances_def IptoPlacementRing_new_def slot_points_def)

lemma raft_start_initializes_witness:
  "\<exists>m n'. default_placement = Ok m \<and>
     initialize_control_plane (RaftControlPlane_read doc_json single_node) (RaftControlPlane_propose doc_json single_node) m [''n1''] 1 []
       = (n', SrReady) \<and>
     (\<forall>node \<in> {''n1''}. node |\<in>| cs_nodes (committed_state doc_json n'))"
proof -
  obtain m where m: "default_placement = Ok m" "placement_wf m" using default_placement_ok by blast
  let ?q = "\<lparr>cmx_poisoned = False, cmx_state = ClusterControlState_new\<rparr>"
  have start: "same_state [] ?q" by (simp add: same_state_def committed_state_def raft_settled_def decoded_def map_filter_simps control_run_def)
  have cs: "list_all (\<lambda>c. command_ok c \<and> lasting c \<and> (\<forall>m. c \<noteq> RecordSealedSegment m)) (missing_nodes ns st)"
    "list_all (\<lambda>c. command_ok c \<and> lasting c \<and> (\<forall>m. c \<noteq> RecordSealedSegment m)) (missing_placement m st)"
    "list_all (\<lambda>c. command_ok c \<and> lasting c \<and> (\<forall>m. c \<noteq> RecordSealedSegment m)) (missing_leases ns pm st)" for ns st pm
    using m(2) by (simp_all add: missing_nodes_def missing_placement_def missing_leases_def command_ok_def list_all_iff)
  obtain q3 where "initialize_attempt mutex_read ControlMutex_propose m [''n1''] ?q = (q3, AtOk)"
    using mutex_attempt [of ?q "[''n1'']" m] by auto
  then obtain q1 q2 pm where a: "propose_each ControlMutex_propose (missing_nodes [''n1''] (cmx_state ?q)) ?q = (q1, Inr ())"
    "propose_each ControlMutex_propose (missing_placement m (cmx_state ?q)) q1 = (q2, Inr ())"
    "placement_map (cmx_state q2) = Some pm"
    "propose_each ControlMutex_propose (missing_leases [''n1''] pm (cmx_state q2)) q2 = (q3, Inr ())"
    by (auto simp: initialize_attempt_def mutex_read_def ControlMutex_read_def split: prod.splits sum.splits option.splits if_splits)
  from single_propose_each [OF cs(1) start a(1)] obtain l1 where l1:
    "propose_each (RaftControlPlane_propose doc_json single_node) (missing_nodes [''n1''] (cmx_state ?q)) [] = (l1, Inr ())" "same_state l1 q1" by blast
  from single_propose_each [OF cs(2) l1(2) a(2)] obtain l2 where l2:
    "propose_each (RaftControlPlane_propose doc_json single_node) (missing_placement m (cmx_state ?q)) l1 = (l2, Inr ())" "same_state l2 q2" by blast
  from single_propose_each [OF cs(3) l2(2) a(4)] obtain l3 where l3:
    "propose_each (RaftControlPlane_propose doc_json single_node) (missing_leases [''n1''] pm (cmx_state q2)) l2 = (l3, Inr ())" "same_state l3 q3" by blast
  have run: "initialize_control_plane (RaftControlPlane_read doc_json single_node) (RaftControlPlane_propose doc_json single_node) m [''n1''] 1 []
      = (l3, SrReady)"
    using single_read [OF start] single_read [OF l2(2)] l1(1) l2(1) l3(1) a(3)
    by (simp add: initialize_control_plane_def initialize_attempt_def)
  have "raft_settled doc_json id l3" using l3(2) by (simp add: same_state_def)
  from raft_start_initializes [OF single_node_contract doc_json_ok m(2) this run] run m(1) show ?thesis by auto
qed

end
