(* ===== verification/Ipto_Adapter.thy ===== *)
theory Ipto_Adapter
  imports Http_Api
begin

text \<open>
  The writer that stores metadata in an Ipto repository (\<open>src/ipto_adapter.rs\<close>). The repository
  (\<open>ipto_rust::repo::RepoService\<close>) is a parameter: a record \<open>repo_ops\<close> of the calls that the writer makes,
  on a state of its own. How a metadata value prints in debug form is a parameter too.

  The main result is that delivery at least once has an effect at most once: over any sequence of writes,
  with repository calls that fail before or after they took effect, the repository has one unit per
  correlation id, an acknowledged payload has its unit and the units of its relations, and writing it
  again adds nothing.
\<close>

subsection \<open>The repository and the schema\<close>

record SearchOrder =
  so_field :: string
  so_descending :: bool

record SearchPaging =
  sp_limit :: nat
  sp_offset :: nat

record 'r repo_ops =
  rp_configure_graphql_sdl :: "string \<Rightarrow> 'r \<Rightarrow> 'r \<times> (string + unit)"
  rp_attribute_name_to_id :: "string \<Rightarrow> 'r \<Rightarrow> string + i64 option"
  rp_search_units :: "json_value \<Rightarrow> SearchOrder \<Rightarrow> SearchPaging \<Rightarrow> 'r \<Rightarrow> string + int"
  rp_store_unit_json :: "json_value \<Rightarrow> 'r \<Rightarrow> 'r \<times> (string + unit)"

definition PROV_O_SDL :: string where
  "PROV_O_SDL = concat (map (\<lambda>line. line @ [CHR 0x0A])
     [''enum DataTypes @datatypeRegistry {'',
      ''    STRING  @datatype(id: 1)'',
      ''    TIME    @datatype(id: 2)'',
      ''    INTEGER @datatype(id: 3)'',
      ''    LONG    @datatype(id: 4)'',
      ''    DOUBLE  @datatype(id: 5)'',
      ''    BOOLEAN @datatype(id: 6)'',
      ''}'',
      [],
      ''enum Attributes @attributeRegistry {'',
      ''    prov_generatedAtTime   @attribute(datatype: TIME,   array: false, name: \"prov:generatedAtTime\",   uri: \"http://www.w3.org/ns/prov#generatedAtTime\")'',
      ''    prov_startedAtTime     @attribute(datatype: TIME,   array: false, name: \"prov:startedAtTime\",     uri: \"http://www.w3.org/ns/prov#startedAtTime\")'',
      ''    prov_endedAtTime       @attribute(datatype: TIME,   array: false, name: \"prov:endedAtTime\",       uri: \"http://www.w3.org/ns/prov#endedAtTime\")'',
      ''    prov_invalidatedAtTime @attribute(datatype: TIME,   array: false, name: \"prov:invalidatedAtTime\", uri: \"http://www.w3.org/ns/prov#invalidatedAtTime\")'',
      ''    prov_wasAttributedTo   @attribute(datatype: STRING, array: false, name: \"prov:wasAttributedTo\",   uri: \"http://www.w3.org/ns/prov#wasAttributedTo\")'',
      ''    prov_wasGeneratedBy    @attribute(datatype: STRING, array: false, name: \"prov:wasGeneratedBy\",    uri: \"http://www.w3.org/ns/prov#wasGeneratedBy\")'',
      ''    prov_used              @attribute(datatype: STRING, array: false, name: \"prov:used\",              uri: \"http://www.w3.org/ns/prov#used\")'',
      ''    prov_wasDerivedFrom    @attribute(datatype: STRING, array: false, name: \"prov:wasDerivedFrom\",    uri: \"http://www.w3.org/ns/prov#wasDerivedFrom\")'',
      ''    prov_value             @attribute(datatype: STRING, array: false, name: \"prov:value\",             uri: \"http://www.w3.org/ns/prov#value\")'',
      ''    prov_location          @attribute(datatype: STRING, array: false, name: \"prov:location\",          uri: \"http://www.w3.org/ns/prov#location\")'',
      ''    prov_type              @attribute(datatype: STRING, array: false, name: \"prov:type\",              uri: \"http://www.w3.org/ns/prov#type\")'',
      [],
      ''    rdfs_label             @attribute(datatype: STRING, array: false, name: \"rdfs:label\",             uri: \"http://www.w3.org/2000/01/rdf-schema#label\")'',
      ''    rdfs_comment           @attribute(datatype: STRING, array: false, name: \"rdfs:comment\",           uri: \"http://www.w3.org/2000/01/rdf-schema#comment\")'',
      [],
      ''    vannak_data_individual @attribute(datatype: STRING, array: false, name: \"vannak:dataIndividualId\")'',
      ''    vannak_process_instance @attribute(datatype: STRING, array: false, name: \"vannak:processInstanceId\")'',
      ''    vannak_activity_id     @attribute(datatype: STRING, array: false, name: \"vannak:activityId\")'',
      ''    vannak_pipeline_id     @attribute(datatype: STRING, array: false, name: \"vannak:pipelineId\")'',
      ''    vannak_tenant_id       @attribute(datatype: STRING, array: false, name: \"vannak:tenantId\")'',
      ''    vannak_environment_id  @attribute(datatype: STRING, array: false, name: \"vannak:environmentId\")'',
      ''}'',
      [],
      ''type ProvEntity @template(name: \"ProvEntity\") {'',
      ''    label:             String @use(attribute: rdfs_label)'',
      ''    comment:           String @use(attribute: rdfs_comment)'',
      ''    generatedAtTime:   String @use(attribute: prov_generatedAtTime)'',
      ''    invalidatedAtTime: String @use(attribute: prov_invalidatedAtTime)'',
      ''    wasAttributedTo:   String @use(attribute: prov_wasAttributedTo)'',
      ''    value:             String @use(attribute: prov_value)'',
      ''    location:          String @use(attribute: prov_location)'',
      ''    type:              String @use(attribute: prov_type)'',
      ''    dataIndividualId:  String @use(attribute: vannak_data_individual)'',
      ''}'',
      [],
      ''type ProvGeneration @template(name: \"ProvGeneration\") {'',
      ''    wasGeneratedBy: String @use(attribute: prov_wasGeneratedBy)'',
      ''    label:          String @use(attribute: rdfs_label)'',
      ''}'',
      [],
      ''type ProvUsage @template(name: \"ProvUsage\") {'',
      ''    used:  String @use(attribute: prov_used)'',
      ''    label: String @use(attribute: rdfs_label)'',
      ''}'',
      [],
      ''type ProvDerivation @template(name: \"ProvDerivation\") {'',
      ''    wasDerivedFrom: String @use(attribute: prov_wasDerivedFrom)'',
      ''    label:          String @use(attribute: rdfs_label)'',
      ''}''])"

definition attribute_names :: "(string \<times> string) list" where
  "attribute_names =
     [(''prov:generatedAtTime'', ''time''), (''prov:startedAtTime'', ''time''), (''prov:endedAtTime'', ''time''),
      (''prov:invalidatedAtTime'', ''time''), (''prov:wasAttributedTo'', ''string''), (''prov:wasGeneratedBy'', ''string''),
      (''prov:used'', ''string''), (''prov:wasDerivedFrom'', ''string''), (''prov:value'', ''string''),
      (''prov:location'', ''string''), (''prov:type'', ''string''), (''rdfs:label'', ''string''),
      (''rdfs:comment'', ''string''), (''vannak:dataIndividualId'', ''string''), (''vannak:processInstanceId'', ''string''),
      (''vannak:activityId'', ''string''), (''vannak:pipelineId'', ''string''), (''vannak:tenantId'', ''string''),
      (''vannak:environmentId'', ''string'')]"

record 'r IptoRepoWriter =
  irw_repo :: 'r
  irw_tenant_id :: i64
  irw_attr_ids :: "(IptoAttributeName, i64 \<times> string) btree"
  irw_sdl_configured :: bool
  irw_target :: "IptoInstanceId option"

definition IptoRepoWriter_new :: "'r \<Rightarrow> i64 \<Rightarrow> 'r IptoRepoWriter" where
  "IptoRepoWriter_new repo tenant_id =
     \<lparr>irw_repo = repo, irw_tenant_id = tenant_id, irw_attr_ids = bt_empty, irw_sdl_configured = False, irw_target = None\<rparr>"

definition irw_with_target :: "IptoInstanceId \<Rightarrow> 'r IptoRepoWriter \<Rightarrow> 'r IptoRepoWriter" where
  "irw_with_target target w = w\<lparr>irw_target := Some target\<rparr>"

fun resolve_attributes ::
  "'r repo_ops \<Rightarrow> (string \<times> string) list \<Rightarrow> 'r IptoRepoWriter \<Rightarrow> 'r IptoRepoWriter \<times> (IptoWriteError + unit)" where
  "resolve_attributes ops [] w = (w, Ok ())"
| "resolve_attributes ops ((qualname, attr_type) # names) w =
     (case rp_attribute_name_to_id ops qualname (irw_repo w) of
        Inl e \<Rightarrow> (w, Err (IptoWriteError_retryable (''id lookup for '' @ qualname @ '': '' @ e)))
      | Inr None \<Rightarrow> (w, Err (IptoWriteError_permanent (''attribute '' @ qualname @ '' not found after SDL configuration'')))
      | Inr (Some i) \<Rightarrow>
          resolve_attributes ops names (w\<lparr>irw_attr_ids := bt_insert qualname (i, attr_type) (irw_attr_ids w)\<rparr>))"

definition configure_sdl :: "'r repo_ops \<Rightarrow> 'r IptoRepoWriter \<Rightarrow> 'r IptoRepoWriter \<times> (IptoWriteError + unit)" where
  "configure_sdl ops w =
     (if irw_sdl_configured w then (w, Ok ())
      else case rp_configure_graphql_sdl ops PROV_O_SDL (irw_repo w) of
        (repo, Inl e) \<Rightarrow> (w\<lparr>irw_repo := repo\<rparr>, Err (IptoWriteError_retryable (''SDL configuration failed: '' @ e)))
      | (repo, Inr _) \<Rightarrow>
          (case resolve_attributes ops attribute_names (w\<lparr>irw_repo := repo\<rparr>) of
             (w, Inl e) \<Rightarrow> (w, Err e)
           | (w, Inr _) \<Rightarrow> (w\<lparr>irw_sdl_configured := True\<rparr>, Ok ())))"

subsection \<open>Correlation ids\<close>

definition hash_bytes :: "bytes \<Rightarrow> u8 \<Rightarrow> u64" where
  "hash_bytes input seed = foldl fnv_step (fnv_step fnv_offset seed) input"

fun hex :: "nat \<Rightarrow> nat \<Rightarrow> string" where
  "hex 0 n = []"
| "hex (Suc digits) n = hex digits (n div 16) @ [''0123456789abcdef'' ! (n mod 16)]"

unbundle bit_operations_syntax

definition corrid_for_key :: "IdempotencyKey \<Rightarrow> string" where
  "corrid_for_key key =
     (let bytes = as_bytes key;
          hi = hash_bytes bytes 0;
          lo = hash_bytes bytes 1
      in hex 8 (unat (ucast (drop_bit 32 hi) :: u32)) @ ''-'' @
         hex 4 (unat ((ucast (drop_bit 16 hi) :: u32) AND 0xFFFF)) @ ''-'' @
         hex 4 (unat (0x7000 OR ((ucast hi :: u32) AND 0x0FFF))) @ ''-'' @
         hex 4 (unat (0x8000 OR (drop_bit 16 (ucast lo :: u32) AND 0x3FFF))) @ ''-'' @
         hex 12 (unat (lo AND 0xFFFFFFFF)))"

subsection \<open>Units\<close>

definition correlation_exists :: "'r repo_ops \<Rightarrow> 'r IptoRepoWriter \<Rightarrow> string \<Rightarrow> IptoWriteError + bool" where
  "correlation_exists ops w corrid =
     (case rp_search_units ops (JObject [(''corrid'', JString corrid), (''tenantid'', JInt (sint (irw_tenant_id w)))])
             \<lparr>so_field = ''created'', so_descending = False\<rparr> \<lparr>sp_limit = 1, sp_offset = 0\<rparr> (irw_repo w) of
        Inl e \<Rightarrow> Err (IptoWriteError_retryable (''corrid search failed: '' @ e))
      | Inr total_hits \<Rightarrow> Ok (total_hits > 0))"

fun metadata_value_to_json :: "MetadataValue \<Rightarrow> json_value" where
  "metadata_value_to_json (MvString s) = JArray [JString s]"
| "metadata_value_to_json (MvInteger i) = JArray [JInt (sint i)]"
| "metadata_value_to_json (MvBoolean b) = JArray [JBool b]"
| "metadata_value_to_json (MvTimestamp t) = JArray [JString t]"
| "metadata_value_to_json (MvStringList v) = JArray (map JString v)"

definition attr_type_num :: "string \<Rightarrow> int" where
  "attr_type_num attr_type =
     (if attr_type = ''string'' then 1
      else if attr_type \<in> {''time'', ''instant'', ''timestamp'', ''datetime''} then 2
      else if attr_type \<in> {''int'', ''integer''} then 3
      else if attr_type = ''long'' then 4
      else if attr_type \<in> {''double'', ''float''} then 5
      else if attr_type \<in> {''bool'', ''boolean''} then 6
      else if attr_type \<in> {''data'', ''bytes'', ''blob''} then 7
      else 1)"

definition attribute_json :: "i64 \<Rightarrow> int \<Rightarrow> json_value \<Rightarrow> json_value" where
  "attribute_json attr_id num val =
     JObject [(''attrid'', JInt (sint attr_id)), (''attrtype'', JInt num), (''value'', val)]"

definition unit_json :: "i64 \<Rightarrow> string \<Rightarrow> json_value list \<Rightarrow> json_value" where
  "unit_json tenant_id corrid attributes =
     JObject [(''attributes'', JArray attributes), (''corrid'', JString corrid), (''status'', JInt 30),
              (''tenantid'', JInt (sint tenant_id))]"

definition build_unit_payload :: "'r IptoRepoWriter \<Rightarrow> IptoWritePayload \<Rightarrow> json_value" where
  "build_unit_payload w payload =
     unit_json (irw_tenant_id w) (corrid_for_key (wp_idempotency_key payload))
       (concat (map (\<lambda>(attr_name, val).
          case bt_get (irw_attr_ids w) attr_name of
            None \<Rightarrow> []
          | Some (attr_id, attr_type) \<Rightarrow> [attribute_json attr_id (attr_type_num attr_type) (metadata_value_to_json val)])
        (bt_iter (wp_attributes payload))))"

definition build_relation_unit :: "'r IptoRepoWriter \<Rightarrow> string \<Rightarrow> string \<Rightarrow> string \<Rightarrow> IptoWriteError + json_value" where
  "build_relation_unit w attr_qualname val corrid =
     (case bt_get (irw_attr_ids w) attr_qualname of
        None \<Rightarrow> Err (IptoWriteError_permanent (''relation attribute '' @ attr_qualname @ '' not found in SDL configuration''))
      | Some (attr_id, attr_type) \<Rightarrow>
          let label = (case bt_get (irw_attr_ids w) ''rdfs:label'' of
                         None \<Rightarrow> []
                       | Some (label_id, _) \<Rightarrow>
                           [attribute_json label_id 1
                              (JArray [JString (attr_qualname @ [CHR 0x20, CHR 0xE2, CHR 0x86, CHR 0x92, CHR 0x20] @ val)])])
          in Ok (unit_json (irw_tenant_id w) corrid
               (attribute_json attr_id (attr_type_num attr_type) (JArray [JString val]) # label)))"

subsection \<open>Writing\<close>

text \<open>The relation an attribute asks for: its key, the attribute of the unit, and the value.\<close>

definition relation_prefix :: string where
  "relation_prefix = ''vannak:relation:''"

definition relation_of :: "(MetadataValue \<Rightarrow> string) \<Rightarrow> IptoAttributeName \<times> MetadataValue \<Rightarrow> (string \<times> string \<times> string) option" where
  "relation_of debug entry =
     (case entry of (attr_name, val) \<Rightarrow>
        if take (length relation_prefix) attr_name \<noteq> relation_prefix then None
        else
          let relation_key = drop (length relation_prefix) attr_name;
              target_value = (case val of MvString s \<Rightarrow> s | other \<Rightarrow> debug other)
          in if relation_key = ''wasGeneratedBy'' then Some (relation_key, ''prov:wasGeneratedBy'', target_value)
             else if relation_key = ''wasDerivedFrom'' then Some (relation_key, ''prov:wasDerivedFrom'', target_value)
             else if relation_key = ''used'' then Some (relation_key, ''prov:used'', target_value)
             else None)"

definition relation_corrid :: "IdempotencyKey \<Rightarrow> string \<Rightarrow> string \<Rightarrow> string" where
  "relation_corrid key relation_key target_value =
     corrid_for_key (key @ '':relation:'' @ relation_key @ '':'' @ target_value)"

fun write_relations ::
  "'r repo_ops \<Rightarrow> IdempotencyKey \<Rightarrow> (string \<times> string \<times> string) list \<Rightarrow> 'r IptoRepoWriter \<Rightarrow>
     'r IptoRepoWriter \<times> (IptoWriteError + unit)" where
  "write_relations ops key [] w = (w, Ok ())"
| "write_relations ops key ((relation_key, target_attr, target_value) # rels) w =
     (let corrid = relation_corrid key relation_key target_value in
      case correlation_exists ops w corrid of
        Inl e \<Rightarrow> (w, Err e)
      | Inr True \<Rightarrow> write_relations ops key rels w
      | Inr False \<Rightarrow>
          (case build_relation_unit w target_attr target_value corrid of
             Inl e \<Rightarrow> (w, Err e)
           | Inr unit' \<Rightarrow>
               (case rp_store_unit_json ops unit' (irw_repo w) of
                  (repo, Inl e) \<Rightarrow> (w\<lparr>irw_repo := repo\<rparr>, Err (IptoWriteError_retryable (''store relation unit failed: '' @ e)))
                | (repo, Inr _) \<Rightarrow> write_relations ops key rels (w\<lparr>irw_repo := repo\<rparr>))))"

definition write_relation_units ::
  "'r repo_ops \<Rightarrow> (MetadataValue \<Rightarrow> string) \<Rightarrow> IptoWritePayload \<Rightarrow> 'r IptoRepoWriter \<Rightarrow> 'r IptoRepoWriter \<times> (IptoWriteError + unit)" where
  "write_relation_units ops debug payload w =
     write_relations ops (wp_idempotency_key payload) (List.map_filter (relation_of debug) (bt_iter (wp_attributes payload))) w"

definition store_entity ::
  "'r repo_ops \<Rightarrow> IptoWritePayload \<Rightarrow> 'r IptoRepoWriter \<Rightarrow> 'r IptoRepoWriter \<times> (IptoWriteError + unit)" where
  "store_entity ops payload w =
     (case correlation_exists ops w (corrid_for_key (wp_idempotency_key payload)) of
        Inl e \<Rightarrow> (w, Err e)
      | Inr True \<Rightarrow> (w, Ok ())
      | Inr False \<Rightarrow>
          (case rp_store_unit_json ops (build_unit_payload w payload) (irw_repo w) of
             (repo, Inl e) \<Rightarrow> (w\<lparr>irw_repo := repo\<rparr>, Err (IptoWriteError_retryable (''store unit failed: '' @ e)))
           | (repo, Inr _) \<Rightarrow> (w\<lparr>irw_repo := repo\<rparr>, Ok ())))"

definition IptoRepoWriter_write :: "'r repo_ops \<Rightarrow> (MetadataValue \<Rightarrow> string) \<Rightarrow> 'r IptoRepoWriter ipto_write" where
  "IptoRepoWriter_write ops debug w payload =
     (if (case irw_target w of None \<Rightarrow> False | Some target \<Rightarrow> target \<noteq> wp_target payload)
      then (w, Err (IptoWriteError_permanent ''payload target differs from the writer repository target''))
      else if \<not> irw_sdl_configured w
      then (w, Err (IptoWriteError_permanent (''IptoRepoWriter: SDL not configured '' @ [CHR 0xE2, CHR 0x80, CHR 0x94] @
                      '' call configure_sdl() first'')))
      else case store_entity ops payload w of
        (w, Inl e) \<Rightarrow> (w, Err e)
      | (w, Inr _) \<Rightarrow> write_relation_units ops debug payload w)"

definition deliver_next_pending_ipto ::
  "'r repo_ops \<Rightarrow> (MetadataValue \<Rightarrow> string) \<Rightarrow> MetadataOutbox \<Rightarrow> 'r IptoRepoWriter \<Rightarrow>
     MetadataOutbox \<times> 'r IptoRepoWriter \<times> MetadataOutboxDeliveryResult" where
  "deliver_next_pending_ipto ops debug outbox writer = deliver_next_pending (IptoRepoWriter_write ops debug) outbox writer"

subsection \<open>The contract of the repository\<close>

text \<open>
  A stored unit is found by its tenant and correlation id. A store that reports an error may have taken
  effect, for instance when the connection broke after the commit.
\<close>

type_synonym unit_key = "json_value option \<times> json_value option"

definition unit_key :: "json_value \<Rightarrow> unit_key" where
  "unit_key u = (json_get u ''tenantid'', json_get u ''corrid'')"

definition key_of :: "i64 \<Rightarrow> string \<Rightarrow> unit_key" where
  "key_of tenant_id corrid = (Some (JInt (sint tenant_id)), Some (JString corrid))"

definition repo_contract :: "'r repo_ops \<Rightarrow> ('r \<Rightarrow> json_value list) \<Rightarrow> bool" where
  "repo_contract ops units \<longleftrightarrow>
     (\<forall>v r r' res. rp_store_unit_json ops v r = (r', res) \<longrightarrow>
        units r' = units r @ [v] \<or> units r' = units r \<and> (\<exists>e. res = Inl e)) \<and>
     (\<forall>t c order paging r n. rp_search_units ops (JObject [(''corrid'', JString c), (''tenantid'', JInt (sint t))]) order paging r = Inr n \<longrightarrow>
        (n > 0 \<longleftrightarrow> key_of t c \<in> unit_key ` set (units r)))"

lemma contract_store:
  assumes "repo_contract ops units" "rp_store_unit_json ops v r = (r', res)"
  shows "units r' = units r @ [v] \<or> units r' = units r \<and> (\<exists>e. res = Inl e)"
  using assms unfolding repo_contract_def by blast

lemma contract_exists:
  assumes "repo_contract ops units" "correlation_exists ops w c = Inr b"
  shows "b \<longleftrightarrow> key_of (irw_tenant_id w) c \<in> unit_key ` set (units (irw_repo w))"
  using assms unfolding repo_contract_def correlation_exists_def by (auto split: sum.splits)

lemma key_unit_json [simp]: "unit_key (unit_json t c as) = key_of t c"
  by (simp add: unit_key_def unit_json_def key_of_def)

lemma key_built: "build_relation_unit w a v c = Inr u \<Longrightarrow> unit_key u = key_of (irw_tenant_id w) c"
  by (auto simp: build_relation_unit_def Let_def split: option.splits)

subsection \<open>What a write adds\<close>

text \<open>\<open>grows C us us'\<close>: units were added, one for each of some keys of \<open>C\<close> that had none.\<close>

definition grows :: "unit_key set \<Rightarrow> json_value list \<Rightarrow> json_value list \<Rightarrow> bool" where
  "grows C us us' \<longleftrightarrow> (\<exists>new. us' = us @ new \<and> distinct (map unit_key new) \<and>
     unit_key ` set new \<subseteq> C - unit_key ` set us)"

lemma grows_refl [simp]: "grows C us us"
  by (simp add: grows_def)

lemma grows_trans: "grows C us us' \<Longrightarrow> grows D us' us'' \<Longrightarrow> grows (C \<union> D) us us''"
proof -
  assume "grows C us us'" "grows D us' us''"
  then obtain new new' where n: "us' = us @ new" "distinct (map unit_key new)" "unit_key ` set new \<subseteq> C - unit_key ` set us"
    and n': "us'' = us' @ new'" "distinct (map unit_key new')" "unit_key ` set new' \<subseteq> D - unit_key ` set us'"
    unfolding grows_def by blast
  then have "distinct (map unit_key (new @ new'))" "unit_key ` set (new @ new') \<subseteq> C \<union> D - unit_key ` set us" by auto
  with n(1) n'(1) show ?thesis unfolding grows_def by (metis append.assoc)
qed

lemma grows_mono: "grows C us us' \<Longrightarrow> C \<subseteq> D \<Longrightarrow> grows D us us'"
  unfolding grows_def by blast

lemma grows_keys: "grows C us us' \<Longrightarrow> unit_key ` set us \<subseteq> unit_key ` set us'"
  unfolding grows_def by auto

lemma grows_nothing: "grows C us us' \<Longrightarrow> C \<subseteq> unit_key ` set us \<Longrightarrow> us' = us"
proof -
  assume "grows C us us'" "C \<subseteq> unit_key ` set us"
  then obtain new where n: "us' = us @ new" "unit_key ` set new \<subseteq> C - unit_key ` set us" unfolding grows_def by blast
  with \<open>C \<subseteq> unit_key ` set us\<close> have "unit_key ` set new \<subseteq> {}" by fast
  with n(1) show ?thesis by simp
qed

lemma store_grows:
  assumes "repo_contract ops units" "rp_store_unit_json ops v r = (r', res)" "unit_key v \<notin> unit_key ` set (units r)"
  shows "grows {unit_key v} (units r) (units r')" "res = Inr x \<Longrightarrow> unit_key v \<in> unit_key ` set (units r')"
  using contract_store [OF assms(1,2)] assms(3) by (auto simp: grows_def)

abbreviation units_of :: "('r \<Rightarrow> json_value list) \<Rightarrow> 'r IptoRepoWriter \<Rightarrow> json_value list" where
  "units_of units w \<equiv> units (irw_repo w)"

definition relation_key_of :: "i64 \<Rightarrow> IdempotencyKey \<Rightarrow> string \<times> string \<times> string \<Rightarrow> unit_key" where
  "relation_key_of t key rel = (case rel of (relation_key, _, val) \<Rightarrow> key_of t (relation_corrid key relation_key val))"

lemma store_entity_grows:
  fixes w w' :: "'r IptoRepoWriter"
  assumes "repo_contract ops units" "store_entity ops p w = (w', res)"
  defines "k \<equiv> key_of (irw_tenant_id w) (corrid_for_key (wp_idempotency_key p))"
  shows "grows {k} (units_of units w) (units_of units w')" "res = Inr x \<Longrightarrow> k \<in> unit_key ` set (units_of units w')"
    "irw_tenant_id w' = irw_tenant_id w"
proof -
  note ex = contract_exists [OF assms(1), of w "corrid_for_key (wp_idempotency_key p)"]
  have key: "unit_key (build_unit_payload w p) = k" by (simp add: build_unit_payload_def k_def)
  have "grows {k} (units_of units w) (units_of units w') \<and> (res = Inr x \<longrightarrow> k \<in> unit_key ` set (units_of units w')) \<and>
      irw_tenant_id w' = irw_tenant_id w"
  proof (cases "correlation_exists ops w (corrid_for_key (wp_idempotency_key p))")
    case (Inr b)
    show ?thesis
    proof (cases b)
      case True
      with ex Inr assms(2) show ?thesis by (auto simp: store_entity_def k_def)
    next
      case False
      obtain repo r where st: "rp_store_unit_json ops (build_unit_payload w p) (irw_repo w) = (repo, r)" by (metis prod.collapse)
      with False Inr assms(2) have "w' = w\<lparr>irw_repo := repo\<rparr>" "res = Inr x \<longrightarrow> (\<exists>y. r = Inr y)"
        by (auto simp: store_entity_def split: sum.splits)
      with store_grows [OF assms(1) st] ex Inr False show ?thesis by (auto simp: key k_def)
    qed
  qed (use assms(2) in \<open>auto simp: store_entity_def\<close>)
  then show "grows {k} (units_of units w) (units_of units w')" "res = Inr x \<Longrightarrow> k \<in> unit_key ` set (units_of units w')"
    "irw_tenant_id w' = irw_tenant_id w" by auto
qed

lemma write_relations_grows:
  assumes "repo_contract ops units" "write_relations ops key rels w = (w', res)"
  shows "grows (relation_key_of (irw_tenant_id w) key ` set rels) (units_of units w) (units_of units w') \<and>
    (\<forall>x. res = Inr x \<longrightarrow> relation_key_of (irw_tenant_id w) key ` set rels \<subseteq> unit_key ` set (units_of units w')) \<and>
    irw_tenant_id w' = irw_tenant_id w"
  using assms(2)
proof (induction rels arbitrary: w)
  case (Cons rel rels)
  obtain rk a v where rel: "rel = (rk, a, v)" by (cases rel)
  let ?c = "relation_corrid key rk v" and ?t = "irw_tenant_id w"
  have k: "relation_key_of ?t key rel = key_of ?t ?c" by (simp add: relation_key_of_def rel)
  note ex = contract_exists [OF assms(1), of w ?c]
  have step: ?case if "grows {key_of ?t ?c} (units_of units w) (units_of units w1)" "key_of ?t ?c \<in> unit_key ` set (units_of units w1)"
    "irw_tenant_id w1 = ?t" "write_relations ops key rels w1 = (w', res)" for w1
  proof -
    let ?K = "relation_key_of ?t key ` set rels"
    have rest: "grows ?K (units_of units w1) (units_of units w')" "irw_tenant_id w' = ?t"
      "\<forall>x. res = Inr x \<longrightarrow> ?K \<subseteq> unit_key ` set (units_of units w')"
      using Cons.IH [OF that(4)] that(3) by simp_all
    have "grows ({key_of ?t ?c} \<union> ?K) (units_of units w) (units_of units w')" by (rule grows_trans [OF that(1) rest(1)])
    moreover have "key_of ?t ?c \<in> unit_key ` set (units_of units w')" using grows_keys [OF rest(1)] that(2) by blast
    ultimately show ?thesis using rest(2,3) k by simp
  qed
  show ?case
  proof (cases "correlation_exists ops w ?c")
    case (Inr b)
    show ?thesis
    proof (cases b)
      case True
      with Inr ex Cons.prems show ?thesis by (intro step [of w]) (auto simp: rel)
    next
      case False
      show ?thesis
      proof (cases "build_relation_unit w a v ?c")
        case (Inr u)
        obtain repo r where st: "rp_store_unit_json ops u (irw_repo w) = (repo, r)" by (metis prod.collapse)
        have new: "unit_key u \<notin> unit_key ` set (units_of units w)" "unit_key u = key_of ?t ?c"
          using ex \<open>correlation_exists ops w ?c = Inr b\<close> False key_built [OF Inr] by auto
        note grown = store_grows [OF assms(1) st new(1)]
        show ?thesis
        proof (cases r)
          case (Inl e)
          then have "w' = w\<lparr>irw_repo := repo\<rparr>" "\<exists>e. res = Inl e"
            using Cons.prems Inr \<open>correlation_exists ops w ?c = Inr b\<close> False st by (auto simp: rel)
          with grown(1) new(2) k show ?thesis by (auto intro: grows_mono)
        next
          case (Inr x)
          then show ?thesis
            using Cons.prems \<open>build_relation_unit w a v ?c = Inr u\<close> \<open>correlation_exists ops w ?c = Inr b\<close> False st grown new(2)
            by (intro step [of "w\<lparr>irw_repo := repo\<rparr>"]) (auto simp: rel)
        qed
      qed (use Cons.prems Inr False in \<open>auto simp: rel\<close>)
    qed
  qed (use Cons.prems in \<open>auto simp: rel\<close>)
qed simp

text \<open>The units that a payload stands for: its own and one for each relation.\<close>

definition payload_keys :: "(MetadataValue \<Rightarrow> string) \<Rightarrow> i64 \<Rightarrow> IptoWritePayload \<Rightarrow> unit_key set" where
  "payload_keys debug t p =
     insert (key_of t (corrid_for_key (wp_idempotency_key p)))
       (relation_key_of t (wp_idempotency_key p) ` set (List.map_filter (relation_of debug) (bt_iter (wp_attributes p))))"

lemma write_grows:
  assumes "repo_contract ops units" "IptoRepoWriter_write ops debug w p = (w', res)"
  shows "grows (payload_keys debug (irw_tenant_id w) p) (units_of units w) (units_of units w')" (is ?grows)
    and "res = Inr x \<Longrightarrow> payload_keys debug (irw_tenant_id w) p \<subseteq> unit_key ` set (units_of units w')"
    and "irw_tenant_id w' = irw_tenant_id w"
proof -
  let ?t = "irw_tenant_id w"
  let ?k = "key_of ?t (corrid_for_key (wp_idempotency_key p))"
  let ?K = "relation_key_of ?t (wp_idempotency_key p) ` set (List.map_filter (relation_of debug) (bt_iter (wp_attributes p)))"
  have keys: "payload_keys debug ?t p = {?k} \<union> ?K" by (simp add: payload_keys_def)
  have "?grows \<and> (res = Inr x \<longrightarrow> {?k} \<union> ?K \<subseteq> unit_key ` set (units_of units w')) \<and> irw_tenant_id w' = ?t"
  proof (cases "(case irw_target w of None \<Rightarrow> False | Some target \<Rightarrow> target \<noteq> wp_target p) \<or> \<not> irw_sdl_configured w")
    case True
    then have "w' = w \<and> (\<exists>e. res = Inl e)" using assms(2) unfolding IptoRepoWriter_write_def by (auto split: if_splits)
    then show ?thesis by auto
  next
    case False
    obtain w1 r1 where e: "store_entity ops p w = (w1, r1)" by (metis prod.collapse)
    note first = store_entity_grows [OF assms(1) e]
    show ?thesis
    proof (cases r1)
      case (Inl err)
      then have "w' = w1" "\<exists>e. res = Inl e" using assms(2) False e unfolding IptoRepoWriter_write_def by auto
      with first(1,3) keys show ?thesis by (auto intro: grows_mono)
    next
      case (Inr y)
      then have "write_relations ops (wp_idempotency_key p) (List.map_filter (relation_of debug) (bt_iter (wp_attributes p))) w1 = (w', res)"
        using assms(2) False e unfolding IptoRepoWriter_write_def by (auto simp: write_relation_units_def)
      note rest = write_relations_grows [OF assms(1) this, unfolded first(3)]
      have "?k \<in> unit_key ` set (units_of units w')"
        using first(2) [OF Inr] grows_keys [OF conjunct1 [OF rest]] by blast
      moreover have "grows ({?k} \<union> ?K) (units_of units w) (units_of units w')"
        by (rule grows_trans [OF first(1) conjunct1 [OF rest]])
      ultimately show ?thesis using rest keys by simp
    qed
  qed
  then show ?grows and "res = Inr x \<Longrightarrow> payload_keys debug ?t p \<subseteq> unit_key ` set (units_of units w')"
    and "irw_tenant_id w' = ?t" unfolding keys by blast+
qed

text \<open>A sequence of writes, each with its result.\<close>

fun write_all_payloads ::
  "'r repo_ops \<Rightarrow> (MetadataValue \<Rightarrow> string) \<Rightarrow> IptoWritePayload list \<Rightarrow> 'r IptoRepoWriter \<Rightarrow>
     'r IptoRepoWriter \<times> (IptoWritePayload \<times> (IptoWriteError + unit)) list" where
  "write_all_payloads ops debug [] w = (w, [])"
| "write_all_payloads ops debug (p # ps) w =
     (let (w1, r) = IptoRepoWriter_write ops debug w p; (w2, rs) = write_all_payloads ops debug ps w1 in (w2, (p, r) # rs))"

lemma write_all_grows:
  assumes "repo_contract ops units" "write_all_payloads ops debug ps w = (w', rs)"
  shows "grows (\<Union>p \<in> set ps. payload_keys debug (irw_tenant_id w) p) (units_of units w) (units_of units w') \<and>
    (\<forall>p x. (p, Inr x) \<in> set rs \<longrightarrow> payload_keys debug (irw_tenant_id w) p \<subseteq> unit_key ` set (units_of units w')) \<and>
    irw_tenant_id w' = irw_tenant_id w"
  using assms(2)
proof (induction ps arbitrary: w rs)
  case (Cons p ps)
  obtain w1 r where w: "IptoRepoWriter_write ops debug w p = (w1, r)" by (metis prod.collapse)
  obtain rs1 where ws: "write_all_payloads ops debug ps w1 = (w', rs1)" "rs = (p, r) # rs1"
    using Cons.prems w by (auto split: prod.splits)
  note first = write_grows [OF assms(1) w]
  note rest = Cons.IH [OF ws(1), unfolded first(3)]
  have "payload_keys debug (irw_tenant_id w) p \<subseteq> unit_key ` set (units_of units w')" if "r = Inr x" for x
    using first(2) [OF that] grows_keys [OF conjunct1 [OF rest]] by blast
  with rest grows_trans [OF first(1) conjunct1 [OF rest]] ws(2) show ?case by auto
qed simp

text \<open>
  (C33) Delivery at least once has an effect at most once. Over any sequence of writes of one writer, with
  repository calls that fail before or after they took effect, the units that are added have different
  correlation ids, none of which the repository had for the tenant, and each belongs to a payload of the
  sequence. A payload whose write succeeded has its unit and the unit of each of its relations, and
  writing it again leaves the repository as it is, whatever the result.
\<close>

theorem delivery_effectively_once:
  assumes "repo_contract ops units" "write_all_payloads ops debug ps w = (w', rs)"
  shows "(\<exists>new. units_of units w' = units_of units w @ new \<and> distinct (map unit_key new) \<and>
      unit_key ` set new \<inter> unit_key ` set (units_of units w) = {} \<and>
      unit_key ` set new \<subseteq> (\<Union>p \<in> set ps. payload_keys debug (irw_tenant_id w) p)) \<and>
    (\<forall>p x. (p, Inr x) \<in> set rs \<longrightarrow>
      payload_keys debug (irw_tenant_id w) p \<subseteq> unit_key ` set (units_of units w') \<and>
      units_of units (fst (IptoRepoWriter_write ops debug w' p)) = units_of units w')"
proof -
  note all = write_all_grows [OF assms]
  have "units_of units (fst (IptoRepoWriter_write ops debug w' p)) = units_of units w'"
    if "payload_keys debug (irw_tenant_id w) p \<subseteq> unit_key ` set (units_of units w')" for p
  proof -
    obtain w2 r where w: "IptoRepoWriter_write ops debug w' p = (w2, r)" by (metis prod.collapse)
    with grows_nothing [OF write_grows(1) [OF assms(1) w]] that all show ?thesis by simp
  qed
  moreover obtain new where "units_of units w' = units_of units w @ new" "distinct (map unit_key new)"
    "unit_key ` set new \<subseteq> (\<Union>p \<in> set ps. payload_keys debug (irw_tenant_id w) p) - unit_key ` set (units_of units w)"
    using conjunct1 [OF all] unfolding grows_def by blast
  ultimately show ?thesis using all by blast
qed

subsection \<open>A repository\<close>

definition list_repo :: "json_value list repo_ops" where
  "list_repo =
     \<lparr>rp_configure_graphql_sdl = \<lambda>_ r. (r, Ok ()), rp_attribute_name_to_id = \<lambda>_ _. Ok (Some 1),
      rp_search_units = \<lambda>query _ _ r. Ok (int (length (filter (\<lambda>u. unit_key u = unit_key query) r))),
      rp_store_unit_json = \<lambda>v r. (r @ [v], Ok ())\<rparr>"

lemma list_repo_contract: "repo_contract list_repo id"
proof -
  have hits: "0 < length (filter (\<lambda>u. unit_key u = k) us) \<longleftrightarrow> k \<in> unit_key ` set us" for k us
    by (induction us) auto
  have "unit_key (JObject [(''corrid'', JString c), (''tenantid'', JInt (sint t))]) = key_of t c" for c and t :: i64
    by (simp add: unit_key_def key_of_def)
  with hits show ?thesis by (simp add: repo_contract_def list_repo_def)
qed

definition relation_free_payload :: IptoWritePayload where
  "relation_free_payload =
     \<lparr>wp_target = ''ipto-a'', wp_shard_id = 5, wp_idempotency_key = ''d:m'', wp_mapping_version = ''1'',
      wp_attributes = bt_empty, wp_provenance = None\<rparr>"

definition list_writer :: "json_value list IptoRepoWriter" where
  "list_writer = (IptoRepoWriter_new [] 1)\<lparr>irw_sdl_configured := True\<rparr>"

text \<open>A payload that is delivered twice has one unit.\<close>

lemma delivery_effectively_once_witness:
  "\<exists>w'. write_all_payloads list_repo (\<lambda>_. []) [relation_free_payload, relation_free_payload] list_writer
      = (w', [(relation_free_payload, Ok ()), (relation_free_payload, Ok ())]) \<and>
    irw_repo w' = [build_unit_payload list_writer relation_free_payload] \<and>
    irw_repo (fst (IptoRepoWriter_write list_repo (\<lambda>_. []) w' relation_free_payload)) = irw_repo w'"
proof -
  let ?p = relation_free_payload
  let ?u = "build_unit_payload list_writer ?p"
  let ?w = "list_writer\<lparr>irw_repo := [?u]\<rparr>"
  have key: "unit_key ?u = key_of 1 (corrid_for_key ''d:m'')"
    by (simp add: build_unit_payload_def list_writer_def IptoRepoWriter_new_def relation_free_payload_def)
  have found: "correlation_exists list_repo ?w (corrid_for_key ''d:m'') = Ok True"
    "correlation_exists list_repo list_writer (corrid_for_key ''d:m'') = Ok False"
    using key by (simp_all add: correlation_exists_def list_repo_def unit_key_def key_of_def list_writer_def IptoRepoWriter_new_def)
  have shape: "irw_sdl_configured list_writer" "irw_target list_writer = None" "wp_idempotency_key ?p = ''d:m''"
    "bt_iter (wp_attributes ?p) = []" "irw_repo list_writer = []"
    by (simp_all add: list_writer_def IptoRepoWriter_new_def relation_free_payload_def)
  have store: "rp_store_unit_json list_repo ?u [] = ([?u], Ok ())" by (simp add: list_repo_def)
  have first: "IptoRepoWriter_write list_repo (\<lambda>_. []) list_writer ?p = (?w, Ok ())"
    using found(2) shape store
    by (simp add: IptoRepoWriter_write_def store_entity_def write_relation_units_def map_filter_simps)
  have again: "IptoRepoWriter_write list_repo (\<lambda>_. []) ?w ?p = (?w, Ok ())"
    using found(1) shape
    by (simp add: IptoRepoWriter_write_def store_entity_def write_relation_units_def map_filter_simps)
  have run: "write_all_payloads list_repo (\<lambda>_. []) [?p, ?p] list_writer = (?w, [(?p, Ok ()), (?p, Ok ())])"
    using first again by simp
  from delivery_effectively_once [OF list_repo_contract run]
  have "irw_repo (fst (IptoRepoWriter_write list_repo (\<lambda>_. []) ?w ?p)) = irw_repo ?w" by simp
  with run show ?thesis by auto
qed

end
