(* ===== verification/Node_Start.thy ===== *)
theory Node_Start
  imports Supervisor Background_Writer Ipto_Adapter
begin

text \<open>
  The start of the supervisor (\<open>run\<close> in \<open>src/bin/vannak.rs\<close>) up to the point where it serves requests: the
  placement map, the identity of the outbox, the process runtime with its workers, the service from the
  outbox segment, the replay of the journal into the runtime, the control plane and the Ipto writer.

  Everything outside the program that the start asks is a field of \<open>environment\<close>. The lemmas show what a
  start makes of the files it finds: it recovers what they hold, and it creates those that are missing.
\<close>

subsection \<open>The environment\<close>

datatype run_error =
  RuText string
| RuDirectory path io_error
| RuRuntime SitasRuntimeError
| RuOutbox MetadataOutboxStorageError
| RuService VannakServiceError
| RuJournal ProcessEventJournalError
| RuRaft string
| RuControl "plane_error option"
| RuIpto IptoWriteError
| RuPanic

text \<open>
  \<open>en_replay n\<close> is what the executor does with the \<open>n\<close>-th replayed event, \<open>en_raft\<close> the control plane that
  the Raft thread hands over, or why it did not; \<open>en_attempts\<close> counts the attempts of the initialisation
  that start in time.
\<close>

record ('m, 'q, 'a, 'r) environment =
  en_home :: "string option"
  en_current_dir :: "string option"
  en_create_dir_all :: "path \<Rightarrow> io_error option"
  en_mailbox :: "'m mailbox_ops"
  en_executor :: "sitas_error + unit"
  en_mailboxes :: "sitas_error + unit"
  en_workers :: "sitas_error + unit"
  en_outbox_io :: disk_io
  en_journal_io :: disk_io
  en_replay :: "nat \<Rightarrow> exec_call"
  en_resolver :: "'a resolver"
  en_raft :: "string + 'q"
  en_raft_read :: "'q plane_read"
  en_raft_propose :: "'q plane_propose"
  en_attempts :: nat
  en_repo_ops :: "'r repo_ops"
  en_repo :: 'r

subsection \<open>Placement, mapping and the outbox\<close>

definition start_placement :: "SupervisorConfig \<Rightarrow> run_error + IptoPlacementMap" where
  "start_placement config =
     (case su_placement config of
        Some placement \<Rightarrow> Ok placement
      | None \<Rightarrow> (case default_placement of Inl _ \<Rightarrow> Err RuPanic | Inr placement \<Rightarrow> Ok placement))"

definition default_mapping :: IptoMapping where
  "default_mapping =
     map_field ''vannak:activityId'' ''vannak:activityId''
    (map_field ''vannak:processInstanceId'' ''vannak:processInstanceId''
    (map_field ''vannak:dataIndividualId'' ''vannak:dataIndividualId'' (IptoMapping_new ''v1'')))"

text \<open>\<open>PathBuf::join\<close> for a relative component.\<close>

definition path_join :: "path \<Rightarrow> string \<Rightarrow> path" where
  "path_join p s = (if p = [] then s else if last p = CHR ''/'' then p @ s else p @ ''/'' @ s)"

definition default_outbox_dir :: "('m, 'q, 'a, 'r) environment \<Rightarrow> SupervisorConfig \<Rightarrow> path" where
  "default_outbox_dir env config =
     (case su_raft config of
        Some raft \<Rightarrow> path_join (ra_data_dir raft) ''vannak''
      | None \<Rightarrow>
          (case en_home env of
             Some home \<Rightarrow> path_join (path_join (path_join home ''.local'') ''state'') ''vannak''
           | None \<Rightarrow> path_join (case en_current_dir env of Some d \<Rightarrow> d | None \<Rightarrow> ''.'') ''vannak''))"

definition default_outbox_path :: "('m, 'q, 'a, 'r) environment \<Rightarrow> SupervisorConfig \<Rightarrow> run_error + path" where
  "default_outbox_path env config =
     (let dir = default_outbox_dir env config in
      case en_create_dir_all env dir of
        Some e \<Rightarrow> Err (RuDirectory dir e)
      | None \<Rightarrow> Ok (path_join dir ''metadata-outbox.seg''))"

definition outbox_identity ::
  "('m, 'q, 'a, 'r) environment \<Rightarrow> SupervisorConfig \<Rightarrow> run_error + path \<times> SegmentId \<times> NodeId" where
  "outbox_identity env config =
     res_bind (case su_outbox_path config of Some p \<Rightarrow> Ok p | None \<Rightarrow> default_outbox_path env config) (\<lambda>p.
     let seg_id = (case su_outbox_segment_id config of Some s \<Rightarrow> s | None \<Rightarrow> ''default-outbox'');
         node_id = (case su_outbox_node_id config of
                      Some n \<Rightarrow> n
                    | None \<Rightarrow> (case su_raft config of None \<Rightarrow> ''vannak'' | Some raft \<Rightarrow> ra_peer_id raft)) in
     if \<exists>raft. su_raft config = Some raft \<and> node_id \<noteq> ra_peer_id raft
     then Err (RuText ''--outbox node id must match --raft peer id'')
     else Ok (p, seg_id, node_id))"

definition journal_path :: "SupervisorConfig \<Rightarrow> path \<Rightarrow> path" where
  "journal_path config outbox_path =
     (case su_process_journal_path config of Some p \<Rightarrow> p | None \<Rightarrow> outbox_path @ ''.process.seg'')"

subsection \<open>Runtime, service and journal\<close>

definition runtime_size :: "SupervisorConfig \<Rightarrow> nat \<times> nat" where
  "runtime_size config =
     (case su_kafka config of None \<Rightarrow> (1, 1024) | Some kafka \<Rightarrow> (ka_shards kafka, ka_mailbox_capacity kafka))"

definition start_process_runtime :: "('m, 'q, 'a, 'r) environment \<Rightarrow> SupervisorConfig \<Rightarrow> run_error + 'm WorkerRuntime" where
  "start_process_runtime env config =
     (let (shards, mailbox_capacity) = runtime_size config in
      res_bind (map_err RuRuntime
        (WorkerRuntime_start (en_mailbox env) (en_executor env) (en_mailboxes env) (SitasRuntimeConfig_new shards mailbox_capacity))) (\<lambda>wr.
      case start_mailbox_workers (en_workers env) wr of
        (wr, Inl e) \<Rightarrow> Err (RuRuntime e)
      | (wr, Inr _) \<Rightarrow> Ok wr))"

definition open_service ::
  "disk_io \<Rightarrow> fs \<Rightarrow> IptoPlacementMap \<Rightarrow> IptoMapping \<Rightarrow> path \<Rightarrow> SegmentId \<Rightarrow> NodeId \<Rightarrow>
     fs \<times> (run_error + ('m, 'p) VannakService)" where
  "open_service io fs placement mapping p sid nid =
     (if fs p \<noteq> None then
        (fs, res_bind (map_err RuOutbox (VannakService_recover_after fs placement mapping p sid nid None)) (\<lambda>recovery.
               Ok (vsr_service recovery)))
      else
        (case VannakService_create io fs placement mapping p sid nid of (fs, r) \<Rightarrow> (fs, map_err RuOutbox r)))"

fun ingest_recovered ::
  "(nat \<Rightarrow> exec_call) \<Rightarrow> JournaledPipelineEvent list \<Rightarrow> ('m, 'p) VannakService \<Rightarrow>
     ('m, 'p) VannakService \<times> (VannakServiceError + unit)" where
  "ingest_recovered calls [] svc = (svc, Ok ())"
| "ingest_recovered calls (event # events) svc =
     (case ingest_process_event (calls 0) (je_event event) svc of
        (svc, Inl e) \<Rightarrow> (svc, Err e)
      | (svc, Inr _) \<Rightarrow> ingest_recovered (\<lambda>n. calls (Suc n)) events svc)"

definition open_journal ::
  "disk_io \<Rightarrow> (nat \<Rightarrow> exec_call) \<Rightarrow> fs \<Rightarrow> path \<Rightarrow> NodeId \<Rightarrow> ('m, 'p) VannakService \<Rightarrow>
     fs \<times> (run_error + ('m, 'p) VannakService)" where
  "open_journal io calls fs p nid svc =
     (if fs p \<noteq> None then
        (case ProcessEventJournal_recover fs p ''process-journal'' nid of
           Inl e \<Rightarrow> (fs, Err (RuJournal e))
         | Inr recovery \<Rightarrow>
             (case ingest_recovered calls (rp_events (jr_replay recovery)) svc of
                (svc, Inl e) \<Rightarrow> (fs, Err (RuService e))
              | (svc, Inr _) \<Rightarrow> (fs, Ok (with_process_event_journal (jr_journal recovery) svc))))
      else
        (case ProcessEventJournal_create io fs p ''process-journal'' nid of
           (fs, Inl e) \<Rightarrow> (fs, Err (RuJournal e))
         | (fs, Inr journal) \<Rightarrow> (fs, Ok (with_process_event_journal journal svc))))"

subsection \<open>The control plane of a node\<close>

datatype 'q node_plane = LocalPlane ControlMutex | RaftPlane 'q

fun node_plane_read :: "'q plane_read \<Rightarrow> 'q node_plane plane_read" where
  "node_plane_read read (LocalPlane m) = (case mutex_read m of (m, r) \<Rightarrow> (LocalPlane m, r))"
| "node_plane_read read (RaftPlane q) = (case read q of (q, r) \<Rightarrow> (RaftPlane q, r))"

definition committed :: "'q plane_read \<Rightarrow> 'q node_plane \<Rightarrow> plane_error + ClusterControlState" where
  "committed read plane = snd (node_plane_read read plane)"

definition cluster_nodes :: "'a resolver \<Rightarrow> RaftArgs \<Rightarrow> NodeId list" where
  "cluster_nodes rs raft =
     remdups_adj (sort (ra_peer_id raft # List.map_filter (\<lambda>peer. map_option fst (parse_peer_spec rs peer)) (ra_peers raft)))"

fun plane_ready :: "('s \<Rightarrow> 'q node_plane) \<Rightarrow> 's \<times> start_result \<Rightarrow> run_error + 'q node_plane" where
  "plane_ready plane (q, SrReady) = Ok (plane q)"
| "plane_ready plane (q, SrFailed e) = Err (RuControl e)"
| "plane_ready plane (q, SrPanicked) = Err RuPanic"

definition start_control_plane ::
  "('m, 'q, 'a, 'r) environment \<Rightarrow> SupervisorConfig \<Rightarrow> IptoPlacementMap \<Rightarrow> NodeId \<Rightarrow> run_error + 'q node_plane" where
  "start_control_plane env config placement node_id =
     (case su_raft config of
        Some raft \<Rightarrow>
          (case en_raft env of
             Inl e \<Rightarrow> Err (RuRaft e)
           | Inr plane \<Rightarrow>
               plane_ready RaftPlane (initialize_control_plane (en_raft_read env) (en_raft_propose env) placement
                 (cluster_nodes (en_resolver env) raft) (en_attempts env) plane))
      | None \<Rightarrow>
          plane_ready LocalPlane (initialize_control_plane mutex_read ControlMutex_propose placement [node_id] (en_attempts env)
            \<lparr>cmx_poisoned = False, cmx_state = ClusterControlState_new\<rparr>))"

subsection \<open>The Ipto writer\<close>

definition start_ipto_writer ::
  "('m, 'q, 'a, 'r) environment \<Rightarrow> SupervisorConfig \<Rightarrow> IptoPlacementMap \<Rightarrow> run_error + 'r IptoRepoWriter option" where
  "start_ipto_writer env config placement =
     (if su_with_ipto config then
        if length (map_instances placement) \<noteq> 1
        then Err (RuText ''--with-ipto currently supports one placement target per supervisor'')
        else
          (case configure_sdl (en_repo_ops env)
                  (irw_with_target (map_instances placement ! 0) (IptoRepoWriter_new (en_repo env) (su_ipto_tenant_id config))) of
             (writer, Inr _) \<Rightarrow> Ok (Some writer)
           | (_, Inl e) \<Rightarrow> if su_require_ipto config then Err (RuIpto e) else Ok None)
      else Ok None)"

subsection \<open>The start\<close>

definition daemon_config :: "SupervisorConfig \<Rightarrow> DaemonConfig" where
  "daemon_config config =
     \<lparr>dc_bind_address = (case su_health_bind_address config of Some a \<Rightarrow> a | None \<Rightarrow> ''127.0.0.1:9090''),
      dc_read_timeout_ms = 10 * 1000, dc_max_request_body_bytes = su_max_request_body_bytes config\<rparr>"

definition writer_config :: "SupervisorConfig \<Rightarrow> BackgroundWriterConfig" where
  "writer_config config =
     \<lparr>bwc_interval_ms = unat (su_writer_interval_secs config) * 1000, bwc_max_drain_attempts_per_target = 100, bwc_verbose = False\<rparr>"

text \<open>The started node; the tasks are those of the workers of its process runtime.\<close>

record ('m, 'q, 'r) SupervisedNode =
  sn_service :: "('m, 'q node_plane) VannakService"
  sn_tasks :: "worker_task list"
  sn_daemon_config :: DaemonConfig
  sn_writer_config :: BackgroundWriterConfig
  sn_ipto_writer :: "'r IptoRepoWriter option"

definition open_node_service ::
  "('m, 'q, 'a, 'r) environment \<Rightarrow> SupervisorConfig \<Rightarrow> IptoPlacementMap \<Rightarrow> path \<times> SegmentId \<times> NodeId \<Rightarrow> 'm SitasShardRuntime \<Rightarrow> fs \<Rightarrow>
     fs \<times> (run_error + ('m, 'q node_plane) VannakService)" where
  "open_node_service env config placement ident runtime fs =
     (case ident of (outbox_path, segment_id, node_id) \<Rightarrow>
      (case open_service (en_outbox_io env) fs placement default_mapping outbox_path segment_id node_id of
         (fs, Inl e) \<Rightarrow> (fs, Err e)
       | (fs, Inr svc) \<Rightarrow>
      (case with_sitas_runtime (Ok ()) runtime svc of
         Inl e \<Rightarrow> (fs, Err (RuService e))
       | Inr svc \<Rightarrow>
           if journal_path config outbox_path = outbox_path
           then (fs, Err (RuText ''journal and metadata outbox must use different files''))
           else open_journal (en_journal_io env) (en_replay env) fs (journal_path config outbox_path) node_id svc)))"

definition start_node ::
  "('m, 'q, 'a, 'r) environment \<Rightarrow> SupervisorConfig \<Rightarrow> fs \<Rightarrow> fs \<times> (run_error + ('m, 'q, 'r) SupervisedNode)" where
  "start_node env config fs =
     (case start_placement config of Inl e \<Rightarrow> (fs, Err e) | Inr placement \<Rightarrow>
     (case outbox_identity env config of Inl e \<Rightarrow> (fs, Err e) | Inr (outbox_path, segment_id, node_id) \<Rightarrow>
     (case start_process_runtime env config of Inl e \<Rightarrow> (fs, Err e) | Inr wr \<Rightarrow>
     (case open_node_service env config placement (outbox_path, segment_id, node_id) (wr_runtime wr) fs of
        (fs, Inl e) \<Rightarrow> (fs, Err e)
      | (fs, Inr svc) \<Rightarrow>
     (fs,
      res_bind (start_control_plane env config placement node_id) (\<lambda>plane.
      res_bind (start_ipto_writer env config placement) (\<lambda>writer.
      Ok \<lparr>sn_service = set_control_plane plane node_id svc, sn_tasks = wr_tasks wr, sn_daemon_config = daemon_config config,
          sn_writer_config = writer_config config, sn_ipto_writer = writer\<rparr>)))))))"

definition run_start ::
  "('m, 'q, 'a, 'r) environment \<Rightarrow> (string \<Rightarrow> string \<Rightarrow> string list) \<Rightarrow> string list \<Rightarrow> fs \<Rightarrow>
     fs \<times> (run_error + ('m, 'q, 'r) SupervisedNode)" where
  "run_start env resolve args fs =
     (case parse_args resolve args of Inl e \<Rightarrow> (fs, Err (RuText e)) | Inr config \<Rightarrow> start_node env config fs)"

subsection \<open>Placement\<close>

lemma all_points_Nil: "all_points slots = [] \<longleftrightarrow> (\<forall>sl \<in> set slots. sl_vnodes sl = 0)"
  by (auto simp: all_points_def slot_points_def unat_eq_0)

lemma override_target: "first_override rs s = Some t \<Longrightarrow> t \<in> rn_target ` set rs"
  by (induction rs s rule: first_override.induct) (auto split: if_splits)

lemma placement_resolves:
  assumes "placement_wf m"
  shows "\<exists>t \<in> set (map_instances m). map_resolve m s = Some t"
proof (cases "first_override (pm_overrides m) s")
  case (Some t)
  then have "t \<in> rn_target ` set (pm_overrides m)" by (rule override_target)
  with Some show ?thesis by (auto simp: map_resolve_def map_instances_def)
next
  case None
  from assms have new: "IptoPlacementMap_new (pm_epoch m) (pm_slots m) (pm_overrides m) = Inr m" by (simp add: placement_wf_def)
  have ring: "pm_ring m = IptoPlacementRing_new (pm_epoch m) (pm_slots m)"
    using IptoPlacementMap_new_okD(3) [OF new] by (metis IptoPlacementMap.select_convs(3))
  obtain sl where "sl \<in> set (pm_slots m)" "sl_vnodes sl \<noteq> 0"
    using assms IptoPlacementMap_new_okD(1) [OF new] by (cases "pm_slots m") (auto simp: placement_wf_def)
  then have pts: "all_points (pm_slots m) \<noteq> []" by (auto simp: all_points_Nil)
  let ?t = "rg_instance (nearest s (all_points (pm_slots m)))"
  have "?t \<in> rg_instance ` set (ring_points (pm_ring m))"
    using nearest_props(1) [OF pts, of s] by (simp add: ring IptoPlacementRing_new_def flip: all_points_def)
  then have "?t \<in> set (map_instances m)" by (auto simp: map_instances_def ring_instances_def set_first_seen)
  with None pts show ?thesis by (auto simp: map_resolve_def ring ring_resolve_new)
qed

lemma start_placement_ok:
  assumes "options_ok config"
  shows "\<exists>m. start_placement config = Inr m \<and> placement_wf m"
proof (cases "su_placement config")
  case None
  obtain m where m: "default_placement = Inr m" "placement_wf m" using default_placement_ok by blast
  show ?thesis unfolding start_placement_def None option.case m(1) using m(2) by simp
next
  case (Some m)
  with assms have "placement_ok m" by (simp add: options_ok_def)
  then have "IptoPlacementMap_new (pm_epoch m) (pm_slots m) [] = Inr m" "\<forall>sl \<in> set (pm_slots m). sl_vnodes sl \<noteq> 0"
    by (simp_all add: placement_ok_def)
  moreover from this IptoPlacementMap_new_okD(3) [OF this(1)] have "pm_overrides m = []"
    by (metis IptoPlacementMap.select_convs(4) sort_key_simps(1))
  ultimately show ?thesis using Some by (simp add: start_placement_def placement_wf_def list_all_iff)
qed

subsection \<open>The runtime and the replay\<close>

lemma start_runtime_ok:
  assumes "runtime_size config = (n, c)" "0 < n" "0 < c"
    and "en_executor env = Inr ()" "en_mailboxes env = Inr ()" "en_workers env = Inr ()"
    and "\<forall>i < n. mb_receiver_for (en_mailbox env) n i = Inr ()"
  shows "\<exists>wr. start_process_runtime env config = Inr wr \<and> wr_tasks wr = replicate n WtSpawned"
  using assms
  by (simp add: start_process_runtime_def WorkerRuntime_start_def SitasShardRuntime_start_def SitasRuntimeConfig_new_def
      address_all_ok start_mailbox_workers_def)

lemma started_runtime:
  assumes "start_process_runtime env config = Inr wr"
  shows "0 < fst (runtime_size config)" "sharded (wr_runtime wr) = runtime_of (fst (runtime_size config)) []"
proof -
  let ?cfg = "SitasRuntimeConfig_new (fst (runtime_size config)) (snd (runtime_size config))"
  from assms obtain wr0 where wr0: "WorkerRuntime_start (en_mailbox env) (en_executor env) (en_mailboxes env) ?cfg = Inr wr0"
    "wr = fst (start_mailbox_workers (en_workers env) wr0)"
    by (cases "WorkerRuntime_start (en_mailbox env) (en_executor env) (en_mailboxes env) ?cfg")
      (auto simp: start_process_runtime_def Let_def case_prod_beta' split: sum.splits prod.splits)
  then obtain rt where rt: "SitasShardRuntime_start (en_mailbox env) (en_executor env) (en_mailboxes env) ?cfg = Inr rt"
    "wr_runtime wr0 = rt" by (auto simp: WorkerRuntime_start_def)
  moreover have "sharded (wr_runtime wr) = sharded (wr_runtime wr0)"
    using wr0(2) by (auto simp: start_mailbox_workers_def sharded_def split: if_splits sum.splits)
  ultimately show "0 < fst (runtime_size config)"
    "sharded (wr_runtime wr) = runtime_of (fst (runtime_size config)) []"
    using sitas_start [OF rt(1)] by (simp_all add: SitasRuntimeConfig_new_def)
qed

lemma sitas_ingest_valid:
  assumes "event_valid e"
  shows "\<exists>out. snd (sitas_ingest CallCompletes e rt) = Inr out"
proof -
  obtain out where "snd (HotIndex_ingest e (st_indexes rt ! sitas_shard_for rt (pe_process_instance_id e))) = Inr out"
    using assms ingest_valid by fastforce
  then show ?thesis by (simp add: sitas_ingest_def with_hot_index_on_def Let_def)
qed

lemma px_ingest_sitas:
  assumes "event_valid e"
  shows "\<exists>out. px_ingest CallCompletes e (PxSitas rt) = (PxSitas (fst (sitas_ingest CallCompletes e rt)), Inr out)"
  using sitas_ingest_valid [OF assms, of rt] by (auto simp: case_prod_beta)

text \<open>A replay that succeeds met no failing call; it ingests every event of the journal.\<close>

lemma ingest_recovered_sitas:
  assumes "list_all event_valid (map je_event jes)" "vs_hot_index svc = PxSitas rt" "\<forall>n. calls n = CallCompletes"
  shows "ingest_recovered calls jes svc = (svc\<lparr>vs_hot_index := PxSitas (sitas_ingest_all (map je_event jes) rt)\<rparr>, Inr ())"
  using assms
proof (induction jes arbitrary: svc rt calls)
  case (Cons e jes)
  obtain out where "px_ingest CallCompletes (je_event e) (PxSitas rt) = (PxSitas (fst (sitas_ingest CallCompletes (je_event e) rt)), Inr out)"
    using px_ingest_sitas [of "je_event e" rt] Cons.prems(1) by auto
  with Cons show ?case
    by (simp add: ingest_process_event_def sitas_ingest_all_def del: px_ingest.simps)
qed (simp add: sitas_ingest_all_def)

lemma ingest_recovered_completes:
  assumes "ingest_recovered calls jes svc = (svc', Inr ())" "vs_hot_index svc = PxSitas rt"
  shows "ingest_recovered (\<lambda>_. CallCompletes) jes svc = (svc', Inr ())"
  using assms
proof (induction jes arbitrary: svc rt calls)
  case (Cons e jes)
  have "calls 0 = CallCompletes"
    using Cons.prems by (cases "calls 0") (auto simp: ingest_process_event_def sitas_ingest_def with_hot_index_on_def Let_def)
  moreover obtain rt' r where "px_ingest CallCompletes (je_event e) (PxSitas rt) = (PxSitas rt', r)"
    by (auto simp: case_prod_beta)
  ultimately show ?case
    using Cons by (cases r) (auto simp: ingest_process_event_def simp del: px_ingest.simps)
qed simp

text \<open>A runtime whose shards hold the events answers as one index.\<close>

lemma sharded_queries:
  assumes "sharded rt = runtime_of n es" "0 < n" "consistent_ids es"
  shows "sitas_process_instance CallCompletes rt iq = Inr (process_instance (ingest_all es HotIndex_new) iq)"
    and "sitas_events CallCompletes rt eq = Inr (events_query (ingest_all es HotIndex_new) eq)"
proof -
  have "st_indexes rt = rt_shards (runtime_of n es)" using assms(1) by (simp add: sharded_def flip: assms(1))
  then have "sitas_process_instance CallCompletes rt iq = Inr (rt_process_instance (runtime_of n es) iq)"
    "sitas_events CallCompletes rt eq = Inr (rt_events (runtime_of n es) eq)"
    by (simp_all add: sitas_process_instance_def sitas_events_def sitas_query_def with_hot_index_on_def
        sitas_shard_for_def rt_process_instance_def rt_events_def rt_shard_for_def Let_def)
  then show "sitas_process_instance CallCompletes rt iq = Inr (process_instance (ingest_all es HotIndex_new) iq)"
    "sitas_events CallCompletes rt eq = Inr (events_query (ingest_all es HotIndex_new) eq)"
    using rt_process_queries [OF assms(2,3)] by simp_all
qed

subsection \<open>What a start makes of its files\<close>

text \<open>
  \<open>journal_found fs p es\<close>: the journal at \<open>p\<close> holds the events \<open>es\<close>, or there is none and no event.
  \<open>outbox_found fs p ps acked\<close>: the outbox segment at \<open>p\<close> holds the payloads \<open>ps\<close> of metadata events, among
  them those of \<open>acked\<close>, or there is no segment and no payload.
\<close>

definition journal_found :: "fs \<Rightarrow> path \<Rightarrow> PipelineEvent list \<Rightarrow> bool" where
  "journal_found fs p es \<longleftrightarrow>
     (if fs p = None then es = [] else \<exists>j. sw_path (pj_writer j) = p \<and> journal_holds fs j es)"

definition outbox_found :: "fs \<Rightarrow> path \<Rightarrow> IptoWritePayload list \<Rightarrow> DataIndividualMetadataEvent list \<Rightarrow> bool" where
  "outbox_found fs p ps acked \<longleftrightarrow>
     (if fs p = None then ps = [] else \<exists>w. sw_path w = p \<and> segment_holds fs w ps) \<and>
     (\<forall>p \<in> set ps. \<exists>e. wp_provenance p = Some e \<and> dm_idempotency_key e = wp_idempotency_key p) \<and>
     dm_idempotency_key ` set acked \<subseteq> wp_idempotency_key ` set ps"

text \<open>The metadata of a service that was just opened.\<close>

definition metadata_recovered ::
  "fs \<Rightarrow> path \<Rightarrow> IptoWritePayload list \<Rightarrow> DataIndividualMetadataEvent list \<Rightarrow> ('m, 'p) VannakService \<Rightarrow> bool" where
  "metadata_recovered fs p ps acked svc \<longleftrightarrow>
     sw_path (bo_writer (vs_metadata_outbox svc)) = p \<and> metadata_wf fs svc ps acked \<and>
     vs_provenance_index svc = prov_ingest_all (List.map_filter wp_provenance ps) DataProvenanceIndex_new \<and>
     bo_outbox (vs_metadata_outbox svc) = replayed (stored ps) \<and> vs_mapping svc = default_mapping"

lemma metadata_wf_acked:
  "metadata_wf fs svc ps [] \<Longrightarrow> dm_idempotency_key ` set acked \<subseteq> prov_keys (vs_provenance_index svc) \<Longrightarrow> metadata_wf fs svc ps acked"
  by (simp add: metadata_wf_def)

lemma open_service_existing:
  fixes placement :: IptoPlacementMap
  assumes "outbox_found fs p ps acked" "fs p \<noteq> None"
  obtains svc :: "('m, 'p) VannakService" where
    "open_service io fs placement default_mapping p sid nid = (fs, Inr svc)"
    "vs_hot_index svc = PxLocal HotIndex_new" "metadata_recovered fs p ps acked svc"
proof -
  from assms obtain w where w: "sw_path w = p" "segment_holds fs w ps"
    and ps: "\<forall>p \<in> set ps. \<exists>e. wp_provenance p = Some e \<and> dm_idempotency_key e = wp_idempotency_key p"
    and ack: "dm_idempotency_key ` set acked \<subseteq> wp_idempotency_key ` set ps"
    by (auto simp: outbox_found_def simp del: not_None_eq)
  let ?sv = "VannakService_new placement default_mapping \<lparr>bo_outbox = MetadataOutbox_new, bo_writer = w\<rparr> :: ('m, 'p) VannakService"
  have "durable_wf fs (vs_metadata_outbox ?sv) ps []"
    using w(2) by (simp add: durable_wf_def VannakService_new_def outbox_wf_new) (simp add: MetadataOutbox_new_def)
  then have "metadata_wf fs ?sv ps []"
    unfolding metadata_wf_def using ps
    by (auto simp: VannakService_new_def prov_keys_def outbox_keys_def MetadataOutbox_new_def DataProvenanceIndex_new_def
        bt_contains_key_iff)
  then obtain r :: "('m, 'p) VannakServiceRecovery" where
    r: "VannakService_recover_after fs placement default_mapping (sw_path (bo_writer (vs_metadata_outbox ?sv))) sid nid None = Inr r"
    "vs_provenance_index (vsr_service r) = prov_ingest_all (List.map_filter wp_provenance ps) DataProvenanceIndex_new"
    "bo_outbox (vs_metadata_outbox (vsr_service r)) = replayed (filter (beyond None) (stored ps))"
    "metadata_wf fs (vsr_service r) ps []"
    by (rule service_recover_holds [of fs ?sv ps "[]" placement default_mapping sid nid None])
  have path: "sw_path (bo_writer (vs_metadata_outbox ?sv)) = p" using w(1) by (simp add: VannakService_new_def)
  have all: "filter (beyond None) (stored ps) = stored ps" by (rule filter_True) (simp add: beyond_def)
  have shape: "vs_hot_index (vsr_service r) = PxLocal HotIndex_new" "vs_mapping (vsr_service r) = default_mapping"
    "sw_path (bo_writer (vs_metadata_outbox (vsr_service r))) = p"
    using r(1) recover_after_holds [OF w(2), of sid nid None] replay_provenance_holds [OF w(2)] w(1)
    by (auto simp: VannakService_recover_after_def VannakService_new_def)
  have "metadata_wf fs (vsr_service r) ps acked"
    using metadata_wf_acked [OF r(4)] ack prov_keys_replayed [OF ps] by (simp add: r(2))
  then have "metadata_recovered fs p ps acked (vsr_service r)"
    unfolding metadata_recovered_def using r(2,3) shape(2,3) by (simp add: all)
  moreover have "open_service io fs placement default_mapping p sid nid = (fs, Inr (vsr_service r))"
    using r(1) assms(2) by (simp add: open_service_def path)
  ultimately show thesis using shape(1) by (intro that)
qed

lemma create_writer_frame:
  assumes "SegmentWriter_create io fs p sid nid = (fs', r)" "q \<noteq> p"
  shows "fs' q = fs q"
  using assms by (auto simp: SegmentWriter_create_def append_file_def split: if_splits prod.splits sum.splits
      dest!: write_all_okD write_all_errD)

lemma open_service_new:
  fixes svc :: "('m, 'p) VannakService"
  assumes "fs p = None" "open_service io fs placement default_mapping p sid nid = (fs', Inr svc)"
  shows "vs_hot_index svc = PxLocal HotIndex_new" "metadata_recovered fs' p [] [] svc" "\<forall>q. q \<noteq> p \<longrightarrow> fs' q = fs q"
proof -
  from assms have c: "VannakService_create io fs placement default_mapping p sid nid = (fs', Inr svc)"
    by (auto simp: open_service_def split: prod.splits)
  then obtain w where w: "SegmentWriter_create io fs p sid nid = (fs', Inr w)"
    "svc = VannakService_new placement default_mapping \<lparr>bo_outbox = MetadataOutbox_new, bo_writer = w\<rparr>"
    by (auto simp: VannakService_create_def SegmentBackedMetadataOutbox_create_def split: prod.splits)
  show "vs_hot_index svc = PxLocal HotIndex_new" by (simp add: w(2) VannakService_new_def)
  show "\<forall>q. q \<noteq> p \<longrightarrow> fs' q = fs q" using create_writer_frame [OF w(1)] by blast
  show "metadata_recovered fs' p [] [] svc"
    using metadata_run_wf [OF metadata_run.mr_created [OF c]] segment_open_create [OF w(1)]
    by (simp add: metadata_recovered_def w(2) VannakService_new_def prov_ingest_all_def map_filter_simps stored_def replayed_def)
qed

lemma open_service_creates:
  "fs p = None \<Longrightarrow> write_budget io = None \<Longrightarrow> \<exists>fs' svc. open_service io fs placement mapping p sid nid = (fs', Inr svc)"
  by (simp add: open_service_def VannakService_create_def SegmentBackedMetadataOutbox_create_def SegmentWriter_create_def write_all_def)

lemma open_journal_existing:
  assumes "journal_found fs p es" "fs p \<noteq> None" "vs_hot_index svc = PxSitas rt"
  obtains j where "sw_path (pj_writer j) = p" "journal_holds fs j es"
    "\<And>fs' svc'. open_journal io calls fs p nid svc = (fs', Inr svc') \<Longrightarrow>
      fs' = fs \<and> svc' = svc\<lparr>vs_hot_index := PxSitas (sitas_ingest_all es rt), vs_process_event_journal := Some j\<rparr>"
    "\<forall>n. calls n = CallCompletes \<Longrightarrow> \<exists>svc'. open_journal io calls fs p nid svc = (fs, Inr svc')"
proof -
  from assms(1,2) obtain j0 where j0: "sw_path (pj_writer j0) = p" "journal_holds fs j0 es"
    by (auto simp: journal_found_def simp del: not_None_eq)
  obtain j where j: "ProcessEventJournal_recover fs p ''process-journal'' nid
      = Inr \<lparr>jr_journal = j, jr_replay = \<lparr>rp_events = journaled es,
           rp_summary = \<lparr>rs_scanned_records = of_nat (length es), rs_replayed_records = of_nat (length es)\<rparr>\<rparr>\<rparr>"
    "pj_writer j = (pj_writer j0)\<lparr>sw_segment_id := ''process-journal'', sw_node_id := nid\<rparr>" "journal_holds fs j es"
    using recover_journal [OF j0(2), of "''process-journal''" nid] unfolding j0(1) by blast
  let ?svc = "svc\<lparr>vs_hot_index := PxSitas (sitas_ingest_all es rt)\<rparr>"
  have "list_all event_valid (map je_event (journaled es))" using j(3) by (simp add: journal_holds_def)
  from ingest_recovered_sitas [OF this assms(3)]
  have replay: "(\<forall>n. c n = CallCompletes) \<Longrightarrow> ingest_recovered c (journaled es) svc = (?svc, Inr ())" for c by simp
  have only: "svc' = ?svc" if "ingest_recovered calls (journaled es) svc = (svc', Inr ())" for svc'
    using ingest_recovered_completes [OF that assms(3)] replay [of "\<lambda>_. CallCompletes"] by simp
  show thesis
  proof (rule that [of j])
    show "sw_path (pj_writer j) = p" "journal_holds fs j es" using j j0 by simp_all
    show "fs' = fs \<and> svc' = svc\<lparr>vs_hot_index := PxSitas (sitas_ingest_all es rt), vs_process_event_journal := Some j\<rparr>"
      if "open_journal io calls fs p nid svc = (fs', Inr svc')" for fs' svc'
      using that assms(2) j(1) only
      by (auto simp: open_journal_def with_process_event_journal_def split: prod.splits sum.splits if_splits)
    show "\<exists>svc'. open_journal io calls fs p nid svc = (fs, Inr svc')" if "\<forall>n. calls n = CallCompletes"
      using assms(2) j(1) replay [OF that] by (simp add: open_journal_def)
  qed
qed

lemma open_journal_new:
  assumes "fs p = None" "open_journal io calls fs p nid svc = (fs', Inr svc')"
  shows "\<exists>j. svc' = svc\<lparr>vs_process_event_journal := Some j\<rparr> \<and> sw_path (pj_writer j) = p \<and> journal_holds fs' j [] \<and>
    (\<forall>q. q \<noteq> p \<longrightarrow> fs' q = fs q)"
proof -
  from assms obtain j where j: "ProcessEventJournal_create io fs p ''process-journal'' nid = (fs', Inr j)"
    "svc' = svc\<lparr>vs_process_event_journal := Some j\<rparr>"
    by (auto simp: open_journal_def with_process_event_journal_def split: prod.splits sum.splits)
  then obtain w where "SegmentWriter_create io fs p ''process-journal'' nid = (fs', Inr w)" "pj_writer j = w"
    by (auto simp: ProcessEventJournal_create_def split: prod.splits)
  with j journal_holds_create [OF j(1)] segment_open_create create_writer_frame show ?thesis by blast
qed

lemma open_journal_creates:
  "fs p = None \<Longrightarrow> write_budget io = None \<Longrightarrow> \<exists>fs' svc'. open_journal io calls fs p nid svc = (fs', Inr svc')"
  by (simp add: open_journal_def ProcessEventJournal_create_def SegmentWriter_create_def write_all_def)

lemma metadata_wf_frame: "fs' (sw_path (bo_writer (vs_metadata_outbox svc))) = fs (sw_path (bo_writer (vs_metadata_outbox svc))) \<Longrightarrow>
    metadata_wf fs svc ps acked \<Longrightarrow> metadata_wf fs' svc ps acked"
  by (simp add: metadata_wf_def durable_wf_def segment_holds_def segment_open_def)

lemma journal_holds_frame: "fs' (sw_path (pj_writer j)) = fs (sw_path (pj_writer j)) \<Longrightarrow> journal_holds fs j es \<Longrightarrow> journal_holds fs' j es"
  by (simp add: journal_holds_def segment_open_def)

lemma metadata_wf_fields:
  fixes svc :: "('m, 'p) VannakService"
  shows "vs_metadata_outbox svc' = vs_metadata_outbox svc \<Longrightarrow> vs_provenance_index svc' = vs_provenance_index svc \<Longrightarrow>
    metadata_wf fs svc' ps acked = metadata_wf fs svc ps acked"
  by (simp add: metadata_wf_def)

lemma metadata_recovered_frame:
  fixes svc :: "('m, 'p) VannakService"
  assumes "metadata_recovered fs p ps acked svc" "fs' p = fs p" "vs_metadata_outbox svc' = vs_metadata_outbox svc"
    "vs_provenance_index svc' = vs_provenance_index svc" "vs_mapping svc' = vs_mapping svc"
  shows "metadata_recovered fs' p ps acked svc'"
proof -
  from assms(1) have r: "sw_path (bo_writer (vs_metadata_outbox svc)) = p" "metadata_wf fs svc ps acked"
    by (simp_all add: metadata_recovered_def)
  have "metadata_wf fs' svc ps acked" by (rule metadata_wf_frame [OF _ r(2)]) (simp add: r(1) assms(2))
  then have "metadata_wf fs' svc' ps acked" unfolding metadata_wf_fields [OF assms(3,4)] .
  with assms(1) show ?thesis unfolding metadata_recovered_def assms(3-5) by blast
qed

text \<open>\<open>serves\<close>: a service that holds exactly what its files hold.\<close>

definition serves ::
  "fs \<Rightarrow> path \<Rightarrow> path \<Rightarrow> PipelineEvent list \<Rightarrow> IptoWritePayload list \<Rightarrow> DataIndividualMetadataEvent list \<Rightarrow> nat \<Rightarrow>
     ('m, 'p) VannakService \<Rightarrow> bool" where
  "serves fs p jp es ps acked n svc \<longleftrightarrow>
     (\<exists>j. vs_process_event_journal svc = Some j \<and> sw_path (pj_writer j) = jp \<and> journal_holds fs j es) \<and>
     (\<exists>rt. vs_hot_index svc = PxSitas rt \<and> sharded rt = runtime_of n es) \<and>
     metadata_recovered fs p ps acked svc"

lemma journal_found_frame: "fs' p = fs p \<Longrightarrow> journal_found fs p es \<Longrightarrow> journal_found fs' p es"
  unfolding journal_found_def by (metis journal_holds_frame)

lemma outbox_found_new: "outbox_found fs p ps acked \<Longrightarrow> fs p = None \<Longrightarrow> ps = [] \<and> acked = []"
  by (auto simp: outbox_found_def)

lemma open_service_found:
  fixes svc :: "('m, 'p) VannakService"
  assumes "outbox_found fs p ps acked" "open_service io fs placement default_mapping p sid nid = (fs', Inr svc)"
  shows "vs_hot_index svc = PxLocal HotIndex_new \<and> metadata_recovered fs' p ps acked svc \<and> (\<forall>q. q \<noteq> p \<longrightarrow> fs' q = fs q)"
proof (cases "fs p = None")
  case True
  with outbox_found_new [OF assms(1)] open_service_new [OF True assms(2)] show ?thesis by simp
next
  case False
  obtain svc' :: "('m, 'p) VannakService" where "open_service io fs placement default_mapping p sid nid = (fs, Inr svc')"
    "vs_hot_index svc' = PxLocal HotIndex_new" "metadata_recovered fs p ps acked svc'"
    by (rule open_service_existing [OF assms(1) False])
  with assms(2) show ?thesis by simp
qed

lemma open_journal_found:
  assumes "journal_found fs jp es" "vs_hot_index svc = PxSitas rt" "open_journal io calls fs jp nid svc = (fs', Inr svc')"
  shows "\<exists>j. svc' = svc\<lparr>vs_hot_index := PxSitas (sitas_ingest_all es rt), vs_process_event_journal := Some j\<rparr> \<and>
    sw_path (pj_writer j) = jp \<and> journal_holds fs' j es \<and> (\<forall>q. q \<noteq> jp \<longrightarrow> fs' q = fs q)"
proof (cases "fs jp = None")
  case True
  have "svc = svc\<lparr>vs_hot_index := PxSitas (sitas_ingest_all [] rt)\<rparr>" using assms(2) by (simp add: sitas_ingest_all_def)
  with True assms(1) open_journal_new [OF True assms(3)] show ?thesis by (auto simp: journal_found_def)
next
  case False
  from open_journal_existing [OF assms(1) False assms(2), of io calls nid] assms(3) show ?thesis by metis
qed

lemma opened_serves:
  fixes svc :: "('m, 'q node_plane) VannakService"
  assumes "outbox_found fs p ps acked" "journal_found fs (journal_path config p) es"
    and "sharded rt = runtime_of n []" "0 < n"
    and "open_node_service env config placement (p, sid, nid) rt fs = (fs', Inr svc)"
  shows "serves fs' p (journal_path config p) es ps acked n svc \<and> journal_path config p \<noteq> p \<and>
    (\<forall>q. q \<noteq> p \<and> q \<noteq> journal_path config p \<longrightarrow> fs' q = fs q)"
proof -
  let ?jp = "journal_path config p"
  from assms(5) obtain fs1 svc1 svc2 where o: "open_service (en_outbox_io env) fs placement default_mapping p sid nid = (fs1, Inr svc1)"
    "with_sitas_runtime (Ok ()) rt svc1 = Inr svc2" "?jp \<noteq> p"
    "open_journal (en_journal_io env) (en_replay env) fs1 ?jp nid svc2 = (fs', Inr svc)"
    by (auto simp: open_node_service_def split: prod.splits sum.splits if_splits)
  from open_service_found [OF assms(1) o(1)] have svc1: "metadata_recovered fs1 p ps acked svc1" "\<forall>q. q \<noteq> p \<longrightarrow> fs1 q = fs q" by auto
  have svc2: "svc2 = svc1\<lparr>vs_hot_index := PxSitas rt\<rparr>"
    using o(2) by (auto simp: with_sitas_runtime_def split: if_splits)
  have "journal_found fs1 ?jp es" using journal_found_frame [OF _ assms(2), of fs1] svc1(2) o(3) by simp
  from open_journal_found [OF this _ o(4), of rt] svc2 obtain j where
    j: "svc = svc2\<lparr>vs_hot_index := PxSitas (sitas_ingest_all es rt), vs_process_event_journal := Some j\<rparr>"
    "sw_path (pj_writer j) = ?jp" "journal_holds fs' j es" "\<forall>q. q \<noteq> ?jp \<longrightarrow> fs' q = fs1 q" by auto
  have "metadata_recovered fs' p ps acked svc"
    by (rule metadata_recovered_frame [OF svc1(1)]) (use j o(3) svc2 in auto)
  moreover have "sharded (sitas_ingest_all es rt) = runtime_of n es"
    using assms(3,4) rt_ingest_all_runtime_of [of n es "[]"] by (simp add: sitas_ingest_all_sharded)
  ultimately show ?thesis using j o(3) svc1(2) by (simp add: serves_def)
qed

text \<open>What the files hold stays when the disk accepts what is written, also when the start fails later.\<close>

lemma wf_found:
  assumes "metadata_wf fs svc ps acked" "sw_path (bo_writer (vs_metadata_outbox svc)) = p"
  shows "outbox_found fs p ps acked"
proof -
  from assms(1) have keys: "dm_idempotency_key ` set acked \<subseteq> prov_keys (vs_provenance_index svc)"
    "prov_keys (vs_provenance_index svc) \<subseteq> wp_idempotency_key ` set ps"
    and ps: "\<forall>p \<in> set ps. \<exists>e. wp_provenance p = Some e \<and> dm_idempotency_key e = wp_idempotency_key p"
    by (simp_all add: metadata_wf_def)
  from assms have h: "sw_path (bo_writer (vs_metadata_outbox svc)) = p \<and> segment_holds fs (bo_writer (vs_metadata_outbox svc)) ps"
    by (auto simp: metadata_wf_def durable_wf_def)
  then have "fs p \<noteq> None" by (auto simp: segment_holds_def segment_open_def)
  moreover from h have "\<exists>w. sw_path w = p \<and> segment_holds fs w ps" by blast
  ultimately show ?thesis using ps subset_trans [OF keys] unfolding outbox_found_def by (simp only: if_False simp_thms)
qed

lemma recovered_found: "metadata_recovered fs p ps acked svc \<Longrightarrow> outbox_found fs p ps acked"
  by (rule wf_found [of _ svc]) (simp_all add: metadata_recovered_def)

lemma outbox_found_frame: "fs' p = fs p \<Longrightarrow> outbox_found fs p ps acked \<Longrightarrow> outbox_found fs' p ps acked"
proof -
  assume same: "fs' p = fs p" and found: "outbox_found fs p ps acked"
  have "segment_holds fs' w ps \<longleftrightarrow> segment_holds fs w ps" if "sw_path w = p" for w
    using same that by (simp add: segment_holds_def segment_open_def)
  then have holds: "(\<exists>w. sw_path w = p \<and> segment_holds fs' w ps) \<longleftrightarrow> (\<exists>w. sw_path w = p \<and> segment_holds fs w ps)" by blast
  show ?thesis using found unfolding outbox_found_def same holds .
qed

lemma open_service_keeps:
  fixes r :: "run_error + ('m, 'p) VannakService"
  assumes "outbox_found fs p ps acked" "write_budget io = None"
    and "open_service io fs placement default_mapping p sid nid = (fs', r)"
  shows "outbox_found fs' p ps acked \<and> (\<forall>q. q \<noteq> p \<longrightarrow> fs' q = fs q) \<and> (\<exists>svc. r = Inr svc) \<and> (fs p \<noteq> None \<longrightarrow> fs' = fs)"
proof -
  obtain fs1 and svc :: "('m, 'p) VannakService" where ok: "open_service io fs placement default_mapping p sid nid = (fs1, Inr svc)"
    "fs p \<noteq> None \<longrightarrow> fs1 = fs"
    using open_service_creates [of fs p io placement default_mapping sid nid, OF _ assms(2)] open_service_existing [OF assms(1)]
    by metis
  with open_service_found [OF assms(1) ok(1)] recovered_found assms(3) show ?thesis by force
qed

lemma open_journal_keeps:
  assumes "journal_found fs jp es" "vs_hot_index svc = PxSitas rt" "write_budget io = None"
    and "open_journal io calls fs jp nid svc = (fs', r)"
  shows "journal_found fs' jp es \<and> (\<forall>q. q \<noteq> jp \<longrightarrow> fs' q = fs q) \<and> (fs jp \<noteq> None \<longrightarrow> fs' = fs) \<and>
    ((\<forall>n. calls n = CallCompletes) \<longrightarrow> (\<exists>svc'. r = Inr svc'))"
proof (cases "fs jp = None")
  case True
  from open_journal_creates [of fs jp io calls nid svc, OF True assms(3)] assms(4) obtain svc' where r: "r = Inr svc'" by auto
  from open_journal_found [OF assms(1,2) assms(4) [unfolded r]] obtain j where
    "sw_path (pj_writer j) = jp" "journal_holds fs' j es" "\<forall>q. q \<noteq> jp \<longrightarrow> fs' q = fs q" by blast
  moreover from this have "fs' jp \<noteq> None" by (auto simp: journal_holds_def segment_open_def)
  ultimately show ?thesis using True r unfolding journal_found_def by (auto simp del: not_None_eq)
next
  case False
  then have "fs' = fs" using assms(4) by (auto simp: open_journal_def split: sum.splits prod.splits if_splits)
  moreover have "(\<forall>n. calls n = CallCompletes) \<longrightarrow> (\<exists>svc'. r = Inr svc')"
    using open_journal_existing [OF assms(1) False assms(2), of io calls nid] assms(4) by (metis prod.inject)
  ultimately show ?thesis using assms(1) False by simp
qed

lemma open_node_service_keeps:
  assumes "outbox_found fs p ps acked" "journal_found fs (journal_path config p) es" "journal_path config p \<noteq> p"
    and "write_budget (en_outbox_io env) = None" "write_budget (en_journal_io env) = None"
    and "open_node_service env config placement (p, sid, nid) rt fs = (fs', r)"
  shows "outbox_found fs' p ps acked \<and> journal_found fs' (journal_path config p) es \<and>
    (fs p \<noteq> None \<and> fs (journal_path config p) \<noteq> None \<longrightarrow> fs' = fs) \<and>
    ((\<forall>n. en_replay env n = CallCompletes) \<longrightarrow> (\<exists>svc. r = Inr svc))"
proof -
  let ?jp = "journal_path config p"
  obtain fs1 r1 where o: "open_service (en_outbox_io env) fs placement default_mapping p sid nid = (fs1, r1)"
    and r1: "r1 = (r1 :: run_error + ('a, 'b node_plane) VannakService)" by fastforce
  from open_service_keeps [OF assms(1,4) o] obtain svc1 where s1: "r1 = Inr svc1" "outbox_found fs1 p ps acked"
    "\<forall>q. q \<noteq> p \<longrightarrow> fs1 q = fs q" "fs p \<noteq> None \<longrightarrow> fs1 = fs" by blast
  from open_service_found [OF assms(1) o [unfolded s1(1)]] have "vs_hot_index svc1 = PxLocal HotIndex_new" by simp
  then have "with_sitas_runtime (Ok ()) rt svc1 = Inr (svc1\<lparr>vs_hot_index := PxSitas rt\<rparr>)"
    by (simp add: with_sitas_runtime_def HotIndex_snapshot_def HotIndex_new_def bt_len_def bt_eval)
  with assms(3,6) o s1(1) have j: "open_journal (en_journal_io env) (en_replay env) fs1 ?jp nid (svc1\<lparr>vs_hot_index := PxSitas rt\<rparr>) = (fs', r)"
    by (simp add: open_node_service_def)
  have jf: "journal_found fs1 ?jp es" using journal_found_frame [OF _ assms(2), of fs1] s1(3) assms(3) by simp
  have hot: "vs_hot_index (svc1\<lparr>vs_hot_index := PxSitas rt\<rparr>) = PxSitas rt" by simp
  note k = open_journal_keeps [OF jf hot assms(5) j]
  have "outbox_found fs' p ps acked" using outbox_found_frame [OF _ s1(2), of fs'] k assms(3) by (metis (no_types))
  with k s1(4) show ?thesis by blast
qed

text \<open>The cases of a start.\<close>

lemma start_node_cases:
  assumes "start_node env config fs = (fs', r)" "outbox_identity env config = Inr (p, sid, nid)"
  obtains (before) e where "fs' = fs" "r = Inl e"
  | (opened) placement wr r1 where "start_placement config = Inr placement" "start_process_runtime env config = Inr wr"
      "open_node_service env config placement (p, sid, nid) (wr_runtime wr) fs = (fs', r1)"
      "\<And>node. r = Inr node \<Longrightarrow> \<exists>svc plane. r1 = Inr svc \<and> sn_service node = set_control_plane plane nid svc"
proof (cases "start_placement config")
  case (Inl e)
  with assms show thesis by (intro before [of e]) (auto simp: start_node_def)
next
  case placement: (Inr placement)
  show thesis
  proof (cases "start_process_runtime env config")
    case (Inl e)
    with assms placement show thesis by (intro before [of e]) (auto simp: start_node_def)
  next
    case (Inr wr)
    obtain fs1 r1 where o: "open_node_service env config placement (p, sid, nid) (wr_runtime wr) fs = (fs1, r1)" by (metis prod.collapse)
    have "fs1 = fs'" using assms placement Inr o by (cases r1) (simp_all add: start_node_def)
    moreover have "\<exists>svc plane. r1 = Inr svc \<and> sn_service node = set_control_plane plane nid svc" if "r = Inr node" for node
      using assms placement Inr o that by (cases r1) (auto simp: start_node_def)
    ultimately show thesis using placement Inr o by (intro opened) auto
  qed
qed

lemma serves_control_plane: "serves fs p jp es ps acked n (set_control_plane plane nid svc) \<longleftrightarrow> serves fs p jp es ps acked n svc"
  by (simp add: serves_def set_control_plane_def metadata_recovered_def metadata_wf_def)

lemma start_serves:
  assumes "start_node env config fs = (fs', Inr node)" "outbox_identity env config = Inr (p, sid, nid)"
    and "outbox_found fs p ps acked" "journal_found fs (journal_path config p) es"
  shows "serves fs' p (journal_path config p) es ps acked (fst (runtime_size config)) (sn_service node) \<and>
    0 < fst (runtime_size config) \<and> journal_path config p \<noteq> p"
  using assms(1,2)
proof (cases rule: start_node_cases)
  case (opened placement wr r1)
  from opened(4) [OF refl] obtain svc plane where r1: "r1 = Inr svc" "sn_service node = set_control_plane plane nid svc" by blast
  from opened_serves [OF assms(3,4) started_runtime(2,1) [OF opened(2)] opened(3) [unfolded r1(1)]] started_runtime(1) [OF opened(2)]
  show ?thesis by (simp add: r1(2) serves_control_plane)
qed simp

lemma start_keeps_files:
  assumes "start_node env config fs = (fs', r)" "outbox_identity env config = Inr (p, sid, nid)"
    and "outbox_found fs p ps acked" "journal_found fs (journal_path config p) es" "journal_path config p \<noteq> p"
    and "write_budget (en_outbox_io env) = None" "write_budget (en_journal_io env) = None"
  shows "outbox_found fs' p ps acked \<and> journal_found fs' (journal_path config p) es \<and>
    (fs p \<noteq> None \<and> fs (journal_path config p) \<noteq> None \<longrightarrow> fs' = fs)"
  using assms(1,2)
proof (cases rule: start_node_cases)
  case before
  with assms show ?thesis by simp
next
  case (opened placement wr r1)
  from open_node_service_keeps [OF assms(3-7) opened(3)] show ?thesis by blast
qed

subsection \<open>A node without Raft\<close>

text \<open>\<open>working env\<close>: the executor starts and runs what it is given, mailboxes can be addressed, the disk accepts writes, and there is time for an attempt.\<close>

definition working :: "('m, 'q, 'a, 'r) environment \<Rightarrow> bool" where
  "working env \<longleftrightarrow>
     en_executor env = Ok () \<and> en_mailboxes env = Ok () \<and> en_workers env = Ok () \<and> (\<forall>n. en_replay env n = CallCompletes) \<and>
     (\<forall>n i. i < n \<longrightarrow> mb_receiver_for (en_mailbox env) n i = Ok ()) \<and>
     write_budget (en_outbox_io env) = None \<and> write_budget (en_journal_io env) = None \<and> 0 < en_attempts env"

lemma local_plane_starts:
  assumes "su_raft config = None" "0 < en_attempts env"
  shows "\<exists>q. start_control_plane env config placement nid = Inr (LocalPlane q) \<and> \<not> cmx_poisoned q \<and>
    started placement [nid] ClusterControlState_new (cmx_state q)"
proof -
  let ?q = "\<lparr>cmx_poisoned = False, cmx_state = ClusterControlState_new\<rparr>"
  obtain q where "initialize_attempt mutex_read ControlMutex_propose placement [nid] ?q = (q, AtOk)" "\<not> cmx_poisoned q"
    "started placement [nid] ClusterControlState_new (cmx_state q)"
    using mutex_attempt [of ?q "[nid]" placement] by auto
  with assms show ?thesis by (cases "en_attempts env") (simp_all add: start_control_plane_def initialize_control_plane_def)
qed

lemma local_start_total:
  assumes "working env" "su_raft config = None" "\<not> su_with_ipto config" "options_ok config"
    and "0 < fst (runtime_size config)" "0 < snd (runtime_size config)"
    and "outbox_identity env config = Inr (p, sid, nid)" "journal_path config p \<noteq> p"
    and "outbox_found fs p ps acked" "journal_found fs (journal_path config p) es"
  shows "\<exists>fs' node placement q. start_node env config fs = (fs', Inr node) \<and> start_placement config = Inr placement \<and>
    placement_wf placement \<and> vs_control_plane (sn_service node) = Some (LocalPlane q, nid) \<and> \<not> cmx_poisoned q \<and>
    started placement [nid] ClusterControlState_new (cmx_state q)"
proof -
  obtain placement where pl: "start_placement config = Inr placement" "placement_wf placement" using start_placement_ok [OF assms(4)] by blast
  obtain wr where wr: "start_process_runtime env config = Inr wr"
    using start_runtime_ok [OF prod.collapse [symmetric] assms(5,6), of env] assms(1) unfolding working_def by blast
  obtain fs' r where o: "open_node_service env config placement (p, sid, nid) (wr_runtime wr) fs = (fs', r)" by (metis prod.collapse)
  from open_node_service_keeps [OF assms(9,10,8) _ _ o] assms(1) obtain svc where svc: "r = Inr svc" by (auto simp: working_def)
  obtain q where q: "start_control_plane env config placement nid = Inr (LocalPlane q)" "\<not> cmx_poisoned q"
    "started placement [nid] ClusterControlState_new (cmx_state q)"
    using local_plane_starts [OF assms(2), of env placement nid] assms(1) by (auto simp: working_def)
  have "start_ipto_writer env config placement = Inr None" using assms(3) by (simp add: start_ipto_writer_def)
  with pl wr o svc q assms(7) show ?thesis by (simp add: start_node_def set_control_plane_def)
qed

text \<open>Such a node admits every valid metadata event.\<close>

lemma local_capture_admitted:
  assumes "vs_control_plane svc = Some (LocalPlane q, nid)" "\<not> cmx_poisoned q"
    and "started placement [nid] ClusterControlState_new (cmx_state q)" "placement_wf placement"
    and "DataIndividualMetadataEvent_validate ev = Inr ()"
  shows "\<exists>t. map_resolve placement (dm_data_individual_shard_id ev) = Some t \<and> snd (capture_target (committed read) ev svc) = Inr t"
proof -
  have new: "placement_map ClusterControlState_new = None" "writer_lease ClusterControlState_new t = None" for t
    by (simp_all add: ClusterControlState_new_def placement_map_def writer_lease_def bt_last_None)
  obtain t where t: "t \<in> set (map_instances placement)" "map_resolve placement (dm_data_individual_shard_id ev) = Some t"
    using placement_resolves [OF assms(4)] by blast
  have "placement_map (cmx_state q) = Some placement" "writer_lease (cmx_state q) t = Some \<lparr>wl_target = t, wl_holder = nid, wl_epoch = 1\<rparr>"
    using assms(3) t(1) new by (auto simp: started_def)
  moreover have "committed read (LocalPlane q) = Inr (cmx_state q)"
    using assms(2) by (simp add: committed_def mutex_read_def ControlMutex_read_def)
  ultimately show ?thesis using assms(5) t(2) by (simp add: capture_target_controlled [OF assms(1)])
qed

end
