(* ===== verification/Node_Life.thy ===== *)
theory Node_Life
  imports Node_Start
begin

text \<open>
  The life of a supervised node (\<open>src/bin/vannak.rs\<close> over \<open>src/service.rs\<close>): starts, events, captures, drains
  and stops at any point, in any order. The invariant ties the running service to its two files, and the
  files to what was acknowledged; with it, a start after any such life brings everything back.
\<close>

subsection \<open>Histories\<close>

text \<open>
  \<open>node_run p jp fs x es acked ps macked\<close>: \<open>x\<close> is the service while the node runs. The journal at \<open>jp\<close> got the
  events \<open>es\<close>, the outbox at \<open>p\<close> the payloads \<open>ps\<close>; \<open>acked\<close> and \<open>macked\<close> are the process events and the metadata
  events that were answered with a result. The configuration may change from start to start as long as
  the two files stay the same. Calls of the executor may fail before or after they took effect and a sync
  may fail; a write that stops part-way is left out (\<open>Storage.append_after_torn_write_lost\<close>).
\<close>

definition journaled_since :: "('m, 'p) VannakService \<Rightarrow> ('m, 'p) VannakService \<Rightarrow> PipelineEvent \<Rightarrow> PipelineEvent list" where
  "journaled_since svc svc' e = (if vs_process_event_journal svc' = vs_process_event_journal svc then [] else [e])"

inductive node_run ::
  "path \<Rightarrow> path \<Rightarrow> fs \<Rightarrow> ('m, 'q node_plane) VannakService option \<Rightarrow> PipelineEvent list \<Rightarrow> PipelineEvent list \<Rightarrow>
     IptoWritePayload list \<Rightarrow> DataIndividualMetadataEvent list \<Rightarrow> bool" for p jp where
  nr_new: "fs p = None \<Longrightarrow> fs jp = None \<Longrightarrow> jp \<noteq> p \<Longrightarrow> node_run p jp fs None [] [] [] []"
| nr_started: "node_run p jp fs x es acked ps macked \<Longrightarrow> outbox_identity (env :: ('m, 'q, string, json_value list) environment) config = Inr (p, sid, nid) \<Longrightarrow>
     journal_path config p = jp \<Longrightarrow> start_node env config fs = (fs', Inr node) \<Longrightarrow>
     node_run p jp fs' (Some (sn_service node)) es acked ps macked"
| nr_start_failed: "node_run p jp fs x es acked ps macked \<Longrightarrow> outbox_identity (env :: ('m, 'q, string, json_value list) environment) config = Inr (p, sid, nid) \<Longrightarrow>
     journal_path config p = jp \<Longrightarrow> start_node env config fs = (fs', Inl e) \<Longrightarrow>
     write_budget (en_outbox_io env) = None \<Longrightarrow> write_budget (en_journal_io env) = None \<Longrightarrow>
     node_run p jp fs' None es acked ps macked"
| nr_stopped: "node_run p jp fs x es acked ps macked \<Longrightarrow> node_run p jp fs None es acked ps macked"
| nr_ingested: "node_run p jp fs (Some svc) es acked ps macked \<Longrightarrow> event_rust e \<Longrightarrow>
     ingest_process_event_durable asked call io fs e svc = (fs', svc', Inr res) \<Longrightarrow>
     node_run p jp fs' (Some svc') (es @ journaled_since svc svc' e) (acked @ [e]) ps macked"
| nr_ingest_failed: "node_run p jp fs (Some svc) es acked ps macked \<Longrightarrow> event_rust e \<Longrightarrow>
     ingest_process_event_durable asked call io fs e svc = (fs', svc', Inl err) \<Longrightarrow>
     err \<noteq> VsProcessEventJournal (JeSegment (Io WriteError)) \<Longrightarrow>
     node_run p jp fs' (Some svc') (es @ journaled_since svc svc' e) acked ps macked"
| nr_captured: "node_run p jp fs (Some svc) es acked ps macked \<Longrightarrow>
     capture_metadata_event read io fs ev svc = (fs', svc', Inr res) \<Longrightarrow>
     payload = from_event ev (mcr_target res) (vs_mapping svc) \<Longrightarrow> payload_ok payload \<Longrightarrow>
     node_run p jp fs' (Some svc') es acked (if mcr_result res = DeDuplicate then ps else ps @ [payload]) (macked @ [ev])"
| nr_capture_unsynced: "node_run p jp fs (Some svc) es acked ps macked \<Longrightarrow>
     capture_metadata_event read io fs ev svc = (fs', svc', Inl (VsMetadataOutboxStorage (OsSegment (Io SyncError)))) \<Longrightarrow>
     snd (capture_target read ev svc) = Inr target \<Longrightarrow>
     payload = from_event ev target (vs_mapping svc) \<Longrightarrow> payload_ok payload \<Longrightarrow>
     node_run p jp fs' (Some svc') es acked (ps @ [payload]) macked"
| nr_capture_refused: "node_run p jp fs (Some svc) es acked ps macked \<Longrightarrow>
     capture_metadata_event read io fs ev svc = (fs', svc', Inl err) \<Longrightarrow>
     (\<forall>e. err \<noteq> VsMetadataOutboxStorage (OsSegment (Io e))) \<Longrightarrow>
     node_run p jp fs' (Some svc') es acked ps macked"
| nr_drained: "node_run p jp fs (Some svc) es acked ps macked \<Longrightarrow>
     drain_metadata_for_target (write :: IptoWritePayload list ipto_write) target max_attempts svc w = (svc', w', summary) \<Longrightarrow>
     node_run p jp fs (Some svc') es acked ps macked"
| nr_controlled: "node_run p jp fs (Some svc) es acked ps macked \<Longrightarrow>
     node_run p jp fs (Some (svc\<lparr>vs_control_plane := cp\<rparr>)) es acked ps macked"

subsection \<open>The invariant\<close>

definition live ::
  "fs \<Rightarrow> path \<Rightarrow> path \<Rightarrow> PipelineEvent list \<Rightarrow> PipelineEvent list \<Rightarrow> IptoWritePayload list \<Rightarrow> DataIndividualMetadataEvent list \<Rightarrow>
     ('m, 'p) VannakService \<Rightarrow> bool" where
  "live fs p jp es acked ps macked svc \<longleftrightarrow>
     (\<exists>j. vs_process_event_journal svc = Some j \<and> sw_path (pj_writer j) = jp \<and> journal_holds fs j es) \<and>
     (\<exists>rt n log. vs_hot_index svc = PxSitas rt \<and> 0 < n \<and> sharded rt = runtime_of n log \<and> set log \<subseteq> set es \<and>
        pe_event_id ` set acked \<subseteq> pe_event_id ` set log) \<and>
     sw_path (bo_writer (vs_metadata_outbox svc)) = p \<and> metadata_wf fs svc ps macked"

definition node_wf ::
  "path \<Rightarrow> path \<Rightarrow> fs \<Rightarrow> ('m, 'p) VannakService option \<Rightarrow> PipelineEvent list \<Rightarrow> PipelineEvent list \<Rightarrow>
     IptoWritePayload list \<Rightarrow> DataIndividualMetadataEvent list \<Rightarrow> bool" where
  "node_wf p jp fs x es acked ps macked \<longleftrightarrow>
     jp \<noteq> p \<and> journal_found fs jp es \<and> outbox_found fs p ps macked \<and>
     pe_event_id ` set acked \<subseteq> pe_event_id ` set es \<and>
     (\<forall>svc. x = Some svc \<longrightarrow> live fs p jp es acked ps macked svc)"

lemma live_journal: "live fs p jp es acked ps macked svc \<Longrightarrow> journal_found fs jp es"
proof -
  assume "live fs p jp es acked ps macked svc"
  then obtain j where j: "sw_path (pj_writer j) = jp" "journal_holds fs j es" by (auto simp: live_def)
  then have "fs jp \<noteq> None" by (auto simp: journal_holds_def segment_open_def)
  with j show ?thesis unfolding journal_found_def by (simp only: if_False) blast
qed

lemma live_wf:
  assumes "live fs p jp es acked ps macked svc" "jp \<noteq> p"
  shows "node_wf p jp fs (Some svc) es acked ps macked"
proof -
  from assms(1) have m: "metadata_wf fs svc ps macked" "sw_path (bo_writer (vs_metadata_outbox svc)) = p" by (simp_all add: live_def)
  from assms(1) obtain log where "set log \<subseteq> set es" "pe_event_id ` set acked \<subseteq> pe_event_id ` set log" by (auto simp: live_def)
  then have "pe_event_id ` set acked \<subseteq> pe_event_id ` set es" by (meson image_mono subset_trans)
  with wf_found [OF m] assms live_journal [OF assms(1)] show ?thesis by (simp add: node_wf_def)
qed

lemma serves_live:
  assumes "serves fs p jp es ps macked n svc" "0 < n" "pe_event_id ` set acked \<subseteq> pe_event_id ` set es"
  shows "live fs p jp es acked ps macked svc"
  using assms unfolding serves_def live_def metadata_recovered_def by blast

subsection \<open>Process events\<close>

lemma append_durable_frame:
  assumes "append_durable io fs j e = (fs', j', r)"
  shows "sw_path (pj_writer j') = sw_path (pj_writer j)" "q \<noteq> sw_path (pj_writer j) \<Longrightarrow> fs' q = fs q"
  using assms append_record_frame [of io fs "pj_writer j" "encode_pipeline_event e"]
    append_record_errD [of io fs "pj_writer j" "encode_pipeline_event e"] append_record_okD [of io fs "pj_writer j" "encode_pipeline_event e"]
  by (auto simp: append_durable_def split: sum.splits prod.splits)

text \<open>What an append does, by its answer; an append that stops part-way is not among the cases.\<close>

lemma append_durable_effect:
  assumes "append_durable io fs j e = (fs', j', r)" "r \<noteq> Inl (JeSegment (Io WriteError))"
  obtains (written) off where "r = Inr off \<or> r = Inl (JeSegment (Io SyncError))" "j' \<noteq> j"
  | (kept) err where "fs' = fs" "j' = j" "r = Inl err"
proof (cases "PipelineEvent_validate e")
  case (Inl err)
  with assms show thesis by (intro kept [of "JeIngest err"]) (auto simp: append_durable_def)
next
  case valid: (Inr u)
  obtain fs1 w x where a: "append_record io fs (pj_writer j) (encode_pipeline_event e) = (fs1, w, x)" by (metis prod_cases3)
  show thesis
  proof (cases x)
    case (Inl err)
    from append_record_errD [OF a [unfolded Inl]] assms valid a Inl show thesis
      by (intro kept) (auto simp: append_durable_def)
  next
    case (Inr off)
    from append_record_okD [OF a [unfolded Inr]] have "sw_record_count w \<noteq> sw_record_count (pj_writer j)" by simp
    then have "j\<lparr>pj_writer := w\<rparr> \<noteq> j" by (metis ProcessEventJournal.select_convs(1) ProcessEventJournal.surjective ProcessEventJournal.update_convs(1))
    with assms valid a Inr show thesis
      by (intro written [of off]) (auto simp: append_durable_def SegmentWriter_sync_def split: sum.splits if_splits)
  qed
qed

text \<open>
  A durable ingestion over a Sitas runtime leaves everything alone, or it writes the event to the journal
  and applies it to the runtime or not; a result means that the event was found there or applied.
\<close>

lemma ingest_durable_sitas:
  assumes "ingest_process_event_durable asked call io fs e svc = (fs', svc', r)"
    and "vs_hot_index svc = PxSitas rt" "vs_process_event_journal svc = Some j"
    and "r \<noteq> Inl (VsProcessEventJournal (JeSegment (Io WriteError)))"
  obtains (kept) "fs' = fs" "svc' = svc"
      "\<And>res. r = Inr res \<Longrightarrow> sitas_contains_event CallCompletes rt (pe_process_instance_id e) (pe_event_id e) = Inr True"
  | (appended) j' rt' x off where "append_durable io fs j e = (fs', j', x)" "x = Inr off \<or> x = Inl (JeSegment (Io SyncError))"
      "svc' = svc\<lparr>vs_process_event_journal := Some j', vs_hot_index := PxSitas rt'\<rparr>" "j' \<noteq> j"
      "rt' = rt \<or> rt' = fst (sitas_ingest CallCompletes e rt)"
      "\<And>res. r = Inr res \<Longrightarrow> rt' = fst (sitas_ingest CallCompletes e rt)"
proof (cases "PipelineEvent_validate e")
  case (Inl err)
  with assms show thesis by (intro kept) (auto simp: ingest_process_event_durable_def)
next
  case valid: (Inr u)
  show thesis
  proof (cases "px_contains_event asked (vs_hot_index svc) e")
    case (Inl err)
    with assms valid show thesis by (intro kept) (auto simp: ingest_process_event_durable_def)
  next
    case found: (Inr b)
    show thesis
    proof (cases b)
      case True
      have "asked = CallCompletes"
        using found assms(2) by (cases asked) (auto simp: sitas_contains_event_def sitas_query_def with_hot_index_on_def Let_def)
      with found True assms valid show thesis by (intro kept) (auto simp: ingest_process_event_durable_def)
    next
      case False
      obtain fs1 j' x where a: "append_durable io fs j e = (fs1, j', x)" by (metis prod_cases3)
      have step: "(fs', svc', r) = (case x of
          Inl err \<Rightarrow> (fs1, svc\<lparr>vs_process_event_journal := Some j'\<rparr>, Err (VsProcessEventJournal err))
        | Inr offset \<Rightarrow>
            (case px_ingest call e (PxSitas rt) of
               (px, out) \<Rightarrow>
                 (fs1, svc\<lparr>vs_process_event_journal := Some j', vs_hot_index := px\<rparr>,
                  res_bind out (\<lambda>outcome. Ok \<lparr>dpr_outcome = outcome, dpr_offset = offset\<rparr>))))"
        using assms(1,2,3) valid found False a by (simp add: ingest_process_event_durable_def split: sum.splits)
      have "x \<noteq> Inl (JeSegment (Io WriteError))" using step assms(4) by auto
      with a show thesis
      proof (cases rule: append_durable_effect)
        case (kept err)
        with step assms(3) show thesis by (intro that(1)) auto
      next
        case (written off)
        obtain rt' out where px: "px_ingest call e (PxSitas rt) = (PxSitas rt', out)"
          "rt' = rt \<or> rt' = fst (sitas_ingest CallCompletes e rt)" "(\<exists>y. out = Inr y) \<longrightarrow> rt' = fst (sitas_ingest CallCompletes e rt)"
          by (cases call) (auto simp: sitas_ingest_def with_hot_index_on_def Let_def case_prod_beta)
        show thesis
        proof (cases x)
          case (Inl err)
          with step a written assms(2) show thesis by (intro that(2) [of j' x off rt]) (auto simp: assms(2))
        next
          case (Inr offset)
          with step a written px show thesis by (intro that(2) [of j' x off rt']) (auto simp: res_bind_def split: sum.splits)
        qed
      qed
    qed
  qed
qed

lemma sitas_contains_log:
  assumes "sharded rt = runtime_of n log" "0 < n" "sitas_contains_event CallCompletes rt i k = Inr True"
  shows "k \<in> pe_event_id ` set log"
proof -
  let ?i = "shard_for_process_instance i n"
  have st: "st_indexes rt = rt_shards (runtime_of n log)" using assms(1) by (simp add: sharded_def flip: assms(1))
  have "?i < n" using assms(2) by simp
  then have "contains_event (ingest_all (routed n ?i log) HotIndex_new) k"
    using assms(3) by (simp add: sitas_contains_event_def sitas_query_def with_hot_index_on_def sitas_shard_for_def st Let_def)
  then have "k \<in> pe_event_id ` set (log_of (routed n ?i log))"
    using contains_index [OF index_of_shard] by (simp add: contains_event_def)
  then show ?thesis using set_log_of [of "routed n ?i log"] by (auto simp: routed_def)
qed

lemma live_ingested:
  assumes "live fs p jp es acked ps macked svc" "jp \<noteq> p" "event_rust e"
    and "ingest_process_event_durable asked call io fs e svc = (fs', svc', r)"
    and "r \<noteq> Inl (VsProcessEventJournal (JeSegment (Io WriteError)))"
  shows "live fs' p jp (es @ journaled_since svc svc' e) (case r of Inr res \<Rightarrow> acked @ [e] | Inl err \<Rightarrow> acked) ps macked svc'"
proof -
  from assms(1) obtain j rt n log where j: "vs_process_event_journal svc = Some j" "sw_path (pj_writer j) = jp" "journal_holds fs j es"
    and hot: "vs_hot_index svc = PxSitas rt" and n: "0 < n" and rt: "sharded rt = runtime_of n log" and log: "set log \<subseteq> set es"
    and ack: "pe_event_id ` set acked \<subseteq> pe_event_id ` set log"
    and m: "sw_path (bo_writer (vs_metadata_outbox svc)) = p" "metadata_wf fs svc ps macked"
    unfolding live_def by blast
  from assms(4) hot j(1) assms(5) show ?thesis
  proof (cases rule: ingest_durable_sitas)
    case kept
    have "pe_event_id ` set (case r of Inr res \<Rightarrow> acked @ [e] | Inl err \<Rightarrow> acked) \<subseteq> pe_event_id ` set log"
      using ack kept(3) sitas_contains_log [OF rt n] by (cases r) auto
    with j hot n rt log m kept(1,2) show ?thesis unfolding live_def journaled_since_def by auto
  next
    case (appended j' rt' x off)
    have since: "journaled_since svc svc' e = [e]" using appended(3,4) j(1) by (simp add: journaled_since_def)
    have j': "journal_holds fs' j' (es @ [e])" "sw_path (pj_writer j') = jp" "fs' p = fs p"
      using journal_holds_append [OF j(3) assms(3) appended(1,2)] append_durable_frame [OF appended(1)] j(2) assms(2) by simp_all
    have full: "sharded (fst (sitas_ingest CallCompletes e rt)) = runtime_of n (log @ [e])"
      using rt rt_ingest_runtime_of [OF n, of e log] by (simp add: sitas_ingest_step)
    have "\<exists>log'. sharded rt' = runtime_of n log' \<and> set log' \<subseteq> set (es @ [e]) \<and>
        pe_event_id ` set (case r of Inr res \<Rightarrow> acked @ [e] | Inl err \<Rightarrow> acked) \<subseteq> pe_event_id ` set log'"
    proof (cases "rt' = fst (sitas_ingest CallCompletes e rt)")
      case True
      with full log ack show ?thesis by (intro exI [of _ "log @ [e]"]) (cases r; auto)
    next
      case False
      with appended(5,6) obtain err where "rt' = rt" "r = Inl err" by (cases r) auto
      with rt log ack show ?thesis by (intro exI [of _ log]) auto
    qed
    moreover have "metadata_wf fs' svc' ps macked"
      using metadata_wf_frame [OF _ m(2), of fs'] j'(3) m(1) appended(3) by (simp add: metadata_wf_def)
    ultimately show ?thesis unfolding live_def since using j' m(1) n appended(3) by simp blast
  qed
qed

subsection \<open>Metadata events\<close>

lemma enqueue_durable_frame:
  assumes "enqueue_durable io fs payload b = (fs', b', r)"
  shows "sw_path (bo_writer b') = sw_path (bo_writer b)" "q \<noteq> sw_path (bo_writer b) \<Longrightarrow> fs' q = fs q"
  using assms append_record_frame [of io fs "bo_writer b" "IptoWritePayload_encode payload"]
    append_record_errD [of io fs "bo_writer b" "IptoWritePayload_encode payload"]
    append_record_okD [of io fs "bo_writer b" "IptoWritePayload_encode payload"]
  by (auto simp: enqueue_durable_def split: if_splits sum.splits prod.splits)

lemma capture_frame:
  assumes "capture_metadata_event read io fs ev svc = (fs', svc', r)"
  shows "sw_path (bo_writer (vs_metadata_outbox svc')) = sw_path (bo_writer (vs_metadata_outbox svc))"
    and "vs_hot_index svc' = vs_hot_index svc" "vs_process_event_journal svc' = vs_process_event_journal svc"
    and "q \<noteq> sw_path (bo_writer (vs_metadata_outbox svc)) \<Longrightarrow> fs' q = fs q"
proof -
  obtain sv1 t where t: "capture_target read ev svc = (sv1, t)" by fastforce
  from capture_target_frame [OF t] obtain m where sv1: "sv1 = svc\<lparr>vs_placement_map := m\<rparr>" by (elim exE conjE)
  have "sw_path (bo_writer (vs_metadata_outbox svc')) = sw_path (bo_writer (vs_metadata_outbox svc)) \<and>
    vs_hot_index svc' = vs_hot_index svc \<and> vs_process_event_journal svc' = vs_process_event_journal svc \<and>
    (q \<noteq> sw_path (bo_writer (vs_metadata_outbox svc)) \<longrightarrow> fs' q = fs q)" for q
  proof (cases t)
    case (Inl e)
    with assms t sv1 show ?thesis by (auto simp: capture_metadata_event_def)
  next
    case (Inr target)
    obtain fs1 b x where en: "enqueue_durable io fs (from_event ev target (vs_mapping sv1)) (vs_metadata_outbox sv1) = (fs1, b, x)"
      by (metis prod_cases3)
    from assms t Inr en sv1 enqueue_durable_frame [OF en] show ?thesis
      by (cases x) (auto simp: capture_metadata_event_def)
  qed
  then show "sw_path (bo_writer (vs_metadata_outbox svc')) = sw_path (bo_writer (vs_metadata_outbox svc))"
    "vs_hot_index svc' = vs_hot_index svc" "vs_process_event_journal svc' = vs_process_event_journal svc"
    "q \<noteq> sw_path (bo_writer (vs_metadata_outbox svc)) \<Longrightarrow> fs' q = fs q" by blast+
qed

lemma live_metadata:
  assumes "live fs p jp es acked ps macked svc" "fs' jp = fs jp" "metadata_wf fs' svc' ps' macked'"
    and "sw_path (bo_writer (vs_metadata_outbox svc')) = sw_path (bo_writer (vs_metadata_outbox svc))"
    and "vs_hot_index svc' = vs_hot_index svc" "vs_process_event_journal svc' = vs_process_event_journal svc"
  shows "live fs' p jp es acked ps' macked' svc'"
proof -
  from assms(1) obtain j where j: "vs_process_event_journal svc = Some j" "sw_path (pj_writer j) = jp" "journal_holds fs j es"
    by (auto simp: live_def)
  then have "journal_holds fs' j es" using journal_holds_frame [OF _ j(3), of fs'] assms(2) by simp
  with assms j show ?thesis unfolding live_def by simp
qed

lemma live_captured:
  assumes "live fs p jp es acked ps macked svc" "jp \<noteq> p" "capture_metadata_event read io fs ev svc = (fs', svc', r)"
    and "metadata_wf fs' svc' ps' macked'"
  shows "live fs' p jp es acked ps' macked' svc'"
proof -
  have "sw_path (bo_writer (vs_metadata_outbox svc)) = p" using assms(1) by (simp add: live_def)
  with capture_frame(4) [OF assms(3), of jp] assms(2) have "fs' jp = fs jp" by simp
  then show ?thesis by (rule live_metadata [OF assms(1) _ assms(4) capture_frame(1-3) [OF assms(3)]])
qed

subsection \<open>The invariant holds in every history\<close>

lemma node_wf_live: "node_wf p jp fs (Some svc) es acked ps macked \<Longrightarrow> live fs p jp es acked ps macked svc"
  by (simp add: node_wf_def)

lemma live_metadata_wf: "live fs p jp es acked ps macked svc \<Longrightarrow> metadata_wf fs svc ps macked"
  by (simp add: live_def)

lemma node_run_wf: "node_run p jp fs x es acked ps macked \<Longrightarrow> node_wf p jp fs x es acked ps macked"
proof (induction rule: node_run.induct)
  case nr_new
  then show ?case by (simp add: node_wf_def journal_found_def outbox_found_def)
next
  case (nr_started fs x es acked ps macked env config sid nid fs' node)
  from nr_started.IH have f: "outbox_found fs p ps macked" "journal_found fs (journal_path config p) es"
    "pe_event_id ` set acked \<subseteq> pe_event_id ` set es" "jp \<noteq> p" by (simp_all add: node_wf_def nr_started.hyps(3))
  from start_serves [OF nr_started.hyps(4,2) f(1,2)] serves_live [OF _ _ f(3)] nr_started.hyps(3)
  show ?case by (intro live_wf f(4)) blast
next
  case (nr_start_failed fs x es acked ps macked env config sid nid fs' e)
  from nr_start_failed.IH have f: "outbox_found fs p ps macked" "journal_found fs (journal_path config p) es" "journal_path config p \<noteq> p"
    by (simp_all add: node_wf_def nr_start_failed.hyps(3))
  from start_keeps_files [OF nr_start_failed.hyps(4,2) f nr_start_failed.hyps(5,6)] nr_start_failed.IH nr_start_failed.hyps(3)
  show ?case by (simp add: node_wf_def)
next
  case nr_stopped
  then show ?case by (simp add: node_wf_def)
next
  case (nr_ingested fs svc es acked ps macked e asked call io fs' svc' res)
  have jp: "jp \<noteq> p" using nr_ingested.IH by (simp add: node_wf_def)
  from live_ingested [OF node_wf_live [OF nr_ingested.IH] jp nr_ingested.hyps(2,3)] show ?case by (intro live_wf jp) simp
next
  case (nr_ingest_failed fs svc es acked ps macked e asked call io fs' svc' err)
  have jp: "jp \<noteq> p" using nr_ingest_failed.IH by (simp add: node_wf_def)
  from live_ingested [OF node_wf_live [OF nr_ingest_failed.IH] jp nr_ingest_failed.hyps(2,3)] nr_ingest_failed.hyps(4)
  show ?case by (intro live_wf jp) simp
next
  case (nr_captured fs svc es acked ps macked read io ev fs' svc' res payload)
  have jp: "jp \<noteq> p" using nr_captured.IH by (simp add: node_wf_def)
  note l = node_wf_live [OF nr_captured.IH]
  from metadata_wf_captured [OF live_metadata_wf [OF l] nr_captured.hyps(2-4)]
  show ?case by (intro live_wf jp live_captured [OF l jp nr_captured.hyps(2)])
next
  case (nr_capture_unsynced fs svc es acked ps macked read io ev fs' svc' target payload)
  have jp: "jp \<noteq> p" using nr_capture_unsynced.IH by (simp add: node_wf_def)
  note l = node_wf_live [OF nr_capture_unsynced.IH]
  from metadata_wf_unsynced [OF live_metadata_wf [OF l] nr_capture_unsynced.hyps(2-5)]
  show ?case by (intro live_wf jp live_captured [OF l jp nr_capture_unsynced.hyps(2)])
next
  case (nr_capture_refused fs svc es acked ps macked read io ev fs' svc' err)
  have jp: "jp \<noteq> p" using nr_capture_refused.IH by (simp add: node_wf_def)
  note l = node_wf_live [OF nr_capture_refused.IH]
  from metadata_wf_refused [OF live_metadata_wf [OF l] nr_capture_refused.hyps(2,3)]
  show ?case by (intro live_wf jp live_captured [OF l jp nr_capture_refused.hyps(2)])
next
  case (nr_drained fs svc es acked ps macked wr target max_attempts w svc' w' summary)
  have jp: "jp \<noteq> p" using nr_drained.IH by (simp add: node_wf_def)
  note l = node_wf_live [OF nr_drained.IH]
  have same: "sw_path (bo_writer (vs_metadata_outbox svc')) = sw_path (bo_writer (vs_metadata_outbox svc))"
    "vs_hot_index svc' = vs_hot_index svc" "vs_process_event_journal svc' = vs_process_event_journal svc"
    using nr_drained.hyps(2) by (auto simp: drain_metadata_for_target_def split: prod.splits)
  from live_metadata [where fs' = fs, OF l refl metadata_wf_drain [OF live_metadata_wf [OF l] nr_drained.hyps(2)] same]
  show ?case by (intro live_wf jp)
next
  case (nr_controlled fs svc es acked ps macked cp)
  have "jp \<noteq> p" using nr_controlled.IH by (simp add: node_wf_def)
  moreover have "metadata_wf fs (svc\<lparr>vs_control_plane := cp\<rparr>) ps macked"
    using live_metadata_wf [OF node_wf_live [OF nr_controlled.IH]] by (simp add: metadata_wf_def)
  ultimately show ?case by (intro live_wf live_metadata [where fs' = fs, OF node_wf_live [OF nr_controlled.IH]]) simp_all
qed

subsection \<open>Starting again\<close>

lemma pending_stored: "set (ob_pending (replayed (stored ps))) = wp_idempotency_key ` set ps"
proof -
  have "map (\<lambda>(off, p). wp_idempotency_key p) (stored ps) = map wp_idempotency_key (map snd (stored ps))"
    by (simp add: case_prod_beta del: map_snd_stored)
  then have "set (map (\<lambda>(off, p). wp_idempotency_key p) (stored ps)) = wp_idempotency_key ` set ps"
    by (simp only: map_snd_stored list.set_map)
  then show ?thesis by (simp add: replayed_pending set_first_seen del: list.set_map)
qed

lemma journal_found_valid: "journal_found fs jp es \<Longrightarrow> list_all event_valid es"
  by (auto simp: journal_found_def journal_holds_def split: if_splits)

lemma parse_args_options: "parse_args resolve args = Inr config \<Longrightarrow> options_ok config"
  using parse_loop_ok [OF _ default_ok] by (auto simp: parse_args_def split: sum.splits if_splits)

text \<open>What a service that holds what its files hold answers.\<close>

lemma serves_answers:
  assumes "serves fs p jp es ps macked n svc" "0 < n" "consistent_ids es"
  shows "service_process_instance CallCompletes svc iq = Inr (process_instance (ingest_all es HotIndex_new) iq)"
    and "service_events CallCompletes svc eq = Inr (events_query (ingest_all es HotIndex_new) eq)"
    and "vs_provenance_index svc = prov_ingest_all (List.map_filter wp_provenance ps) DataProvenanceIndex_new"
    and "ev \<in> set macked \<Longrightarrow> dm_idempotency_key ev \<in> prov_keys (vs_provenance_index svc)"
    and "ev \<in> set macked \<Longrightarrow> dm_idempotency_key ev \<in> set (ob_pending (bo_outbox (vs_metadata_outbox svc)))"
proof -
  from assms(1) obtain rt where rt: "vs_hot_index svc = PxSitas rt" "sharded rt = runtime_of n es" by (auto simp: serves_def)
  from assms(1) have m: "metadata_wf fs svc ps macked" "bo_outbox (vs_metadata_outbox svc) = replayed (stored ps)"
    and prov: "vs_provenance_index svc = prov_ingest_all (List.map_filter wp_provenance ps) DataProvenanceIndex_new"
    by (simp_all add: serves_def metadata_recovered_def)
  show "vs_provenance_index svc = prov_ingest_all (List.map_filter wp_provenance ps) DataProvenanceIndex_new" by (rule prov)
  show "service_process_instance CallCompletes svc iq = Inr (process_instance (ingest_all es HotIndex_new) iq)"
    "service_events CallCompletes svc eq = Inr (events_query (ingest_all es HotIndex_new) eq)"
    by (simp_all add: service_process_instance_def service_events_def rt(1) sharded_queries [OF rt(2) assms(2,3)])
  have keys: "dm_idempotency_key ` set macked \<subseteq> prov_keys (vs_provenance_index svc)"
    "prov_keys (vs_provenance_index svc) \<subseteq> wp_idempotency_key ` set ps" using m(1) by (simp_all add: metadata_wf_def)
  show "dm_idempotency_key ev \<in> prov_keys (vs_provenance_index svc)"
    "dm_idempotency_key ev \<in> set (ob_pending (bo_outbox (vs_metadata_outbox svc)))" if "ev \<in> set macked"
    using that keys by (auto simp: m(2) pending_stored)
qed


definition sample_environment :: "(nat \<times> PipelineEvent list, unit, string, json_value list) environment" where
  "sample_environment =
     \<lparr>en_home = Some ''/home/n'', en_current_dir = None, en_create_dir_all = (\<lambda>_. None), en_mailbox = list_mailbox,
      en_executor = Ok (), en_mailboxes = Ok (), en_workers = Ok (),
      en_outbox_io = \<lparr>write_budget = None, sync_fails = False\<rparr>, en_journal_io = \<lparr>write_budget = None, sync_fails = False\<rparr>,
      en_replay = (\<lambda>_. CallCompletes), en_resolver = \<lparr>rs_from_str = Some, rs_to_socket_addrs = (\<lambda>_. None)\<rparr>,
      en_raft = Inl ''timed out'', en_raft_read = (\<lambda>q. (q, Ok ClusterControlState_new)), en_raft_propose = (\<lambda>_ q. (q, Ok ())),
      en_attempts = 1, en_repo_ops = list_repo, en_repo = []\<rparr>"

lemma ingest_succeeds:
  assumes "vs_hot_index svc = PxSitas rt" "vs_process_event_journal svc = Some j"
    and "event_valid e" "length (encode_pipeline_event e) \<le> MAX_RECORD_LEN"
  shows "\<exists>fs' svc' res. ingest_process_event_durable CallCompletes CallCompletes \<lparr>write_budget = None, sync_fails = False\<rparr> fs e svc
    = (fs', svc', Inr res)"
proof -
  let ?io = "\<lparr>write_budget = None, sync_fails = False\<rparr>"
  have valid: "PipelineEvent_validate e = Inr ()" using assms(3) by (simp add: validate_iff)
  obtain fs1 j1 off where a: "append_durable ?io fs j e = (fs1, j1, Inr off)"
    using assms(4) valid append_record_unlimited [of ?io "encode_pipeline_event e" fs "pj_writer j"]
    by (simp add: append_durable_def SegmentWriter_sync_def)
  obtain b where "px_contains_event CallCompletes (PxSitas rt) e = Inr b"
    by (simp add: sitas_contains_event_def sitas_query_def with_hot_index_on_def Let_def)
  moreover obtain out where "px_ingest CallCompletes e (PxSitas rt) = (PxSitas (fst (sitas_ingest CallCompletes e rt)), Inr out)"
    using px_ingest_sitas [OF assms(3)] by blast
  ultimately show ?thesis
    using valid a assms(1,2)
    by (cases b) (simp_all add: ingest_process_event_durable_def del: px_ingest.simps px_contains_event.simps)
qed


end
