(* ===== verification/Spec2Isabelle.thy ===== *)
theory Spec2Isabelle
  imports Kafka_Client Rebalance Discovery Cluster_Query Node_Life
begin

text \<open>
  A verification library for Vannak (\<open>src/src\<close>), an index of process events and of the metadata of the
  data individuals they touch, run as a cluster of nodes.

  \<^bold>\<open>The program.\<close> Process events reach a node over HTTP or from Kafka. The node writes them to a journal,
  an append-only segment file, and applies them to its hot index, which reduces the events of a process
  instance to a state and answers queries; the index can be one map, a set of shards with bounded queues,
  or shards on an executor. Metadata events are validated, placed on an Ipto instance by a consistent-hash
  ring with overrides, written to an outbox segment and applied to a provenance index; a background writer
  delivers the outbox to the Ipto instances whose writer lease the node holds and records checkpoints in
  the control state, which a Raft log replicates. When a placement map replaces another, a monitor delivers
  the moved shards again from the outbox segment.

  \<^bold>\<open>Foundations.\<close>
  \<^item> \<open>Rust_Prelude\<close>: words for machine integers, checked arithmetic, results as sums with \<open>Ok\<close>, \<open>Err\<close> and
    \<open>res_bind\<close>, strings as UTF-8 bytes, FNV-1a; the collections of simplification rules.
  \<^item> \<open>BTree_Map\<close>: ordered maps as sorted association lists, with the locales \<open>secondary_index\<close> (an index
    that is pushed to with every insertion) and \<open>dedup_store\<close> (a store that keeps the first entry per key),
    which the hot index, the provenance index and the outbox interpret.
  \<^item> \<open>Codec\<close>: cursors over bytes, the locale \<open>byte_cursor\<close> and the relation \<open>decodes\<close>, from which round trips
    and the rejection of every proper prefix follow field by field; both binary codecs interpret it.
  \<^item> \<open>Record_Log\<close>: the locale \<open>durable_log\<close>, a segment of typed records; the journal and the durable outbox
    interpret it with their codecs.

  \<^bold>\<open>Components.\<close>
  \<^item> \<open>Storage\<close> (\<open>storage.rs\<close>): segments over an explicit file system in which a write may stop part-way and a
    sync may fail. What was appended is read back, reopening restores the writer, a changed byte is found,
    a torn append is reported; and an append after a torn one can be lost although it succeeds.
  \<^item> \<open>Events\<close>, \<open>Timestamps\<close>, \<open>Event_Codec\<close>, \<open>Journal\<close> (\<open>ingest.rs\<close>, \<open>metadata.rs\<close>): the event model, the
    ISO-8601 subset with its calendar, the codec and its round trip, the journal and its replay.
  \<^item> \<open>Process\<close> (\<open>process.rs\<close>): the reducer, with the effect of a whole history of events on an instance.
  \<^item> \<open>Query\<close>, \<open>Hot_Index\<close> (\<open>query.rs\<close>, \<open>index.rs\<close>, \<open>observability.rs\<close>): the index refines the log of accepted
    events, and every query is a query of that log cut off at its limit.
  \<^item> \<open>Runtime\<close>, \<open>Sitas_Runtime\<close> (\<open>runtime.rs\<close>, \<open>sitas_runtime.rs\<close>): the sharded runtimes. Sharding does not
    change the answers when the events of one id belong to one instance; bounded ingestion loses nothing;
    the executor-backed runtime simulates the bounded one. Fan-out queries respect their limit.
  \<^item> \<open>Sitas_Workers\<close> (\<open>sitas_runtime.rs\<close>): the worker tasks of the shards, as steps that interleave with
    submissions and drains. While workers reach the state of their shards nothing is lost or reordered and
    their summaries count what they were handed; after a stop request they finish.
  \<^item> \<open>Data_Event\<close>, \<open>Provenance_Index\<close> (\<open>data.rs\<close>): provenance events and their index, refining a log.
  \<^item> \<open>Placement\<close>, \<open>Cluster\<close> (\<open>cluster.rs\<close>, \<open>control.rs\<close>): the ring resolves to the nearest point, adding a
    slot moves shards only to it; the control state with its invariant and its monotone epochs.
  \<^item> \<open>Raft_SM\<close> (\<open>raft_sm.rs\<close>): the serialisable forms, the replicated state machine and its queries; the
    locale \<open>replicated_machine\<close> gives that a restored snapshot catches up with the log.
  \<^item> \<open>Node_Control\<close> (\<open>node_control.rs\<close>): the control plane over the consensus library, whose contract is a
    hypothesis. A proposal reported as done was accepted behind all that was committed before; a read
    sees all of it.
  \<^item> \<open>Ipto_Codec\<close>, \<open>Outbox\<close>, \<open>Durable_Outbox\<close> (\<open>ipto.rs\<close>): payloads and their codec; the outbox with its
    invariant, delivery in order and checkpoints of the acknowledged prefix; the segment-backed outbox,
    its recovery and its recovery after a checkpoint.
  \<^item> \<open>Ipto_Adapter\<close> (\<open>ipto_adapter.rs\<close>): the writer over an Ipto repository. Delivering again, after
    failures before or after a call took effect, adds no unit twice.
  \<^item> \<open>Service\<close> (\<open>service.rs\<close>, \<open>process_index.rs\<close>): the node. Acknowledged events and captured metadata
    survive restarts; a capture passes the checks of placement and lease.
  \<^item> \<open>Durga\<close>, \<open>Kafka_Ingest\<close>, \<open>Kafka_Client\<close> (\<open>durga.rs\<close>, \<open>kafka_ingest.rs\<close>, \<open>kafka_client.rs\<close>): the foreign
    event format, the pending record between journal and mailbox, the consumer with backpressure,
    rebalances and manual commits; the locale \<open>kafka_sink\<close> is the contract between consumer and sink. An
    offset is committed only after its record was appended to the journal, which holds it unless a write
    was cut short.
  \<^item> \<open>Discovery\<close>, \<open>Background_Writer\<close>, \<open>Rebalance\<close>, \<open>Http_Api\<close>, \<open>Http_Server\<close>, \<open>Cluster_Query\<close> (\<open>daemon.rs\<close>):
    finding segments agrees with the storage layer; a writer cycle commits what is acknowledged under the
    node's leases and nothing else, or records an error (the locale \<open>applying_plane\<close>); the detected ranges are exactly the moved shards and a rebalance
    delivers them; the answer to an ingest request says what happened; the scanner of peer answers returns
    every instance with the pipeline of the next.
  \<^item> \<open>Command_Line\<close> (\<open>bin/vannak.rs\<close>, \<open>bin/vannak-kafka-ingest.rs\<close>): the parsers of the options, with what an
    accepted configuration satisfies and a printer that they invert.
  \<^item> \<open>Supervisor\<close> (\<open>bin/vannak.rs\<close>, \<open>bin/vannak-node.rs\<close>): peers from DNS and arguments, and the
    initialisation of the control plane. The locale \<open>shared_plane\<close> is the contract of a control plane that
    other nodes use at the same time; the mutex and the Raft plane satisfy it.
  \<^item> \<open>Node_Start\<close>, \<open>Node_Life\<close> (\<open>bin/vannak.rs\<close> over \<open>service.rs\<close>): the whole start of a node, and its life as a history
    of starts, ingestions, captures, drains and crashes. A start without Raft and Ipto after any such life
    succeeds and brings back everything that was acknowledged.

  \<^bold>\<open>Conventions.\<close> An operation of a \<open>&mut self\<close> method returns the changed record and the result. Names
  follow the source; a type's method \<open>T::m\<close> is \<open>T_m\<close> or \<open>m\<close>. \<open>u64\<close> and \<open>u32\<close> are words; lengths and
  indices of type \<open>usize\<close> are natural numbers, and lengths that the code converts are bounded where the
  conversion matters. Histories are inductive relations (\<open>journal_run\<close>, \<open>outbox_run\<close>, \<open>service_run\<close>,
  \<open>metadata_run\<close>, \<open>node_run\<close>) that include failing syncs and restarts. Loops are structural recursion or functions
  with a termination proof; no fuel is used. A loop over outside events takes the list of what it observes.

  \<^bold>\<open>Parameters.\<close> What a call of the executor does (\<open>exec_call\<close>), mailboxes (\<open>mailbox_ops\<close>), the JSON
  library (\<open>texts\<close>, and \<open>json\<close> in \<open>Raft_SM\<close>), the Ipto writer (\<open>ipto_write\<close>) and the Ipto repository, the
  consensus library with its transport, the Kafka broker, the disk's budget, the network, the output of
  \<open>dig\<close>, the lookup of host names, the clock and the \<open>environment\<close> of a start are arguments;
  what is assumed of them is a hypothesis of the lemma that needs it.

  \<^bold>\<open>Not modelled.\<close> Of the programs under \<open>bin/\<close>: printing, signal handlers, the probe client, the server
  loop of the Raft node and the load generator; threads, sleeping and socket options of the daemon. These
  are input and output around the modelled components, or calls into libraries that are not part of the
  sources.
\<close>

end
